(* ===== verification/Prelude.thy ===== *)
theory Prelude
  imports Complex_Main "HOL-Library.Word" "HOL-Library.Char_ord" "HOL-Library.List_Lexorder"
    "HOL-Library.AList"
begin

text \<open>
  Shared vocabulary of the development: results as sums, the short-circuiting iteration of
  \<^verbatim>\<open>collect::<Result<Vec<_>,_>>()\<close>, machine-integer types, decimal rendering as
  \<^verbatim>\<open>format!\<close> does it, and the byte-level string helpers of the Rust standard library that the
  sources use. A Rust \<^verbatim>\<open>String\<close> is the list of its UTF-8 bytes; \<^verbatim>\<open>str::cmp\<close> is the
  lexicographic order of those bytes, which is the order of \<open>List_Lexorder\<close> over \<open>Char_ord\<close>.
\<close>

named_theorems result_simps \<open>unfolding of the result combinators\<close>

section \<open>Machine integers\<close>

type_synonym u64 = "64 word"

definition usize_max :: nat where
  "usize_max = 2 ^ 64 - 1"

definition i64_max :: int where
  "i64_max = 2 ^ 63 - 1"

definition i64_min :: int where
  "i64_min = - (2 ^ 63)"

text \<open>\<^verbatim>\<open>usize::saturating_add(n, 1)\<close>.\<close>

definition sat_suc :: "nat \<Rightarrow> nat" where
  "sat_suc n = min (Suc n) usize_max"

lemma sat_suc_le: "sat_suc n \<le> Suc n"
  by (simp add: sat_suc_def)

lemma sat_suc_below: "n < usize_max \<Longrightarrow> sat_suc n = Suc n"
  by (simp add: sat_suc_def)

lemma sat_suc_mono: "n \<le> usize_max \<Longrightarrow> n \<le> sat_suc n"
  by (simp add: sat_suc_def)

section \<open>Results\<close>

text \<open>\<open>Inl\<close> is \<^verbatim>\<open>Err\<close>, \<open>Inr\<close> is \<^verbatim>\<open>Ok\<close>; \<open>bindR\<close> is the question-mark operator.\<close>

definition bindR :: "'e + 'a \<Rightarrow> ('a \<Rightarrow> 'e + 'b) \<Rightarrow> 'e + 'b" where
  "bindR r f = (case r of Inl e \<Rightarrow> Inl e | Inr x \<Rightarrow> f x)"

lemma bindR_simps [simp, result_simps]:
  "bindR (Inl e) f = Inl e"
  "bindR (Inr x) f = f x"
  by (simp_all add: bindR_def)

lemma bindR_Inr_iff: "bindR r f = Inr y \<longleftrightarrow> (\<exists>x. r = Inr x \<and> f x = Inr y)"
  by (cases r) auto

lemma bindR_Inl_iff: "bindR r f = Inl e \<longleftrightarrow> r = Inl e \<or> (\<exists>x. r = Inr x \<and> f x = Inl e)"
  by (cases r) auto

lemma bindR_cong [fundef_cong]:
  "r = r' \<Longrightarrow> (\<And>x. r' = Inr x \<Longrightarrow> f x = g x) \<Longrightarrow> bindR r f = bindR r' g"
  by (cases r') auto

text \<open>\<^verbatim>\<open>Option::ok_or_else\<close>.\<close>

definition ok_or :: "'a option \<Rightarrow> 'e \<Rightarrow> 'e + 'a" where
  "ok_or x e = (case x of None \<Rightarrow> Inl e | Some y \<Rightarrow> Inr y)"

lemma ok_or_simps [simp, result_simps]:
  "ok_or None e = Inl e"
  "ok_or (Some x) e = Inr x"
  by (simp_all add: ok_or_def)

lemma ok_or_Inr_iff [simp]: "ok_or x e = Inr y \<longleftrightarrow> x = Some y"
  by (cases x) auto

lemma ok_or_Inl_iff [simp]: "ok_or x e = Inl f \<longleftrightarrow> x = None \<and> f = e"
  by (cases x) auto

text \<open>An early \<^verbatim>\<open>return Err(e)\<close> when a guard holds.\<close>

definition refuse_if :: "bool \<Rightarrow> 'e \<Rightarrow> 'e + unit" where
  "refuse_if b e = (if b then Inl e else Inr ())"

lemma refuse_if_simps [simp, result_simps]:
  "refuse_if True e = Inl e"
  "refuse_if False e = Inr ()"
  by (simp_all add: refuse_if_def)

lemma refuse_if_Inr_iff [simp]: "refuse_if b e = Inr u \<longleftrightarrow> \<not> b"
  by (auto simp: refuse_if_def)

text \<open>\<^verbatim>\<open>iter().map(f).collect::<Result<Vec<_>,_>>()\<close>: stops at the first error.\<close>

fun mapR :: "('a \<Rightarrow> 'e + 'b) \<Rightarrow> 'a list \<Rightarrow> 'e + 'b list" where
  "mapR f [] = Inr []"
| "mapR f (x # xs) = bindR (f x) (\<lambda>y. bindR (mapR f xs) (\<lambda>ys. Inr (y # ys)))"

lemma mapR_cong [fundef_cong]:
  "xs = ys \<Longrightarrow> (\<And>x. x \<in> set ys \<Longrightarrow> f x = g x) \<Longrightarrow> mapR f xs = mapR g ys"
proof (induction ys arbitrary: xs)
  case Nil
  then show ?case by simp
next
  case (Cons y ys)
  then have "mapR f ys = mapR g ys" by simp
  with Cons.prems show ?case by simp
qed

lemma mapR_Inr_length: "mapR f xs = Inr ys \<Longrightarrow> length ys = length xs"
  by (induction xs arbitrary: ys) (auto simp: bindR_Inr_iff)

lemma mapR_Inr_all2: "mapR f xs = Inr ys \<Longrightarrow> list_all2 (\<lambda>x y. f x = Inr y) xs ys"
  by (induction xs arbitrary: ys) (auto simp: bindR_Inr_iff)

lemma mapR_Inr_set: "mapR f xs = Inr ys \<Longrightarrow> y \<in> set ys \<Longrightarrow> \<exists>x \<in> set xs. f x = Inr y"
  by (induction xs arbitrary: ys) (auto simp: bindR_Inr_iff)

text \<open>The same loop where the closure also threads a mutable state.\<close>

fun mapRS :: "('s \<Rightarrow> 'a \<Rightarrow> 'e + 'b \<times> 's) \<Rightarrow> 's \<Rightarrow> 'a list \<Rightarrow> 'e + 'b list \<times> 's" where
  "mapRS f s [] = Inr ([], s)"
| "mapRS f s (x # xs) =
     bindR (f s x) (\<lambda>(y, s'). bindR (mapRS f s' xs) (\<lambda>(ys, s''). Inr (y # ys, s'')))"

lemma mapRS_cong [fundef_cong]:
  "s = t \<Longrightarrow> xs = ys \<Longrightarrow> (\<And>r x. x \<in> set ys \<Longrightarrow> f r x = g r x) \<Longrightarrow> mapRS f s xs = mapRS g t ys"
proof (induction ys arbitrary: xs s t)
  case Nil
  then show ?case by simp
next
  case (Cons y ys)
  have ih: "mapRS f r ys = mapRS g r ys" for r
    by (rule Cons.IH) (auto simp: Cons.prems(3))
  have eq: "f t y = g t y"
    by (rule Cons.prems(3)) simp
  show ?case
    unfolding Cons.prems(1,2) mapRS.simps eq ih ..
qed

lemma mapRS_Inr_length: "mapRS f s xs = Inr (ys, t) \<Longrightarrow> length ys = length xs"
  by (induction xs arbitrary: s ys) (auto simp: bindR_Inr_iff split: prod.splits)

lemma mapRS_Inr_set:
  "mapRS f s xs = Inr (ys, t) \<Longrightarrow> y \<in> set ys \<Longrightarrow> \<exists>x \<in> set xs. \<exists>r r'. f r x = Inr (y, r')"
  by (induction xs arbitrary: s ys) (fastforce simp: bindR_Inr_iff split: prod.splits)+

section \<open>Decimal rendering\<close>

fun show_nat :: "nat \<Rightarrow> string" where
  "show_nat n =
     (if n < 10 then [char_of (48 + n)] else show_nat (n div 10) @ [char_of (48 + n mod 10)])"

declare show_nat.simps [simp del]

definition show_int :: "int \<Rightarrow> string" where
  "show_int i = (if i < 0 then CHR ''-'' # show_nat (nat (- i)) else show_nat (nat i))"

text \<open>\<^verbatim>\<open>{n:012}\<close>: at least twelve digits, zero filled, never truncated.\<close>

definition pad12 :: "nat \<Rightarrow> string" where
  "pad12 n = (let s = show_nat n in replicate (12 - length s) (CHR ''0'') @ s)"

definition digit_val :: "char \<Rightarrow> nat" where
  "digit_val c = of_char c - 48"

definition is_digit :: "char \<Rightarrow> bool" where
  "is_digit c \<longleftrightarrow> 48 \<le> (of_char c :: nat) \<and> (of_char c :: nat) \<le> 57"

fun dec_val :: "string \<Rightarrow> nat" where
  "dec_val [] = 0"
| "dec_val (c # cs) = digit_val c * 10 ^ length cs + dec_val cs"


lemma is_digit_char [simp]: "n < 10 \<Longrightarrow> is_digit (char_of (48 + n :: nat))"
  by (simp add: is_digit_def of_char_of)

lemma digit_val_char [simp]: "n < 10 \<Longrightarrow> digit_val (char_of (48 + n :: nat)) = n"
  by (simp add: digit_val_def of_char_of)

lemma digit_val_bound: "is_digit c \<Longrightarrow> digit_val c < 10"
  by (auto simp: is_digit_def digit_val_def)

lemma is_digit_zero [simp]: "is_digit (CHR ''0'')"
  by (simp add: is_digit_def)

lemma digit_val_zero [simp]: "digit_val (CHR ''0'') = 0"
  by (simp add: digit_val_def)

lemma digit_less_iff: "is_digit c \<Longrightarrow> is_digit d \<Longrightarrow> c < d \<longleftrightarrow> digit_val c < digit_val d"
  by (auto simp: less_char_def is_digit_def digit_val_def)

lemma digit_eq_iff: "is_digit c \<Longrightarrow> is_digit d \<Longrightarrow> c = d \<longleftrightarrow> digit_val c = digit_val d"
  by (auto simp: is_digit_def digit_val_def le_imp_diff_is_add)

lemma dec_val_append: "dec_val (xs @ ys) = dec_val xs * 10 ^ length ys + dec_val ys"
  by (induction xs) (auto simp: power_add algebra_simps)

lemma dec_val_replicate_zero [simp]: "dec_val (replicate n (CHR ''0'')) = 0"
  by (induction n) auto

lemma dec_val_bound: "\<forall>c \<in> set s. is_digit c \<Longrightarrow> dec_val s < 10 ^ length s"
proof (induction s)
  case Nil
  then show ?case by simp
next
  case (Cons c s)
  then have "dec_val s < 10 ^ length s" and "digit_val c \<le> 9"
    using digit_val_bound [of c] by auto
  then have "digit_val c * 10 ^ length s + dec_val s < 9 * 10 ^ length s + 10 ^ length s"
    by (intro add_le_less_mono mult_le_mono1)
  then show ?case by simp
qed

lemma dec_val_less_iff:
  assumes "length s = length t" "\<forall>c \<in> set s. is_digit c" "\<forall>c \<in> set t. is_digit c"
  shows "s < t \<longleftrightarrow> dec_val s < dec_val t"
  using assms
proof (induction s t rule: list_induct2)
  case Nil
  then show ?case by simp
next
  case (Cons c s d t)
  have bs: "dec_val s < 10 ^ length t" and bt: "dec_val t < 10 ^ length t"
    using Cons.prems Cons.hyps dec_val_bound [of s] dec_val_bound [of t] by auto
  have ih: "s < t \<longleftrightarrow> dec_val s < dec_val t"
    using Cons.prems Cons.IH by simp
  have step: "x * 10 ^ length t + dec_val s < y * 10 ^ length t + dec_val t" if "x < y" for x y
  proof -
    from that have "x * 10 ^ length t + 10 ^ length t \<le> y * 10 ^ length t"
      by (metis add.commute less_eq_Suc_le mult_Suc mult_le_mono1)
    with bs show ?thesis by linarith
  qed
  have step': "y * 10 ^ length t + dec_val t < x * 10 ^ length t + dec_val s" if "y < x" for x y
  proof -
    from that have "y * 10 ^ length t + 10 ^ length t \<le> x * 10 ^ length t"
      by (metis add.commute less_eq_Suc_le mult_Suc mult_le_mono1)
    with bt show ?thesis by linarith
  qed
  have c: "is_digit c" and d: "is_digit d" using Cons.prems by auto
  show ?case
  proof (cases "digit_val c" "digit_val d" rule: linorder_cases)
    case less
    with c d have "c < d" by (simp add: digit_less_iff)
    with step [OF less] Cons.hyps show ?thesis by simp
  next
    case equal
    with c d have "c = d" by (simp add: digit_eq_iff)
    with ih Cons.hyps show ?thesis by simp
  next
    case greater
    with c d have "d < c" by (simp add: digit_less_iff)
    with step' [OF greater] Cons.hyps show ?thesis by auto
  qed
qed

lemma show_nat_digits: "\<forall>c \<in> set (show_nat n). is_digit c"
proof (induction n rule: show_nat.induct)
  case (1 n)
  then show ?case by (subst show_nat.simps) auto
qed

lemma dec_val_show_nat [simp]: "dec_val (show_nat n) = n"
proof (induction n rule: show_nat.induct)
  case (1 n)
  then show ?case by (subst show_nat.simps) (auto simp: dec_val_append)
qed

lemma show_nat_inject [simp]: "show_nat m = show_nat n \<longleftrightarrow> m = n"
  by (metis dec_val_show_nat)

lemma show_nat_nonempty [simp]: "show_nat n \<noteq> []"
  by (subst show_nat.simps) simp

lemma length_show_nat: "n < 10 ^ Suc k \<Longrightarrow> length (show_nat n) \<le> Suc k"
proof (induction k arbitrary: n)
  case 0
  then show ?case by (subst show_nat.simps) simp
next
  case (Suc k)
  show ?case
  proof (cases "n < 10")
    case True
    then show ?thesis by (subst show_nat.simps) simp
  next
    case False
    from Suc.prems have "n div 10 < 10 ^ Suc k" by (simp add: less_mult_imp_div_less)
    then have "length (show_nat (n div 10)) \<le> Suc k" by (rule Suc.IH)
    with False show ?thesis by (subst show_nat.simps) simp
  qed
qed

lemma pad12_digits: "\<forall>c \<in> set (pad12 n). is_digit c"
  using show_nat_digits by (auto simp: pad12_def Let_def)

lemma dec_val_pad12 [simp]: "dec_val (pad12 n) = n"
  by (simp add: pad12_def Let_def dec_val_append)

lemma length_pad12: "n < 10 ^ 12 \<Longrightarrow> length (pad12 n) = 12"
  using length_show_nat [of n 11] by (simp add: pad12_def Let_def)

lemma less_append: "length s = length t \<Longrightarrow> s < t \<Longrightarrow> s @ (x :: 'a :: linorder list) < t @ y"
  by (induction s t rule: list_induct2) auto

lemma pad12_less:
  assumes "m < n" "n < 10 ^ 12"
  shows "pad12 m @ x < pad12 n @ y"
proof (rule less_append)
  show len: "length (pad12 m) = length (pad12 n)"
    using assms by (simp add: length_pad12)
  show "pad12 m < pad12 n"
    using assms(1) len by (simp add: dec_val_less_iff pad12_digits)
qed

lemma append_less_iff [simp]: "p @ x < p @ y \<longleftrightarrow> x < (y :: 'a :: linorder list)"
  by (induction p) auto

section \<open>Strings of the Rust standard library\<close>

definition starts_with :: "string \<Rightarrow> string \<Rightarrow> bool" where
  "starts_with p s \<longleftrightarrow> take (length p) s = p"

lemma starts_with_append [simp]: "starts_with p (p @ s)"
  by (simp add: starts_with_def)

text \<open>\<^verbatim>\<open>char::is_whitespace\<close> on the UTF-8 bytes: the number of bytes of a white-space
  character at the front of the string, 0 if there is none.\<close>

definition byte :: "char \<Rightarrow> nat" where
  "byte c = of_char c"

definition ws_ascii :: "char \<Rightarrow> bool" where
  "ws_ascii c \<longleftrightarrow> (9 \<le> byte c \<and> byte c \<le> 13) \<or> byte c = 32"

definition ws_two :: "char \<Rightarrow> char \<Rightarrow> bool" where
  "ws_two c d \<longleftrightarrow> byte c = 194 \<and> (byte d = 133 \<or> byte d = 160)"

definition ws_three :: "char \<Rightarrow> char \<Rightarrow> char \<Rightarrow> bool" where
  "ws_three c d e \<longleftrightarrow>
     (byte c = 225 \<and> byte d = 154 \<and> byte e = 128) \<or>
     (byte c = 226 \<and> byte d = 128 \<and>
        (128 \<le> byte e \<and> byte e \<le> 138 \<or> byte e = 168 \<or> byte e = 169 \<or> byte e = 175)) \<or>
     (byte c = 226 \<and> byte d = 129 \<and> byte e = 159) \<or>
     (byte c = 227 \<and> byte d = 128 \<and> byte e = 128)"

fun trim_start :: "string \<Rightarrow> string" where
  "trim_start (c # d # e # s) =
     (if ws_ascii c then trim_start (d # e # s)
      else if ws_two c d then trim_start (e # s)
      else if ws_three c d e then trim_start s
      else c # d # e # s)"
| "trim_start [c, d] =
     (if ws_ascii c then trim_start [d] else if ws_two c d then [] else [c, d])"
| "trim_start [c] = (if ws_ascii c then [] else [c])"
| "trim_start [] = []"

fun trim_rev :: "string \<Rightarrow> string" where
  "trim_rev (e # d # c # s) =
     (if ws_ascii e then trim_rev (d # c # s)
      else if ws_two d e then trim_rev (c # s)
      else if ws_three c d e then trim_rev s
      else e # d # c # s)"
| "trim_rev [e, d] =
     (if ws_ascii e then trim_rev [d] else if ws_two d e then [] else [e, d])"
| "trim_rev [e] = (if ws_ascii e then [] else [e])"
| "trim_rev [] = []"

definition trim :: "string \<Rightarrow> string" where
  "trim s = rev (trim_rev (rev (trim_start s)))"

definition ascii_digit :: "char \<Rightarrow> bool" where
  "ascii_digit c \<longleftrightarrow> 48 \<le> byte c \<and> byte c \<le> 57"

definition ascii_upper :: "char \<Rightarrow> bool" where
  "ascii_upper c \<longleftrightarrow> 65 \<le> byte c \<and> byte c \<le> 90"

definition ascii_lower :: "char \<Rightarrow> bool" where
  "ascii_lower c \<longleftrightarrow> 97 \<le> byte c \<and> byte c \<le> 122"

definition ascii_alphanumeric :: "char \<Rightarrow> bool" where
  "ascii_alphanumeric c \<longleftrightarrow> ascii_digit c \<or> ascii_upper c \<or> ascii_lower c"

definition ascii_lowercase :: "char \<Rightarrow> char" where
  "ascii_lowercase ch = (if ascii_upper ch then char_of (byte ch + 32) else ch)"

text \<open>A byte that continues a character of UTF-8; \<^verbatim>\<open>chars().count()\<close> counts the others.\<close>

definition continuation :: "char \<Rightarrow> bool" where
  "continuation ch \<longleftrightarrow> byte ch div 64 = 2"

definition char_count :: "string \<Rightarrow> nat" where
  "char_count s = length (filter (\<lambda>ch. \<not> continuation ch) s)"

lemma trim_start_suffix: "\<exists>p. s = p @ trim_start s"
proof (induction s rule: trim_start.induct)
  case (1 c d e s)
  then show ?case
    by (auto intro: exI [of _ "[c]"] dest: spec)
       (metis append_Cons append_Nil)+
next
  case (2 c d)
  then show ?case by (auto intro: exI [of _ "[]"] exI [of _ "[c]"])
next
  case (3 c)
  then show ?case by (auto intro: exI [of _ "[]"] exI [of _ "[c]"])
next
  case 4
  then show ?case by simp
qed

lemma trim_start_length: "length (trim_start s) \<le> length s"
  by (induction s rule: trim_start.induct) auto

lemma trim_start_idem [simp]: "trim_start (trim_start s) = trim_start s"
  by (induction s rule: trim_start.induct) auto

lemma trim_rev_idem [simp]: "trim_rev (trim_rev s) = trim_rev s"
  by (induction s rule: trim_rev.induct) auto

lemma trim_rev_suffix: "\<exists>p. s = p @ trim_rev s"
proof (induction s rule: trim_rev.induct)
  case (1 e d c s)
  then show ?case by (auto intro: exI [of _ "[e]"] dest: spec) (metis append_Cons append_Nil)+
next
  case (2 e d)
  then show ?case by (auto intro: exI [of _ "[]"] exI [of _ "[e]"])
next
  case (3 e)
  then show ?case by (auto intro: exI [of _ "[]"] exI [of _ "[e]"])
next
  case 4
  then show ?case by simp
qed

text \<open>A text that does not start with white space, cut at the end, still does not.\<close>

lemma trim_start_fixed:
  assumes "trim_start (c # s) = c # s"
  shows "\<not> ws_ascii c"
proof
  assume "ws_ascii c"
  then have "trim_start (c # s) = trim_start s" by (cases s rule: trim_start.cases) auto
  with assms trim_start_length [of s] show False by simp
qed

lemma trim_start_fixed_two:
  assumes "trim_start (c # d # s) = c # d # s"
  shows "\<not> ws_two c d"
proof
  assume "ws_two c d"
  with trim_start_fixed [OF assms] have "trim_start (c # d # s) = trim_start s"
    by (cases s) auto
  with assms trim_start_length [of s] show False by simp
qed

lemma trim_start_prefix: "trim_start (u @ w) = u @ w \<Longrightarrow> trim_start u = u"
proof (cases u rule: trim_start.cases)
  case (1 c d e s)
  assume "trim_start (u @ w) = u @ w"
  with 1 have fixed: "trim_start (c # d # e # s @ w) = c # d # e # s @ w" by simp
  have "\<not> ws_three c d e"
  proof
    assume "ws_three c d e"
    with trim_start_fixed [OF fixed] trim_start_fixed_two [OF fixed]
    have "trim_start (c # d # e # s @ w) = trim_start (s @ w)" by simp
    with fixed have "length (c # d # e # s @ w) = length (trim_start (s @ w))" by metis
    with trim_start_length [of "s @ w"] show False by simp
  qed
  with 1 trim_start_fixed [OF fixed] trim_start_fixed_two [OF fixed] show ?thesis by simp
next
  case (2 c d)
  assume "trim_start (u @ w) = u @ w"
  with 2 show ?thesis using trim_start_fixed [of c "d # w"] trim_start_fixed_two [of c d w] by simp
next
  case (3 c)
  assume "trim_start (u @ w) = u @ w"
  with 3 show ?thesis using trim_start_fixed [of c w] by simp
qed simp

lemma trim_idem [simp]: "trim (trim s) = trim s"
proof -
  let ?t = "trim_start s"
  obtain p where "rev ?t = p @ trim_rev (rev ?t)" using trim_rev_suffix by blast
  then have "?t = rev (trim_rev (rev ?t)) @ rev p" by (metis rev_append rev_rev_ident)
  then have "trim_start (trim s) = trim s"
    unfolding trim_def by (metis trim_start_idem trim_start_prefix)
  then show ?thesis by (simp add: trim_def)
qed

text \<open>A text of plain ASCII characters.\<close>

definition plain :: "char \<Rightarrow> bool" where
  "plain ch \<longleftrightarrow> byte ch < 128 \<and> \<not> ws_ascii ch"

lemma plain_two: "plain c \<Longrightarrow> \<not> ws_two c d" "plain d \<Longrightarrow> \<not> ws_two c d"
  by (auto simp: plain_def ws_two_def)

lemma plain_three: "plain c \<Longrightarrow> \<not> ws_three c d e" "plain e \<Longrightarrow> \<not> ws_three c d e"
  by (auto simp: plain_def ws_three_def)

lemma plain_ascii: "plain c \<Longrightarrow> \<not> ws_ascii c"
  by (simp add: plain_def)

lemma trim_plain: "list_all plain s \<Longrightarrow> trim s = s"
proof -
  have "list_all plain t \<Longrightarrow> trim_start t = t" for t
    by (cases t rule: trim_start.cases) (simp_all add: plain_ascii plain_two plain_three)
  moreover have "list_all plain t \<Longrightarrow> trim_rev t = t" for t
    by (cases t rule: trim_rev.cases) (simp_all add: plain_ascii plain_two plain_three)
  moreover assume "list_all plain s"
  ultimately show ?thesis by (simp add: trim_def)
qed

text \<open>\<^verbatim>\<open>str::split\<close> at a character.\<close>

fun split_on :: "char \<Rightarrow> string \<Rightarrow> string list" where
  "split_on d [] = [[]]"
| "split_on d (ch # s) =
     (if ch = d then [] # split_on d s
      else case split_on d s of [] \<Rightarrow> [[ch]] | w # ws \<Rightarrow> (ch # w) # ws)"

text \<open>\<^verbatim>\<open>str::parse::<usize>\<close>: an optional plus sign, then digits, refused on overflow.\<close>

definition parse_usize :: "string \<Rightarrow> nat option" where
  "parse_usize s =
     (let digits = (if take 1 s = ''+'' then drop 1 s else s) in
      if digits = [] \<or> \<not> list_all is_digit digits then None
      else if dec_val digits \<le> usize_max then Some (dec_val digits) else None)"

text \<open>\<^verbatim>\<open>str::find(p)\<close>: the text before the first occurrence and the text after it.\<close>

fun break_on :: "string \<Rightarrow> string \<Rightarrow> (string \<times> string) option" where
  "break_on p [] = (if p = [] then Some ([], []) else None)"
| "break_on p (ch # s) =
     (if starts_with p (ch # s) then Some ([], drop (length p) (ch # s))
      else map_option (\<lambda>(a, b). (ch # a, b)) (break_on p s))"

lemma break_on_Some: "break_on p s = Some (a, b) \<Longrightarrow> s = a @ p @ b"
  by (induction s arbitrary: a)
    (auto simp: starts_with_def split: if_splits, metis append_take_drop_id)

section \<open>Runs of a transition system\<close>

inductive reachable_from :: "('s \<Rightarrow> bool) \<Rightarrow> ('s \<Rightarrow> 's \<Rightarrow> bool) \<Rightarrow> 's \<Rightarrow> bool"
  for init :: "'s \<Rightarrow> bool" and step :: "'s \<Rightarrow> 's \<Rightarrow> bool" where
  reach_init: "init s \<Longrightarrow> reachable_from init step s"
| reach_step: "reachable_from init step s \<Longrightarrow> step s t \<Longrightarrow> reachable_from init step t"

text \<open>An invariant of a transition system: it holds at the start and every step keeps it.\<close>

locale invariant_system =
  fixes init :: "'s \<Rightarrow> bool"
    and step :: "'s \<Rightarrow> 's \<Rightarrow> bool"
    and inv :: "'s \<Rightarrow> bool"
  assumes init_inv: "init s \<Longrightarrow> inv s"
    and step_inv: "step s t \<Longrightarrow> inv s \<Longrightarrow> inv t"
begin

lemma reach_inv: "reachable_from init step s \<Longrightarrow> inv s"
  by (induction rule: reachable_from.induct) (auto intro: init_inv step_inv)

lemma run_inv: "step\<^sup>*\<^sup>* s t \<Longrightarrow> inv s \<Longrightarrow> inv t"
  by (induction rule: rtranclp_induct) (auto intro: step_inv)

end

text \<open>A system whose steps only move up a preorder, from states that keep an invariant.\<close>

locale monotone_system = invariant_system +
  fixes le :: "'s \<Rightarrow> 's \<Rightarrow> bool"
  assumes le_refl: "inv s \<Longrightarrow> le s s"
    and le_trans: "le s t \<Longrightarrow> le t u \<Longrightarrow> le s u"
    and step_le: "inv s \<Longrightarrow> step s t \<Longrightarrow> le s t"
begin

lemma run_le: "step\<^sup>*\<^sup>* s t \<Longrightarrow> inv s \<Longrightarrow> le s t"
proof (induction rule: rtranclp_induct)
  case base
  then show ?case by (rule le_refl)
next
  case (step t u)
  then have "inv t" by (auto intro: run_inv)
  with step show ?case by (blast intro: le_trans step_le)
qed

end

section \<open>Stores listed in key order\<close>

text \<open>What a client may rely on of a store of named records: the listing is the sorted list of the
  member names the store holds.\<close>

locale record_store =
  fixes listing :: "'d \<Rightarrow> ('k :: linorder) list"
    and lookup :: "'d \<Rightarrow> 'k \<Rightarrow> 'v option"
    and valid :: "'d \<Rightarrow> bool"
    and member :: "'k \<Rightarrow> bool"
  assumes listing_sorted: "valid d \<Longrightarrow> sorted (listing d) \<and> distinct (listing d)"
    and listing_dom: "valid d \<Longrightarrow> k \<in> set (listing d) \<longleftrightarrow> member k \<and> lookup d k \<noteq> None"
begin

lemma listing_frame:
  assumes "valid d" "valid s" "\<And>k. member k \<Longrightarrow> lookup s k = lookup d k"
  shows "listing s = listing d"
  using assms listing_sorted [of d] listing_sorted [of s]
  by (intro sorted_distinct_set_unique) (auto simp: listing_dom)

lemma listing_publish:
  assumes "valid d" "valid s" "member k" "lookup s k \<noteq> None"
    and "\<And>n. member n \<Longrightarrow> n \<noteq> k \<Longrightarrow> lookup s n = lookup d n"
    and "\<And>n. n \<in> set (listing d) \<Longrightarrow> n < k"
  shows "listing s = listing d @ [k]"
proof (rule sorted_distinct_set_unique)
  show "sorted (listing s)" "distinct (listing s)"
    using listing_sorted [OF assms(2)] by auto
  show "sorted (listing d @ [k])"
    using listing_sorted [OF assms(1)] assms(6) by (auto simp: sorted_append intro: less_imp_le)
  show "distinct (listing d @ [k])"
    using listing_sorted [OF assms(1)] assms(6) by auto
  have "x \<in> set (listing s) \<longleftrightarrow> x \<in> set (listing d) \<or> x = k" for x
    using assms(3,4) assms(5) [of x] listing_dom [OF assms(1), of x] listing_dom [OF assms(2), of x]
    by (cases "x = k") auto
  then show "set (listing s) = set (listing d @ [k])" by auto
qed

end

end
