(* ===== verification/Json.thy ===== *)
theory Json
  imports Prelude "HOL-Library.Log_Nat"
begin

text \<open>
  The JSON values every component exchanges: the public data type \<^verbatim>\<open>serde_json::Value\<close> with the
  feature \<^verbatim>\<open>preserve_order\<close> that the crates of the repository select. An object is the
  insertion-ordered association list of its entries (keys are distinct in every value the program
  can hold: \<open>wf_json\<close>); \<^verbatim>\<open>insert\<close> replaces in place or appends, \<^verbatim>\<open>remove\<close> is the
  documented swap-remove, and equality of objects ignores the order of the entries. A number is an
  unsigned or a negative 64-bit integer or a finite double; the double is the rational it denotes,
  with negative zero kept apart. \<^verbatim>\<open>as_f64\<close> on an integer rounds to 53 bits, ties to even.
\<close>

datatype f64 = FNegZero | FFin rat

datatype jnum = PosInt u64 | NegInt u64 | Float f64

datatype json =
    JNull
  | JBool bool
  | JNum jnum
  | JStr string
  | JArr "json list"
  | JObj "(string \<times> json) list"

type_synonym jmap = "(string \<times> json) list"

section \<open>Numbers\<close>

definition f64_val :: "f64 \<Rightarrow> rat" where
  "f64_val f = (case f of FNegZero \<Rightarrow> 0 | FFin r \<Rightarrow> r)"

definition round53 :: "nat \<Rightarrow> nat" where
  "round53 n =
     (if n < 2 ^ 53 then n
      else let e = floorlog 2 n - 53; q = n div 2 ^ e; r = n mod 2 ^ e
           in (if 2 ^ e < 2 * r \<or> (2 * r = 2 ^ e \<and> odd q) then q + 1 else q) * 2 ^ e)"

definition as_f64 :: "jnum \<Rightarrow> rat" where
  "as_f64 n =
     (case n of
        PosInt w \<Rightarrow> of_nat (round53 (unat w))
      | NegInt w \<Rightarrow> - of_nat (round53 (nat (- sint w)))
      | Float f \<Rightarrow> f64_val f)"

text \<open>Equality of \<^verbatim>\<open>serde_json::Number\<close>: by representation, doubles by value.\<close>

fun num_eq :: "jnum \<Rightarrow> jnum \<Rightarrow> bool" where
  "num_eq (PosInt v) (PosInt w) \<longleftrightarrow> v = w"
| "num_eq (NegInt v) (NegInt w) \<longleftrightarrow> v = w"
| "num_eq (Float f) (Float g) \<longleftrightarrow> f64_val f = f64_val g"
| "num_eq _ _ \<longleftrightarrow> False"

lemma num_eq_refl [simp]: "num_eq n n"
  by (cases n) auto

lemma num_eq_sym: "num_eq m n \<Longrightarrow> num_eq n m"
  by (cases m; cases n) auto

lemma num_eq_trans: "num_eq l m \<Longrightarrow> num_eq m n \<Longrightarrow> num_eq l n"
  by (cases l; cases m; cases n) auto

lemma num_eq_as_f64: "num_eq m n \<Longrightarrow> as_f64 m = as_f64 n"
  by (cases m; cases n) (auto simp: as_f64_def)

section \<open>Views\<close>

definition as_str :: "json \<Rightarrow> string option" where
  "as_str v = (case v of JStr s \<Rightarrow> Some s | _ \<Rightarrow> None)"

definition as_bool :: "json \<Rightarrow> bool option" where
  "as_bool v = (case v of JBool b \<Rightarrow> Some b | _ \<Rightarrow> None)"

definition as_array :: "json \<Rightarrow> json list option" where
  "as_array v = (case v of JArr xs \<Rightarrow> Some xs | _ \<Rightarrow> None)"

definition as_object :: "json \<Rightarrow> jmap option" where
  "as_object v = (case v of JObj m \<Rightarrow> Some m | _ \<Rightarrow> None)"

definition is_null :: "json \<Rightarrow> bool" where
  "is_null v = (case v of JNull \<Rightarrow> True | _ \<Rightarrow> False)"

definition as_u64 :: "json \<Rightarrow> u64 option" where
  "as_u64 v = (case v of JNum (PosInt w) \<Rightarrow> Some w | _ \<Rightarrow> None)"

definition as_i64 :: "json \<Rightarrow> int option" where
  "as_i64 v =
     (case v of
        JNum (PosInt w) \<Rightarrow> if uint w \<le> i64_max then Some (uint w) else None
      | JNum (NegInt w) \<Rightarrow> Some (sint w)
      | _ \<Rightarrow> None)"

definition jnat :: "nat \<Rightarrow> json" where
  "jnat n = JNum (PosInt (of_nat n))"

definition jint :: "int \<Rightarrow> json" where
  "jint i = JNum (if i < 0 then NegInt (word_of_int i) else PosInt (word_of_int i))"

definition jopt_str :: "string option \<Rightarrow> json" where
  "jopt_str x = (case x of None \<Rightarrow> JNull | Some s \<Rightarrow> JStr s)"

definition jopt :: "json option \<Rightarrow> json" where
  "jopt x = (case x of None \<Rightarrow> JNull | Some v \<Rightarrow> v)"

lemma as_str_Some [simp]: "as_str v = Some s \<longleftrightarrow> v = JStr s"
  by (cases v) (auto simp: as_str_def)

lemma as_object_Some [simp]: "as_object v = Some m \<longleftrightarrow> v = JObj m"
  by (cases v) (auto simp: as_object_def)

lemma as_array_Some [simp]: "as_array v = Some xs \<longleftrightarrow> v = JArr xs"
  by (cases v) (auto simp: as_array_def)

lemma as_bool_Some [simp]: "as_bool v = Some b \<longleftrightarrow> v = JBool b"
  by (cases v) (auto simp: as_bool_def)

lemma as_u64_Some [simp]: "as_u64 v = Some w \<longleftrightarrow> v = JNum (PosInt w)"
  by (auto simp: as_u64_def split: json.splits jnum.splits)

lemma view_constructors [simp]:
  "as_str (JStr s) = Some s" "as_str JNull = None" "as_str (JBool b) = None"
  "as_str (JNum n) = None" "as_str (JArr xs) = None" "as_str (JObj m) = None"
  "as_object (JObj m) = Some m" "as_object JNull = None" "as_object (JBool b) = None"
  "as_object (JNum n) = None" "as_object (JArr xs) = None" "as_object (JStr s) = None"
  "as_array (JArr xs) = Some xs" "as_array JNull = None" "as_array (JBool b) = None"
  "as_array (JNum n) = None" "as_array (JObj m) = None" "as_array (JStr s) = None"
  "as_bool (JBool b) = Some b" "as_bool JNull = None" "as_bool (JNum n) = None"
  "as_bool (JArr xs) = None" "as_bool (JObj m) = None" "as_bool (JStr s) = None"
  "as_u64 (JNum (PosInt w)) = Some w" "as_u64 (JNum (NegInt w)) = None"
  "as_u64 (JNum (Float f)) = None" "as_u64 JNull = None" "as_u64 (JStr s) = None"
  "as_u64 (JArr xs) = None" "as_u64 (JObj m) = None" "as_u64 (JBool b) = None"
  "is_null JNull" "\<not> is_null (JStr s)" "\<not> is_null (JObj m)" "\<not> is_null (JArr xs)"
  "\<not> is_null (JBool b)" "\<not> is_null (JNum n)"
  by (simp_all add: as_str_def as_object_def as_array_def as_bool_def as_u64_def is_null_def)

lemma as_i64_range: "as_i64 v = Some i \<Longrightarrow> i64_min \<le> i \<and> i \<le> i64_max"
proof -
  assume "as_i64 v = Some i"
  then consider w where "uint (w :: u64) \<le> i64_max" "i = uint w" | w where "i = sint (w :: u64)"
    by (auto simp: as_i64_def split: json.splits jnum.splits if_splits)
  then show ?thesis
  proof cases
    case 1
    then show ?thesis by (simp add: i64_min_def uint_ge_0 order_trans [of _ 0])
  next
    case (2 w)
    have "- (2 ^ 63) \<le> sint w" "sint w < 2 ^ 63"
      using sint_ge [of w] sint_lt [of w] by simp_all
    with 2 show ?thesis by (simp add: i64_min_def i64_max_def)
  qed
qed

lemma sint_word_of_int: "i64_min \<le> i \<Longrightarrow> i < 0 \<Longrightarrow> sint (word_of_int i :: u64) = i"
  by (simp add: i64_min_def signed_of_int signed_take_bit_int_eq_self)

lemma uint_word_of_i64: "0 \<le> i \<Longrightarrow> i \<le> i64_max \<Longrightarrow> uint (word_of_int i :: u64) = i"
  by (simp add: i64_max_def uint_word_of_int_eq take_bit_int_eq_self)

lemma as_i64_jint [simp]: "i64_min \<le> i \<Longrightarrow> i \<le> i64_max \<Longrightarrow> as_i64 (jint i) = Some i"
  by (simp add: as_i64_def jint_def sint_word_of_int uint_word_of_i64)

section \<open>Objects\<close>

abbreviation obj_get :: "jmap \<Rightarrow> string \<Rightarrow> json option" where
  "obj_get m k \<equiv> map_of m k"

abbreviation obj_keys :: "jmap \<Rightarrow> string list" where
  "obj_keys m \<equiv> map fst m"

definition obj_has :: "jmap \<Rightarrow> string \<Rightarrow> bool" where
  "obj_has m k \<longleftrightarrow> k \<in> set (obj_keys m)"

text \<open>\<^verbatim>\<open>Map::insert\<close>: replace the value in place, or append the entry.\<close>

abbreviation obj_insert :: "string \<Rightarrow> json \<Rightarrow> jmap \<Rightarrow> jmap" where
  "obj_insert k v m \<equiv> AList.update k v m"

text \<open>\<^verbatim>\<open>Map::remove\<close> under \<^verbatim>\<open>preserve_order\<close> is \<^verbatim>\<open>swap_remove\<close>: the last entry takes the
  place of the removed one.\<close>

definition obj_remove :: "string \<Rightarrow> jmap \<Rightarrow> jmap" where
  "obj_remove k m =
     (if obj_has m k
      then let i = length (takeWhile (\<lambda>p. fst p \<noteq> k) m)
           in if Suc i = length m then butlast m else (butlast m)[i := last m]
      else m)"

text \<open>\<^verbatim>\<open>Value::get\<close> with a string index, and \<^verbatim>\<open>value[key]\<close>, which is null where the key or the
  object is missing.\<close>

definition jget :: "json \<Rightarrow> string \<Rightarrow> json option" where
  "jget v k = (case v of JObj m \<Rightarrow> obj_get m k | _ \<Rightarrow> None)"

definition jidx :: "json \<Rightarrow> string \<Rightarrow> json" where
  "jidx v k = jopt (jget v k)"

lemma jget_JObj [simp]: "jget (JObj m) k = obj_get m k"
  by (simp add: jget_def)

lemma jget_Some: "jget v k = Some w \<longleftrightarrow> (\<exists>m. v = JObj m \<and> obj_get m k = Some w)"
  by (cases v) (auto simp: jget_def)

lemma obj_has_iff: "obj_has m k \<longleftrightarrow> obj_get m k \<noteq> None"
  by (auto simp: obj_has_def map_of_eq_None_iff)

lemma obj_get_insert [simp]: "obj_get (obj_insert k v m) l = (if l = k then Some v else obj_get m l)"
  by (simp add: update_conv)

lemma obj_insert_new: "\<not> obj_has m k \<Longrightarrow> obj_insert k v m = m @ [(k, v)]"
  by (induction m) (auto simp: obj_has_def)

lemma obj_remove_last: "\<not> obj_has m k \<Longrightarrow> obj_remove k (m @ [(k, v)]) = m"
proof -
  assume "\<not> obj_has m k"
  then have "takeWhile (\<lambda>p. fst p \<noteq> k) (m @ [(k, v)]) = m"
    by (subst takeWhile_append2) (auto simp: obj_has_def)
  then show ?thesis by (simp add: obj_remove_def obj_has_def)
qed

lemma obj_value_size: "obj_get obj k = Some v \<Longrightarrow> size v < size (JObj obj)"
proof -
  assume "obj_get obj k = Some v"
  then have "(k, v) \<in> set obj" by (rule map_of_SomeD)
  then have "size v \<le> size_list (size_prod (\<lambda>_. 0) size) obj"
    by (intro size_list_estimation' [of "(k, v)"]) simp_all
  then show ?thesis by simp
qed

lemma array_value_size: "v \<in> set xs \<Longrightarrow> size v < size (JArr xs)"
  by (auto dest!: size_list_estimation' [of v xs _ size, OF _ order_refl])

fun wf_json :: "json \<Rightarrow> bool" where
  "wf_json (JArr xs) \<longleftrightarrow> (\<forall>x \<in> set xs. wf_json x)"
| "wf_json (JObj m) \<longleftrightarrow> distinct (map fst m) \<and> (\<forall>p \<in> set m. wf_json (snd p))"
| "wf_json _ \<longleftrightarrow> True"

lemma wf_json_get: "wf_json (JObj m) \<Longrightarrow> obj_get m k = Some v \<Longrightarrow> wf_json v"
  by (force dest: map_of_SomeD)

section \<open>Equality\<close>

text \<open>\<^verbatim>\<open>impl PartialEq for Value\<close>: arrays elementwise, objects as maps.\<close>

function json_eq :: "json \<Rightarrow> json \<Rightarrow> bool" where
  "json_eq v w =
     (case (v, w) of
        (JNull, JNull) \<Rightarrow> True
      | (JBool a, JBool b) \<Rightarrow> a = b
      | (JNum m, JNum n) \<Rightarrow> num_eq m n
      | (JStr s, JStr t) \<Rightarrow> s = t
      | (JArr xs, JArr ys) \<Rightarrow> length xs = length ys \<and> (\<forall>(x, y) \<in> set (zip xs ys). json_eq x y)
      | (JObj m, JObj n) \<Rightarrow>
          length m = length n \<and>
          (\<forall>(k, x) \<in> set m. case map_of n k of None \<Rightarrow> False | Some y \<Rightarrow> json_eq x y)
      | _ \<Rightarrow> False)"
  by pat_completeness auto
termination
proof (relation "measure (\<lambda>(v, w). size v)", goal_cases)
  case 1
  then show ?case by simp
next
  case (2 v w a b xs ys p x y)
  then have "x \<in> set xs" by (auto dest: set_zip_leftD)
  with 2 show ?case by (auto dest!: size_list_estimation' [of x xs _ size, OF _ order_refl])
next
  case (3 v w a b m n p k x y)
  then have "p \<in> set m" and p: "p = (k, x)" by auto
  then have "size x \<le> size_list (size_prod (\<lambda>_. 0) size) m"
    by (intro size_list_estimation' [of p]) simp_all
  with 3 show ?case by auto
qed

declare json_eq.simps [simp del]

lemma json_eq_simps [simp]:
  "json_eq JNull w \<longleftrightarrow> w = JNull"
  "json_eq w JNull \<longleftrightarrow> w = JNull"
  "json_eq (JBool a) w \<longleftrightarrow> w = JBool a"
  "json_eq w (JBool a) \<longleftrightarrow> w = JBool a"
  "json_eq (JStr s) w \<longleftrightarrow> w = JStr s"
  "json_eq w (JStr s) \<longleftrightarrow> w = JStr s"
  by (cases w; auto simp: json_eq.simps)+

lemma json_eq_num [simp]: "json_eq (JNum m) (JNum n) \<longleftrightarrow> num_eq m n"
  by (simp add: json_eq.simps)

lemma json_eq_refl: "wf_json v \<Longrightarrow> json_eq v v"
proof (induction v rule: wf_json.induct)
  case (1 xs)
  then show ?case by (subst json_eq.simps) (auto simp: zip_same_conv_map)
next
  case (2 m)
  then have "json_eq x x" if "(k, x) \<in> set m" for k x using that by force
  moreover have "map_of m k = Some x" if "(k, x) \<in> set m" for k x using that 2 by simp
  ultimately show ?case by (subst json_eq.simps) auto
qed (simp_all)

lemma json_eq_scalar:
  assumes "json_eq v w"
  shows "(case v of JNull \<Rightarrow> w = v | JBool b \<Rightarrow> w = v | JStr s \<Rightarrow> w = v
    | JNum n \<Rightarrow> (\<exists>m. w = JNum m \<and> num_eq n m) | JArr xs \<Rightarrow> (\<exists>ys. w = JArr ys)
    | JObj m \<Rightarrow> (\<exists>n. w = JObj n))"
  using assms by (cases v; cases w) (auto simp: json_eq.simps)

end
