(* ===== verification/Refusals.thy ===== *)
theory Refusals
  imports Json
begin

text \<open>
  The parts of the event-ledger crate that own no state: the structured refusal envelope of
  \<^verbatim>\<open>error.rs\<close>, the digest and naming helpers of \<^verbatim>\<open>digest.rs\<close>, and the bounded argument
  helpers of \<^verbatim>\<open>args.rs\<close>. What the crate takes from third parties is the record \<open>host\<close>, an
  argument of the definitions that use it: the encoder \<^verbatim>\<open>serde_json::to_vec\<close> (the bytes, or the
  text of its error), the pretty printer's error, the parser's refusal of bytes that are no JSON,
  the SHA-256 digest, and the texts of two operating-system errors.
\<close>

record host =
  to_vec :: "json \<Rightarrow> string + string"
  pretty_refusal :: "json \<Rightarrow> string option"
  parse_refusal :: "string \<Rightarrow> string"
  sha256_bytes :: "string \<Rightarrow> string"
  exists_text :: string
  missing_text :: string

text \<open>Documented behaviour of the encoder on a \<^verbatim>\<open>Value\<close>: it has no failing case.\<close>

definition encoder_total :: "host \<Rightarrow> bool" where
  "encoder_total h \<longleftrightarrow> (\<forall>v. (\<exists>b. to_vec h v = Inr b) \<and> pretty_refusal h v = None)"

section \<open>Refusal envelopes\<close>

type_synonym error_schema = string

definition mk_error :: "string \<Rightarrow> string \<Rightarrow> string \<Rightarrow> json \<Rightarrow> json" where
  "mk_error schema code message details =
     JObj [(''schema'', JStr schema), (''code'', JStr code), (''message'', JStr message),
           (''details'', details)]"

definition schema_error :: "error_schema \<Rightarrow> string \<Rightarrow> string \<Rightarrow> json \<Rightarrow> json" where
  "schema_error sch code message details = mk_error sch code message details"

definition io_error :: "error_schema \<Rightarrow> string \<Rightarrow> string \<Rightarrow> json" where
  "io_error sch code source = mk_error sch code source JNull"

definition db_error :: "error_schema \<Rightarrow> string \<Rightarrow> string \<Rightarrow> json" where
  "db_error sch code source = mk_error sch code source JNull"

definition error_code :: "json \<Rightarrow> string option" where
  "error_code e = Option.bind (jget e ''code'') as_str"

lemma error_code_simps [simp]:
  "error_code (mk_error s c m d) = Some c"
  "error_code (schema_error s c m d) = Some c"
  "error_code (io_error s c t) = Some c"
  "error_code (db_error s c t) = Some c"
  by (simp_all add: error_code_def mk_error_def schema_error_def io_error_def db_error_def)

section \<open>Failures\<close>

text \<open>An operation fails with a refusal of its own, or panics.\<close>

datatype failure = Refused json | Panicked string

definition refused :: "json + 'a \<Rightarrow> failure + 'a" where
  "refused r = (case r of Inl e \<Rightarrow> Inl (Refused e) | Inr x \<Rightarrow> Inr x)"

lemma refused_Inr [simp]: "refused r = Inr x \<longleftrightarrow> r = Inr x"
  by (auto simp: refused_def split: sum.splits)

lemma refused_Inl [simp]: "refused r = Inl f \<longleftrightarrow> (\<exists>e. r = Inl e \<and> f = Refused e)"
  by (auto simp: refused_def split: sum.splits)

lemma refused_simps [simp]: "refused (Inl e) = Inl (Refused e)" "refused (Inr x) = Inr x"
  by (simp_all add: refused_def)

section \<open>Digests and names\<close>

definition hex_digit :: "nat \<Rightarrow> char" where
  "hex_digit n = (if n < 10 then char_of (48 + n) else char_of (87 + n))"

definition hex_byte :: "char \<Rightarrow> string" where
  "hex_byte c = [hex_digit (byte c div 16), hex_digit (byte c mod 16)]"

definition sha256 :: "host \<Rightarrow> string \<Rightarrow> string" where
  "sha256 h bytes = concat (map hex_byte (sha256_bytes h bytes))"

definition digest_value :: "host \<Rightarrow> error_schema \<Rightarrow> json \<Rightarrow> json + string" where
  "digest_value h sch value =
     (case to_vec h value of
        Inl source \<Rightarrow> Inl (schema_error sch ''json_encode_failed'' source JNull)
      | Inr encoded \<Rightarrow> Inr (sha256 h encoded))"

definition safe_char :: "char \<Rightarrow> bool" where
  "safe_char c \<longleftrightarrow> ascii_alphanumeric c \<or> c = CHR ''-'' \<or> c = CHR ''_''"

definition safe_name :: "string \<Rightarrow> string" where
  "safe_name value = take 120 (filter safe_char value)"

lemma hex_digit_inject: "m < 16 \<Longrightarrow> n < 16 \<Longrightarrow> hex_digit m = hex_digit n \<longleftrightarrow> m = n"
  by (auto simp: hex_digit_def char_of_eq_iff take_bit_eq_mod)

lemma byte_bound [simp]: "byte c < 256"
  using nat_of_char_less_256 [of c] by (simp add: byte_def)

lemma byte_inject [simp]: "byte c = byte d \<longleftrightarrow> c = d"
  by (simp add: byte_def)

lemma hex_byte_inject: "hex_byte c = hex_byte d \<longleftrightarrow> c = d"
proof
  assume "hex_byte c = hex_byte d"
  moreover have "byte c div 16 < 16" "byte d div 16 < 16"
    using byte_bound [of c] byte_bound [of d] by (simp_all add: less_mult_imp_div_less)
  ultimately have "byte c div 16 = byte d div 16" and "byte c mod 16 = byte d mod 16"
    by (auto simp: hex_byte_def hex_digit_inject)
  then have "byte c = byte d" by (metis div_mult_mod_eq)
  then show "c = d" by simp
qed simp

lemma hex_inject: "concat (map hex_byte s) = concat (map hex_byte t) \<longleftrightarrow> s = t"
proof
  show "concat (map hex_byte s) = concat (map hex_byte t) \<Longrightarrow> s = t"
  proof (induction s arbitrary: t)
    case Nil
    then show ?case by (cases t) (auto simp: hex_byte_def)
  next
    case (Cons c s)
    from Cons.prems obtain d t' where t: "t = d # t'"
      by (cases t) (auto simp: hex_byte_def)
    with Cons.prems have "hex_byte c = hex_byte d"
      and "concat (map hex_byte s) = concat (map hex_byte t')"
      by (auto simp: hex_byte_def [of c] hex_byte_def [of d])
    with Cons.IH t show ?case by (simp add: hex_byte_inject)
  qed
qed simp

lemma sha256_length: "length (sha256 h b) = 2 * length (sha256_bytes h b)"
  by (simp add: sha256_def length_concat comp_def hex_byte_def sum_list_triv)

lemma digest_value_total: "encoder_total h \<Longrightarrow> \<exists>d. digest_value h sch v = Inr d"
  by (auto simp: encoder_total_def digest_value_def split: sum.splits) (metis Inl_Inr_False)

lemma digest_value_schema: "digest_value h s v = Inr d \<Longrightarrow> digest_value h t v = Inr d"
  by (auto simp: digest_value_def split: sum.splits)

lemma safe_name_bound: "length (safe_name s) \<le> 120"
  by (simp add: safe_name_def)

lemma safe_name_chars: "c \<in> set (safe_name s) \<Longrightarrow> safe_char c"
  unfolding safe_name_def by (auto dest: in_set_takeD)

lemma safe_name_id: "length s \<le> 120 \<Longrightarrow> \<forall>c \<in> set s. safe_char c \<Longrightarrow> safe_name s = s"
  by (simp add: safe_name_def)

lemma safe_name_idem: "safe_name (safe_name s) = safe_name s"
  using safe_name_bound safe_name_chars by (intro safe_name_id) auto

lemma safe_char_ne_dot: "safe_char c \<Longrightarrow> c \<noteq> CHR ''.''"
  by (auto simp: safe_char_def ascii_alphanumeric_def ascii_digit_def ascii_upper_def
      ascii_lower_def byte_def)

section \<open>Argument helpers\<close>

definition required_missing :: "error_schema \<Rightarrow> string \<Rightarrow> json" where
  "required_missing sch key =
     schema_error sch ''required_argument_missing'' (''required_argument_missing:'' @ key)
       (JObj [(''field'', JStr key)])"

definition required :: "error_schema \<Rightarrow> jmap \<Rightarrow> string \<Rightarrow> json + string" where
  "required sch args key =
     ok_or
       (case Option.bind (obj_get args key) as_str of
          None \<Rightarrow> None
        | Some value \<Rightarrow> if trim value \<noteq> [] then Some value else None)
       (required_missing sch key)"

definition required_object ::
    "host \<Rightarrow> error_schema \<Rightarrow> jmap \<Rightarrow> string \<Rightarrow> nat \<Rightarrow> string \<Rightarrow> json + json" where
  "required_object h sch args key max_bytes label =
     bindR
       (ok_or
          (case obj_get args key of
             None \<Rightarrow> None
           | Some value \<Rightarrow>
               (case as_object value of
                  None \<Rightarrow> None
                | Some obj \<Rightarrow> if obj \<noteq> [] then Some value else None))
          (required_missing sch key))
       (\<lambda>value.
          case to_vec h value of
            Inl source \<Rightarrow>
              Inl (schema_error sch ''json_encode_failed'' source (JObj [(''field'', JStr key)]))
          | Inr bytes \<Rightarrow>
              if max_bytes < length bytes
              then Inl (schema_error sch ''argument_too_large''
                     (label @ '' exceeds the bounded '' @ show_nat max_bytes @ ''-byte envelope'')
                     (JObj [(''field'', JStr key), (''bytes'', jnat (length bytes)),
                            (''max_bytes'', jnat max_bytes)]))
              else Inr value)"

definition optional_u64 :: "error_schema \<Rightarrow> jmap \<Rightarrow> string \<Rightarrow> u64 \<Rightarrow> json + u64" where
  "optional_u64 sch args key dflt =
     (case obj_get args key of
        None \<Rightarrow> Inr dflt
      | Some value \<Rightarrow>
          ok_or (as_u64 value)
            (schema_error sch ''argument_invalid'' (key @ '' must be an unsigned integer'')
               (JObj [(''field'', JStr key), (''value'', value)])))"

definition page_limit :: "error_schema \<Rightarrow> jmap \<Rightarrow> json + nat" where
  "page_limit sch args =
     bindR (optional_u64 sch args ''limit'' 100) (\<lambda>value.
       if \<not> (1 \<le> value \<and> value \<le> 100)
       then Inl (schema_error sch ''page_limit_invalid'' ''limit must be between 1 and 100''
              (JObj [(''limit'', JNum (PosInt value))]))
       else Inr (unat value))"

definition page_offset :: "error_schema \<Rightarrow> jmap \<Rightarrow> json + nat" where
  "page_offset sch args =
     bindR (optional_u64 sch args ''offset'' 0) (\<lambda>value.
       if unat value \<le> usize_max then Inr (unat value)
       else Inl (schema_error sch ''page_offset_invalid'' ''offset exceeds platform bounds''
              (JObj [(''offset'', jopt (obj_get args ''offset''))])))"

lemma required_Inr: "required sch args key = Inr s \<longleftrightarrow>
    obj_get args key = Some (JStr s) \<and> trim s \<noteq> []"
  by (auto simp: required_def bind_eq_Some_conv split: option.splits)

lemma page_limit_Inr: "page_limit sch args = Inr n \<Longrightarrow> 1 \<le> n \<and> n \<le> 100"
  by (auto simp: page_limit_def bindR_Inr_iff word_le_nat_alt split: if_splits)

lemma page_offset_total:
  assumes "optional_u64 sch args ''offset'' 0 = Inr v"
  shows "page_offset sch args = Inr (unat v)"
proof -
  have "unat v < 2 ^ 64" using unsigned_less [of v] by simp
  then show ?thesis using assms by (simp add: page_offset_def usize_max_def)
qed

lemma required_object_bound:
  assumes "required_object h sch args key n label = Inr v"
  shows "\<exists>b m. to_vec h v = Inr b \<and> length b \<le> n \<and> v = JObj m \<and> m \<noteq> []"
proof -
  from assms obtain obj b where "obj_get args key = Some v" "as_object v = Some obj" "obj \<noteq> []"
    and "to_vec h v = Inr b" "length b \<le> n"
    unfolding required_object_def bindR_Inr_iff ok_or_Inr_iff
    by (elim exE conjE) (simp split: sum.splits if_splits option.splits)
  then show ?thesis by auto
qed

end
