(* ===== verification/Records.thy ===== *)
theory Records
  imports Refusals
begin

text \<open>
  The durable record IO of \<^verbatim>\<open>io.rs\<close> over one directory. A directory is the association list of
  its file names; a file holds a JSON record (the value \<^verbatim>\<open>from_slice\<close> reads back) or other bytes.
  \<^verbatim>\<open>write_new\<close> stages the content under a pending name, syncs it, publishes it by a hard link and
  unlinks the pending name. The model returns, beside the result, every directory state the call
  passes through, so that a crash between two of its steps is a prefix of that list. Faults of the
  host are an input: each step may fail with the operating system's text.

  The code prints a record with \<^verbatim>\<open>serde_json::to_vec_pretty\<close> and parses its bytes with \<^verbatim>\<open>from_slice\<close>. The
  printed text is not modelled: a file holds the value, so that parsing what was printed gives the
  value back. This is the documented behaviour of the crate with two exceptions, which lie outside the
  model: a double that the default parser reads back one unit in the last place off, and a value
  nested deeper than 128 levels, which the parser refuses. What is proved of records that are written
  and read again is meant for values without these.
\<close>

datatype content = JsonFile json | Bytes string

type_synonym dir = "(string \<times> content) list"

definition wf_dir :: "dir \<Rightarrow> bool" where
  "wf_dir d \<longleftrightarrow> distinct (map fst d)"

section \<open>File names\<close>

text \<open>\<^verbatim>\<open>Path::file_stem\<close> and \<^verbatim>\<open>Path::extension\<close> of a file name: the part before and after the
  last dot, where the part before is not empty.\<close>

definition split_ext :: "string \<Rightarrow> (string \<times> string) option" where
  "split_ext name =
     (case dropWhile (\<lambda>c. c \<noteq> CHR ''.'') (rev name) of
        [] \<Rightarrow> None
      | _ # before \<Rightarrow>
          if before = [] then None
          else Some (rev before, rev (takeWhile (\<lambda>c. c \<noteq> CHR ''.'') (rev name))))"

definition extension :: "string \<Rightarrow> string option" where
  "extension name = map_option snd (split_ext name)"

definition with_extension :: "string \<Rightarrow> string \<Rightarrow> string" where
  "with_extension name ext =
     (case split_ext name of None \<Rightarrow> name | Some (stem, _) \<Rightarrow> stem) @ CHR ''.'' # ext"

lemma split_ext_dot:
  assumes "stem \<noteq> []" "CHR ''.'' \<notin> set ext"
  shows "split_ext (stem @ CHR ''.'' # ext) = Some (stem, ext)"
proof -
  have "dropWhile (\<lambda>c. c \<noteq> CHR ''.'') (rev ext @ CHR ''.'' # rev stem) = CHR ''.'' # rev stem"
    using assms(2) by (subst dropWhile_append2) auto
  moreover have "takeWhile (\<lambda>c. c \<noteq> CHR ''.'') (rev ext @ CHR ''.'' # rev stem) = rev ext"
    using assms(2) by (subst takeWhile_append2) auto
  ultimately show ?thesis using assms(1) by (simp add: split_ext_def)
qed

lemma split_ext_stem: "split_ext name = Some (stem, ext) \<Longrightarrow> stem \<noteq> []"
  by (auto simp: split_ext_def split: list.splits if_splits)

lemma extension_with_extension:
  "name \<noteq> [] \<Longrightarrow> CHR ''.'' \<notin> set ext \<Longrightarrow> extension (with_extension name ext) = Some ext"
  by (auto simp: extension_def with_extension_def split_ext_dot dest: split_ext_stem
      split: option.splits)

section \<open>Reading\<close>

definition path_text :: "string \<Rightarrow> string \<Rightarrow> string" where
  "path_text directory name = directory @ CHR ''/'' # name"

definition read_json :: "host \<Rightarrow> error_schema \<Rightarrow> string \<Rightarrow> dir \<Rightarrow> string \<Rightarrow> json + json" where
  "read_json h sch directory d name =
     (case map_of d name of
        None \<Rightarrow> Inl (io_error sch ''record_read_failed'' (missing_text h))
      | Some (JsonFile v) \<Rightarrow> Inr v
      | Some (Bytes b) \<Rightarrow>
          Inl (schema_error sch ''record_invalid_json'' (parse_refusal h b)
            (JObj [(''path'', JStr (path_text directory name))])))"

lemma read_json_Inr: "read_json h sch p d n = Inr v \<longleftrightarrow> map_of d n = Some (JsonFile v)"
  by (auto simp: read_json_def split: option.splits content.splits)

section \<open>Writing\<close>

record write_env =
  pid :: nat
  nanos :: nat
  stage_fault :: "string option"
  write_fault :: "string option"
  sync_fault :: "string option"
  link_fault :: "string option"
  unlink_fault :: bool

definition quiet_write :: write_env where
  "quiet_write = \<lparr>pid = 1, nanos = 1, stage_fault = None, write_fault = None,
     sync_fault = None, link_fault = None, unlink_fault = False\<rparr>"

definition pending_name :: "write_env \<Rightarrow> string \<Rightarrow> string" where
  "pending_name e name =
     with_extension name (''pending-'' @ show_nat (pid e) @ ''-'' @ show_nat (nanos e))"

definition unlink :: "write_env \<Rightarrow> string \<Rightarrow> dir \<Rightarrow> dir" where
  "unlink e name d = (if unlink_fault e then d else AList.delete name d)"

definition write_new ::
    "host \<Rightarrow> error_schema \<Rightarrow> write_env \<Rightarrow> string \<Rightarrow> content \<Rightarrow> dir \<Rightarrow> dir list \<times> (json + unit)" where
  "write_new h sch e name bytes d =
     (let temporary = pending_name e name;
          stage = (case stage_fault e of
                     Some t \<Rightarrow> Some t
                   | None \<Rightarrow> if map_of d temporary = None then None else Some (exists_text h))
      in case stage of
           Some t \<Rightarrow> ([d], Inl (io_error sch ''record_stage_create_failed'' t))
         | None \<Rightarrow>
      let created = AList.update temporary (Bytes '''') d
      in case write_fault e of
           Some t \<Rightarrow>
             ([d, created, unlink e temporary created],
              Inl (io_error sch ''record_write_failed'' t))
         | None \<Rightarrow>
      let written = AList.update temporary bytes created
      in case sync_fault e of
           Some t \<Rightarrow>
             ([d, created, written, unlink e temporary written],
              Inl (io_error sch ''record_sync_failed'' t))
         | None \<Rightarrow>
      let link = (case link_fault e of
                    Some t \<Rightarrow> Some t
                  | None \<Rightarrow> if map_of written name = None then None else Some (exists_text h))
      in case link of
           Some t \<Rightarrow>
             ([d, created, written, unlink e temporary written],
              Inl (io_error sch ''immutable_record_exists'' t))
         | None \<Rightarrow>
      let published = AList.update name bytes written
      in ([d, created, written, published, unlink e temporary published], Inr ()))"

definition write_new_json ::
    "host \<Rightarrow> error_schema \<Rightarrow> write_env \<Rightarrow> string \<Rightarrow> json \<Rightarrow> dir \<Rightarrow> dir list \<times> (json + unit)" where
  "write_new_json h sch e name value d =
     (case pretty_refusal h value of
        Some source \<Rightarrow> ([d], Inl (schema_error sch ''json_encode_failed'' source JNull))
      | None \<Rightarrow> write_new h sch e name (JsonFile value) d)"

text \<open>\<^verbatim>\<open>write_replace_json\<close> overwrites; \<^verbatim>\<open>to_string_pretty(..).unwrap()\<close> has no failing case on
  a \<^verbatim>\<open>Value\<close>, so its only refusal is the one of the file system.\<close>

definition write_replace_json ::
    "error_schema \<Rightarrow> string option \<Rightarrow> string \<Rightarrow> json \<Rightarrow> dir \<Rightarrow> dir \<times> (json + unit)" where
  "write_replace_json sch fault name value d =
     (case fault of
        Some t \<Rightarrow> (d, Inl (io_error sch ''record_write_failed'' t))
      | None \<Rightarrow> (AList.update name (JsonFile value) d, Inr ()))"

section \<open>Properties of publication\<close>

lemma map_of_AList_delete [simp]:
  "map_of (AList.delete k d) n = (if n = k then None else map_of d n)"
  by (simp add: delete_conv)

lemma wf_dir_update [simp]: "wf_dir d \<Longrightarrow> wf_dir (AList.update k v d)"
  by (simp add: wf_dir_def distinct_update)

lemma wf_dir_unlink [simp]: "wf_dir d \<Longrightarrow> wf_dir (unlink e k d)"
  by (simp add: wf_dir_def unlink_def distinct_delete)

lemma pending_suffix_no_dot:
  "CHR ''.'' \<notin> set (''pending-'' @ show_nat p @ ''-'' @ show_nat n)"
proof -
  have "CHR ''.'' \<notin> set (show_nat k)" for k
    using show_nat_digits [of k] by (auto simp: is_digit_def)
  then show ?thesis by simp
qed

lemma extension_pending:
  "name \<noteq> [] \<Longrightarrow> extension (pending_name e name) =
     Some (''pending-'' @ show_nat (pid e) @ ''-'' @ show_nat (nanos e))"
  unfolding pending_name_def by (rule extension_with_extension [OF _ pending_suffix_no_dot])

text \<open>The ways a call can go: it is refused and only the pending name was touched, or the
  complete record was published.\<close>

lemma write_new_cases:
  obtains
    (refused) t code mid where
      "write_new h sch e name bytes d = (d # mid, Inl (io_error sch code t))"
      "\<forall>s \<in> set mid. (wf_dir d \<longrightarrow> wf_dir s) \<and>
         (\<forall>n. n \<noteq> pending_name e name \<longrightarrow> map_of s n = map_of d n)"
  | (published) mid s where
      "write_new h sch e name bytes d = (d # mid @ [s, unlink e (pending_name e name) s], Inr ())"
      "map_of d name = None \<or> name = pending_name e name"
      "s = AList.update name bytes (AList.update (pending_name e name) bytes
             (AList.update (pending_name e name) (Bytes []) d))"
      "\<forall>s \<in> set mid. (wf_dir d \<longrightarrow> wf_dir s) \<and>
         (\<forall>n. n \<noteq> pending_name e name \<longrightarrow> map_of s n = map_of d n)"
proof -
  let ?tmp = "pending_name e name"
  let ?created = "AList.update ?tmp (Bytes []) d"
  let ?written = "AList.update ?tmp bytes ?created"
  have keep: "(wf_dir d \<longrightarrow> wf_dir s) \<and> (\<forall>n. n \<noteq> ?tmp \<longrightarrow> map_of s n = map_of d n)"
    if "s \<in> {?created, ?written, unlink e ?tmp ?created, unlink e ?tmp ?written}" for s
    using that by (auto simp: update_conv unlink_def wf_dir_def distinct_update distinct_delete)
  consider (stage) t where "write_new h sch e name bytes d =
        ([d], Inl (io_error sch ''record_stage_create_failed'' t))"
    | (unwritten) t where "write_new h sch e name bytes d =
        ([d, ?created, unlink e ?tmp ?created], Inl (io_error sch ''record_write_failed'' t))"
    | (sync) t where "write_new h sch e name bytes d =
        ([d, ?created, ?written, unlink e ?tmp ?written],
         Inl (io_error sch ''record_sync_failed'' t))"
    | (link) t where "write_new h sch e name bytes d =
        ([d, ?created, ?written, unlink e ?tmp ?written],
         Inl (io_error sch ''immutable_record_exists'' t))"
    | (ok) "write_new h sch e name bytes d =
        ([d, ?created, ?written, AList.update name bytes ?written,
          unlink e ?tmp (AList.update name bytes ?written)], Inr ())"
        "map_of ?written name = None"
  proof (cases "stage_fault e")
    case (Some t)
    then show ?thesis by (intro that(1) [of t]) (simp add: write_new_def)
  next
    case s: None
    show ?thesis
    proof (cases "map_of d ?tmp")
      case (Some c)
      with s show ?thesis by (intro that(1) [of "exists_text h"]) (simp add: write_new_def)
    next
      case t: None
      show ?thesis
      proof (cases "write_fault e")
        case (Some u)
        with s t show ?thesis by (intro that(2) [of u]) (simp add: write_new_def Let_def)
      next
        case w: None
        show ?thesis
        proof (cases "sync_fault e")
          case (Some u)
          with s t w show ?thesis by (intro that(3) [of u]) (simp add: write_new_def Let_def)
        next
          case y: None
          show ?thesis
          proof (cases "link_fault e")
            case (Some u)
            with s t w y show ?thesis by (intro that(4) [of u]) (simp add: write_new_def Let_def)
          next
            case l: None
            show ?thesis
            proof (cases "map_of ?written name")
              case (Some c)
              with s t w y l show ?thesis
                by (intro that(4) [of "exists_text h"]) (simp add: write_new_def Let_def)
            next
              case None
              with s t w y l show ?thesis by (intro that(5)) (simp_all add: write_new_def Let_def)
            qed
          qed
        qed
      qed
    qed
  qed
  then show thesis
  proof cases
    case stage
    then show ?thesis by (intro refused [of "[]"]) auto
  next
    case unwritten
    then show ?thesis using keep by (intro refused [of "[?created, unlink e ?tmp ?created]"]) auto
  next
    case sync
    then show ?thesis
      using keep by (intro refused [of "[?created, ?written, unlink e ?tmp ?written]"]) auto
  next
    case link
    then show ?thesis
      using keep by (intro refused [of "[?created, ?written, unlink e ?tmp ?written]"]) auto
  next
    case ok
    then show ?thesis using keep
      by (intro published [of "[?created, ?written]"]) (auto simp: update_conv split: if_splits)
  qed
qed

text \<open>The content visible under any name but the pending one, in every state of a call: the old
  content, or (for the target, once published) the complete new content.\<close>

lemma write_new_states:
  assumes "s \<in> set (fst (write_new h sch e name bytes d))" "n \<noteq> pending_name e name"
  shows "map_of s n = map_of d n \<or>
    (n = name \<and> map_of d name = None \<and> map_of s n = Some bytes)"
proof (cases rule: write_new_cases [of h sch e name bytes d])
  case (refused t code mid)
  with assms show ?thesis by auto
next
  case (published mid s')
  have "s = d \<or> s \<in> set mid \<or> s = s' \<or> s = unlink e (pending_name e name) s'"
    using assms(1) published(1) by auto
  moreover have "map_of s' n = (if n = name then Some bytes else map_of d n)"
    using assms(2) published(3) by (simp add: update_conv)
  ultimately show ?thesis
    using assms(2) published(2,4) by (auto simp: unlink_def split: if_splits)
qed

lemma write_new_first: "hd (fst (write_new h sch e name bytes d)) = d"
  by (cases rule: write_new_cases [of h sch e name bytes d]) auto

lemma write_new_nonempty: "fst (write_new h sch e name bytes d) \<noteq> []"
  by (cases rule: write_new_cases [of h sch e name bytes d]) auto

lemma write_new_wf:
  assumes "wf_dir d" "s \<in> set (fst (write_new h sch e name bytes d))"
  shows "wf_dir s"
  using assms by (cases rule: write_new_cases [of h sch e name bytes d]) auto

lemma write_new_Inr:
  assumes "snd (write_new h sch e name bytes d) = Inr u" "name \<noteq> pending_name e name"
  shows "map_of d name = None \<and>
    map_of (last (fst (write_new h sch e name bytes d))) name = Some bytes"
  using assms
  by (cases rule: write_new_cases [of h sch e name bytes d]) (simp_all add: update_conv unlink_def)

lemma write_new_Inl:
  assumes "snd (write_new h sch e name bytes d) = Inl r" "n \<noteq> pending_name e name"
  shows "map_of (last (fst (write_new h sch e name bytes d))) n = map_of d n"
  using assms by (cases rule: write_new_cases [of h sch e name bytes d]) auto

lemma write_new_exists:
  assumes "map_of d name = Some c" "name \<noteq> pending_name e name"
  shows "\<exists>r. snd (write_new h sch e name bytes d) = Inl r"
  using assms by (cases rule: write_new_cases [of h sch e name bytes d]) auto

lemma write_new_quiet:
  assumes "map_of d name = None" "map_of d (pending_name e name) = None"
    "stage_fault e = None" "write_fault e = None" "sync_fault e = None" "link_fault e = None"
    "name \<noteq> pending_name e name"
  shows "snd (write_new h sch e name bytes d) = Inr ()"
  using assms by (simp add: write_new_def Let_def update_conv)

lemma write_new_quiet_last:
  assumes "map_of d name = None" "map_of d (pending_name quiet_write name) = None"
    "name \<noteq> pending_name quiet_write name"
  shows "map_of (last (fst (write_new h sch quiet_write name bytes d))) n =
    (if n = name then Some bytes else map_of d n)"
  using assms by (simp add: write_new_def Let_def update_conv quiet_write_def unlink_def)

end
