(* ===== verification/Chain.thy ===== *)
theory Chain
  imports Records
begin

text \<open>
  Hash-chain verification of \<^verbatim>\<open>chain.rs\<close>: \<open>verify_files\<close> reads sorted record files and checks,
  record by record, the contiguous ordinal, the link to the previous hash, the presence of the hash
  field and its recomputation. \<open>chain_ok\<close> is the specification on the list of records;
  \<open>verify_files_refines\<close> says that the file-reading loop decides it. Tamper evidence
  (\<open>chain_determined\<close>) is proved on the specification.
\<close>

record refusal =
  code :: string
  message :: string

record chain_spec =
  hash_field :: string
  previous_hash_field :: string
  ordinal_field :: string
  ordinal_start :: u64
  missing_hash :: refusal
  ordinal_invalid :: refusal
  link_invalid :: refusal
  hash_invalid :: refusal

definition new_refusal :: "string \<Rightarrow> string \<Rightarrow> refusal" where
  "new_refusal c m = \<lparr>code = c, message = m\<rparr>"

text \<open>The stored and the recomputed hash; \<open>None\<close> where the record lacks the hash field.\<close>

record recomputed_hash =
  stored :: string
  computed :: string

definition recompute_hash ::
    "host \<Rightarrow> error_schema \<Rightarrow> json \<Rightarrow> string \<Rightarrow> json + recomputed_hash option" where
  "recompute_hash h sch item field =
     (case Option.bind (jget item field) as_str of
        None \<Rightarrow> Inr None
      | Some s \<Rightarrow>
          let unhashed = (case item of JObj m \<Rightarrow> JObj (obj_remove field m) | v \<Rightarrow> v)
          in bindR (digest_value h sch unhashed)
               (\<lambda>c. Inr (Some \<lparr>stored = s, computed = c\<rparr>)))"

definition ordinal_refusal ::
    "error_schema \<Rightarrow> chain_spec \<Rightarrow> string \<Rightarrow> u64 \<Rightarrow> json \<Rightarrow> json" where
  "ordinal_refusal sch spec path expected item =
     schema_error sch (code (ordinal_invalid spec)) (message (ordinal_invalid spec))
       (JObj (obj_insert (''actual_'' @ ordinal_field spec) (jopt (jget item (ordinal_field spec)))
             (obj_insert (''expected_'' @ ordinal_field spec) (JNum (PosInt expected))
             (obj_insert ''path'' (JStr path) []))))"

text \<open>The last two checks of one record: the hash is there and recomputes.\<close>

definition stored_check :: "chain_spec \<Rightarrow> error_schema \<Rightarrow> string \<Rightarrow> recomputed_hash option \<Rightarrow> json + string" where
  "stored_check spec sch path r =
     (case r of
        None \<Rightarrow>
          Inl (schema_error sch (code (missing_hash spec)) (message (missing_hash spec))
            (JObj [(''path'', JStr path)]))
      | Some rec \<Rightarrow>
          if stored rec \<noteq> computed rec
          then Inl (schema_error sch (code (hash_invalid spec)) (message (hash_invalid spec))
                 (JObj [(''path'', JStr path), (''expected_hash'', JStr (computed rec)),
                        (''actual_hash'', JStr (stored rec))]))
          else Inr (stored rec))"

definition verify_record ::
    "host \<Rightarrow> error_schema \<Rightarrow> chain_spec \<Rightarrow> string \<Rightarrow> string option \<Rightarrow> u64 \<Rightarrow> json \<Rightarrow> json + string" where
  "verify_record h sch spec path expected_previous expected_ordinal item =
     (if Option.bind (jget item (ordinal_field spec)) as_u64 \<noteq> Some expected_ordinal
      then Inl (ordinal_refusal sch spec path expected_ordinal item)
      else if Option.bind (jget item (previous_hash_field spec)) as_str \<noteq> expected_previous
      then Inl (schema_error sch (code (link_invalid spec)) (message (link_invalid spec))
             (JObj [(''path'', JStr path), (''expected_previous'', jopt_str expected_previous),
                    (''actual_previous'', jopt (jget item (previous_hash_field spec)))]))
      else bindR (recompute_hash h sch item (hash_field spec)) (stored_check spec sch path))"

fun verify_loop ::
    "host \<Rightarrow> error_schema \<Rightarrow> string \<Rightarrow> dir \<Rightarrow> chain_spec \<Rightarrow> string option \<Rightarrow> u64 \<Rightarrow> string list
      \<Rightarrow> json + json list" where
  "verify_loop h sch directory d spec previous ordinal [] = Inr []"
| "verify_loop h sch directory d spec previous ordinal (name # names) =
     bindR (read_json h sch directory d name) (\<lambda>item.
     bindR (verify_record h sch spec (path_text directory name) previous ordinal item) (\<lambda>s.
     bindR (verify_loop h sch directory d spec (Some s) (ordinal + 1) names) (\<lambda>items.
     Inr (item # items))))"

definition verify_files ::
    "host \<Rightarrow> error_schema \<Rightarrow> string \<Rightarrow> dir \<Rightarrow> string list \<Rightarrow> chain_spec \<Rightarrow> json + json list" where
  "verify_files h sch directory d names spec =
     verify_loop h sch directory d spec None (ordinal_start spec) names"

fun find_by_idempotency ::
    "host \<Rightarrow> error_schema \<Rightarrow> string \<Rightarrow> dir \<Rightarrow> string list \<Rightarrow> string \<Rightarrow> json + json option" where
  "find_by_idempotency h sch directory d [] key = Inr None"
| "find_by_idempotency h sch directory d (name # names) key =
     bindR (read_json h sch directory d name) (\<lambda>item.
       if Option.bind (jget item ''idempotency_key'') as_str = Some key then Inr (Some item)
       else find_by_idempotency h sch directory d names key)"

definition idempotency_marker_name :: "string \<Rightarrow> string" where
  "idempotency_marker_name key = ''idem-'' @ safe_name key @ ''.txt''"

section \<open>The chain specification\<close>

definition unhash :: "string \<Rightarrow> json \<Rightarrow> json" where
  "unhash field item = (case item of JObj m \<Rightarrow> JObj (obj_remove field m) | v \<Rightarrow> v)"

definition stored_hash :: "string \<Rightarrow> json \<Rightarrow> string option" where
  "stored_hash field item = Option.bind (jget item field) as_str"

definition record_ok ::
    "(json \<Rightarrow> string option) \<Rightarrow> chain_spec \<Rightarrow> string option \<Rightarrow> u64 \<Rightarrow> json \<Rightarrow> bool" where
  "record_ok dig spec previous ordinal item \<longleftrightarrow>
     Option.bind (jget item (ordinal_field spec)) as_u64 = Some ordinal \<and>
     Option.bind (jget item (previous_hash_field spec)) as_str = previous \<and>
     stored_hash (hash_field spec) item \<noteq> None \<and>
     dig (unhash (hash_field spec) item) = stored_hash (hash_field spec) item"

fun chain_ok ::
    "(json \<Rightarrow> string option) \<Rightarrow> chain_spec \<Rightarrow> string option \<Rightarrow> u64 \<Rightarrow> json list \<Rightarrow> bool" where
  "chain_ok dig spec previous ordinal [] \<longleftrightarrow> True"
| "chain_ok dig spec previous ordinal (item # items) \<longleftrightarrow>
     record_ok dig spec previous ordinal item \<and>
     chain_ok dig spec (stored_hash (hash_field spec) item) (ordinal + 1) items"

definition host_digest :: "host \<Rightarrow> json \<Rightarrow> string option" where
  "host_digest h v = (case digest_value h [] v of Inl _ \<Rightarrow> None | Inr s \<Rightarrow> Some s)"

definition chain_head :: "chain_spec \<Rightarrow> json list \<Rightarrow> string option" where
  "chain_head spec items =
     (if items = [] then None else stored_hash (hash_field spec) (last items))"

lemma host_digest_Some: "host_digest h v = Some s \<longleftrightarrow> digest_value h sch v = Inr s"
  by (auto simp: host_digest_def digest_value_def split: sum.splits)

lemma record_ok_stored:
  "record_ok dig spec p n item \<Longrightarrow> \<exists>s. stored_hash (hash_field spec) item = Some s"
  by (auto simp: record_ok_def)

lemma recompute_hash_None:
  "recompute_hash h sch item f = Inr None \<longleftrightarrow> stored_hash f item = None"
  by (simp add: recompute_hash_def stored_hash_def bindR_Inr_iff Let_def split: option.split)

lemma recompute_hash_Some:
  "recompute_hash h sch item f = Inr (Some r) \<longleftrightarrow>
     stored_hash f item = Some (stored r) \<and> digest_value h sch (unhash f item) = Inr (computed r)"
  by (cases r)
     (auto simp: recompute_hash_def stored_hash_def unhash_def bindR_Inr_iff Let_def
        simp del: bind_eq_Some_conv split: option.split)

lemma recompute_hash_Inl:
  "recompute_hash h sch item f = Inl e \<Longrightarrow>
     stored_hash f item \<noteq> None \<and> (\<forall>s. digest_value h sch (unhash f item) \<noteq> Inr s)"
  by (auto simp: recompute_hash_def stored_hash_def unhash_def bindR_Inl_iff Let_def
      simp del: bind_eq_Some_conv split: option.splits)

lemma stored_check_Inr:
  "bindR (recompute_hash h sch item f) (stored_check spec sch path) = Inr s \<longleftrightarrow>
     stored_hash f item = Some s \<and> digest_value h sch (unhash f item) = Inr s"
proof (cases "recompute_hash h sch item f")
  case (Inl e)
  with recompute_hash_Inl [OF Inl] show ?thesis by auto
next
  case (Inr r)
  show ?thesis
  proof (cases r)
    case None
    with Inr have "stored_hash f item = None" by (simp add: recompute_hash_None)
    with Inr None show ?thesis by (simp add: stored_check_def)
  next
    case (Some rec)
    with Inr have "stored_hash f item = Some (stored rec)"
      and "digest_value h sch (unhash f item) = Inr (computed rec)"
      by (simp_all add: recompute_hash_Some)
    with Inr Some show ?thesis by (auto simp: stored_check_def)
  qed
qed

lemma verify_record_Inr:
  "verify_record h sch spec path previous ordinal item = Inr s \<longleftrightarrow>
     record_ok (host_digest h) spec previous ordinal item \<and>
     stored_hash (hash_field spec) item = Some s"
  using stored_check_Inr [of h sch item "hash_field spec" spec path s]
  by (auto simp: verify_record_def record_ok_def host_digest_Some [of _ _ _ sch]
      simp del: bind_eq_Some_conv)

lemma verify_loop_Inr:
  "verify_loop h sch directory d spec previous ordinal names = Inr items \<longleftrightarrow>
     mapR (read_json h sch directory d) names = Inr items \<and>
     chain_ok (host_digest h) spec previous ordinal items"
proof (induction names arbitrary: previous ordinal items)
  case Nil
  then show ?case by auto
next
  case (Cons name names)
  have "verify_loop h sch directory d spec previous ordinal (name # names) = Inr items \<longleftrightarrow>
    (\<exists>item xs. read_json h sch directory d name = Inr item \<and> items = item # xs \<and>
       mapR (read_json h sch directory d) names = Inr xs \<and>
       (\<exists>s. record_ok (host_digest h) spec previous ordinal item \<and>
          stored_hash (hash_field spec) item = Some s \<and>
          chain_ok (host_digest h) spec (Some s) (ordinal + 1) xs))"
    by (simp add: bindR_Inr_iff verify_record_Inr Cons.IH) blast
  also have "\<dots> \<longleftrightarrow> mapR (read_json h sch directory d) (name # names) = Inr items \<and>
     chain_ok (host_digest h) spec previous ordinal items"
    by (auto simp: bindR_Inr_iff) (metis record_ok_stored)
  finally show ?case .
qed

lemma verify_files_refines:
  "verify_files h sch directory d names spec = Inr items \<longleftrightarrow>
     mapR (read_json h sch directory d) names = Inr items \<and>
     chain_ok (host_digest h) spec None (ordinal_start spec) items"
  by (simp add: verify_files_def verify_loop_Inr)

lemma chain_ok_append:
  "chain_ok dig spec p n (xs @ ys) \<longleftrightarrow>
     chain_ok dig spec p n xs \<and>
     chain_ok dig spec (if xs = [] then p else chain_head spec xs) (n + of_nat (length xs)) ys"
  by (induction xs arbitrary: p n) (auto simp: chain_head_def algebra_simps)

lemma chain_ok_snoc:
  "chain_ok dig spec None n (xs @ [y]) \<longleftrightarrow>
     chain_ok dig spec None n xs \<and>
     record_ok dig spec (chain_head spec xs) (n + of_nat (length xs)) y"
  by (auto simp: chain_ok_append chain_head_def)

lemma chain_ok_nth_ordinal:
  assumes "chain_ok dig spec p n items" "i < length items"
  shows "Option.bind (jget (items ! i) (ordinal_field spec)) as_u64 = Some (n + of_nat i)"
  using assms
proof (induction items arbitrary: p n i)
  case Nil
  then show ?case by simp
next
  case (Cons r items)
  show ?case
  proof (cases i)
    case 0
    with Cons.prems show ?thesis by (simp add: record_ok_def)
  next
    case (Suc j)
    with Cons.prems have "chain_ok dig spec (stored_hash (hash_field spec) r) (n + 1) items"
      and "j < length items" by simp_all
    from Cons.IH [OF this] Suc show ?thesis by (simp add: algebra_simps)
  qed
qed

text \<open>Two records with the same hash, the same unhashed content and the hash stored at the end are
  equal; the collision-freedom is asked for the digested values of the two ledgers only.\<close>

definition collision_free :: "(json \<Rightarrow> string option) \<Rightarrow> json set \<Rightarrow> bool" where
  "collision_free dig vs \<longleftrightarrow>
     (\<forall>v \<in> vs. \<forall>w \<in> vs. \<forall>s. dig v = Some s \<longrightarrow> dig w = Some s \<longrightarrow> v = w)"

lemma collision_free_subset: "collision_free dig vs \<Longrightarrow> ws \<subseteq> vs \<Longrightarrow> collision_free dig ws"
  by (auto simp: collision_free_def subset_iff)

text \<open>The shape \<^verbatim>\<open>append_event\<close> writes: the hash field is the last entry.\<close>

definition hash_last :: "string \<Rightarrow> json \<Rightarrow> bool" where
  "hash_last field item \<longleftrightarrow>
     (\<exists>m s. item = JObj (m @ [(field, JStr s)]) \<and> \<not> obj_has m field)"

lemma hash_last_eq:
  assumes "hash_last field v" "hash_last field w"
    "unhash field v = unhash field w" "stored_hash field v = stored_hash field w"
  shows "v = w"
  using assms by (auto simp: hash_last_def unhash_def stored_hash_def obj_remove_last obj_has_iff
      map_add_def map_of_append split: option.splits)

lemma chain_determined:
  assumes "chain_ok dig spec None n xs" "chain_ok dig spec None n ys"
    and "length xs = length ys" "chain_head spec xs = chain_head spec ys"
    and "\<forall>v \<in> set xs \<union> set ys. hash_last (hash_field spec) v"
    and "collision_free dig (unhash (hash_field spec) ` (set xs \<union> set ys))"
  shows "xs = ys"
  using assms
proof (induction xs arbitrary: ys rule: rev_induct)
  case Nil
  then show ?case by simp
next
  case (snoc x xs)
  then obtain y ys' where ys: "ys = ys' @ [y]"
    by (metis length_0_conv length_append_singleton rev_exhaust nat.distinct(1))
  let ?f = "hash_field spec"
  have x: "record_ok dig spec (chain_head spec xs) (n + of_nat (length xs)) x"
    and y: "record_ok dig spec (chain_head spec ys') (n + of_nat (length xs)) y"
    using snoc.prems(1,2,3) ys by (simp_all add: chain_ok_snoc)
  have heads: "stored_hash ?f x = stored_hash ?f y"
    using snoc.prems(4) ys by (simp add: chain_head_def)
  then have "dig (unhash ?f x) = dig (unhash ?f y)"
    using x y by (simp add: record_ok_def)
  moreover obtain s where "dig (unhash ?f x) = Some s"
    using x record_ok_stored [OF x] by (auto simp: record_ok_def)
  moreover have "unhash ?f x \<in> unhash ?f ` (set (xs @ [x]) \<union> set ys)"
    and "unhash ?f y \<in> unhash ?f ` (set (xs @ [x]) \<union> set ys)"
    using ys by auto
  ultimately have "unhash ?f x = unhash ?f y"
    using snoc.prems(6) unfolding collision_free_def by metis
  moreover have "hash_last ?f x" "hash_last ?f y"
    using snoc.prems(5) ys by simp_all
  ultimately have xy: "x = y"
    using heads by (metis hash_last_eq)
  then have "chain_head spec xs = chain_head spec ys'"
    using x y by (simp add: record_ok_def)
  moreover have "collision_free dig (unhash ?f ` (set xs \<union> set ys'))"
    using snoc.prems(6) by (rule collision_free_subset) (auto simp: ys)
  moreover have "chain_ok dig spec None n xs" "chain_ok dig spec None n ys'"
    "length xs = length ys'"
    using snoc.prems(1,2,3) ys by (simp_all add: chain_ok_snoc)
  moreover have "\<forall>v \<in> set xs \<union> set ys'. hash_last ?f v"
    using snoc.prems(5) ys by simp
  ultimately have "xs = ys'" by (intro snoc.IH)
  with xy ys show ?case by simp
qed

lemma find_by_idempotency_spec:
  assumes "mapR (read_json h sch p d) names = Inr items"
  shows "find_by_idempotency h sch p d names key =
    Inr (find (\<lambda>v. Option.bind (jget v ''idempotency_key'') as_str = Some key) items)"
  using assms
  by (induction names arbitrary: items) (auto simp: bindR_Inr_iff)

end
