(* ===== verification/Ledger.thy ===== *)
theory Ledger
  imports Chain
begin

text \<open>
  The ledger layout and append core of \<^verbatim>\<open>ledger.rs\<close>. One event per file
  \<^verbatim>\<open><prefix>-<sequence:012>-<uuid>.json\<close>, listed in name order; an append reads the last event,
  checks the expected head, derives the next sequence number and event id, lets the surface build the
  envelope, hashes it, writes the event and then the idempotency marker. \<open>append_event\<close> returns
  every directory state of the call. \<open>ledger_state\<close> is the abstraction to a list of events; the
  refinement says that each state of an append is the old ledger or the old ledger with the complete
  new event. The directory is modelled by its regular files; a missing directory is an empty one.
  The next sequence number is computed on 64 bits as the release profile does.
\<close>

section \<open>Layout\<close>

record layout =
  directory :: string
  layout_prefix :: string

definition event_name :: "string \<Rightarrow> string" where
  "event_name eid = eid @ ''.json''"

definition ledger_file :: "layout \<Rightarrow> string \<Rightarrow> bool" where
  "ledger_file lay name \<longleftrightarrow>
     extension name = Some ''json'' \<and> starts_with (layout_prefix lay @ ''-'') name"

definition listing :: "layout \<Rightarrow> dir \<Rightarrow> string list" where
  "listing lay d = sort (filter (ledger_file lay) (map fst d))"

definition ledger_files ::
    "error_schema \<Rightarrow> string option \<Rightarrow> layout \<Rightarrow> dir \<Rightarrow> json + string list" where
  "ledger_files sch fault lay d =
     (if d = [] then Inr []
      else case fault of
             Some t \<Rightarrow> Inl (io_error sch ''ledger_read_failed'' t)
           | None \<Rightarrow> Inr (listing lay d))"

definition ledger_head ::
    "host \<Rightarrow> error_schema \<Rightarrow> string option \<Rightarrow> layout \<Rightarrow> dir \<Rightarrow> string \<Rightarrow> json + string option" where
  "ledger_head h sch fault lay d hf =
     bindR (ledger_files sch fault lay d) (\<lambda>names.
       if names = [] then Inr None
       else bindR (read_json h sch (directory lay) d (last names)) (\<lambda>v.
              Inr (as_str (jidx v hf))))"

definition standard_chain_spec :: "string \<Rightarrow> chain_spec" where
  "standard_chain_spec hf =
     \<lparr>hash_field = hf, previous_hash_field = ''previous_hash'', ordinal_field = ''sequence'',
      ordinal_start = 1,
      missing_hash = new_refusal ''ledger_hash_missing'' (''ledger '' @ hf @ '' is missing''),
      ordinal_invalid = new_refusal ''ledger_sequence_invalid'' ''ledger sequence is not contiguous'',
      link_invalid = new_refusal ''ledger_chain_invalid'' ''ledger previous_hash does not match'',
      hash_invalid = new_refusal ''ledger_hash_invalid''
        (''ledger '' @ hf @ '' does not match content'')\<rparr>"

definition verify ::
    "host \<Rightarrow> error_schema \<Rightarrow> string option \<Rightarrow> layout \<Rightarrow> dir \<Rightarrow> string \<Rightarrow> json + unit" where
  "verify h sch fault lay d hf =
     bindR (ledger_files sch fault lay d) (\<lambda>names.
     bindR (verify_files h sch (directory lay) d names (standard_chain_spec hf)) (\<lambda>_. Inr ()))"

definition find_event_by_idempotency ::
    "host \<Rightarrow> error_schema \<Rightarrow> string option \<Rightarrow> layout \<Rightarrow> dir \<Rightarrow> string \<Rightarrow> json + json option" where
  "find_event_by_idempotency h sch fault lay d key =
     bindR (ledger_files sch fault lay d) (\<lambda>names.
       find_by_idempotency h sch (directory lay) d names key)"

section \<open>Append\<close>

record envelope_context =
  ctx_sequence :: u64
  ctx_event_id :: string
  ctx_previous_hash :: "string option"

record append_outcome =
  event :: json
  event_id :: string
  event_hash :: string
  event_sequence :: u64

text \<open>What an append takes from its surroundings: the fresh uuid and the faults of the host.\<close>

record append_env =
  uuid :: string
  list_fault :: "string option"
  event_write :: write_env
  marker_write :: write_env

definition mk_event_id :: "layout \<Rightarrow> u64 \<Rightarrow> string \<Rightarrow> string" where
  "mk_event_id lay seq u = layout_prefix lay @ ''-'' @ pad12 (unat seq) @ ''-'' @ u"

definition next_sequence ::
    "error_schema \<Rightarrow> layout \<Rightarrow> string list \<Rightarrow> json option \<Rightarrow> json + u64" where
  "next_sequence sch lay existing last_event =
     (case last_event of
        None \<Rightarrow> Inr 1
      | Some v \<Rightarrow>
          bindR
            (ok_or (as_u64 (jidx v ''sequence''))
              (schema_error sch ''ledger_sequence_invalid'' ''last ledger event has no valid sequence''
                 (JObj [(''path'', JStr (path_text (directory lay) (last existing)))])))
            (\<lambda>n. Inr (n + 1)))"

definition head_check ::
    "error_schema \<Rightarrow> string option option \<Rightarrow> string option \<Rightarrow> json + unit" where
  "head_check sch expected_head previous_hash =
     (case expected_head of
        None \<Rightarrow> Inr ()
      | Some expected \<Rightarrow>
          refuse_if (expected \<noteq> previous_hash)
            (schema_error sch ''ledger_head_conflict'' ''expected ledger head does not match''
               (JObj [(''expected'', jopt_str expected), (''actual'', jopt_str previous_hash)])))"

definition read_last ::
    "host \<Rightarrow> error_schema \<Rightarrow> layout \<Rightarrow> dir \<Rightarrow> string list \<Rightarrow> json + json option" where
  "read_last h sch lay d existing =
     (if existing = [] then Inr None
      else bindR (read_json h sch (directory lay) d (last existing)) (\<lambda>v. Inr (Some v)))"

text \<open>Everything before the first write.\<close>

definition append_plan ::
    "host \<Rightarrow> error_schema \<Rightarrow> layout \<Rightarrow> string \<Rightarrow> string option option
      \<Rightarrow> (envelope_context \<Rightarrow> json) \<Rightarrow> append_env \<Rightarrow> dir \<Rightarrow> failure + append_outcome" where
  "append_plan h sch lay hf expected_head build e d =
     bindR (refused (ledger_files sch (list_fault e) lay d)) (\<lambda>existing.
     bindR (refused (read_last h sch lay d existing)) (\<lambda>last_event.
     let previous_hash = Option.bind last_event (\<lambda>v. as_str (jidx v hf)) in
     bindR (refused (head_check sch expected_head previous_hash)) (\<lambda>_.
     bindR (refused (next_sequence sch lay existing last_event)) (\<lambda>seq.
     let eid = mk_event_id lay seq (uuid e);
         v = build \<lparr>ctx_sequence = seq, ctx_event_id = eid, ctx_previous_hash = previous_hash\<rparr>
     in bindR (refused (digest_value h sch v)) (\<lambda>dig.
     case as_object v of
       None \<Rightarrow> Inl (Panicked ''called `Option::unwrap()` on a `None` value'')
     | Some m \<Rightarrow>
         Inr \<lparr>event = JObj (obj_insert hf (JStr dig) m), event_id = eid,
              event_hash = dig, event_sequence = seq\<rparr>)))))"

definition append_event ::
    "host \<Rightarrow> error_schema \<Rightarrow> layout \<Rightarrow> string \<Rightarrow> string option option \<Rightarrow> string option
      \<Rightarrow> (envelope_context \<Rightarrow> json) \<Rightarrow> append_env \<Rightarrow> dir
      \<Rightarrow> dir list \<times> (failure + append_outcome)" where
  "append_event h sch lay hf expected_head idempotency_key build e d =
     (case append_plan h sch lay hf expected_head build e d of
        Inl f \<Rightarrow> ([d], Inl f)
      | Inr out \<Rightarrow>
          let (states, written) =
                write_new_json h sch (event_write e) (event_name (event_id out)) (event out) d
          in case written of
               Inl r \<Rightarrow> (states, Inl (Refused r))
             | Inr _ \<Rightarrow>
                 (case idempotency_key of
                    None \<Rightarrow> (states, Inr out)
                  | Some key \<Rightarrow>
                      let (marks, marked) =
                            write_new h sch (marker_write e) (idempotency_marker_name key)
                              (Bytes (event_id out)) (last states)
                      in (states @ marks,
                          case marked of Inl r \<Rightarrow> Inl (Refused r) | Inr _ \<Rightarrow> Inr out)))"

text \<open>Computed without faults, the directory an append leaves.\<close>

definition append_final ::
    "host \<Rightarrow> error_schema \<Rightarrow> layout \<Rightarrow> string \<Rightarrow> string option option \<Rightarrow> string option
      \<Rightarrow> (envelope_context \<Rightarrow> json) \<Rightarrow> append_env \<Rightarrow> dir \<Rightarrow> dir" where
  "append_final h sch lay hf x k build e d = last (fst (append_event h sch lay hf x k build e d))"

section \<open>Names of the ledger\<close>

lemma as_str_jidx: "as_str (jidx v f) = stored_hash f v"
  by (cases "jget v f") (simp_all add: jidx_def jopt_def stored_hash_def)

lemma as_u64_jidx: "as_u64 (jidx v f) = Option.bind (jget v f) as_u64"
  by (cases "jget v f") (simp_all add: jidx_def jopt_def)

lemma extension_event: "eid \<noteq> [] \<Longrightarrow> extension (event_name eid) = Some ''json''"
  using split_ext_dot [of eid "''json''"] by (simp add: extension_def event_name_def)

lemma event_id_nonempty [simp]: "mk_event_id lay n u \<noteq> []"
  by (simp add: mk_event_id_def)

lemma ledger_file_event: "ledger_file lay (event_name (mk_event_id lay n u))"
  by (simp add: ledger_file_def extension_event)
     (simp add: event_name_def mk_event_id_def starts_with_def)

lemma ledger_file_not_pending:
  "name \<noteq> [] \<Longrightarrow> \<not> ledger_file lay (pending_name e name)"
  by (simp add: ledger_file_def extension_pending)

lemma marker_name_nonempty: "idempotency_marker_name key \<noteq> []"
  by (simp add: idempotency_marker_name_def)

lemma extension_marker: "extension (idempotency_marker_name key) = Some ''txt''"
  using split_ext_dot [of "''idem-'' @ safe_name key" "''txt''"]
  by (simp add: extension_def idempotency_marker_name_def)

lemma ledger_file_not_marker: "\<not> ledger_file lay (idempotency_marker_name key)"
  by (simp add: ledger_file_def extension_marker)

lemma event_ne_pending:
  assumes "name = event_name (mk_event_id lay n u)"
  shows "name \<noteq> pending_name e name"
  using ledger_file_event [of lay n u] ledger_file_not_pending [of name lay e] assms
  by (auto simp: event_name_def)

lemma marker_ne_pending: "idempotency_marker_name k \<noteq> pending_name e (idempotency_marker_name k)"
  using extension_marker [of k] extension_pending [OF marker_name_nonempty, of e k] by auto

lemma event_name_less:
  assumes "m < n" "unat n < 10 ^ 12"
  shows "event_name (mk_event_id lay m u) < event_name (mk_event_id lay n v)"
proof -
  have "unat m < unat n" using assms(1) by (simp add: word_less_nat_alt)
  then have "pad12 (unat m) @ ''-'' @ u @ ''.json'' < pad12 (unat n) @ ''-'' @ v @ ''.json''"
    using assms(2) by (rule pad12_less)
  then show ?thesis by (simp add: event_name_def mk_event_id_def)
qed

end
