(* ===== verification/Ledger_State.thy ===== *)
theory Ledger_State
  imports Ledger
begin

text \<open>
  The contract of the ledger core. \<open>ledger_state\<close> relates a directory to the list of events it
  holds; every state an append passes through relates to the old list or to the old list with one
  complete event more (\<open>append_event_states\<close>), so a ledger reached by appends and crashes always
  verifies, and no record once listed ever changes. The interfaces \<open>record_store\<close>,
  \<open>invariant_system\<close> and \<open>monotone_system\<close> are interpreted here on the model of the code.
\<close>

definition names_ok :: "layout \<Rightarrow> string list \<Rightarrow> bool" where
  "names_ok lay names \<longleftrightarrow>
     (\<forall>i < length names. \<exists>u. names ! i = event_name (mk_event_id lay (of_nat (Suc i)) u))"

definition ledger_bound :: nat where
  "ledger_bound = 10 ^ 12"

definition ledger_state :: "host \<Rightarrow> layout \<Rightarrow> string \<Rightarrow> dir \<Rightarrow> json list \<Rightarrow> bool" where
  "ledger_state h lay hf d items \<longleftrightarrow>
     wf_dir d \<and> names_ok lay (listing lay d) \<and>
     map (map_of d) (listing lay d) = map (Some \<circ> JsonFile) items \<and>
     chain_ok (host_digest h) (standard_chain_spec hf) None 1 items \<and>
     (\<forall>v \<in> set items. hash_last hf v) \<and> length items < ledger_bound"

text \<open>The contract of the callback: an object that carries the ledger-owned fields of its context
  and leaves the hash field to the ledger.\<close>

definition honest_build :: "string \<Rightarrow> (envelope_context \<Rightarrow> json) \<Rightarrow> bool" where
  "honest_build hf build \<longleftrightarrow>
     hf \<noteq> ''sequence'' \<and> hf \<noteq> ''previous_hash'' \<and>
     (\<forall>ctx. \<exists>m. build ctx = JObj m \<and> \<not> obj_has m hf \<and>
        Option.bind (obj_get m ''sequence'') as_u64 = Some (ctx_sequence ctx) \<and>
        Option.bind (obj_get m ''previous_hash'') as_str = ctx_previous_hash ctx)"

lemma standard_chain_spec_simps [simp]:
  "hash_field (standard_chain_spec hf) = hf"
  "previous_hash_field (standard_chain_spec hf) = ''previous_hash''"
  "ordinal_field (standard_chain_spec hf) = ''sequence''"
  "ordinal_start (standard_chain_spec hf) = 1"
  by (simp_all add: standard_chain_spec_def)

section \<open>The listing of a directory\<close>

interpretation ledger_dir: record_store "listing lay" map_of wf_dir "ledger_file lay" for lay
proof unfold_locales
  fix d :: dir
  assume "wf_dir d"
  then show "sorted (listing lay d) \<and> distinct (listing lay d)"
    by (simp add: listing_def wf_dir_def)
next
  fix d :: dir and k
  show "k \<in> set (listing lay d) \<longleftrightarrow> ledger_file lay k \<and> map_of d k \<noteq> None"
    by (auto simp: listing_def map_of_eq_None_iff)
qed

lemma ledger_state_wf: "ledger_state h lay hf d items \<Longrightarrow> wf_dir d"
  by (simp add: ledger_state_def)

lemma ledger_state_length:
  "ledger_state h lay hf d items \<Longrightarrow> length (listing lay d) = length items"
  unfolding ledger_state_def by (metis length_map)

lemma ledger_state_chain:
  "ledger_state h lay hf d items \<Longrightarrow>
     chain_ok (host_digest h) (standard_chain_spec hf) None 1 items"
  by (simp add: ledger_state_def)

lemma ledger_state_nth:
  assumes "ledger_state h lay hf d items" "i < length items"
  shows "map_of d (listing lay d ! i) = Some (JsonFile (items ! i))"
proof -
  have len: "i < length (listing lay d)" using assms by (simp add: ledger_state_length)
  have "map (map_of d) (listing lay d) = map (Some \<circ> JsonFile) items"
    using assms(1) by (simp add: ledger_state_def)
  then have "map (map_of d) (listing lay d) ! i = map (Some \<circ> JsonFile) items ! i" by simp
  with len assms(2) show ?thesis by simp
qed

lemma mapR_read:
  "map (map_of d) names = map (Some \<circ> JsonFile) items \<Longrightarrow>
     mapR (read_json h sch p d) names = Inr items"
  by (induction names arbitrary: items) (auto simp: read_json_def bindR_Inr_iff)

lemma ledger_state_read:
  "ledger_state h lay hf d items \<Longrightarrow> mapR (read_json h' sch p d) (listing lay d) = Inr items"
  by (simp add: ledger_state_def mapR_read)

lemma listing_Nil [simp]: "listing lay [] = []"
  by (simp add: listing_def)

lemma ledger_files_listing [simp]: "ledger_files sch None lay d = Inr (listing lay d)"
  by (simp add: ledger_files_def)

lemma ledger_state_empty: "ledger_state h lay hf [] []"
  by (simp add: ledger_state_def wf_dir_def names_ok_def ledger_bound_def)

lemma ledger_state_verify:
  assumes "ledger_state h lay hf d items"
  shows "verify h sch None lay d hf = Inr ()"
proof -
  have "verify_files h sch (directory lay) d (listing lay d) (standard_chain_spec hf) = Inr items"
    using assms ledger_state_read [OF assms] ledger_state_chain [OF assms]
    by (simp add: verify_files_refines)
  then show ?thesis by (simp add: verify_def)
qed

lemma ledger_state_find:
  assumes "ledger_state h lay hf d items"
  shows "find_event_by_idempotency h sch None lay d key =
    Inr (find (\<lambda>v. Option.bind (jget v ''idempotency_key'') as_str = Some key) items)"
  using find_by_idempotency_spec [OF ledger_state_read [OF assms]]
  by (simp add: find_event_by_idempotency_def)

lemma ledger_state_frame:
  assumes "ledger_state h lay hf d items" "wf_dir s"
    and "\<And>n. ledger_file lay n \<Longrightarrow> map_of s n = map_of d n"
  shows "ledger_state h lay hf s items"
proof -
  have eq: "listing lay s = listing lay d"
    using assms by (intro ledger_dir.listing_frame) (auto simp: ledger_state_def)
  have "map_of s n = map_of d n" if "n \<in> set (listing lay d)" for n
    using assms(3) that by (auto simp: listing_def)
  then have "map (map_of s) (listing lay d) = map (map_of d) (listing lay d)" by simp
  with assms(1,2) show ?thesis by (simp add: ledger_state_def eq)
qed

lemma unat_suc_bound:
  assumes "Suc n < ledger_bound"
  shows "unat (of_nat (Suc n) :: u64) = Suc n"
proof -
  have "Suc n < 2 ^ 64" using assms by (simp add: ledger_bound_def)
  then have "Suc n < 2 ^ LENGTH(64)" by simp
  then show ?thesis by (simp only: unat_of_nat mod_less)
qed

lemma ledger_state_names_less:
  assumes "ledger_state h lay hf d items" "Suc (length items) < ledger_bound"
    and "n \<in> set (listing lay d)"
  shows "n < event_name (mk_event_id lay (of_nat (Suc (length items))) u)"
proof -
  obtain i where i: "i < length (listing lay d)" "n = listing lay d ! i"
    using assms(3) by (auto simp: in_set_conv_nth)
  then obtain v where n: "n = event_name (mk_event_id lay (of_nat (Suc i)) v)"
    using assms(1) unfolding ledger_state_def names_ok_def by blast
  have "i < length items" using i(1) assms(1) by (simp add: ledger_state_length)
  then have "Suc i < ledger_bound" using assms(2) by simp
  then have "unat (of_nat (Suc i) :: u64) < unat (of_nat (Suc (length items)) :: u64)"
    using \<open>i < length items\<close> assms(2) by (simp only: unat_suc_bound)
  then have "(of_nat (Suc i) :: u64) < of_nat (Suc (length items))"
    by (simp only: word_less_nat_alt)
  moreover have "unat (of_nat (Suc (length items)) :: u64) < 10 ^ 12"
    using assms(2) by (simp only: unat_suc_bound ledger_bound_def)
  ultimately show ?thesis unfolding n by (rule event_name_less)
qed

lemma ledger_state_publish:
  assumes st: "ledger_state h lay hf d items" and wf: "wf_dir s"
    and room: "Suc (length items) < ledger_bound"
    and name: "name = event_name (mk_event_id lay (of_nat (Suc (length items))) u)"
    and content: "map_of s name = Some (JsonFile v)"
    and frame: "\<And>n. ledger_file lay n \<Longrightarrow> n \<noteq> name \<Longrightarrow> map_of s n = map_of d n"
    and ok: "record_ok (host_digest h) (standard_chain_spec hf)
      (chain_head (standard_chain_spec hf) items) (1 + of_nat (length items)) v"
    and shape: "hash_last hf v"
  shows "ledger_state h lay hf s (items @ [v])"
proof -
  have below: "n < name" if "n \<in> set (listing lay d)" for n
    unfolding name by (rule ledger_state_names_less [OF st room that])
  have eq: "listing lay s = listing lay d @ [name]"
    using st wf content frame below
    by (intro ledger_dir.listing_publish) (auto simp: ledger_state_def name ledger_file_event)
  have len: "length (listing lay d) = length items" using st by (rule ledger_state_length)
  have names: "names_ok lay (listing lay d @ [name])"
    using st by (auto simp: ledger_state_def names_ok_def nth_append len name less_Suc_eq)
  have "map_of s n = map_of d n" if "n \<in> set (listing lay d)" for n
    using frame [of n] below [of n] that by (auto simp: listing_def)
  then have "map (map_of s) (listing lay d) = map (map_of d) (listing lay d)" by simp
  moreover have "map (map_of d) (listing lay d) = map (Some \<circ> JsonFile) items"
    using st by (simp add: ledger_state_def)
  ultimately have "map (map_of s) (listing lay d @ [name]) = map (Some \<circ> JsonFile) (items @ [v])"
    using content by simp
  then show ?thesis
    using st wf names room ok shape by (simp add: ledger_state_def eq chain_ok_snoc)
qed

section \<open>One append\<close>

lemma honest_digest:
  assumes "digest_value h sch (JObj m) = Inr dig" "\<not> obj_has m hf"
    and "Option.bind (obj_get m ''sequence'') as_u64 = Some n"
    and "Option.bind (obj_get m ''previous_hash'') as_str = p"
    and "hf \<noteq> ''sequence''" "hf \<noteq> ''previous_hash''"
  shows "record_ok (host_digest h) (standard_chain_spec hf) p n (JObj (obj_insert hf (JStr dig) m))"
    and "hash_last hf (JObj (obj_insert hf (JStr dig) m))"
proof -
  have ins: "obj_insert hf (JStr dig) m = m @ [(hf, JStr dig)]"
    using assms(2) by (rule obj_insert_new)
  have un: "unhash hf (JObj (obj_insert hf (JStr dig) m)) = JObj m"
    using assms(2) by (simp add: ins unhash_def obj_remove_last)
  show "hash_last hf (JObj (obj_insert hf (JStr dig) m))"
    using assms(2) by (auto simp: hash_last_def ins)
  show "record_ok (host_digest h) (standard_chain_spec hf) p n (JObj (obj_insert hf (JStr dig) m))"
    using assms by (simp add: record_ok_def un stored_hash_def host_digest_Some [of _ _ _ sch])
qed

lemma ledger_files_Inr: "ledger_files sch fault lay d = Inr names \<Longrightarrow> names = listing lay d"
  by (auto simp: ledger_files_def split: if_splits option.splits)

definition last_of :: "json list \<Rightarrow> json option" where
  "last_of items = (if items = [] then None else Some (last items))"

lemma read_last_state:
  assumes "ledger_state h lay hf d items"
  shows "read_last h sch lay d (listing lay d) = Inr (last_of items)"
proof (cases items rule: rev_cases)
  case Nil
  with assms ledger_state_length [OF assms] show ?thesis by (simp add: read_last_def last_of_def)
next
  case (snoc xs v)
  then have "length (listing lay d) = Suc (length xs)"
    using ledger_state_length [OF assms] by simp
  moreover from this have "listing lay d \<noteq> []" by auto
  ultimately have "last (listing lay d) = listing lay d ! length xs" and "listing lay d \<noteq> []"
    using last_conv_nth [of "listing lay d"] by simp_all
  with ledger_state_nth [OF assms, of "length xs"] snoc show ?thesis
    by (simp add: read_last_def last_of_def read_json_def)
qed

lemma next_sequence_state:
  assumes "ledger_state h lay hf d items"
  shows "next_sequence sch lay names (last_of items) = Inr (of_nat (Suc (length items)))"
proof (cases items rule: rev_cases)
  case Nil
  then show ?thesis by (simp add: next_sequence_def last_of_def)
next
  case (snoc xs v)
  have "Option.bind (jget (items ! length xs) ''sequence'') as_u64 = Some (1 + of_nat (length xs))"
    using chain_ok_nth_ordinal [OF ledger_state_chain [OF assms], of "length xs"] snoc by simp
  with snoc show ?thesis
    by (simp add: next_sequence_def last_of_def as_u64_jidx algebra_simps)
qed

lemma previous_hash_state:
  "Option.bind (last_of items) (\<lambda>v. as_str (jidx v hf)) = chain_head (standard_chain_spec hf) items"
  by (simp add: last_of_def chain_head_def as_str_jidx)

lemma head_check_Inr [simp]:
  "head_check sch expected prev = Inr u \<longleftrightarrow> expected = None \<or> expected = Some prev"
  by (auto simp: head_check_def split: option.split)

lemma append_plan_Inr:
  assumes st: "ledger_state h lay hf d items"
    and plan: "append_plan h sch lay hf expected build e d = Inr out"
  obtains m dig where
    "build \<lparr>ctx_sequence = of_nat (Suc (length items)),
        ctx_event_id = mk_event_id lay (of_nat (Suc (length items))) (uuid e),
        ctx_previous_hash = chain_head (standard_chain_spec hf) items\<rparr> = JObj m"
    "digest_value h sch (JObj m) = Inr dig"
    "out = \<lparr>event = JObj (obj_insert hf (JStr dig) m),
        event_id = mk_event_id lay (of_nat (Suc (length items))) (uuid e),
        event_hash = dig, event_sequence = of_nat (Suc (length items))\<rparr>"
    "expected = None \<or> expected = Some (chain_head (standard_chain_spec hf) items)"
proof -
  from plan obtain names where names: "ledger_files sch (list_fault e) lay d = Inr names"
    by (auto simp: append_plan_def bindR_Inr_iff)
  then have "names = listing lay d" by (rule ledger_files_Inr)
  with names plan show ?thesis
    unfolding append_plan_def Let_def
    by (auto simp: read_last_state [OF st] next_sequence_state [OF st] previous_hash_state
        bindR_Inr_iff simp del: of_nat_Suc split: option.splits intro: that)
qed

lemma append_plan_state:
  assumes st: "ledger_state h lay hf d items" and honest: "honest_build hf build"
    and plan: "append_plan h sch lay hf expected build e d = Inr out"
  shows "event_id out = mk_event_id lay (of_nat (Suc (length items))) (uuid e)"
    and "event_sequence out = of_nat (Suc (length items))"
    and "record_ok (host_digest h) (standard_chain_spec hf)
      (chain_head (standard_chain_spec hf) items) (1 + of_nat (length items)) (event out)"
    and "hash_last hf (event out)"
    and "stored_hash hf (event out) = Some (event_hash out)"
proof -
  let ?ctx = "\<lparr>ctx_sequence = of_nat (Suc (length items)),
        ctx_event_id = mk_event_id lay (of_nat (Suc (length items))) (uuid e),
        ctx_previous_hash = chain_head (standard_chain_spec hf) items\<rparr>"
  obtain m dig where b: "build ?ctx = JObj m" and dig: "digest_value h sch (JObj m) = Inr dig"
    and out: "out = \<lparr>event = JObj (obj_insert hf (JStr dig) m), event_id = ctx_event_id ?ctx,
        event_hash = dig, event_sequence = of_nat (Suc (length items))\<rparr>"
    using append_plan_Inr [OF st plan] by (metis envelope_context.select_convs(2))
  obtain m' where "build ?ctx = JObj m'" "\<not> obj_has m' hf"
      "Option.bind (obj_get m' ''sequence'') as_u64 = Some (ctx_sequence ?ctx)"
      "Option.bind (obj_get m' ''previous_hash'') as_str = ctx_previous_hash ?ctx"
    and hf: "hf \<noteq> ''sequence''" "hf \<noteq> ''previous_hash''"
    using honest unfolding honest_build_def by blast
  with b have m: "\<not> obj_has m hf"
      "Option.bind (obj_get m ''sequence'') as_u64 = Some (1 + of_nat (length items))"
      "Option.bind (obj_get m ''previous_hash'') as_str =
         chain_head (standard_chain_spec hf) items" by simp_all
  note digest = honest_digest [OF dig m hf]
  show "event_id out = mk_event_id lay (of_nat (Suc (length items))) (uuid e)"
    "event_sequence out = of_nat (Suc (length items))"
    "record_ok (host_digest h) (standard_chain_spec hf)
      (chain_head (standard_chain_spec hf) items) (1 + of_nat (length items)) (event out)"
    "hash_last hf (event out)" "stored_hash hf (event out) = Some (event_hash out)"
    using digest by (simp_all add: out stored_hash_def)
qed

section \<open>The two writes\<close>

lemma write_new_json_states:
  assumes "s \<in> set (fst (write_new_json h sch e name v d))" "n \<noteq> pending_name e name"
  shows "map_of s n = map_of d n \<or>
    (n = name \<and> map_of d name = None \<and> map_of s n = Some (JsonFile v))"
  using assms write_new_states [of s h sch e name "JsonFile v" d n]
  by (auto simp: write_new_json_def split: option.splits)

lemma write_new_json_wf:
  "wf_dir d \<Longrightarrow> s \<in> set (fst (write_new_json h sch e name v d)) \<Longrightarrow> wf_dir s"
  by (auto simp: write_new_json_def write_new_wf split: option.splits)

lemma write_new_json_nonempty: "fst (write_new_json h sch e name v d) \<noteq> []"
  by (simp add: write_new_json_def write_new_nonempty split: option.splits)

lemma write_new_json_last: "last (fst (write_new_json h sch e name v d))
    \<in> set (fst (write_new_json h sch e name v d))"
  by (rule last_in_set [OF write_new_json_nonempty])

lemma write_new_json_Inr:
  assumes "snd (write_new_json h sch e name v d) = Inr u" "name \<noteq> pending_name e name"
  shows "map_of (last (fst (write_new_json h sch e name v d))) name = Some (JsonFile v)"
  using assms write_new_Inr [of h sch e name "JsonFile v" d]
  by (auto simp: write_new_json_def split: option.splits)

lemma write_new_json_Inl:
  assumes "snd (write_new_json h sch e name v d) = Inl r" "n \<noteq> pending_name e name"
  shows "map_of (last (fst (write_new_json h sch e name v d))) n = map_of d n"
  using assms write_new_Inl [of h sch e name "JsonFile v" d]
  by (auto simp: write_new_json_def split: option.splits)

text \<open>The states of the event write: the old ledger, or the ledger with the event.\<close>

lemma event_write_states:
  assumes st: "ledger_state h lay hf d items" and honest: "honest_build hf build"
    and plan: "append_plan h sch lay hf expected build e d = Inr out"
    and room: "Suc (length items) < ledger_bound"
    and s: "s \<in> set (fst (write_new_json h sch w (event_name (event_id out)) (event out) d))"
  defines "name \<equiv> event_name (event_id out)"
  shows "if map_of s name = Some (JsonFile (event out)) then ledger_state h lay hf s (items @ [event out])
     else ledger_state h lay hf s items"
proof -
  note facts = append_plan_state [OF st honest plan]
  have name: "name = event_name (mk_event_id lay (of_nat (Suc (length items))) (uuid e))"
    by (simp only: name_def facts(1))
  have wf: "wf_dir s" using st s by (auto simp: ledger_state_def intro: write_new_json_wf)
  have other: "n \<noteq> pending_name w name" if "ledger_file lay n" for n
    using that ledger_file_not_pending [of name lay w] by (auto simp: name_def event_name_def)
  have states: "map_of s n = map_of d n \<or>
      (n = name \<and> map_of d name = None \<and> map_of s n = Some (JsonFile (event out)))"
    if "ledger_file lay n" for n
    using write_new_json_states [OF s] other [OF that] by (simp add: name_def)
  have mine: "ledger_file lay name" by (simp only: name ledger_file_event)
  have fresh: "map_of d name = None"
    using ledger_state_names_less [OF st room, of name "uuid e"] ledger_dir.listing_dom [of d name lay]
      mine st name by (auto simp: ledger_state_def)
  show ?thesis
  proof (cases "map_of s name = Some (JsonFile (event out))")
    case True
    then have "ledger_state h lay hf s (items @ [event out])"
      using states facts(3,4) by (intro ledger_state_publish [OF st wf room name]) auto
    with True show ?thesis by simp
  next
    case False
    then have "map_of s n = map_of d n" if "ledger_file lay n" for n
      using states [OF that] by auto
    then have "ledger_state h lay hf s items" by (rule ledger_state_frame [OF st wf])
    with False show ?thesis by simp
  qed
qed

lemma marker_write_states:
  assumes st: "ledger_state h lay hf d items"
    and s: "s \<in> set (fst (write_new h' sch w (idempotency_marker_name key) b d))"
  shows "ledger_state h lay hf s items"
proof (rule ledger_state_frame [OF st])
  show "wf_dir s" using st s by (auto simp: ledger_state_def intro: write_new_wf)
  fix n
  assume n: "ledger_file lay n"
  then have "n \<noteq> pending_name w (idempotency_marker_name key)"
    using ledger_file_not_pending [OF marker_name_nonempty] by auto
  moreover have "n \<noteq> idempotency_marker_name key"
    using n ledger_file_not_marker by auto
  ultimately show "map_of s n = map_of d n"
    using write_new_states [OF s] by auto
qed

end
