(* ===== verification/Ledger_History.thy ===== *)
theory Ledger_History
  imports Ledger_State
begin

text \<open>
  Histories of a ledger: what one append does to the list of events, in every state it passes
  through, and what any sequence of appends, refused appends and crashes leaves. A crash during an
  append leaves one of the states of the call; the next append starts from it.
\<close>

section \<open>One append\<close>

lemma append_event_cases:
  obtains
    (planless) f where "append_plan h sch lay hf x build e d = Inl f"
      "append_event h sch lay hf x key build e d = ([d], Inl f)"
  | (unwritten) out states r where "append_plan h sch lay hf x build e d = Inr out"
      "write_new_json h sch (event_write e) (event_name (event_id out)) (event out) d = (states, Inl r)"
      "append_event h sch lay hf x key build e d = (states, Inl (Refused r))"
  | (keyless) out states where "append_plan h sch lay hf x build e d = Inr out" "key = None"
      "write_new_json h sch (event_write e) (event_name (event_id out)) (event out) d = (states, Inr ())"
      "append_event h sch lay hf x key build e d = (states, Inr out)"
  | (unmarked) out states k marks r where "append_plan h sch lay hf x build e d = Inr out"
      "write_new_json h sch (event_write e) (event_name (event_id out)) (event out) d = (states, Inr ())"
      "key = Some k"
      "write_new h sch (marker_write e) (idempotency_marker_name k) (Bytes (event_id out))
         (last states) = (marks, Inl r)"
      "append_event h sch lay hf x key build e d = (states @ marks, Inl (Refused r))"
  | (marked) out states k marks where "append_plan h sch lay hf x build e d = Inr out"
      "write_new_json h sch (event_write e) (event_name (event_id out)) (event out) d = (states, Inr ())"
      "key = Some k"
      "write_new h sch (marker_write e) (idempotency_marker_name k) (Bytes (event_id out))
         (last states) = (marks, Inr ())"
      "append_event h sch lay hf x key build e d = (states @ marks, Inr out)"
proof (cases "append_plan h sch lay hf x build e d")
  case (Inl f)
  then show ?thesis by (intro planless) (simp_all add: append_event_def)
next
  case plan: (Inr out)
  obtain states w where w: "write_new_json h sch (event_write e) (event_name (event_id out))
      (event out) d = (states, w)" by (cases "write_new_json h sch (event_write e)
      (event_name (event_id out)) (event out) d")
  show ?thesis
  proof (cases w)
    case (Inl r)
    with plan w show ?thesis by (intro unwritten) (auto simp: append_event_def)
  next
    case (Inr u)
    show ?thesis
    proof (cases key)
      case None
      with plan w Inr show ?thesis by (intro keyless) (auto simp: append_event_def)
    next
      case (Some k)
      obtain marks m where m: "write_new h sch (marker_write e) (idempotency_marker_name k)
          (Bytes (event_id out)) (last states) = (marks, m)"
        by (cases "write_new h sch (marker_write e) (idempotency_marker_name k)
          (Bytes (event_id out)) (last states)")
      show ?thesis
      proof (cases m)
        case (Inl r)
        with plan w Inr Some m show ?thesis by (intro unmarked) (auto simp: append_event_def)
      next
        case (Inr v)
        with plan w \<open>w = Inr u\<close> Some m show ?thesis
          by (intro marked) (auto simp: append_event_def)
      qed
    qed
  qed
qed

text \<open>Where the event record of the plan is published, the ledger has it; elsewhere not.\<close>

definition published :: "append_outcome \<Rightarrow> dir \<Rightarrow> bool" where
  "published out s \<longleftrightarrow> map_of s (event_name (event_id out)) = Some (JsonFile (event out))"

lemma event_write_published:
  assumes "ledger_state h lay hf d items" "honest_build hf build"
    "append_plan h sch lay hf x build e d = Inr out" "Suc (length items) < ledger_bound"
    "write_new_json h sch w (event_name (event_id out)) (event out) d = (states, Inr ())"
  shows "ledger_state h lay hf (last states) (items @ [event out]) \<and> published out (last states)"
proof -
  have name: "event_name (event_id out) \<noteq> pending_name w (event_name (event_id out))"
    by (rule event_ne_pending) (simp only: append_plan_state(1) [OF assms(1-3)])
  have "published out (last states)"
    using write_new_json_Inr [OF _ name, of h sch "event out" d "()"] assms(5)
    by (simp add: published_def)
  moreover have "last states \<in> set (fst (write_new_json h sch w (event_name (event_id out))
      (event out) d))"
    using write_new_json_last [of h sch w "event_name (event_id out)" "event out" d] assms(5) by simp
  ultimately show ?thesis
    using event_write_states [OF assms(1-4)] by (auto simp: published_def)
qed

lemma append_event_states:
  assumes st: "ledger_state h lay hf d items" and honest: "honest_build hf build"
    and room: "Suc (length items) < ledger_bound"
    and s: "s \<in> set (fst (append_event h sch lay hf x key build e d))"
  shows "ledger_state h lay hf s items \<or>
    (\<exists>out. append_plan h sch lay hf x build e d = Inr out \<and>
       ledger_state h lay hf s (items @ [event out]))"
proof -
  have staged: ?thesis if plan: "append_plan h sch lay hf x build e d = Inr out"
    and w: "write_new_json h sch (event_write e) (event_name (event_id out)) (event out) d = (states, r)"
    and t: "s \<in> set states" for out states r
    using event_write_states [OF st honest plan room, of s "event_write e"] w t plan
    by (simp split: if_splits)
  have mark: ?thesis if plan: "append_plan h sch lay hf x build e d = Inr out"
    and w: "write_new_json h sch (event_write e) (event_name (event_id out)) (event out) d = (states, Inr ())"
    and m: "write_new h sch (marker_write e) (idempotency_marker_name k) b (last states) = (marks, r)"
    and t: "s \<in> set marks" for out states k b marks r
    using marker_write_states [of h lay hf "last states" "items @ [event out]" s h sch
        "marker_write e" k b]
      event_write_published [OF st honest plan room w] plan m t by auto
  show ?thesis
  proof (cases rule: append_event_cases [of h sch lay hf x build e d key])
    case planless
    with s st show ?thesis by simp
  next
    case unwritten
    with s staged show ?thesis by simp
  next
    case keyless
    with s staged show ?thesis by simp
  next
    case (unmarked out states k marks r)
    then have "s \<in> set states \<or> s \<in> set marks" using s by simp
    then show ?thesis using staged [OF unmarked(1,2)] mark [OF unmarked(1,2,4)] by blast
  next
    case (marked out states k marks)
    then have "s \<in> set states \<or> s \<in> set marks" using s by simp
    then show ?thesis using staged [OF marked(1,2)] mark [OF marked(1,2,4)] by blast
  qed
qed

lemma append_event_nonempty: "fst (append_event h sch lay hf x key build e d) \<noteq> []"
proof (cases rule: append_event_cases [of h sch lay hf x build e d key])
  case (unwritten out states r)
  with write_new_json_nonempty [of h sch "event_write e" "event_name (event_id out)" "event out" d]
  show ?thesis by simp
next
  case (keyless out states)
  with write_new_json_nonempty [of h sch "event_write e" "event_name (event_id out)" "event out" d]
  show ?thesis by simp
next
  case (unmarked out states k marks r)
  with write_new_json_nonempty [of h sch "event_write e" "event_name (event_id out)" "event out" d]
  show ?thesis by simp
next
  case (marked out states k marks)
  with write_new_json_nonempty [of h sch "event_write e" "event_name (event_id out)" "event out" d]
  show ?thesis by simp
qed simp

lemma append_event_last: "append_final h sch lay hf x key build e d
    \<in> set (fst (append_event h sch lay hf x key build e d))"
  unfolding append_final_def by (rule last_in_set [OF append_event_nonempty])

lemma last_marks:
  assumes "write_new h sch e name b d = (marks, r)"
  shows "last (states @ marks) = last marks" "last marks \<in> set marks"
  using write_new_nonempty [of h sch e name b d] assms by auto

lemma append_event_Inr:
  assumes st: "ledger_state h lay hf d items" and honest: "honest_build hf build"
    and room: "Suc (length items) < ledger_bound"
    and ok: "snd (append_event h sch lay hf x key build e d) = Inr out"
  shows "append_plan h sch lay hf x build e d = Inr out \<and>
    ledger_state h lay hf (append_final h sch lay hf x key build e d) (items @ [event out])"
proof (cases rule: append_event_cases [of h sch lay hf x build e d key])
  case (keyless o' states)
  with event_write_published [OF st honest _ room] ok show ?thesis
    by (auto simp: append_final_def)
next
  case (marked o' states k marks)
  have out: "out = o'" using ok by (simp only: marked(5) snd_conv sum.inject)
  have final: "append_final h sch lay hf x key build e d = last marks"
    by (simp only: append_final_def marked(5) fst_conv last_marks(1) [OF marked(4)])
  have "ledger_state h lay hf (last states) (items @ [event o'])"
    using event_write_published [OF st honest marked(1) room marked(2)] by simp
  moreover have "last marks \<in> set (fst (write_new h sch (marker_write e)
      (idempotency_marker_name k) (Bytes (event_id o')) (last states)))"
    using last_marks(2) [OF marked(4)] by (simp only: marked(4) fst_conv)
  ultimately have "ledger_state h lay hf (last marks) (items @ [event o'])"
    by (rule marker_write_states)
  with marked(1) show ?thesis by (simp only: out final)
qed (use ok in auto)

text \<open>A refusal before the event write leaves the directory as it is.\<close>

lemma append_planless:
  assumes "append_plan h sch lay hf x build e d = Inl f"
  shows "append_event h sch lay hf x key build e d = ([d], Inl f)"
  using assms by (simp add: append_event_def)

lemma head_check_Inl:
  "expected \<noteq> prev \<Longrightarrow> \<exists>r. head_check sch (Some expected) prev = Inl r \<and>
     error_code r = Some ''ledger_head_conflict''"
  by (simp add: head_check_def)

lemma append_head_conflict:
  assumes st: "ledger_state h lay hf d items" and nofault: "list_fault e = None"
    and stale: "expected \<noteq> chain_head (standard_chain_spec hf) items"
  shows "\<exists>r. append_event h sch lay hf (Some expected) key build e d = ([d], Inl (Refused r)) \<and>
    error_code r = Some ''ledger_head_conflict''"
proof -
  obtain r where r: "head_check sch (Some expected) (chain_head (standard_chain_spec hf) items) = Inl r"
    "error_code r = Some ''ledger_head_conflict''"
    using head_check_Inl [OF stale] by blast
  then have "append_plan h sch lay hf (Some expected) build e d = Inl (Refused r)"
    using nofault
    by (simp add: append_plan_def read_last_state [OF st] previous_hash_state Let_def)
  then have "append_event h sch lay hf (Some expected) key build e d = ([d], Inl (Refused r))"
    by (rule append_planless)
  with r(2) show ?thesis by blast
qed

section \<open>Histories\<close>

text \<open>One step of a history: some append is run, and stops in one of its states. The bound is the
  number of sequence numbers that twelve digits name.\<close>

inductive ledger_step :: "host \<Rightarrow> layout \<Rightarrow> string \<Rightarrow> dir \<Rightarrow> dir \<Rightarrow> bool" for h lay hf where
  append: "honest_build hf build \<Longrightarrow> Suc (length (listing lay d)) < ledger_bound \<Longrightarrow>
    s \<in> set (fst (append_event h sch lay hf x key build e d)) \<Longrightarrow> ledger_step h lay hf d s"

inductive_cases ledger_stepE [elim]: "ledger_step h lay hf d s"

abbreviation ledger_reachable :: "host \<Rightarrow> layout \<Rightarrow> string \<Rightarrow> dir \<Rightarrow> bool" where
  "ledger_reachable h lay hf \<equiv> reachable_from (\<lambda>d. d = []) (ledger_step h lay hf)"

definition is_ledger :: "host \<Rightarrow> layout \<Rightarrow> string \<Rightarrow> dir \<Rightarrow> bool" where
  "is_ledger h lay hf d \<longleftrightarrow> (\<exists>items. ledger_state h lay hf d items)"

lemma is_ledgerI: "ledger_state h lay hf d items \<Longrightarrow> is_ledger h lay hf d"
  by (auto simp: is_ledger_def)

text \<open>The order of histories: records once listed stay as they are, and new ones come after.\<close>

definition extends :: "layout \<Rightarrow> dir \<Rightarrow> dir \<Rightarrow> bool" where
  "extends lay d s \<longleftrightarrow>
     (\<exists>new. listing lay s = listing lay d @ new) \<and>
     (\<forall>n \<in> set (listing lay d). map_of s n = map_of d n)"

lemma extends_trans: "extends lay d s \<Longrightarrow> extends lay s t \<Longrightarrow> extends lay d t"
  by (auto simp: extends_def)

lemma ledger_state_unique:
  "ledger_state h lay hf d items \<Longrightarrow> ledger_state h' lay hf' d items' \<Longrightarrow> items = items'"
  using ledger_state_read [of h lay hf d items undefined undefined undefined]
    ledger_state_read [of h' lay hf' d items' undefined undefined undefined] by simp

lemma ledger_step_state:
  assumes st: "ledger_state h lay hf d items" and step: "ledger_step h lay hf d s"
  shows "\<exists>new. length new \<le> 1 \<and> ledger_state h lay hf s (items @ new)"
  using step
proof (cases rule: ledger_step.cases)
  case (append build sch x key e)
  then have "Suc (length items) < ledger_bound" using ledger_state_length [OF st] by simp
  from append_event_states [OF st append(1) this append(3)]
  show ?thesis
    by (metis append_Nil2 length_Cons le_refl list.size(3) zero_le One_nat_def)
qed

interpretation ledger_system:
  invariant_system "\<lambda>d. d = []" "ledger_step h lay hf" "is_ledger h lay hf" for h lay hf
proof unfold_locales
  show "is_ledger h lay hf d" if "d = []" for d
    using that ledger_state_empty by (auto simp: is_ledger_def)
  show "is_ledger h lay hf t" if "ledger_step h lay hf s t" "is_ledger h lay hf s" for s t
    using that by (auto simp: is_ledger_def dest: ledger_step_state)
qed

section \<open>Immutability\<close>

lemma event_write_keeps:
  assumes "s \<in> set (fst (write_new_json h sch w (event_name eid) v d))"
    "ledger_file lay n" "map_of d n \<noteq> None"
  shows "map_of s n = map_of d n"
proof -
  have "n \<noteq> pending_name w (event_name eid)"
    using assms(2) ledger_file_not_pending [of "event_name eid" lay w] by (auto simp: event_name_def)
  then show ?thesis using write_new_json_states [OF assms(1), of n] assms(3) by auto
qed

lemma marker_write_keeps:
  assumes "s \<in> set (fst (write_new h sch w (idempotency_marker_name k) b d))"
    "ledger_file lay n"
  shows "map_of s n = map_of d n"
proof -
  have "n \<noteq> pending_name w (idempotency_marker_name k)" "n \<noteq> idempotency_marker_name k"
    using assms(2) ledger_file_not_pending [OF marker_name_nonempty] ledger_file_not_marker by auto
  then show ?thesis using write_new_states [OF assms(1), of n] by auto
qed

lemma append_event_keeps:
  assumes s: "s \<in> set (fst (append_event h sch lay hf x key build e d))"
    and n: "ledger_file lay n" "map_of d n \<noteq> None"
  shows "map_of s n = map_of d n"
proof -
  have first: "map_of t n = map_of d n"
    if "write_new_json h sch w (event_name eid) v d = (states, r)" "t \<in> set states"
    for w eid v states r t
    using event_write_keeps [of t h sch w eid v d lay n] that n by simp
  have second: "map_of t n = map_of d n"
    if "write_new_json h sch w (event_name eid) v d = (states, r)"
      "write_new h sch w' (idempotency_marker_name k) b (last states) = (marks, r')"
      "t \<in> set marks"
    for w eid v states r w' k b marks r' t
  proof -
    have "last states \<in> set states"
      using write_new_json_nonempty [of h sch w "event_name eid" v d] that(1) by simp
    then have "map_of (last states) n = map_of d n" by (rule first [OF that(1)])
    moreover have "map_of t n = map_of (last states) n"
      using marker_write_keeps [of t h sch w' k b "last states" lay n] that(2,3) n(1) by simp
    ultimately show ?thesis by simp
  qed
  show ?thesis
  proof (cases rule: append_event_cases [of h sch lay hf x build e d key])
    case planless
    with s show ?thesis by simp
  next
    case unwritten
    with s first show ?thesis by simp
  next
    case keyless
    with s first show ?thesis by simp
  next
    case (unmarked out states k marks r)
    then have "s \<in> set states \<or> s \<in> set marks" using s by simp
    then show ?thesis using first [OF unmarked(2)] second [OF unmarked(2,4)] by blast
  next
    case (marked out states k marks)
    then have "s \<in> set states \<or> s \<in> set marks" using s by simp
    then show ?thesis using first [OF marked(2)] second [OF marked(2,4)] by blast
  qed
qed

lemma ledger_state_name:
  assumes "ledger_state h lay hf d items" "i < length items"
  shows "\<exists>u. listing lay d ! i = event_name (mk_event_id lay (of_nat (Suc i)) u)"
  using assms ledger_state_length [OF assms(1)] by (simp add: ledger_state_def names_ok_def)

lemma sequence_name_eq:
  assumes "event_name (mk_event_id lay (of_nat (Suc i)) u) = event_name (mk_event_id lay (of_nat (Suc j)) v)"
    and b: "Suc i < ledger_bound" "Suc j < ledger_bound"
  shows "i = j"
proof (rule ccontr)
  have u: "unat (of_nat (Suc i) :: u64) = Suc i" "unat (of_nat (Suc j) :: u64) = Suc j"
    using b by (simp_all only: unat_suc_bound)
  assume "i \<noteq> j"
  then have "(of_nat (Suc i) :: u64) < of_nat (Suc j) \<or> (of_nat (Suc j) :: u64) < of_nat (Suc i)"
    by (simp only: word_less_nat_alt u) auto
  then show False
    using event_name_less [of "of_nat (Suc i)" "of_nat (Suc j)" lay u v]
      event_name_less [of "of_nat (Suc j)" "of_nat (Suc i)" lay v u] assms(1) b
    by (auto simp only: u ledger_bound_def less_irrefl)
qed

lemma extends_intro:
  assumes d: "ledger_state h lay hf d items" and s: "ledger_state h' lay hf' s items'"
    and keep: "\<And>n. ledger_file lay n \<Longrightarrow> map_of d n \<noteq> None \<Longrightarrow> map_of s n = map_of d n"
  shows "extends lay d s"
proof -
  have wf: "wf_dir d" "wf_dir s" using d s by (auto simp: ledger_state_def)
  have dom: "ledger_file lay n \<and> map_of d n \<noteq> None" if "n \<in> set (listing lay d)" for n
    using that ledger_dir.listing_dom [OF wf(1)] by blast
  have same: "listing lay s ! i = listing lay d ! i \<and> i < length (listing lay s)"
    if i: "i < length (listing lay d)" for i
  proof -
    have "listing lay d ! i \<in> set (listing lay s)"
      using dom [OF nth_mem [OF i]] keep by (auto simp: ledger_dir.listing_dom [OF wf(2)])
    then obtain j where j: "j < length (listing lay s)" "listing lay s ! j = listing lay d ! i"
      by (auto simp: in_set_conv_nth)
    have li: "i < length items" and lj: "j < length items'"
      using i j(1) ledger_state_length [OF d] ledger_state_length [OF s] by simp_all
    have b: "Suc i < ledger_bound" "Suc j < ledger_bound"
      using li lj d s by (simp_all add: ledger_state_def)
    obtain u v where "listing lay d ! i = event_name (mk_event_id lay (of_nat (Suc i)) u)"
      "listing lay s ! j = event_name (mk_event_id lay (of_nat (Suc j)) v)"
      using ledger_state_name [OF d li] ledger_state_name [OF s lj] by blast
    then have "i = j" using j(2) b by (intro sequence_name_eq) simp_all
    with j show ?thesis by simp
  qed
  have len: "length (listing lay d) \<le> length (listing lay s)"
    using same [of "length (listing lay d) - 1"] by (cases "length (listing lay d)") auto
  have "take (length (listing lay d)) (listing lay s) = listing lay d"
    using len same by (intro nth_equalityI) auto
  then have "listing lay s = listing lay d @ drop (length (listing lay d)) (listing lay s)"
    by (metis append_take_drop_id)
  moreover have "\<forall>n \<in> set (listing lay d). map_of s n = map_of d n"
    using dom keep by blast
  ultimately show ?thesis unfolding extends_def by blast
qed

lemma ledger_step_extends:
  assumes "is_ledger h lay hf d" "ledger_step h lay hf d s"
  shows "extends lay d s"
proof -
  obtain items where st: "ledger_state h lay hf d items" using assms(1) by (auto simp: is_ledger_def)
  obtain new where "ledger_state h lay hf s (items @ new)"
    using ledger_step_state [OF st assms(2)] by blast
  then show ?thesis
    using assms(2) by (intro extends_intro [OF st]) (auto intro: append_event_keeps)
qed

interpretation ledger_order:
  monotone_system "\<lambda>d. d = []" "ledger_step h lay hf" "is_ledger h lay hf" "extends lay" for h lay hf
proof unfold_locales
  show "extends lay s s" for s by (simp add: extends_def)
qed (blast intro: extends_trans ledger_step_extends)+

end
