(* ===== verification/Ledger_Contract.thy ===== *)
theory Ledger_Contract
  imports Ledger_History
begin

text \<open>
  What the event ledger promises its surfaces: atomic and durable appends, a head that only a
  current reader may extend, a history that always verifies, records that never change, tamper
  evidence from the head hash alone, and the recovery of an event by its idempotency key. The
  example values at the start are the concrete inputs of the witnesses.
\<close>

section \<open>Example values\<close>

definition demo_host :: host where
  "demo_host = \<lparr>to_vec = (\<lambda>v. Inr ''v''), pretty_refusal = (\<lambda>v. None),
     parse_refusal = (\<lambda>b. ''expected value''), sha256_bytes = (\<lambda>b. b),
     exists_text = ''File exists'', missing_text = ''No such file''\<rparr>"

definition demo_layout :: layout where
  "demo_layout = \<lparr>directory = ''ledger'', layout_prefix = ''ev''\<rparr>"

definition demo_build :: "string \<Rightarrow> envelope_context \<Rightarrow> json" where
  "demo_build key ctx = JObj [(''sequence'', JNum (PosInt (ctx_sequence ctx))),
     (''event_id'', JStr (ctx_event_id ctx)), (''previous_hash'', jopt_str (ctx_previous_hash ctx)),
     (''idempotency_key'', JStr key)]"

definition demo_env :: "string \<Rightarrow> append_env" where
  "demo_env u = \<lparr>uuid = u, list_fault = None, event_write = quiet_write, marker_write = quiet_write\<rparr>"

lemma demo_honest: "honest_build ''event_hash'' (demo_build k)"
  by (auto simp: honest_build_def demo_build_def obj_has_def jopt_str_def split: option.splits)

lemma demo_total: "encoder_total demo_host"
  by (simp add: encoder_total_def demo_host_def)

lemma demo_room: "Suc (length ([] :: json list)) < ledger_bound"
  by (simp add: ledger_bound_def)

lemma demo_empty: "ledger_state demo_host demo_layout ''event_hash'' [] []"
  by (rule ledger_state_empty)

section \<open>Appends\<close>

text \<open>C1. Every directory state an append passes through, whatever fault or crash ends it, holds the
  old ledger or the old ledger extended by the one complete event that was planned, and it verifies
  in both cases.\<close>

theorem append_atomic:
  assumes "ledger_state h lay hf d items" "honest_build hf build"
    and "Suc (length items) < ledger_bound"
    and "s \<in> set (fst (append_event h sch lay hf x key build e d))"
  shows "(ledger_state h lay hf s items \<or>
      (\<exists>out. append_plan h sch lay hf x build e d = Inr out \<and>
         ledger_state h lay hf s (items @ [event out]))) \<and>
    verify h sch None lay s hf = Inr ()"
  using append_event_states [OF assms] ledger_state_verify by blast

theorem append_atomic_witness:
  "verify demo_host ''s'' None demo_layout
     (append_final demo_host ''s'' demo_layout ''event_hash'' None (Some ''k'')
        (demo_build ''k'') (demo_env ''u'') []) ''event_hash'' = Inr ()"
  using append_atomic [OF demo_empty demo_honest demo_room append_event_last] by blast

text \<open>C22. A successful append extends the list of events by exactly the event it returns: with the
  next sequence number, the event id built from it, and its own hash as the new head of the ledger.\<close>

theorem append_extends:
  assumes "ledger_state h lay hf d items" "honest_build hf build"
    and "Suc (length items) < ledger_bound"
    and "snd (append_event h sch lay hf x key build e d) = Inr out"
  shows "ledger_state h lay hf (append_final h sch lay hf x key build e d) (items @ [event out])
    \<and> unat (event_sequence out) = Suc (length items)
    \<and> event_id out = mk_event_id lay (event_sequence out) (uuid e)
    \<and> ledger_head h sch None lay (append_final h sch lay hf x key build e d) hf
        = Inr (Some (event_hash out))"
proof -
  let ?s = "append_final h sch lay hf x key build e d"
  have plan: "append_plan h sch lay hf x build e d = Inr out"
    and st: "ledger_state h lay hf ?s (items @ [event out])"
    using append_event_Inr [OF assms] by simp_all
  note facts = append_plan_state [OF assms(1,2) plan]
  have len: "length (listing lay ?s) = Suc (length items)"
    using ledger_state_length [OF st] by simp
  then have ne: "listing lay ?s \<noteq> []" by auto
  have "map_of ?s (last (listing lay ?s)) = Some (JsonFile (event out))"
    using ledger_state_nth [OF st, of "length items"] len by (simp add: last_conv_nth [OF ne])
  then have "ledger_head h sch None lay ?s hf = Inr (Some (event_hash out))"
    using ne facts(5) by (simp add: ledger_head_def read_json_def as_str_jidx)
  moreover have "unat (event_sequence out) = Suc (length items)"
    using assms(3) by (simp only: facts(2) unat_suc_bound)
  moreover have "event_id out = mk_event_id lay (event_sequence out) (uuid e)"
    by (simp only: facts(1,2))
  ultimately show ?thesis using st by simp
qed

lemma append_plan_ok:
  assumes st: "ledger_state h lay hf d items" and honest: "honest_build hf build"
    and total: "encoder_total h" and nofault: "list_fault e = None"
    and current: "x = None \<or> x = Some (chain_head (standard_chain_spec hf) items)"
  shows "\<exists>out. append_plan h sch lay hf x build e d = Inr out"
proof -
  let ?ctx = "\<lparr>ctx_sequence = of_nat (Suc (length items)),
        ctx_event_id = mk_event_id lay (of_nat (Suc (length items))) (uuid e),
        ctx_previous_hash = chain_head (standard_chain_spec hf) items\<rparr>"
  obtain m where m: "build ?ctx = JObj m" using honest unfolding honest_build_def by blast
  obtain dig where dig: "digest_value h sch (JObj m) = Inr dig"
    using digest_value_total [OF total] by blast
  have current': "head_check sch x (chain_head (standard_chain_spec hf) items) = Inr ()"
    using current by simp
  then show ?thesis
    using nofault m dig
    by (simp add: append_plan_def Let_def read_last_state [OF st] next_sequence_state [OF st]
        previous_hash_state current' del: of_nat_Suc)
qed

lemma append_returns:
  assumes st: "ledger_state h lay hf d items" and honest: "honest_build hf build"
    and room: "Suc (length items) < ledger_bound"
    and total: "encoder_total h"
    and current: "x = None \<or> x = Some (chain_head (standard_chain_spec hf) items)"
    and quiet: "list_fault e = None" "event_write e = quiet_write" "marker_write e = quiet_write"
    and free: "\<forall>(n, c) \<in> set d. extension n = Some ''json'' \<or> extension n = Some ''txt''"
    and fresh_key: "\<And>k. key = Some k \<Longrightarrow> map_of d (idempotency_marker_name k) = None"
  shows "\<exists>out. snd (append_event h sch lay hf x key build e d) = Inr out"
proof -
  obtain out where plan: "append_plan h sch lay hf x build e d = Inr out"
    using append_plan_ok [OF st honest total quiet(1) current] by blast
  let ?name = "event_name (event_id out)"
  have eid: "event_id out = mk_event_id lay (of_nat (Suc (length items))) (uuid e)"
    by (rule append_plan_state(1) [OF st honest plan])
  have absent: "map_of d n = None" if "extension n \<noteq> Some ''json''" "extension n \<noteq> Some ''txt''" for n
    using free that by (cases "map_of d n") (auto dest: map_of_SomeD)
  have pend: "extension (pending_name w n) \<noteq> Some ''json''"
    "extension (pending_name w n) \<noteq> Some ''txt''" if "n \<noteq> []" for w n
    using that by (simp_all add: extension_pending)
  have fresh: "map_of d ?name = None"
    using ledger_state_names_less [OF st room, of ?name "uuid e"]
      ledger_dir.listing_dom [OF ledger_state_wf [OF st], of ?name lay]
      ledger_file_event [of lay] by (auto simp: eid)
  have distinct_names: "?name \<noteq> pending_name quiet_write ?name"
    by (rule event_ne_pending) (simp only: eid)
  have stage: "map_of d (pending_name quiet_write ?name) = None"
    by (rule absent) (rule pend, simp add: event_name_def)+
  obtain states where w: "write_new_json h sch quiet_write ?name (event out) d = (states, Inr ())"
    using write_new_quiet [OF fresh stage _ _ _ _ distinct_names, of h sch "JsonFile (event out)"]
      total by (cases "write_new_json h sch quiet_write ?name (event out) d")
      (simp add: write_new_json_def encoder_total_def quiet_write_def)
  have old: "map_of (last states) n = map_of d n" if "extension n \<noteq> Some ''json''" for n
  proof -
    have "extension ?name = Some ''json''" by (simp add: eid extension_event)
    moreover have "map_of (last states) n = (if n = ?name then Some (JsonFile (event out)) else map_of d n)"
      using write_new_quiet_last [OF fresh stage distinct_names, of h sch "JsonFile (event out)" n]
        total w by (simp add: write_new_json_def encoder_total_def)
    ultimately show ?thesis using that by auto
  qed
  show ?thesis
  proof (cases key)
    case None
    with plan w quiet show ?thesis by (simp add: append_event_def)
  next
    case (Some k)
    let ?mark = "idempotency_marker_name k"
    have "map_of (last states) ?mark = None"
      using old [of ?mark] fresh_key [OF Some] by (simp add: extension_marker)
    moreover have "map_of (last states) (pending_name quiet_write ?mark) = None"
      using old [OF pend(1)] absent [OF pend] by (simp add: marker_name_nonempty)
    ultimately have "snd (write_new h sch quiet_write ?mark (Bytes (event_id out)) (last states)) = Inr ()"
      using marker_ne_pending [of k quiet_write]
      by (intro write_new_quiet) (simp_all add: quiet_write_def)
    then obtain marks where
      "write_new h sch quiet_write ?mark (Bytes (event_id out)) (last states) = (marks, Inr ())"
      by (cases "write_new h sch quiet_write ?mark (Bytes (event_id out)) (last states)") simp
    with plan w Some quiet show ?thesis by (simp add: append_event_def)
  qed
qed



lemma demo_append:
  "\<exists>out. snd (append_event demo_host ''s'' demo_layout ''event_hash'' None (Some k)
     (demo_build k) (demo_env ''u'') []) = Inr out"
  by (rule append_returns [OF demo_empty demo_honest demo_room demo_total])
     (simp_all add: demo_env_def)

theorem append_extends_witness:
  "\<exists>out. snd (append_event demo_host ''s'' demo_layout ''event_hash'' None (Some ''k'')
       (demo_build ''k'') (demo_env ''u'') []) = Inr out
    \<and> ledger_head demo_host ''s'' None demo_layout
        (append_final demo_host ''s'' demo_layout ''event_hash'' None (Some ''k'')
           (demo_build ''k'') (demo_env ''u'') []) ''event_hash'' = Inr (Some (event_hash out))"
proof -
  obtain out where out: "snd (append_event demo_host ''s'' demo_layout ''event_hash'' None
      (Some ''k'') (demo_build ''k'') (demo_env ''u'') []) = Inr out"
    using demo_append by blast
  from append_extends [OF demo_empty demo_honest demo_room out] out show ?thesis by blast
qed

text \<open>C24. Only a caller who knows the current head extends the ledger: any other expected head, even
  the empty one, is refused as \<^verbatim>\<open>ledger_head_conflict\<close> and nothing is written.\<close>

theorem append_head_cas:
  assumes "ledger_state h lay hf d items" "list_fault e = None"
    and "expected \<noteq> chain_head (standard_chain_spec hf) items"
  shows "\<exists>r. append_event h sch lay hf (Some expected) key build e d = ([d], Inl (Refused r)) \<and>
    error_code r = Some ''ledger_head_conflict''"
  using assms by (rule append_head_conflict)

theorem append_head_cas_witness:
  "\<exists>r. append_event demo_host ''s'' demo_layout ''event_hash'' (Some (Some ''00'')) None
      (demo_build ''k'') (demo_env ''u'') [] = ([[]], Inl (Refused r)) \<and>
    error_code r = Some ''ledger_head_conflict''"
  by (rule append_head_cas [OF demo_empty]) (simp_all add: demo_env_def chain_head_def)

section \<open>Histories\<close>

text \<open>C4. Whatever sequence of appends, refused appends and crashes produced a directory, it holds a
  ledger: contiguously numbered events in name order, each linked to its predecessor and carrying
  its own digest, and the verification of the code accepts it.\<close>

theorem history_verifies:
  assumes "ledger_reachable h lay hf d"
  shows "\<exists>items. ledger_state h lay hf d items \<and> verify h sch None lay d hf = Inr ()"
  using ledger_system.reach_inv [OF assms] ledger_state_verify by (auto simp: is_ledger_def)

lemma demo_step:
  "ledger_step demo_host demo_layout ''event_hash'' []
     (append_final demo_host ''s'' demo_layout ''event_hash'' None (Some ''k'')
        (demo_build ''k'') (demo_env ''u'') [])"
  by (rule ledger_step.append [OF demo_honest _ append_event_last]) (simp add: ledger_bound_def)

lemma demo_reachable:
  "ledger_reachable demo_host demo_layout ''event_hash''
     (append_final demo_host ''s'' demo_layout ''event_hash'' None (Some ''k'')
        (demo_build ''k'') (demo_env ''u'') [])"
  by (rule reach_step [where s = "[]"], rule reach_init) (simp, rule demo_step)

lemma demo_history:
  "(ledger_step demo_host demo_layout ''event_hash'')\<^sup>*\<^sup>* []
     (append_final demo_host ''s'' demo_layout ''event_hash'' None (Some ''k'')
        (demo_build ''k'') (demo_env ''u'') [])"
  using demo_step by blast

theorem history_verifies_witness:
  "verify demo_host ''s'' None demo_layout
     (append_final demo_host ''s'' demo_layout ''event_hash'' None (Some ''k'')
        (demo_build ''k'') (demo_env ''u'') []) ''event_hash'' = Inr ()"
  using history_verifies [OF demo_reachable] by blast

text \<open>C25. A record once listed is immutable: after any further history its name is listed at the same
  position with the same content, and every later record comes after it.\<close>

theorem history_immutable:
  assumes "is_ledger h lay hf d" "(ledger_step h lay hf)\<^sup>*\<^sup>* d s"
  shows "(\<exists>new. listing lay s = listing lay d @ new) \<and>
    (\<forall>n \<in> set (listing lay d). map_of s n = map_of d n)"
  using ledger_order.run_le [OF assms(2,1)] by (simp add: extends_def)

theorem history_immutable_witness:
  "\<exists>new. listing demo_layout
     (append_final demo_host ''s'' demo_layout ''event_hash'' None (Some ''k'')
        (demo_build ''k'') (demo_env ''u'') []) = listing demo_layout [] @ new"
  using history_immutable [OF is_ledgerI [OF demo_empty] demo_history] by blast

section \<open>Verification and tamper evidence\<close>

lemma verify_Inr:
  "verify h sch None lay d hf = Inr () \<longleftrightarrow>
     (\<exists>items. mapR (read_json h sch (directory lay) d) (listing lay d) = Inr items \<and>
        chain_ok (host_digest h) (standard_chain_spec hf) None 1 items)"
  by (simp add: verify_def bindR_Inr_iff verify_files_refines)

text \<open>C37. The verification accepts exactly the directories whose listed records are readable and form
  a chain: record by record the sequence number, the link to the hash before, and the recomputed
  hash.\<close>

theorem verify_decides_chain:
  "verify h sch None lay d hf = Inr () \<longleftrightarrow>
     (\<exists>items. map (map_of d) (listing lay d) = map (Some \<circ> JsonFile) items \<and>
        chain_ok (host_digest h) (standard_chain_spec hf) None 1 items)"
proof -
  have "mapR (read_json h sch p d) names = Inr items \<longleftrightarrow>
      map (map_of d) names = map (Some \<circ> JsonFile) items" for p names items
    by (induction names arbitrary: items) (auto simp: bindR_Inr_iff read_json_Inr Cons_eq_map_conv)
  then show ?thesis by (simp add: verify_Inr)
qed

lemma of_nat_inject_u64: "(of_nat m :: u64) = of_nat n \<Longrightarrow> m < 2 ^ 64 \<Longrightarrow> n < 2 ^ 64 \<Longrightarrow> m = n"
proof -
  assume "(of_nat m :: u64) = of_nat n" "m < 2 ^ 64" "n < 2 ^ 64"
  moreover have "unat (of_nat k :: u64) = k" if "k < 2 ^ 64" for k
    using that by (simp add: unat_of_nat)
  ultimately show "m = n" by metis
qed

lemma collision_freeD:
  "collision_free dig vs \<Longrightarrow> v \<in> vs \<Longrightarrow> w \<in> vs \<Longrightarrow> dig v = Some s \<Longrightarrow> dig w = Some s \<Longrightarrow> v = w"
  unfolding collision_free_def by blast

lemma chain_head_length:
  assumes xs: "chain_ok dig (standard_chain_spec hf) None 1 xs"
    and ys: "chain_ok dig (standard_chain_spec hf) None 1 ys"
    and heads: "chain_head (standard_chain_spec hf) xs = chain_head (standard_chain_spec hf) ys"
    and shape: "\<forall>v \<in> set xs \<union> set ys. hash_last hf v"
    and free: "collision_free dig (unhash hf ` (set xs \<union> set ys))"
    and bound: "length xs \<le> 2 ^ 64" "length ys \<le> 2 ^ 64"
  shows "length xs = length ys"
proof (cases xs rule: rev_cases)
  case Nil
  show ?thesis
  proof (cases ys rule: rev_cases)
    case (snoc ys' y)
    with ys heads Nil have False
      by (auto simp: chain_ok_snoc chain_head_def dest!: record_ok_stored)
    then show ?thesis ..
  qed (simp add: Nil)
next
  case x: (snoc xs' x)
  then obtain s where s: "stored_hash hf x = Some s"
    using xs by (auto simp: chain_ok_snoc dest!: record_ok_stored)
  with heads x have "ys \<noteq> []" by (auto simp: chain_head_def)
  then obtain ys' y where y: "ys = ys' @ [y]" by (cases ys rule: rev_cases) auto
  have eq: "stored_hash hf y = Some s" using heads s by (simp add: x y chain_head_def)
  have rx: "record_ok dig (standard_chain_spec hf) (chain_head (standard_chain_spec hf) xs')
      (1 + of_nat (length xs')) x" using xs by (simp add: x chain_ok_snoc)
  have ry: "record_ok dig (standard_chain_spec hf) (chain_head (standard_chain_spec hf) ys')
      (1 + of_nat (length ys')) y" using ys by (simp add: y chain_ok_snoc)
  have "dig (unhash hf x) = Some s" "dig (unhash hf y) = Some s"
    using rx ry s eq by (simp_all add: record_ok_def)
  then have "unhash hf x = unhash hf y"
    by (intro collision_freeD [OF free, of _ _ s]) (simp_all add: x y)
  then have "x = y"
    by (rule hash_last_eq [rotated 2]) (use shape s eq in \<open>simp_all add: x y\<close>)
  then have "(of_nat (length xs') :: u64) = of_nat (length ys')"
    using rx ry by (simp add: record_ok_def)
  then have "length xs' = length ys'"
    by (rule of_nat_inject_u64) (use bound in \<open>simp_all add: x y\<close>)
  then show ?thesis by (simp add: x y)
qed

lemma ledger_head_chain:
  assumes "mapR (read_json h sch (directory lay) d) (listing lay d) = Inr items"
  shows "ledger_head h sch None lay d hf = Inr (chain_head (standard_chain_spec hf) items)"
proof (cases "listing lay d" rule: rev_cases)
  case Nil
  with assms show ?thesis by (simp add: ledger_head_def chain_head_def)
next
  case (snoc names n)
  have "items \<noteq> []" using mapR_Inr_length [OF assms] snoc by auto
  moreover have "read_json h sch (directory lay) d n = Inr (last items)"
  proof -
    have "list_all2 (\<lambda>n v. read_json h sch (directory lay) d n = Inr v) (names @ [n]) items"
      using mapR_Inr_all2 [OF assms] snoc by simp
    then show ?thesis by (auto simp: list_all2_append1 list_all2_Cons1)
  qed
  ultimately show ?thesis
    using snoc by (simp add: ledger_head_def chain_head_def as_str_jidx)
qed

text \<open>C5. Tamper evidence: two directories that verify and agree on the head hash hold the same
  events, provided the digest has no collision among the events of the two. Changing, dropping,
  adding or reordering records of a ledger changes its head or fails verification.\<close>

theorem head_determines_ledger:
  assumes "verify h sch None lay d hf = Inr ()" "verify h sch None lay s hf = Inr ()"
    and reads: "mapR (read_json h sch (directory lay) d) (listing lay d) = Inr xs"
      "mapR (read_json h sch (directory lay) s) (listing lay s) = Inr ys"
    and head: "ledger_head h sch None lay d hf = ledger_head h sch None lay s hf"
    and shape: "\<forall>v \<in> set xs \<union> set ys. hash_last hf v"
    and free: "collision_free (host_digest h) (unhash hf ` (set xs \<union> set ys))"
    and bound: "length xs \<le> 2 ^ 64" "length ys \<le> 2 ^ 64"
  shows "xs = ys"
proof -
  have chains: "chain_ok (host_digest h) (standard_chain_spec hf) None 1 xs"
    "chain_ok (host_digest h) (standard_chain_spec hf) None 1 ys"
    using assms(1,2) reads by (simp_all add: verify_Inr)
  have heads: "chain_head (standard_chain_spec hf) xs = chain_head (standard_chain_spec hf) ys"
    using head by (simp add: ledger_head_chain [OF reads(1)] ledger_head_chain [OF reads(2)])
  have "length xs = length ys"
    using chain_head_length [OF chains heads shape free bound] .
  then show ?thesis
    using chain_determined [OF chains _ heads] shape free by simp
qed

lemma demo_digest: "sha256 demo_host b = concat (map hex_byte b)"
  by (simp add: sha256_def demo_host_def)

lemma demo_to_vec: "to_vec demo_host v = Inr ''v''"
  by (simp add: demo_host_def)

lemma demo_digit: "hex_byte (CHR ''v'') = ''76''"
  by code_simp

theorem head_determines_ledger_witness:
  "\<exists>xs ys. mapR (read_json demo_host ''s'' ''ledger'' [(''ev-000000000001-u.json'', JsonFile (JObj
        [(''sequence'', JNum (PosInt 1)), (''event_hash'', JStr ''76'')]))])
      [''ev-000000000001-u.json''] = Inr xs \<and>
    mapR (read_json demo_host ''s'' ''ledger'' [(''idem-k.txt'', Bytes ''ev''),
       (''ev-000000000001-u.json'', JsonFile (JObj
        [(''sequence'', JNum (PosInt 1)), (''event_hash'', JStr ''76'')]))])
      [''ev-000000000001-u.json''] = Inr ys \<and> xs = ys"
proof -
  let ?v = "JObj [(''sequence'', JNum (PosInt 1)), (''event_hash'', JStr ''76'')]"
  let ?n = "''ev-000000000001-u.json''"
  let ?d = "[(?n, JsonFile ?v)]" let ?s = "[(''idem-k.txt'', Bytes ''ev''), (?n, JsonFile ?v)]"
  have names: "listing demo_layout ?d = [?n]" "listing demo_layout ?s = [?n]"
    by (simp_all add: listing_def ledger_file_def extension_def split_ext_def starts_with_def
        demo_layout_def)
  have reads: "mapR (read_json demo_host ''s'' (directory demo_layout) ?d) (listing demo_layout ?d) = Inr [?v]"
    "mapR (read_json demo_host ''s'' (directory demo_layout) ?s) (listing demo_layout ?s) = Inr [?v]"
    by (simp_all add: names read_json_def)
  have un: "unhash ''event_hash'' ?v = JObj [(''sequence'', JNum (PosInt 1))]"
    by (simp add: unhash_def obj_remove_def obj_has_def)
  have dig: "host_digest demo_host v = Some ''76''" for v
    by (simp add: host_digest_def digest_value_def demo_to_vec demo_digest demo_digit)
  have chain: "chain_ok (host_digest demo_host) (standard_chain_spec ''event_hash'') None 1 [?v]"
    by (simp add: record_ok_def un dig) (simp add: stored_hash_def)
  have ok: "verify demo_host ''s'' None demo_layout ?d ''event_hash'' = Inr ()"
    "verify demo_host ''s'' None demo_layout ?s ''event_hash'' = Inr ()"
    using reads chain by (simp_all only: verify_Inr) blast+
  have last: "hash_last ''event_hash'' ?v"
    unfolding hash_last_def
    by (intro exI [of _ "[(''sequence'', JNum (PosInt 1))]"] exI [of _ "''76''"])
       (simp add: obj_has_def)
  have heads: "ledger_head demo_host ''s'' None demo_layout ?d ''event_hash'' =
      ledger_head demo_host ''s'' None demo_layout ?s ''event_hash''"
    by (simp only: ledger_head_chain [OF reads(1)] ledger_head_chain [OF reads(2)])
  have "[?v] = [?v]"
    by (rule head_determines_ledger [OF ok reads heads])
       (use last in \<open>simp_all add: collision_free_def\<close>)
  with reads show ?thesis unfolding names by (auto simp: demo_layout_def)
qed

section \<open>Idempotency keys\<close>

lemma append_event_published:
  assumes st: "ledger_state h lay hf d items" and honest: "honest_build hf build"
    and room: "Suc (length items) < ledger_bound"
    and plan: "append_plan h sch lay hf x build e d = Inr out"
    and s: "s \<in> set (fst (append_event h sch lay hf x key build e d))"
  shows "ledger_state h lay hf s (if published out s then items @ [event out] else items)"
proof -
  have staged: ?thesis
    if "write_new_json h sch (event_write e) (event_name (event_id out)) (event out) d = (states, r)"
      "s \<in> set states" for states r
    using event_write_states [OF st honest plan room, of s "event_write e"] that
    by (simp add: published_def split: if_splits)
  have mark: ?thesis
    if w: "write_new_json h sch (event_write e) (event_name (event_id out)) (event out) d = (states, Inr ())"
      and m: "write_new h sch (marker_write e) (idempotency_marker_name k) b (last states) = (marks, r)"
      and t: "s \<in> set marks" for states k b marks r
  proof -
    note last = event_write_published [OF st honest plan room w]
    have in_marks: "s \<in> set (fst (write_new h sch (marker_write e) (idempotency_marker_name k) b (last states)))"
      using m t by simp
    have "ledger_file lay (event_name (event_id out))"
      by (simp only: append_plan_state(1) [OF st honest plan] ledger_file_event)
    with in_marks have "map_of s (event_name (event_id out)) = map_of (last states) (event_name (event_id out))"
      by (rule marker_write_keeps)
    moreover have "ledger_state h lay hf s (items @ [event out])"
      by (rule marker_write_states [OF _ in_marks]) (use last in blast)
    ultimately show ?thesis using last by (simp add: published_def)
  qed
  show ?thesis
  proof (cases rule: append_event_cases [of h sch lay hf x build e d key])
    case planless
    with plan show ?thesis by simp
  next
    case (unwritten o' states r)
    with plan s show ?thesis by (intro staged) auto
  next
    case (keyless o' states)
    with plan s show ?thesis by (intro staged) auto
  next
    case (unmarked o' states k marks r)
    with plan have o': "o' = out" by simp
    then have "s \<in> set states \<or> s \<in> set marks" using s unmarked(5) by simp
    then show ?thesis using staged [OF unmarked(2) [unfolded o']] mark [OF unmarked(2,4) [unfolded o']]
      by blast
  next
    case (marked o' states k marks)
    with plan have o': "o' = out" by simp
    then have "s \<in> set states \<or> s \<in> set marks" using s marked(5) by simp
    then show ?thesis using staged [OF marked(2) [unfolded o']] mark [OF marked(2,4) [unfolded o']]
      by blast
  qed
qed

lemma plan_key:
  assumes st: "ledger_state h lay hf d items"
    and plan: "append_plan h sch lay hf x build e d = Inr out"
    and keyed: "\<And>ctx. jget (build ctx) ''idempotency_key'' = Some (JStr k)"
    and hf: "hf \<noteq> ''idempotency_key''"
  shows "jget (event out) ''idempotency_key'' = Some (JStr k)"
  using append_plan_Inr [OF st plan] keyed hf by (metis append_outcome.select_convs(1) jget_JObj obj_get_insert)

text \<open>C27. The marker files are a disposable index: in every state of an append, also where it crashed
  before its marker was written, the scan of the ledger finds the event by its key exactly when the
  event is durable.\<close>

theorem durable_event_found_by_key:
  assumes "ledger_state h lay hf d items" "honest_build hf build"
    and "Suc (length items) < ledger_bound"
    and "append_plan h sch lay hf x build e d = Inr out"
    and "s \<in> set (fst (append_event h sch lay hf x key build e d))"
    and "\<And>ctx. jget (build ctx) ''idempotency_key'' = Some (JStr k)"
    and "hf \<noteq> ''idempotency_key''"
    and "\<forall>v \<in> set items. jget v ''idempotency_key'' \<noteq> Some (JStr k)"
  shows "find_event_by_idempotency h sch None lay s k =
    Inr (if published out s then Some (event out) else None)"
proof -
  let ?P = "\<lambda>v. Option.bind (jget v ''idempotency_key'') as_str = Some k"
  have old: "find ?P items = None"
    using assms(8) by (auto simp: find_None_iff bind_eq_Some_conv)
  have "find ?P (items @ [event out]) = Some (event out)"
    using old plan_key [OF assms(1,4,6,7)] by (induction items) (auto split: if_splits)
  with old show ?thesis
    using ledger_state_find [OF append_event_published [OF assms(1-5)], of sch k] by simp
qed

theorem durable_event_found_by_key_witness:
  "\<exists>out. append_plan demo_host ''s'' demo_layout ''event_hash'' None (demo_build ''k'')
       (demo_env ''u'') [] = Inr out \<and>
     find_event_by_idempotency demo_host ''s'' None demo_layout
       (append_final demo_host ''s'' demo_layout ''event_hash'' None (Some ''k'')
          (demo_build ''k'') (demo_env ''u'') []) ''k''
     = Inr (if published out (append_final demo_host ''s'' demo_layout ''event_hash'' None (Some ''k'')
          (demo_build ''k'') (demo_env ''u'') []) then Some (event out) else None)"
proof -
  obtain out where out: "append_plan demo_host ''s'' demo_layout ''event_hash'' None (demo_build ''k'')
       (demo_env ''u'') [] = Inr out"
    using append_plan_ok [OF demo_empty demo_honest demo_total, of "demo_env ''u''" None]
    by (auto simp: demo_env_def)
  have "jget (demo_build ''k'' ctx) ''idempotency_key'' = Some (JStr ''k'')" for ctx
    by (simp add: demo_build_def)
  with durable_event_found_by_key [OF demo_empty demo_honest demo_room out append_event_last] out
  show ?thesis by simp
qed

text \<open>A marker name already taken refuses the append although its event is durable: the caller
  reads an error, the ledger holds the event. Keys are mapped to names by dropping characters, so
  two keys share a marker name without being equal.\<close>

theorem marker_collision:
  assumes st: "ledger_state h lay hf d items" and honest: "honest_build hf build"
    and room: "Suc (length items) < ledger_bound"
    and plan: "append_plan h sch lay hf x build e d = Inr out"
    and written: "snd (write_new_json h sch (event_write e) (event_name (event_id out)) (event out) d)
      = Inr ()"
    and taken: "map_of d (idempotency_marker_name key) = Some c"
  shows "(\<exists>r. snd (append_event h sch lay hf x (Some key) build e d) = Inl (Refused r)) \<and>
    ledger_state h lay hf (append_final h sch lay hf x (Some key) build e d) (items @ [event out])"
proof -
  let ?name = "event_name (event_id out)" and ?mark = "idempotency_marker_name key"
  obtain states where w: "write_new_json h sch (event_write e) ?name (event out) d = (states, Inr ())"
    using written by (cases "write_new_json h sch (event_write e) ?name (event out) d") simp
  have ext: "?mark \<noteq> pending_name (event_write e) ?name"
    using extension_marker [of key] extension_pending [of ?name "event_write e"]
    by (auto simp: event_name_def)
  have "last states \<in> set (fst (write_new_json h sch (event_write e) ?name (event out) d))"
    using write_new_json_last [of h sch "event_write e" ?name "event out" d] w by simp
  from write_new_json_states [OF this ext] have "map_of (last states) ?mark = Some c"
    using taken by auto
  from write_new_exists [OF this marker_ne_pending] obtain r marks where
    m: "write_new h sch (marker_write e) ?mark (Bytes (event_id out)) (last states) = (marks, Inl r)"
    by (metis prod.collapse)
  have app: "append_event h sch lay hf x (Some key) build e d = (states @ marks, Inl (Refused r))"
    by (simp add: append_event_def plan w m)
  have "last marks \<in> set (fst (write_new h sch (marker_write e) ?mark (Bytes (event_id out)) (last states)))"
    using last_marks(2) [OF m] by (simp only: m fst_conv)
  from marker_write_states [OF _ this, of h lay hf "items @ [event out]"]
  have "ledger_state h lay hf (last marks) (items @ [event out])"
    using event_write_published [OF st honest plan room w] by blast
  then show ?thesis
    by (simp only: append_final_def app fst_conv snd_conv last_marks(1) [OF m]) blast
qed

lemma demo_files:
  "idempotency_marker_name ''a b'' = ''idem-ab.txt''" "idempotency_marker_name ''ab'' = ''idem-ab.txt''"
  by (simp_all add: idempotency_marker_name_def safe_name_def safe_char_def ascii_alphanumeric_def
      ascii_digit_def ascii_upper_def ascii_lower_def byte_def)

text \<open>The key \<^verbatim>\<open>ab\<close> was used before; an append under the different key \<^verbatim>\<open>a b\<close> is refused after
  its event became durable.\<close>

theorem marker_collision_witness:
  "''a b'' \<noteq> ''ab'' \<and> (\<exists>out :: append_outcome.
     ledger_state demo_host demo_layout ''event_hash''
       (append_final demo_host ''s'' demo_layout ''event_hash'' None (Some ''a b'')
          (demo_build ''a b'') (demo_env ''u'') [(idempotency_marker_name ''ab'', Bytes ''old'')])
       [event out] \<and>
     (\<exists>r. snd (append_event demo_host ''s'' demo_layout ''event_hash'' None (Some ''a b'')
          (demo_build ''a b'') (demo_env ''u'') [(idempotency_marker_name ''ab'', Bytes ''old'')])
       = Inl (Refused r)))"
proof -
  let ?d = "[(idempotency_marker_name ''ab'', Bytes ''old'')]"
  have st: "ledger_state demo_host demo_layout ''event_hash'' ?d []"
    by (rule ledger_state_frame [OF demo_empty])
       (use ledger_file_not_marker in \<open>auto simp: wf_dir_def\<close>)
  obtain out where out: "append_plan demo_host ''s'' demo_layout ''event_hash'' None
      (demo_build ''a b'') (demo_env ''u'') ?d = Inr out"
    using append_plan_ok [OF st demo_honest demo_total, of "demo_env ''u''" None]
    by (auto simp: demo_env_def)
  let ?name = "event_name (event_id out)"
  have eid: "event_id out = mk_event_id demo_layout (of_nat (Suc 0)) ''u''"
    using append_plan_state(1) [OF st demo_honest out] by (simp add: demo_env_def)
  have ext: "extension ?name = Some ''json''" by (simp add: eid extension_event)
  have fresh: "map_of ?d ?name = None"
    using ext extension_marker [of "''ab''"] by auto
  have stage: "map_of ?d (pending_name quiet_write ?name) = None"
    using extension_pending [of ?name quiet_write] extension_marker [of "''ab''"]
    by (auto simp: event_name_def)
  have "?name \<noteq> pending_name quiet_write ?name" by (rule event_ne_pending) (simp only: eid)
  with fresh stage have "snd (write_new_json demo_host ''s'' (event_write (demo_env ''u'')) ?name
      (event out) ?d) = Inr ()"
    by (simp add: write_new_json_def demo_env_def)
       (simp add: demo_host_def write_new_quiet quiet_write_def)
  moreover have "map_of ?d (idempotency_marker_name ''a b'') = Some (Bytes ''old'')"
    by (simp add: demo_files)
  ultimately have "(\<exists>r. snd (append_event demo_host ''s'' demo_layout ''event_hash'' None (Some ''a b'')
          (demo_build ''a b'') (demo_env ''u'') ?d) = Inl (Refused r)) \<and>
      ledger_state demo_host demo_layout ''event_hash''
       (append_final demo_host ''s'' demo_layout ''event_hash'' None (Some ''a b'')
          (demo_build ''a b'') (demo_env ''u'') ?d) ([] @ [event out])"
    by (intro marker_collision [OF st demo_honest demo_room out]) simp_all
  moreover have "''a b'' \<noteq> ''ab''" by simp
  ultimately show ?thesis unfolding append_Nil by blast
qed

section \<open>Name order\<close>

text \<open>The name order of the event files is the order of their sequence numbers as long as twelve
  digits suffice; the first thirteen-digit name sorts before the last twelve-digit one.\<close>

theorem name_order_is_sequence_order:
  "(\<forall>m n u v. m < n \<and> unat n < 10 ^ 12 \<longrightarrow>
      event_name (mk_event_id lay m u) < event_name (mk_event_id lay n v)) \<and>
   event_name (mk_event_id lay (10 ^ 12) u) < event_name (mk_event_id lay (10 ^ 12 - 1) v)"
proof -
  have pads: "pad12 (10 ^ 12) = ''1000000000000''" "pad12 (10 ^ 12 - 1) = ''999999999999''"
    by (simp_all add: pad12_def Let_def show_nat.simps char_of_eq_iff)
  have "unat (10 ^ 12 :: u64) = 10 ^ 12" "unat (10 ^ 12 - 1 :: u64) = 10 ^ 12 - 1"
    by simp_all
  then have "event_name (mk_event_id lay (10 ^ 12) u) < event_name (mk_event_id lay (10 ^ 12 - 1) v)"
    unfolding event_name_def mk_event_id_def by (simp only: pads) (simp add: less_char_def)
  then show ?thesis using event_name_less by blast
qed

theorem name_order_witness:
  "event_name (mk_event_id demo_layout 9 ''b'') < event_name (mk_event_id demo_layout 10 ''a'')"
  using name_order_is_sequence_order [of demo_layout] by (auto dest!: spec)

end
