(* ===== verification/Authority_Lock.thy ===== *)
theory Authority_Lock
  imports Refusals "HOL-Library.Option_ord"
begin

text \<open>
  The exclusive authority lock of \<^verbatim>\<open>lock.rs\<close>. The file lock itself is the operating system's; the
  model takes the outcome of every try and the reading of the clock after it as input, and keeps
  the polling loop, its bound, the refusals and the treatment of the action's result. Durations are
  in milliseconds. The loop is given fuel and is \<open>None\<close> when it still waits; that
  \<open>lock_fuel\<close> rounds are enough for it to return is proved from the documented behaviour of
  \<^verbatim>\<open>thread::sleep\<close>, which never wakes early.
\<close>

section \<open>The polling loop\<close>

record os_error =
  would_block :: bool
  raw_os_error :: "int option"
  os_text :: string

record lock_policy =
  timeout :: nat
  poll :: nat

definition default_policy :: lock_policy where
  "default_policy = \<lparr>timeout = 10000, poll = 25\<rparr>"

definition lock_contended :: "os_error \<Rightarrow> bool" where
  "lock_contended source \<longleftrightarrow>
     would_block source \<or> raw_os_error source = Some 32 \<or> raw_os_error source = Some 33"

definition lock_path :: "string \<Rightarrow> string \<Rightarrow> string" where
  "lock_path lock_directory key = lock_directory @ CHR ''/'' # safe_name key @ ''.lock''"

definition authority_busy :: "error_schema \<Rightarrow> string \<Rightarrow> lock_policy \<Rightarrow> os_error \<Rightarrow> json" where
  "authority_busy sch key policy source =
     schema_error sch ''authority_busy''
       ''authority lock could not be acquired within the bounded timeout''
       (JObj [(''lock_key'', JStr key), (''timeout_ms'', jnat (timeout policy)),
              (''source'', JStr (os_text source))])"

text \<open>The n-th try: its outcome, and the time elapsed since the start when it is judged.\<close>

type_synonym tries = "nat \<Rightarrow> (os_error + unit) \<times> nat"

datatype verdict = Acquired | Wait | Refuse json

definition judge :: "error_schema \<Rightarrow> string \<Rightarrow> lock_policy \<Rightarrow> (os_error + unit) \<times> nat \<Rightarrow> verdict" where
  "judge sch key policy t =
     (case t of
        (Inr _, _) \<Rightarrow> Acquired
      | (Inl source, elapsed) \<Rightarrow>
          if lock_contended source \<and> elapsed < timeout policy then Wait
          else if lock_contended source then Refuse (authority_busy sch key policy source)
          else Refuse (schema_error sch ''authority_lock_failed'' ''authority lock acquisition failed''
                 (JObj [(''lock_key'', JStr key), (''source'', JStr (os_text source))])))"

fun lock_loop ::
    "error_schema \<Rightarrow> string \<Rightarrow> lock_policy \<Rightarrow> tries \<Rightarrow> nat \<Rightarrow> nat \<Rightarrow> (json + nat) option" where
  "lock_loop sch key policy tries 0 n = None"
| "lock_loop sch key policy tries (Suc fuel) n =
     (case judge sch key policy (tries n) of
        Acquired \<Rightarrow> Some (Inr n)
      | Wait \<Rightarrow> lock_loop sch key policy tries fuel (Suc n)
      | Refuse e \<Rightarrow> Some (Inl e))"

text \<open>The rounds a policy allows: one try per poll interval below the timeout, and a last one.\<close>

definition lock_fuel :: "lock_policy \<Rightarrow> nat" where
  "lock_fuel policy = Suc (Suc (timeout policy div poll policy))"

section \<open>The guarded action\<close>

record lock_env =
  create_fault :: "string option"
  open_fault :: "string option"
  lock_tries :: tries
  unlock_fault :: "string option"

definition io_step :: "error_schema \<Rightarrow> string \<Rightarrow> string option \<Rightarrow> json + unit" where
  "io_step sch code fault = (case fault of None \<Rightarrow> Inr () | Some t \<Rightarrow> Inl (io_error sch code t))"

definition unlock_result ::
    "error_schema \<Rightarrow> string \<Rightarrow> string option \<Rightarrow> json + 'a \<Rightarrow> json + 'a" where
  "unlock_result sch key fault r =
     (case (r, fault) of
        (Inr v, None) \<Rightarrow> Inr v
      | (Inl failure, _) \<Rightarrow> Inl failure
      | (Inr _, Some t) \<Rightarrow>
          Inl (schema_error sch ''authority_unlock_failed''
             ''authority mutation completed but its process lock could not be released''
             (JObj [(''lock_key'', JStr key), (''source'', JStr t)])))"

definition with_authority_lock ::
    "error_schema \<Rightarrow> string \<Rightarrow> lock_policy \<Rightarrow> lock_env \<Rightarrow> ('s \<Rightarrow> (json + 'a) \<times> 's) \<Rightarrow> 's
      \<Rightarrow> ((json + 'a) \<times> 's) option" where
  "with_authority_lock sch key policy e action s =
     (case bindR (io_step sch ''authority_lock_store_create_failed'' (create_fault e))
             (\<lambda>_. io_step sch ''authority_lock_open_failed'' (open_fault e)) of
        Inl err \<Rightarrow> Some (Inl err, s)
      | Inr _ \<Rightarrow>
          (case lock_loop sch key policy (lock_tries e) (lock_fuel policy) 0 of
             None \<Rightarrow> None
           | Some (Inl err) \<Rightarrow> Some (Inl err, s)
           | Some (Inr _) \<Rightarrow>
               let (r, s') = action s in Some (unlock_result sch key (unlock_fault e) r, s')))"

section \<open>Bounded waiting\<close>

text \<open>Every failed try before the n-th was followed by a sleep of at least the poll interval.\<close>

definition sleeps :: "lock_policy \<Rightarrow> tries \<Rightarrow> bool" where
  "sleeps policy tries \<longleftrightarrow> (\<forall>n. n * poll policy \<le> snd (tries n))"

lemma judge_Wait:
  "judge sch key policy t = Wait \<Longrightarrow> snd t < timeout policy \<and> (\<exists>e. fst t = Inl e \<and> lock_contended e)"
  by (auto simp: judge_def split: prod.splits sum.splits if_splits)

lemma judge_Acquired: "judge sch key policy t = Acquired \<longleftrightarrow> fst t = Inr ()"
  by (auto simp: judge_def split: prod.splits sum.splits if_splits)

lemma judge_Refuse: "judge sch key policy t = Refuse r \<Longrightarrow>
    error_code r = Some ''authority_busy'' \<or> error_code r = Some ''authority_lock_failed''"
  by (auto simp: judge_def authority_busy_def split: prod.splits sum.splits if_splits)

text \<open>The loop stops at the first try that is not to be repeated.\<close>

definition settles :: "error_schema \<Rightarrow> string \<Rightarrow> lock_policy \<Rightarrow> tries \<Rightarrow> nat \<Rightarrow> nat \<Rightarrow> bool" where
  "settles sch key policy tries n k \<longleftrightarrow> n \<le> k \<and> judge sch key policy (tries k) \<noteq> Wait \<and>
     (\<forall>i. n \<le> i \<longrightarrow> i < k \<longrightarrow> judge sch key policy (tries i) = Wait)"

lemma settles_step:
  "settles sch key policy tries (Suc n) k \<Longrightarrow> judge sch key policy (tries n) = Wait \<Longrightarrow>
     settles sch key policy tries n k"
  unfolding settles_def by (metis Suc_leD le_eq_less_or_eq Suc_leI)

lemma lock_loop_settles:
  assumes "lock_loop sch key policy tries fuel n = Some r"
  shows "\<exists>k. settles sch key policy tries n k \<and>
    (case judge sch key policy (tries k) of
       Acquired \<Rightarrow> r = Inr k | Wait \<Rightarrow> False | Refuse e \<Rightarrow> r = Inl e)"
  using assms
proof (induction fuel arbitrary: n)
  case 0
  then show ?case by simp
next
  case (Suc fuel)
  show ?case
  proof (cases "judge sch key policy (tries n) = Wait")
    case True
    with Suc.prems have "lock_loop sch key policy tries fuel (Suc n) = Some r" by simp
    from Suc.IH [OF this] True show ?thesis by (blast intro: settles_step)
  next
    case False
    then have "settles sch key policy tries n n" by (simp add: settles_def)
    with False Suc.prems show ?thesis
      by (intro exI [of _ n]) (auto split: verdict.splits)
  qed
qed

lemma lock_loop_Inr:
  assumes "lock_loop sch key policy tries fuel n = Some (Inr k)"
  shows "settles sch key policy tries n k \<and> judge sch key policy (tries k) = Acquired"
proof -
  obtain j where j: "settles sch key policy tries n j"
    "case judge sch key policy (tries j) of
       Acquired \<Rightarrow> Inr k = (Inr j :: json + nat) | Wait \<Rightarrow> False | Refuse e \<Rightarrow> Inr k = Inl e"
    using lock_loop_settles [OF assms] by blast
  then show ?thesis by (cases "judge sch key policy (tries j)") simp_all
qed

lemma wait_bound:
  assumes "sleeps policy tries" "judge sch key policy (tries i) = Wait"
  shows "i * poll policy < timeout policy"
  using assms judge_Wait [OF assms(2)] unfolding sleeps_def by (meson le_less_trans)

lemma lock_loop_returns:
  assumes "sleeps policy tries" "0 < poll policy" "timeout policy div poll policy + 1 < fuel + n"
    "0 < fuel"
  shows "\<exists>r. lock_loop sch key policy tries fuel n = Some r"
  using assms(3,4)
proof (induction fuel arbitrary: n)
  case 0
  then show ?case by simp
next
  case (Suc fuel)
  show ?case
  proof (cases "judge sch key policy (tries n)")
    case Wait
    then have "n * poll policy < timeout policy" by (rule wait_bound [OF assms(1)])
    then have "n \<le> timeout policy div poll policy"
      using assms(2) by (simp add: less_eq_div_iff_mult_less_eq)
    with Suc.prems(1) have "timeout policy div poll policy + 1 < fuel + Suc n" "0 < fuel" by auto
    from Suc.IH [OF this] Wait show ?thesis by simp
  qed simp_all
qed

section \<open>What the lock promises\<close>

definition demo_busy :: os_error where
  "demo_busy = \<lparr>would_block = True, raw_os_error = None, os_text = ''busy''\<rparr>"

definition demo_lock :: "tries \<Rightarrow> lock_env" where
  "demo_lock t = \<lparr>create_fault = None, open_fault = None, lock_tries = t, unlock_fault = None\<rparr>"

lemma settles_tries:
  assumes "sleeps policy tries" "0 < poll policy" "settles sch key policy tries 0 k"
  shows "k * poll policy < timeout policy + poll policy"
    "i < k \<Longrightarrow> snd (tries i) < timeout policy \<and> (\<exists>e. fst (tries i) = Inl e \<and> lock_contended e)"
proof -
  have waits: "judge sch key policy (tries i) = Wait" if "i < k" for i
    using that assms(3) by (simp add: settles_def)
  then show "i < k \<Longrightarrow> snd (tries i) < timeout policy \<and> (\<exists>e. fst (tries i) = Inl e \<and> lock_contended e)"
    using judge_Wait by blast
  show "k * poll policy < timeout policy + poll policy"
  proof (cases k)
    case (Suc j)
    with wait_bound [OF assms(1) waits [of j]] show ?thesis by simp
  qed (use assms(2) in simp)
qed

text \<open>What the call returns, from the outcome of the last try.\<close>

definition lock_outcome ::
    "error_schema \<Rightarrow> string \<Rightarrow> lock_policy \<Rightarrow> lock_env \<Rightarrow> ('s \<Rightarrow> (json + 'a) \<times> 's) \<Rightarrow> 's \<Rightarrow> os_error + unit
      \<Rightarrow> (json + 'a) \<times> 's" where
  "lock_outcome sch key policy e action s t =
     (case t of
        Inr _ \<Rightarrow> (unlock_result sch key (unlock_fault e) (fst (action s)), snd (action s))
      | Inl source \<Rightarrow>
          if lock_contended source then (Inl (authority_busy sch key policy source), s)
          else (Inl (schema_error sch ''authority_lock_failed'' ''authority lock acquisition failed''
                 (JObj [(''lock_key'', JStr key), (''source'', JStr (os_text source))])), s))"

text \<open>C36. Waiting for the authority lock is bounded. When the directory and the lock file can be opened,
  the poll interval is positive and \<^verbatim>\<open>thread::sleep\<close> never wakes early, the call returns after some k-th try, whatever the outcomes of
  the tries: every earlier try found the lock held and was judged before the timeout had elapsed, so
  no wait starts once it has; the tries are as many as poll intervals fit into the timeout, and one
  more. The last try decides the result: the action's under the lock; the refusal as busy, and then
  the timeout has elapsed; or the refusal of a try that failed otherwise. If a wait and the try after
  it take no more than \<open>d\<close> beyond the poll interval, the last try is judged less than one such round
  after the timeout.\<close>

theorem lock_wait_bounded:
  assumes "sleeps policy (lock_tries e)" "0 < poll policy" "create_fault e = None" "open_fault e = None"
  shows "\<exists>k. with_authority_lock sch key policy e action s =
        Some (lock_outcome sch key policy e action s (fst (lock_tries e k))) \<and>
    (\<forall>i < k. snd (lock_tries e i) < timeout policy \<and>
      (\<exists>source. fst (lock_tries e i) = Inl source \<and> lock_contended source)) \<and>
    k * poll policy < timeout policy + poll policy \<and>
    (\<forall>source. fst (lock_tries e k) = Inl source \<longrightarrow> lock_contended source \<longrightarrow>
      timeout policy \<le> snd (lock_tries e k)) \<and>
    (\<forall>d. (\<forall>n. snd (lock_tries e (Suc n)) \<le> snd (lock_tries e n) + poll policy + d) \<longrightarrow> 0 < k \<longrightarrow>
      snd (lock_tries e k) < timeout policy + poll policy + d)"
proof -
  let ?t = "lock_tries e"
  obtain r where r: "lock_loop sch key policy ?t (lock_fuel policy) 0 = Some r"
    using lock_loop_returns [OF assms(1,2), of "lock_fuel policy" 0] by (auto simp: lock_fuel_def)
  then obtain k where k: "settles sch key policy ?t 0 k"
    and out: "case judge sch key policy (?t k) of Acquired \<Rightarrow> r = Inr k | Wait \<Rightarrow> False | Refuse err \<Rightarrow> r = Inl err"
    using lock_loop_settles by blast
  note early = settles_tries [OF assms(1,2) k]
  have "with_authority_lock sch key policy e action s =
      Some (lock_outcome sch key policy e action s (fst (?t k)))"
    using r out by (auto simp: with_authority_lock_def io_step_def assms(3,4) lock_outcome_def judge_def
        split: prod.splits sum.splits if_splits)
  moreover have "timeout policy \<le> snd (?t k)" if "fst (?t k) = Inl source" "lock_contended source" for source
    using that k by (cases "?t k") (auto simp: settles_def judge_def split: if_splits)
  moreover have "snd (?t k) < timeout policy + poll policy + d"
    if "\<forall>n. snd (?t (Suc n)) \<le> snd (?t n) + poll policy + d" "0 < k" for d
  proof -
    from that(2) obtain j where j: "k = Suc j" by (cases k) auto
    have "snd (?t j) < timeout policy" using early(2) [of j] j by simp
    with that(1) j show ?thesis by (meson add_less_mono1 le_less_trans)
  qed
  ultimately show ?thesis using early by blast
qed

text \<open>Two polls find the lock held, the third gets it.\<close>

theorem lock_wait_bounded_witness:
  "\<exists>k out. with_authority_lock ''s'' ''k'' default_policy
     (demo_lock (\<lambda>n. (if n < 2 then Inl demo_busy else Inr (), n * 25))) (\<lambda>s. (Inr (), Suc s)) (0 :: nat) =
       Some out \<and> k * 25 < 10025 \<and> (\<forall>i < k. i < (2 :: nat))"
proof -
  let ?e = "demo_lock (\<lambda>n. (if n < 2 then Inl demo_busy else Inr (), n * 25))"
  have "sleeps default_policy (lock_tries ?e)" "0 < poll default_policy" "create_fault ?e = None"
    "open_fault ?e = None"
    by (simp_all add: sleeps_def default_policy_def demo_lock_def)
  from lock_wait_bounded [OF this, where action = "\<lambda>s. (Inr (), Suc s)" and s = 0 and sch = "''s''" and key = "''k''"]
  obtain k where "with_authority_lock ''s'' ''k'' default_policy ?e (\<lambda>s. (Inr (), Suc s)) (0 :: nat) =
      Some (lock_outcome ''s'' ''k'' default_policy ?e (\<lambda>s. (Inr (), Suc s)) 0 (fst (lock_tries ?e k)))"
    "k * poll default_policy < timeout default_policy + poll default_policy"
    "\<forall>i < k. \<exists>source. fst (lock_tries ?e i) = Inl source"
    by blast
  then show ?thesis
    by (intro exI [of _ k] exI conjI) (auto simp: default_policy_def demo_lock_def split: if_splits)
qed

text \<open>The action runs only under the lock: unless some try acquired it the state is untouched and
  the call is refused; a failure of the action is reported as it is, and the only success that turns
  into an error is one whose lock could not be released, whose effect is kept.\<close>

theorem lock_guards_action:
  assumes "with_authority_lock sch key policy e action s = Some (r, s')"
  shows "(s' = s \<and> (\<exists>err. r = Inl err)) \<or>
    ((\<exists>k. fst (lock_tries e k) = Inr ()) \<and> s' = snd (action s) \<and>
      (r = fst (action s) \<or>
       (\<exists>v err. fst (action s) = Inr v \<and> unlock_fault e \<noteq> None \<and> r = Inl err \<and>
          error_code err = Some ''authority_unlock_failed'')))"
proof (cases "\<exists>k. lock_loop sch key policy (lock_tries e) (lock_fuel policy) 0 = Some (Inr k)")
  case True
  then obtain k where k: "lock_loop sch key policy (lock_tries e) (lock_fuel policy) 0 = Some (Inr k)"
    by blast
  then have "judge sch key policy (lock_tries e k) = Acquired"
    using lock_loop_Inr [OF k] by simp
  then have "fst (lock_tries e k) = Inr ()" by (simp add: judge_Acquired)
  moreover have "unlock_result sch key (unlock_fault e) r0 = r0 \<or>
      (\<exists>v err. r0 = Inr v \<and> unlock_fault e \<noteq> None \<and>
        unlock_result sch key (unlock_fault e) r0 = Inl err \<and>
        error_code err = Some ''authority_unlock_failed'')" for r0 :: "json + 'a"
    by (cases r0; cases "unlock_fault e") (simp_all add: unlock_result_def)
  moreover have "s' = s \<and> (\<exists>err. r = Inl err) \<or>
      s' = snd (action s) \<and> r = unlock_result sch key (unlock_fault e) (fst (action s))"
    using assms k by (cases "action s") (auto simp: with_authority_lock_def split: sum.splits)
  ultimately show ?thesis by metis
next
  case False
  then show ?thesis
    using assms by (auto simp: with_authority_lock_def split: sum.splits option.splits)
qed

theorem lock_guards_action_witness:
  "\<exists>r. with_authority_lock ''s'' ''k'' default_policy (demo_lock (\<lambda>n. (Inr (), 0)))
     (\<lambda>s. (Inr True, Suc s)) (0 :: nat) = Some (r, 1) \<and> r = Inr True"
proof -
  have run: "with_authority_lock ''s'' ''k'' default_policy (demo_lock (\<lambda>n. (Inr (), 0)))
     (\<lambda>s. (Inr True, Suc s)) (0 :: nat) = Some (Inr True, 1)"
    by (simp add: with_authority_lock_def demo_lock_def io_step_def lock_fuel_def judge_def
        unlock_result_def)
  from lock_guards_action [OF run] run show ?thesis by auto
qed

end
