(* ===== verification/Projection.thy ===== *)
theory Projection
  imports Ledger_Contract
begin

text \<open>
  The projection rebuild of \<^verbatim>\<open>projection.rs\<close>. The database is a parameter: its content is a value
  of type \<open>'db\<close>, the schema batch and the per-event fold are the consuming surface's functions on
  it. The model keeps the order of the file operations (scratch database, schema, fold in one
  transaction, commit, remove the old file, rename) and returns every state of the two files.
\<close>

record 'db projection =
  current :: "'db option"
  scratch :: "'db option"

record projection_faults =
  verify_list_fault :: "string option"
  fold_list_fault :: "string option"
  connect_fault :: "string option"
  begin_fault :: "string option"
  commit_fault :: "string option"
  remove_fault :: "string option"
  rename_fault :: "string option"
  cleanup_fault :: bool

fun fold_events ::
    "host \<Rightarrow> error_schema \<Rightarrow> string \<Rightarrow> dir \<Rightarrow> ('db \<Rightarrow> json \<Rightarrow> string \<Rightarrow> json + 'db) \<Rightarrow> string list \<Rightarrow> 'db
      \<Rightarrow> json + 'db" where
  "fold_events h sch p d apply_event [] db = Inr db"
| "fold_events h sch p d apply_event (name # names) db =
     bindR (read_json h sch p d name) (\<lambda>ev.
     bindR (apply_event db ev (case as_str (jidx ev ''event_id'') of None \<Rightarrow> [] | Some s \<Rightarrow> s))
       (fold_events h sch p d apply_event names))"

definition db_step :: "error_schema \<Rightarrow> string \<Rightarrow> string option \<Rightarrow> json + unit" where
  "db_step sch c fault = (case fault of None \<Rightarrow> Inr () | Some t \<Rightarrow> Inl (db_error sch c t))"

text \<open>What the transaction commits: the schema batch, then the fold over the listed events.\<close>

definition folded ::
    "host \<Rightarrow> error_schema \<Rightarrow> layout \<Rightarrow> projection_faults \<Rightarrow> ('db \<Rightarrow> json \<Rightarrow> string \<Rightarrow> json + 'db) \<Rightarrow> dir
      \<Rightarrow> 'db \<Rightarrow> json + 'db" where
  "folded h sch lay f apply_event d db =
     bindR (db_step sch ''projection_transaction_failed'' (begin_fault f)) (\<lambda>_.
     bindR (ledger_files sch (fold_list_fault f) lay d) (\<lambda>names.
     bindR (fold_events h sch (directory lay) d apply_event names db) (\<lambda>db'.
     bindR (db_step sch ''projection_commit_failed'' (commit_fault f)) (\<lambda>_. Inr db'))))"

definition swap ::
    "error_schema \<Rightarrow> projection_faults \<Rightarrow> 'db projection \<Rightarrow> 'db projection list \<times> (json + unit)" where
  "swap sch f p =
     (let removed = p\<lparr>current := None\<rparr> in
      case (current p, remove_fault f) of
        (Some _, Some t) \<Rightarrow> ([p], Inl (io_error sch ''projection_remove_old_failed'' t))
      | _ \<Rightarrow>
          (case rename_fault f of
             Some t \<Rightarrow> ([p, removed], Inl (io_error sch ''projection_replace_failed'' t))
           | None \<Rightarrow>
               ([p, removed, \<lparr>current = scratch p, scratch = None\<rparr>], Inr ())))"

definition rebuild_body ::
    "host \<Rightarrow> error_schema \<Rightarrow> layout \<Rightarrow> projection_faults \<Rightarrow> 'db \<Rightarrow> ('db \<Rightarrow> string + 'db)
      \<Rightarrow> ('db \<Rightarrow> json \<Rightarrow> string \<Rightarrow> json + 'db) \<Rightarrow> dir \<Rightarrow> 'db projection
      \<Rightarrow> 'db projection list \<times> (json + unit)" where
  "rebuild_body h sch lay f fresh ddl apply_event d p =
     (case db_step sch ''projection_create_failed'' (connect_fault f) of
        Inl e \<Rightarrow> ([p], Inl e)
      | Inr _ \<Rightarrow>
      let opened = p\<lparr>scratch := Some fresh\<rparr> in
      case ddl fresh of
        Inl t \<Rightarrow> ([p, opened], Inl (db_error sch ''projection_schema_failed'' t))
      | Inr db \<Rightarrow>
      let prepared = p\<lparr>scratch := Some db\<rparr> in
      case folded h sch lay f apply_event d db of
        Inl e \<Rightarrow> ([p, opened, prepared], Inl e)
      | Inr db' \<Rightarrow>
      let (states, r) = swap sch f (p\<lparr>scratch := Some db'\<rparr>)
      in ([p, opened, prepared] @ states, r))"

definition rebuild_projection ::
    "host \<Rightarrow> error_schema \<Rightarrow> layout \<Rightarrow> string \<Rightarrow> projection_faults \<Rightarrow> 'db \<Rightarrow> ('db \<Rightarrow> string + 'db)
      \<Rightarrow> ('db \<Rightarrow> json \<Rightarrow> string \<Rightarrow> json + 'db) \<Rightarrow> dir \<Rightarrow> 'db projection
      \<Rightarrow> 'db projection list \<times> (json + unit)" where
  "rebuild_projection h sch lay hf f fresh ddl apply_event d p =
     (case verify h sch (verify_list_fault f) lay d hf of
        Inl e \<Rightarrow> ([p], Inl e)
      | Inr _ \<Rightarrow>
          let (states, r) = rebuild_body h sch lay f fresh ddl apply_event d p in
          (case r of
             Inr _ \<Rightarrow> (states, Inr ())
           | Inl e \<Rightarrow>
               (states @ [if cleanup_fault f then last states else (last states)\<lparr>scratch := None\<rparr>],
                Inl e)))"

section \<open>The specification: the projection is a function of the ledger\<close>

definition event_id_of :: "json \<Rightarrow> string" where
  "event_id_of ev = (case as_str (jidx ev ''event_id'') of None \<Rightarrow> [] | Some s \<Rightarrow> s)"

fun project ::
    "('db \<Rightarrow> json \<Rightarrow> string \<Rightarrow> json + 'db) \<Rightarrow> json list \<Rightarrow> 'db \<Rightarrow> json + 'db" where
  "project apply_event [] db = Inr db"
| "project apply_event (ev # evs) db =
     bindR (apply_event db ev (event_id_of ev)) (project apply_event evs)"

lemma project_append:
  "project f (xs @ ys) db = bindR (project f xs db) (project f ys)"
proof (induction xs arbitrary: db)
  case Nil
  then show ?case by simp
next
  case (Cons x xs)
  then show ?case by (cases "f db x (event_id_of x)") simp_all
qed

lemma fold_events_project:
  assumes "mapR (read_json h sch p d) names = Inr items"
  shows "fold_events h sch p d f names db = project f items db"
  using assms
proof (induction names arbitrary: items db)
  case Nil
  then show ?case by simp
next
  case (Cons n names)
  then obtain v vs where v: "read_json h sch p d n = Inr v" "mapR (read_json h sch p d) names = Inr vs"
    "items = v # vs" by (auto simp: bindR_Inr_iff)
  have "fold_events h sch p d f names = project f vs" by (rule ext) (rule Cons.IH [OF v(2)])
  with v show ?case by (simp add: event_id_of_def)
qed

lemma swap_Inr: "snd (swap sch f p) = Inr u \<Longrightarrow>
    last (fst (swap sch f p)) = \<lparr>current = scratch p, scratch = None\<rparr>"
  by (auto simp: swap_def Let_def split: option.splits)

lemma swap_states:
  "s \<in> set (fst (swap sch f p)) \<Longrightarrow> current s = current p \<or>
     current s = None \<and> scratch s = scratch p \<or> current s = scratch p"
  by (auto simp: swap_def Let_def split: option.splits)

lemma swap_nonempty: "fst (swap sch f p) \<noteq> []"
  by (auto simp: swap_def Let_def split: option.splits)

lemma folded_Inr:
  assumes "ledger_state h lay hf d items" "folded h sch lay f apply_event d db = Inr db'"
  shows "project apply_event items db = Inr db'"
proof -
  from assms(2) obtain names where names: "ledger_files sch (fold_list_fault f) lay d = Inr names"
    and fold: "fold_events h sch (directory lay) d apply_event names db = Inr db'"
    by (auto simp: folded_def bindR_Inr_iff)
  have "names = listing lay d" using names by (rule ledger_files_Inr)
  with fold show ?thesis
    using fold_events_project [OF ledger_state_read [OF assms(1)], of h sch "directory lay" apply_event db] by simp
qed

section \<open>What a rebuild promises\<close>

lemma rebuild_body_cases:
  obtains
    (failed) e states where "rebuild_body h sch lay f fresh ddl apply_event d p = (p # states, Inl e)"
      "\<forall>s \<in> set states. current s = current p"
  | (swapped) db0 db where "ddl fresh = Inr db0" "folded h sch lay f apply_event d db0 = Inr db"
      "rebuild_body h sch lay f fresh ddl apply_event d p =
        ([p, p\<lparr>scratch := Some fresh\<rparr>, p\<lparr>scratch := Some db0\<rparr>] @
           fst (swap sch f (p\<lparr>scratch := Some db\<rparr>)), snd (swap sch f (p\<lparr>scratch := Some db\<rparr>)))"
proof (cases "db_step sch ''projection_create_failed'' (connect_fault f)")
  case (Inl e)
  then show ?thesis by (intro failed [of "[]"]) (simp_all add: rebuild_body_def)
next
  case opened: (Inr u)
  show ?thesis
  proof (cases "ddl fresh")
    case (Inl t)
    with opened show ?thesis
      by (intro failed [of "[p\<lparr>scratch := Some fresh\<rparr>]"]) (simp_all add: rebuild_body_def)
  next
    case prepared: (Inr db0)
    show ?thesis
    proof (cases "folded h sch lay f apply_event d db0")
      case (Inl e)
      with opened prepared show ?thesis
        by (intro failed [of "[p\<lparr>scratch := Some fresh\<rparr>, p\<lparr>scratch := Some db0\<rparr>]"])
           (simp_all add: rebuild_body_def)
    next
      case (Inr db)
      with opened prepared show ?thesis
        by (intro swapped [of db0 db]) (simp_all add: rebuild_body_def Let_def split: prod.split)
    qed
  qed
qed

text \<open>C35. A rebuild that succeeds leaves exactly the fold of the ledger's events over the schema, in
  ledger order, whatever projection was there before, and no scratch database.\<close>

theorem rebuild_reflects_ledger:
  assumes st: "ledger_state h lay hf d items"
    and ok: "snd (rebuild_projection h sch lay hf f fresh ddl apply_event d p) = Inr ()"
  shows "\<exists>db0 db. ddl fresh = Inr db0 \<and> project apply_event items db0 = Inr db \<and>
    last (fst (rebuild_projection h sch lay hf f fresh ddl apply_event d p))
      = \<lparr>current = Some db, scratch = None\<rparr>"
proof -
  obtain u where v: "verify h sch (verify_list_fault f) lay d hf = Inr u"
    using ok by (cases "verify h sch (verify_list_fault f) lay d hf") (auto simp: rebuild_projection_def)
  show ?thesis
  proof (cases rule: rebuild_body_cases [of h sch lay f fresh ddl apply_event d p])
    case (failed e states)
    have False using ok v by (simp add: rebuild_projection_def failed(1))
    then show ?thesis ..
  next
    case (swapped db0 db)
    let ?w = "swap sch f (p\<lparr>scratch := Some db\<rparr>)"
    have w: "snd ?w = Inr ()"
      using ok v swapped(3) by (cases "snd ?w") (auto simp: rebuild_projection_def)
    then have "last (fst (rebuild_projection h sch lay hf f fresh ddl apply_event d p)) = last (fst ?w)"
      using v swapped(3) swap_nonempty [of sch f "p\<lparr>scratch := Some db\<rparr>"]
      by (simp add: rebuild_projection_def)
    with swap_Inr [OF w] have "last (fst (rebuild_projection h sch lay hf f fresh ddl apply_event d p))
        = \<lparr>current = Some db, scratch = None\<rparr>" by simp
    with swapped(1) folded_Inr [OF st swapped(2)] show ?thesis by blast
  qed
qed

definition demo_faults :: projection_faults where
  "demo_faults = \<lparr>verify_list_fault = None, fold_list_fault = None, connect_fault = None,
     begin_fault = None, commit_fault = None, remove_fault = None, rename_fault = None,
     cleanup_fault = False\<rparr>"

theorem rebuild_reflects_ledger_witness:
  "last (fst (rebuild_projection demo_host ''s'' demo_layout ''event_hash'' demo_faults (0 :: nat)
     (\<lambda>n. Inr n) (\<lambda>n ev i. Inr (Suc n)) [] \<lparr>current = Some 7, scratch = None\<rparr>))
   = \<lparr>current = Some 0, scratch = None\<rparr>"
proof -
  have "snd (rebuild_projection demo_host ''s'' demo_layout ''event_hash'' demo_faults (0 :: nat)
     (\<lambda>n. Inr n) (\<lambda>n ev i. Inr (Suc n)) [] \<lparr>current = Some 7, scratch = None\<rparr>) = Inr ()"
    using ledger_state_verify [OF demo_empty, of "''s''"]
    by (simp add: rebuild_projection_def demo_faults_def rebuild_body_def db_step_def folded_def
        swap_def Let_def)
  from rebuild_reflects_ledger [OF demo_empty this] show ?thesis by simp
qed

text \<open>C34. No state of a rebuild, failed or crashed, shows a partial projection: the file is the old
  one, or it is gone while the scratch file holds the complete fold or was just dropped after a
  failed rename, or it is the complete fold.\<close>

theorem rebuild_never_partial:
  assumes st: "ledger_state h lay hf d items"
    and s: "s \<in> set (fst (rebuild_projection h sch lay hf f fresh ddl apply_event d p))"
  shows "current s = current p \<or>
    (\<exists>db0 db. ddl fresh = Inr db0 \<and> project apply_event items db0 = Inr db \<and>
       (current s = Some db \<or>
        current s = None \<and> (scratch s = Some db \<or> rename_fault f \<noteq> None \<and> scratch s = None)))"
proof (cases "verify h sch (verify_list_fault f) lay d hf")
  case (Inl e)
  with s show ?thesis by (simp add: rebuild_projection_def)
next
  case v: (Inr u)
  show ?thesis
  proof (cases rule: rebuild_body_cases [of h sch lay f fresh ddl apply_event d p])
    case (failed e states)
    then have "current s' = current p" if "s' \<in> set (p # states)" for s' using that by auto
    moreover have "s \<in> set (p # states) \<or> current s = current (last (p # states))"
      using s v failed(1) by (auto simp: rebuild_projection_def split: if_splits)
    ultimately show ?thesis by (metis last_in_set list.distinct(1))
  next
    case (swapped db0 db)
    let ?p = "p\<lparr>scratch := Some db\<rparr>"
    let ?w = "swap sch f ?p"
    note proj = folded_Inr [OF st swapped(2)]
    have states: "current t = current p \<or> current t = Some db \<or> current t = None \<and> scratch t = Some db"
      if "t \<in> set (fst ?w)" for t
      using swap_states [OF that] by auto
    have dropped: "current (last (fst ?w)) = current p \<or>
        current (last (fst ?w)) = None \<and> rename_fault f \<noteq> None" if "snd ?w = Inl e" for e
      using that by (auto simp: swap_def Let_def split: option.splits)
    consider "current s = current p" | "s \<in> set (fst ?w)"
      | e where "snd ?w = Inl e" "s = (last (fst ?w))\<lparr>scratch := None\<rparr>"
      | "s = last (fst ?w)"
      using s v swapped(3) swap_nonempty [of sch f ?p]
      by (auto simp: rebuild_projection_def split: sum.splits if_splits)
    then show ?thesis
    proof cases
      case 2
      then show ?thesis using states swapped(1) proj by blast
    next
      case (3 e)
      then show ?thesis using dropped [OF 3(1)] swapped(1) proj by auto
    next
      case 4
      then show ?thesis
        using states [of s] last_in_set [OF swap_nonempty, of sch f ?p] swapped(1) proj by blast
    qed simp
  qed
qed

theorem rebuild_never_partial_witness:
  "current (last (fst (rebuild_projection demo_host ''s'' demo_layout ''event_hash''
     (demo_faults\<lparr>rename_fault := Some ''busy''\<rparr>) (0 :: nat) (\<lambda>n. Inr n) (\<lambda>n ev i. Inr (Suc n)) []
     \<lparr>current = Some 7, scratch = None\<rparr>))) \<in> {Some 7, Some 0, None}"
proof -
  let ?r = "rebuild_projection demo_host ''s'' demo_layout ''event_hash''
     (demo_faults\<lparr>rename_fault := Some ''busy''\<rparr>) (0 :: nat) (\<lambda>n. Inr n) (\<lambda>n ev i. Inr (Suc n)) []
     \<lparr>current = Some 7, scratch = None\<rparr>"
  have "fst ?r \<noteq> []"
    by (simp add: rebuild_projection_def split: sum.split prod.split)
       (auto simp: rebuild_body_def Let_def split: sum.splits prod.splits)
  from rebuild_never_partial [OF demo_empty last_in_set [OF this]] show ?thesis by auto
qed

end
