(* ===== verification/Query_Terms.thy ===== *)
theory Query_Terms
  imports Refusals
begin

text \<open>
  The query language of \<^verbatim>\<open>query/parts/01.rs\<close> to \<^verbatim>\<open>03.rs\<close>: its data types and the parser from JSON,
  with every refusal in the order of the code. The counter that the code threads by mutable reference
  through the clauses is threaded explicitly. Sizes (\<^verbatim>\<open>usize\<close>) are natural numbers; the counter
  and the depth saturate as the code does.
\<close>

section \<open>Data\<close>

record datom =
  d_origin_id :: string
  d_subject :: string
  d_attribute :: string
  d_value :: json
  d_event_sequence :: u64
  d_event_id :: string

record query_limits =
  max_clauses :: nat
  max_results :: nat
  max_reach_depth :: nat
  max_one_of_values :: nat
  max_predicate_depth :: nat
  max_datoms_scanned :: nat
  max_traversal_edges :: nat

datatype query_term =
    Variable string
  | Value json
  | OneOf "json list"

datatype clause =
    Triple query_term query_term query_term
  | Compare string query_term query_term
  | Reachable query_term string query_term nat
  | Exists "clause list"
  | NotExists "clause list"

record pull_spec =
  pull_variable :: string
  pull_fields :: "string list"
  pull_target_kind :: "string option"

record order_term =
  order_key :: query_term
  descending :: bool

record query_spec =
  q_inputs :: jmap
  q_finds :: "query_term list"
  q_pulls :: "pull_spec list"
  q_clauses :: "clause list"
  q_order_by :: "order_term list"
  q_limit :: nat
  q_cursor_values :: jmap
  q_limits :: query_limits

record query_failure =
  fail_code :: string
  fail_message :: string
  fail_details :: json

definition qfail :: "string \<Rightarrow> string \<Rightarrow> json \<Rightarrow> query_failure" where
  "qfail c m d = \<lparr>fail_code = c, fail_message = m, fail_details = d\<rparr>"

definition as_variable_name :: "query_term \<Rightarrow> string option" where
  "as_variable_name t = (case t of Variable name \<Rightarrow> Some name | _ \<Rightarrow> None)"

definition count_details :: "nat \<Rightarrow> nat \<Rightarrow> json" where
  "count_details n m = JObj [(''count'', jnat n), (''max'', jnat m)]"

section \<open>Terms\<close>

definition variable_name :: "string \<Rightarrow> query_failure + string" where
  "variable_name v =
     (let trimmed = trim v in
      if trimmed = [] then
        Inl (qfail ''query_invalid_variable'' ''query variable must not be empty'' JNull)
      else if starts_with ''?'' trimmed then Inr trimmed
      else Inr (''?'' @ trimmed))"

definition reject_unknown_keys :: "jmap \<Rightarrow> string list \<Rightarrow> string \<Rightarrow> query_failure + unit" where
  "reject_unknown_keys obj allowed ctx =
     (case find (\<lambda>key. key \<notin> set allowed) (obj_keys obj) of
        Some key \<Rightarrow>
          Inl (qfail ''query_invalid_field'' (ctx @ '' field is not supported: '' @ key)
            (JObj [(''context'', JStr ctx), (''field'', JStr key)]))
      | None \<Rightarrow> Inr ())"

definition one_of_term :: "query_limits \<Rightarrow> json \<Rightarrow> json list \<Rightarrow> query_failure + query_term" where
  "one_of_term l v values =
     (if values = [] then
        Inl (qfail ''query_invalid_term'' ''one_of must contain at least one value'' v)
      else if max_one_of_values l < length values then
        Inl (qfail ''query_term_limit''
          (''one_of must contain at most '' @ show_nat (max_one_of_values l) @ '' values'')
          (count_details (length values) (max_one_of_values l)))
      else Inr (OneOf values))"

definition term_forms :: "string list" where
  "term_forms = [''var'', ''input'', ''value'', ''one_of'']"

definition object_term :: "query_limits \<Rightarrow> json \<Rightarrow> jmap \<Rightarrow> query_failure + query_term" where
  "object_term l v obj =
     bindR (reject_unknown_keys obj term_forms ''term'') (\<lambda>_.
     if 1 < length (filter (obj_has obj) term_forms) then
       Inl (qfail ''query_ambiguous_term''
         ''term must contain exactly one variable, input, value, or one_of form'' v)
     else
       (case Option.bind (obj_get obj ''var'') as_str of
          Some name \<Rightarrow> bindR (variable_name name) (\<lambda>n. Inr (Variable n))
        | None \<Rightarrow>
       (case Option.bind (obj_get obj ''input'') as_str of
          Some name \<Rightarrow> bindR (variable_name name) (\<lambda>n. Inr (Variable n))
        | None \<Rightarrow>
       (case obj_get obj ''value'' of
          Some w \<Rightarrow> Inr (Value w)
        | None \<Rightarrow>
       (case Option.bind (obj_get obj ''one_of'') as_array of
          Some values \<Rightarrow> one_of_term l v values
        | None \<Rightarrow>
            Inl (qfail ''query_invalid_term''
              ''term must be a literal, variable, input, or one_of object'' v))))))"

definition parse_term :: "query_limits \<Rightarrow> json \<Rightarrow> query_failure + query_term" where
  "parse_term l v =
     (case as_str v of
        Some text \<Rightarrow>
          if starts_with ''?'' text then bindR (variable_name text) (\<lambda>n. Inr (Variable n))
          else Inr (Value (JStr text))
      | None \<Rightarrow>
          (case as_object v of
             None \<Rightarrow> Inr (Value v)
           | Some obj \<Rightarrow> object_term l v obj))"

section \<open>Clauses\<close>

definition invalid_clause :: "string \<Rightarrow> json \<Rightarrow> query_failure" where
  "invalid_clause m d = qfail ''query_invalid_clause'' m d"

definition parse_triple :: "query_limits \<Rightarrow> json \<Rightarrow> query_failure + clause" where
  "parse_triple l v =
     bindR (ok_or (as_object v) (invalid_clause ''triple clause must be an object'' v)) (\<lambda>triple.
     bindR (reject_unknown_keys triple [''subject'', ''attribute'', ''object'', ''value''] ''triple'') (\<lambda>_.
     bindR (refuse_if (obj_has triple ''object'' = obj_has triple ''value'')
       (invalid_clause ''triple must contain exactly one object or value field'' (JObj triple))) (\<lambda>_.
     bindR (ok_or (obj_get triple ''subject'')
       (invalid_clause ''triple subject is required'' (JObj triple))) (\<lambda>subj.
     bindR (ok_or (obj_get triple ''attribute'')
       (invalid_clause ''triple attribute is required'' (JObj triple))) (\<lambda>attr.
     bindR (ok_or (case obj_get triple ''object'' of Some x \<Rightarrow> Some x | None \<Rightarrow> obj_get triple ''value'')
       (invalid_clause ''triple object is required'' (JObj triple))) (\<lambda>obj.
     bindR (parse_term l subj) (\<lambda>s.
     bindR (parse_term l attr) (\<lambda>a.
     bindR (parse_term l obj) (\<lambda>ob. Inr (Triple s a ob))))))))))"

definition compare_operators :: "string list" where
  "compare_operators = [''='', ''!='', ''>'', ''>='', ''<'', ''<='']"

definition parse_compare :: "query_limits \<Rightarrow> json \<Rightarrow> query_failure + clause" where
  "parse_compare l v =
     bindR (ok_or (as_object v) (invalid_clause ''compare clause must be an object'' v)) (\<lambda>cmp.
     bindR (reject_unknown_keys cmp [''op'', ''left'', ''right''] ''compare'') (\<lambda>_.
     bindR (ok_or (Option.bind (obj_get cmp ''op'') as_str)
       (invalid_clause ''compare op is required'' (JObj cmp))) (\<lambda>op.
     bindR (refuse_if (op \<notin> set compare_operators)
       (qfail ''query_unsupported_operator'' (''unsupported comparison operator: '' @ op)
         (JObj [(''op'', JStr op)]))) (\<lambda>_.
     bindR (ok_or (obj_get cmp ''left'')
       (invalid_clause ''compare left is required'' (JObj cmp))) (\<lambda>left.
     bindR (ok_or (obj_get cmp ''right'')
       (invalid_clause ''compare right is required'' (JObj cmp))) (\<lambda>right.
     bindR (parse_term l left) (\<lambda>x.
     bindR (parse_term l right) (\<lambda>y. Inr (Compare op x y)))))))))"

definition requested_depth :: "jmap \<Rightarrow> query_failure + nat" where
  "requested_depth reach =
     (case obj_get reach ''max_depth'' of
        None \<Rightarrow> Inr 1
      | Some v \<Rightarrow>
          bindR (ok_or (as_u64 v)
            (invalid_clause ''reachable max_depth must be a positive integer'' v))
            (\<lambda>w. Inr (unat w)))"

definition parse_reachable :: "query_limits \<Rightarrow> json \<Rightarrow> query_failure + clause" where
  "parse_reachable l v =
     bindR (ok_or (as_object v) (invalid_clause ''reachable clause must be an object'' v)) (\<lambda>reach.
     bindR (reject_unknown_keys reach [''from'', ''to'', ''attribute'', ''max_depth''] ''reachable'') (\<lambda>_.
     bindR (ok_or (obj_get reach ''from'')
       (invalid_clause ''reachable from is required'' (JObj reach))) (\<lambda>from_value.
     bindR (ok_or (obj_get reach ''to'')
       (invalid_clause ''reachable to is required'' (JObj reach))) (\<lambda>to_value.
     bindR (ok_or (Option.bind (obj_get reach ''attribute'') as_str)
       (invalid_clause ''reachable attribute is required'' (JObj reach))) (\<lambda>attr.
     bindR (requested_depth reach) (\<lambda>requested.
     let depth = min requested (max_reach_depth l) in
     bindR (refuse_if (depth = 0)
       (invalid_clause ''reachable max_depth must be positive'' (JObj reach))) (\<lambda>_.
     bindR (parse_term l from_value) (\<lambda>x.
     bindR (parse_term l to_value) (\<lambda>y. Inr (Reachable x attr y depth))))))))))"

definition nested_keys :: "string list" where
  "nested_keys = [''where'', ''triple'', ''compare'', ''reachable'', ''exists'', ''not_exists'']"

text \<open>The clauses of a nested predicate: the array of its \<^verbatim>\<open>where\<close> field, or itself as one clause.\<close>

definition nested_values :: "query_limits \<Rightarrow> nat \<Rightarrow> string \<Rightarrow> json \<Rightarrow> query_failure + json list" where
  "nested_values l next_depth key nested =
     bindR (refuse_if (max_predicate_depth l < next_depth)
       (qfail ''query_predicate_depth_limit''
         (''nested predicates may not exceed '' @ show_nat (max_predicate_depth l) @ '' levels'')
         (JObj [(''depth'', jnat next_depth), (''max'', jnat (max_predicate_depth l))]))) (\<lambda>_.
     bindR (ok_or (as_object nested)
       (invalid_clause (key @ '' clause must be an object'') nested)) (\<lambda>obj.
     bindR (reject_unknown_keys obj nested_keys key) (\<lambda>_.
     bindR
       (case obj_get obj ''where'' of
          Some w \<Rightarrow>
            bindR (refuse_if (length obj \<noteq> 1)
              (qfail ''query_ambiguous_clause''
                (key @ '' must contain either where or one nested clause, not both'') nested)) (\<lambda>_.
            ok_or (as_array w) (invalid_clause (key @ ''.where must be an array'') w))
        | None \<Rightarrow>
            bindR (refuse_if (length obj \<noteq> 1)
              (qfail ''query_ambiguous_clause'' (key @ '' must contain exactly one nested clause'')
                nested)) (\<lambda>_. Inr [JObj obj])) (\<lambda>vs.
     bindR (refuse_if (vs = [] \<or> max_clauses l < length vs)
       (qfail ''query_clause_limit''
         (key @ ''.where must contain between 1 and '' @ show_nat (max_clauses l) @ '' clauses'')
         (count_details (length vs) (max_clauses l)))) (\<lambda>_. Inr vs)))))"

definition clause_object :: "json \<Rightarrow> query_failure + jmap" where
  "clause_object v =
     bindR (ok_or (as_object v) (invalid_clause ''each where clause must be an object'' v)) (\<lambda>obj.
     bindR (reject_unknown_keys obj
       [''triple'', ''compare'', ''reachable'', ''exists'', ''not_exists''] ''clause'') (\<lambda>_.
     bindR (refuse_if (length obj \<noteq> 1)
       (qfail ''query_ambiguous_clause'' ''each where clause must contain exactly one clause form'' v))
       (\<lambda>_. Inr obj)))"

text \<open>The first of the two nested forms that the clause has.\<close>

definition nested_form :: "jmap \<Rightarrow> (string \<times> json) option" where
  "nested_form obj =
     (case obj_get obj ''exists'' of
        Some nested \<Rightarrow> Some (''exists'', nested)
      | None \<Rightarrow> map_option (Pair ''not_exists'') (obj_get obj ''not_exists''))"

lemma nested_values_size:
  assumes "nested_values l n key nested = Inr vs" "v \<in> set vs"
  shows "size v \<le> size nested"
proof -
  from assms(1) obtain obj where obj: "nested = JObj obj"
    "(\<exists>w. obj_get obj ''where'' = Some w \<and> w = JArr vs) \<or> vs = [JObj obj]"
    unfolding nested_values_def bindR_Inr_iff ok_or_Inr_iff
    by (elim exE conjE) (auto simp: bindR_Inr_iff split: option.splits)
  show ?thesis
  proof (cases "vs = [JObj obj]")
    case True
    with assms(2) obj(1) show ?thesis by simp
  next
    case False
    with obj(2) have "obj_get obj ''where'' = Some (JArr vs)" by blast
    then have "size (JArr vs) < size (JObj obj)" by (rule obj_value_size)
    with array_value_size [OF assms(2)] obj(1) show ?thesis by simp
  qed
qed

lemma clause_object_Inr: "clause_object v = Inr obj \<Longrightarrow> v = JObj obj"
  by (auto simp: clause_object_def bindR_Inr_iff)

lemma nested_form_get: "nested_form obj = Some (key, nested) \<Longrightarrow> obj_get obj key = Some nested"
  by (auto simp: nested_form_def split: option.splits)

function parse_clause_at ::
    "query_limits \<Rightarrow> nat \<Rightarrow> nat \<Rightarrow> json \<Rightarrow> query_failure + clause \<times> nat" where
  "parse_clause_at l depth clause_count v =
     (let n = sat_suc clause_count in
      bindR (refuse_if (max_clauses l < n)
        (qfail ''query_clause_limit''
          (''query clauses must contain at most '' @ show_nat (max_clauses l) @ '' clauses in total'')
          (count_details n (max_clauses l)))) (\<lambda>_.
      bindR (clause_object v) (\<lambda>obj.
      case obj_get obj ''triple'' of
        Some t \<Rightarrow> bindR (parse_triple l t) (\<lambda>c. Inr (c, n))
      | None \<Rightarrow>
      case obj_get obj ''compare'' of
        Some t \<Rightarrow> bindR (parse_compare l t) (\<lambda>c. Inr (c, n))
      | None \<Rightarrow>
      case obj_get obj ''reachable'' of
        Some t \<Rightarrow> bindR (parse_reachable l t) (\<lambda>c. Inr (c, n))
      | None \<Rightarrow>
      case nested_form obj of
        Some (key, nested) \<Rightarrow>
          bindR (nested_values l (sat_suc depth) key nested) (\<lambda>vs.
          bindR (mapRS (parse_clause_at l (sat_suc depth)) n vs) (\<lambda>(cs, m).
          Inr (if key = ''exists'' then Exists cs else NotExists cs, m)))
      | None \<Rightarrow>
          Inl (qfail ''query_unsupported_clause''
            ''supported clauses are triple, compare, reachable, exists, and not_exists'' v))))"
  by pat_completeness auto
termination
proof (relation "measure (\<lambda>(l, d, n, v). size v)", goal_cases)
  case 1
  then show ?case by simp
next
  case (2 l depth cnt v n u obj p key nested vs m w)
  then have "v = JObj obj" and "obj_get obj key = Some nested"
    by (auto dest: clause_object_Inr nested_form_get)
  then have "size nested < size v" using obj_value_size by blast
  moreover have "size w \<le> size nested"
    using 2 by (intro nested_values_size) auto
  ultimately show ?case by simp
qed

declare parse_clause_at.simps [simp del]

end
