(* ===== verification/Query_Parse.thy ===== *)
theory Query_Parse
  imports Query_Terms
begin

text \<open>
  \<^verbatim>\<open>parse\<close> of \<^verbatim>\<open>query/parts/03.rs\<close>: a query from JSON, one definition per part of the function and
  the parts in its order. The properties at the end bound what an accepted query can ask for.
\<close>

section \<open>Inputs and finds\<close>

definition query_fields :: "string list" where
  "query_fields = [''find'', ''inputs'', ''where'', ''order_by'', ''limit'', ''cursor'']"

fun check_input_names :: "string list \<Rightarrow> string list \<Rightarrow> query_failure + unit" where
  "check_input_names seen [] = Inr ()"
| "check_input_names seen (key # keys) =
     (case variable_name key of
        Inl failure \<Rightarrow>
          Inl (qfail ''query_invalid_input'' ''input names must be non-empty query variables''
            (JObj [(''input'', JStr key), (''cause'', JStr (fail_code failure))]))
      | Inr normalized \<Rightarrow>
          if normalized \<in> set seen then
            Inl (qfail ''query_duplicate_input''
              ''input names must not normalize to the same query variable''
              (JObj [(''input'', JStr key), (''variable'', JStr normalized)]))
          else check_input_names (normalized # seen) keys)"

definition parse_inputs :: "query_limits \<Rightarrow> jmap \<Rightarrow> query_failure + jmap" where
  "parse_inputs l obj =
     bindR (case obj_get obj ''inputs'' of
              None \<Rightarrow> Inr []
            | Some (JObj inputs) \<Rightarrow> Inr inputs
            | Some v \<Rightarrow> Inl (qfail ''query_invalid_inputs'' ''inputs must be an object'' v)) (\<lambda>inputs.
     bindR (refuse_if (max_clauses l < length inputs)
       (qfail ''query_input_limit''
         (''inputs must contain at most '' @ show_nat (max_clauses l) @ '' variables'')
         (count_details (length inputs) (max_clauses l)))) (\<lambda>_.
     bindR (check_input_names [] (obj_keys inputs)) (\<lambda>_. Inr inputs)))"

definition pull_target_kinds :: "string list" where
  "pull_target_kinds = [''entity'', ''relation'', ''record'']"

definition invalid_pull :: "string \<Rightarrow> json \<Rightarrow> query_failure" where
  "invalid_pull m d = qfail ''query_invalid_pull'' m d"

definition parse_target_kind :: "jmap \<Rightarrow> query_failure + string option" where
  "parse_target_kind pull =
     (case obj_get pull ''target_kind'' of
        None \<Rightarrow> Inr None
      | Some v \<Rightarrow>
          bindR (ok_or (as_str v)
            (invalid_pull ''pull target_kind must be entity, relation, or record'' v)) (\<lambda>kind.
          if kind \<in> set pull_target_kinds then Inr (Some kind)
          else Inl (invalid_pull ''pull target_kind must be entity, relation, or record'' v)))"

definition parse_pull_fields :: "query_limits \<Rightarrow> jmap \<Rightarrow> query_failure + string list" where
  "parse_pull_fields l pull =
     bindR (ok_or (Option.bind (obj_get pull ''fields'') as_array)
       (invalid_pull ''pull fields must be an array'' (JObj pull))) (\<lambda>values.
     bindR (mapR (\<lambda>field. ok_or (as_str field) (invalid_pull ''pull field must be a string'' field)) values)
       (\<lambda>fields.
     bindR (refuse_if (fields = [] \<or> max_clauses l < length fields)
       (qfail ''query_pull_field_limit''
         (''pull fields must contain between 1 and '' @ show_nat (max_clauses l) @ '' fields'')
         (count_details (length fields) (max_clauses l)))) (\<lambda>_. Inr fields)))"

definition parse_pull :: "query_limits \<Rightarrow> json \<Rightarrow> query_failure + pull_spec" where
  "parse_pull l v =
     bindR (ok_or (as_object v) (invalid_pull ''pull must be an object'' v)) (\<lambda>pull.
     bindR (reject_unknown_keys pull [''var'', ''variable'', ''target_kind'', ''fields''] ''pull'') (\<lambda>_.
     bindR (ok_or
       (Option.bind (case obj_get pull ''var'' of Some x \<Rightarrow> Some x | None \<Rightarrow> obj_get pull ''variable'') as_str)
       (invalid_pull ''pull variable is required'' (JObj pull))) (\<lambda>name.
     bindR (parse_target_kind pull) (\<lambda>kind.
     bindR (parse_pull_fields l pull) (\<lambda>fields.
     bindR (variable_name name) (\<lambda>x.
     Inr \<lparr>pull_variable = x, pull_fields = fields, pull_target_kind = kind\<rparr>))))))"

definition parse_find_item :: "query_limits \<Rightarrow> json \<Rightarrow> query_failure + query_term \<times> pull_spec option" where
  "parse_find_item l item =
     (case jget item ''pull'' of
        Some pull \<Rightarrow>
          bindR (case as_object item of
                   Some obj \<Rightarrow> reject_unknown_keys obj [''pull''] ''find''
                 | None \<Rightarrow> Inr ()) (\<lambda>_.
          bindR (parse_pull l pull) (\<lambda>p. Inr (Variable (pull_variable p), Some p)))
      | None \<Rightarrow> bindR (parse_term l item) (\<lambda>t. Inr (t, None)))"

definition parse_finds :: "query_limits \<Rightarrow> jmap \<Rightarrow> query_failure + query_term list \<times> pull_spec list" where
  "parse_finds l obj =
     bindR (ok_or (Option.bind (obj_get obj ''find'') as_array)
       (qfail ''query_invalid_find'' ''find must be an array'' JNull)) (\<lambda>values.
     bindR (refuse_if (values = []) (qfail ''query_invalid_find'' ''find must not be empty'' JNull)) (\<lambda>_.
     bindR (refuse_if (max_clauses l < length values)
       (qfail ''query_find_limit''
         (''find must contain at most '' @ show_nat (max_clauses l) @ '' terms'')
         (count_details (length values) (max_clauses l)))) (\<lambda>_.
     bindR (mapR (parse_find_item l) values) (\<lambda>items.
     bindR (refuse_if (\<exists>t \<in> set (map fst items). as_variable_name t = None)
       (qfail ''query_find_requires_variable'' ''find terms must be variables or pull expressions'' JNull))
       (\<lambda>_. Inr (map fst items, List.map_filter snd items))))))"

section \<open>Clauses, order, limit and cursor\<close>

definition parse_where :: "query_limits \<Rightarrow> jmap \<Rightarrow> query_failure + clause list" where
  "parse_where l obj =
     bindR (ok_or (Option.bind (obj_get obj ''where'') as_array)
       (qfail ''query_invalid_where'' ''where must be an array'' JNull)) (\<lambda>values.
     bindR (mapRS (parse_clause_at l 0) 0 values) (\<lambda>(clauses, _).
     bindR (refuse_if (clauses = [] \<or> max_clauses l < length clauses)
       (qfail ''query_clause_limit''
         (''where must contain between 1 and '' @ show_nat (max_clauses l) @ '' clauses'')
         (count_details (length clauses) (max_clauses l)))) (\<lambda>_. Inr clauses)))"

definition invalid_order :: "string \<Rightarrow> json \<Rightarrow> query_failure" where
  "invalid_order m d = qfail ''query_invalid_order'' m d"

definition parse_order_item :: "query_limits \<Rightarrow> json \<Rightarrow> query_failure + order_term" where
  "parse_order_item l v =
     bindR (ok_or (as_object v) (invalid_order ''order_by item must be an object'' v)) (\<lambda>item.
     bindR (reject_unknown_keys item [''term'', ''direction''] ''order_by'') (\<lambda>_.
     bindR (ok_or (obj_get item ''term'')
       (invalid_order ''order_by term is required'' (JObj item))) (\<lambda>t.
     bindR (case obj_get item ''direction'' of
              None \<Rightarrow> Inr ''asc''
            | Some (JStr direction) \<Rightarrow> Inr direction
            | Some w \<Rightarrow> Inl (invalid_order ''order direction must be asc or desc'' w)) (\<lambda>direction.
     bindR (refuse_if (direction \<notin> {''asc'', ''desc''})
       (invalid_order ''order direction must be asc or desc'' (JObj item))) (\<lambda>_.
     bindR (parse_term l t) (\<lambda>k.
     Inr \<lparr>order_key = k, descending = (direction = ''desc'')\<rparr>))))))"

definition parse_order :: "query_limits \<Rightarrow> jmap \<Rightarrow> query_failure + order_term list" where
  "parse_order l obj =
     bindR (case obj_get obj ''order_by'' of
              None \<Rightarrow> Inr []
            | Some (JArr values) \<Rightarrow> Inr values
            | Some v \<Rightarrow> Inl (invalid_order ''order_by must be an array'' v)) (\<lambda>values.
     bindR (refuse_if (max_clauses l < length values)
       (qfail ''query_order_limit''
         (''order_by must contain at most '' @ show_nat (max_clauses l) @ '' terms'')
         (count_details (length values) (max_clauses l)))) (\<lambda>_.
     mapR (parse_order_item l) values))"

definition parse_limit :: "nat \<Rightarrow> query_limits \<Rightarrow> jmap \<Rightarrow> query_failure + nat" where
  "parse_limit default_limit l obj =
     bindR (case obj_get obj ''limit'' of
              None \<Rightarrow> Inr default_limit
            | Some v \<Rightarrow>
                bindR (ok_or (as_u64 v) (qfail ''query_invalid_limit'' ''limit must be a positive integer'' v))
                  (\<lambda>w. Inr (unat w))) (\<lambda>n.
     bindR (refuse_if (n = 0 \<or> max_results l < n)
       (qfail ''query_limit_exceeded''
         (''query limit must be between 1 and '' @ show_nat (max_results l))
         (JObj [(''limit'', jnat n), (''max'', jnat (max_results l))]))) (\<lambda>_. Inr n))"

definition invalid_cursor :: "string \<Rightarrow> json \<Rightarrow> query_failure" where
  "invalid_cursor m d = qfail ''query_cursor_invalid'' m d"

definition parse_cursor_values :: "jmap \<Rightarrow> query_failure + jmap" where
  "parse_cursor_values obj =
     (case obj_get obj ''cursor'' of
        None \<Rightarrow> Inr []
      | Some JNull \<Rightarrow> Inr []
      | Some (JObj cursor) \<Rightarrow>
          (case obj_get cursor ''values'' of
             None \<Rightarrow> Inr []
           | Some (JObj values) \<Rightarrow> Inr values
           | Some v \<Rightarrow> Inl (invalid_cursor ''cursor values must be an object'' v))
      | Some v \<Rightarrow>
          Inl (invalid_cursor ''cursor must be an object or null after transport decoding'' v))"

definition check_cursor_keys :: "jmap \<Rightarrow> query_failure + unit" where
  "check_cursor_keys obj =
     (case obj_get obj ''cursor'' of
        None \<Rightarrow> Inr ()
      | Some cursor \<Rightarrow>
          (case as_object cursor of
             Some c \<Rightarrow> reject_unknown_keys c [''schema'', ''head'', ''query'', ''values''] ''cursor''
           | None \<Rightarrow>
               refuse_if (\<not> is_null cursor)
                 (invalid_cursor ''cursor must be an object or null after transport decoding'' cursor)))"

definition check_order :: "order_term list \<Rightarrow> jmap \<Rightarrow> query_failure + unit" where
  "check_order order_by cursor_values =
     bindR (refuse_if (\<exists>order \<in> set order_by. as_variable_name (order_key order) = None)
       (qfail ''query_order_requires_variable''
         ''order_by terms must be variables so cursors can advance'' JNull)) (\<lambda>_.
     bindR (refuse_if (cursor_values \<noteq> [] \<and> order_by = [])
       (qfail ''query_cursor_requires_order''
         ''cursor pagination requires at least one order_by term'' JNull)) (\<lambda>_.
     if cursor_values = [] then Inr ()
     else
       (case find (\<lambda>x. \<not> obj_has cursor_values x)
               (List.map_filter (\<lambda>order. as_variable_name (order_key order)) order_by) of
          Some x \<Rightarrow>
            Inl (qfail ''query_cursor_incomplete''
              ''cursor must contain a value for every order_by variable'' (JObj [(''variable'', JStr x)]))
        | None \<Rightarrow> Inr ())))"

definition parse :: "json \<Rightarrow> nat \<Rightarrow> query_limits \<Rightarrow> query_failure + query_spec" where
  "parse v default_limit l =
     bindR (ok_or (as_object v) (qfail ''query_invalid'' ''query must be an object'' v)) (\<lambda>obj.
     bindR (case find (\<lambda>key. key \<notin> set query_fields) (obj_keys obj) of
              Some key \<Rightarrow>
                Inl (qfail ''query_invalid_field'' (''query field is not supported: '' @ key)
                  (JObj [(''field'', JStr key)]))
            | None \<Rightarrow> Inr ()) (\<lambda>_.
     bindR (parse_inputs l obj) (\<lambda>inputs.
     bindR (parse_finds l obj) (\<lambda>(finds, pulls).
     bindR (parse_where l obj) (\<lambda>clauses.
     bindR (parse_order l obj) (\<lambda>order_by.
     bindR (parse_limit default_limit l obj) (\<lambda>limit.
     bindR (parse_cursor_values obj) (\<lambda>cursor_values.
     bindR (check_cursor_keys obj) (\<lambda>_.
     bindR (check_order order_by cursor_values) (\<lambda>_.
     Inr \<lparr>q_inputs = inputs, q_finds = finds, q_pulls = pulls, q_clauses = clauses,
          q_order_by = order_by, q_limit = limit, q_cursor_values = cursor_values, q_limits = l\<rparr>))))))))))"

section \<open>Bounds of an accepted query\<close>

fun clause_total :: "clause \<Rightarrow> nat" where
  "clause_total (Exists cs) = Suc (sum_list (map clause_total cs))"
| "clause_total (NotExists cs) = Suc (sum_list (map clause_total cs))"
| "clause_total _ = 1"

fun clause_depth :: "clause \<Rightarrow> nat" where
  "clause_depth (Exists cs) = Suc (foldr max (map clause_depth cs) 0)"
| "clause_depth (NotExists cs) = Suc (foldr max (map clause_depth cs) 0)"
| "clause_depth _ = 0"

definition term_ok :: "query_limits \<Rightarrow> query_term \<Rightarrow> bool" where
  "term_ok l t =
     (case t of OneOf vs \<Rightarrow> vs \<noteq> [] \<and> length vs \<le> max_one_of_values l | _ \<Rightarrow> True)"

fun clause_ok :: "query_limits \<Rightarrow> clause \<Rightarrow> bool" where
  "clause_ok l (Triple s a ob) \<longleftrightarrow> term_ok l s \<and> term_ok l a \<and> term_ok l ob"
| "clause_ok l (Compare op x y) \<longleftrightarrow> op \<in> set compare_operators \<and> term_ok l x \<and> term_ok l y"
| "clause_ok l (Reachable x a y n) \<longleftrightarrow> term_ok l x \<and> term_ok l y \<and> 1 \<le> n \<and> n \<le> max_reach_depth l"
| "clause_ok l (Exists cs) \<longleftrightarrow> cs \<noteq> [] \<and> (\<forall>c \<in> set cs. clause_ok l c)"
| "clause_ok l (NotExists cs) \<longleftrightarrow> cs \<noteq> [] \<and> (\<forall>c \<in> set cs. clause_ok l c)"

lemma foldr_max_le: "foldr max (map f xs) 0 \<le> (n :: nat) \<longleftrightarrow> (\<forall>x \<in> set xs. f x \<le> n)"
  by (induction xs) auto

lemma parse_term_ok: "parse_term l v = Inr t \<Longrightarrow> term_ok l t"
  by (auto simp: parse_term_def object_term_def one_of_term_def term_ok_def bindR_Inr_iff
      split: option.splits if_splits query_term.splits)

lemma parse_triple_ok: "parse_triple l v = Inr c \<Longrightarrow> clause_ok l c \<and> clause_total c = 1 \<and> clause_depth c = 0"
  unfolding parse_triple_def bindR_Inr_iff by (elim exE conjE) (auto intro: parse_term_ok)

lemma parse_compare_ok: "parse_compare l v = Inr c \<Longrightarrow> clause_ok l c \<and> clause_total c = 1 \<and> clause_depth c = 0"
  unfolding parse_compare_def bindR_Inr_iff by (elim exE conjE) (auto intro: parse_term_ok)

lemma parse_reachable_ok: "parse_reachable l v = Inr c \<Longrightarrow> clause_ok l c \<and> clause_total c = 1 \<and> clause_depth c = 0"
  unfolding parse_reachable_def bindR_Inr_iff Let_def by (elim exE conjE) (auto intro: parse_term_ok)

lemma nested_values_depth: "nested_values l n key nested = Inr vs \<Longrightarrow> n \<le> max_predicate_depth l \<and> vs \<noteq> []"
  unfolding nested_values_def bindR_Inr_iff by (elim exE conjE) simp

lemma mapRS_counts:
  fixes s t :: nat
  assumes "mapRS f s xs = Inr (ys, t)"
    and "\<And>r x y r'. x \<in> set xs \<Longrightarrow> f r x = Inr (y, r') \<Longrightarrow> r' = r + g y \<and> P y"
  shows "t = s + sum_list (map g ys) \<and> (\<forall>y \<in> set ys. P y)"
  using assms
proof (induction xs arbitrary: s ys)
  case Nil
  then show ?case by simp
next
  case (Cons x xs)
  then obtain y r zs where y: "f s x = Inr (y, r)" "mapRS f r xs = Inr (zs, t)" "ys = y # zs"
    by (auto simp: bindR_Inr_iff)
  have "r = s + g y \<and> P y" using y(1) by (intro Cons.prems(2)) simp_all
  moreover have "t = r + sum_list (map g zs) \<and> (\<forall>y \<in> set zs. P y)"
    by (rule Cons.IH [OF y(2)]) (rule Cons.prems(2), rule list.set_intros(2), assumption+)
  ultimately show ?case by (simp add: y(3))
qed

lemma mapRS_inv:
  assumes "mapRS f s xs = Inr (ys, t)" "I s"
    and "\<And>r x y r'. x \<in> set xs \<Longrightarrow> f r x = Inr (y, r') \<Longrightarrow> I r'"
  shows "I t"
  using assms
proof (induction xs arbitrary: s ys)
  case Nil
  then show ?case by simp
next
  case (Cons x xs)
  then obtain y r zs where y: "f s x = Inr (y, r)" "mapRS f r xs = Inr (zs, t)"
    by (auto simp: bindR_Inr_iff)
  have "I r" by (rule Cons.prems(3) [OF _ y(1)]) simp
  then show ?case
    by (rule Cons.IH [OF y(2)]) (rule Cons.prems(3), rule list.set_intros(2), assumption+)
qed

text \<open>The parser counts clauses exactly, and what it accepts is within the limits.\<close>

lemma parse_clause_at_bounds:
  assumes "parse_clause_at l depth n v = Inr (c, m)"
    and "max_clauses l < usize_max" "max_predicate_depth l < usize_max"
  shows "m = n + clause_total c \<and> m \<le> max_clauses l \<and> clause_ok l c \<and>
    (clause_depth c = 0 \<or> depth + clause_depth c \<le> max_predicate_depth l)"
  using assms
proof (induction l depth n v arbitrary: c m rule: parse_clause_at.induct)
  case (1 l depth n v)
  let ?n = "sat_suc n"
  from "1.prems"(1) have count: "\<not> max_clauses l < ?n"
    by (subst (asm) parse_clause_at.simps) (auto simp: Let_def bindR_Inr_iff)
  with "1.prems"(2) have n: "?n = Suc n" by (auto simp: sat_suc_def)
  from "1.prems"(1) obtain obj where obj: "clause_object v = Inr obj"
    by (subst (asm) parse_clause_at.simps) (auto simp: Let_def bindR_Inr_iff)
  consider (triple) t where "obj_get obj ''triple'' = Some t" "parse_triple l t = Inr c" "m = ?n"
    | (compare) t where "obj_get obj ''triple'' = None" "obj_get obj ''compare'' = Some t"
      "parse_compare l t = Inr c" "m = ?n"
    | (reachable) t where "obj_get obj ''triple'' = None" "obj_get obj ''compare'' = None"
      "obj_get obj ''reachable'' = Some t" "parse_reachable l t = Inr c" "m = ?n"
    | (nested) key t vs cs where "obj_get obj ''triple'' = None" "obj_get obj ''compare'' = None"
      "obj_get obj ''reachable'' = None" "nested_form obj = Some (key, t)"
      "nested_values l (sat_suc depth) key t = Inr vs"
      "mapRS (parse_clause_at l (sat_suc depth)) ?n vs = Inr (cs, m)"
      "c = (if key = ''exists'' then Exists cs else NotExists cs)"
    using "1.prems"(1) obj count
    by (subst (asm) parse_clause_at.simps)
       (auto simp: Let_def bindR_Inr_iff split: option.splits)
  then show ?case
  proof cases
    case triple
    with parse_triple_ok [OF triple(2)] n count show ?thesis by simp
  next
    case compare
    with parse_compare_ok [OF compare(3)] n count show ?thesis by simp
  next
    case reachable
    with parse_reachable_ok [OF reachable(4)] n count show ?thesis by simp
  next
    case nested
    have d: "sat_suc depth \<le> max_predicate_depth l" "vs \<noteq> []"
      using nested_values_depth [OF nested(5)] by auto
    with "1.prems"(3) have depth: "sat_suc depth = Suc depth" by (auto simp: sat_suc_def)
    have ih: "r' = r + clause_total y \<and> r' \<le> max_clauses l \<and> clause_ok l y \<and>
        (clause_depth y = 0 \<or> Suc depth + clause_depth y \<le> max_predicate_depth l)"
      if "x \<in> set vs" "parse_clause_at l (sat_suc depth) r x = Inr (y, r')" for r x y r'
      using "1.IH" [OF refl, of "()" obj "(key, t)" key t vs, OF _ obj] that nested count "1.prems"(2,3)
      unfolding depth by simp
    from mapRS_counts [OF nested(6), where g = clause_total and P = "\<lambda>y. clause_ok l y \<and>
        (clause_depth y = 0 \<or> Suc depth + clause_depth y \<le> max_predicate_depth l)"] ih
    have "m = ?n + sum_list (map clause_total cs)" and cs: "\<forall>y \<in> set cs. clause_ok l y \<and>
        (clause_depth y = 0 \<or> Suc depth + clause_depth y \<le> max_predicate_depth l)" by auto
    moreover have "m \<le> max_clauses l"
      using mapRS_inv [OF nested(6), where I = "\<lambda>r. r \<le> max_clauses l"] ih count by fastforce
    moreover have "cs \<noteq> []" using mapRS_Inr_length [OF nested(6)] d(2) by auto
    moreover have "foldr max (map clause_depth cs) 0 \<le> max_predicate_depth l - Suc depth"
      unfolding foldr_max_le using cs by fastforce
    ultimately show ?thesis using nested(7) n d(1) depth by auto
  qed
qed

definition query_ok :: "query_limits \<Rightarrow> query_spec \<Rightarrow> bool" where
  "query_ok l q \<longleftrightarrow>
     q_limits q = l \<and> 1 \<le> q_limit q \<and> q_limit q \<le> max_results l \<and>
     q_clauses q \<noteq> [] \<and> sum_list (map clause_total (q_clauses q)) \<le> max_clauses l \<and>
     (\<forall>c \<in> set (q_clauses q). clause_ok l c \<and> clause_depth c \<le> max_predicate_depth l) \<and>
     q_finds q \<noteq> [] \<and> length (q_finds q) \<le> max_clauses l \<and>
     (\<forall>t \<in> set (q_finds q). as_variable_name t \<noteq> None) \<and>
     length (q_order_by q) \<le> max_clauses l \<and>
     (\<forall>order \<in> set (q_order_by q). as_variable_name (order_key order) \<noteq> None) \<and>
     (q_cursor_values q \<noteq> [] \<longrightarrow> q_order_by q \<noteq> [] \<and>
        (\<forall>order \<in> set (q_order_by q). \<forall>x. order_key order = Variable x \<longrightarrow>
           obj_has (q_cursor_values q) x))"

lemma parse_where_ok:
  assumes "parse_where l obj = Inr cs" "max_clauses l < usize_max" "max_predicate_depth l < usize_max"
  shows "cs \<noteq> [] \<and> sum_list (map clause_total cs) \<le> max_clauses l \<and>
    (\<forall>c \<in> set cs. clause_ok l c \<and> clause_depth c \<le> max_predicate_depth l)"
proof -
  from assms(1) obtain vals m where m: "mapRS (parse_clause_at l 0) 0 vals = Inr (cs, m)"
    and "cs \<noteq> []"
    by (auto simp: parse_where_def bindR_Inr_iff)
  note bounds = parse_clause_at_bounds [OF _ assms(2,3)]
  have "m = 0 + sum_list (map clause_total cs) \<and>
      (\<forall>c \<in> set cs. clause_ok l c \<and> clause_depth c \<le> max_predicate_depth l)"
    by (rule mapRS_counts [OF m]) (drule bounds, auto)
  moreover have "m \<le> max_clauses l"
    by (rule mapRS_inv [OF m, where I = "\<lambda>m. m \<le> max_clauses l"]) (simp, drule bounds, auto)
  ultimately show ?thesis using \<open>cs \<noteq> []\<close> by simp
qed

lemma parse_finds_ok:
  assumes "parse_finds l obj = Inr (finds, pulls)"
  shows "finds \<noteq> [] \<and> length finds \<le> max_clauses l \<and> (\<forall>t \<in> set finds. as_variable_name t \<noteq> None)"
proof -
  from assms obtain vals items where "vals \<noteq> []" "\<not> max_clauses l < length vals"
    and items: "mapR (parse_find_item l) vals = Inr items"
    and "\<not> (\<exists>t \<in> set (map fst items). as_variable_name t = None)" "finds = map fst items"
    unfolding parse_finds_def bindR_Inr_iff by (elim exE conjE) simp
  moreover have "length items = length vals" using items by (rule mapR_Inr_length)
  ultimately show ?thesis by auto
qed

lemma parse_order_ok: "parse_order l obj = Inr os \<Longrightarrow> length os \<le> max_clauses l"
  by (auto simp: parse_order_def bindR_Inr_iff dest: mapR_Inr_length)

lemma check_order_ok:
  assumes "check_order os cur = Inr u"
  shows "(\<forall>order \<in> set os. as_variable_name (order_key order) \<noteq> None) \<and>
    (cur \<noteq> [] \<longrightarrow> os \<noteq> [] \<and>
        (\<forall>order \<in> set os. \<forall>x. order_key order = Variable x \<longrightarrow> obj_has cur x))"
  using assms
  by (auto simp: check_order_def bindR_Inr_iff find_None_iff as_variable_name_def List.map_filter_def
      split: if_splits option.splits query_term.splits)

definition demo_limits :: query_limits where
  "demo_limits = \<lparr>max_clauses = 8, max_results = 50, max_reach_depth = 4, max_one_of_values = 4,
     max_predicate_depth = 2, max_datoms_scanned = 100, max_traversal_edges = 100\<rparr>"

definition demo_query :: json where
  "demo_query = JObj [(''find'', JArr [JStr ''?x'']), (''where'', JArr [JObj [(''exists'', JObj
     [(''triple'', JObj [(''subject'', JStr ''?x''), (''attribute'', JStr ''a''), (''object'', JStr ''?y'')])])]])]"

text \<open>C33. Whatever JSON arrives, an accepted query is within the server's limits: the number of clauses
  counted through all nested predicates, the nesting depth, the reachability depths, the alternatives
  of every term and the page size; it asks for variables only, and a cursor names every order key.\<close>

theorem parse_within_limits:
  assumes "parse v default_limit l = Inr q"
    and "max_clauses l < usize_max" "max_predicate_depth l < usize_max"
  shows "query_ok l q"
proof -
  from assms(1) obtain obj inputs finds pulls cs os n cur where
    "parse_finds l obj = Inr (finds, pulls)" "parse_where l obj = Inr cs" "parse_order l obj = Inr os"
    and n: "parse_limit default_limit l obj = Inr n" and "check_order os cur = Inr ()"
    and q: "q = \<lparr>q_inputs = inputs, q_finds = finds, q_pulls = pulls, q_clauses = cs,
      q_order_by = os, q_limit = n, q_cursor_values = cur, q_limits = l\<rparr>"
    unfolding parse_def bindR_Inr_iff by (elim exE conjE) (auto simp: bindR_Inr_iff)
  note parts = parse_finds_ok [OF this(1)] parse_where_ok [OF this(2) assms(2,3)]
    parse_order_ok [OF this(3)] check_order_ok [OF this(5)]
  have "1 \<le> n \<and> n \<le> max_results l"
    using n by (auto simp: parse_limit_def bindR_Inr_iff split: option.splits)
  then show ?thesis using parts unfolding query_ok_def q by simp
qed

theorem parse_within_limits_witness:
  "\<exists>q. parse demo_query 10 demo_limits = Inr q \<and> query_ok demo_limits q \<and> length (q_clauses q) = 1"
proof -
  let ?q = "\<lparr>q_inputs = [], q_finds = [Variable ''?x''], q_pulls = [],
    q_clauses = [Exists [Triple (Variable ''?x'') (Value (JStr ''a'')) (Variable ''?y'')]],
    q_order_by = [], q_limit = 10, q_cursor_values = [], q_limits = demo_limits\<rparr>"
  have "sat_suc 0 = 1" "sat_suc 1 = 2" by (simp_all add: sat_suc_def usize_max_def)
  then have "parse demo_query 10 demo_limits = Inr ?q"
    by (simp add: parse_def demo_query_def query_fields_def parse_inputs_def parse_finds_def
        parse_find_item_def jget_def parse_term_def starts_with_def variable_name_def trim_def
        ws_ascii_def ws_two_def ws_three_def byte_def as_variable_name_def List.map_filter_def
        parse_where_def parse_clause_at.simps demo_limits_def clause_object_def
        reject_unknown_keys_def nested_form_def nested_values_def nested_keys_def parse_triple_def
        obj_has_def parse_order_def parse_limit_def parse_cursor_values_def check_cursor_keys_def
        check_order_def)
  moreover have "query_ok demo_limits ?q"
    by (rule parse_within_limits [OF calculation]) (simp_all add: demo_limits_def usize_max_def)
  ultimately show ?thesis by (intro exI [of _ ?q]) simp
qed

end
