(* ===== verification/Query_Eval.thy ===== *)
theory Query_Eval
  imports Query_Parse
begin

text \<open>
  The evaluator of \<^verbatim>\<open>query/parts/04.rs\<close> and \<^verbatim>\<open>05.rs\<close>: terms against bindings, the comparison of
  values, the datom index, the execution budget, the clauses and the planner. A binding is the
  insertion-ordered map of the code; a hash map from keys to vectors is an association list
  (\<open>push_entry\<close>), whose iteration order the code never uses. The compact serialization that keys the
  value index is \<^verbatim>\<open>serde_json\<close>'s and stays a parameter \<open>ser\<close>. The budget the code mutates is
  threaded through; a refusal ends the evaluation.
\<close>

section \<open>Terms and comparisons\<close>

definition resolve :: "query_term \<Rightarrow> jmap \<Rightarrow> json option" where
  "resolve t binding =
     (case t of Variable name \<Rightarrow> obj_get binding name | Value v \<Rightarrow> Some v | OneOf _ \<Rightarrow> None)"

definition unify :: "query_term \<Rightarrow> json \<Rightarrow> jmap \<Rightarrow> jmap option" where
  "unify t v binding =
     (case t of
        Variable name \<Rightarrow>
          (case obj_get binding name of
             Some existing \<Rightarrow> if json_eq existing v then Some binding else None
           | None \<Rightarrow> Some (obj_insert name v binding))
      | Value expected \<Rightarrow> if json_eq expected v then Some binding else None
      | OneOf vs \<Rightarrow> if \<exists>expected \<in> set vs. json_eq expected v then Some binding else None)"

datatype ordering = OLess | OEqual | OGreater

definition cmp_of :: "'a :: linorder \<Rightarrow> 'a \<Rightarrow> ordering" where
  "cmp_of x y = (if x < y then OLess else if x = y then OEqual else OGreater)"

definition compare_values :: "json \<Rightarrow> json \<Rightarrow> ordering option" where
  "compare_values left right =
     (case (left, right) of
        (JNum m, JNum n) \<Rightarrow> Some (cmp_of (as_f64 m) (as_f64 n))
      | (JStr s, JStr t) \<Rightarrow> Some (cmp_of s t)
      | (JBool a, JBool b) \<Rightarrow> Some (cmp_of a b)
      | _ \<Rightarrow> None)"

definition compare :: "string \<Rightarrow> json \<Rightarrow> json \<Rightarrow> bool" where
  "compare op left right =
     (case compare_values left right of
        None \<Rightarrow> op = ''='' \<and> json_eq left right
      | Some ord \<Rightarrow>
          if op = ''='' then ord = OEqual
          else if op = ''!='' then ord \<noteq> OEqual
          else if op = ''>'' then ord = OGreater
          else if op = ''>='' then ord \<noteq> OLess
          else if op = ''<'' then ord = OLess
          else if op = ''<='' then ord \<noteq> OGreater
          else False)"

section \<open>Budget\<close>

record budget =
  work_limit :: nat
  datoms_scanned :: nat
  traversal_edges :: nat

definition new_budget :: "nat \<Rightarrow> budget" where
  "new_budget limit = \<lparr>work_limit = limit, datoms_scanned = 0, traversal_edges = 0\<rparr>"

definition query_work_failure :: "nat \<Rightarrow> query_failure" where
  "query_work_failure limit =
     qfail ''query_work_limit'' ''query intermediate result exceeded the work limit''
       (JObj [(''work_limit'', jnat limit)])"

definition query_datom_scan_failure :: "nat \<Rightarrow> query_failure" where
  "query_datom_scan_failure limit =
     qfail ''query_datom_scan_limit'' ''query datom-scan budget was exceeded''
       (JObj [(''max_datoms_scanned'', jnat limit)])"

definition query_traversal_failure :: "nat \<Rightarrow> query_failure" where
  "query_traversal_failure limit =
     qfail ''query_traversal_limit'' ''query traversal-edge budget was exceeded''
       (JObj [(''max_traversal_edges'', jnat limit)])"

definition scan_datom :: "query_limits \<Rightarrow> budget \<Rightarrow> query_failure + budget" where
  "scan_datom l b =
     (let b' = b\<lparr>datoms_scanned := sat_suc (datoms_scanned b)\<rparr> in
      if max_datoms_scanned l < datoms_scanned b'
      then Inl (query_datom_scan_failure (max_datoms_scanned l)) else Inr b')"

definition traverse_edge :: "query_limits \<Rightarrow> budget \<Rightarrow> query_failure + budget" where
  "traverse_edge l b =
     (let b' = b\<lparr>traversal_edges := sat_suc (traversal_edges b)\<rparr> in
      if max_traversal_edges l < traversal_edges b'
      then Inl (query_traversal_failure (max_traversal_edges l)) else Inr b')"

section \<open>Index\<close>

definition entries :: "('k \<times> 'v list) list \<Rightarrow> 'k \<Rightarrow> 'v list" where
  "entries m k = (case map_of m k of None \<Rightarrow> [] | Some vs \<Rightarrow> vs)"

definition push_entry :: "'k \<Rightarrow> 'v \<Rightarrow> ('k \<times> 'v list) list \<Rightarrow> ('k \<times> 'v list) list" where
  "push_entry k v m = AList.update k (entries m k @ [v]) m"

record datom_index =
  all_datoms :: "datom list"
  by_subject :: "(string \<times> datom list) list"
  by_subject_attribute :: "((string \<times> string) \<times> datom list) list"
  by_attribute :: "(string \<times> datom list) list"
  by_attribute_value :: "((string \<times> string) \<times> datom list) list"

definition index_datom :: "(json \<Rightarrow> string) \<Rightarrow> datom \<Rightarrow> datom_index \<Rightarrow> datom_index" where
  "index_datom ser d ix =
     ix\<lparr>by_subject := push_entry (d_subject d) d (by_subject ix),
        by_subject_attribute :=
          push_entry (d_subject d, d_attribute d) d (by_subject_attribute ix),
        by_attribute := push_entry (d_attribute d) d (by_attribute ix),
        by_attribute_value :=
          push_entry (d_attribute d, ser (d_value d)) d (by_attribute_value ix)\<rparr>"

definition new_index :: "(json \<Rightarrow> string) \<Rightarrow> datom list \<Rightarrow> datom_index" where
  "new_index ser datoms =
     fold (index_datom ser) datoms
       \<lparr>all_datoms = datoms, by_subject = [], by_subject_attribute = [], by_attribute = [],
        by_attribute_value = []\<rparr>"

definition triple_candidates ::
    "(json \<Rightarrow> string) \<Rightarrow> datom_index \<Rightarrow> query_term \<Rightarrow> query_term \<Rightarrow> query_term \<Rightarrow> jmap \<Rightarrow> datom list" where
  "triple_candidates ser ix subj attr obj binding =
     (case Option.bind (resolve subj binding) as_str of
        Some s \<Rightarrow>
          (case Option.bind (resolve attr binding) as_str of
             Some a \<Rightarrow> entries (by_subject_attribute ix) (s, a)
           | None \<Rightarrow> entries (by_subject ix) s)
      | None \<Rightarrow>
          (case Option.bind (resolve attr binding) as_str of
             Some a \<Rightarrow>
               (case resolve obj binding of
                  Some v \<Rightarrow> entries (by_attribute_value ix) (a, ser v)
                | None \<Rightarrow> entries (by_attribute ix) a)
           | None \<Rightarrow> all_datoms ix))"

definition attribute_candidates :: "datom_index \<Rightarrow> string \<Rightarrow> datom list" where
  "attribute_candidates ix a = entries (by_attribute ix) a"

section \<open>Triples\<close>

definition triple_match ::
    "query_term \<Rightarrow> query_term \<Rightarrow> query_term \<Rightarrow> jmap \<Rightarrow> datom \<Rightarrow> jmap option" where
  "triple_match subj attr obj binding d =
     Option.bind (unify subj (JStr (d_subject d)) binding) (\<lambda>after_subject.
     Option.bind (unify attr (JStr (d_attribute d)) after_subject) (\<lambda>after_attribute.
     unify obj (d_value d) after_attribute))"

fun triple_loop ::
    "query_limits \<Rightarrow> (datom \<Rightarrow> jmap option) \<Rightarrow> datom list \<Rightarrow> jmap list \<Rightarrow> budget
      \<Rightarrow> query_failure + jmap list \<times> budget" where
  "triple_loop l f [] results b = Inr (results, b)"
| "triple_loop l f (d # ds) results b =
     bindR (scan_datom l b) (\<lambda>b.
     case f d of
       None \<Rightarrow> triple_loop l f ds results b
     | Some r \<Rightarrow>
         (let results = results @ [r] in
          if work_limit b < length results then Inl (query_work_failure (work_limit b))
          else triple_loop l f ds results b))"

definition apply_triple ::
    "(json \<Rightarrow> string) \<Rightarrow> query_limits \<Rightarrow> datom_index \<Rightarrow> query_term \<Rightarrow> query_term \<Rightarrow> query_term
      \<Rightarrow> jmap \<Rightarrow> budget \<Rightarrow> query_failure + jmap list \<times> budget" where
  "apply_triple ser l ix subj attr obj binding b =
     triple_loop l (triple_match subj attr obj binding)
       (triple_candidates ser ix subj attr obj binding) [] b"

section \<open>Bounded reachability\<close>

type_synonym adjacency = "(string \<times> string list) list"

fun build_adjacency ::
    "query_limits \<Rightarrow> string \<Rightarrow> datom list \<Rightarrow> adjacency \<Rightarrow> budget \<Rightarrow> query_failure + adjacency \<times> budget" where
  "build_adjacency l a [] adj b = Inr (adj, b)"
| "build_adjacency l a (d # ds) adj b =
     bindR (scan_datom l b) (\<lambda>b.
     if d_attribute d \<noteq> a then build_adjacency l a ds adj b
     else
       (case as_str (d_value d) of
          Some target \<Rightarrow>
            bindR (traverse_edge l b) (\<lambda>b.
              build_adjacency l a ds (push_entry (d_subject d) target adj) b)
        | None \<Rightarrow> build_adjacency l a ds adj b))"

type_synonym frontier = "string list \<times> (string \<times> nat) list \<times> jmap list"

fun expand ::
    "(string \<Rightarrow> jmap option) \<Rightarrow> nat \<Rightarrow> nat \<Rightarrow> string list \<Rightarrow> frontier \<Rightarrow> query_failure + frontier" where
  "expand target limit depth [] st = Inr st"
| "expand target limit depth (nxt # rest) (visited, queue, results) =
     (if nxt \<in> set visited then expand target limit depth rest (visited, queue, results)
      else
        (case target nxt of
           Some r \<Rightarrow>
             if limit \<le> length results then Inl (query_work_failure limit)
             else expand target limit depth rest
                    (nxt # visited, queue @ [(nxt, depth + 1)], results @ [r])
         | None \<Rightarrow>
             expand target limit depth rest (nxt # visited, queue @ [(nxt, depth + 1)], results)))"

text \<open>What one expansion adds: the successors not yet visited, each once, at the next depth.\<close>

lemma expand_Inr:
  assumes "expand target limit depth nexts (visited, queue, results) = Inr (visited', queue', results')"
  shows "\<exists>new. distinct new \<and> set new = set nexts - set visited \<and>
    set visited' = set visited \<union> set new \<and>
    queue' = queue @ map (\<lambda>x. (x, depth + 1)) new \<and>
    results' = results @ List.map_filter target new \<and>
    (length results \<le> limit \<longrightarrow> length results' \<le> limit)"
  using assms
proof (induction nexts arbitrary: visited queue results)
  case Nil
  then show ?case by (intro exI [of _ "[]"]) (simp add: List.map_filter_simps)
next
  case (Cons x xs)
  show ?case
  proof (cases "x \<in> set visited")
    case True
    with Cons.prems have "expand target limit depth xs (visited, queue, results)
        = Inr (visited', queue', results')" by simp
    moreover have "set (x # xs) - set visited = set xs - set visited" using True by auto
    ultimately show ?thesis using Cons.IH by simp
  next
    case False
    define rs where "rs = results @ List.map_filter target [x]"
    have next_call: "expand target limit depth xs (x # visited, queue @ [(x, depth + 1)], rs)
        = Inr (visited', queue', results')"
      and bound: "length results \<le> limit \<longrightarrow> length rs \<le> limit"
      using Cons.prems False
      by (auto simp: rs_def List.map_filter_simps split: option.splits if_splits)
    from Cons.IH [OF next_call] obtain new where new: "distinct new"
      "set new = set xs - set (x # visited)" "set visited' = set (x # visited) \<union> set new"
      "queue' = (queue @ [(x, depth + 1)]) @ map (\<lambda>x. (x, depth + 1)) new"
      "results' = rs @ List.map_filter target new"
      "length rs \<le> limit \<longrightarrow> length results' \<le> limit"
      by blast
    have "List.map_filter target [x] @ List.map_filter target new = List.map_filter target (x # new)"
      by (simp add: List.map_filter_simps split: option.split)
    then show ?thesis
      using new False bound by (intro exI [of _ "x # new"]) (auto simp: rs_def)
  qed
qed

definition targets :: "adjacency \<Rightarrow> string set" where
  "targets adj = (\<Union>p \<in> set adj. set (snd p))"

lemma finite_targets [simp]: "finite (targets adj)"
  by (simp add: targets_def)

lemma entries_targets: "set (entries adj x) \<subseteq> targets adj"
proof (cases "map_of adj x")
  case (Some vs)
  then have "(x, vs) \<in> set adj" by (rule map_of_SomeD)
  with Some show ?thesis by (force simp: entries_def targets_def)
qed (simp add: entries_def)

definition bfs_measure :: "adjacency \<Rightarrow> frontier \<Rightarrow> nat" where
  "bfs_measure adj st =
     (case st of (visited, queue, _) \<Rightarrow> 2 * card (targets adj - set visited) + length queue)"

lemma expand_measure:
  assumes "expand target limit depth (entries adj x) (visited, queue, results) = Inr st"
  shows "bfs_measure adj st \<le> bfs_measure adj (visited, queue, results)"
proof -
  obtain visited' queue' results' where st: "st = (visited', queue', results')"
    by (cases st)
  from expand_Inr [OF assms [unfolded st]] obtain new where new: "distinct new"
    "set new = set (entries adj x) - set visited" "set visited' = set visited \<union> set new"
    "queue' = queue @ map (\<lambda>x. (x, depth + 1)) new" by blast
  have sub: "set new \<subseteq> targets adj - set visited" using new(2) entries_targets [of adj x] by auto
  have "targets adj - set visited' = (targets adj - set visited) - set new" using new(3) by auto
  then have "card (targets adj - set visited') = card (targets adj - set visited) - length new"
    using sub new(1) by (simp add: card_Diff_subset distinct_card)
  moreover have "length new \<le> card (targets adj - set visited)"
    using sub new(1) card_mono [of "targets adj - set visited" "set new"] by (simp add: distinct_card)
  ultimately show ?thesis by (simp add: bfs_measure_def st new(4))
qed

function (sequential) bfs ::
    "adjacency \<Rightarrow> (string \<Rightarrow> jmap option) \<Rightarrow> nat \<Rightarrow> nat \<Rightarrow> frontier \<Rightarrow> query_failure + jmap list" where
  "bfs adj target limit max_depth (visited, [], results) = Inr results"
| "bfs adj target limit max_depth (visited, (current, depth) # queue, results) =
     (if max_depth \<le> depth then bfs adj target limit max_depth (visited, queue, results)
      else
        bindR (expand target limit depth (entries adj current) (visited, queue, results))
          (bfs adj target limit max_depth))"
  by pat_completeness auto
termination
proof (relation "measure (\<lambda>(adj, target, limit, max_depth, st). bfs_measure adj st)", goal_cases)
  case 1
  then show ?case by simp
next
  case 2
  then show ?case by (simp add: bfs_measure_def)
next
  case (3 adj target limit max_depth visited current depth queue results st)
  then have "bfs_measure adj st \<le> bfs_measure adj (visited, queue, results)"
    by (intro expand_measure) simp
  then show ?case by (simp add: bfs_measure_def)
qed

definition apply_reachable ::
    "query_limits \<Rightarrow> datom_index \<Rightarrow> query_term \<Rightarrow> string \<Rightarrow> query_term \<Rightarrow> nat \<Rightarrow> jmap \<Rightarrow> budget
      \<Rightarrow> query_failure + jmap list \<times> budget" where
  "apply_reachable l ix from_term a to_term max_depth binding b =
     bindR (ok_or (resolve from_term binding)
       (qfail ''query_reachable_unbound''
         ''reachable from must be bound before the reachable clause is evaluated''
         (JObj [(''term'', JStr ''from'')]))) (\<lambda>start_value.
     bindR (ok_or (as_str start_value)
       (qfail ''query_reachable_type'' ''reachable from must resolve to a string id''
         (JObj [(''term'', JStr ''from''), (''value'', start_value)]))) (\<lambda>start.
     bindR (build_adjacency l a (attribute_candidates ix a) [] b) (\<lambda>(adj, b).
     bindR (bfs adj (\<lambda>nxt. unify to_term (JStr nxt) binding) (work_limit b) max_depth
              ([start], [(start, 0)], [])) (\<lambda>results.
     Inr (results, b)))))"

section \<open>Clauses and the planner\<close>

definition is_nested :: "clause \<Rightarrow> bool" where
  "is_nested c = (case c of Exists _ \<Rightarrow> True | NotExists _ \<Rightarrow> True | _ \<Rightarrow> False)"

definition clause_ready :: "jmap \<Rightarrow> clause \<Rightarrow> bool \<Rightarrow> bool" where
  "clause_ready binding c allow_nested =
     (case c of
        Triple _ _ _ \<Rightarrow> True
      | Reachable from_term _ _ _ \<Rightarrow> resolve from_term binding \<noteq> None
      | Compare _ left right \<Rightarrow> resolve left binding \<noteq> None \<and> resolve right binding \<noteq> None
      | Exists _ \<Rightarrow> allow_nested
      | NotExists _ \<Rightarrow> allow_nested)"

type_synonym 'x evaluation = "query_failure + jmap list \<times> 'x budget_scheme"

text \<open>The inner loop over the bindings, with the check of the intermediate result. Of the budget it reads
  the work limit only, so it is the same for a budget with further fields.\<close>

fun extend_all ::
    "(jmap \<Rightarrow> 'x budget_scheme \<Rightarrow> 'x evaluation) \<Rightarrow> jmap list \<Rightarrow> jmap list
      \<Rightarrow> 'x budget_scheme \<Rightarrow> 'x evaluation" where
  "extend_all f [] acc b = Inr (acc, b)"
| "extend_all f (binding # bindings) acc b =
     bindR (f binding b) (\<lambda>(rs, b).
       let acc = acc @ rs in
       if work_limit b < length acc then Inl (query_work_failure (work_limit b))
       else extend_all f bindings acc b)"

fun position :: "('a \<Rightarrow> bool) \<Rightarrow> 'a list \<Rightarrow> nat option" where
  "position P [] = None"
| "position P (x # xs) = (if P x then Some 0 else map_option Suc (position P xs))"

lemma position_Some: "position P xs = Some i \<Longrightarrow> i < length xs \<and> P (xs ! i)"
  by (induction xs arbitrary: i) (auto split: if_splits)

lemma position_None: "position P xs = None \<longleftrightarrow> (\<forall>x \<in> set xs. \<not> P x)"
  by (induction xs) auto

definition remove_at :: "nat \<Rightarrow> 'a list \<Rightarrow> 'a list" where
  "remove_at i xs = take i xs @ drop (Suc i) xs"

lemma length_remove_at: "i < length xs \<Longrightarrow> length (remove_at i xs) = length xs - 1"
  by (simp add: remove_at_def)

lemma set_remove_at: "i < length xs \<Longrightarrow> set xs = insert (xs ! i) (set (remove_at i xs))"
  by (metis Cons_nth_drop_Suc append_take_drop_id list.set(2) remove_at_def set_append Un_insert_right)

text \<open>The first clause that is not a nested predicate, else the first one.\<close>

definition blocked_clause :: "clause list \<Rightarrow> clause" where
  "blocked_clause remaining =
     (case find (\<lambda>c. \<not> is_nested c) remaining of Some c \<Rightarrow> c | None \<Rightarrow> hd remaining)"

lemma blocked_clause_in: "remaining \<noteq> [] \<Longrightarrow> blocked_clause remaining \<in> set remaining"
  by (auto simp: blocked_clause_def find_Some_iff split: option.split)

function planned_loop ::
    "(clause \<Rightarrow> jmap \<Rightarrow> 'x budget_scheme \<Rightarrow> 'x evaluation) \<Rightarrow> clause list \<Rightarrow> jmap list
      \<Rightarrow> 'x budget_scheme \<Rightarrow> 'x evaluation" where
  "planned_loop f remaining bindings b =
     (if remaining = [] \<or> bindings = [] then Inr (bindings, b)
      else
        let allow_nested = list_all is_nested remaining in
        case position (\<lambda>c. \<forall>binding \<in> set bindings. clause_ready binding c allow_nested) remaining of
          None \<Rightarrow> f (blocked_clause remaining) (hd bindings) b
        | Some i \<Rightarrow>
            bindR (extend_all (f (remaining ! i)) bindings [] b) (\<lambda>(acc, b).
              planned_loop f (remove_at i remaining) acc b))"
  by pat_completeness auto
termination
  by (relation "measure (\<lambda>(f, remaining, bindings, b). length remaining)")
     (auto dest: position_Some simp: length_remove_at)

declare planned_loop.simps [simp del]

lemma planned_loop_cong [fundef_cong]:
  assumes "xs = ys" "bs = bs'" "b = b'" "\<And>c. c \<in> set ys \<Longrightarrow> f c = g c"
  shows "planned_loop f xs bs b = planned_loop g ys bs' b'"
proof -
  have "planned_loop f ys bs b = planned_loop g ys bs b"
    using assms(4)
  proof (induction f ys bs b rule: planned_loop.induct)
    case (1 f ys bs b)
    show ?case
    proof (cases "ys = [] \<or> bs = []")
      case True
      then show ?thesis by (simp add: planned_loop.simps)
    next
      case False
      let ?pos = "position (\<lambda>c. \<forall>binding \<in> set bs. clause_ready binding c (list_all is_nested ys)) ys"
      show ?thesis
      proof (cases ?pos)
        case None
        with False 1(2) blocked_clause_in [of ys] show ?thesis
          by (subst (1 2) planned_loop.simps) simp
      next
        case (Some i)
        then have i: "i < length ys" using position_Some by blast
        then have fi: "f (ys ! i) = g (ys ! i)" using 1(2) by simp
        have "f c = g c" if "c \<in> set (remove_at i ys)" for c
          using that set_remove_at [OF i] 1(2) by blast
        then have "planned_loop f (remove_at i ys) (fst p) (snd p) = planned_loop g (remove_at i ys) (fst p) (snd p)"
          if "extend_all (f (ys ! i)) bs [] b = Inr p" for p
          using 1(1) [OF False refl Some that] by (simp add: prod.collapse)
        with Some False fi show ?thesis
          by (subst (1 2) planned_loop.simps)
             (auto simp: Let_def split_def intro!: bindR_cong)
      qed
    qed
  qed
  with assms(1-3) show ?thesis by simp
qed

definition compare_unbound :: "string \<Rightarrow> query_failure" where
  "compare_unbound side =
     qfail ''query_compare_unbound''
       (''compare '' @ side @ '' must be bound before the compare clause is evaluated'')
       (JObj [(''term'', JStr side)])"

fun apply_clause ::
    "(json \<Rightarrow> string) \<Rightarrow> query_limits \<Rightarrow> datom_index \<Rightarrow> clause \<Rightarrow> jmap \<Rightarrow> budget \<Rightarrow> unit evaluation" where
  "apply_clause ser l ix (Triple s a ob) binding b = apply_triple ser l ix s a ob binding b"
| "apply_clause ser l ix (Reachable x a y n) binding b = apply_reachable l ix x a y n binding b"
| "apply_clause ser l ix (Exists cs) binding b =
     bindR (planned_loop (apply_clause ser l ix) cs [binding] b) (\<lambda>(rs, b).
       Inr (if rs \<noteq> [] then [binding] else [], b))"
| "apply_clause ser l ix (NotExists cs) binding b =
     bindR (planned_loop (apply_clause ser l ix) cs [binding] b) (\<lambda>(rs, b).
       Inr (if rs = [] then [binding] else [], b))"
| "apply_clause ser l ix (Compare op left right) binding b =
     bindR (ok_or (resolve left binding) (compare_unbound ''left'')) (\<lambda>x.
     bindR (ok_or (resolve right binding) (compare_unbound ''right'')) (\<lambda>y.
     Inr (if compare op x y then [binding] else [], b)))"

definition apply_planned ::
    "(json \<Rightarrow> string) \<Rightarrow> query_limits \<Rightarrow> datom_index \<Rightarrow> clause list \<Rightarrow> jmap \<Rightarrow> budget \<Rightarrow> unit evaluation" where
  "apply_planned ser l ix clauses initial b = planned_loop (apply_clause ser l ix) clauses [initial] b"

end
