(* ===== verification/Query_Reach.thy ===== *)
theory Query_Reach
  imports Query_Eval
begin

text \<open>
  Correctness of the breadth-first search of \<open>apply_reachable\<close>: the nodes it visits, beside the
  start, are exactly those at the end of an edge path of at most the maximal depth, each visited
  once. The proof carries the depth of every visited node as a ghost.
\<close>

definition adj_edges :: "adjacency \<Rightarrow> (string \<times> string) set" where
  "adj_edges adj = {(x, y). y \<in> set (entries adj x)}"

definition reach_within :: "('a \<times> 'a) set \<Rightarrow> nat \<Rightarrow> 'a \<Rightarrow> 'a set" where
  "reach_within E n u = {v. \<exists>m \<le> n. (u, v) \<in> E ^^ m}"

text \<open>The invariant of the search: \<open>D\<close> is the depth at which a node was visited, the queue is
  sorted by depth and no visited node is more than one level below its head, and the successors of
  every finished node were visited at most one level below it.\<close>

definition bfs_inv ::
    "adjacency \<Rightarrow> nat \<Rightarrow> string \<Rightarrow> (string \<Rightarrow> nat) \<Rightarrow> string set \<Rightarrow> (string \<times> nat) list \<Rightarrow> bool" where
  "bfs_inv adj M s D V q \<longleftrightarrow>
     s \<in> V \<and> D s = 0 \<and>
     (\<forall>v \<in> V. D v \<le> M \<and> (s, v) \<in> adj_edges adj ^^ D v) \<and>
     (\<forall>(x, d) \<in> set q. x \<in> V \<and> D x = d) \<and>
     sorted (map snd q) \<and>
     (q \<noteq> [] \<longrightarrow> (\<forall>v \<in> V. D v \<le> Suc (snd (hd q)))) \<and>
     (\<forall>x \<in> V. x \<notin> fst ` set q \<longrightarrow> D x < M \<longrightarrow>
        (\<forall>y \<in> set (entries adj x). y \<in> V \<and> D y \<le> Suc (D x)))"

lemma bfs_inv_start: "bfs_inv adj M s (\<lambda>_. 0) {s} [(s, 0)]"
  by (simp add: bfs_inv_def)

lemma bfs_inv_skip:
  assumes "bfs_inv adj M s D V ((c, d) # q)" "M \<le> d"
  shows "bfs_inv adj M s D V q"
proof -
  note inv = assms(1) [unfolded bfs_inv_def]
  have c: "D c = d" using inv by simp
  show ?thesis
    unfolding bfs_inv_def
  proof (intro conjI)
    show "s \<in> V" "D s = 0" "\<forall>v \<in> V. D v \<le> M \<and> (s, v) \<in> adj_edges adj ^^ D v" using inv by blast+
    show "\<forall>(x, d) \<in> set q. x \<in> V \<and> D x = d" "sorted (map snd q)" using inv by simp_all
    show "q \<noteq> [] \<longrightarrow> (\<forall>v \<in> V. D v \<le> Suc (snd (hd q)))"
    proof (intro impI ballI)
      fix v
      assume "q \<noteq> []" "v \<in> V"
      then have "d \<le> snd (hd q)" "D v \<le> Suc d" using inv by simp_all
      then show "D v \<le> Suc (snd (hd q))" by simp
    qed
    show "\<forall>x \<in> V. x \<notin> fst ` set q \<longrightarrow> D x < M \<longrightarrow>
        (\<forall>y \<in> set (entries adj x). y \<in> V \<and> D y \<le> Suc (D x))"
    proof (intro ballI impI)
      fix x y
      assume x: "x \<in> V" "x \<notin> fst ` set q" "D x < M" "y \<in> set (entries adj x)"
      then have "x \<notin> fst ` set ((c, d) # q)" using c assms(2) by auto
      then show "y \<in> V \<and> D y \<le> Suc (D x)" using inv x by blast
    qed
  qed
qed

lemma bfs_inv_expand:
  assumes inv: "bfs_inv adj M s D V ((c, d) # q)" and low: "d < M"
    and new: "distinct new" "set new = set (entries adj c) - V"
  defines "D' \<equiv> (\<lambda>x. if x \<in> set new then Suc d else D x)"
  shows "bfs_inv adj M s D' (V \<union> set new) (q @ map (\<lambda>x. (x, Suc d)) new)"
proof -
  let ?E = "adj_edges adj" and ?q = "q @ map (\<lambda>x. (x, Suc d)) new"
  note inv' = inv [unfolded bfs_inv_def]
  have s: "s \<in> V" "D s = 0" using inv' by blast+
  have c: "c \<in> V" "D c = d" using inv' by simp_all
  have sound: "D v \<le> M \<and> (s, v) \<in> ?E ^^ D v" if "v \<in> V" for v using inv' that by blast
  have queue: "x \<in> V \<and> D x = e" if "(x, e) \<in> set q" for x e using inv' that by fastforce
  have sorted: "sorted (map snd q)" using inv' by simp
  have above: "d \<le> e" if "e \<in> snd ` set q" for e using inv' that by auto
  have level: "D v \<le> Suc d" if "v \<in> V" for v using inv' that by simp
  have closed: "y \<in> V \<and> D y \<le> Suc (D x)"
    if "x \<in> V" "x \<noteq> c" "x \<notin> fst ` set q" "D x < M" "y \<in> set (entries adj x)" for x y
    using inv' that by simp
  have old: "D' v = D v" if "v \<in> V" for v using that new(2) by (auto simp: D'_def)
  have fresh: "D' v = Suc d" if "v \<in> set new" for v using that by (simp add: D'_def)
  have sound': "D' v \<le> M \<and> (s, v) \<in> ?E ^^ D' v" if "v \<in> V \<union> set new" for v
  proof (cases "v \<in> set new")
    case True
    then have "(c, v) \<in> ?E" using new(2) by (auto simp: adj_edges_def)
    moreover have "(s, c) \<in> ?E ^^ d" using sound [OF c(1)] c(2) by simp
    ultimately have "(s, v) \<in> ?E ^^ Suc d" by auto
    with fresh [OF True] low show ?thesis by simp
  next
    case False
    with that old sound show ?thesis by simp
  qed
  have level': "D' v \<le> Suc (snd (hd ?q))" if "v \<in> V \<union> set new" "?q \<noteq> []" for v
  proof -
    have "d \<le> snd (hd ?q)"
    proof (cases q)
      case Nil
      with that(2) show ?thesis by (cases new) auto
    next
      case (Cons p r)
      then show ?thesis using above [of "snd p"] by simp
    qed
    moreover have "D' v \<le> Suc d" using that(1) level old fresh by (cases "v \<in> set new") auto
    ultimately show ?thesis by simp
  qed
  have sorted': "sorted (map snd ?q)"
  proof -
    have "e \<le> Suc d" if "e \<in> snd ` set q" for e
      using that queue level by force
    then show ?thesis using sorted by (auto simp: sorted_append comp_def sorted_replicate map_replicate_const)
  qed
  have closed': "y \<in> V \<union> set new \<and> D' y \<le> Suc (D' x)"
    if x: "x \<in> V \<union> set new" "x \<notin> fst ` set ?q" "D' x < M" "y \<in> set (entries adj x)" for x y
  proof -
    have xV: "x \<in> V" "x \<notin> set new" "x \<notin> fst ` set q" using x(1,2) by force+
    show ?thesis
    proof (cases "x = c")
      case True
      then have "y \<in> V \<union> set new" using x(4) new(2) by auto
      moreover have "D' y \<le> Suc d" using calculation level old fresh by (cases "y \<in> set new") auto
      ultimately show ?thesis using True c old by simp
    next
      case False
      then have "y \<in> V \<and> D y \<le> Suc (D x)" using closed xV x(3,4) old by simp
      then show ?thesis using old xV(1) by simp
    qed
  qed
  show ?thesis
    unfolding bfs_inv_def
  proof (intro conjI)
    show "s \<in> V \<union> set new" "D' s = 0" using s old by simp_all
    show "\<forall>v \<in> V \<union> set new. D' v \<le> M \<and> (s, v) \<in> ?E ^^ D' v" using sound' by blast
    show "\<forall>(x, e) \<in> set ?q. x \<in> V \<union> set new \<and> D' x = e" using queue old fresh by auto
    show "sorted (map snd ?q)" by (rule sorted')
    show "?q \<noteq> [] \<longrightarrow> (\<forall>v \<in> V \<union> set new. D' v \<le> Suc (snd (hd ?q)))" using level' by blast
    show "\<forall>x \<in> V \<union> set new. x \<notin> fst ` set ?q \<longrightarrow> D' x < M \<longrightarrow>
        (\<forall>y \<in> set (entries adj x). y \<in> V \<union> set new \<and> D' y \<le> Suc (D' x))"
      using closed' by blast
  qed
qed

lemma bfs_inv_end:
  assumes inv: "bfs_inv adj M s D V []"
  shows "V = reach_within (adj_edges adj) M s"
proof -
  have reach: "v \<in> V \<and> D v \<le> n" if "(s, v) \<in> adj_edges adj ^^ n" "n \<le> M" for n v
    using that
  proof (induction n arbitrary: v)
    case 0
    with inv show ?case by (auto simp: bfs_inv_def)
  next
    case (Suc n)
    then obtain x where x: "(s, x) \<in> adj_edges adj ^^ n" "(x, v) \<in> adj_edges adj" by auto
    with Suc have "x \<in> V" "D x \<le> n" "D x < M" by force+
    with inv x(2) have "v \<in> V \<and> D v \<le> Suc (D x)" by (auto simp: bfs_inv_def adj_edges_def)
    with \<open>D x \<le> n\<close> show ?case by simp
  qed
  show ?thesis
    using reach inv by (auto simp: reach_within_def bfs_inv_def)
qed

text \<open>The search visits exactly the nodes within the depth, and returns what the target pattern makes
  of them in visiting order.\<close>

lemma bfs_visits:
  assumes "bfs adj target limit M (visited, queue, results) = Inr rs"
    and "bfs_inv adj M s D (set visited) queue"
  shows "\<exists>order. distinct order \<and> set visited \<inter> set order = {} \<and>
    set visited \<union> set order = reach_within (adj_edges adj) M s \<and>
    rs = results @ List.map_filter target order \<and>
    (length results \<le> limit \<longrightarrow> length rs \<le> limit)"
  using assms
proof (induction adj target limit M "(visited, queue, results)" arbitrary: visited queue results D
    rule: bfs.induct)
  case (1 adj target limit M visited results)
  then show ?case
    using bfs_inv_end by (intro exI [of _ "[]"]) (auto simp: List.map_filter_simps)
next
  case (2 adj target limit M visited c d queue results)
  show ?case
  proof (cases "M \<le> d")
    case True
    with "2.prems"(1) have "bfs adj target limit M (visited, queue, results) = Inr rs" by simp
    from "2.hyps"(1) [OF True this bfs_inv_skip [OF "2.prems"(2) True]] show ?thesis .
  next
    case False
    with "2.prems"(1) obtain st where st:
      "expand target limit d (entries adj c) (visited, queue, results) = Inr st"
      "bfs adj target limit M st = Inr rs"
      by (auto simp: bindR_Inr_iff)
    obtain visited' queue' results' where p: "st = (visited', queue', results')" by (cases st)
    from expand_Inr [OF st(1) [unfolded p]] obtain new where new: "distinct new"
      "set new = set (entries adj c) - set visited" "set visited' = set visited \<union> set new"
      "queue' = queue @ map (\<lambda>x. (x, d + 1)) new"
      "results' = results @ List.map_filter target new"
      "length results \<le> limit \<longrightarrow> length results' \<le> limit"
      by blast
    have "bfs_inv adj M s (\<lambda>x. if x \<in> set new then Suc d else D x) (set visited') queue'"
      using bfs_inv_expand [OF "2.prems"(2) _ new(1,2)] False new(3,4) by simp
    from "2.hyps"(2) [OF False st(1) [unfolded p] st(2) [unfolded p] this] obtain order where
      order: "distinct order" "set visited' \<inter> set order = {}"
      "set visited' \<union> set order = reach_within (adj_edges adj) M s"
      "rs = results' @ List.map_filter target order"
      "length results' \<le> limit \<longrightarrow> length rs \<le> limit"
      by blast
    have "List.map_filter target (new @ order) = List.map_filter target new @ List.map_filter target order"
      by (simp add: List.map_filter_def)
    moreover have "distinct (new @ order)" using order(1,2) new(1,3) by auto
    moreover have "set visited \<inter> set (new @ order) = {}" using order(2) new(2,3) by auto
    moreover have "set visited \<union> set (new @ order) = reach_within (adj_edges adj) M s"
      using order(3) new(3) by auto
    ultimately show ?thesis
      using order(4,5) new(5,6) by (intro exI [of _ "new @ order"]) auto
  qed
qed

end
