(* ===== verification/Query_Semantics.thy ===== *)
theory Query_Semantics
  imports Query_Reach
begin

text \<open>
  What a query means, and that the evaluator computes it. \<open>sat\<close> is the declarative meaning of a
  clause under an assignment of the variables; \<open>planned_solutions\<close> says that the planner, which picks
  the clauses in its own order, looks candidates up in an index and prunes as it goes, returns
  exactly the assignments that satisfy all clauses. Values are compared structurally in \<open>sat\<close>; the
  theorem is for data whose values are compared so by the code too (\<open>exact\<close>: no doubles equal to
  zero, no arrays, no objects). Where the data is not of that kind the index can miss a match
  (\<open>index_misses_reordered_object\<close>).
\<close>

section \<open>The index\<close>

lemma entries_push [simp]:
  "entries (push_entry k v m) k' = (if k' = k then entries m k @ [v] else entries m k')"
  by (simp add: entries_def push_entry_def update_conv)

lemma entries_Nil [simp]: "entries [] k = []"
  by (simp add: entries_def)

lemma fold_index:
  defines "ix' ds ix ser \<equiv> fold (index_datom ser) ds ix"
  shows "all_datoms (ix' ds ix ser) = all_datoms ix"
    "entries (by_subject (ix' ds ix ser)) s = entries (by_subject ix) s @ filter (\<lambda>d. d_subject d = s) ds"
    "entries (by_subject_attribute (ix' ds ix ser)) (s, a) =
       entries (by_subject_attribute ix) (s, a) @ filter (\<lambda>d. d_subject d = s \<and> d_attribute d = a) ds"
    "entries (by_attribute (ix' ds ix ser)) a =
       entries (by_attribute ix) a @ filter (\<lambda>d. d_attribute d = a) ds"
    "entries (by_attribute_value (ix' ds ix ser)) (a, k) =
       entries (by_attribute_value ix) (a, k) @ filter (\<lambda>d. d_attribute d = a \<and> ser (d_value d) = k) ds"
  unfolding ix'_def by (induction ds arbitrary: ix) (auto simp: index_datom_def)

lemma new_index_simps [simp]:
  "all_datoms (new_index ser ds) = ds"
  "entries (by_subject (new_index ser ds)) s = filter (\<lambda>d. d_subject d = s) ds"
  "entries (by_subject_attribute (new_index ser ds)) (s, a) =
     filter (\<lambda>d. d_subject d = s \<and> d_attribute d = a) ds"
  "entries (by_attribute (new_index ser ds)) a = filter (\<lambda>d. d_attribute d = a) ds"
  "entries (by_attribute_value (new_index ser ds)) (a, k) =
     filter (\<lambda>d. d_attribute d = a \<and> ser (d_value d) = k) ds"
  unfolding new_index_def by (simp_all only: fold_index) simp_all

lemma attribute_candidates_new [simp]:
  "attribute_candidates (new_index ser ds) a = filter (\<lambda>d. d_attribute d = a) ds"
  by (simp add: attribute_candidates_def)

lemma unify_resolved:
  "resolve t b = Some v \<Longrightarrow> unify t w b = (if json_eq v w then Some b else None)"
  by (auto simp: resolve_def unify_def split: query_term.splits)

lemma unify_keeps:
  assumes "unify t v b = Some b'" "obj_get b x = Some w"
  shows "obj_get b' x = Some w"
  using assms by (auto simp: unify_def split: query_term.splits option.splits if_splits)

lemma resolve_keeps: "unify t v b = Some b' \<Longrightarrow> resolve u b = Some w \<Longrightarrow> resolve u b' = Some w"
  by (auto simp: resolve_def dest: unify_keeps split: query_term.splits)

lemma map_filter_filter:
  "(\<And>x. x \<in> set xs \<Longrightarrow> f x \<noteq> None \<Longrightarrow> P x) \<Longrightarrow> List.map_filter f (filter P xs) = List.map_filter f xs"
  by (induction xs) (auto simp: List.map_filter_simps split: option.splits)

text \<open>The serialization that keys the value index is faithful on the data when equal values have
  equal keys.\<close>

definition key_faithful :: "(json \<Rightarrow> string) \<Rightarrow> datom list \<Rightarrow> bool" where
  "key_faithful ser ds \<longleftrightarrow> (\<forall>v. \<forall>d \<in> set ds. json_eq v (d_value d) \<longrightarrow> ser v = ser (d_value d))"

lemma triple_match_subject:
  "triple_match s a ob b d = Some r \<Longrightarrow> resolve s b = Some (JStr n) \<Longrightarrow> d_subject d = n"
  by (auto simp: triple_match_def unify_resolved bind_eq_Some_conv split: if_splits)

lemma triple_match_attribute:
  assumes "triple_match s a ob b d = Some r" "resolve a b = Some (JStr n)"
  shows "d_attribute d = n"
proof -
  from assms(1) obtain b' b'' where "unify s (JStr (d_subject d)) b = Some b'"
    "unify a (JStr (d_attribute d)) b' = Some b''"
    by (auto simp: triple_match_def bind_eq_Some_conv)
  with resolve_keeps [OF this(1) assms(2)] show ?thesis
    by (auto simp: unify_resolved split: if_splits)
qed

lemma triple_match_object:
  assumes "triple_match s a ob b d = Some r" "resolve ob b = Some v"
  shows "json_eq v (d_value d)"
proof -
  from assms(1) obtain b' b'' b3 where "unify s (JStr (d_subject d)) b = Some b'"
    "unify a (JStr (d_attribute d)) b' = Some b''" "unify ob (d_value d) b'' = Some b3"
    by (auto simp: triple_match_def bind_eq_Some_conv)
  with resolve_keeps [OF this(2) resolve_keeps [OF this(1) assms(2)]] show ?thesis
    by (auto simp: unify_resolved split: if_splits)
qed

lemma bind_as_str: "Option.bind r as_str = Some s \<longleftrightarrow> r = Some (JStr s)"
  by (auto simp: bind_eq_Some_conv)

lemma index_complete:
  assumes "key_faithful ser ds"
  shows "List.map_filter (triple_match s a ob b) (triple_candidates ser (new_index ser ds) s a ob b) =
    List.map_filter (triple_match s a ob b) ds"
proof (cases "Option.bind (resolve s b) as_str")
  case (Some n)
  then have s: "resolve s b = Some (JStr n)" by (simp only: bind_as_str)
  show ?thesis
  proof (cases "Option.bind (resolve a b) as_str")
    case None
    show ?thesis
      unfolding triple_candidates_def \<open>Option.bind (resolve s b) as_str = Some n\<close> None
      by (auto intro!: map_filter_filter dest: triple_match_subject [OF _ s])
  next
    case (Some m)
    then have a: "resolve a b = Some (JStr m)" by (simp only: bind_as_str)
    show ?thesis
      unfolding triple_candidates_def \<open>Option.bind (resolve s b) as_str = Some n\<close> Some
      by (auto intro!: map_filter_filter dest: triple_match_subject [OF _ s] triple_match_attribute [OF _ a])
  qed
next
  case None
  show ?thesis
  proof (cases "Option.bind (resolve a b) as_str")
    case None
    with \<open>Option.bind (resolve s b) as_str = None\<close> show ?thesis by (simp add: triple_candidates_def)
  next
    case (Some m)
    then have a: "resolve a b = Some (JStr m)" by (simp only: bind_as_str)
    show ?thesis
    proof (cases "resolve ob b")
      case None
      then show ?thesis
        unfolding triple_candidates_def \<open>Option.bind (resolve s b) as_str = None\<close> Some
        by (auto intro!: map_filter_filter dest: triple_match_attribute [OF _ a])
    next
      case v: (Some v)
      have "ser (d_value d) = ser v" if "d \<in> set ds" "triple_match s a ob b d = Some r" for d r
        using triple_match_object [OF that(2) v] assms that(1) by (auto simp: key_faithful_def)
      then show ?thesis
        unfolding triple_candidates_def \<open>Option.bind (resolve s b) as_str = None\<close> Some v
        by (auto intro!: map_filter_filter dest: triple_match_attribute [OF _ a])
    qed
  qed
qed

lemma triple_loop_Inr:
  assumes "triple_loop l f ds results b = Inr (rs, b')"
  shows "rs = results @ List.map_filter f ds \<and> work_limit b' = work_limit b \<and>
    (datoms_scanned b \<le> max_datoms_scanned l \<longrightarrow> datoms_scanned b' \<le> max_datoms_scanned l) \<and>
    traversal_edges b' = traversal_edges b \<and>
    (length results \<le> work_limit b \<longrightarrow> length rs \<le> work_limit b)"
  using assms
proof (induction ds arbitrary: results b)
  case Nil
  then show ?case by (simp add: List.map_filter_simps)
next
  case (Cons d ds)
  then obtain b1 where b1: "scan_datom l b = Inr b1" by (auto simp: bindR_Inr_iff)
  then have w: "work_limit b1 = work_limit b" "traversal_edges b1 = traversal_edges b"
    "datoms_scanned b1 \<le> max_datoms_scanned l"
    by (auto simp: scan_datom_def Let_def split: if_splits)
  show ?case
  proof (cases "f d")
    case None
    with Cons.prems b1 have "triple_loop l f ds results b1 = Inr (rs, b')" by simp
    from Cons.IH [OF this] w None show ?thesis by (auto simp: List.map_filter_simps)
  next
    case (Some r)
    with Cons.prems b1 have "triple_loop l f ds (results @ [r]) b1 = Inr (rs, b')"
      and "length (results @ [r]) \<le> work_limit b1"
      by (auto simp: Let_def split: if_splits)
    with Cons.IH [OF this(1)] w Some show ?thesis by (auto simp: List.map_filter_simps)
  qed
qed

section \<open>Meaning\<close>

type_synonym assignment = "string \<Rightarrow> json option"

definition value_of :: "assignment \<Rightarrow> query_term \<Rightarrow> json option" where
  "value_of \<beta> t = (case t of Variable x \<Rightarrow> \<beta> x | Value v \<Rightarrow> Some v | OneOf _ \<Rightarrow> None)"

definition term_holds :: "assignment \<Rightarrow> query_term \<Rightarrow> json \<Rightarrow> bool" where
  "term_holds \<beta> t v =
     (case t of
        Variable x \<Rightarrow> \<beta> x = Some v
      | Value e \<Rightarrow> json_eq e v
      | OneOf vs \<Rightarrow> \<exists>e \<in> set vs. json_eq e v)"

definition term_vars :: "query_term \<Rightarrow> string set" where
  "term_vars t = (case t of Variable x \<Rightarrow> {x} | _ \<Rightarrow> {})"

definition edges :: "datom list \<Rightarrow> string \<Rightarrow> (string \<times> string) set" where
  "edges ds a = {(d_subject d, t) | d t. d \<in> set ds \<and> d_attribute d = a \<and> d_value d = JStr t}"

fun bound_vars :: "clause \<Rightarrow> string set" where
  "bound_vars (Triple s a ob) = term_vars s \<union> term_vars a \<union> term_vars ob"
| "bound_vars (Reachable _ _ y _) = term_vars y"
| "bound_vars _ = {}"

definition scope :: "clause list \<Rightarrow> string set" where
  "scope cs = \<Union> (bound_vars ` set cs)"

text \<open>The meaning of a clause. A nested predicate holds when some assignment that extends the current
  one by the variables of its clauses satisfies them, or, negated, when none does.\<close>

fun sat :: "datom list \<Rightarrow> clause \<Rightarrow> assignment \<Rightarrow> bool" where
  "sat ds (Triple s a ob) \<beta> \<longleftrightarrow>
     (\<exists>d \<in> set ds. term_holds \<beta> s (JStr (d_subject d)) \<and> term_holds \<beta> a (JStr (d_attribute d)) \<and>
        term_holds \<beta> ob (d_value d))"
| "sat ds (Compare op x y) \<beta> \<longleftrightarrow>
     (\<exists>v w. value_of \<beta> x = Some v \<and> value_of \<beta> y = Some w \<and> compare op v w)"
| "sat ds (Reachable x a y n) \<beta> \<longleftrightarrow>
     (\<exists>u v. value_of \<beta> x = Some (JStr u) \<and> v \<noteq> u \<and> v \<in> reach_within (edges ds a) n u \<and>
        term_holds \<beta> y (JStr v))"
| "sat ds (Exists cs) \<beta> \<longleftrightarrow>
     (\<exists>\<gamma>. \<beta> \<subseteq>\<^sub>m \<gamma> \<and> dom \<gamma> = dom \<beta> \<union> \<Union> (bound_vars ` set cs) \<and> (\<forall>c \<in> set cs. sat ds c \<gamma>))"
| "sat ds (NotExists cs) \<beta> \<longleftrightarrow>
     \<not> (\<exists>\<gamma>. \<beta> \<subseteq>\<^sub>m \<gamma> \<and> dom \<gamma> = dom \<beta> \<union> \<Union> (bound_vars ` set cs) \<and> (\<forall>c \<in> set cs. sat ds c \<gamma>))"

text \<open>Values that the code's equality compares structurally.\<close>

fun exact :: "json \<Rightarrow> bool" where
  "exact (JNum (Float f)) \<longleftrightarrow> f64_val f \<noteq> 0"
| "exact (JArr _) \<longleftrightarrow> False"
| "exact (JObj _) \<longleftrightarrow> False"
| "exact _ \<longleftrightarrow> True"

definition exact_data :: "datom list \<Rightarrow> bool" where
  "exact_data ds \<longleftrightarrow> (\<forall>d \<in> set ds. exact (d_value d))"

definition exact_map :: "assignment \<Rightarrow> bool" where
  "exact_map \<beta> \<longleftrightarrow> (\<forall>x v. \<beta> x = Some v \<longrightarrow> exact v)"

lemma f64_val_inject: "f64_val f = f64_val g \<Longrightarrow> f64_val f \<noteq> 0 \<Longrightarrow> f = g"
  by (cases f; cases g) (auto simp: f64_val_def)

lemma num_eq_exact: "num_eq m n \<Longrightarrow> exact (JNum n) \<Longrightarrow> m = n"
  by (cases m; cases n) (auto intro: f64_val_inject)

lemma exact_eq: "exact w \<Longrightarrow> json_eq v w \<longleftrightarrow> v = w"
proof
  assume w: "exact w"
  show "v = w" if "json_eq v w"
    using json_eq_scalar [OF that] w that
    by (cases v) (auto intro: num_eq_exact dest: num_eq_sym)
  show "json_eq v w" if "v = w"
    using w that by (cases w) (auto intro: json_eq_refl)
qed

lemma exact_faithful: "exact_data ds \<Longrightarrow> key_faithful ser ds"
  by (auto simp: key_faithful_def exact_data_def exact_eq)

section \<open>One clause\<close>

lemma resolve_value_of: "resolve t b = value_of (map_of b) t"
  by (simp add: resolve_def value_of_def)

lemma map_le_value_of: "\<beta> \<subseteq>\<^sub>m \<gamma> \<Longrightarrow> value_of \<beta> t = Some v \<Longrightarrow> value_of \<gamma> t = Some v"
  by (auto simp: value_of_def map_le_def split: query_term.splits) (metis domI)

lemma map_le_term_holds: "\<beta> \<subseteq>\<^sub>m \<gamma> \<Longrightarrow> term_holds \<beta> t v \<Longrightarrow> term_holds \<gamma> t v"
  by (auto simp: term_holds_def map_le_def split: query_term.splits) (metis domI)

lemma map_of_insert [simp]: "map_of (obj_insert x v b) = (map_of b)(x \<mapsto> v)"
  by (rule update_conv')

text \<open>Unification computes the least extension of a binding under which the term is the value.\<close>

lemma unify_spec:
  assumes "exact v"
  shows "(case unify t v b of
      None \<Rightarrow> \<forall>\<beta>. map_of b \<subseteq>\<^sub>m \<beta> \<longrightarrow> \<not> term_holds \<beta> t v
    | Some b' \<Rightarrow> map_of b \<subseteq>\<^sub>m map_of b' \<and> dom (map_of b') = dom (map_of b) \<union> term_vars t \<and>
        (\<forall>\<beta>. map_of b \<subseteq>\<^sub>m \<beta> \<longrightarrow> (term_holds \<beta> t v \<longleftrightarrow> map_of b' \<subseteq>\<^sub>m \<beta>)))"
proof (cases t)
  case (Variable x)
  show ?thesis
  proof (cases "map_of b x")
    case None
    then show ?thesis
      by (auto simp: Variable unify_def term_holds_def term_vars_def map_le_def)
  next
    case (Some w)
    have u: "unify t v b = (if w = v then Some b else None)"
      using Some by (simp add: Variable unify_def exact_eq [OF assms])
    have bx: "\<beta> x = Some w" if "map_of b \<subseteq>\<^sub>m \<beta>" for \<beta>
      using that Some by (metis domI map_le_def)
    have holds: "term_holds \<beta> t v \<longleftrightarrow> w = v" if "map_of b \<subseteq>\<^sub>m \<beta>" for \<beta>
      using bx [OF that] by (simp add: Variable term_holds_def)
    have "x \<in> dom (map_of b)" using Some by blast
    then show ?thesis
      unfolding u using holds by (auto simp: Variable term_vars_def)
  qed
qed (auto simp: unify_def term_holds_def term_vars_def)

lemma unify_Some:
  assumes "unify t v b = Some b'" "exact v"
  shows "map_of b \<subseteq>\<^sub>m map_of b'" "dom (map_of b') = dom (map_of b) \<union> term_vars t"
    "\<And>\<beta>. map_of b \<subseteq>\<^sub>m \<beta> \<Longrightarrow> term_holds \<beta> t v \<longleftrightarrow> map_of b' \<subseteq>\<^sub>m \<beta>"
  using unify_spec [OF assms(2), where t = t and b = b] assms(1) by auto

lemma unify_None:
  assumes "unify t v b = None" "exact v" "map_of b \<subseteq>\<^sub>m \<beta>"
  shows "\<not> term_holds \<beta> t v"
  using unify_spec [OF assms(2), where t = t and b = b] assms(1,3) by auto

lemma map_le_dom_eq: "\<beta> \<subseteq>\<^sub>m \<gamma> \<Longrightarrow> dom \<gamma> = dom \<beta> \<Longrightarrow> \<beta> = \<gamma>"
  by (intro map_le_antisym) (auto simp: map_le_def)

definition solutions :: "datom list \<Rightarrow> clause \<Rightarrow> assignment \<Rightarrow> assignment set" where
  "solutions ds c \<alpha> = {\<beta>. \<alpha> \<subseteq>\<^sub>m \<beta> \<and> dom \<beta> = dom \<alpha> \<union> bound_vars c \<and> sat ds c \<beta>}"

definition datom_holds :: "assignment \<Rightarrow> query_term \<Rightarrow> query_term \<Rightarrow> query_term \<Rightarrow> datom \<Rightarrow> bool" where
  "datom_holds \<beta> s a ob d \<longleftrightarrow>
     term_holds \<beta> s (JStr (d_subject d)) \<and> term_holds \<beta> a (JStr (d_attribute d)) \<and>
     term_holds \<beta> ob (d_value d)"

lemma triple_match_Some:
  assumes "triple_match s a ob b d = Some b'" "exact (d_value d)"
  shows "map_of b \<subseteq>\<^sub>m map_of b'" "dom (map_of b') = dom (map_of b) \<union> bound_vars (Triple s a ob)"
    "\<And>\<beta>. map_of b \<subseteq>\<^sub>m \<beta> \<Longrightarrow> datom_holds \<beta> s a ob d \<longleftrightarrow> map_of b' \<subseteq>\<^sub>m \<beta>"
proof -
  obtain b1 b2 where u: "unify s (JStr (d_subject d)) b = Some b1"
    "unify a (JStr (d_attribute d)) b1 = Some b2" "unify ob (d_value d) b2 = Some b'"
    using assms(1) by (auto simp: triple_match_def bind_eq_Some_conv)
  have ex: "exact (JStr n)" for n by simp
  note u1 = unify_Some [OF u(1) ex] and u2 = unify_Some [OF u(2) ex] and u3 = unify_Some [OF u(3) assms(2)]
  show "map_of b \<subseteq>\<^sub>m map_of b'" using u1(1) u2(1) u3(1) by (blast intro: map_le_trans)
  show "dom (map_of b') = dom (map_of b) \<union> bound_vars (Triple s a ob)"
    using u1(2) u2(2) u3(2) by auto
  fix \<beta>
  assume le: "map_of b \<subseteq>\<^sub>m \<beta>"
  show "datom_holds \<beta> s a ob d \<longleftrightarrow> map_of b' \<subseteq>\<^sub>m \<beta>"
    unfolding datom_holds_def
    using u1(3) [OF le] u2(3) u3(3) u2(1) u3(1) by (meson map_le_trans)
qed

lemma triple_match_None:
  assumes "triple_match s a ob b d = None" "exact (d_value d)" "map_of b \<subseteq>\<^sub>m \<beta>"
  shows "\<not> datom_holds \<beta> s a ob d"
proof -
  have ex: "exact (JStr n)" for n by simp
  show ?thesis
  proof (cases "unify s (JStr (d_subject d)) b")
    case None
    then show ?thesis using unify_None [OF None ex assms(3)] by (simp add: datom_holds_def)
  next
    case (Some b1)
    note u1 = unify_Some [OF Some ex]
    show ?thesis
    proof (cases "unify a (JStr (d_attribute d)) b1")
      case None
      then show ?thesis
        using unify_None [OF None ex] u1(3) [OF assms(3)] by (auto simp: datom_holds_def)
    next
      case b2: (Some b2)
      note u2 = unify_Some [OF b2 ex]
      have "unify ob (d_value d) b2 = None"
        using assms(1) Some b2 by (simp add: triple_match_def)
      then show ?thesis
        using unify_None [OF _ assms(2)] u2(3) u1(3) [OF assms(3)] by (auto simp: datom_holds_def)
    qed
  qed
qed

lemma map_filter_set: "y \<in> set (List.map_filter f xs) \<longleftrightarrow> (\<exists>x \<in> set xs. f x = Some y)"
  by (induction xs) (auto simp: List.map_filter_simps split: option.splits)

lemma triple_solutions:
  assumes "exact_data ds"
  shows "map_of ` set (List.map_filter (triple_match s a ob b) ds) = solutions ds (Triple s a ob) (map_of b)"
    (is "?L = ?R")
proof (intro set_eqI iffI)
  fix \<beta>
  assume "\<beta> \<in> ?L"
  then obtain d b' where d: "d \<in> set ds" "triple_match s a ob b d = Some b'" "\<beta> = map_of b'"
    by (auto simp: map_filter_set)
  then have ex: "exact (d_value d)" using assms by (simp add: exact_data_def)
  note m = triple_match_Some [OF d(2) ex]
  have "datom_holds \<beta> s a ob d" using m(3) [OF m(1)] d(3) by simp
  with d(1) have "sat ds (Triple s a ob) \<beta>" by (auto simp: datom_holds_def)
  with m(1,2) d(3) show "\<beta> \<in> ?R" by (simp add: solutions_def)
next
  fix \<beta>
  assume "\<beta> \<in> ?R"
  then obtain d where d: "d \<in> set ds" "datom_holds \<beta> s a ob d" "map_of b \<subseteq>\<^sub>m \<beta>"
    "dom \<beta> = dom (map_of b) \<union> bound_vars (Triple s a ob)"
    by (auto simp: solutions_def datom_holds_def)
  then have ex: "exact (d_value d)" using assms by (simp add: exact_data_def)
  with d obtain b' where b': "triple_match s a ob b d = Some b'"
    using triple_match_None [OF _ ex d(3)] by (cases "triple_match s a ob b d") auto
  note m = triple_match_Some [OF b' ex]
  have "map_of b' = \<beta>" using m(2) m(3) [OF d(3)] d(2,4) by (intro map_le_dom_eq) auto
  with b' d(1) show "\<beta> \<in> ?L" by (force simp: map_filter_set)
qed

lemma apply_triple_solutions:
  assumes "apply_triple ser l (new_index ser ds) s a ob b bg = Inr (rs, bg')" "exact_data ds"
  shows "map_of ` set rs = solutions ds (Triple s a ob) (map_of b)"
proof -
  have "rs = List.map_filter (triple_match s a ob b) ds"
    using triple_loop_Inr assms(1) index_complete [OF exact_faithful [OF assms(2)]]
    unfolding apply_triple_def by (metis append_Nil)
  then show ?thesis by (simp add: triple_solutions [OF assms(2)])
qed

lemma build_adjacency_entries:
  assumes "build_adjacency l a ds adj b = Inr (adj', b')"
  shows "set (entries adj' x) = set (entries adj x) \<union> {y. (x, y) \<in> edges ds a} \<and>
    work_limit b' = work_limit b \<and>
    (datoms_scanned b \<le> max_datoms_scanned l \<longrightarrow> datoms_scanned b' \<le> max_datoms_scanned l) \<and>
    (traversal_edges b \<le> max_traversal_edges l \<longrightarrow> traversal_edges b' \<le> max_traversal_edges l)"
  using assms
proof (induction ds arbitrary: adj b)
  case Nil
  then show ?case by (simp add: edges_def)
next
  case (Cons d ds)
  then obtain b1 where b1: "scan_datom l b = Inr b1" by (auto simp: bindR_Inr_iff)
  then have w: "work_limit b1 = work_limit b" "traversal_edges b1 = traversal_edges b"
    "datoms_scanned b1 \<le> max_datoms_scanned l"
    by (auto simp: scan_datom_def Let_def split: if_splits)
  show ?case
  proof (cases "d_attribute d = a \<and> as_str (d_value d) \<noteq> None")
    case False
    with Cons.prems b1 have "build_adjacency l a ds adj b1 = Inr (adj', b')"
      by (auto split: option.splits)
    moreover have "edges (d # ds) a = edges ds a" using False by (auto simp: edges_def)
    ultimately show ?thesis using Cons.IH w by simp
  next
    case True
    then obtain t where t: "d_attribute d = a" "d_value d = JStr t" by auto
    with Cons.prems b1 obtain b2 where b2: "traverse_edge l b1 = Inr b2"
      "build_adjacency l a ds (push_entry (d_subject d) t adj) b2 = Inr (adj', b')"
      by (auto simp: bindR_Inr_iff)
    then have w2: "work_limit b2 = work_limit b1" "datoms_scanned b2 = datoms_scanned b1"
      "traversal_edges b2 \<le> max_traversal_edges l"
      by (auto simp: traverse_edge_def Let_def split: if_splits)
    have "edges (d # ds) a = insert (d_subject d, t) (edges ds a)" using t by (auto simp: edges_def)
    with Cons.IH [OF b2(2)] w w2 show ?thesis by auto
  qed
qed

lemma edges_filter: "edges (filter (\<lambda>d. d_attribute d = a) ds) a = edges ds a"
  by (auto simp: edges_def)

lemma apply_reachable_order:
  assumes "apply_reachable l (new_index ser ds) x a y n b bg = Inr (rs, bg')"
  shows "\<exists>u order. resolve x b = Some (JStr u) \<and> distinct order \<and>
    set order = {v. v \<noteq> u \<and> (\<exists>m \<le> n. (u, v) \<in> edges ds a ^^ m)} \<and>
    rs = List.map_filter (\<lambda>v. unify y (JStr v) b) order"
proof -
  from assms obtain u adj b1 where u: "resolve x b = Some (JStr u)"
    and adj: "build_adjacency l a (filter (\<lambda>d. d_attribute d = a) ds) [] bg = Inr (adj, b1)"
    and search: "bfs adj (\<lambda>v. unify y (JStr v) b) (work_limit b1) n ([u], [(u, 0)], []) = Inr rs"
    by (auto simp: apply_reachable_def bindR_Inr_iff)
  have E: "adj_edges adj = edges ds a"
    using build_adjacency_entries [OF adj] by (auto simp: adj_edges_def edges_filter)
  have "bfs_inv adj n u (\<lambda>_. 0) (set [u]) [(u, 0)]" using bfs_inv_start by simp
  from bfs_visits [OF search this, unfolded E] obtain order where order: "distinct order"
    "set [u] \<inter> set order = {}" "set [u] \<union> set order = reach_within (edges ds a) n u"
    "rs = List.map_filter (\<lambda>v. unify y (JStr v) b) order"
    by (metis append_Nil)
  then have "set order = {v. v \<noteq> u \<and> (\<exists>m \<le> n. (u, v) \<in> edges ds a ^^ m)}"
    by (auto simp: reach_within_def)
  with u order(1,4) show ?thesis by blast
qed

lemma apply_reachable_solutions:
  assumes "apply_reachable l (new_index ser ds) x a y n b bg = Inr (rs, bg')"
  shows "map_of ` set rs = solutions ds (Reachable x a y n) (map_of b)"
    and "\<exists>u. resolve x b = Some (JStr u)"
proof -
  obtain u order where u: "resolve x b = Some (JStr u)"
    and visited: "set order = {v. v \<noteq> u \<and> v \<in> reach_within (edges ds a) n u}"
    and rs: "rs = List.map_filter (\<lambda>v. unify y (JStr v) b) order"
    using apply_reachable_order [OF assms] by (auto simp: reach_within_def)
  have ex: "exact (JStr v)" for v by simp
  show "\<exists>u. resolve x b = Some (JStr u)" using u by blast
  show "map_of ` set rs = solutions ds (Reachable x a y n) (map_of b)" (is "?L = ?R")
  proof (intro set_eqI iffI)
    fix \<beta>
    assume "\<beta> \<in> ?L"
    then obtain v b' where v: "v \<in> set order" "unify y (JStr v) b = Some b'" "\<beta> = map_of b'"
      by (auto simp: rs map_filter_set)
    note m = unify_Some [OF v(2) ex]
    have "term_holds \<beta> y (JStr v)" using m(3) [OF m(1)] v(3) by simp
    moreover have "value_of \<beta> x = Some (JStr u)"
      using u map_le_value_of [OF m(1)] v(3) by (simp add: resolve_value_of)
    ultimately have "sat ds (Reachable x a y n) \<beta>" using v(1) visited by auto
    with m(1,2) v(3) show "\<beta> \<in> ?R" by (simp add: solutions_def)
  next
    fix \<beta>
    assume "\<beta> \<in> ?R"
    then have le: "map_of b \<subseteq>\<^sub>m \<beta>" and dom: "dom \<beta> = dom (map_of b) \<union> term_vars y"
      and sat: "sat ds (Reachable x a y n) \<beta>" by (simp_all add: solutions_def)
    have "value_of \<beta> x = Some (JStr u)"
      using u map_le_value_of [OF le] by (simp add: resolve_value_of)
    with sat obtain v where v: "v \<noteq> u" "v \<in> reach_within (edges ds a) n u" "term_holds \<beta> y (JStr v)"
      by auto
    then obtain b' where b': "unify y (JStr v) b = Some b'"
      using unify_None [OF _ ex le] by (cases "unify y (JStr v) b") auto
    note m = unify_Some [OF b' ex]
    have "map_of b' = \<beta>" using m(2) m(3) [OF le] v(3) dom by (intro map_le_dom_eq) auto
    with b' v(1,2) visited show "\<beta> \<in> ?L" by (force simp: rs map_filter_set)
  qed
qed

section \<open>The planner\<close>

definition positive :: "clause \<Rightarrow> bool" where
  "positive c \<longleftrightarrow> \<not> is_nested c"

lemma sat_mono: "positive c \<Longrightarrow> \<beta> \<subseteq>\<^sub>m \<gamma> \<Longrightarrow> sat ds c \<beta> \<Longrightarrow> sat ds c \<gamma>"
  by (cases c) (auto simp: positive_def is_nested_def dest: map_le_term_holds map_le_value_of
      intro: map_le_term_holds)

lemma value_of_restrict: "term_vars t \<subseteq> D \<Longrightarrow> value_of (\<beta> |` D) t = value_of \<beta> t"
  by (auto simp: value_of_def term_vars_def split: query_term.splits)

lemma term_holds_restrict: "term_vars t \<subseteq> D \<Longrightarrow> term_holds (\<beta> |` D) t v \<longleftrightarrow> term_holds \<beta> t v"
  by (auto simp: term_holds_def term_vars_def split: query_term.splits)

definition needs :: "clause \<Rightarrow> string set" where
  "needs c =
     (case c of Reachable x _ _ _ \<Rightarrow> term_vars x | Compare _ x y \<Rightarrow> term_vars x \<union> term_vars y | _ \<Rightarrow> {})"

lemma sat_restrict:
  "positive c \<Longrightarrow> bound_vars c \<union> needs c \<subseteq> D \<Longrightarrow> sat ds c (\<beta> |` D) \<longleftrightarrow> sat ds c \<beta>"
  by (cases c) (auto simp: positive_def is_nested_def needs_def value_of_restrict term_holds_restrict)

lemma ready_needs:
  assumes "clause_ready b c nested"
  shows "needs c \<subseteq> dom (map_of b)"
  using assms by (cases c) (auto simp: clause_ready_def needs_def term_vars_def resolve_def
      split: query_term.splits)

lemma resolve_dom: "dom (map_of b) = dom (map_of b') \<Longrightarrow> resolve t b = None \<longleftrightarrow> resolve t b' = None"
  by (cases t) (simp_all add: resolve_def, metis domIff)

lemma clause_ready_dom:
  "dom (map_of b) = dom (map_of b') \<Longrightarrow> clause_ready b c nested \<longleftrightarrow> clause_ready b' c nested"
  using resolve_dom [of b b'] by (cases c) (simp_all add: clause_ready_def)

lemma positive_ready:
  assumes "apply_clause ser l ix c b bg = Inr r" "positive c"
  shows "clause_ready b c nested"
  using assms
  by (cases c) (auto simp: positive_def is_nested_def clause_ready_def apply_reachable_def bindR_Inr_iff)

lemma extend_all_Inr:
  assumes "extend_all f bs acc bg = Inr (rs, bg')"
  shows "\<exists>rss. rs = acc @ concat rss \<and> list_all2 (\<lambda>b r. \<exists>g g'. f b g = Inr (r, g')) bs rss"
  using assms
proof (induction bs arbitrary: acc bg)
  case Nil
  then show ?case by (intro exI [of _ "[]"]) simp
next
  case (Cons b bs)
  then obtain r g' where f: "f b bg = Inr (r, g')" and rest: "extend_all f bs (acc @ r) g' = Inr (rs, bg')"
    by (auto simp: bindR_Inr_iff Let_def split: if_splits)
  from Cons.IH [OF rest] obtain rss where
    "rs = (acc @ r) @ concat rss" "list_all2 (\<lambda>b r. \<exists>g g'. f b g = Inr (r, g')) bs rss" by blast
  with f show ?case by (intro exI [of _ "r # rss"]) auto
qed

text \<open>What the planner needs of the evaluation of single clauses.\<close>

definition computes :: "datom list \<Rightarrow> (clause \<Rightarrow> jmap \<Rightarrow> budget \<Rightarrow> unit evaluation) \<Rightarrow> clause \<Rightarrow> bool" where
  "computes ds f c \<longleftrightarrow>
     (\<forall>b bg rs bg'. f c b bg = Inr (rs, bg') \<longrightarrow>
        map_of ` set rs = solutions ds c (map_of b) \<and>
        (positive c \<longrightarrow> (\<forall>nested. clause_ready b c nested)))"

definition joint :: "datom list \<Rightarrow> clause list \<Rightarrow> assignment \<Rightarrow> assignment set" where
  "joint ds cs \<alpha> =
     {\<beta>. \<alpha> \<subseteq>\<^sub>m \<beta> \<and> dom \<beta> = dom \<alpha> \<union> scope cs \<and> (\<forall>c \<in> set cs. sat ds c \<beta>)}"

lemma extend_all_solutions:
  assumes "extend_all (f c) bs [] bg = Inr (rs, bg')" "computes ds f c"
  shows "map_of ` set rs = (\<Union>b \<in> set bs. solutions ds c (map_of b))"
proof -
  obtain rss where rs: "rs = concat rss" and all: "list_all2 (\<lambda>b r. \<exists>g g'. f c b g = Inr (r, g')) bs rss"
    using extend_all_Inr [OF assms(1)] by auto
  have sol: "map_of ` set r = solutions ds c (map_of b)" if "\<exists>g g'. f c b g = Inr (r, g')" for b r
    using that assms(2) unfolding computes_def by blast
  from all have "(\<Union>r \<in> set rss. map_of ` set r) = (\<Union>b \<in> set bs. solutions ds c (map_of b))"
    by (induction rule: list_all2_induct) (auto simp: sol)
  moreover have "map_of ` set rs = (\<Union>r \<in> set rss. map_of ` set r)" by (simp add: rs image_UN)
  ultimately show ?thesis by simp
qed

text \<open>One step of the planner keeps the joint solutions.\<close>

lemma joint_step_positive:
  assumes i: "i < length cs" and c: "c = cs ! i" "positive c" "bound_vars c \<union> needs c \<subseteq> dom \<alpha> \<union> bound_vars c"
  shows "joint ds cs \<alpha> = (\<Union>\<alpha>' \<in> solutions ds c \<alpha>. joint ds (remove_at i cs) \<alpha>')"
proof (intro set_eqI iffI)
  fix \<beta>
  assume b: "\<beta> \<in> joint ds cs \<alpha>"
  let ?D = "dom \<alpha> \<union> bound_vars c" and ?\<alpha> = "\<beta> |` (dom \<alpha> \<union> bound_vars c)"
  have sets: "set cs = insert c (set (remove_at i cs))" using set_remove_at [OF i] c(1) by simp
  have sub: "?D \<subseteq> dom \<beta>" using b sets by (auto simp: joint_def scope_def)
  have "dom ?\<alpha> = ?D" using sub by auto
  moreover have "\<alpha> \<subseteq>\<^sub>m ?\<alpha>" using b by (auto simp: joint_def map_le_def)
  moreover have "sat ds c ?\<alpha>" using sat_restrict [OF c(2,3)] b sets by (auto simp: joint_def)
  ultimately have "?\<alpha> \<in> solutions ds c \<alpha>" by (simp add: solutions_def)
  moreover have "\<beta> \<in> joint ds (remove_at i cs) ?\<alpha>"
    using b sets \<open>dom ?\<alpha> = ?D\<close> by (auto simp: joint_def scope_def map_le_def)
  ultimately show "\<beta> \<in> (\<Union>\<alpha>' \<in> solutions ds c \<alpha>. joint ds (remove_at i cs) \<alpha>')" by blast
next
  fix \<beta>
  assume "\<beta> \<in> (\<Union>\<alpha>' \<in> solutions ds c \<alpha>. joint ds (remove_at i cs) \<alpha>')"
  then obtain \<alpha>' where a: "\<alpha> \<subseteq>\<^sub>m \<alpha>'" "dom \<alpha>' = dom \<alpha> \<union> bound_vars c" "sat ds c \<alpha>'"
    and b: "\<alpha>' \<subseteq>\<^sub>m \<beta>" "dom \<beta> = dom \<alpha>' \<union> scope (remove_at i cs)" "\<forall>c \<in> set (remove_at i cs). sat ds c \<beta>"
    by (auto simp: joint_def solutions_def)
  have sets: "set cs = insert c (set (remove_at i cs))" using set_remove_at [OF i] c(1) by simp
  have "sat ds c \<beta>" using sat_mono [OF c(2) b(1) a(3)] .
  moreover have "\<alpha> \<subseteq>\<^sub>m \<beta>" using a(1) b(1) by (rule map_le_trans)
  ultimately show "\<beta> \<in> joint ds cs \<alpha>"
    using a(2) b(2,3) sets by (auto simp: joint_def scope_def)
qed

lemma joint_nested:
  assumes "list_all is_nested cs"
  shows "joint ds cs \<alpha> = {\<beta>. \<beta> = \<alpha> \<and> (\<forall>c \<in> set cs. sat ds c \<alpha>)}"
proof -
  have "bound_vars c = {}" if "c \<in> set cs" for c
    using assms that by (cases c) (auto simp: list_all_iff is_nested_def)
  then have "scope cs = {}" by (auto simp: scope_def)
  then show ?thesis
    by (auto simp: joint_def dest: map_le_dom_eq)
qed

lemma solutions_nested:
  assumes "is_nested c"
  shows "solutions ds c \<alpha> = (if sat ds c \<alpha> then {\<alpha>} else {})"
proof -
  have "bound_vars c = {}" using assms by (cases c) (simp_all add: is_nested_def)
  then have eq: "(\<alpha> \<subseteq>\<^sub>m \<beta> \<and> dom \<beta> = dom \<alpha> \<union> bound_vars c) \<longleftrightarrow> \<beta> = \<alpha>" for \<beta>
    using map_le_dom_eq [of \<alpha> \<beta>] by auto
  show ?thesis unfolding solutions_def conj_assoc [symmetric] eq by auto
qed

lemma joint_step_nested:
  assumes "list_all is_nested cs" "i < length cs"
  shows "joint ds cs \<alpha> = (\<Union>\<alpha>' \<in> solutions ds (cs ! i) \<alpha>. joint ds (remove_at i cs) \<alpha>')"
proof -
  have sets: "set cs = insert (cs ! i) (set (remove_at i cs))" using set_remove_at [OF assms(2)] .
  then have rest: "list_all is_nested (remove_at i cs)" using assms(1) by (auto simp: list_all_iff)
  have "is_nested (cs ! i)" using assms by (simp add: list_all_iff)
  note solutions_nested [OF this, of ds \<alpha>]
  then show ?thesis
    unfolding joint_nested [OF assms(1)] joint_nested [OF rest] using sets by auto
qed

lemma planned_loop_solutions:
  assumes "planned_loop f cs bs bg = Inr (rs, bg')"
    and "\<forall>c \<in> set cs. computes ds f c"
    and "\<forall>b \<in> set bs. dom (map_of b) = D"
  shows "map_of ` set rs = (\<Union>b \<in> set bs. joint ds cs (map_of b))"
  using assms
proof (induction f cs bs bg arbitrary: D rule: planned_loop.induct)
  case (1 f cs bs bg)
  show ?case
  proof (cases "cs = [] \<or> bs = []")
    case True
    have "joint ds [] \<alpha> = {\<alpha>}" for \<alpha>
      by (auto simp: joint_def scope_def dest: map_le_dom_eq)
    moreover have "rs = bs" using "1.prems"(1) True by (simp add: planned_loop.simps)
    ultimately show ?thesis using True by auto
  next
    case False
    let ?nested = "list_all is_nested cs"
    let ?pos = "position (\<lambda>c. \<forall>binding \<in> set bs. clause_ready binding c ?nested) cs"
    show ?thesis
    proof (cases ?pos)
      case None
      let ?c = "blocked_clause cs"
      have c: "?c \<in> set cs" using False by (intro blocked_clause_in) simp
      have "f ?c (hd bs) bg = Inr (rs, bg')"
        using "1.prems"(1) False None by (subst (asm) planned_loop.simps) simp
      then have ready: "positive ?c \<longrightarrow> clause_ready (hd bs) ?c ?nested"
        using "1.prems"(2) c unfolding computes_def by blast
      have unready: "\<not> (\<forall>binding \<in> set bs. clause_ready binding ?c ?nested)"
        using None c by (simp add: position_None)
      have uniform: "clause_ready binding ?c ?nested \<longleftrightarrow> clause_ready (hd bs) ?c ?nested"
        if "binding \<in> set bs" for binding
        using "1.prems"(3) that False by (intro clause_ready_dom) (simp add: hd_in_set)
      have "\<not> clause_ready (hd bs) ?c ?nested" using unready uniform by blast
      moreover have "positive ?c \<or> ?nested"
        by (auto simp: positive_def blocked_clause_def list_all_iff find_None_iff find_Some_iff
            split: option.split)
      moreover have "clause_ready (hd bs) ?c True" if "\<not> positive ?c"
        using that by (cases ?c) (simp_all add: positive_def is_nested_def clause_ready_def)
      ultimately show ?thesis using ready by auto
    next
      case (Some i)
      let ?c = "cs ! i"
      have i: "i < length cs" and rdy: "\<forall>binding \<in> set bs. clause_ready binding ?c ?nested"
        using position_Some [OF Some] by auto
      have comp: "computes ds f ?c" using "1.prems"(2) i by simp
      obtain acc bg1 where acc: "extend_all (f ?c) bs [] bg = Inr (acc, bg1)"
        and rest: "planned_loop f (remove_at i cs) acc bg1 = Inr (rs, bg')"
        using "1.prems"(1) False Some by (subst (asm) planned_loop.simps) (auto simp: bindR_Inr_iff)
      note sols = extend_all_solutions [OF acc comp]
      have "dom (map_of b) = D \<union> bound_vars ?c" if "b \<in> set acc" for b
      proof -
        have "map_of b \<in> (\<Union>b \<in> set bs. solutions ds ?c (map_of b))" using that sols by blast
        then show ?thesis using "1.prems"(3) by (auto simp: solutions_def)
      qed
      moreover have "\<forall>c \<in> set (remove_at i cs). computes ds f c"
        using "1.prems"(2) set_remove_at [OF i] by blast
      ultimately have ih: "map_of ` set rs = (\<Union>b \<in> set acc. joint ds (remove_at i cs) (map_of b))"
        by (intro "1.IH" [OF False refl Some acc refl rest, where D = "D \<union> bound_vars ?c"]) blast+
      have step: "joint ds cs (map_of b) =
          (\<Union>\<alpha>' \<in> solutions ds ?c (map_of b). joint ds (remove_at i cs) \<alpha>')" if "b \<in> set bs" for b
      proof (cases "positive ?c")
        case True
        have "needs ?c \<subseteq> dom (map_of b)" using rdy that by (intro ready_needs) blast
        then show ?thesis by (intro joint_step_positive [OF i refl True]) auto
      next
        case False
        then have "?nested" using rdy that
          by (cases ?c) (auto simp: positive_def is_nested_def clause_ready_def)
        then show ?thesis by (rule joint_step_nested [OF _ i])
      qed
      have "map_of ` set rs = (\<Union>\<alpha>' \<in> map_of ` set acc. joint ds (remove_at i cs) \<alpha>')"
        unfolding ih by simp
      also have "\<dots> = (\<Union>b \<in> set bs. joint ds cs (map_of b))"
        unfolding sols using step by simp
      finally show ?thesis .
    qed
  qed
qed

lemma joint_nonempty:
  assumes "map_of ` set inner = joint ds cs \<alpha>"
  shows "inner \<noteq> [] \<longleftrightarrow>
    (\<exists>\<gamma>. \<alpha> \<subseteq>\<^sub>m \<gamma> \<and> dom \<gamma> = dom \<alpha> \<union> \<Union> (bound_vars ` set cs) \<and> (\<forall>c \<in> set cs. sat ds c \<gamma>))"
proof -
  have "inner \<noteq> [] \<longleftrightarrow> map_of ` set inner \<noteq> {}" by simp
  then show ?thesis unfolding assms joint_def scope_def by blast
qed

lemma sat_not_exists: "sat ds (NotExists cs) \<beta> \<longleftrightarrow> \<not> sat ds (Exists cs) \<beta>"
  by (simp only: sat.simps)

lemma apply_clause_computes:
  assumes "exact_data ds"
  shows "computes ds (apply_clause ser l (new_index ser ds)) c"
proof (induction c)
  case (Triple s a ob)
  show ?case
    unfolding computes_def
    using apply_triple_solutions [OF _ assms] by (auto simp: clause_ready_def simp del: sat.simps)
next
  case (Compare op x y)
  show ?case
    unfolding computes_def
  proof (intro allI impI)
    fix b bg rs bg'
    assume "apply_clause ser l (new_index ser ds) (Compare op x y) b bg = Inr (rs, bg')"
    then obtain v w where vw: "resolve x b = Some v" "resolve y b = Some w"
      "rs = (if compare op v w then [b] else [])"
      by (auto simp: bindR_Inr_iff)
    have "solutions ds (Compare op x y) (map_of b) = (if compare op v w then {map_of b} else {})"
      using vw(1,2) by (auto simp: solutions_def resolve_value_of dest: map_le_dom_eq)
    with vw show "map_of ` set rs = solutions ds (Compare op x y) (map_of b) \<and>
        (positive (Compare op x y) \<longrightarrow> (\<forall>nested. clause_ready b (Compare op x y) nested))"
      by (simp add: clause_ready_def)
  qed
next
  case (Reachable x a y n)
  show ?case
    unfolding computes_def
    using apply_reachable_solutions by (fastforce simp: clause_ready_def simp del: sat.simps)
next
  case (Exists cs)
  have "map_of ` set rs = solutions ds (Exists cs) (map_of b)"
    if run: "apply_clause ser l (new_index ser ds) (Exists cs) b bg = Inr (rs, bg')" for b bg rs bg'
  proof -
    from run obtain inner bg1 where inner:
      "planned_loop (apply_clause ser l (new_index ser ds)) cs [b] bg = Inr (inner, bg1)"
      "rs = (if inner \<noteq> [] then [b] else [])"
      by (auto simp: bindR_Inr_iff)
    have "map_of ` set inner = joint ds cs (map_of b)"
      using planned_loop_solutions [OF inner(1), of ds "dom (map_of b)"] Exists by simp
    then have "inner \<noteq> [] \<longleftrightarrow> sat ds (Exists cs) (map_of b)"
      unfolding sat.simps by (rule joint_nonempty)
    with inner(2) show ?thesis
      by (simp add: solutions_nested is_nested_def del: sat.simps)
  qed
  then show ?case by (simp add: computes_def positive_def is_nested_def)
next
  case (NotExists cs)
  have "map_of ` set rs = solutions ds (NotExists cs) (map_of b)"
    if run: "apply_clause ser l (new_index ser ds) (NotExists cs) b bg = Inr (rs, bg')" for b bg rs bg'
  proof -
    from run obtain inner bg1 where inner:
      "planned_loop (apply_clause ser l (new_index ser ds)) cs [b] bg = Inr (inner, bg1)"
      "rs = (if inner = [] then [b] else [])"
      by (auto simp: bindR_Inr_iff)
    have "map_of ` set inner = joint ds cs (map_of b)"
      using planned_loop_solutions [OF inner(1), of ds "dom (map_of b)"] NotExists by simp
    then have "inner \<noteq> [] \<longleftrightarrow> sat ds (Exists cs) (map_of b)"
      unfolding sat.simps by (rule joint_nonempty)
    then have "inner = [] \<longleftrightarrow> sat ds (NotExists cs) (map_of b)"
      unfolding sat_not_exists by blast
    with inner(2) show ?thesis
      by (simp add: solutions_nested is_nested_def del: sat.simps)
  qed
  then show ?case by (simp add: computes_def positive_def is_nested_def)
qed

lemma apply_planned_solutions:
  assumes "exact_data ds" "apply_planned ser l (new_index ser ds) cs b bg = Inr (rs, bg')"
  shows "map_of ` set rs = joint ds cs (map_of b)"
  using planned_loop_solutions [OF assms(2) [unfolded apply_planned_def], of ds "dom (map_of b)"]
    apply_clause_computes [OF assms(1)] by simp

section \<open>Properties of the evaluator\<close>

definition demo_datom :: "string \<Rightarrow> string \<Rightarrow> json \<Rightarrow> datom" where
  "demo_datom s a v = \<lparr>d_origin_id = ''o'', d_subject = s, d_attribute = a, d_value = v,
     d_event_sequence = 1, d_event_id = ''e''\<rparr>"

definition demo_data :: "datom list" where
  "demo_data = [demo_datom ''a'' ''next'' (JStr ''b''), demo_datom ''b'' ''next'' (JStr ''c''),
     demo_datom ''c'' ''next'' (JStr ''a'')]"

lemma demo_data_exact: "exact_data demo_data"
  by (simp add: exact_data_def demo_data_def demo_datom_def)

text \<open>C2. A query means what it says, on data without arrays, objects and zero doubles among its values
  (\<open>exact_data\<close>): when the evaluation returns, the bindings of the planner, as assignments, are exactly
  those that extend the inputs by the variables of the clauses and satisfy every clause, nested and
  negated predicates included, in whatever order the clauses are written and executed. On other data
  the code's equality of values is coarser than the keys of its value index, and matches can be missed
  (\<open>index_misses_reordered_object\<close>).\<close>

theorem planned_is_declarative:
  assumes "exact_data ds" "apply_planned ser l (new_index ser ds) cs b bg = Inr (rs, bg')"
  shows "map_of ` set rs = {\<beta>. map_of b \<subseteq>\<^sub>m \<beta> \<and> dom \<beta> = dom (map_of b) \<union> scope cs \<and>
    (\<forall>c \<in> set cs. sat ds c \<beta>)}"
  using apply_planned_solutions [OF assms] by (simp add: joint_def)

definition demo_clauses :: "clause list" where
  "demo_clauses = [Compare ''='' (Variable ''?y'') (Value (JStr ''b'')),
     Triple (Variable ''?x'') (Value (JStr ''next'')) (Variable ''?y'')]"

lemma demo_sat_suc: "n < 100 \<Longrightarrow> sat_suc n = Suc n"
  by (simp add: sat_suc_def usize_max_def)

lemma demo_run:
  "\<exists>bg. apply_planned (\<lambda>v. []) demo_limits (new_index (\<lambda>v. []) demo_data) demo_clauses [] (new_budget 1000)
     = Inr ([[(''?x'', JStr ''a''), (''?y'', JStr ''b'')]], bg)"
proof -
  have cand: "entries (by_attribute (new_index (\<lambda>v. []) demo_data)) ''next'' = demo_data"
    by (simp add: demo_data_def demo_datom_def)
  show ?thesis
    apply (simp add: apply_planned_def demo_clauses_def planned_loop.simps is_nested_def clause_ready_def
        resolve_def remove_at_def apply_triple_def triple_candidates_def cand)
    apply (simp add: demo_data_def demo_datom_def triple_match_def unify_def scan_datom_def
        new_budget_def demo_sat_suc demo_limits_def compare_def compare_values_def cmp_of_def
        resolve_def planned_loop.simps Let_def is_nested_def clause_ready_def remove_at_def)
    done
qed

theorem planned_is_declarative_witness:
  "map_of ` {[(''?x'', JStr ''a''), (''?y'', JStr ''b'')]} = {\<beta>. map_of [] \<subseteq>\<^sub>m \<beta> \<and>
     dom \<beta> = dom (map_of ([] :: jmap)) \<union> scope demo_clauses \<and>
     (\<forall>c \<in> set demo_clauses. sat demo_data c \<beta>)}"
proof -
  obtain bg where run: "apply_planned (\<lambda>v. []) demo_limits (new_index (\<lambda>v. []) demo_data) demo_clauses []
      (new_budget 1000) = Inr ([[(''?x'', JStr ''a''), (''?y'', JStr ''b'')]], bg)"
    using demo_run by blast
  from planned_is_declarative [OF demo_data_exact run] show ?thesis by simp
qed

text \<open>C38. The index loses nothing when the serialization that keys it is faithful on the data
  (\<open>key_faithful\<close>: a value equal to that of a datom has the same serialization): on the candidates it
  proposes, a triple pattern matches the same datoms in the same order as on all datoms. The proviso
  fails for objects whose fields come in another order (\<open>index_misses_reordered_object\<close>); it holds on
  data without arrays, objects and zero doubles (\<open>exact_faithful\<close>).\<close>

theorem index_is_complete:
  assumes "key_faithful ser ds"
  shows "List.map_filter (triple_match s a ob b) (triple_candidates ser (new_index ser ds) s a ob b) =
    List.map_filter (triple_match s a ob b) ds"
  using assms by (rule index_complete)

theorem index_is_complete_witness:
  "List.map_filter (triple_match (Variable ''?x'') (Value (JStr ''next'')) (Value (JStr ''b'')) [])
     (triple_candidates (\<lambda>v. case v of JStr s \<Rightarrow> s | _ \<Rightarrow> []) (new_index (\<lambda>v. case v of JStr s \<Rightarrow> s | _ \<Rightarrow> []) demo_data)
        (Variable ''?x'') (Value (JStr ''next'')) (Value (JStr ''b'')) [])
   = [[(''?x'', JStr ''a'')]]"
proof -
  have "List.map_filter (triple_match (Variable ''?x'') (Value (JStr ''next'')) (Value (JStr ''b'')) [])
      demo_data = [[(''?x'', JStr ''a'')]]"
    by (simp add: demo_data_def demo_datom_def triple_match_def unify_def List.map_filter_simps)
  then show ?thesis using index_is_complete [OF exact_faithful [OF demo_data_exact]] by simp
qed

text \<open>C39. The proviso is needed: the code compares objects without regard to the order of their fields but
  keys its value index by their serialization. Whenever the serialization of two equal values differs,
  a pattern with the one does not find a datom with the other through the index, while the full scan
  does.\<close>

theorem index_misses_reordered_object:
  assumes "ser v \<noteq> ser w" "json_eq v w"
  shows "List.map_filter (triple_match (Variable ''?x'') (Value (JStr a)) (Value v) [])
      (triple_candidates ser (new_index ser [demo_datom n a w]) (Variable ''?x'') (Value (JStr a)) (Value v) [])
      = [] \<and>
    List.map_filter (triple_match (Variable ''?x'') (Value (JStr a)) (Value v) []) [demo_datom n a w]
      = [[(''?x'', JStr n)]]"
  using assms
  by (simp add: triple_candidates_def resolve_def demo_datom_def triple_match_def unify_def
      List.map_filter_simps eq_commute [of "ser w"])

definition demo_object :: "bool \<Rightarrow> json" where
  "demo_object swapped = JObj (if swapped then [(''b'', JNull), (''a'', JBool True)]
     else [(''a'', JBool True), (''b'', JNull)])"

theorem index_misses_reordered_object_witness:
  "triple_candidates (\<lambda>v. case v of JObj m \<Rightarrow> concat (obj_keys m) | _ \<Rightarrow> [])
     (new_index (\<lambda>v. case v of JObj m \<Rightarrow> concat (obj_keys m) | _ \<Rightarrow> [])
        [demo_datom ''n'' ''p'' (demo_object False)])
     (Variable ''?x'') (Value (JStr ''p'')) (Value (demo_object True)) [] = [] \<and>
   json_eq (demo_object True) (demo_object False)"
proof -
  have eq: "json_eq (demo_object True) (demo_object False)"
    by (simp add: demo_object_def json_eq.simps [of "JObj _"])
  moreover have "(case demo_object True of JObj m \<Rightarrow> concat (obj_keys m) | _ \<Rightarrow> [])
      \<noteq> (case demo_object False of JObj m \<Rightarrow> concat (obj_keys m) | _ \<Rightarrow> [])"
    by (simp add: demo_object_def)
  note index_misses_reordered_object [OF this eq, of "''p''" "''n''"]
  ultimately show ?thesis
    by (auto simp: triple_candidates_def resolve_def demo_datom_def demo_object_def)
qed

text \<open>C6. Reachability is bounded reachability: when the search returns, it has produced one result for
  every node, other than the start, that a path of at most the maximal depth reaches and the target
  pattern accepts, each node once.\<close>

theorem reachable_is_bounded_reachability:
  assumes "apply_reachable l (new_index ser ds) x a y n b bg = Inr (rs, bg')"
  shows "\<exists>u order. resolve x b = Some (JStr u) \<and> distinct order \<and>
    set order = {v. v \<noteq> u \<and> (\<exists>m \<le> n. (u, v) \<in> edges ds a ^^ m)} \<and>
    rs = List.map_filter (\<lambda>v. unify y (JStr v) b) order"
  using assms by (rule apply_reachable_order)

lemma demo_reach:
  "\<exists>bg. apply_reachable demo_limits (new_index (\<lambda>v. []) demo_data) (Value (JStr ''a'')) ''next''
     (Variable ''?y'') 2 [] (new_budget 1000) = Inr ([[(''?y'', JStr ''b'')], [(''?y'', JStr ''c'')]], bg)"
  by (simp add: apply_reachable_def resolve_def demo_data_def demo_datom_def scan_datom_def
      traverse_edge_def new_budget_def demo_sat_suc demo_limits_def unify_def push_entry_def
      entries_def)

theorem reachable_is_bounded_reachability_witness:
  "\<exists>order. distinct order \<and> [[(''?y'', JStr ''b'')], [(''?y'', JStr ''c'')]] =
     List.map_filter (\<lambda>v. unify (Variable ''?y'') (JStr v) []) order \<and>
     set order = {v. v \<noteq> ''a'' \<and> (\<exists>m \<le> 2. (''a'', v) \<in> edges demo_data ''next'' ^^ m)}"
proof -
  obtain bg where run: "apply_reachable demo_limits (new_index (\<lambda>v. []) demo_data) (Value (JStr ''a''))
      ''next'' (Variable ''?y'') 2 [] (new_budget 1000)
      = Inr ([[(''?y'', JStr ''b'')], [(''?y'', JStr ''c'')]], bg)"
    using demo_reach by blast
  from reachable_is_bounded_reachability [OF run] show ?thesis by (auto simp: resolve_def)
qed

end
