(* ===== verification/Query_Execute.thy ===== *)
theory Query_Execute
  imports Query_Semantics
begin

text \<open>
  \<^verbatim>\<open>execute\<close> of \<^verbatim>\<open>query/parts/06.rs\<close>: the planned evaluation, the removal of duplicate bindings, the
  cursor, the ordering, the uniqueness check of a page that is not the last, and the page itself.
  \<^verbatim>\<open>sort_by\<close> is modelled by a stable insertion sort; for a comparison that is a total preorder every
  stable sort has the same result, and the properties below ask for that. The main property is that
  following cursors visits every result exactly once (\<open>next_page_continues\<close>); the theorem after it
  shows the case that the uniqueness check of the code misses.
\<close>

section \<open>Ordering\<close>

fun reverse_ordering :: "ordering \<Rightarrow> ordering" where
  "reverse_ordering OLess = OGreater"
| "reverse_ordering OEqual = OEqual"
| "reverse_ordering OGreater = OLess"

definition term_key :: "query_term \<Rightarrow> jmap \<Rightarrow> json option" where
  "term_key t binding = resolve t binding"

fun order_cmp :: "order_term list \<Rightarrow> jmap \<Rightarrow> jmap \<Rightarrow> ordering" where
  "order_cmp [] left right = OEqual"
| "order_cmp (order # orders) left right =
     (case (term_key (order_key order) left, term_key (order_key order) right) of
        (Some x, Some y) \<Rightarrow>
          (let ord = (case compare_values x y of None \<Rightarrow> OEqual | Some r \<Rightarrow> r) in
           if ord \<noteq> OEqual then (if descending order then reverse_ordering ord else ord)
           else order_cmp orders left right)
      | _ \<Rightarrow> order_cmp orders left right)"

fun insert_by :: "('a \<Rightarrow> 'a \<Rightarrow> ordering) \<Rightarrow> 'a \<Rightarrow> 'a list \<Rightarrow> 'a list" where
  "insert_by cmp x [] = [x]"
| "insert_by cmp x (y # ys) = (if cmp y x = OLess then y # insert_by cmp x ys else x # y # ys)"

definition sort_by :: "('a \<Rightarrow> 'a \<Rightarrow> ordering) \<Rightarrow> 'a list \<Rightarrow> 'a list" where
  "sort_by cmp xs = foldr (insert_by cmp) xs []"

section \<open>Cursor\<close>

definition cursor_unbound :: "string \<Rightarrow> query_failure" where
  "cursor_unbound x =
     qfail ''query_cursor_unbound'' ''cursor ordering variable is not bound in the result''
       (JObj [(''variable'', JStr x)])"

definition cursor_mismatch :: "string \<Rightarrow> query_failure" where
  "cursor_mismatch x =
     qfail ''query_cursor_type_mismatch'' ''cursor value is not comparable with the ordered result value''
       (JObj [(''variable'', JStr x)])"

fun after_loop :: "jmap \<Rightarrow> order_term list \<Rightarrow> jmap \<Rightarrow> query_failure + bool" where
  "after_loop binding [] cursor = Inr False"
| "after_loop binding (order # orders) cursor =
     (case as_variable_name (order_key order) of
        None \<Rightarrow> Inl (invalid_cursor ''cursor ordering terms must be variables'' JNull)
      | Some x \<Rightarrow>
          (case (obj_get binding x, obj_get cursor x) of
             (Some v, Some previous) \<Rightarrow>
               (case compare_values v previous of
                  None \<Rightarrow> Inl (cursor_mismatch x)
                | Some OEqual \<Rightarrow> after_loop binding orders cursor
                | Some ord \<Rightarrow> Inr (if descending order then ord = OLess else ord = OGreater))
           | _ \<Rightarrow> Inl (cursor_unbound x)))"

definition after_cursor :: "jmap \<Rightarrow> order_term list \<Rightarrow> jmap \<Rightarrow> query_failure + bool" where
  "after_cursor binding order_by cursor =
     (if cursor = [] then Inr True else after_loop binding order_by cursor)"

fun retain_after :: "order_term list \<Rightarrow> jmap \<Rightarrow> jmap list \<Rightarrow> query_failure + jmap list" where
  "retain_after order_by cursor [] = Inr []"
| "retain_after order_by cursor (b # bs) =
     bindR (after_cursor b order_by cursor) (\<lambda>keep.
     bindR (retain_after order_by cursor bs) (\<lambda>rest. Inr (if keep then b # rest else rest)))"

section \<open>Execution\<close>

record query_result =
  r_bindings :: "jmap list"
  r_pulls :: "pull_spec list"
  r_order_by :: "order_term list"
  r_has_more :: bool

definition initial_binding :: "jmap \<Rightarrow> jmap" where
  "initial_binding inputs =
     fold (\<lambda>(key, v) binding.
       obj_insert (case variable_name key of Inr name \<Rightarrow> name | Inl _ \<Rightarrow> ''?'' @ key) v binding) inputs []"

fun dedupe :: "(json \<Rightarrow> string) \<Rightarrow> string list \<Rightarrow> jmap list \<Rightarrow> jmap list" where
  "dedupe ser seen [] = []"
| "dedupe ser seen (b # bs) =
     (if ser (JObj b) \<in> set seen then dedupe ser seen bs
      else b # dedupe ser (ser (JObj b) # seen) bs)"

definition check_bound :: "order_term list \<Rightarrow> jmap list \<Rightarrow> query_failure + unit" where
  "check_bound order_by bindings =
     (case find (\<lambda>(b, order). term_key (order_key order) b = None) (List.product bindings order_by) of
        Some (b, order) \<Rightarrow>
          Inl (qfail ''query_order_unbound'' ''order_by variable is not bound in every result''
            (JObj [(''term'', jopt_str (as_variable_name (order_key order)))]))
      | None \<Rightarrow> Inr ())"

definition same_keys :: "order_term list \<Rightarrow> jmap \<Rightarrow> jmap \<Rightarrow> bool" where
  "same_keys order_by left right \<longleftrightarrow>
     (\<forall>order \<in> set order_by.
        case (term_key (order_key order) left, term_key (order_key order) right) of
          (Some x, Some y) \<Rightarrow> json_eq x y
        | _ \<Rightarrow> False)"

fun duplicate_key :: "order_term list \<Rightarrow> jmap list \<Rightarrow> bool" where
  "duplicate_key order_by (b # c # bs) \<longleftrightarrow> same_keys order_by b c \<or> duplicate_key order_by (c # bs)"
| "duplicate_key order_by _ \<longleftrightarrow> False"

definition solve :: "(json \<Rightarrow> string) \<Rightarrow> query_spec \<Rightarrow> datom list \<Rightarrow> query_failure + jmap list" where
  "solve ser spec datoms =
     bindR (apply_planned ser (q_limits spec) (new_index ser datoms) (q_clauses spec)
              (initial_binding (q_inputs spec))
              (new_budget (max (max_datoms_scanned (q_limits spec)) 1000))) (\<lambda>(bindings, _).
     Inr (dedupe ser [] bindings))"

definition page :: "query_spec \<Rightarrow> jmap list \<Rightarrow> query_failure + query_result" where
  "page spec bindings =
     bindR (if q_cursor_values spec = [] then Inr bindings
            else retain_after (q_order_by spec) (q_cursor_values spec) bindings) (\<lambda>bindings.
     bindR (check_bound (q_order_by spec) bindings) (\<lambda>_.
     let ordered = sort_by (order_cmp (q_order_by spec)) bindings;
         has_more = q_limit spec < length ordered
     in bindR (refuse_if (has_more \<and> q_order_by spec \<noteq> [] \<and> duplicate_key (q_order_by spec) ordered)
          (qfail ''query_order_not_unique''
            ''order_by values must uniquely advance a paginated result'' JNull)) (\<lambda>_.
     Inr \<lparr>r_bindings = take (q_limit spec) ordered, r_pulls = q_pulls spec,
          r_order_by = q_order_by spec, r_has_more = has_more\<rparr>)))"

definition execute :: "(json \<Rightarrow> string) \<Rightarrow> query_spec \<Rightarrow> datom list \<Rightarrow> query_failure + query_result" where
  "execute ser spec datoms = bindR (solve ser spec datoms) (page spec)"

section \<open>Comparisons\<close>

datatype kind = KNum | KStr | KBool

definition kind_of :: "json \<Rightarrow> kind option" where
  "kind_of v = (case v of JNum _ \<Rightarrow> Some KNum | JStr _ \<Rightarrow> Some KStr | JBool _ \<Rightarrow> Some KBool | _ \<Rightarrow> None)"

lemma cmp_of_simps [simp]:
  "cmp_of x y = OLess \<longleftrightarrow> x < y" "cmp_of x y = OEqual \<longleftrightarrow> x = y" "cmp_of x y = OGreater \<longleftrightarrow> y < x"
  "cmp_of x x = OEqual"
  by (auto simp: cmp_of_def)

lemma cmp_of_reverse: "cmp_of y x = reverse_ordering (cmp_of x y)"
  by (auto simp: cmp_of_def)

lemma compare_values_kind:
  "kind_of v = Some k \<Longrightarrow> kind_of w = Some k \<Longrightarrow> \<exists>r. compare_values v w = Some r"
  by (auto simp: kind_of_def compare_values_def split: json.splits)

lemma compare_values_reverse: "compare_values w v = map_option reverse_ordering (compare_values v w)"
  by (auto simp: compare_values_def cmp_of_reverse [symmetric] split: json.splits)

lemma compare_values_equal:
  "compare_values u v = Some OEqual \<Longrightarrow> kind_of w = kind_of v \<Longrightarrow> compare_values u w = compare_values v w"
  by (auto simp: compare_values_def kind_of_def split: json.splits)

lemma compare_values_less:
  "compare_values u v = Some OLess \<Longrightarrow> compare_values v w = Some OLess \<Longrightarrow> compare_values u w = Some OLess"
  by (auto simp: compare_values_def split: json.splits)

definition key_kind :: "query_term \<Rightarrow> jmap \<Rightarrow> kind option" where
  "key_kind t r = Option.bind (term_key t r) kind_of"

text \<open>Every order key is bound in every row and has values of one comparable kind.\<close>

definition uniform :: "order_term list \<Rightarrow> jmap set \<Rightarrow> bool" where
  "uniform orders R \<longleftrightarrow>
     (\<forall>order \<in> set orders. \<exists>k. \<forall>r \<in> R. key_kind (order_key order) r = Some k)"

lemma uniform_Cons:
  "uniform (order # orders) R \<longleftrightarrow>
     (\<exists>k. \<forall>r \<in> R. key_kind (order_key order) r = Some k) \<and> uniform orders R"
  by (simp add: uniform_def)

lemma key_kind_Some:
  "key_kind t r = Some k \<longleftrightarrow> (\<exists>v. term_key t r = Some v \<and> kind_of v = Some k)"
  by (auto simp: key_kind_def bind_eq_Some_conv)

lemma reverse_reverse [simp]: "reverse_ordering (reverse_ordering r) = r"
  by (cases r) simp_all

lemma reverse_eq [simp]:
  "reverse_ordering r = OLess \<longleftrightarrow> r = OGreater" "reverse_ordering r = OEqual \<longleftrightarrow> r = OEqual"
  "reverse_ordering r = OGreater \<longleftrightarrow> r = OLess"
  by (cases r; simp)+

lemma order_cmp_reverse: "order_cmp orders b a = reverse_ordering (order_cmp orders a b)"
proof (induction orders)
  case Nil
  then show ?case by simp
next
  case (Cons order orders)
  show ?case
  proof (cases "term_key (order_key order) a"; cases "term_key (order_key order) b")
    fix x y
    assume "term_key (order_key order) a = Some x" "term_key (order_key order) b = Some y"
    with Cons show ?thesis
      using compare_values_reverse [of y x] by (cases "compare_values x y") (auto simp: Let_def)
  qed (use Cons in simp_all)
qed

text \<open>The comparison of two rows on the first key, and the lexicographic continuation.\<close>

lemma order_cmp_Cons:
  assumes "key_kind (order_key order) a = Some k" "key_kind (order_key order) b = Some k"
  obtains v w r where "term_key (order_key order) a = Some v" "term_key (order_key order) b = Some w"
    "kind_of v = Some k" "kind_of w = Some k" "compare_values v w = Some r"
    "order_cmp (order # orders) a b =
       (if r = OEqual then order_cmp orders a b
        else if descending order then reverse_ordering r else r)"
proof -
  from assms obtain v w where v: "term_key (order_key order) a = Some v" "kind_of v = Some k"
    and w: "term_key (order_key order) b = Some w" "kind_of w = Some k"
    by (auto simp: key_kind_Some)
  then obtain r where r: "compare_values v w = Some r" using compare_values_kind by blast
  show ?thesis by (rule that [OF v(1) w(1) v(2) w(2) r]) (simp add: v(1) w(1) r Let_def)
qed

lemma order_cmp_equal:
  assumes "uniform orders R" "a \<in> R" "b \<in> R" "c \<in> R" "order_cmp orders a b = OEqual"
  shows "order_cmp orders a c = order_cmp orders b c"
  using assms
proof (induction orders)
  case Nil
  then show ?case by simp
next
  case (Cons order orders)
  then obtain k where k: "\<And>r. r \<in> R \<Longrightarrow> key_kind (order_key order) r = Some k"
    and rest: "uniform orders R" by (auto simp: uniform_Cons)
  obtain u v r where uv: "term_key (order_key order) a = Some u" "term_key (order_key order) b = Some v"
    "kind_of u = Some k" "kind_of v = Some k" "compare_values u v = Some r"
    "order_cmp (order # orders) a b = (if r = OEqual then order_cmp orders a b
        else if descending order then reverse_ordering r else r)"
    by (rule order_cmp_Cons [OF k [OF Cons.prems(2)] k [OF Cons.prems(3)], of orders])
  then have r: "r = OEqual" "order_cmp orders a b = OEqual"
    using Cons.prems(5) by (auto split: if_splits)
  have ih: "order_cmp orders a c = order_cmp orders b c"
    using Cons.IH [OF rest Cons.prems(2,3,4) r(2)] .
  obtain w where w: "term_key (order_key order) c = Some w" "kind_of w = Some k"
    using k [OF Cons.prems(4)] by (auto simp: key_kind_Some)
  have "compare_values u w = compare_values v w"
    using uv(4,5) w(2) r(1) by (intro compare_values_equal) simp_all
  then show ?case using uv(1,2) w(1) ih by (simp add: Let_def)
qed

lemma order_cmp_less:
  assumes "uniform orders R" "a \<in> R" "b \<in> R" "c \<in> R"
    "order_cmp orders a b = OLess" "order_cmp orders b c = OLess"
  shows "order_cmp orders a c = OLess"
  using assms
proof (induction orders)
  case Nil
  then show ?case by simp
next
  case (Cons order orders)
  then obtain k where k: "\<And>r. r \<in> R \<Longrightarrow> key_kind (order_key order) r = Some k"
    and rest: "uniform orders R" by (auto simp: uniform_Cons)
  obtain u v r where uv: "term_key (order_key order) a = Some u" "term_key (order_key order) b = Some v"
    "kind_of u = Some k" "kind_of v = Some k" "compare_values u v = Some r"
    "order_cmp (order # orders) a b = (if r = OEqual then order_cmp orders a b
        else if descending order then reverse_ordering r else r)"
    by (rule order_cmp_Cons [OF k [OF Cons.prems(2)] k [OF Cons.prems(3)], of orders])
  obtain w s where vw: "term_key (order_key order) c = Some w" "kind_of w = Some k"
    "compare_values v w = Some s"
    "order_cmp (order # orders) b c = (if s = OEqual then order_cmp orders b c
        else if descending order then reverse_ordering s else s)"
    by (rule order_cmp_Cons [OF k [OF Cons.prems(3)] k [OF Cons.prems(4)], of orders])
       (simp add: uv(2))
  have ac: "order_cmp (order # orders) a c = (case compare_values u w of
      Some OEqual \<Rightarrow> order_cmp orders a c | Some t \<Rightarrow> if descending order then reverse_ordering t else t
      | None \<Rightarrow> order_cmp orders a c)"
    using uv(1) vw(1) by (auto simp: Let_def split: option.split ordering.split)
  show ?case
  proof (cases "r = OEqual")
    case True
    then have "compare_values u w = Some s"
      using uv(4,5) vw(2,3) compare_values_equal by simp
    then show ?thesis
      using Cons.IH [OF rest Cons.prems(2,3,4)] Cons.prems(5,6) uv(6) vw(4) True ac
      by (cases s) (auto split: if_splits)
  next
    case False
    show ?thesis
    proof (cases "s = OEqual")
      case True
      then have "compare_values w u = compare_values v u"
        using uv(3) vw(2,3) uv(4) compare_values_reverse [of w v] by (intro compare_values_equal) simp_all
      then have "compare_values u w = Some r"
        using uv(5) compare_values_reverse [of u w] compare_values_reverse [of u v] by simp
      then show ?thesis using Cons.prems(5) uv(6) False ac by (cases r) (auto split: if_splits)
    next
      case s: False
      show ?thesis
      proof (cases "descending order")
        case True
        then have "compare_values v u = Some OLess" "compare_values w v = Some OLess"
          using Cons.prems(5,6) uv(5,6) vw(3,4) False s compare_values_reverse [of v u]
            compare_values_reverse [of w v] by auto
        then have "compare_values w u = Some OLess" by (rule compare_values_less [rotated])
        then have "compare_values u w = Some OGreater" using compare_values_reverse [of u w] by simp
        with True ac show ?thesis by simp
      next
        case asc: False
        then have "compare_values u v = Some OLess" "compare_values v w = Some OLess"
          using Cons.prems(5,6) uv(5,6) vw(3,4) False s by auto
        then have "compare_values u w = Some OLess" by (rule compare_values_less)
        with asc ac show ?thesis by simp
      qed
    qed
  qed
qed

section \<open>Sorting\<close>

text \<open>The interface of the sort: on a set of keys that the comparison orders strictly, the result is
  strictly ascending, and it is the only strictly ascending list of those keys.\<close>

locale strict_comparison =
  fixes cmp :: "'a \<Rightarrow> 'a \<Rightarrow> ordering" and R :: "'a set"
  assumes less_trans: "a \<in> R \<Longrightarrow> b \<in> R \<Longrightarrow> c \<in> R \<Longrightarrow> cmp a b = OLess \<Longrightarrow> cmp b c = OLess \<Longrightarrow> cmp a c = OLess"
    and reverse: "a \<in> R \<Longrightarrow> b \<in> R \<Longrightarrow> cmp b a = reverse_ordering (cmp a b)"
    and strict: "a \<in> R \<Longrightarrow> b \<in> R \<Longrightarrow> a \<noteq> b \<Longrightarrow> cmp a b \<noteq> OEqual"
begin

abbreviation lt :: "'a \<Rightarrow> 'a \<Rightarrow> bool" where
  "lt a b \<equiv> cmp a b = OLess"

lemma lt_asym: "a \<in> R \<Longrightarrow> b \<in> R \<Longrightarrow> lt a b \<Longrightarrow> \<not> lt b a"
  using reverse [of a b] by simp

lemma lt_total: "a \<in> R \<Longrightarrow> b \<in> R \<Longrightarrow> a \<noteq> b \<Longrightarrow> lt a b \<or> lt b a"
  using strict [of a b] reverse [of a b] by (cases "cmp a b") auto

lemma set_insert_by [simp]: "set (insert_by cmp x ys) = insert x (set ys)"
  by (induction ys) auto

lemma sorted_insert_by:
  assumes "x \<in> R" "set ys \<subseteq> R" "x \<notin> set ys" "sorted_wrt lt ys"
  shows "sorted_wrt lt (insert_by cmp x ys)"
  using assms
proof (induction ys)
  case Nil
  then show ?case by simp
next
  case (Cons y ys)
  show ?case
  proof (cases "lt y x")
    case True
    with Cons show ?thesis by auto
  next
    case False
    then have xy: "lt x y" using Cons.prems lt_total [of x y] by auto
    have "lt x z" if "z \<in> set ys" for z
      using less_trans [of x y z] xy Cons.prems that by auto
    with xy False Cons.prems show ?thesis by auto
  qed
qed

lemma sort_by_sorted:
  assumes "set xs \<subseteq> R" "distinct xs"
  shows "sorted_wrt lt (sort_by cmp xs) \<and> set (sort_by cmp xs) = set xs"
  using assms by (induction xs) (auto simp: sort_by_def sorted_insert_by)

lemma sorted_unique:
  assumes "sorted_wrt lt xs" "sorted_wrt lt ys" "set xs = set ys" "set xs \<subseteq> R"
  shows "xs = ys"
  using assms
proof (induction xs arbitrary: ys)
  case Nil
  then show ?case by simp
next
  case (Cons x xs)
  then obtain y zs where ys: "ys = y # zs" by (cases ys) auto
  have R: "x \<in> R" "y \<in> R" using Cons.prems(3,4) ys by auto
  have "x = y"
  proof (rule ccontr)
    assume "x \<noteq> y"
    then have "x \<in> set zs" "y \<in> set xs" using Cons.prems(3) ys by auto
    then have "lt y x" "lt x y" using Cons.prems(1,2) ys by auto
    with lt_asym R show False by blast
  qed
  moreover have "x \<notin> set xs" "y \<notin> set zs"
    using Cons.prems(1,2) ys R lt_asym by auto
  ultimately have "set xs = set zs" using Cons.prems(3) ys by auto
  with Cons ys \<open>x = y\<close> show ?case by auto
qed

lemma sort_by_filter:
  assumes "set xs \<subseteq> R" "distinct xs"
  shows "sort_by cmp (filter P xs) = filter P (sort_by cmp xs)"
  using sort_by_sorted [OF assms] sort_by_sorted [of "filter P xs"] assms
  by (intro sorted_unique) (auto simp: sorted_wrt_filter)

lemma filter_after:
  assumes "sorted_wrt lt xs" "set xs \<subseteq> R" "m < length xs"
  shows "filter (lt (xs ! m)) xs = drop (Suc m) xs"
proof -
  let ?x = "xs ! m"
  have split: "xs = take m xs @ ?x # drop (Suc m) xs" using assms(3) by (rule id_take_nth_drop)
  then have sorted: "sorted_wrt lt (take m xs @ ?x # drop (Suc m) xs)" using assms(1) by simp
  have R: "set (take m xs) \<subseteq> R" "?x \<in> R"
    using assms(2,3) by (auto dest: in_set_takeD)
  have "\<not> lt ?x z" if "z \<in> set (take m xs)" for z
    using sorted that R lt_asym [of z ?x] by (auto simp: sorted_wrt_append)
  moreover have "\<not> lt ?x ?x" using lt_asym [of ?x ?x] R by blast
  moreover have "lt ?x z" if "z \<in> set (drop (Suc m) xs)" for z
    using sorted that by (auto simp: sorted_wrt_append)
  ultimately have "filter (lt ?x) (take m xs @ ?x # drop (Suc m) xs) = drop (Suc m) xs"
    by (simp add: filter_False)
  with split show ?thesis by simp
qed

end

definition distinguished :: "order_term list \<Rightarrow> jmap set \<Rightarrow> bool" where
  "distinguished orders R \<longleftrightarrow>
     uniform orders R \<and> (\<forall>a \<in> R. \<forall>b \<in> R. a \<noteq> b \<longrightarrow> order_cmp orders a b \<noteq> OEqual)"

text \<open>The rows of a query whose order keys distinguish them are such a set; the comparison of rows is
  the code's, and where it does not distinguish them it is taken on the empty set.\<close>

interpretation row_order: strict_comparison "order_cmp orders"
  "if distinguished orders R then R else {}" for orders R
proof unfold_locales
  fix a b c
  assume "a \<in> (if distinguished orders R then R else {})"
    "b \<in> (if distinguished orders R then R else {})" "c \<in> (if distinguished orders R then R else {})"
    "order_cmp orders a b = OLess" "order_cmp orders b c = OLess"
  then show "order_cmp orders a c = OLess"
    by (auto simp: distinguished_def intro: order_cmp_less split: if_splits)
qed (auto simp: distinguished_def intro: order_cmp_reverse split: if_splits)

section \<open>The cursor\<close>

lemma after_loop_order:
  assumes "uniform orders R" "r \<in> R" "last_row \<in> R"
    and "\<forall>order \<in> set orders. \<exists>x. order_key order = Variable x \<and> obj_get cursor x = obj_get last_row x"
  shows "after_loop r orders cursor = Inr (order_cmp orders last_row r = OLess)"
  using assms
proof (induction orders)
  case Nil
  then show ?case by simp
next
  case (Cons order orders)
  then obtain k where k: "\<And>r. r \<in> R \<Longrightarrow> key_kind (order_key order) r = Some k"
    and rest: "uniform orders R" by (auto simp: uniform_Cons)
  obtain x where x: "order_key order = Variable x" "obj_get cursor x = obj_get last_row x"
    using Cons.prems(4) by auto
  obtain p v t where pv: "term_key (order_key order) last_row = Some p"
    "term_key (order_key order) r = Some v" "compare_values p v = Some t"
    "order_cmp (order # orders) last_row r = (if t = OEqual then order_cmp orders last_row r
        else if descending order then reverse_ordering t else t)"
    by (rule order_cmp_Cons [OF k [OF Cons.prems(3)] k [OF Cons.prems(2)], of orders])
  have vp: "compare_values v p = Some (reverse_ordering t)"
    using pv(3) compare_values_reverse [of v p] by simp
  have get: "obj_get r x = Some v" "obj_get cursor x = Some p"
    using pv(1,2) x by (simp_all add: term_key_def resolve_def)
  have ih: "after_loop r orders cursor = Inr (order_cmp orders last_row r = OLess)"
    using Cons.IH [OF rest Cons.prems(2,3)] Cons.prems(4) by simp
  show ?case
    using get vp pv(4) ih x(1) by (cases t) (simp_all add: as_variable_name_def)
qed

lemma retain_after_filter:
  assumes "\<And>b. b \<in> set bs \<Longrightarrow> after_cursor b orders cursor = Inr (P b)"
  shows "retain_after orders cursor bs = Inr (filter P bs)"
  using assms by (induction bs) auto

lemma check_bound_uniform:
  assumes "uniform orders (set bs)"
  shows "check_bound orders bs = Inr ()"
proof -
  have "\<not> (\<exists>p. p \<in> set (List.product bs orders) \<and> (case p of (b, order) \<Rightarrow> term_key (order_key order) b = None))"
    using assms unfolding uniform_def by (fastforce simp: key_kind_Some)
  then have "find (\<lambda>(b, order). term_key (order_key order) b = None) (List.product bs orders) = None"
    by (simp add: find_None_iff)
  then show ?thesis by (simp add: check_bound_def)
qed

lemma json_eq_compare: "json_eq v w \<Longrightarrow> compare_values v w \<in> {None, Some OEqual}"
  using json_eq_scalar [of v w]
  by (cases v) (auto simp: compare_values_def dest: num_eq_as_f64 split: json.splits)

lemma same_keys_order: "same_keys orders a b \<Longrightarrow> order_cmp orders a b = OEqual"
proof (induction orders)
  case Nil
  then show ?case by simp
next
  case (Cons order orders)
  then obtain v w where "term_key (order_key order) a = Some v" "term_key (order_key order) b = Some w"
    "json_eq v w" "same_keys orders a b"
    by (auto simp: same_keys_def split: option.splits)
  with Cons.IH json_eq_compare [of v w] show ?case by (auto simp: Let_def split: option.split)
qed

lemma duplicate_key_sorted:
  "sorted_wrt (\<lambda>a b. order_cmp orders a b = OLess) bs \<Longrightarrow> \<not> duplicate_key orders bs"
  by (induction orders bs rule: duplicate_key.induct) (auto dest: same_keys_order)

section \<open>Pages\<close>

lemma dedupe_unseen: "b \<in> set (dedupe ser seen bs) \<Longrightarrow> ser (JObj b) \<notin> set seen"
proof (induction bs arbitrary: seen)
  case Nil
  then show ?case by simp
next
  case (Cons c bs)
  from Cons.prems Cons.IH [of seen] Cons.IH [of "ser (JObj c) # seen"] show ?case
    by (cases "ser (JObj c) \<in> set seen"; cases "b = c") simp_all
qed

lemma dedupe_subset: "set (dedupe ser seen bs) \<subseteq> set bs"
  by (induction bs arbitrary: seen) (simp_all add: le_supI2 subset_insertI2)

lemma dedupe_distinct: "distinct (dedupe ser seen bs)"
proof (induction bs arbitrary: seen)
  case Nil
  then show ?case by simp
next
  case (Cons c bs)
  have "c \<notin> set (dedupe ser (ser (JObj c) # seen) bs)"
    using dedupe_unseen [of c ser "ser (JObj c) # seen" bs] by auto
  with Cons.IH show ?case by simp
qed

lemma dedupe_complete:
  assumes "inj ser"
  shows "set (dedupe ser seen bs) = {b \<in> set bs. ser (JObj b) \<notin> set seen}"
proof (induction bs arbitrary: seen)
  case Nil
  then show ?case by simp
next
  case (Cons b bs)
  have same: "ser (JObj x) = ser (JObj b) \<longleftrightarrow> x = b" for x
    using assms by (auto dest: injD)
  show ?case
    by (cases "ser (JObj b) \<in> set seen") (auto simp: Cons.IH same)
qed

lemma sort_by_set: "set (sort_by cmp xs) = set xs \<and> length (sort_by cmp xs) = length xs"
proof -
  have "set (insert_by cmp x ys) = insert x (set ys) \<and> length (insert_by cmp x ys) = Suc (length ys)"
    for x ys by (induction ys) auto
  then show ?thesis by (induction xs) (auto simp: sort_by_def)
qed

text \<open>The position a cursor stands for: the start, or the row whose order values it carries.\<close>

definition cursor_at :: "query_spec \<Rightarrow> jmap list \<Rightarrow> nat \<Rightarrow> bool" where
  "cursor_at spec rows m \<longleftrightarrow>
     (if m = 0 then q_cursor_values spec = []
      else m \<le> length rows \<and> q_cursor_values spec \<noteq> [] \<and>
        (\<forall>order \<in> set (q_order_by spec). \<exists>x. order_key order = Variable x \<and>
           obj_get (q_cursor_values spec) x = obj_get (rows ! (m - 1)) x))"

lemma page_at:
  assumes D: "distinguished (q_order_by spec) (set D)" "distinct D"
    and pos: "cursor_at spec (sort_by (order_cmp (q_order_by spec)) D) m"
  defines "rows \<equiv> sort_by (order_cmp (q_order_by spec)) D"
  shows "page spec D = Inr \<lparr>r_bindings = take (q_limit spec) (drop m rows), r_pulls = q_pulls spec,
    r_order_by = q_order_by spec, r_has_more = (m + q_limit spec < length rows)\<rparr>"
proof -
  let ?os = "q_order_by spec" and ?lt = "\<lambda>a b. order_cmp (q_order_by spec) a b = OLess"
  let ?R = "set D"
  have uni: "uniform ?os ?R" using D(1) by (simp add: distinguished_def)
  have rel: "(if distinguished ?os ?R then ?R else {}) = ?R" using D(1) by simp
  note sorted = row_order.sort_by_sorted [where xs = D and orders = ?os and R = ?R, unfolded rel, OF order_refl D(2)]
  define kept where "kept = (if m = 0 then D else filter (?lt (rows ! (m - 1))) D)"
  have retained: "(if q_cursor_values spec = [] then Inr D
      else retain_after ?os (q_cursor_values spec) D) = Inr kept"
  proof (cases "m = 0")
    case True
    with pos show ?thesis by (simp add: cursor_at_def kept_def)
  next
    case False
    then have m: "m - 1 < length rows" "q_cursor_values spec \<noteq> []"
      "\<forall>order \<in> set ?os. \<exists>x. order_key order = Variable x \<and>
         obj_get (q_cursor_values spec) x = obj_get (rows ! (m - 1)) x"
      using pos by (auto simp: cursor_at_def rows_def)
    have "rows ! (m - 1) \<in> ?R" using nth_mem [OF m(1)] sorted by (simp add: rows_def)
    then have "retain_after ?os (q_cursor_values spec) D = Inr (filter (?lt (rows ! (m - 1))) D)"
      using m(2,3) after_loop_order [OF uni] by (intro retain_after_filter) (simp add: after_cursor_def)
    with False m(2) show ?thesis by (simp add: kept_def)
  qed
  have ordered: "sort_by (order_cmp ?os) kept = drop m rows"
  proof (cases "m = 0")
    case True
    then show ?thesis by (simp add: kept_def rows_def)
  next
    case False
    then have m: "m - 1 < length rows" using pos by (auto simp: cursor_at_def rows_def)
    have "sort_by (order_cmp ?os) (filter (?lt (rows ! (m - 1))) D) = filter (?lt (rows ! (m - 1))) rows"
      unfolding rows_def
      by (rule row_order.sort_by_filter [where xs = D and orders = ?os and R = ?R, unfolded rel, OF order_refl D(2)])
    also have "\<dots> = drop (Suc (m - 1)) rows"
      using sorted m
      by (intro row_order.filter_after [where orders = ?os and R = ?R, unfolded rel]) (simp_all add: rows_def)
    finally show ?thesis using False by (simp add: kept_def)
  qed
  have "set kept \<subseteq> ?R" by (auto simp: kept_def)
  then have bound: "check_bound ?os kept = Inr ()"
    using uni by (intro check_bound_uniform) (meson subsetD uniform_def)
  have "sorted_wrt ?lt (drop m rows)" using sorted by (simp add: rows_def sorted_wrt_drop)
  then have unique: "\<not> duplicate_key ?os (drop m rows)" by (rule duplicate_key_sorted)
  show ?thesis
    unfolding page_def retained bindR_simps bound Let_def ordered
    using unique by (auto simp: less_diff_conv add.commute)
qed

text \<open>C3. Keyset pagination is exact on rows that the order keys distinguish (\<open>distinguished\<close>: the keys of
  one order term are of one kind in all rows, and no two rows compare as equal): the rows of all pages
  are the rows of the query in one strictly ascending list, and the page after a cursor that stands at
  the m-th row is the next segment of that list, so nothing is skipped, nothing repeated, and
  \<^verbatim>\<open>has_more\<close> is true just when rows are left. Where two rows compare as equal a row can be skipped
  (\<open>pages_skip_equal_numbers\<close>).\<close>

theorem next_page_continues:
  assumes "solve ser spec ds = Inr D" "distinguished (q_order_by spec) (set D)"
    and "cursor_at spec (sort_by (order_cmp (q_order_by spec)) D) m"
  shows "sorted_wrt (\<lambda>a b. order_cmp (q_order_by spec) a b = OLess) (sort_by (order_cmp (q_order_by spec)) D)
    \<and> set (sort_by (order_cmp (q_order_by spec)) D) = set D
    \<and> execute ser spec ds = Inr \<lparr>
        r_bindings = take (q_limit spec) (drop m (sort_by (order_cmp (q_order_by spec)) D)),
        r_pulls = q_pulls spec, r_order_by = q_order_by spec,
        r_has_more = (m + q_limit spec < length D)\<rparr>"
proof -
  have "distinct D" using assms(1) dedupe_distinct by (auto simp: solve_def bindR_Inr_iff)
  have rel: "(if distinguished (q_order_by spec) (set D) then set D else {}) = set D"
    using assms(2) by simp
  show ?thesis
    using row_order.sort_by_sorted [where xs = D and orders = "q_order_by spec" and R = "set D", unfolded rel, OF order_refl \<open>distinct D\<close>]
      page_at [OF assms(2) \<open>distinct D\<close> assms(3)] sort_by_set [of "order_cmp (q_order_by spec)" D] assms(1)
    by (simp add: execute_def)
qed

definition demo_spec :: "nat \<Rightarrow> jmap \<Rightarrow> query_spec" where
  "demo_spec n cur = \<lparr>q_inputs = [], q_finds = [Variable ''?x''], q_pulls = [],
     q_clauses = [Triple (Variable ''?x'') (Value (JStr ''score'')) (Variable ''?v'')],
     q_order_by = [\<lparr>order_key = Variable ''?v'', descending = False\<rparr>], q_limit = n,
     q_cursor_values = cur, q_limits = demo_limits\<rparr>"

definition demo_scores :: "json \<Rightarrow> json \<Rightarrow> datom list" where
  "demo_scores v w = [demo_datom ''a'' ''score'' v, demo_datom ''b'' ''score'' w]"

definition demo_row :: "string \<Rightarrow> json \<Rightarrow> jmap" where
  "demo_row n v = [(''?x'', JStr n), (''?v'', v)]"

definition demo_ser :: "json \<Rightarrow> string" where
  "demo_ser v = (case v of JObj m \<Rightarrow> concat (map (\<lambda>p. case snd p of JStr s \<Rightarrow> s | _ \<Rightarrow> []) m) | _ \<Rightarrow> [])"

lemma demo_solve: "solve demo_ser (demo_spec n cur) (demo_scores v w) = Inr [demo_row ''a'' v, demo_row ''b'' w]"
proof -
  have cand: "entries (by_attribute (new_index demo_ser (demo_scores v w))) ''score'' = demo_scores v w"
    by (simp add: demo_scores_def demo_datom_def)
  show ?thesis
    apply (simp add: solve_def demo_spec_def initial_binding_def apply_planned_def planned_loop.simps
        is_nested_def clause_ready_def remove_at_def apply_triple_def triple_candidates_def resolve_def cand)
    apply (simp add: demo_scores_def demo_datom_def triple_match_def unify_def scan_datom_def
        new_budget_def demo_sat_suc demo_limits_def planned_loop.simps demo_row_def demo_ser_def)
    done
qed

lemma compare_values_refl: "compare_values v v = None \<or> compare_values v v = Some OEqual"
  by (auto simp: compare_values_def split: json.split)

lemma demo_order:
  "order_cmp (q_order_by (demo_spec n cur)) (demo_row i v) (demo_row j w) =
     (case compare_values v w of None \<Rightarrow> OEqual | Some r \<Rightarrow> r)"
  by (simp add: demo_spec_def term_key_def resolve_def demo_row_def Let_def)

theorem next_page_continues_witness:
  "execute demo_ser (demo_spec 1 [(''?v'', JStr ''1'')]) (demo_scores (JStr ''2'') (JStr ''1'')) = Inr \<lparr>
     r_bindings = [demo_row ''a'' (JStr ''2'')], r_pulls = [],
     r_order_by = q_order_by (demo_spec 1 []), r_has_more = False\<rparr>"
proof -
  let ?spec = "demo_spec 1 [(''?v'', JStr ''1'')]"
  let ?D = "[demo_row ''a'' (JStr ''2''), demo_row ''b'' (JStr ''1'')]"
  have cmp: "compare_values (JStr s) (JStr t) = Some (cmp_of s t)" for s t
    by (simp add: compare_values_def)
  have rows: "sort_by (order_cmp (q_order_by ?spec)) ?D = rev ?D"
    by (simp add: sort_by_def demo_order cmp cmp_of_def)
  have "uniform (q_order_by ?spec) (set ?D)"
    by (simp add: uniform_def demo_spec_def key_kind_def term_key_def resolve_def demo_row_def kind_of_def)
  then have dist: "distinguished (q_order_by ?spec) (set ?D)"
    by (simp add: distinguished_def demo_order cmp cmp_of_def)
  have "cursor_at ?spec (rev ?D) 1"
    by (simp add: cursor_at_def demo_spec_def demo_row_def)
  then have "cursor_at ?spec (sort_by (order_cmp (q_order_by ?spec)) ?D) 1"
    by (simp only: rows)
  from next_page_continues [OF demo_solve dist this] have
    "execute demo_ser ?spec (demo_scores (JStr ''2'') (JStr ''1'')) = Inr \<lparr>
        r_bindings = take (q_limit ?spec) (drop 1 (rev ?D)),
        r_pulls = q_pulls ?spec, r_order_by = q_order_by ?spec,
        r_has_more = (1 + q_limit ?spec < length ?D)\<rparr>"
    by (simp only: rows)
  then show ?thesis by (simp add: demo_spec_def)
qed

text \<open>The uniqueness check of the code compares order keys by JSON equality, the cursor by numeric
  value. Two keys that are numerically equal but not equal as JSON pass the check on the first page,
  and the second page is empty: the other row is never delivered.\<close>

theorem pages_skip_equal_numbers:
  assumes "compare_values v w = Some OEqual" "\<not> json_eq v w"
  shows "execute demo_ser (demo_spec 1 []) (demo_scores v w) = Inr \<lparr>
      r_bindings = [demo_row ''a'' v], r_pulls = [], r_order_by = q_order_by (demo_spec 1 []),
      r_has_more = True\<rparr> \<and>
    execute demo_ser (demo_spec 1 [(''?v'', v)]) (demo_scores v w) = Inr \<lparr>
      r_bindings = [], r_pulls = [], r_order_by = q_order_by (demo_spec 1 []), r_has_more = False\<rparr>"
proof
  let ?D = "[demo_row ''a'' v, demo_row ''b'' w]" and ?os = "q_order_by (demo_spec 1 [])"
  have os: "q_order_by (demo_spec n cur) = ?os" for n cur by (simp add: demo_spec_def)
  have refl: "compare_values v v = Some OEqual"
    using assms(1) by (auto simp: compare_values_def split: json.splits)
  have eq': "compare_values w v = Some OEqual"
    using assms(1) compare_values_reverse [of w v] by simp
  have rows: "sort_by (order_cmp ?os) ?D = ?D"
    by (simp add: sort_by_def demo_order eq')
  have bound: "check_bound ?os ?D = Inr ()" "check_bound ?os [] = Inr ()"
    by (simp_all add: check_bound_def demo_spec_def term_key_def resolve_def demo_row_def)
  have unique: "\<not> duplicate_key ?os ?D"
    using assms(2) by (simp add: same_keys_def demo_spec_def term_key_def resolve_def demo_row_def)
  show "execute demo_ser (demo_spec 1 []) (demo_scores v w) = Inr \<lparr>
      r_bindings = [demo_row ''a'' v], r_pulls = [], r_order_by = ?os, r_has_more = True\<rparr>"
    unfolding execute_def demo_solve bindR_simps page_def
    using rows bound unique by (simp add: demo_spec_def)
  have "retain_after ?os [(''?v'', v)] ?D = Inr []"
    using refl eq'
    by (simp add: after_cursor_def demo_spec_def as_variable_name_def demo_row_def)
  then show "execute demo_ser (demo_spec 1 [(''?v'', v)]) (demo_scores v w) = Inr \<lparr>
      r_bindings = [], r_pulls = [], r_order_by = ?os, r_has_more = False\<rparr>"
    unfolding execute_def demo_solve bindR_simps page_def os [of 1 "[(''?v'', v)]"]
    using bound by (simp add: demo_spec_def sort_by_def)
qed

theorem pages_skip_equal_numbers_witness:
  "execute demo_ser (demo_spec 1 []) (demo_scores (JNum (PosInt 1)) (JNum (Float (FFin 1)))) = Inr \<lparr>
      r_bindings = [demo_row ''a'' (JNum (PosInt 1))], r_pulls = [],
      r_order_by = q_order_by (demo_spec 1 []), r_has_more = True\<rparr> \<and>
   execute demo_ser (demo_spec 1 [(''?v'', JNum (PosInt 1))])
      (demo_scores (JNum (PosInt 1)) (JNum (Float (FFin 1)))) = Inr \<lparr>
      r_bindings = [], r_pulls = [], r_order_by = q_order_by (demo_spec 1 []), r_has_more = False\<rparr>"
  by (rule pages_skip_equal_numbers)
     (simp_all add: compare_values_def as_f64_def round53_def f64_val_def)

lemma sort_by_distinct: "distinct xs \<Longrightarrow> distinct (sort_by cmp xs)"
  by (intro card_distinct) (simp add: sort_by_set distinct_card)

lemma retain_after_subset: "retain_after os cur bs = Inr bs' \<Longrightarrow> set bs' \<subseteq> set bs"
  by (induction bs arbitrary: bs') (fastforce simp: bindR_Inr_iff split: if_splits)+

lemma retain_after_distinct: "retain_after os cur bs = Inr bs' \<Longrightarrow> distinct bs \<Longrightarrow> distinct bs'"
  by (induction bs arbitrary: bs')
    (auto simp: bindR_Inr_iff dest: retain_after_subset [THEN subsetD] split: if_splits)

text \<open>C26. Every page is sound, on data without arrays, objects and zero doubles among its values
  (\<open>exact_data\<close>; on other data the value index can miss matches): it has at most \<^verbatim>\<open>limit\<close> rows, no row
  twice, and each row extends the inputs and satisfies every clause of the query. A page without a
  cursor that leaves no rows has all solutions, when rows that differ have different serializations,
  by which the code removes duplicates.\<close>

theorem page_is_sound:
  assumes "exact_data ds" "execute ser spec ds = Inr p"
  shows "length (r_bindings p) \<le> q_limit spec \<and> distinct (r_bindings p) \<and>
    map_of ` set (r_bindings p) \<subseteq> joint ds (q_clauses spec) (map_of (initial_binding (q_inputs spec))) \<and>
    (inj ser \<longrightarrow> q_cursor_values spec = [] \<longrightarrow> \<not> r_has_more p \<longrightarrow>
       map_of ` set (r_bindings p) = joint ds (q_clauses spec) (map_of (initial_binding (q_inputs spec))))"
proof -
  let ?J = "joint ds (q_clauses spec) (map_of (initial_binding (q_inputs spec)))"
  from assms(2) obtain bs bg where planned: "apply_planned ser (q_limits spec) (new_index ser ds)
      (q_clauses spec) (initial_binding (q_inputs spec))
      (new_budget (max (max_datoms_scanned (q_limits spec)) 1000)) = Inr (bs, bg)"
    and pg: "page spec (dedupe ser [] bs) = Inr p"
    by (auto simp: execute_def solve_def bindR_Inr_iff)
  note sols = apply_planned_solutions [OF assms(1) planned]
  let ?D = "dedupe ser [] bs"
  obtain kept where kept: "(if q_cursor_values spec = [] then Inr ?D
      else retain_after (q_order_by spec) (q_cursor_values spec) ?D) = Inr kept"
    and result: "\<lparr>r_bindings = take (q_limit spec) (sort_by (order_cmp (q_order_by spec)) kept),
        r_pulls = q_pulls spec, r_order_by = q_order_by spec,
        r_has_more = q_limit spec < length (sort_by (order_cmp (q_order_by spec)) kept)\<rparr> = p"
    using pg unfolding page_def bindR_Inr_iff Let_def by (elim exE conjE) simp
  have p: "r_bindings p = take (q_limit spec) (sort_by (order_cmp (q_order_by spec)) kept)"
    "r_has_more p = (q_limit spec < length (sort_by (order_cmp (q_order_by spec)) kept))"
    unfolding result [symmetric] by simp_all
  have "set kept \<subseteq> set ?D"
    using kept retain_after_subset by (cases "q_cursor_values spec = []") auto
  have "distinct kept"
    using kept dedupe_distinct [of ser "[]" bs] retain_after_distinct
    by (cases "q_cursor_values spec = []") auto
  then have distinct: "distinct (r_bindings p)"
    unfolding p(1) by (intro distinct_take sort_by_distinct)
  from \<open>set kept \<subseteq> set ?D\<close> have "set kept \<subseteq> set bs" using dedupe_subset by blast
  moreover have "set (r_bindings p) \<subseteq> set kept"
    using set_take_subset sort_by_set unfolding p(1) by metis
  ultimately have sub: "map_of ` set (r_bindings p) \<subseteq> ?J" using sols by blast
  have "map_of ` set (r_bindings p) = ?J"
    if "inj ser" "q_cursor_values spec = []" "\<not> r_has_more p"
  proof -
    have "set kept = set bs" using kept that(2) dedupe_complete [OF that(1), of "[]" bs] by auto
    moreover have "set (r_bindings p) = set kept"
      using that(3) sort_by_set [of "order_cmp (q_order_by spec)" kept] by (simp add: p)
    ultimately show ?thesis using sols by simp
  qed
  with sub distinct show ?thesis by (simp add: p(1))
qed

theorem page_is_sound_witness:
  "\<exists>p. execute demo_ser (demo_spec 5 []) (demo_scores (JStr ''2'') (JStr ''1'')) = Inr p \<and>
     length (r_bindings p) \<le> 5"
proof -
  let ?ds = "demo_scores (JStr ''2'') (JStr ''1'')"
  have ex: "exact_data ?ds" by (simp add: exact_data_def demo_scores_def demo_datom_def)
  have "\<exists>p. page (demo_spec 5 []) [demo_row ''a'' (JStr ''2''), demo_row ''b'' (JStr ''1'')] = Inr p"
    by (simp add: page_def demo_spec_def check_bound_def term_key_def resolve_def demo_row_def Let_def
        sort_by_def compare_values_def cmp_of_def)
  then obtain p where p: "execute demo_ser (demo_spec 5 []) ?ds = Inr p"
    by (auto simp: execute_def demo_solve)
  from page_is_sound [OF ex p] p show ?thesis by (simp add: demo_spec_def)
qed

end
