(* ===== verification/Query_Budget.thy ===== *)
theory Query_Budget
  imports Query_Semantics "HOL-Library.Sublist"
begin

text \<open>
  What an evaluation costs. The reference evaluator \<open>visit_clause\<close> has the work limit but no counters and
  no limits on scans: it records the datoms it looks at and the edges it follows. The budgeted evaluator succeeds
  exactly when the record fits the limits, with the same bindings, and its counters are the lengths
  of the record.
\<close>

section \<open>The record of an evaluation\<close>

record visits = budget +
  seen :: "datom list"
  followed :: "(string \<times> string) list"

definition no_visits :: "nat \<Rightarrow> visits" where
  "no_visits limit =
     \<lparr>work_limit = limit, datoms_scanned = 0, traversal_edges = 0, seen = [], followed = []\<rparr>"

definition edges_in :: "string \<Rightarrow> datom list \<Rightarrow> (string \<times> string) list" where
  "edges_in a ds =
     List.map_filter (\<lambda>d. if d_attribute d = a then map_option (Pair (d_subject d)) (as_str (d_value d))
       else None) ds"

definition push_edge :: "string \<times> string \<Rightarrow> adjacency \<Rightarrow> adjacency" where
  "push_edge e = push_entry (fst e) (snd e)"

lemma edges_in_simps [simp]:
  "edges_in a [] = []"
  "d_attribute d = a \<Longrightarrow> d_value d = JStr t \<Longrightarrow> edges_in a (d # ds) = (d_subject d, t) # edges_in a ds"
  "d_attribute d \<noteq> a \<or> as_str (d_value d) = None \<Longrightarrow> edges_in a (d # ds) = edges_in a ds"
  by (auto simp: edges_in_def List.map_filter_simps)

lemma push_edge_pair [simp]: "push_edge (s, t) = push_entry s t"
  by (simp add: push_edge_def)

definition visit_triple ::
    "(json \<Rightarrow> string) \<Rightarrow> datom_index \<Rightarrow> query_term \<Rightarrow> query_term \<Rightarrow> query_term \<Rightarrow> jmap \<Rightarrow> visits
      \<Rightarrow> query_failure + jmap list \<times> visits" where
  "visit_triple ser ix s a ob b v =
     (let found = triple_candidates ser ix s a ob b;
          rs = List.map_filter (triple_match s a ob b) found in
      if work_limit v < length rs then Inl (query_work_failure (work_limit v))
      else Inr (rs, v\<lparr>seen := seen v @ found\<rparr>))"

definition visit_reachable ::
    "datom_index \<Rightarrow> query_term \<Rightarrow> string \<Rightarrow> query_term \<Rightarrow> nat \<Rightarrow> jmap \<Rightarrow> visits
      \<Rightarrow> query_failure + jmap list \<times> visits" where
  "visit_reachable ix x a y n b v =
     (case Option.bind (resolve x b) as_str of
        None \<Rightarrow> Inl (qfail ''query_reachable_unbound'' ''reachable from must be a bound string id'' JNull)
      | Some u \<Rightarrow>
          let found = attribute_candidates ix a; es = edges_in a found in
          bindR (bfs (fold push_edge es []) (\<lambda>w. unify y (JStr w) b) (work_limit v) n ([u], [(u, 0)], []))
            (\<lambda>rs. Inr (rs, v\<lparr>seen := seen v @ found, followed := followed v @ es\<rparr>)))"

fun visit_clause ::
    "(json \<Rightarrow> string) \<Rightarrow> datom_index \<Rightarrow> clause \<Rightarrow> jmap \<Rightarrow> visits \<Rightarrow> query_failure + jmap list \<times> visits" where
  "visit_clause ser ix (Triple s a ob) b v = visit_triple ser ix s a ob b v"
| "visit_clause ser ix (Reachable x a y n) b v = visit_reachable ix x a y n b v"
| "visit_clause ser ix (Exists cs) b v =
     bindR (planned_loop (visit_clause ser ix) cs [b] v) (\<lambda>(rs, v). Inr (if rs \<noteq> [] then [b] else [], v))"
| "visit_clause ser ix (NotExists cs) b v =
     bindR (planned_loop (visit_clause ser ix) cs [b] v) (\<lambda>(rs, v). Inr (if rs = [] then [b] else [], v))"
| "visit_clause ser ix (Compare op x y) b v =
     bindR (ok_or (resolve x b) (compare_unbound ''left'')) (\<lambda>p.
     bindR (ok_or (resolve y b) (compare_unbound ''right'')) (\<lambda>q.
     Inr (if compare op p q then [b] else [], v)))"

definition visit_planned ::
    "(json \<Rightarrow> string) \<Rightarrow> datom_index \<Rightarrow> clause list \<Rightarrow> jmap \<Rightarrow> visits \<Rightarrow> query_failure + jmap list \<times> visits" where
  "visit_planned ser ix cs b v = planned_loop (visit_clause ser ix) cs [b] v"

section \<open>Counters are lengths of records\<close>

definition countable :: "query_limits \<Rightarrow> bool" where
  "countable l \<longleftrightarrow> max_datoms_scanned l < usize_max \<and> max_traversal_edges l < usize_max"

definition fits :: "query_limits \<Rightarrow> visits \<Rightarrow> bool" where
  "fits l v \<longleftrightarrow> length (seen v) \<le> max_datoms_scanned l \<and> length (followed v) \<le> max_traversal_edges l"

definition charged :: "visits \<Rightarrow> budget" where
  "charged v = \<lparr>work_limit = work_limit v, datoms_scanned = length (seen v), traversal_edges = length (followed v)\<rparr>"

lemma scan_datom_Inr:
  assumes "countable l" "datoms_scanned b \<le> max_datoms_scanned l"
  shows "scan_datom l b = Inr b' \<longleftrightarrow>
    Suc (datoms_scanned b) \<le> max_datoms_scanned l \<and> b' = b\<lparr>datoms_scanned := Suc (datoms_scanned b)\<rparr>"
  using assms by (auto simp: scan_datom_def Let_def countable_def sat_suc_below)

lemma traverse_edge_Inr:
  assumes "countable l" "traversal_edges b \<le> max_traversal_edges l"
  shows "traverse_edge l b = Inr b' \<longleftrightarrow>
    Suc (traversal_edges b) \<le> max_traversal_edges l \<and> b' = b\<lparr>traversal_edges := Suc (traversal_edges b)\<rparr>"
  using assms by (auto simp: traverse_edge_def Let_def countable_def sat_suc_below)

lemma triple_loop_charges:
  assumes "countable l" "datoms_scanned b \<le> max_datoms_scanned l" "length results \<le> work_limit b"
  shows "triple_loop l f ds results b = Inr (rs, b') \<longleftrightarrow>
    datoms_scanned b + length ds \<le> max_datoms_scanned l \<and> rs = results @ List.map_filter f ds \<and>
    length rs \<le> work_limit b \<and> b' = b\<lparr>datoms_scanned := datoms_scanned b + length ds\<rparr>"
  using assms(2,3)
proof (induction ds arbitrary: results b)
  case Nil
  then show ?case by (auto simp: List.map_filter_simps)
next
  case (Cons d ds)
  show ?case
  proof (cases "Suc (datoms_scanned b) \<le> max_datoms_scanned l")
    case False
    then have "scan_datom l b \<noteq> Inr x" for x
      using scan_datom_Inr [OF assms(1) Cons.prems(1)] by simp
    with False show ?thesis by (auto simp: bindR_Inr_iff)
  next
    case True
    then have "scan_datom l b = Inr (b\<lparr>datoms_scanned := Suc (datoms_scanned b)\<rparr>)"
      using scan_datom_Inr [OF assms(1) Cons.prems(1)] by simp
    with True Cons.prems show ?thesis
      by (auto simp: Cons.IH List.map_filter_simps Let_def split: option.splits)
  qed
qed

lemma build_adjacency_charges:
  assumes "countable l" "datoms_scanned b \<le> max_datoms_scanned l" "traversal_edges b \<le> max_traversal_edges l"
  shows "build_adjacency l a ds adj b = Inr (adj', b') \<longleftrightarrow>
    datoms_scanned b + length ds \<le> max_datoms_scanned l \<and>
    traversal_edges b + length (edges_in a ds) \<le> max_traversal_edges l \<and>
    adj' = fold push_edge (edges_in a ds) adj \<and>
    b' = b\<lparr>datoms_scanned := datoms_scanned b + length ds,
      traversal_edges := traversal_edges b + length (edges_in a ds)\<rparr>"
  using assms(2,3)
proof (induction ds arbitrary: adj b)
  case Nil
  then show ?case by auto
next
  case (Cons d ds)
  let ?b = "b\<lparr>datoms_scanned := Suc (datoms_scanned b)\<rparr>"
  show ?case
  proof (cases "Suc (datoms_scanned b) \<le> max_datoms_scanned l")
    case False
    then have "scan_datom l b \<noteq> Inr x" for x
      using scan_datom_Inr [OF assms(1) Cons.prems(1)] by simp
    with False show ?thesis by (auto simp: bindR_Inr_iff)
  next
    case True
    then have scan: "scan_datom l b = Inr ?b"
      using scan_datom_Inr [OF assms(1) Cons.prems(1)] by simp
    have edge: "traverse_edge l ?b = Inr b2 \<longleftrightarrow> Suc (traversal_edges b) \<le> max_traversal_edges l \<and>
        b2 = ?b\<lparr>traversal_edges := Suc (traversal_edges b)\<rparr>" for b2
      using traverse_edge_Inr [OF assms(1), of ?b] Cons.prems(2) by simp
    show ?thesis
    proof (cases "d_attribute d = a \<and> as_str (d_value d) \<noteq> None")
      case False
      then have "build_adjacency l a (d # ds) adj b = build_adjacency l a ds adj ?b"
        using scan by (auto split: option.splits)
      moreover have "edges_in a (d # ds) = edges_in a ds" by (rule edges_in_simps(3)) (use False in blast)
      ultimately show ?thesis using Cons.IH [of ?b adj] True Cons.prems by simp
    next
      case True
      then obtain t where t: "d_value d = JStr t" by auto
      show ?thesis
      proof (cases "Suc (traversal_edges b) \<le> max_traversal_edges l")
        case False
        then show ?thesis using True t scan edge by (auto simp: bindR_Inr_iff)
      next
        case next_fits: True
        let ?b2 = "?b\<lparr>traversal_edges := Suc (traversal_edges b)\<rparr>"
        have "build_adjacency l a (d # ds) adj b = build_adjacency l a ds (push_entry (d_subject d) t adj) ?b2"
          using scan edge [of ?b2] next_fits True t by simp
        then show ?thesis
          using Cons.IH [of ?b2 "push_entry (d_subject d) t adj"] next_fits t True
            \<open>Suc (datoms_scanned b) \<le> max_datoms_scanned l\<close> by simp
      qed
    qed
  qed
qed


section \<open>The budgeted evaluator succeeds when the record fits\<close>

definition grows :: "visits \<Rightarrow> visits \<Rightarrow> bool" where
  "grows v v' \<longleftrightarrow> work_limit v' = work_limit v \<and> prefix (seen v) (seen v') \<and> prefix (followed v) (followed v')"

lemma grows_refl [simp]: "grows v v"
  by (simp add: grows_def)

lemma grows_trans: "grows u v \<Longrightarrow> grows v w \<Longrightarrow> grows u w"
  by (auto simp: grows_def)

lemma grows_fits: "grows v v' \<Longrightarrow> fits l v' \<Longrightarrow> fits l v"
  by (auto simp: grows_def fits_def dest!: prefix_length_le)

lemma charged_work [simp]: "work_limit (charged v) = work_limit v"
  by (simp add: charged_def)

lemma charged_fields [simp]:
  "datoms_scanned (charged v) = length (seen v)" "traversal_edges (charged v) = length (followed v)"
  by (simp_all add: charged_def)

lemma charged_more:
  "charged (v\<lparr>seen := seen v @ ds, followed := followed v @ es\<rparr>) =
     (charged v)\<lparr>datoms_scanned := length (seen v) + length ds,
       traversal_edges := length (followed v) + length es\<rparr>"
  by (simp add: charged_def)

text \<open>\<open>f\<close>, with a budget, does what \<open>g\<close>, with a record, does, as long as the record fits.\<close>

definition matches ::
    "query_limits \<Rightarrow> unit evaluation \<Rightarrow> query_failure + jmap list \<times> visits \<Rightarrow> bool" where
  "matches l x y \<longleftrightarrow>
     (\<forall>rs bg'. x = Inr (rs, bg') \<longleftrightarrow> (\<exists>v'. y = Inr (rs, v') \<and> fits l v' \<and> bg' = charged v'))"

definition charges ::
    "query_limits \<Rightarrow> (jmap \<Rightarrow> budget \<Rightarrow> unit evaluation)
      \<Rightarrow> (jmap \<Rightarrow> visits \<Rightarrow> query_failure + jmap list \<times> visits) \<Rightarrow> bool" where
  "charges l f g \<longleftrightarrow>
     (\<forall>b v rs v'. g b v = Inr (rs, v') \<longrightarrow> grows v v') \<and>
     (\<forall>b v. fits l v \<longrightarrow> matches l (f b (charged v)) (g b v))"

lemma charges_grows: "charges l f g \<Longrightarrow> g b v = Inr (rs, v') \<Longrightarrow> grows v v'"
  by (auto simp: charges_def)

lemma charges_matches: "charges l f g \<Longrightarrow> fits l v \<Longrightarrow> matches l (f b (charged v)) (g b v)"
  by (simp add: charges_def)

lemma matches_bind:
  assumes "matches l x y" "\<And>rs v'. y = Inr (rs, v') \<Longrightarrow> fits l v' \<Longrightarrow> matches l (f (rs, charged v')) (g (rs, v'))"
    and "\<And>rs v' rs' v''. y = Inr (rs, v') \<Longrightarrow> g (rs, v') = Inr (rs', v'') \<Longrightarrow> grows v' v''"
  shows "matches l (bindR x f) (bindR y g)"
proof (cases y)
  case (Inl e)
  then have "x \<noteq> Inr p" for p
    using assms(1) by (cases p) (auto simp: matches_def)
  with Inl show ?thesis by (cases x) (auto simp: matches_def)
next
  case (Inr p)
  then obtain rs v' where y: "y = Inr (rs, v')" by (cases p) simp
  show ?thesis
  proof (cases "fits l v'")
    case True
    then have "x = Inr (rs, charged v')" using assms(1) y by (simp add: matches_def)
    with assms(2) [OF y True] y show ?thesis by simp
  next
    case False
    then have "x \<noteq> Inr p" for p
      using assms(1) y by (cases p) (auto simp: matches_def)
    moreover have "\<not> fits l v''" if "g (rs, v') = Inr (rs', v'')" for rs' v''
      using assms(3) [OF y that] False grows_fits by blast
    ultimately show ?thesis using y by (cases x) (auto simp: matches_def)
  qed
qed

lemma extend_all_grows:
  assumes "charges l f g" "extend_all g bs acc v = Inr (rs, v')"
  shows "grows v v'"
  using assms(2)
proof (induction bs arbitrary: acc v)
  case (Cons b bs)
  then obtain r v1 where g: "g b v = Inr (r, v1)" and rest: "extend_all g bs (acc @ r) v1 = Inr (rs, v')"
    by (auto simp: bindR_Inr_iff Let_def split: if_splits)
  from charges_grows [OF assms(1) g] Cons.IH [OF rest] show ?case by (rule grows_trans)
qed simp

lemma matches_Inl [simp]: "matches l (Inl e) (Inl e')"
  by (simp add: matches_def)

lemma matches_Inr: "fits l v \<Longrightarrow> matches l (Inr (rs, charged v)) (Inr (rs, v))"
  by (auto simp: matches_def)

lemma extend_all_matches:
  assumes "charges l f g" "fits l v"
  shows "matches l (extend_all f bs acc (charged v)) (extend_all g bs acc v)"
  using assms(2)
proof (induction bs arbitrary: acc v)
  case Nil
  then show ?case by (simp add: matches_Inr)
next
  case (Cons b bs)
  show ?case
    unfolding extend_all.simps
    by (rule matches_bind [OF charges_matches [OF assms(1) Cons.prems]])
      (auto simp: Let_def Cons.IH split: if_splits intro: extend_all_grows [OF assms(1)])
qed

lemma planned_loop_grows:
  assumes "\<forall>c \<in> set cs. charges l (f c) (g c)" "planned_loop g cs bs v = Inr (rs, v')"
  shows "grows v v'"
  using assms
proof (induction g cs bs v rule: planned_loop.induct)
  case (1 g cs bs v)
  show ?case
  proof (cases "cs = [] \<or> bs = []")
    case True
    with "1.prems" show ?thesis by (auto simp: planned_loop.simps)
  next
    case False
    let ?pos = "position (\<lambda>c. \<forall>binding \<in> set bs. clause_ready binding c (list_all is_nested cs)) cs"
    show ?thesis
    proof (cases ?pos)
      case None
      then have "g (blocked_clause cs) (hd bs) v = Inr (rs, v')"
        using "1.prems"(2) False by (subst (asm) planned_loop.simps) simp
      with "1.prems"(1) blocked_clause_in [of cs] False show ?thesis by (auto intro: charges_grows)
    next
      case (Some i)
      then have i: "i < length cs" using position_Some by blast
      obtain acc v1 where acc: "extend_all (g (cs ! i)) bs [] v = Inr (acc, v1)"
        and rest: "planned_loop g (remove_at i cs) acc v1 = Inr (rs, v')"
        using "1.prems"(2) False Some by (subst (asm) planned_loop.simps) (auto simp: bindR_Inr_iff)
      have "charges l (f (cs ! i)) (g (cs ! i))" using "1.prems"(1) i by simp
      then have "grows v v1" using acc by (rule extend_all_grows)
      moreover have "\<forall>c \<in> set (remove_at i cs). charges l (f c) (g c)"
        using "1.prems"(1) set_remove_at [OF i] by blast
      then have "grows v1 v'" using "1.IH" [OF False refl Some acc refl _ rest] by blast
      ultimately show ?thesis by (rule grows_trans)
    qed
  qed
qed

lemma planned_loop_matches:
  assumes "\<forall>c \<in> set cs. charges l (f c) (g c)" "fits l v"
  shows "matches l (planned_loop f cs bs (charged v)) (planned_loop g cs bs v)"
  using assms
proof (induction g cs bs v rule: planned_loop.induct)
  case (1 g cs bs v)
  show ?case
  proof (cases "cs = [] \<or> bs = []")
    case True
    with "1.prems" show ?thesis by (auto simp: planned_loop.simps matches_Inr)
  next
    case False
    let ?pos = "position (\<lambda>c. \<forall>binding \<in> set bs. clause_ready binding c (list_all is_nested cs)) cs"
    show ?thesis
    proof (cases ?pos)
      case None
      have "charges l (f (blocked_clause cs)) (g (blocked_clause cs))"
        using "1.prems"(1) blocked_clause_in [of cs] False by simp
      from charges_matches [OF this "1.prems"(2)] None False show ?thesis
        by (subst (1 2) planned_loop.simps) simp
    next
      case (Some i)
      then have i: "i < length cs" using position_Some by blast
      have here: "charges l (f (cs ! i)) (g (cs ! i))" using "1.prems"(1) i by simp
      have rest: "\<forall>c \<in> set (remove_at i cs). charges l (f c) (g c)"
        using "1.prems"(1) set_remove_at [OF i] by blast
      have "matches l
          (bindR (extend_all (f (cs ! i)) bs [] (charged v)) (\<lambda>(acc, b). planned_loop f (remove_at i cs) acc b))
          (bindR (extend_all (g (cs ! i)) bs [] v) (\<lambda>(acc, b). planned_loop g (remove_at i cs) acc b))"
        by (rule matches_bind [OF extend_all_matches [OF here "1.prems"(2)]])
          (auto intro: "1.IH" [OF False refl Some _ refl rest] planned_loop_grows [OF rest])
      with Some False show ?thesis by (subst (1 2) planned_loop.simps) simp
    qed
  qed
qed

section \<open>The clauses\<close>

lemma charges_triple:
  assumes "countable l"
  shows "charges l (apply_triple ser l ix s a ob) (visit_triple ser ix s a ob)"
  using triple_loop_charges [OF assms, where b = "charged v" and results = "[]" for v]
  by (auto simp: charges_def matches_def apply_triple_def visit_triple_def Let_def grows_def
      fits_def charged_def split: if_splits)

lemma charges_reachable:
  assumes "countable l"
  shows "charges l (apply_reachable l ix x a y n) (visit_reachable ix x a y n)"
proof -
  have "apply_reachable l ix x a y n b (charged v) = Inr (rs, bg') \<longleftrightarrow>
      (\<exists>v'. visit_reachable ix x a y n b v = Inr (rs, v') \<and> fits l v' \<and> bg' = charged v')"
    if "fits l v" for b v rs bg'
  proof (cases "Option.bind (resolve x b) as_str")
    case None
    then show ?thesis
      by (auto simp: apply_reachable_def visit_reachable_def bindR_Inr_iff split: option.splits)
  next
    case (Some u)
    then obtain w where w: "resolve x b = Some w" "as_str w = Some u" by (auto simp: bind_eq_Some_conv)
    have "datoms_scanned (charged v) \<le> max_datoms_scanned l" "traversal_edges (charged v) \<le> max_traversal_edges l"
      using that by (simp_all add: fits_def)
    note built = build_adjacency_charges [OF assms this]
    show ?thesis
      using w by (auto simp: apply_reachable_def visit_reachable_def bindR_Inr_iff built Let_def
          charged_more fits_def simp del: bfs.simps)
  qed
  then show ?thesis
    by (auto simp: charges_def matches_def visit_reachable_def grows_def bindR_Inr_iff Let_def
        split: option.splits)
qed

lemma charges_clause:
  assumes "countable l"
  shows "charges l (apply_clause ser l ix c) (visit_clause ser ix c)"
proof (induction c)
  case (Triple s a ob)
  then show ?case using charges_triple [OF assms] by (simp add: charges_def)
next
  case (Reachable x a y n)
  then show ?case using charges_reachable [OF assms] by (simp add: charges_def)
next
  case (Compare op x y)
  then show ?case by (auto simp: charges_def bindR_Inr_iff matches_def)
next
  case (Exists cs)
  then show ?case
    using planned_loop_grows [of cs l "apply_clause ser l ix" "visit_clause ser ix"]
    by (auto simp: charges_def bindR_Inr_iff Ball_def
        intro!: matches_bind [OF planned_loop_matches] matches_Inr)
next
  case (NotExists cs)
  then show ?case
    using planned_loop_grows [of cs l "apply_clause ser l ix" "visit_clause ser ix"]
    by (auto simp: charges_def bindR_Inr_iff Ball_def
        intro!: matches_bind [OF planned_loop_matches] matches_Inr)
qed

section \<open>The size of the result\<close>

definition bounded_result :: "(jmap \<Rightarrow> budget \<Rightarrow> unit evaluation) \<Rightarrow> bool" where
  "bounded_result f \<longleftrightarrow> (\<forall>b bg rs bg'. f b bg = Inr (rs, bg') \<longrightarrow>
     work_limit bg' = work_limit bg \<and> length rs \<le> max 1 (work_limit bg))"

lemma bounded_resultD:
  "bounded_result f \<Longrightarrow> f b bg = Inr (rs, bg') \<Longrightarrow>
     work_limit bg' = work_limit bg \<and> length rs \<le> max 1 (work_limit bg)"
  unfolding bounded_result_def by blast

lemma extend_all_bounded:
  assumes "bounded_result f" "extend_all f bs acc bg = Inr (rs, bg')" "length acc \<le> max 1 (work_limit bg)"
  shows "work_limit bg' = work_limit bg \<and> length rs \<le> max 1 (work_limit bg)"
  using assms(2,3)
proof (induction bs arbitrary: acc bg)
  case (Cons b bs)
  then obtain r bg1 where f: "f b bg = Inr (r, bg1)"
    and fits: "length (acc @ r) \<le> work_limit bg1"
    and rest: "extend_all f bs (acc @ r) bg1 = Inr (rs, bg')"
    by (auto simp: bindR_Inr_iff Let_def split: if_splits)
  from bounded_resultD [OF assms(1) f] Cons.IH [OF rest] fits show ?case by simp
qed simp

lemma planned_loop_bounded:
  assumes "\<forall>c \<in> set cs. bounded_result (f c)" "planned_loop f cs bs bg = Inr (rs, bg')"
    "length bs \<le> max 1 (work_limit bg)"
  shows "work_limit bg' = work_limit bg \<and> length rs \<le> max 1 (work_limit bg)"
  using assms
proof (induction f cs bs bg rule: planned_loop.induct)
  case (1 f cs bs bg)
  show ?case
  proof (cases "cs = [] \<or> bs = []")
    case True
    with "1.prems" show ?thesis by (auto simp: planned_loop.simps)
  next
    case False
    let ?pos = "position (\<lambda>c. \<forall>binding \<in> set bs. clause_ready binding c (list_all is_nested cs)) cs"
    show ?thesis
    proof (cases ?pos)
      case None
      then have "f (blocked_clause cs) (hd bs) bg = Inr (rs, bg')"
        using "1.prems"(2) False by (subst (asm) planned_loop.simps) simp
      moreover have "bounded_result (f (blocked_clause cs))"
        using "1.prems"(1) blocked_clause_in [of cs] False by simp
      ultimately show ?thesis using bounded_resultD by blast
    next
      case (Some i)
      then have i: "i < length cs" using position_Some by blast
      obtain acc bg1 where acc: "extend_all (f (cs ! i)) bs [] bg = Inr (acc, bg1)"
        and rest: "planned_loop f (remove_at i cs) acc bg1 = Inr (rs, bg')"
        using "1.prems"(2) False Some by (subst (asm) planned_loop.simps) (auto simp: bindR_Inr_iff)
      have "bounded_result (f (cs ! i))" using "1.prems"(1) i by simp
      from extend_all_bounded [OF this acc]
      have step: "work_limit bg1 = work_limit bg" "length acc \<le> max 1 (work_limit bg)" by auto
      have "\<forall>c \<in> set (remove_at i cs). bounded_result (f c)"
        using "1.prems"(1) set_remove_at [OF i] by blast
      from "1.IH" [OF False refl Some acc refl this rest] step show ?thesis by simp
    qed
  qed
qed

lemma apply_clause_bounded: "bounded_result (apply_clause ser l ix c)"
proof (induction c)
  case (Triple s a ob)
  show ?case
    unfolding bounded_result_def apply_clause.simps apply_triple_def
    by (auto dest!: triple_loop_Inr)
next
  case (Compare op x y)
  show ?case by (auto simp: bounded_result_def bindR_Inr_iff)
next
  case (Reachable x a y n)
  show ?case
    unfolding bounded_result_def
  proof (intro allI impI)
    fix b bg rs bg'
    assume "apply_clause ser l ix (Reachable x a y n) b bg = Inr (rs, bg')"
    then obtain u adj where adj: "build_adjacency l a (attribute_candidates ix a) [] bg = Inr (adj, bg')"
      and search: "bfs adj (\<lambda>v. unify y (JStr v) b) (work_limit bg') n ([u], [(u, 0)], []) = Inr rs"
      by (auto simp: apply_reachable_def bindR_Inr_iff)
    have "bfs_inv adj n u (\<lambda>_. 0) (set [u]) [(u, 0)]" using bfs_inv_start by simp
    from bfs_visits [OF search this] have "length rs \<le> work_limit bg'" by auto
    then show "work_limit bg' = work_limit bg \<and> length rs \<le> max 1 (work_limit bg)"
      using build_adjacency_entries [OF adj] by auto
  qed
next
  case (Exists cs)
  show ?case
    unfolding bounded_result_def apply_clause.simps bindR_Inr_iff
    using planned_loop_bounded [of cs "apply_clause ser l ix"] Exists by fastforce
next
  case (NotExists cs)
  show ?case
    unfolding bounded_result_def apply_clause.simps bindR_Inr_iff
    using planned_loop_bounded [of cs "apply_clause ser l ix"] NotExists by fastforce
qed

section \<open>The budget is kept exactly\<close>

lemma apply_planned_matches:
  assumes "countable l"
  shows "matches l (apply_planned ser l ix cs b (new_budget limit)) (visit_planned ser ix cs b (no_visits limit))"
proof -
  have "charged (no_visits limit) = new_budget limit" "fits l (no_visits limit)"
    by (simp_all add: charged_def no_visits_def new_budget_def fits_def)
  with planned_loop_matches [of cs l "apply_clause ser l ix" "visit_clause ser ix" "no_visits limit" "[b]"]
  show ?thesis
    using charges_clause [OF assms] by (simp add: apply_planned_def visit_planned_def)
qed

lemma visit_planned_work:
  assumes "visit_planned ser ix cs b (no_visits limit) = Inr (rs, v)"
  shows "work_limit v = limit"
proof -
  have "countable demo_limits"
    by (simp add: countable_def usize_max_def demo_limits_def)
  then show ?thesis
    using planned_loop_grows [of cs demo_limits "apply_clause ser demo_limits ix" "visit_clause ser ix"
        "[b]" "no_visits limit" rs v] charges_clause [of demo_limits ser ix] assms
    by (simp add: visit_planned_def grows_def) (simp add: no_visits_def)
qed

text \<open>C32. Budgets are kept exactly. Under the same work limit, the evaluation returns bindings if and
  only if the recording evaluator, which knows no limit on scans and edges, returns them, and the
  datoms it looks at, counted with repetition over all clauses, bindings and nested predicates, are no
  more than the scan limit, and the edges it follows no more than the traversal limit; the counters are
  then the numbers of those datoms and edges. If the work limit is at least one, the result is no
  longer than it. (The limits are below the largest \<^verbatim>\<open>usize\<close>, where counting saturates.)\<close>

theorem query_within_budget:
  assumes "max_datoms_scanned l < usize_max" "max_traversal_edges l < usize_max"
  shows "(apply_planned ser l ix cs b (new_budget limit) = Inr (rs, bg') \<longleftrightarrow>
      (\<exists>v. visit_planned ser ix cs b (no_visits limit) = Inr (rs, v) \<and>
        length (seen v) \<le> max_datoms_scanned l \<and> length (followed v) \<le> max_traversal_edges l \<and>
        bg' = \<lparr>work_limit = limit, datoms_scanned = length (seen v), traversal_edges = length (followed v)\<rparr>)) \<and>
    (apply_planned ser l ix cs b (new_budget limit) = Inr (rs, bg') \<longrightarrow> 1 \<le> limit \<longrightarrow> length rs \<le> limit)"
proof
  have "countable l" using assms by (simp add: countable_def)
  from apply_planned_matches [OF this] visit_planned_work
  show "apply_planned ser l ix cs b (new_budget limit) = Inr (rs, bg') \<longleftrightarrow>
      (\<exists>v. visit_planned ser ix cs b (no_visits limit) = Inr (rs, v) \<and>
        length (seen v) \<le> max_datoms_scanned l \<and> length (followed v) \<le> max_traversal_edges l \<and>
        bg' = \<lparr>work_limit = limit, datoms_scanned = length (seen v), traversal_edges = length (followed v)\<rparr>)"
    unfolding matches_def fits_def charged_def by (metis (no_types, lifting))
  show "apply_planned ser l ix cs b (new_budget limit) = Inr (rs, bg') \<longrightarrow> 1 \<le> limit \<longrightarrow> length rs \<le> limit"
    using planned_loop_bounded [of cs "apply_clause ser l ix" "[b]" "new_budget limit" rs bg'] apply_clause_bounded
    by (auto simp: apply_planned_def new_budget_def)
qed

text \<open>The demo data holds three datoms of the attribute, and all of them are looked at: a limit of three
  is enough, a limit of two is not.\<close>

lemma demo_visits:
  "visit_planned (\<lambda>v. []) (new_index (\<lambda>v. []) demo_data) demo_clauses [] (no_visits 1000)
     = Inr ([[(''?x'', JStr ''a''), (''?y'', JStr ''b'')]], (no_visits 1000)\<lparr>seen := demo_data\<rparr>)"
proof -
  have cand: "entries (by_attribute (new_index (\<lambda>v. []) demo_data)) ''next'' = demo_data"
    by (simp add: demo_data_def demo_datom_def)
  have triple: "visit_triple (\<lambda>v. []) (new_index (\<lambda>v. []) demo_data) (Variable ''?x'') (Value (JStr ''next''))
      (Variable ''?y'') [] (no_visits 1000) =
    Inr ([[(''?x'', JStr ''a''), (''?y'', JStr ''b'')], [(''?x'', JStr ''b''), (''?y'', JStr ''c'')],
      [(''?x'', JStr ''c''), (''?y'', JStr ''a'')]], (no_visits 1000)\<lparr>seen := demo_data\<rparr>)"
    by (simp add: visit_triple_def triple_candidates_def resolve_def cand)
      (simp add: demo_data_def demo_datom_def triple_match_def unify_def no_visits_def List.map_filter_simps)
  show ?thesis
    by (simp add: visit_planned_def demo_clauses_def planned_loop.simps is_nested_def clause_ready_def
        resolve_def remove_at_def triple [unfolded no_visits_def] Let_def compare_def compare_values_def
        cmp_of_def no_visits_def)
qed

theorem query_within_budget_witness:
  "\<exists>rs bg. apply_planned (\<lambda>v. []) (demo_limits\<lparr>max_datoms_scanned := 3\<rparr>) (new_index (\<lambda>v. []) demo_data)
      demo_clauses [] (new_budget 1000) = Inr (rs, bg) \<and> datoms_scanned bg = 3 \<and> length rs \<le> 1000 \<and>
    apply_planned (\<lambda>v. []) (demo_limits\<lparr>max_datoms_scanned := 2\<rparr>) (new_index (\<lambda>v. []) demo_data)
      demo_clauses [] (new_budget 1000) \<noteq> Inr (rs, bg)"
proof -
  have three: "length demo_data = 3" by (simp add: demo_data_def)
  have small: "max_datoms_scanned (demo_limits\<lparr>max_datoms_scanned := n\<rparr>) < usize_max"
    "max_traversal_edges (demo_limits\<lparr>max_datoms_scanned := n\<rparr>) < usize_max" if "n \<le> 3" for n
    using that by (simp_all add: demo_limits_def usize_max_def)
  obtain bg where run: "apply_planned (\<lambda>v. []) (demo_limits\<lparr>max_datoms_scanned := 3\<rparr>)
      (new_index (\<lambda>v. []) demo_data) demo_clauses [] (new_budget 1000) =
      Inr ([[(''?x'', JStr ''a''), (''?y'', JStr ''b'')]], bg)" "datoms_scanned bg = 3"
    using query_within_budget [OF small [of 3], THEN conjunct1] demo_visits three
    by (auto simp: no_visits_def)
  moreover have "apply_planned (\<lambda>v. []) (demo_limits\<lparr>max_datoms_scanned := 2\<rparr>)
      (new_index (\<lambda>v. []) demo_data) demo_clauses [] (new_budget 1000) \<noteq> Inr (rs, bg)" for rs bg
    using query_within_budget [OF small [of 2], THEN conjunct1] demo_visits three by auto
  ultimately show ?thesis
    by (intro exI conjI) (auto simp: run(2))
qed

end
