(* ===== verification/Sched_Values.thy ===== *)
theory Sched_Values
  imports Refusals
begin

text \<open>
  The value helpers at the end of \<^verbatim>\<open>scheduler_activation/parts/05.rs\<close>: refusals, argument
  readers, canonical JSON and digests, and the clock. The crate \<^verbatim>\<open>time\<close> is the record
  \<open>time_lib\<close>: an instant is its number of nanoseconds since the epoch, \<open>rfc3339_parse\<close> is its
  parser, \<open>iso_format\<close> the formatter with the millisecond format of the source, and
  \<open>representable\<close> the range its arithmetic panics outside of. \<open>host\<close> supplies \<^verbatim>\<open>serde_json\<close> and
  SHA-256 as in the event ledger. One call of a tool reads its surroundings from a
  \<open>sched_call\<close>: two readings of the clock (the handler's first and, inside the transaction, the
  one of the lease check), the fresh uuid, the fault of each labelled SQL statement, and the text
  of each constraint violation.
\<close>

record time_lib =
  rfc3339_parse :: "string \<Rightarrow> int option"
  iso_format :: "int \<Rightarrow> string"
  representable :: "int \<Rightarrow> bool"

record sched_host =
  json_host :: host
  time_host :: time_lib

record sched_call =
  clock_first :: int
  clock_later :: int
  fresh_uuid :: string
  sql_fault :: "string \<Rightarrow> string option"
  violation_text :: "string \<Rightarrow> string"

section \<open>Refusals\<close>

definition sched_error :: "string \<Rightarrow> string \<Rightarrow> json" where
  "sched_error code message =
     JObj [(''schema'', JStr ''narada.scheduler_mcp.error.v1''), (''code'', JStr code),
           (''message'', JStr message)]"

definition sched_db_error :: "string \<Rightarrow> string \<Rightarrow> json" where
  "sched_db_error code cause = sched_error code (code @ '':'' @ cause)"

abbreviation rejected :: "string \<Rightarrow> string \<Rightarrow> failure" where
  "rejected code message \<equiv> Refused (sched_error code message)"

text \<open>One SQL statement that changes nothing by itself: it succeeds unless the library reports a
  fault, which \<^verbatim>\<open>map_err\<close> turns into a refusal.\<close>

definition sql :: "sched_call \<Rightarrow> string \<Rightarrow> string \<Rightarrow> failure + unit" where
  "sql c label code =
     (case sql_fault c label of
        None \<Rightarrow> Inr ()
      | Some cause \<Rightarrow> Inl (Refused (sched_db_error code cause)))"

text \<open>A table constraint the statement would violate.\<close>

definition constraint :: "sched_call \<Rightarrow> bool \<Rightarrow> string \<Rightarrow> string \<Rightarrow> failure + unit" where
  "constraint c ok label code =
     refuse_if (\<not> ok) (Refused (sched_db_error code (violation_text c label)))"

lemma sched_error_code [simp]: "error_code (sched_error c m) = Some c"
  by (simp add: error_code_def sched_error_def)

lemma sched_db_error_code [simp]: "error_code (sched_db_error c m) = Some c"
  by (simp add: sched_db_error_def)

lemma sql_Inr [simp]: "sql c l k = Inr u \<longleftrightarrow> sql_fault c l = None"
  by (auto simp: sql_def split: option.splits)

lemma sql_quiet [simp]: "sql_fault c l = None \<Longrightarrow> sql c l k = Inr ()"
  by (simp add: sql_def)

lemma constraint_Inr [simp]: "constraint c ok l k = Inr u \<longleftrightarrow> ok"
  by (simp add: constraint_def)

lemma constraint_True [simp]: "constraint c True l k = Inr ()"
  by (simp add: constraint_def)

section \<open>Arguments\<close>

definition arg_str :: "jmap \<Rightarrow> string \<Rightarrow> string option" where
  "arg_str args field = Option.bind (obj_get args field) as_str"

definition arg_int :: "jmap \<Rightarrow> string \<Rightarrow> int option" where
  "arg_int args field = Option.bind (obj_get args field) as_i64"

text \<open>\<^verbatim>\<open>.as_str().map(str::trim).filter(|v| !v.is_empty())\<close>\<close>

definition trimmed :: "string option \<Rightarrow> string option" where
  "trimmed x = (case x of None \<Rightarrow> None | Some s \<Rightarrow> if trim s = [] then None else Some (trim s))"

definition sched_required :: "jmap \<Rightarrow> string \<Rightarrow> failure + string" where
  "sched_required args field =
     ok_or (trimmed (arg_str args field))
       (rejected (field @ ''_required'') (field @ ''_required''))"

definition required_integer :: "jmap \<Rightarrow> string \<Rightarrow> failure + int" where
  "required_integer args field =
     ok_or (arg_int args field) (rejected (field @ ''_required'') (field @ ''_required''))"

definition nonnegative :: "jmap \<Rightarrow> string \<Rightarrow> int \<Rightarrow> failure + int" where
  "nonnegative args field fallback =
     (let v = (case arg_int args field of None \<Rightarrow> fallback | Some i \<Rightarrow> i)
      in if v < 0 then Inl (rejected (field @ ''_invalid'') (field @ ''_invalid'')) else Inr v)"

definition text_of :: "jmap \<Rightarrow> string \<Rightarrow> string" where
  "text_of args field = (case arg_str args field of None \<Rightarrow> [] | Some s \<Rightarrow> s)"

definition optional_text :: "jmap \<Rightarrow> string \<Rightarrow> string option" where
  "optional_text args field = arg_str args field"

definition integer_of :: "jmap \<Rightarrow> string \<Rightarrow> int" where
  "integer_of args field = (case arg_int args field of None \<Rightarrow> 0 | Some i \<Rightarrow> i)"

definition clamp :: "int \<Rightarrow> int \<Rightarrow> int \<Rightarrow> int" where
  "clamp lo hi i = max lo (min hi i)"

text \<open>\<^verbatim>\<open>i64::saturating_mul\<close>\<close>

definition saturating_mul :: "int \<Rightarrow> int \<Rightarrow> int" where
  "saturating_mul a b = max i64_min (min i64_max (a * b))"

lemma trimmed_Some: "trimmed x = Some s \<Longrightarrow> s \<noteq> []"
  by (auto simp: trimmed_def split: option.splits if_splits)

lemma trimmed_again: "trimmed x = Some s \<Longrightarrow> trimmed (Some s) = Some s"
  by (auto simp: trimmed_def split: option.splits if_splits)

lemma sched_required_nonempty: "sched_required args f = Inr s \<Longrightarrow> s \<noteq> []"
  by (auto simp: sched_required_def dest: trimmed_Some)

lemma nonnegative_Inr: "nonnegative args f d = Inr i \<Longrightarrow> 0 \<le> i"
  by (auto simp: nonnegative_def Let_def split: option.splits if_splits)

lemma clamp_bounds: "lo \<le> hi \<Longrightarrow> lo \<le> clamp lo hi i \<and> clamp lo hi i \<le> hi"
  by (auto simp: clamp_def)

section \<open>Canonical JSON\<close>

text \<open>Keys sorted at every depth; the keys of a map are distinct.\<close>

fun canonicalize :: "json \<Rightarrow> json" where
  "canonicalize (JArr xs) = JArr (map canonicalize xs)"
| "canonicalize (JObj m) = JObj (sort_key fst (map (\<lambda>p. (fst p, canonicalize (snd p))) m))"
| "canonicalize v = v"

definition canonical_json :: "sched_host \<Rightarrow> json \<Rightarrow> string" where
  "canonical_json h v =
     (case to_vec (json_host h) (canonicalize v) of Inr s \<Rightarrow> s | Inl _ \<Rightarrow> ''null'')"

definition bounded_json :: "sched_host \<Rightarrow> json \<Rightarrow> string \<Rightarrow> nat \<Rightarrow> failure + string" where
  "bounded_json h v field bound =
     (let encoded = canonical_json h v in
      if bound < length encoded
      then Inl (rejected (field @ ''_too_large'') (field @ ''_too_large''))
      else Inr encoded)"

definition sched_digest :: "sched_host \<Rightarrow> json \<Rightarrow> string" where
  "sched_digest h v = sha256 (json_host h) (canonical_json h v)"

definition stable_id :: "sched_host \<Rightarrow> string \<Rightarrow> json \<Rightarrow> string" where
  "stable_id h prefix v = prefix @ ''_'' @ take 32 (sched_digest h v)"

definition max_event_bytes :: nat where
  "max_event_bytes = 16384"

definition max_error_bytes :: nat where
  "max_error_bytes = 2048"

section \<open>Time\<close>

definition parse_iso :: "sched_host \<Rightarrow> string \<Rightarrow> failure + int" where
  "parse_iso h s =
     ok_or (rfc3339_parse (time_host h) s)
       (rejected ''scheduler_datetime_invalid'' ''scheduler_datetime_invalid'')"

definition format_iso :: "sched_host \<Rightarrow> int \<Rightarrow> string" where
  "format_iso h t = iso_format (time_host h) t"

text \<open>\<^verbatim>\<open>time + Duration::milliseconds(ms)\<close>: the addition of the crate panics out of range.\<close>

definition plus_millis :: "sched_host \<Rightarrow> int \<Rightarrow> int \<Rightarrow> failure + int" where
  "plus_millis h t ms =
     (let u = t + ms * 1000000 in
      if representable (time_host h) u then Inr u
      else Inl (Panicked ''resulting value is out of range''))"

text \<open>Documented behaviour of the formatter: from the epoch on, up to the last representable year
  (9999), the text has fixed width and orders as the instant does, down to the millisecond.\<close>

definition ordered_clock :: "sched_host \<Rightarrow> bool" where
  "ordered_clock h \<longleftrightarrow>
     (\<forall>s t. 0 \<le> s \<longrightarrow> 0 \<le> t \<longrightarrow> representable (time_host h) s \<longrightarrow> representable (time_host h) t \<longrightarrow>
        (format_iso h s \<le> format_iso h t) = (s div 1000000 \<le> t div 1000000))"

lemma ordered_clockD:
  "ordered_clock h \<Longrightarrow> 0 \<le> s \<Longrightarrow> 0 \<le> t \<Longrightarrow> representable (time_host h) s \<Longrightarrow>
     representable (time_host h) t \<Longrightarrow>
     format_iso h s \<le> format_iso h t \<longleftrightarrow> s div 1000000 \<le> t div 1000000"
  by (simp add: ordered_clock_def)

section \<open>Canonical forms\<close>

lemma sort_key_map_snd: "sort_key fst (map (\<lambda>p. (fst p, f (snd p))) m) =
    map (\<lambda>p. (fst p, f (snd p))) (sort_key fst m)"
proof (induction m)
  case Nil
  then show ?case by simp
next
  case (Cons p m)
  have "insort_key fst (fst p, f (snd p)) (map (\<lambda>p. (fst p, f (snd p))) xs) =
      map (\<lambda>p. (fst p, f (snd p))) (insort_key fst p xs)" for xs
    by (induction xs) auto
  with Cons show ?case by simp
qed

lemma canonicalize_idem: "canonicalize (canonicalize v) = canonicalize v"
proof (induction v rule: canonicalize.induct)
  case (2 m)
  have "map (\<lambda>p. (fst p, canonicalize (snd p))) (map (\<lambda>p. (fst p, canonicalize (snd p))) m) =
      map (\<lambda>p. (fst p, canonicalize (snd p))) m"
    using 2 by simp
  then show ?case
    by (simp add: sort_key_map_snd [symmetric] del: map_map)
       (simp add: sort_key_map_snd [of canonicalize m, symmetric] sort_key_id_if_sorted comp_def)
qed simp_all

text \<open>The order of the entries of an object does not matter.\<close>

lemma sort_key_unique:
  assumes "distinct (map fst m)" "distinct (map fst n)" "set m = set n"
  shows "sort_key fst m = sort_key fst (n :: (string \<times> 'v) list)"
proof -
  have sorted: "sorted (map fst (sort_key fst m))" "sorted (map fst (sort_key fst n))" by simp_all
  have dist: "distinct (map fst (sort_key fst m))" "distinct (map fst (sort_key fst n))"
    using assms(1,2) by (simp_all add: distinct_map inj_on_def)
  have keys: "map fst (sort_key fst m) = map fst (sort_key fst n)"
    using sorted dist assms(3) by (intro sorted_distinct_set_unique) simp_all
  have inj: "inj_on fst (set (sort_key fst m) \<union> set (sort_key fst n))"
    using assms by (simp add: distinct_map)
  from map_inj_on [OF keys inj] show ?thesis .
qed

lemma canonicalize_order:
  assumes "distinct (map fst m)" "distinct (map fst n)" "set m = set n"
  shows "canonicalize (JObj m) = canonicalize (JObj n)"
  using sort_key_unique [OF assms] by (simp add: sort_key_map_snd)

end
