(* ===== verification/Sched_Store.thy ===== *)
theory Sched_Store
  imports Sched_Values
begin

text \<open>
  The tables of \<^verbatim>\<open>.ai/scheduler.db\<close> (the schema in \<^verbatim>\<open>scheduler_activation/parts/01.rs\<close>), their
  constraints, the row readers and the transaction of \<^verbatim>\<open>parts/05.rs\<close>. A table is the list of its
  rows in insertion order; a JSON text column holds the value its text denotes. \<^verbatim>\<open>order by\<close> is a
  stable sort by the bytes of the column. A transaction that fails leaves the tables as they were.
\<close>

section \<open>Tables\<close>

datatype binding_status = Active | Paused | Retired

datatype activation_status = Pending | Leased | Admitted | Terminal | Blocked

fun binding_status_text :: "binding_status \<Rightarrow> string" where
  "binding_status_text Active = ''active''"
| "binding_status_text Paused = ''paused''"
| "binding_status_text Retired = ''retired''"

fun activation_status_text :: "activation_status \<Rightarrow> string" where
  "activation_status_text Pending = ''pending''"
| "activation_status_text Leased = ''leased''"
| "activation_status_text Admitted = ''admitted''"
| "activation_status_text Terminal = ''terminal''"
| "activation_status_text Blocked = ''blocked''"

record sched_binding =
  b_id :: string
  b_trigger_kind :: string
  b_source_topic :: string
  b_source_sop_id :: "string option"
  b_terminal_outcomes :: json
  b_target_sop_id :: string
  b_target_version :: string
  b_concurrency :: string
  b_delays :: json
  b_default_delay :: int
  b_retry_base :: int
  b_retry_max :: int
  b_max_attempts :: int
  b_status :: binding_status
  b_revision :: int
  b_spec_digest :: string
  b_created_at :: string
  b_updated_at :: string

record source_event =
  e_id :: string
  e_topic :: string
  e_partition_key :: string
  e_aggregate_id :: string
  e_aggregate_revision :: int
  e_schema_version :: int
  e_causation_id :: string
  e_idempotency_key :: string
  e_payload :: json
  e_digest :: string
  e_occurred_at :: string
  e_admitted_at :: string

record activation =
  a_id :: string
  a_binding_id :: string
  a_source_event_id :: string
  a_occurrence_key :: string
  a_target_sop_id :: string
  a_target_version :: string
  a_partition_key :: string
  a_due_at :: string
  a_status :: activation_status
  a_attempt_count :: int
  a_lease_owner :: "string option"
  a_lease_token :: "string option"
  a_lease_expires_at :: "string option"
  a_sop_run_id :: "string option"
  a_terminal_outcome :: "string option"
  a_last_error :: "string option"
  a_created_at :: string
  a_updated_at :: string

record sched_receipt =
  r_activation_id :: string
  r_kind :: string
  r_id :: string
  r_json :: string
  r_recorded_at :: string

record sched_store =
  tbl_bindings :: "sched_binding list"
  tbl_events :: "source_event list"
  tbl_activations :: "activation list"
  tbl_receipts :: "sched_receipt list"

definition empty_store :: sched_store where
  "empty_store = \<lparr>tbl_bindings = [], tbl_events = [], tbl_activations = [], tbl_receipts = []\<rparr>"

section \<open>Constraints\<close>

definition binding_checks :: "sched_binding \<Rightarrow> bool" where
  "binding_checks b \<longleftrightarrow>
     b_trigger_kind b \<in> {''bootstrap'', ''completion'', ''domain_event''} \<and>
     b_concurrency b \<in> {''singleton'', ''partitioned''} \<and>
     0 \<le> b_default_delay b \<and> 0 \<le> b_retry_base b \<and> b_retry_base b \<le> b_retry_max b \<and>
     0 < b_max_attempts b \<and> 0 < b_revision b"

definition event_checks :: "sched_host \<Rightarrow> source_event \<Rightarrow> bool" where
  "event_checks h ev \<longleftrightarrow> length (canonical_json h (e_payload ev)) \<le> max_event_bytes"

definition run_unique :: "activation list \<Rightarrow> bool" where
  "run_unique rows \<longleftrightarrow> distinct (map a_sop_run_id (filter (\<lambda>r. a_sop_run_id r \<noteq> None) rows))"

definition activation_unique :: "activation list \<Rightarrow> bool" where
  "activation_unique rows \<longleftrightarrow>
     distinct (map a_id rows) \<and>
     distinct (map (\<lambda>r. (a_binding_id r, a_source_event_id r)) rows) \<and>
     distinct (map (\<lambda>r. (a_target_sop_id r, a_occurrence_key r)) rows) \<and>
     run_unique rows"

definition receipt_unique :: "sched_receipt list \<Rightarrow> bool" where
  "receipt_unique rows \<longleftrightarrow>
     distinct (map (\<lambda>r. (r_activation_id r, r_kind r)) rows) \<and> distinct (map r_id rows)"

section \<open>Rows as values\<close>

definition binding_value :: "sched_binding \<Rightarrow> json" where
  "binding_value b =
     JObj [(''binding_id'', JStr (b_id b)), (''trigger_kind'', JStr (b_trigger_kind b)),
       (''source_topic'', JStr (b_source_topic b)), (''source_sop_id'', jopt_str (b_source_sop_id b)),
       (''terminal_outcomes'', b_terminal_outcomes b), (''target_sop_id'', JStr (b_target_sop_id b)),
       (''target_template_version'', JStr (b_target_version b)),
       (''concurrency'', JStr (b_concurrency b)), (''delay_by_outcome_ms'', b_delays b),
       (''default_delay_ms'', jint (b_default_delay b)), (''retry_base_ms'', jint (b_retry_base b)),
       (''retry_max_ms'', jint (b_retry_max b)), (''max_attempts'', jint (b_max_attempts b)),
       (''blocked_policy'', JStr ''manual_unblock''),
       (''status'', JStr (binding_status_text (b_status b))), (''revision'', jint (b_revision b)),
       (''spec_digest'', JStr (b_spec_digest b)), (''created_at'', JStr (b_created_at b)),
       (''updated_at'', JStr (b_updated_at b))]"

definition event_value :: "source_event \<Rightarrow> json" where
  "event_value ev =
     JObj [(''event_id'', JStr (e_id ev)), (''topic'', JStr (e_topic ev)),
       (''partition_key'', JStr (e_partition_key ev)), (''aggregate_id'', JStr (e_aggregate_id ev)),
       (''aggregate_revision'', jint (e_aggregate_revision ev)),
       (''schema_version'', jint (e_schema_version ev)),
       (''causation_id'', JStr (e_causation_id ev)),
       (''idempotency_key'', JStr (e_idempotency_key ev)), (''payload'', e_payload ev),
       (''occurred_at'', JStr (e_occurred_at ev))]"

definition activation_value :: "activation \<Rightarrow> json" where
  "activation_value a =
     JObj [(''activation_id'', JStr (a_id a)), (''binding_id'', JStr (a_binding_id a)),
       (''source_event_id'', JStr (a_source_event_id a)),
       (''occurrence_key'', JStr (a_occurrence_key a)), (''target_sop_id'', JStr (a_target_sop_id a)),
       (''target_template_version'', JStr (a_target_version a)),
       (''partition_key'', JStr (a_partition_key a)), (''due_at'', JStr (a_due_at a)),
       (''status'', JStr (activation_status_text (a_status a))),
       (''attempt_count'', jint (a_attempt_count a)), (''lease_owner'', jopt_str (a_lease_owner a)),
       (''lease_token'', jopt_str (a_lease_token a)),
       (''lease_expires_at'', jopt_str (a_lease_expires_at a)),
       (''sop_run_id'', jopt_str (a_sop_run_id a)),
       (''terminal_outcome'', jopt_str (a_terminal_outcome a)),
       (''last_error'', jopt_str (a_last_error a)), (''created_at'', JStr (a_created_at a)),
       (''updated_at'', JStr (a_updated_at a))]"

section \<open>Queries\<close>

definition lookup_binding :: "sched_store \<Rightarrow> string \<Rightarrow> sched_binding option" where
  "lookup_binding s i = find (\<lambda>b. b_id b = i) (tbl_bindings s)"

definition query_binding :: "sched_call \<Rightarrow> sched_store \<Rightarrow> string \<Rightarrow> failure + sched_binding option" where
  "query_binding c s i =
     bindR (sql c ''select binding'' ''scheduler_binding_query_failed'') (\<lambda>_. Inr (lookup_binding s i))"

definition require_binding :: "sched_call \<Rightarrow> sched_store \<Rightarrow> string \<Rightarrow> failure + sched_binding" where
  "require_binding c s i =
     bindR (query_binding c s i) (\<lambda>found.
       ok_or found (rejected ''scheduler_binding_not_found'' (''scheduler_binding_not_found:'' @ i)))"

definition lookup_activation :: "sched_store \<Rightarrow> string \<Rightarrow> activation option" where
  "lookup_activation s i = find (\<lambda>a. a_id a = i) (tbl_activations s)"

definition query_activation :: "sched_call \<Rightarrow> sched_store \<Rightarrow> string \<Rightarrow> failure + activation option" where
  "query_activation c s i =
     bindR (sql c (''select activation '' @ i) ''scheduler_activation_query_failed'')
       (\<lambda>_. Inr (lookup_activation s i))"

definition require_activation :: "sched_call \<Rightarrow> sched_store \<Rightarrow> string \<Rightarrow> failure + activation" where
  "require_activation c s i =
     bindR (query_activation c s i) (\<lambda>found.
       ok_or found (rejected ''scheduler_activation_not_found'' ''scheduler_activation_not_found''))"

definition column_is :: "string option \<Rightarrow> string \<Rightarrow> bool" where
  "column_is wanted v = (case wanted of None \<Rightarrow> True | Some w \<Rightarrow> w = v)"

definition list_activations ::
    "sched_call \<Rightarrow> sched_store \<Rightarrow> string option \<Rightarrow> string option \<Rightarrow> string option \<Rightarrow> string option
      \<Rightarrow> nat \<Rightarrow> nat \<Rightarrow> failure + activation list" where
  "list_activations c s status binding_id source_event_id sop_run_id count skip =
     bindR (sql c ''list activations'' ''scheduler_activation_query_failed'') (\<lambda>_.
       Inr (take count (drop skip
         (sort_key a_due_at (sort_key a_id (filter
           (\<lambda>a. column_is status (activation_status_text (a_status a)) \<and>
                column_is binding_id (a_binding_id a) \<and>
                column_is source_event_id (a_source_event_id a) \<and>
                (case sop_run_id of None \<Rightarrow> True | Some r \<Rightarrow> a_sop_run_id a = Some r))
           (tbl_activations s)))))))"

text \<open>\<^verbatim>\<open>update scheduler_activations set ... where ...\<close>\<close>

definition update_activations ::
    "(activation \<Rightarrow> bool) \<Rightarrow> (activation \<Rightarrow> activation) \<Rightarrow> sched_store \<Rightarrow> sched_store" where
  "update_activations P f s =
     s\<lparr>tbl_activations := map (\<lambda>a. if P a then f a else a) (tbl_activations s)\<rparr>"

definition update_bindings ::
    "(sched_binding \<Rightarrow> bool) \<Rightarrow> (sched_binding \<Rightarrow> sched_binding) \<Rightarrow> sched_store \<Rightarrow> sched_store" where
  "update_bindings P f s =
     s\<lparr>tbl_bindings := map (\<lambda>b. if P b then f b else b) (tbl_bindings s)\<rparr>"

section \<open>Transactions\<close>

type_synonym 'a tx = "sched_store \<Rightarrow> failure + 'a \<times> sched_store"

definition transaction ::
    "sched_call \<Rightarrow> json tx \<Rightarrow> sched_store \<Rightarrow> sched_store \<times> (failure + json)" where
  "transaction c action s =
     (case sql c ''begin immediate'' ''scheduler_activation_transaction_failed'' of
        Inl f \<Rightarrow> (s, Inl f)
      | Inr _ \<Rightarrow>
          (case action s of
             Inl f \<Rightarrow> (s, Inl f)
           | Inr (v, s') \<Rightarrow>
               (case sql c ''commit'' ''scheduler_activation_transaction_failed'' of
                  Inl f \<Rightarrow> (s, Inl f)
                | Inr _ \<Rightarrow> (s', Inr v))))"

lemma find_append: "find P (xs @ ys) = (case find P xs of None \<Rightarrow> find P ys | Some x \<Rightarrow> Some x)"
  by (induction xs) auto

lemma transaction_Inl: "snd (transaction c act s) = Inl f \<Longrightarrow> fst (transaction c act s) = s"
  by (auto simp: transaction_def split: sum.splits prod.splits)

lemma transaction_Inr:
  "transaction c act s = (s', Inr v) \<longleftrightarrow>
     act s = Inr (v, s') \<and> sql_fault c ''begin immediate'' = None \<and> sql_fault c ''commit'' = None"
  by (auto simp: transaction_def sql_def split: sum.splits prod.splits option.splits)

lemma transaction_cases:
  obtains (kept) "fst (transaction c act s) = s"
  | (committed) v where "act s = Inr (v, fst (transaction c act s))"
      "snd (transaction c act s) = Inr v"
proof (cases "snd (transaction c act s)")
  case (Inl f)
  with kept show ?thesis by (blast dest: transaction_Inl)
next
  case (Inr v)
  then have "transaction c act s = (fst (transaction c act s), Inr v)" by (simp add: prod_eq_iff)
  then have "act s = Inr (v, fst (transaction c act s))" unfolding transaction_Inr by blast
  with Inr committed show ?thesis by blast
qed

section \<open>Lookups and updates\<close>

lemma lookup_activation_Some: "lookup_activation s i = Some a \<Longrightarrow> a \<in> set (tbl_activations s) \<and> a_id a = i"
  by (auto simp: lookup_activation_def find_Some_iff)

lemma lookup_binding_Some: "lookup_binding s i = Some b \<Longrightarrow> b \<in> set (tbl_bindings s) \<and> b_id b = i"
  by (auto simp: lookup_binding_def find_Some_iff)

lemma require_activation_Inr [simp]:
  "require_activation c s i = Inr a \<longleftrightarrow>
     lookup_activation s i = Some a \<and> sql_fault c (''select activation '' @ i) = None"
  by (auto simp: require_activation_def query_activation_def bindR_Inr_iff)

lemma require_binding_Inr [simp]:
  "require_binding c s i = Inr b \<longleftrightarrow>
     lookup_binding s i = Some b \<and> sql_fault c ''select binding'' = None"
  by (auto simp: require_binding_def query_binding_def bindR_Inr_iff)

lemma find_unique:
  "distinct (map f xs) \<Longrightarrow> x \<in> set xs \<Longrightarrow> find (\<lambda>y. f y = f x) xs = Some x"
  by (induction xs) auto

lemma lookup_activation_unique:
  "distinct (map a_id (tbl_activations s)) \<Longrightarrow> a \<in> set (tbl_activations s) \<Longrightarrow>
     lookup_activation s (a_id a) = Some a"
  by (simp add: lookup_activation_def find_unique)

lemma lookup_update:
  assumes "\<And>a. a_id (f a) = a_id a"
  shows "lookup_activation (update_activations P f s) i =
    map_option (\<lambda>a. if P a then f a else a) (lookup_activation s i)"
proof -
  have "find (\<lambda>a. a_id a = i) (map (\<lambda>a. if P a then f a else a) xs) =
      map_option (\<lambda>a. if P a then f a else a) (find (\<lambda>a. a_id a = i) xs)" for xs
    by (induction xs) (simp_all add: assms)
  then show ?thesis by (simp add: lookup_activation_def update_activations_def)
qed

lemma update_activations_simps [simp]:
  "tbl_bindings (update_activations P f s) = tbl_bindings s"
  "tbl_events (update_activations P f s) = tbl_events s"
  "tbl_receipts (update_activations P f s) = tbl_receipts s"
  "tbl_activations (update_activations P f s) =
     map (\<lambda>a. if P a then f a else a) (tbl_activations s)"
  by (simp_all add: update_activations_def)

lemma update_bindings_simps [simp]:
  "tbl_activations (update_bindings P f s) = tbl_activations s"
  "tbl_events (update_bindings P f s) = tbl_events s"
  "tbl_receipts (update_bindings P f s) = tbl_receipts s"
  "tbl_bindings (update_bindings P f s) = map (\<lambda>b. if P b then f b else b) (tbl_bindings s)"
  by (simp_all add: update_bindings_def)

end
