(* ===== verification/Sched_Bindings.thy ===== *)
theory Sched_Bindings
  imports Sched_Store
begin

text \<open>
  Bindings of the activation scheduler: \<^verbatim>\<open>scheduler_activation/parts/02.rs\<close> and the first half
  of \<^verbatim>\<open>parts/03.rs\<close>. A binding says which source events start which operating procedure; its
  specification is guarded by a revision that every change has to name.
\<close>

section \<open>Specifications\<close>

text \<open>The loop over \<^verbatim>\<open>delay_by_outcome_ms\<close>; the \<^verbatim>\<open>BTreeMap\<close> orders the entries by key.\<close>

fun normalize_delays :: "jmap \<Rightarrow> failure + jmap" where
  "normalize_delays [] = Inr []"
| "normalize_delays ((key, v) # entries) =
     (case as_i64 v of
        Some delay \<Rightarrow>
          if 0 \<le> delay
          then bindR (normalize_delays entries) (\<lambda>rest. Inr ((key, jint delay) # rest))
          else Inl (rejected ''scheduler_binding_delay_invalid'' ''scheduler_binding_delay_invalid'')
      | None \<Rightarrow> Inl (rejected ''scheduler_binding_delay_invalid'' ''scheduler_binding_delay_invalid''))"

definition terminal_outcomes_of :: "jmap \<Rightarrow> string list" where
  "terminal_outcomes_of args =
     remdups_adj (sort (List.map_filter (\<lambda>v. trimmed (as_str v))
       (case Option.bind (obj_get args ''terminal_outcomes'') as_array of None \<Rightarrow> [] | Some vs \<Rightarrow> vs)))"

definition delays_of :: "jmap \<Rightarrow> jmap" where
  "delays_of args =
     (case Option.bind (obj_get args ''delay_by_outcome_ms'') as_object of None \<Rightarrow> [] | Some m \<Rightarrow> m)"

definition normalize_binding :: "jmap \<Rightarrow> failure + jmap" where
  "normalize_binding args =
     bindR (sched_required args ''trigger_kind'') (\<lambda>trigger_kind.
     bindR (refuse_if (trigger_kind \<notin> {''bootstrap'', ''completion'', ''domain_event''})
       (rejected ''scheduler_binding_trigger_kind_invalid'' ''scheduler_binding_trigger_kind_invalid'')) (\<lambda>_.
     bindR (sched_required args ''concurrency'') (\<lambda>concurrency.
     bindR (refuse_if (concurrency \<notin> {''singleton'', ''partitioned''})
       (rejected ''scheduler_binding_concurrency_invalid'' ''scheduler_binding_concurrency_invalid'')) (\<lambda>_.
     bindR (normalize_delays (delays_of args)) (\<lambda>delays.
     bindR (nonnegative args ''retry_base_ms'' 1000) (\<lambda>retry_base.
     bindR (nonnegative args ''retry_max_ms'' 300000) (\<lambda>retry_max.
     bindR (refuse_if (retry_max < retry_base)
       (rejected ''retry_max_ms_below_base'' ''retry_max_ms_below_base'')) (\<lambda>_.
     bindR (nonnegative args ''max_attempts'' 5) (\<lambda>max_attempts.
     bindR (refuse_if (max_attempts < 1)
       (rejected ''max_attempts_invalid'' ''max_attempts_invalid'')) (\<lambda>_.
     bindR (sched_required args ''binding_id'') (\<lambda>binding_id.
     bindR (sched_required args ''source_topic'') (\<lambda>source_topic.
     bindR (sched_required args ''target_sop_id'') (\<lambda>target_sop_id.
     bindR (sched_required args ''target_template_version'') (\<lambda>target_version.
     bindR (nonnegative args ''default_delay_ms'' 0) (\<lambda>default_delay.
     Inr [(''binding_id'', JStr binding_id), (''trigger_kind'', JStr trigger_kind),
       (''source_topic'', JStr source_topic),
       (''source_sop_id'', jopt_str (trimmed (arg_str args ''source_sop_id''))),
       (''terminal_outcomes'', JArr (map JStr (terminal_outcomes_of args))),
       (''target_sop_id'', JStr target_sop_id),
       (''target_template_version'', JStr target_version), (''concurrency'', JStr concurrency),
       (''delay_by_outcome_ms'', JObj (sort_key fst delays)),
       (''default_delay_ms'', jint default_delay), (''retry_base_ms'', jint retry_base),
       (''retry_max_ms'', jint retry_max), (''max_attempts'', jint max_attempts),
       (''blocked_policy'', JStr ''manual_unblock'')])))))))))))))))"

text \<open>The columns a specification fills.\<close>

definition spec_row ::
    "string \<Rightarrow> jmap \<Rightarrow> string \<Rightarrow> binding_status \<Rightarrow> int \<Rightarrow> string \<Rightarrow> string \<Rightarrow> sched_binding" where
  "spec_row binding_id spec spec_digest status revision created updated =
     \<lparr>b_id = binding_id, b_trigger_kind = text_of spec ''trigger_kind'',
      b_source_topic = text_of spec ''source_topic'',
      b_source_sop_id = optional_text spec ''source_sop_id'',
      b_terminal_outcomes = canonicalize
        (case obj_get spec ''terminal_outcomes'' of None \<Rightarrow> JArr [] | Some v \<Rightarrow> v),
      b_target_sop_id = text_of spec ''target_sop_id'',
      b_target_version = text_of spec ''target_template_version'',
      b_concurrency = text_of spec ''concurrency'',
      b_delays = canonicalize
        (case obj_get spec ''delay_by_outcome_ms'' of None \<Rightarrow> JObj [] | Some v \<Rightarrow> v),
      b_default_delay = integer_of spec ''default_delay_ms'',
      b_retry_base = integer_of spec ''retry_base_ms'',
      b_retry_max = integer_of spec ''retry_max_ms'',
      b_max_attempts = integer_of spec ''max_attempts'', b_status = status,
      b_revision = revision, b_spec_digest = spec_digest, b_created_at = created,
      b_updated_at = updated\<rparr>"

section \<open>Operations\<close>

definition binding_reply :: "sched_binding \<Rightarrow> json" where
  "binding_reply b =
     JObj [(''schema'', JStr ''narada.scheduler.binding.v1''), (''binding'', binding_value b)]"

definition revision_conflict :: "int \<Rightarrow> int \<Rightarrow> failure" where
  "revision_conflict expected actual =
     rejected ''scheduler_binding_revision_conflict''
       (''scheduler_binding_revision_conflict:expected_'' @ show_int expected @ '':actual_'' @ show_int actual)"

definition upsert_insert ::
    "sched_call \<Rightarrow> jmap \<Rightarrow> jmap \<Rightarrow> string \<Rightarrow> string \<Rightarrow> string \<Rightarrow> sched_store \<Rightarrow> failure + sched_store" where
  "upsert_insert c args spec binding_id spec_digest now s =
     bindR (refuse_if (obj_get args ''expected_revision'' \<noteq> None)
       (rejected ''scheduler_binding_not_found'' ''scheduler_binding_not_found'')) (\<lambda>_.
     bindR (sql c ''insert binding'' ''scheduler_binding_insert_failed'') (\<lambda>_.
     let row = spec_row binding_id spec spec_digest Active 1 now now in
     bindR (constraint c (binding_checks row) ''scheduler_bindings'' ''scheduler_binding_insert_failed'')
       (\<lambda>_. Inr (s\<lparr>tbl_bindings := tbl_bindings s @ [row]\<rparr>))))"

definition upsert_update ::
    "sched_call \<Rightarrow> int \<Rightarrow> sched_binding \<Rightarrow> jmap \<Rightarrow> string \<Rightarrow> string \<Rightarrow> sched_store
      \<Rightarrow> failure + sched_store" where
  "upsert_update c expected current spec spec_digest now s =
     bindR (refuse_if (expected \<noteq> b_revision current) (revision_conflict expected (b_revision current))) (\<lambda>_.
     bindR (sql c ''update binding'' ''scheduler_binding_update_failed'') (\<lambda>_.
     let row = spec_row (b_id current) spec spec_digest (b_status current)
                 (b_revision current + 1) (b_created_at current) now in
     bindR (constraint c (binding_checks row) ''scheduler_bindings'' ''scheduler_binding_update_failed'')
       (\<lambda>_. Inr (update_bindings (\<lambda>b. b_id b = b_id current) (\<lambda>_. row) s))))"

definition upsert_action ::
    "sched_call \<Rightarrow> jmap \<Rightarrow> jmap \<Rightarrow> string \<Rightarrow> string \<Rightarrow> string \<Rightarrow> json tx" where
  "upsert_action c args spec binding_id spec_digest now s =
     bindR (query_binding c s binding_id) (\<lambda>existing.
     case existing of
       Some current \<Rightarrow>
         (case arg_int args ''expected_revision'' of
            None \<Rightarrow>
              if b_spec_digest current = spec_digest then Inr (binding_reply current, s)
              else Inl (rejected ''scheduler_binding_expected_revision_required''
                     ''scheduler_binding_expected_revision_required'')
          | Some expected \<Rightarrow>
              bindR (upsert_update c expected current spec spec_digest now s) (\<lambda>s'.
              bindR (require_binding c s' binding_id) (\<lambda>b. Inr (binding_reply b, s'))))
     | None \<Rightarrow>
         bindR (upsert_insert c args spec binding_id spec_digest now s) (\<lambda>s'.
         bindR (require_binding c s' binding_id) (\<lambda>b. Inr (binding_reply b, s'))))"

definition binding_upsert ::
    "sched_host \<Rightarrow> sched_call \<Rightarrow> jmap \<Rightarrow> sched_store \<Rightarrow> sched_store \<times> (failure + json)" where
  "binding_upsert h c args s =
     (case bindR (normalize_binding args) (\<lambda>spec.
             bindR (sched_required spec ''binding_id'') (\<lambda>i. Inr (spec, i))) of
        Inl f \<Rightarrow> (s, Inl f)
      | Inr (spec, binding_id) \<Rightarrow>
          transaction c
            (upsert_action c args spec binding_id (sched_digest h (JObj spec))
              (format_iso h (clock_first c))) s)"

definition ends_with :: "string \<Rightarrow> string \<Rightarrow> bool" where
  "ends_with p s \<longleftrightarrow> drop (length s - length p) s = p"

definition status_of_tool :: "string \<Rightarrow> binding_status" where
  "status_of_tool tool =
     (if ends_with ''_pause'' tool then Paused
      else if ends_with ''_resume'' tool then Active else Retired)"

definition lease_expired :: "string \<Rightarrow> activation \<Rightarrow> bool" where
  "lease_expired now a \<longleftrightarrow>
     a_status a = Leased \<and> (case a_lease_expires_at a of None \<Rightarrow> False | Some t \<Rightarrow> t \<le> now)"

definition quiesce :: "string \<Rightarrow> string \<Rightarrow> activation \<Rightarrow> activation" where
  "quiesce reason now a =
     a\<lparr>a_status := Terminal, a_terminal_outcome := Some ''cancelled_binding_paused'',
       a_lease_owner := None, a_lease_token := None, a_lease_expires_at := None,
       a_last_error := Some reason, a_updated_at := now\<rparr>"

definition status_action ::
    "sched_call \<Rightarrow> string \<Rightarrow> int \<Rightarrow> binding_status \<Rightarrow> string \<Rightarrow> json tx" where
  "status_action c binding_id expected status now s =
     bindR (require_binding c s binding_id) (\<lambda>current.
     bindR (refuse_if (b_revision current \<noteq> expected)
       (revision_conflict expected (b_revision current))) (\<lambda>_.
     bindR (sql c ''update binding status'' ''scheduler_binding_status_update_failed'') (\<lambda>_.
     let s' = update_bindings (\<lambda>b. b_id b = binding_id)
                (\<lambda>b. b\<lparr>b_status := status, b_revision := b_revision b + 1, b_updated_at := now\<rparr>) s in
     bindR (if status = Paused
            then bindR (sql c ''quiesce binding'' ''scheduler_binding_quiesce_failed'') (\<lambda>_.
              Inr (update_activations
                (\<lambda>a. a_binding_id a = binding_id \<and> (a_status a = Pending \<or> lease_expired now a))
                (quiesce ''binding_paused_before_admission'' now) s'))
            else Inr s') (\<lambda>t.
     bindR (require_binding c t binding_id) (\<lambda>b. Inr (binding_reply b, t))))))"

definition binding_set_status ::
    "sched_host \<Rightarrow> sched_call \<Rightarrow> string \<Rightarrow> jmap \<Rightarrow> sched_store \<Rightarrow> sched_store \<times> (failure + json)" where
  "binding_set_status h c tool args s =
     (case bindR (sched_required args ''binding_id'') (\<lambda>binding_id.
             bindR (required_integer args ''expected_revision'') (\<lambda>expected. Inr (binding_id, expected))) of
        Inl f \<Rightarrow> (s, Inl f)
      | Inr (binding_id, expected) \<Rightarrow>
          transaction c
            (status_action c binding_id expected (status_of_tool tool) (format_iso h (clock_first c))) s)"

section \<open>Reading\<close>

definition list_window :: "jmap \<Rightarrow> nat \<times> nat" where
  "list_window args =
     (nat (clamp 1 500 (case arg_int args ''limit'' of None \<Rightarrow> 100 | Some i \<Rightarrow> i)),
      nat (clamp 0 10000 (case arg_int args ''offset'' of None \<Rightarrow> 0 | Some i \<Rightarrow> i)))"

text \<open>The reply of a list tool; \<open>fetched\<close> are at most one row more than the page holds.\<close>

definition list_reply :: "string \<Rightarrow> string \<Rightarrow> nat \<Rightarrow> nat \<Rightarrow> json list \<Rightarrow> json" where
  "list_reply schema key count skip fetched =
     (let has_more = count < length fetched; rows = take count fetched; returned = length rows in
      JObj [(''schema'', JStr schema), (''status'', JStr ''ok''), (''count'', jnat returned),
        (''returned'', jnat returned), (key, JArr rows), (''offset'', jnat skip),
        (''limit'', jnat count), (''has_more'', JBool has_more),
        (''next_offset'', if has_more then jnat (skip + returned) else JNull),
        (''bounded'', JBool True)])"

definition select_bindings :: "string option \<Rightarrow> nat \<Rightarrow> nat \<Rightarrow> sched_store \<Rightarrow> sched_binding list" where
  "select_bindings status count skip s =
     take count (drop skip
       (sort_key b_id (filter (\<lambda>b. column_is status (binding_status_text (b_status b))) (tbl_bindings s))))"

definition binding_list :: "sched_call \<Rightarrow> jmap \<Rightarrow> sched_store \<Rightarrow> failure + json" where
  "binding_list c args s =
     bindR (case arg_str args ''status'' of
              None \<Rightarrow> Inr ()
            | Some v \<Rightarrow> refuse_if (v \<notin> {''active'', ''paused'', ''retired''})
                (rejected ''scheduler_binding_status_invalid'' ''scheduler_binding_status_invalid'')) (\<lambda>_.
     let (count, skip) = list_window args in
     bindR (sql c ''list bindings'' ''scheduler_binding_query_failed'') (\<lambda>_.
     Inr (list_reply ''narada.scheduler.binding_list.v1'' ''bindings'' count skip
       (map binding_value (select_bindings (arg_str args ''status'') (count + 1) skip s)))))"

definition binding_show :: "sched_call \<Rightarrow> jmap \<Rightarrow> sched_store \<Rightarrow> failure + json" where
  "binding_show c args s =
     bindR (sched_required args ''binding_id'') (\<lambda>binding_id.
     bindR (require_binding c s binding_id) (\<lambda>b. Inr (binding_reply b)))"

end
