(* ===== verification/Sched_Events.thy ===== *)
theory Sched_Events
  imports Sched_Bindings
begin

text \<open>
  Source events (the second half of \<^verbatim>\<open>scheduler_activation/parts/03.rs\<close>): normalization,
  matching against bindings, the delay of an activation, and the admission of an event, which
  stores it once and creates one activation for every active binding it matches.
\<close>

section \<open>Normalization\<close>

definition event_fields :: "string list" where
  "event_fields =
     [''event_id'', ''topic'', ''partition_key'', ''aggregate_id'', ''causation_id'', ''idempotency_key'']"

definition payload_arg :: "jmap \<Rightarrow> jmap" where
  "payload_arg args =
     (case Option.bind (obj_get args ''payload'') as_object of None \<Rightarrow> [] | Some m \<Rightarrow> m)"

definition normalize_event :: "sched_host \<Rightarrow> jmap \<Rightarrow> failure + jmap" where
  "normalize_event h args =
     bindR (bindR (sched_required args ''occurred_at'') (parse_iso h)) (\<lambda>occurred.
     bindR (required_integer args ''aggregate_revision'') (\<lambda>aggregate_revision.
     bindR (refuse_if (aggregate_revision < 0)
       (rejected ''scheduler_event_aggregate_revision_invalid'' ''scheduler_event_aggregate_revision_invalid'')) (\<lambda>_.
     bindR (required_integer args ''schema_version'') (\<lambda>schema_version.
     bindR (refuse_if (schema_version < 1)
       (rejected ''scheduler_event_schema_version_invalid'' ''scheduler_event_schema_version_invalid'')) (\<lambda>_.
     bindR (bounded_json h (JObj (payload_arg args)) ''scheduler_event_payload'' max_event_bytes) (\<lambda>_.
     bindR (mapR (\<lambda>field. bindR (sched_required args field) (\<lambda>v. Inr (field, JStr v))) event_fields) (\<lambda>texts.
     Inr (texts @
       [(''aggregate_revision'', jint aggregate_revision), (''schema_version'', jint schema_version),
        (''payload'', JObj (payload_arg args)),
        (''occurred_at'', JStr (format_iso h occurred))]))))))))"

definition event_row :: "string \<Rightarrow> jmap \<Rightarrow> string \<Rightarrow> string \<Rightarrow> source_event" where
  "event_row event_id ev event_digest now =
     \<lparr>e_id = event_id, e_topic = text_of ev ''topic'',
      e_partition_key = text_of ev ''partition_key'', e_aggregate_id = text_of ev ''aggregate_id'',
      e_aggregate_revision = integer_of ev ''aggregate_revision'',
      e_schema_version = integer_of ev ''schema_version'',
      e_causation_id = text_of ev ''causation_id'',
      e_idempotency_key = text_of ev ''idempotency_key'',
      e_payload = canonicalize (case obj_get ev ''payload'' of None \<Rightarrow> JObj [] | Some v \<Rightarrow> v),
      e_digest = event_digest, e_occurred_at = text_of ev ''occurred_at'', e_admitted_at = now\<rparr>"

section \<open>Matching and delays\<close>

definition payload_of :: "jmap \<Rightarrow> jmap option" where
  "payload_of ev = Option.bind (obj_get ev ''payload'') as_object"

definition payload_text :: "jmap \<Rightarrow> string \<Rightarrow> string option" where
  "payload_text ev key = Option.bind (payload_of ev) (\<lambda>m. arg_str m key)"

definition binding_matches :: "sched_binding \<Rightarrow> jmap \<Rightarrow> bool" where
  "binding_matches b ev \<longleftrightarrow>
     (case b_source_sop_id b of None \<Rightarrow> True | Some expected \<Rightarrow> payload_text ev ''sop_id'' = Some expected) \<and>
     (case as_array (b_terminal_outcomes b) of
        None \<Rightarrow> True
      | Some outcomes \<Rightarrow>
          outcomes = [] \<or>
          (\<exists>v \<in> set outcomes.
             as_str v = Some (case payload_text ev ''outcome'' of None \<Rightarrow> [] | Some x \<Rightarrow> x)))"

definition backoff :: "int \<Rightarrow> int \<Rightarrow> nat \<Rightarrow> int" where
  "backoff base cap exponent = min (saturating_mul base (2 ^ exponent)) cap"

definition retry_exponent :: "jmap \<Rightarrow> nat" where
  "retry_exponent payload =
     nat (min (max (case arg_int payload ''attempt'' of None \<Rightarrow> 1 | Some i \<Rightarrow> i) 1) 31 - 1)"

definition delay_for :: "sched_binding \<Rightarrow> string \<Rightarrow> jmap \<Rightarrow> int" where
  "delay_for b outcome payload =
     (if outcome = ''retryable_failure''
      then backoff (b_retry_base b) (b_retry_max b) (retry_exponent payload)
      else case Option.bind (Option.bind (as_object (b_delays b)) (\<lambda>m. obj_get m outcome)) as_i64 of
             Some d \<Rightarrow> d
           | None \<Rightarrow> b_default_delay b)"

section \<open>Admission\<close>

definition activation_key :: "sched_host \<Rightarrow> string \<Rightarrow> string \<Rightarrow> string" where
  "activation_key h binding_id event_id =
     stable_id h ''activation''
       (JObj [(''binding_id'', JStr binding_id), (''source_event_id'', JStr event_id)])"

definition outcome_of :: "jmap \<Rightarrow> string" where
  "outcome_of payload = (case arg_str payload ''outcome'' of None \<Rightarrow> ''default'' | Some x \<Rightarrow> x)"

definition new_activation ::
    "sched_host \<Rightarrow> sched_binding \<Rightarrow> jmap \<Rightarrow> string \<Rightarrow> string \<Rightarrow> string \<Rightarrow> activation" where
  "new_activation h b ev event_id due now =
     (let payload = (case payload_of ev of None \<Rightarrow> [] | Some m \<Rightarrow> m);
          blocked = (outcome_of payload = ''blocked'') in
      \<lparr>a_id = activation_key h (b_id b) event_id, a_binding_id = b_id b,
       a_source_event_id = event_id, a_occurrence_key = b_id b @ '':'' @ event_id,
       a_target_sop_id = b_target_sop_id b, a_target_version = b_target_version b,
       a_partition_key =
         (if b_concurrency b = ''singleton'' then b_id b else text_of ev ''partition_key''),
       a_due_at = due, a_status = (if blocked then Blocked else Pending), a_attempt_count = 0,
       a_lease_owner = None, a_lease_token = None, a_lease_expires_at = None, a_sop_run_id = None,
       a_terminal_outcome = None,
       a_last_error = (if blocked then Some ''blocked_outcome_requires_explicit_unblock'' else None),
       a_created_at = now, a_updated_at = now\<rparr>)"

definition insert_activation ::
    "sched_call \<Rightarrow> activation \<Rightarrow> sched_store \<Rightarrow> failure + sched_store" where
  "insert_activation c row s =
     bindR (sql c (''insert activation '' @ a_id row) ''scheduler_activation_insert_failed'') (\<lambda>_.
     bindR (constraint c (activation_unique (tbl_activations s @ [row])) ''scheduler_activations''
       ''scheduler_activation_insert_failed'')
       (\<lambda>_. Inr (s\<lparr>tbl_activations := tbl_activations s @ [row]\<rparr>)))"

text \<open>One binding of the loop.\<close>

definition admit_binding ::
    "sched_host \<Rightarrow> sched_call \<Rightarrow> jmap \<Rightarrow> string \<Rightarrow> string \<Rightarrow> sched_binding \<Rightarrow> sched_store
      \<Rightarrow> failure + sched_store" where
  "admit_binding h c ev event_id now b s =
     (if \<not> binding_matches b ev then Inr s
      else
        bindR (query_activation c s (activation_key h (b_id b) event_id)) (\<lambda>existing.
        if existing \<noteq> None then Inr s
        else
          let payload = (case payload_of ev of None \<Rightarrow> [] | Some m \<Rightarrow> m) in
          bindR (parse_iso h (text_of ev ''occurred_at'')) (\<lambda>occurred.
          bindR (plus_millis h occurred (delay_for b (outcome_of payload) payload)) (\<lambda>due.
          insert_activation c (new_activation h b ev event_id (format_iso h due) now) s))))"

fun admit_bindings ::
    "sched_host \<Rightarrow> sched_call \<Rightarrow> jmap \<Rightarrow> string \<Rightarrow> string \<Rightarrow> sched_binding list \<Rightarrow> sched_store
      \<Rightarrow> failure + sched_store" where
  "admit_bindings h c ev event_id now [] s = Inr s"
| "admit_bindings h c ev event_id now (b # bs) s =
     bindR (admit_binding h c ev event_id now b s) (admit_bindings h c ev event_id now bs)"

definition active_bindings :: "string \<Rightarrow> sched_store \<Rightarrow> sched_binding list" where
  "active_bindings topic s =
     sort_key b_id (filter (\<lambda>b. b_source_topic b = topic \<and> b_status b = Active) (tbl_bindings s))"

definition lookup_event :: "sched_store \<Rightarrow> string \<Rightarrow> source_event option" where
  "lookup_event s i = find (\<lambda>ev. e_id ev = i) (tbl_events s)"

definition store_event ::
    "sched_host \<Rightarrow> sched_call \<Rightarrow> jmap \<Rightarrow> string \<Rightarrow> string \<Rightarrow> string \<Rightarrow> sched_store
      \<Rightarrow> failure + sched_store" where
  "store_event h c ev event_id event_digest now s =
     (case lookup_event s event_id of
        Some existing \<Rightarrow>
          bindR (refuse_if (e_digest existing \<noteq> event_digest)
            (rejected ''scheduler_event_idempotency_conflict''
               (''scheduler_event_idempotency_conflict:'' @ event_id))) (\<lambda>_. Inr s)
      | None \<Rightarrow>
          bindR (sql c ''insert event'' ''scheduler_event_insert_failed'') (\<lambda>_.
          let row = event_row event_id ev event_digest now in
          bindR (constraint c (event_checks h row) ''scheduler_source_events''
            ''scheduler_event_insert_failed'')
            (\<lambda>_. Inr (s\<lparr>tbl_events := tbl_events s @ [row]\<rparr>))))"

definition admission_reply :: "bool \<Rightarrow> string \<Rightarrow> activation list \<Rightarrow> json" where
  "admission_reply replayed event_id rows =
     JObj [(''schema'', JStr ''narada.scheduler.event_admission.v1''),
       (''status'', JStr (if replayed then ''replayed'' else ''admitted'')),
       (''event_id'', JStr event_id), (''activation_count'', jnat (length rows)),
       (''activations'', JArr (map activation_value rows))]"

definition admit_action ::
    "sched_host \<Rightarrow> sched_call \<Rightarrow> jmap \<Rightarrow> string \<Rightarrow> string \<Rightarrow> json tx" where
  "admit_action h c ev event_id now s =
     bindR (sql c ''select event digest'' ''scheduler_event_query_failed'') (\<lambda>_.
     bindR (store_event h c ev event_id (sched_digest h (JObj ev)) now s) (\<lambda>s1.
     bindR (sql c ''select active bindings'' ''scheduler_binding_query_failed'') (\<lambda>_.
     bindR (admit_bindings h c ev event_id now (active_bindings (text_of ev ''topic'') s1) s1) (\<lambda>s2.
     bindR (list_activations c s2 None None (Some event_id) None 500 0) (\<lambda>rows.
     Inr (admission_reply (lookup_event s event_id \<noteq> None) event_id rows, s2))))))"

definition event_admit ::
    "sched_host \<Rightarrow> sched_call \<Rightarrow> jmap \<Rightarrow> sched_store \<Rightarrow> sched_store \<times> (failure + json)" where
  "event_admit h c args s =
     (case bindR (normalize_event h args) (\<lambda>ev.
             bindR (sched_required ev ''event_id'') (\<lambda>i. Inr (ev, i))) of
        Inl f \<Rightarrow> (s, Inl f)
      | Inr (ev, event_id) \<Rightarrow>
          transaction c (admit_action h c ev event_id (format_iso h (clock_first c))) s)"

definition event_show :: "sched_call \<Rightarrow> jmap \<Rightarrow> sched_store \<Rightarrow> failure + json" where
  "event_show c args s =
     bindR (sched_required args ''event_id'') (\<lambda>event_id.
     bindR (sql c ''select event'' ''scheduler_event_query_failed'') (\<lambda>_.
     bindR (ok_or (lookup_event s event_id)
       (rejected ''scheduler_source_event_not_found'' (''scheduler_source_event_not_found:'' @ event_id))) (\<lambda>ev.
     Inr (JObj [(''schema'', JStr ''narada.scheduler.source_event.v1''), (''event'', event_value ev)]))))"

end
