(* ===== verification/Sched_Queue.thy ===== *)
theory Sched_Queue
  imports Sched_Events
begin

text \<open>
  The activation queue (\<^verbatim>\<open>scheduler_activation/parts/04.rs\<close> and the first half of
  \<^verbatim>\<open>parts/05.rs\<close>): listing, claiming under a lease with recovery of expired leases, the lease
  check, and the operations that end a lease or an activation.
\<close>

section \<open>Listing\<close>

definition activation_list :: "sched_call \<Rightarrow> jmap \<Rightarrow> sched_store \<Rightarrow> failure + json" where
  "activation_list c args s =
     (let (count, skip) = list_window args in
      bindR (list_activations c s (arg_str args ''status'') (arg_str args ''binding_id'')
        (arg_str args ''source_event_id'') (arg_str args ''sop_run_id'') (count + 1) skip) (\<lambda>rows.
      Inr (list_reply ''narada.scheduler.activation_list.v1'' ''activations'' count skip
        (map activation_value rows))))"

section \<open>Claiming\<close>

definition binding_in :: "sched_store \<Rightarrow> binding_status set \<Rightarrow> string \<Rightarrow> bool" where
  "binding_in s allowed i \<longleftrightarrow> (\<exists>b \<in> set (tbl_bindings s). b_id b = i \<and> b_status b \<in> allowed)"

text \<open>Recovery of expired leases: cancelled when the binding is paused, queued again otherwise.\<close>

definition cancel_expired :: "string \<Rightarrow> sched_store \<Rightarrow> sched_store" where
  "cancel_expired now s =
     update_activations (\<lambda>a. lease_expired now a \<and> binding_in s {Paused} (a_binding_id a))
       (quiesce ''binding_paused_after_lease_expiry'' now) s"

definition requeue :: "string \<Rightarrow> activation \<Rightarrow> activation" where
  "requeue now a =
     a\<lparr>a_status := Pending, a_lease_owner := None, a_lease_token := None, a_lease_expires_at := None,
       a_attempt_count := a_attempt_count a + 1, a_last_error := Some ''lease_expired'',
       a_updated_at := now\<rparr>"

definition requeue_expired :: "string \<Rightarrow> sched_store \<Rightarrow> sched_store" where
  "requeue_expired now s =
     update_activations (\<lambda>a. lease_expired now a \<and> binding_in s {Active, Retired} (a_binding_id a))
       (requeue now) s"

definition in_flight :: "activation \<Rightarrow> bool" where
  "in_flight a \<longleftrightarrow> a_status a = Leased \<or> a_status a = Admitted"

definition claimable :: "string \<Rightarrow> sched_store \<Rightarrow> activation \<Rightarrow> bool" where
  "claimable now s a \<longleftrightarrow>
     a_status a = Pending \<and> a_due_at a \<le> now \<and>
     binding_in s {Active, Retired} (a_binding_id a) \<and>
     \<not> (\<exists>x \<in> set (tbl_activations s).
          a_binding_id x = a_binding_id a \<and> a_partition_key x = a_partition_key a \<and>
          a_id x \<noteq> a_id a \<and> in_flight x)"

definition next_claim :: "string \<Rightarrow> sched_store \<Rightarrow> activation option" where
  "next_claim now s =
     (case sort_key a_due_at (sort_key a_id (filter (claimable now s) (tbl_activations s))) of
        [] \<Rightarrow> None | a # _ \<Rightarrow> Some a)"

definition lease :: "string \<Rightarrow> string \<Rightarrow> string \<Rightarrow> string \<Rightarrow> activation \<Rightarrow> activation" where
  "lease consumer token expires now a =
     a\<lparr>a_status := Leased, a_lease_owner := Some consumer, a_lease_token := Some token,
       a_lease_expires_at := Some expires, a_updated_at := now\<rparr>"

definition claim_reply :: "activation option \<Rightarrow> json" where
  "claim_reply found =
     JObj [(''schema'', JStr ''narada.scheduler.activation_claim.v1''),
       (''activation'', case found of None \<Rightarrow> JNull | Some a \<Rightarrow> activation_value a)]"

definition claim_action :: "sched_call \<Rightarrow> string \<Rightarrow> string \<Rightarrow> string \<Rightarrow> json tx" where
  "claim_action c consumer now expires s =
     bindR (sql c ''cancel expired'' ''scheduler_activation_recovery_failed'') (\<lambda>_.
     let s1 = cancel_expired now s in
     bindR (sql c ''requeue expired'' ''scheduler_activation_recovery_failed'') (\<lambda>_.
     let s2 = requeue_expired now s1 in
     bindR (sql c ''select claim'' ''scheduler_activation_claim_failed'') (\<lambda>_.
     case next_claim now s2 of
       None \<Rightarrow> Inr (claim_reply None, s2)
     | Some a \<Rightarrow>
         bindR (sql c ''lease'' ''scheduler_activation_claim_failed'') (\<lambda>_.
         let s3 = update_activations (\<lambda>x. a_id x = a_id a \<and> a_status x = Pending)
                    (lease consumer (fresh_uuid c) expires now) s2 in
         bindR (query_activation c s3 (a_id a)) (\<lambda>found. Inr (claim_reply found, s3))))))"

definition lease_ms_of :: "jmap \<Rightarrow> int" where
  "lease_ms_of args = (case arg_int args ''lease_ms'' of None \<Rightarrow> 30000 | Some i \<Rightarrow> i)"

definition activation_claim ::
    "sched_host \<Rightarrow> sched_call \<Rightarrow> jmap \<Rightarrow> sched_store \<Rightarrow> sched_store \<times> (failure + json)" where
  "activation_claim h c args s =
     (case bindR (sched_required args ''consumer_id'') (\<lambda>consumer.
           bindR (refuse_if (\<not> (1000 \<le> lease_ms_of args \<and> lease_ms_of args \<le> 300000))
             (rejected ''scheduler_activation_lease_ms_invalid'' ''scheduler_activation_lease_ms_invalid'')) (\<lambda>_.
           bindR (plus_millis h (clock_first c) (lease_ms_of args)) (\<lambda>expires.
           Inr (consumer, expires)))) of
        Inl f \<Rightarrow> (s, Inl f)
      | Inr (consumer, expires) \<Rightarrow>
          transaction c
            (claim_action c consumer (format_iso h (clock_first c)) (format_iso h expires)) s)"

section \<open>Under a lease\<close>

definition require_leased ::
    "sched_host \<Rightarrow> sched_call \<Rightarrow> string \<Rightarrow> string \<Rightarrow> string \<Rightarrow> sched_store \<Rightarrow> failure + activation" where
  "require_leased h c i consumer token s =
     bindR (require_activation c s i) (\<lambda>a.
     bindR (refuse_if (a_status a \<noteq> Leased)
       (rejected ''scheduler_activation_not_leased''
         (''scheduler_activation_not_leased:'' @ activation_status_text (a_status a)))) (\<lambda>_.
     bindR (refuse_if (a_lease_owner a \<noteq> Some consumer)
       (rejected ''scheduler_activation_lease_owner_mismatch'' ''scheduler_activation_lease_owner_mismatch'')) (\<lambda>_.
     bindR (refuse_if (a_lease_token a \<noteq> Some token)
       (rejected ''scheduler_activation_lease_token_mismatch'' ''scheduler_activation_lease_token_mismatch'')) (\<lambda>_.
     bindR (refuse_if
         ((case a_lease_expires_at a of None \<Rightarrow> [] | Some t \<Rightarrow> t) \<le> format_iso h (clock_later c))
       (rejected ''scheduler_activation_lease_expired'' ''scheduler_activation_lease_expired''))
       (\<lambda>_. Inr a)))))"

definition record_receipt ::
    "sched_host \<Rightarrow> sched_call \<Rightarrow> string \<Rightarrow> string \<Rightarrow> string \<Rightarrow> json \<Rightarrow> string \<Rightarrow> sched_store
      \<Rightarrow> failure + sched_store" where
  "record_receipt h c activation_id kind receipt_id receipt now s =
     bindR (bounded_json h receipt ''scheduler_activation_receipt'' max_event_bytes) (\<lambda>encoded.
     bindR (sql c ''insert receipt'' ''scheduler_activation_receipt_failed'') (\<lambda>_.
     let row = \<lparr>r_activation_id = activation_id, r_kind = kind, r_id = receipt_id,
                r_json = encoded, r_recorded_at = now\<rparr> in
     bindR (constraint c (receipt_unique (tbl_receipts s @ [row])) ''scheduler_activation_receipts''
       ''scheduler_activation_receipt_failed'')
       (\<lambda>_. Inr (s\<lparr>tbl_receipts := tbl_receipts s @ [row]\<rparr>))))"

definition activation_reply :: "activation \<Rightarrow> json" where
  "activation_reply a =
     JObj [(''schema'', JStr ''narada.scheduler.activation.v1''), (''activation'', activation_value a)]"

definition reply_activation :: "sched_call \<Rightarrow> string \<Rightarrow> json tx" where
  "reply_activation c i s =
     bindR (require_activation c s i) (\<lambda>a. Inr (activation_reply a, s))"

definition set_admitted :: "string \<Rightarrow> string \<Rightarrow> activation \<Rightarrow> activation" where
  "set_admitted sop_run_id now a =
     a\<lparr>a_status := Admitted, a_sop_run_id := Some sop_run_id, a_lease_owner := None,
       a_lease_token := None, a_lease_expires_at := None, a_updated_at := now\<rparr>"

definition admit_sop_action ::
    "sched_host \<Rightarrow> sched_call \<Rightarrow> string \<Rightarrow> string \<Rightarrow> string \<Rightarrow> string \<Rightarrow> string \<Rightarrow> json \<Rightarrow> string \<Rightarrow> json tx" where
  "admit_sop_action h c i consumer token sop_run_id receipt_id receipt now s =
     bindR (require_leased h c i consumer token s) (\<lambda>_.
     bindR (sql c ''admit activation'' ''scheduler_activation_admit_failed'') (\<lambda>_.
     let s1 = update_activations (\<lambda>a. a_id a = i) (set_admitted sop_run_id now) s in
     bindR (constraint c (run_unique (tbl_activations s1)) ''sop_run_id''
       ''scheduler_activation_admit_failed'') (\<lambda>_.
     bindR (record_receipt h c i ''sop_admission'' receipt_id receipt now s1) (reply_activation c i))))"

definition receipt_arg :: "jmap \<Rightarrow> json" where
  "receipt_arg args = (case obj_get args ''receipt'' of None \<Rightarrow> JObj [] | Some v \<Rightarrow> v)"

definition activation_admit_sop ::
    "sched_host \<Rightarrow> sched_call \<Rightarrow> jmap \<Rightarrow> sched_store \<Rightarrow> sched_store \<times> (failure + json)" where
  "activation_admit_sop h c args s =
     (case bindR (sched_required args ''activation_id'') (\<lambda>i.
           bindR (sched_required args ''consumer_id'') (\<lambda>consumer.
           bindR (sched_required args ''lease_token'') (\<lambda>token.
           bindR (sched_required args ''sop_run_id'') (\<lambda>sop_run_id.
           bindR (sched_required args ''receipt_id'') (\<lambda>receipt_id.
           Inr (i, consumer, token, sop_run_id, receipt_id)))))) of
        Inl f \<Rightarrow> (s, Inl f)
      | Inr (i, consumer, token, sop_run_id, receipt_id) \<Rightarrow>
          transaction c
            (admit_sop_action h c i consumer token sop_run_id receipt_id (receipt_arg args)
              (format_iso h (clock_first c))) s)"

definition set_failed :: "bool \<Rightarrow> int \<Rightarrow> string \<Rightarrow> string \<Rightarrow> string \<Rightarrow> activation \<Rightarrow> activation" where
  "set_failed retry attempt due problem now a =
     a\<lparr>a_status := (if retry then Pending else Blocked), a_attempt_count := attempt,
       a_lease_owner := None, a_lease_token := None, a_lease_expires_at := None, a_due_at := due,
       a_last_error := Some problem, a_updated_at := now\<rparr>"

text \<open>\<^verbatim>\<open>chars().take(n)\<close>: whole characters of the UTF-8 text; a byte 10xxxxxx continues one.\<close>

fun take_chars :: "nat \<Rightarrow> string \<Rightarrow> string" where
  "take_chars n [] = []"
| "take_chars n (ch # s) =
     (if continuation ch then ch # take_chars n s
      else case n of 0 \<Rightarrow> [] | Suc k \<Rightarrow> ch # take_chars k s)"

definition fail_action ::
    "sched_host \<Rightarrow> sched_call \<Rightarrow> string \<Rightarrow> string \<Rightarrow> string \<Rightarrow> bool \<Rightarrow> string \<Rightarrow> json tx" where
  "fail_action h c i consumer token retryable problem s =
     bindR (require_leased h c i consumer token s) (\<lambda>a.
     bindR (require_binding c s (a_binding_id a)) (\<lambda>b.
     let attempt = a_attempt_count a + 1;
         retry = (retryable \<and> attempt < b_max_attempts b);
         delay = backoff (b_retry_base b) (b_retry_max b) (nat (clamp 0 30 (attempt - 1))) in
     bindR (plus_millis h (clock_first c) delay) (\<lambda>due.
     bindR (sql c ''fail activation'' ''scheduler_activation_fail_failed'') (\<lambda>_.
     reply_activation c i
       (update_activations (\<lambda>x. a_id x = i)
         (set_failed retry attempt (format_iso h due) (take_chars max_error_bytes problem)
           (format_iso h (clock_first c))) s)))))"

definition activation_fail ::
    "sched_host \<Rightarrow> sched_call \<Rightarrow> jmap \<Rightarrow> sched_store \<Rightarrow> sched_store \<times> (failure + json)" where
  "activation_fail h c args s =
     (case bindR (sched_required args ''activation_id'') (\<lambda>i.
           bindR (sched_required args ''consumer_id'') (\<lambda>consumer.
           bindR (sched_required args ''lease_token'') (\<lambda>token.
           bindR (sched_required args ''error'') (\<lambda>problem.
           Inr (i, consumer, token, problem))))) of
        Inl f \<Rightarrow> (s, Inl f)
      | Inr (i, consumer, token, problem) \<Rightarrow>
          transaction c
            (fail_action h c i consumer token
              (Option.bind (obj_get args ''retryable'') as_bool = Some True) problem) s)"

section \<open>Ending an activation\<close>

definition set_resolved :: "string \<Rightarrow> string \<Rightarrow> activation \<Rightarrow> activation" where
  "set_resolved outcome now a =
     a\<lparr>a_status := Terminal, a_terminal_outcome := Some outcome, a_updated_at := now\<rparr>"

definition terminal_receipt :: "sched_store \<Rightarrow> string \<Rightarrow> string option" where
  "terminal_receipt s i =
     map_option r_id (find (\<lambda>r. r_activation_id r = i \<and> r_kind r = ''terminal'') (tbl_receipts s))"

definition find_resolvable ::
    "sched_call \<Rightarrow> string option \<Rightarrow> string option \<Rightarrow> sched_store \<Rightarrow> failure + activation" where
  "find_resolvable c activation_id sop_run_id s =
     bindR (case activation_id of
              Some i \<Rightarrow> query_activation c s i
            | None \<Rightarrow>
                bindR (sql c ''select activation by run'' ''scheduler_activation_query_failed'') (\<lambda>_.
                Inr (find (\<lambda>a. sop_run_id \<noteq> None \<and> a_sop_run_id a = sop_run_id) (tbl_activations s))))
       (\<lambda>found. ok_or found
         (rejected ''scheduler_activation_not_found'' ''scheduler_activation_not_found''))"

definition resolve_action ::
    "sched_host \<Rightarrow> sched_call \<Rightarrow> string option \<Rightarrow> string option \<Rightarrow> string \<Rightarrow> string \<Rightarrow> json \<Rightarrow> string \<Rightarrow> json tx" where
  "resolve_action h c activation_id sop_run_id outcome receipt_id receipt now s =
     bindR (find_resolvable c activation_id sop_run_id s) (\<lambda>a.
     if a_status a = Terminal then
       bindR (sql c ''select terminal receipt'' ''scheduler_activation_receipt_query_failed'') (\<lambda>_.
       if terminal_receipt s (a_id a) = Some receipt_id then Inr (activation_reply a, s)
       else Inl (rejected ''scheduler_activation_terminal_conflict'' ''scheduler_activation_terminal_conflict''))
     else
       bindR (refuse_if (a_status a \<noteq> Admitted)
         (rejected ''scheduler_activation_not_admitted''
           (''scheduler_activation_not_admitted:'' @ activation_status_text (a_status a)))) (\<lambda>_.
       bindR (sql c ''resolve activation'' ''scheduler_activation_resolve_failed'') (\<lambda>_.
       let s1 = update_activations (\<lambda>x. a_id x = a_id a) (set_resolved outcome now) s in
       bindR (record_receipt h c (a_id a) ''terminal'' receipt_id receipt now s1)
         (reply_activation c (a_id a)))))"

definition activation_resolve ::
    "sched_host \<Rightarrow> sched_call \<Rightarrow> jmap \<Rightarrow> sched_store \<Rightarrow> sched_store \<times> (failure + json)" where
  "activation_resolve h c args s =
     (let activation_id = trimmed (arg_str args ''activation_id'');
          sop_run_id = trimmed (arg_str args ''sop_run_id'') in
      case bindR (refuse_if (activation_id = None \<and> sop_run_id = None)
             (rejected ''scheduler_activation_not_found'' ''scheduler_activation_not_found'')) (\<lambda>_.
           bindR (sched_required args ''outcome'') (\<lambda>outcome.
           bindR (sched_required args ''receipt_id'') (\<lambda>receipt_id. Inr (outcome, receipt_id)))) of
        Inl f \<Rightarrow> (s, Inl f)
      | Inr (outcome, receipt_id) \<Rightarrow>
          transaction c
            (resolve_action h c activation_id sop_run_id outcome receipt_id (receipt_arg args)
              (format_iso h (clock_first c))) s)"

definition set_unblocked :: "string \<Rightarrow> string \<Rightarrow> activation \<Rightarrow> activation" where
  "set_unblocked due now a =
     a\<lparr>a_status := Pending, a_due_at := due, a_last_error := None, a_updated_at := now\<rparr>"

definition unblock_action :: "sched_call \<Rightarrow> string \<Rightarrow> string \<Rightarrow> string \<Rightarrow> json tx" where
  "unblock_action c i due now s =
     bindR (require_activation c s i) (\<lambda>a.
     bindR (refuse_if (a_status a \<noteq> Blocked)
       (rejected ''scheduler_activation_not_blocked''
         (''scheduler_activation_not_blocked:'' @ activation_status_text (a_status a)))) (\<lambda>_.
     bindR (sql c ''unblock activation'' ''scheduler_activation_unblock_failed'') (\<lambda>_.
     reply_activation c i (update_activations (\<lambda>x. a_id x = i) (set_unblocked due now) s))))"

definition activation_unblock ::
    "sched_host \<Rightarrow> sched_call \<Rightarrow> jmap \<Rightarrow> sched_store \<Rightarrow> sched_store \<times> (failure + json)" where
  "activation_unblock h c args s =
     (let now = format_iso h (clock_first c) in
      case bindR (sched_required args ''activation_id'') (\<lambda>i.
           bindR (case arg_str args ''due_at'' of
                    Some v \<Rightarrow> bindR (parse_iso h v) (\<lambda>t. Inr (format_iso h t))
                  | None \<Rightarrow> Inr now) (\<lambda>due. Inr (i, due))) of
        Inl f \<Rightarrow> (s, Inl f)
      | Inr (i, due) \<Rightarrow> transaction c (unblock_action c i due now) s)"

end
