(* ===== verification/Sched_Database.thy ===== *)
theory Sched_Database
  imports Sched_Queue Records
begin

text \<open>
  The database file and the tool dispatch (\<^verbatim>\<open>scheduler_activation/parts/01.rs\<close> and
  \<^verbatim>\<open>with_prepared\<close> of \<^verbatim>\<open>parts/02.rs\<close>): preparing a site, the migration of a database without lease
  tokens, the inspection by \<^verbatim>\<open>doctor\<close>, and the table of the sixteen tools. A file that does not
  exist is \<open>None\<close>. Every batch of the preparation is its own transaction, so a preparation that
  fails half-way leaves the file as its last completed batch left it; the operations therefore
  return the file together with their result.
\<close>

record database =
  wal_capable :: bool
  journal_mode :: string
  has_schema :: bool
  has_lease_token :: bool
  meta_version :: "int option"
  tables :: sched_store

definition current_version :: int where
  "current_version = 2"

definition fresh_database :: "bool \<Rightarrow> database" where
  "fresh_database wal =
     \<lparr>wal_capable = wal, journal_mode = ''delete'', has_schema = False, has_lease_token = False,
      meta_version = None, tables = empty_store\<rparr>"

text \<open>The question-mark operator where the file has already changed.\<close>

definition then_db ::
    "database \<times> (failure + unit) \<Rightarrow> (database \<Rightarrow> database \<times> (failure + 'a))
      \<Rightarrow> database \<times> (failure + 'a)" where
  "then_db r f = (case r of (d, Inl e) \<Rightarrow> (d, Inl e) | (d, Inr _) \<Rightarrow> f d)"

section \<open>Opening\<close>

definition eq_ignore_ascii_case :: "string \<Rightarrow> string \<Rightarrow> bool" where
  "eq_ignore_ascii_case s t \<longleftrightarrow> map ascii_lowercase s = map ascii_lowercase t"

definition configure :: "sched_call \<Rightarrow> bool \<Rightarrow> database \<Rightarrow> database \<times> (failure + unit)" where
  "configure c mutate_journal d =
     (let failed = ''scheduler_activation_store_configure_failed'' in
      then_db (d, sql c ''pragma foreign_keys'' failed) (\<lambda>d.
      then_db
        (if mutate_journal
         then (if sql_fault c ''pragma journal_mode = wal'' = None \<and> wal_capable d
               then d\<lparr>journal_mode := ''wal''\<rparr> else d,
               sql c ''pragma journal_mode = wal'' failed)
         else (d, Inr ())) (\<lambda>d.
      then_db (d, sql c ''pragma journal_mode'' failed) (\<lambda>d.
      then_db
        (d, refuse_if (\<not> eq_ignore_ascii_case (journal_mode d) ''wal'')
              (rejected ''scheduler_activation_store_not_prepared''
                (''scheduler_activation_store_not_prepared:journal_mode_'' @ journal_mode d))) (\<lambda>d.
      (d, sql c ''pragma synchronous'' failed))))))"

section \<open>Preparing\<close>

definition invalidate_lease :: "activation \<Rightarrow> activation" where
  "invalidate_lease a =
     a\<lparr>a_status := Pending, a_lease_owner := None, a_lease_token := None, a_lease_expires_at := None,
       a_attempt_count := a_attempt_count a + 1,
       a_last_error := Some ''schema_upgrade_invalidated_lease''\<rparr>"

definition migrate :: "sched_store \<Rightarrow> sched_store" where
  "migrate s = update_activations (\<lambda>a. a_status a = Leased) invalidate_lease s"

text \<open>One batch: all of it or nothing.\<close>

definition batch ::
    "sched_call \<Rightarrow> string \<Rightarrow> bool \<Rightarrow> (database \<Rightarrow> database) \<Rightarrow> database \<Rightarrow> database \<times> (failure + unit)" where
  "batch c label ok f d =
     (case bindR (sql c label ''scheduler_activation_schema_failed'')
             (\<lambda>_. constraint c ok label ''scheduler_activation_schema_failed'') of
        Inl e \<Rightarrow> (d, Inl e)
      | Inr _ \<Rightarrow> (f d, Inr ()))"

definition initialize_schema :: "sched_call \<Rightarrow> database \<Rightarrow> database \<times> (failure + unit)" where
  "initialize_schema c d =
     then_db
       (batch c ''create schema'' (run_unique (tbl_activations (tables d)))
         (\<lambda>d. if has_schema d then d else d\<lparr>has_schema := True, has_lease_token := True\<rparr>) d) (\<lambda>d.
     then_db (batch c ''pragma table_info'' True (\<lambda>d. d) d) (\<lambda>d.
     then_db
       (if has_lease_token d then (d, Inr ())
        else batch c ''add lease_token'' True
               (\<lambda>d. d\<lparr>has_lease_token := True, tables := migrate (tables d)\<rparr>) d) (\<lambda>d.
     batch c ''write version'' True (\<lambda>d. d\<lparr>meta_version := Some current_version\<rparr>) d)))"

definition db_path :: "string \<Rightarrow> string" where
  "db_path site = path_text site ''.ai/scheduler.db''"

definition prepare ::
    "sched_call \<Rightarrow> bool \<Rightarrow> string \<Rightarrow> database option \<Rightarrow> database option \<times> (failure + json)" where
  "prepare c wal site file =
     (case sql_fault c ''create_dir_all'' of
        Some cause \<Rightarrow> (file, Inl (rejected ''scheduler_activation_store_directory_failed'' cause))
      | None \<Rightarrow>
      case sql c ''open'' ''scheduler_activation_store_open_failed'' of
        Inl f \<Rightarrow> (file, Inl f)
      | Inr _ \<Rightarrow>
      let opened = (case file of None \<Rightarrow> fresh_database wal | Some d \<Rightarrow> d);
          (d, r) = then_db (configure c True opened) (initialize_schema c)
      in (Some d,
          bindR r (\<lambda>_.
            Inr (JObj [(''schema'', JStr ''narada.scheduler.activation_prepare.v1''),
              (''status'', JStr ''prepared''), (''db_path'', JStr (db_path site)),
              (''schema_version'', jint current_version)]))))"

section \<open>Inspection\<close>

definition version_text :: "int option \<Rightarrow> string" where
  "version_text v = (case v of None \<Rightarrow> ''missing'' | Some i \<Rightarrow> show_int i)"

definition read_version :: "sched_call \<Rightarrow> database \<Rightarrow> failure + int option" where
  "read_version c d =
     bindR (sql c ''select version'' ''scheduler_activation_store_inspect_failed'') (\<lambda>_.
     bindR (constraint c (has_schema d) ''scheduler_meta'' ''scheduler_activation_store_inspect_failed'')
       (\<lambda>_. Inr (meta_version d)))"

definition failure_reason :: "failure \<Rightarrow> json" where
  "failure_reason f =
     (case f of
        Refused e \<Rightarrow> (case jget e ''message'' of Some m \<Rightarrow> m | None \<Rightarrow> e)
      | Panicked t \<Rightarrow> JStr t)"

definition preparation :: "string \<Rightarrow> string \<Rightarrow> json \<Rightarrow> (string \<times> json) list \<Rightarrow> json" where
  "preparation site status version rest =
     JObj ([(''status'', JStr status), (''db_path'', JStr (db_path site)), (''schema_version'', version)] @ rest)"

definition inspection :: "sched_call \<Rightarrow> string \<Rightarrow> database \<Rightarrow> json" where
  "inspection c site d =
     (case sql_fault c ''open'' of
        Some cause \<Rightarrow> preparation site ''invalid'' JNull [(''reason'', JStr cause)]
      | None \<Rightarrow>
      case bindR (snd (configure c False d)) (\<lambda>_. read_version c d) of
        Inl f \<Rightarrow> preparation site ''invalid'' JNull [(''reason'', failure_reason f)]
      | Inr version \<Rightarrow>
          if version = Some current_version
          then preparation site ''prepared'' (jint current_version) []
          else preparation site ''stale''
                 (case version of None \<Rightarrow> JNull | Some i \<Rightarrow> jint i)
                 [(''reason'', JStr (''schema_version_'' @ version_text version))])"

definition doctor :: "sched_call \<Rightarrow> string \<Rightarrow> database option \<Rightarrow> json" where
  "doctor c site file =
     JObj [(''schema'', JStr ''narada.scheduler.activation_doctor.v1''), (''site_root'', JStr site),
       (''runtime_open'', JBool False),
       (''preparation'',
         case file of
           None \<Rightarrow> preparation site ''missing'' JNull [(''reason'', JStr ''database_missing'')]
         | Some d \<Rightarrow> inspection c site d)]"

section \<open>Tools\<close>

definition with_prepared ::
    "sched_call \<Rightarrow> (sched_store \<Rightarrow> sched_store \<times> (failure + json)) \<Rightarrow> database option
      \<Rightarrow> database option \<times> (failure + json)" where
  "with_prepared c action file =
     (case file of
        None \<Rightarrow>
          (None, Inl (rejected ''scheduler_activation_store_not_prepared''
             ''scheduler_activation_store_not_prepared:database_missing''))
      | Some d0 \<Rightarrow>
      case sql c ''open'' ''scheduler_activation_store_open_failed'' of
        Inl f \<Rightarrow> (file, Inl f)
      | Inr _ \<Rightarrow>
      case configure c False d0 of
        (d, Inl f) \<Rightarrow> (Some d, Inl f)
      | (d, Inr _) \<Rightarrow>
      case read_version c d of
        Inl f \<Rightarrow> (Some d, Inl f)
      | Inr version \<Rightarrow>
          if version \<noteq> Some current_version
          then (Some d, Inl (rejected ''scheduler_activation_store_not_prepared''
                  (''scheduler_activation_store_not_prepared:schema_version_'' @ version_text version)))
          else (let (s, r) = action (tables d) in (Some (d\<lparr>tables := s\<rparr>), r)))"

definition sched_tools :: "(string \<times> bool) list" where
  "sched_tools =
     [(''scheduler_activation_doctor'', True), (''scheduler_activation_prepare'', False),
      (''scheduler_binding_list'', True), (''scheduler_binding_show'', True),
      (''scheduler_binding_upsert'', False), (''scheduler_binding_pause'', False),
      (''scheduler_binding_resume'', False), (''scheduler_binding_retire'', False),
      (''scheduler_event_show'', True), (''scheduler_event_admit'', False),
      (''scheduler_activation_list'', True), (''scheduler_activation_claim'', False),
      (''scheduler_activation_admit_sop'', False), (''scheduler_activation_fail'', False),
      (''scheduler_activation_resolve'', False), (''scheduler_activation_unblock'', False)]"

definition supports :: "string \<Rightarrow> bool" where
  "supports tool \<longleftrightarrow> (\<exists>p \<in> set sched_tools. fst p = tool)"

definition is_mutation :: "string \<Rightarrow> bool" where
  "is_mutation tool =
     (case find (\<lambda>p. fst p = tool) sched_tools of None \<Rightarrow> False | Some p \<Rightarrow> \<not> snd p)"

text \<open>A tool that only reads.\<close>

definition reading :: "(sched_store \<Rightarrow> failure + json) \<Rightarrow> sched_store \<Rightarrow> sched_store \<times> (failure + json)" where
  "reading f s = (s, f s)"

definition call_tool ::
    "sched_host \<Rightarrow> sched_call \<Rightarrow> bool \<Rightarrow> string \<Rightarrow> string \<Rightarrow> jmap \<Rightarrow> database option
      \<Rightarrow> database option \<times> (failure + json)" where
  "call_tool h c wal site tool args file =
     (if tool = ''scheduler_activation_doctor'' then (file, Inr (doctor c site file))
      else if tool = ''scheduler_activation_prepare'' then prepare c wal site file
      else if tool = ''scheduler_binding_list'' then with_prepared c (reading (binding_list c args)) file
      else if tool = ''scheduler_binding_show'' then with_prepared c (reading (binding_show c args)) file
      else if tool = ''scheduler_binding_upsert'' then with_prepared c (binding_upsert h c args) file
      else if tool \<in> {''scheduler_binding_pause'', ''scheduler_binding_resume'', ''scheduler_binding_retire''}
      then with_prepared c (binding_set_status h c tool args) file
      else if tool = ''scheduler_event_show'' then with_prepared c (reading (event_show c args)) file
      else if tool = ''scheduler_event_admit'' then with_prepared c (event_admit h c args) file
      else if tool = ''scheduler_activation_list'' then with_prepared c (reading (activation_list c args)) file
      else if tool = ''scheduler_activation_claim'' then with_prepared c (activation_claim h c args) file
      else if tool = ''scheduler_activation_admit_sop'' then with_prepared c (activation_admit_sop h c args) file
      else if tool = ''scheduler_activation_fail'' then with_prepared c (activation_fail h c args) file
      else if tool = ''scheduler_activation_resolve'' then with_prepared c (activation_resolve h c args) file
      else if tool = ''scheduler_activation_unblock'' then with_prepared c (activation_unblock h c args) file
      else (file, Inl (rejected ''unknown_tool'' (''unknown_tool:'' @ tool))))"

end
