(* ===== verification/Sched_Invariant.thy ===== *)
theory Sched_Invariant
  imports Sched_Database
begin

text \<open>
  The well-formedness invariant of the scheduler's tables and the order its operations move them
  up: keys and constraints hold, a row carries a lease exactly while it is leased, at most one
  activation per binding and partition is in flight, terminal rows never change, events and
  receipts are only added, and attempt counts never go down. Each operation is shown to keep both;
  the database file with its tools then is an instance of the transition systems of the prelude.
\<close>

named_theorems sched_row \<open>unfolding of the row updates\<close>

lemmas row_updates [sched_row] =
  quiesce_def requeue_def lease_def set_admitted_def set_failed_def set_resolved_def
  set_unblocked_def invalidate_lease_def

section \<open>Rows\<close>

definition lease_ok :: "activation \<Rightarrow> bool" where
  "lease_ok a \<longleftrightarrow>
     (a_lease_owner a \<noteq> None) = (a_status a = Leased) \<and>
     (a_lease_token a \<noteq> None) = (a_status a = Leased) \<and>
     (a_lease_expires_at a \<noteq> None) = (a_status a = Leased)"

definition row_ok :: "activation \<Rightarrow> bool" where
  "row_ok a \<longleftrightarrow>
     lease_ok a \<and> (a_status a = Admitted \<longrightarrow> a_sop_run_id a \<noteq> None) \<and>
     (a_sop_run_id a \<noteq> None \<longrightarrow> a_status a = Admitted \<or> a_status a = Terminal) \<and>
     (a_terminal_outcome a \<noteq> None) = (a_status a = Terminal)"

definition key_of :: "activation \<Rightarrow> string \<times> string \<times> string \<times> string \<times> string \<times> string" where
  "key_of a =
     (a_id a, a_binding_id a, a_source_event_id a, a_target_sop_id a, a_occurrence_key a, a_partition_key a)"

definition row_le :: "activation \<Rightarrow> activation \<Rightarrow> bool" where
  "row_le a a' \<longleftrightarrow>
     key_of a' = key_of a \<and> a_attempt_count a \<le> a_attempt_count a' \<and>
     (a_sop_run_id a \<noteq> None \<longrightarrow> a_sop_run_id a' = a_sop_run_id a) \<and>
     (a_status a = Terminal \<longrightarrow> a' = a)"

definition exclusive :: "activation list \<Rightarrow> bool" where
  "exclusive rows \<longleftrightarrow>
     (\<forall>a \<in> set rows. \<forall>x \<in> set rows.
        in_flight a \<longrightarrow> in_flight x \<longrightarrow> a_binding_id a = a_binding_id x \<longrightarrow>
        a_partition_key a = a_partition_key x \<longrightarrow> a_id a = a_id x)"

lemma row_le_refl [simp]: "row_le a a"
  by (simp add: row_le_def)

lemma row_le_trans: "row_le a b \<Longrightarrow> row_le b d \<Longrightarrow> row_le a d"
  by (auto simp: row_le_def)

section \<open>Tables\<close>

definition references_ok :: "sched_store \<Rightarrow> bool" where
  "references_ok s \<longleftrightarrow>
     (\<forall>a \<in> set (tbl_activations s).
        a_binding_id a \<in> set (map b_id (tbl_bindings s)) \<and>
        a_source_event_id a \<in> set (map e_id (tbl_events s)))"

definition wf_store :: "sched_store \<Rightarrow> bool" where
  "wf_store s \<longleftrightarrow>
     distinct (map b_id (tbl_bindings s)) \<and> list_all binding_checks (tbl_bindings s) \<and>
     distinct (map e_id (tbl_events s)) \<and>
     activation_unique (tbl_activations s) \<and> list_all row_ok (tbl_activations s) \<and>
     exclusive (tbl_activations s) \<and> references_ok s \<and> receipt_unique (tbl_receipts s)"

definition store_le :: "sched_store \<Rightarrow> sched_store \<Rightarrow> bool" where
  "store_le s t \<longleftrightarrow>
     (\<exists>rows new. tbl_activations t = rows @ new \<and> list_all2 row_le (tbl_activations s) rows) \<and>
     (\<exists>new. tbl_events t = tbl_events s @ new) \<and>
     (\<exists>new. tbl_receipts t = tbl_receipts s @ new) \<and>
     (\<exists>new. map b_id (tbl_bindings t) = map b_id (tbl_bindings s) @ new)"

definition advances :: "sched_store \<Rightarrow> sched_store \<Rightarrow> bool" where
  "advances s t \<longleftrightarrow> (wf_store s \<longrightarrow> wf_store t \<and> store_le s t)"

lemma store_leI:
  assumes "list_all2 row_le (tbl_activations s) rows" "tbl_activations t = rows @ new_rows"
    and "tbl_events t = tbl_events s @ new_events" "tbl_receipts t = tbl_receipts s @ new_receipts"
    and "map b_id (tbl_bindings t) = map b_id (tbl_bindings s) @ new_bindings"
  shows "store_le s t"
  using assms unfolding store_le_def by blast

lemma store_leI_rows:
  assumes "list_all2 row_le (tbl_activations s) (tbl_activations t)" "tbl_events t = tbl_events s"
    and "tbl_receipts t = tbl_receipts s" "map b_id (tbl_bindings t) = map b_id (tbl_bindings s)"
  shows "store_le s t"
  by (rule store_leI [where new_rows = "[]" and new_events = "[]" and new_receipts = "[]"
        and new_bindings = "[]", OF assms(1)]) (simp_all add: assms)

lemma store_le_refl: "store_le s s"
  by (rule store_leI_rows) (simp_all add: list.rel_refl)

lemma store_le_trans:
  assumes "store_le s t" "store_le t u"
  shows "store_le s u"
proof -
  from assms(1) obtain rows new where t: "tbl_activations t = rows @ new"
    and st: "list_all2 row_le (tbl_activations s) rows" by (auto simp: store_le_def)
  from assms(2) obtain rows' new' where u: "tbl_activations u = rows' @ new'"
    and tu: "list_all2 row_le (rows @ new) rows'" by (auto simp: store_le_def t)
  from tu obtain r n where r: "rows' = r @ n" and rr: "list_all2 row_le rows r"
    by (auto simp: list_all2_append1)
  have "list_all2 row_le (tbl_activations s) r"
    using row_le_trans st rr by (rule list_all2_trans)
  then have "\<exists>r n. tbl_activations u = r @ n \<and> list_all2 row_le (tbl_activations s) r"
    using u r by auto
  moreover have "\<exists>new. tbl_events u = tbl_events s @ new" "\<exists>new. tbl_receipts u = tbl_receipts s @ new"
    "\<exists>new. map b_id (tbl_bindings u) = map b_id (tbl_bindings s) @ new"
    using assms by (auto simp: store_le_def)
  ultimately show ?thesis by (simp add: store_le_def)
qed

lemma advances_refl [simp]: "advances s s"
  by (simp add: advances_def store_le_refl)

lemma advances_trans: "advances s t \<Longrightarrow> advances t u \<Longrightarrow> advances s u"
  by (auto simp: advances_def intro: store_le_trans)

lemma wf_storeD:
  assumes "wf_store s"
  shows "distinct (map a_id (tbl_activations s))" "distinct (map b_id (tbl_bindings s))"
    "a \<in> set (tbl_activations s) \<Longrightarrow> row_ok a" "b \<in> set (tbl_bindings s) \<Longrightarrow> binding_checks b"
    "exclusive (tbl_activations s)"
  using assms by (auto simp: wf_store_def activation_unique_def list_all_iff)

lemma wf_unique_row:
  "wf_store s \<Longrightarrow> a \<in> set (tbl_activations s) \<Longrightarrow> x \<in> set (tbl_activations s) \<Longrightarrow> a_id x = a_id a \<Longrightarrow> x = a"
  using wf_storeD(1) [of s] by (auto simp: distinct_map dest: inj_onD)

section \<open>Updates of activations\<close>

lemma exclusive_update:
  assumes "exclusive rows"
    and "\<And>a. a \<in> set rows \<Longrightarrow> P a \<Longrightarrow> key_of (f a) = key_of a \<and> (in_flight (f a) \<longrightarrow> in_flight a)"
  shows "exclusive (map (\<lambda>a. if P a then f a else a) rows)"
  unfolding exclusive_def
proof (intro ballI impI)
  let ?g = "\<lambda>a. if P a then f a else a"
  fix a x
  assume ax: "a \<in> set (map ?g rows)" "x \<in> set (map ?g rows)" and flight: "in_flight a" "in_flight x"
    and same: "a_binding_id a = a_binding_id x" "a_partition_key a = a_partition_key x"
  from ax obtain b y where b: "b \<in> set rows" "a = ?g b" and y: "y \<in> set rows" "x = ?g y" by auto
  have g: "key_of (?g z) = key_of z \<and> (in_flight (?g z) \<longrightarrow> in_flight z)" if "z \<in> set rows" for z
    using assms(2) [OF that] by simp
  have "in_flight b" "in_flight y" using g [OF b(1)] g [OF y(1)] flight b(2) y(2) by simp_all
  moreover have "key_of a = key_of b" "key_of x = key_of y"
    using g [OF b(1)] g [OF y(1)] b(2) y(2) by simp_all
  then have keys: "a_id a = a_id b" "a_id x = a_id y" "a_binding_id a = a_binding_id b"
    "a_binding_id x = a_binding_id y" "a_partition_key a = a_partition_key b"
    "a_partition_key x = a_partition_key y"
    by (simp_all add: key_of_def)
  moreover have "a_binding_id b = a_binding_id y" "a_partition_key b = a_partition_key y"
    using same unfolding keys by simp_all
  ultimately have "a_id b = a_id y"
    using assms(1) b(1) y(1) unfolding exclusive_def by blast
  then show "a_id a = a_id x" unfolding keys .
qed

text \<open>The constraints survive an update that keeps the keys and the run.\<close>

lemma unique_update:
  assumes "activation_unique rows"
    and "\<And>a. a \<in> set rows \<Longrightarrow> P a \<Longrightarrow> key_of (f a) = key_of a"
    and "run_unique (map (\<lambda>a. if P a then f a else a) rows)"
  shows "activation_unique (map (\<lambda>a. if P a then f a else a) rows)"
proof -
  let ?g = "\<lambda>a. if P a then f a else a"
  have key: "map key_of (map ?g rows) = map key_of rows"
    using assms(2) by simp
  have "map (g \<circ> key_of) (map ?g rows) = map (g \<circ> key_of) rows" for g :: "_ \<Rightarrow> 'b"
    using arg_cong [OF key, of "map g"] by simp
  from this [of fst] this [of "\<lambda>(i, b, e, t, k, p). (b, e)"] this [of "\<lambda>(i, b, e, t, k, p). (t, k)"]
  have "map a_id (map ?g rows) = map a_id rows"
    "map (\<lambda>r. (a_binding_id r, a_source_event_id r)) (map ?g rows) =
       map (\<lambda>r. (a_binding_id r, a_source_event_id r)) rows"
    "map (\<lambda>r. (a_target_sop_id r, a_occurrence_key r)) (map ?g rows) =
       map (\<lambda>r. (a_target_sop_id r, a_occurrence_key r)) rows"
    by (simp_all add: key_of_def comp_def)
  then show ?thesis using assms(1,3) unfolding activation_unique_def by metis
qed

lemma run_unique_update:
  assumes "run_unique rows" "\<And>a. a \<in> set rows \<Longrightarrow> P a \<Longrightarrow> a_sop_run_id (f a) = a_sop_run_id a"
  shows "run_unique (map (\<lambda>a. if P a then f a else a) rows)"
proof -
  have eq: "run_unique xs \<longleftrightarrow> distinct (filter (\<lambda>r. r \<noteq> None) (map a_sop_run_id xs))" for xs
    by (simp add: run_unique_def filter_map comp_def)
  have "map a_sop_run_id (map (\<lambda>a. if P a then f a else a) rows) = map a_sop_run_id rows"
    using assms(2) by simp
  with assms(1) show ?thesis unfolding eq by metis
qed

lemma advances_update:
  assumes "\<And>a. wf_store s \<Longrightarrow> a \<in> set (tbl_activations s) \<Longrightarrow> P a \<Longrightarrow> row_ok a \<Longrightarrow>
      row_le a (f a) \<and> row_ok (f a)"
    and "wf_store s \<Longrightarrow> run_unique (tbl_activations (update_activations P f s))"
    and "wf_store s \<Longrightarrow> exclusive (tbl_activations (update_activations P f s))"
  shows "advances s (update_activations P f s)"
  unfolding advances_def
proof
  assume wf: "wf_store s"
  have row: "row_le a (f a) \<and> row_ok (f a)" if "a \<in> set (tbl_activations s)" "P a" for a
    using assms(1) [OF wf that] wf_storeD(3) [OF wf that(1)] by simp
  then have key: "key_of (f a) = key_of a" if "a \<in> set (tbl_activations s)" "P a" for a
    using that by (auto simp: row_le_def)
  have unique: "activation_unique (tbl_activations (update_activations P f s))"
    using wf key assms(2) [OF wf] unfolding update_activations_simps
    by (intro unique_update) (auto simp: wf_store_def)
  have refs: "references_ok (update_activations P f s)"
    using wf key by (auto simp: wf_store_def references_ok_def key_of_def split: if_splits)
  have rows: "list_all row_ok (tbl_activations (update_activations P f s))"
    using row wf_storeD(3) [OF wf] by (auto simp: list_all_iff)
  have le: "list_all2 row_le (tbl_activations s) (tbl_activations (update_activations P f s))"
    using row by (auto simp: list_all2_map2 intro!: list.rel_refl_strong)
  show "wf_store (update_activations P f s) \<and> store_le s (update_activations P f s)"
    using wf unique refs rows assms(3) [OF wf] store_leI_rows [OF le] by (simp add: wf_store_def)
qed

text \<open>The common case: no row gets into flight and no run is set.\<close>

lemma advances_update_plain:
  assumes "\<And>a. wf_store s \<Longrightarrow> a \<in> set (tbl_activations s) \<Longrightarrow> P a \<Longrightarrow> row_ok a \<Longrightarrow>
      row_le a (f a) \<and> row_ok (f a) \<and> (in_flight (f a) \<longrightarrow> in_flight a) \<and> a_sop_run_id (f a) = a_sop_run_id a"
  shows "advances s (update_activations P f s)"
proof (rule advances_update)
  assume wf: "wf_store s"
  have row: "row_le a (f a) \<and> row_ok (f a) \<and> (in_flight (f a) \<longrightarrow> in_flight a) \<and>
      a_sop_run_id (f a) = a_sop_run_id a" if "a \<in> set (tbl_activations s)" "P a" for a
    using assms [OF wf that] wf_storeD(3) [OF wf that(1)] by simp
  show "run_unique (tbl_activations (update_activations P f s))"
    using wf row unfolding update_activations_simps
    by (intro run_unique_update) (auto simp: wf_store_def activation_unique_def)
  show "exclusive (tbl_activations (update_activations P f s))"
    using wf row unfolding update_activations_simps
    by (intro exclusive_update) (auto simp: wf_store_def row_le_def)
qed (use assms in blast)

section \<open>Claiming\<close>

lemma next_claim_Some:
  assumes "next_claim now s = Some a"
  shows "a \<in> set (tbl_activations s)" "claimable now s a"
    "x \<in> set (tbl_activations s) \<Longrightarrow> claimable now s x \<Longrightarrow> a_due_at a \<le> a_due_at x"
proof -
  let ?xs = "sort_key a_due_at (sort_key a_id (filter (claimable now s) (tbl_activations s)))"
  from assms obtain rest where xs: "?xs = a # rest"
    by (auto simp: next_claim_def split: list.splits)
  have set: "set ?xs = {x \<in> set (tbl_activations s). claimable now s x}" by auto
  have "a \<in> set ?xs" by (subst xs) simp
  then show "a \<in> set (tbl_activations s)" "claimable now s a" unfolding set by auto
  have sorted: "sorted (map a_due_at (a # rest))" by (subst xs [symmetric]) simp
  assume "x \<in> set (tbl_activations s)" "claimable now s x"
  then have "x \<in> set (a # rest)" unfolding xs [symmetric] set by simp
  with sorted show "a_due_at a \<le> a_due_at x" by auto
qed

lemma next_claim_None: "next_claim now s = None \<longleftrightarrow> (\<forall>x \<in> set (tbl_activations s). \<not> claimable now s x)"
proof -
  let ?xs = "sort_key a_due_at (sort_key a_id (filter (claimable now s) (tbl_activations s)))"
  have "next_claim now s = None \<longleftrightarrow> ?xs = []"
    by (cases ?xs) (simp_all add: next_claim_def)
  also have "\<dots> \<longleftrightarrow> set ?xs = {}" by (rule set_empty [symmetric])
  finally show ?thesis by auto
qed

lemma exclusive_lease:
  assumes wf: "wf_store s" and a: "a \<in> set (tbl_activations s)" "claimable now s a"
  shows "exclusive (map (\<lambda>x. if a_id x = a_id a \<and> a_status x = Pending then lease u t e n x else x)
    (tbl_activations s))"
proof -
  let ?g = "\<lambda>x. if a_id x = a_id a \<and> a_status x = Pending then lease u t e n x else x"
  have old: "a_id (?g x) = a_id x" "a_binding_id (?g x) = a_binding_id x"
    "a_partition_key (?g x) = a_partition_key x" for x by (simp_all add: lease_def)
  have other: "in_flight (?g x) \<longrightarrow> in_flight x" if "a_id x \<noteq> a_id a" for x using that by simp
  have clash: False
    if "x \<in> set (tbl_activations s)" "y \<in> set (tbl_activations s)" "in_flight (?g y)"
      "a_binding_id x = a_binding_id y" "a_partition_key x = a_partition_key y"
      "a_id x = a_id a" "a_id y \<noteq> a_id a" for x y
  proof -
    have "x = a" using wf_unique_row [OF wf a(1) that(1,6)] .
    moreover have "in_flight y" using that(3) other [OF that(7)] by simp
    ultimately show False using a(2) that(2,4,5,7) unfolding claimable_def by metis
  qed
  have "a_id x = a_id y"
    if xy: "x \<in> set (tbl_activations s)" "y \<in> set (tbl_activations s)"
      and flight: "in_flight (?g x)" "in_flight (?g y)"
      and same: "a_binding_id x = a_binding_id y" "a_partition_key x = a_partition_key y" for x y
  proof (cases "a_id x = a_id a"; cases "a_id y = a_id a")
    assume "a_id x \<noteq> a_id a" "a_id y \<noteq> a_id a"
    then have "in_flight x" "in_flight y" using flight other by metis+
    then show ?thesis using wf_storeD(5) [OF wf] xy same unfolding exclusive_def by blast
  next
    assume "a_id x \<noteq> a_id a" "a_id y = a_id a"
    then show ?thesis using clash [OF xy(2,1) flight(1)] same by simp
  next
    assume "a_id x = a_id a" "a_id y \<noteq> a_id a"
    then show ?thesis using clash [OF xy flight(2) same] by simp
  qed simp
  then show ?thesis unfolding exclusive_def set_map ball_simps(9) old by blast
qed

lemma lease_expired_leased: "lease_expired now a \<Longrightarrow> a_status a = Leased"
  by (simp add: lease_expired_def)

lemma quiesce_row:
  "row_ok a \<Longrightarrow> a_status a = Pending \<or> a_status a = Leased \<Longrightarrow>
     row_le a (quiesce r now a) \<and> row_ok (quiesce r now a) \<and>
     (in_flight (quiesce r now a) \<longrightarrow> in_flight a) \<and> a_sop_run_id (quiesce r now a) = a_sop_run_id a"
  by (elim disjE) (simp_all add: row_ok_def row_le_def lease_ok_def key_of_def in_flight_def sched_row)

lemma advances_cancel: "advances s (cancel_expired now s)"
  unfolding cancel_expired_def
  by (rule advances_update_plain) (use quiesce_row in \<open>blast dest: lease_expired_leased\<close>)

lemma advances_requeue: "advances s (requeue_expired now s)"
  unfolding requeue_expired_def
  by (rule advances_update_plain)
    (auto simp: lease_expired_def row_ok_def row_le_def lease_ok_def key_of_def in_flight_def sched_row)

lemma advances_lease:
  assumes "next_claim now s = Some a"
  shows "advances s (update_activations (\<lambda>x. a_id x = a_id a \<and> a_status x = Pending) (lease u t e n) s)"
proof (rule advances_update)
  assume wf: "wf_store s"
  show "exclusive (tbl_activations
      (update_activations (\<lambda>x. a_id x = a_id a \<and> a_status x = Pending) (lease u t e n) s))"
    using exclusive_lease [OF wf next_claim_Some(1,2) [OF assms]] by simp
  show "run_unique (tbl_activations
      (update_activations (\<lambda>x. a_id x = a_id a \<and> a_status x = Pending) (lease u t e n) s))"
    using wf unfolding update_activations_simps
    by (intro run_unique_update) (auto simp: wf_store_def activation_unique_def lease_def)
qed (auto simp: row_ok_def row_le_def lease_ok_def key_of_def sched_row)

lemma advances_claim: "claim_action c u now e s = Inr (v, s') \<Longrightarrow> advances s s'"
  by (auto simp: claim_action_def bindR_Inr_iff Let_def split: option.splits
      intro: advances_trans [OF advances_trans [OF advances_cancel advances_requeue]] advances_lease
        advances_trans [OF advances_cancel advances_requeue])

section \<open>The other operations of the queue\<close>

lemma require_leased_Inr:
  assumes "require_leased h c i u t s = Inr a"
  shows "lookup_activation s i = Some a" "a \<in> set (tbl_activations s)" "a_id a = i"
    "a_status a = Leased" "a_lease_owner a = Some u" "a_lease_token a = Some t"
    "\<not> (case a_lease_expires_at a of None \<Rightarrow> [] | Some e \<Rightarrow> e) \<le> format_iso h (clock_later c)"
proof -
  show "lookup_activation s i = Some a" "a_status a = Leased" "a_lease_owner a = Some u"
    "a_lease_token a = Some t"
    "\<not> (case a_lease_expires_at a of None \<Rightarrow> [] | Some e \<Rightarrow> e) \<le> format_iso h (clock_later c)"
    using assms by (auto simp: require_leased_def bindR_Inr_iff)
  then show "a \<in> set (tbl_activations s)" "a_id a = i" by (auto dest: lookup_activation_Some)
qed

lemma advances_receipt:
  assumes "record_receipt h c i k r v now s = Inr s'"
  shows "advances s s'"
proof -
  from assms obtain row where s': "s' = s\<lparr>tbl_receipts := tbl_receipts s @ [row]\<rparr>"
    and "receipt_unique (tbl_receipts s @ [row])"
    by (auto simp: record_receipt_def bindR_Inr_iff Let_def)
  moreover have "store_le s s'"
    by (rule store_leI [where rows = "tbl_activations s" and new_rows = "[]" and new_events = "[]"
          and new_receipts = "[row]" and new_bindings = "[]"])
      (simp_all add: s' list.rel_refl)
  ultimately show ?thesis by (auto simp: advances_def wf_store_def references_ok_def)
qed

lemma record_receipt_activations:
  "record_receipt h c i k r v now s = Inr s' \<Longrightarrow> tbl_activations s' = tbl_activations s"
  by (auto simp: record_receipt_def bindR_Inr_iff Let_def)

lemma reply_activation_Inr: "reply_activation c i s = Inr (v, s') \<longleftrightarrow>
    (\<exists>a. lookup_activation s i = Some a \<and> sql_fault c (''select activation '' @ i) = None \<and>
      v = activation_reply a \<and> s' = s)"
  by (auto simp: reply_activation_def bindR_Inr_iff)

text \<open>An update of the one row an identifier names.\<close>

lemma advances_row:
  assumes "lookup_activation s i = Some a" "row_ok a \<Longrightarrow> row_le a (f a) \<and> row_ok (f a)"
    and "in_flight (f a) \<longrightarrow> in_flight a" "a_sop_run_id (f a) = a_sop_run_id a"
  shows "advances s (update_activations (\<lambda>x. a_id x = i) f s)"
proof (rule advances_update_plain)
  fix x
  assume wf: "wf_store s" and x: "x \<in> set (tbl_activations s)" "a_id x = i" "row_ok x"
  have "x = a"
    using wf_unique_row [OF wf _ x(1), of a] lookup_activation_Some [OF assms(1)] x(2) by simp
  with assms x(3) show "row_le x (f x) \<and> row_ok (f x) \<and> (in_flight (f x) \<longrightarrow> in_flight x) \<and>
      a_sop_run_id (f x) = a_sop_run_id x" by simp
qed

lemma advances_admit_sop:
  assumes "admit_sop_action h c i u t run r rv now s = Inr (v, s')"
  shows "advances s s'"
proof -
  let ?s1 = "update_activations (\<lambda>a. a_id a = i) (set_admitted run now) s"
  from assms obtain a where leased: "require_leased h c i u t s = Inr a"
    and run: "run_unique (tbl_activations ?s1)"
    and receipt: "record_receipt h c i ''sop_admission'' r rv now ?s1 = Inr s'"
    by (auto simp: admit_sop_action_def bindR_Inr_iff Let_def reply_activation_Inr)
  note a = require_leased_Inr [OF leased]
  have "advances s ?s1"
  proof (rule advances_update)
    fix x
    assume wf: "wf_store s" and x: "x \<in> set (tbl_activations s)" "a_id x = i" "row_ok x"
    have "x = a" using wf_unique_row [OF wf a(2) x(1)] x(2) a(3) by simp
    then show "row_le x (set_admitted run now x) \<and> row_ok (set_admitted run now x)"
      using x(3) a(4) by (auto simp: row_ok_def row_le_def lease_ok_def key_of_def sched_row)
  next
    assume wf: "wf_store s"
    have "x = a" if "x \<in> set (tbl_activations s)" "a_id x = i" for x
      using wf_unique_row [OF wf a(2) that(1)] that(2) a(3) by simp
    then show "exclusive (tbl_activations ?s1)"
      using wf_storeD(5) [OF wf] a(4) unfolding update_activations_simps
      by (intro exclusive_update) (auto simp: key_of_def in_flight_def sched_row)
  qed (rule run)
  with advances_receipt [OF receipt] show ?thesis by (blast intro: advances_trans)
qed

lemma advances_fail:
  assumes "fail_action h c i u t retryable e s = Inr (v, s')"
  shows "advances s s'"
proof -
  from assms obtain a retry due now where leased: "require_leased h c i u t s = Inr a"
    and s': "s' = update_activations (\<lambda>x. a_id x = i)
      (set_failed retry (a_attempt_count a + 1) due (take_chars max_error_bytes e) now) s"
    by (auto simp: fail_action_def bindR_Inr_iff Let_def reply_activation_Inr)
  note a = require_leased_Inr [OF leased]
  show ?thesis unfolding s'
    by (rule advances_row [OF a(1)])
      (use a(4) in \<open>auto simp: row_ok_def row_le_def lease_ok_def key_of_def in_flight_def sched_row\<close>)
qed

lemma find_resolvable_Inr:
  "find_resolvable c x y s = Inr a \<Longrightarrow> a \<in> set (tbl_activations s)"
  by (auto simp: find_resolvable_def query_activation_def bindR_Inr_iff find_Some_iff
      dest: lookup_activation_Some split: option.splits)

lemma advances_resolve:
  assumes "resolve_action h c x y outcome r rv now s = Inr (v, s')"
  shows "advances s s'"
proof -
  from assms obtain a where found: "find_resolvable c x y s = Inr a"
    by (auto simp: resolve_action_def bindR_Inr_iff)
  show ?thesis
  proof (cases "a_status a = Terminal")
    case True
    with assms found show ?thesis
      by (auto simp: resolve_action_def bindR_Inr_iff split: if_splits)
  next
    case False
    let ?s1 = "update_activations (\<lambda>x. a_id x = a_id a) (set_resolved outcome now) s"
    from assms found False have admitted: "a_status a = Admitted"
      and receipt: "record_receipt h c (a_id a) ''terminal'' r rv now ?s1 = Inr s'"
      by (auto simp: resolve_action_def bindR_Inr_iff Let_def reply_activation_Inr)
    have "advances s ?s1"
    proof (rule advances_update_plain)
      fix z
      assume wf: "wf_store s" and z: "z \<in> set (tbl_activations s)" "a_id z = a_id a" "row_ok z"
      have "z = a" using wf_unique_row [OF wf find_resolvable_Inr [OF found] z(1,2)] .
      then show "row_le z (set_resolved outcome now z) \<and> row_ok (set_resolved outcome now z) \<and>
          (in_flight (set_resolved outcome now z) \<longrightarrow> in_flight z) \<and>
          a_sop_run_id (set_resolved outcome now z) = a_sop_run_id z"
        using z(3) admitted
        by (auto simp: row_ok_def row_le_def lease_ok_def key_of_def in_flight_def sched_row)
    qed
    with advances_receipt [OF receipt] show ?thesis by (blast intro: advances_trans)
  qed
qed

lemma advances_unblock:
  assumes "unblock_action c i due now s = Inr (v, s')"
  shows "advances s s'"
proof -
  from assms obtain a where a: "lookup_activation s i = Some a" "a_status a = Blocked"
    and s': "s' = update_activations (\<lambda>x. a_id x = i) (set_unblocked due now) s"
    by (auto simp: unblock_action_def bindR_Inr_iff reply_activation_Inr)
  show ?thesis unfolding s'
    by (rule advances_row [OF a(1)])
      (use a(2) in \<open>auto simp: row_ok_def row_le_def lease_ok_def key_of_def in_flight_def sched_row\<close>)
qed

lemma advances_migrate: "advances s (migrate s)"
  unfolding migrate_def
  by (rule advances_update_plain)
    (auto simp: row_ok_def row_le_def lease_ok_def key_of_def in_flight_def sched_row)

section \<open>Bindings and events\<close>

lemma lookup_binding_None: "lookup_binding s i = None \<longleftrightarrow> i \<notin> set (map b_id (tbl_bindings s))"
  by (auto simp: lookup_binding_def find_None_iff)

lemma event_row_id [simp]: "e_id (event_row i ev dg now) = i"
  by (simp add: event_row_def)

lemma lookup_event_None: "lookup_event s i = None \<longleftrightarrow> i \<notin> set (map e_id (tbl_events s))"
  by (auto simp: lookup_event_def find_None_iff)

lemma spec_row_simps [simp]:
  "b_id (spec_row i spec dg st n cr up) = i" "b_status (spec_row i spec dg st n cr up) = st"
  "b_revision (spec_row i spec dg st n cr up) = n"
  "b_spec_digest (spec_row i spec dg st n cr up) = dg"
  by (simp_all add: spec_row_def)

lemma advances_new_binding:
  assumes "lookup_binding s (b_id row) = None" "binding_checks row"
  shows "advances s (s\<lparr>tbl_bindings := tbl_bindings s @ [row]\<rparr>)"
proof -
  have "store_le s (s\<lparr>tbl_bindings := tbl_bindings s @ [row]\<rparr>)"
    by (rule store_leI [where rows = "tbl_activations s" and new_rows = "[]" and new_events = "[]"
          and new_receipts = "[]" and new_bindings = "[b_id row]"])
      (simp_all add: list.rel_refl)
  then show ?thesis
    using assms unfolding lookup_binding_None
    by (auto simp: advances_def wf_store_def references_ok_def)
qed

lemma advances_update_bindings:
  assumes "\<And>b. b \<in> set (tbl_bindings s) \<Longrightarrow> binding_checks b \<Longrightarrow> P b \<Longrightarrow> b_id (f b) = b_id b \<and> binding_checks (f b)"
  shows "advances s (update_bindings P f s)"
  unfolding advances_def
proof
  assume wf: "wf_store s"
  have ok: "b_id (f b) = b_id b \<and> binding_checks (f b)" if "b \<in> set (tbl_bindings s)" "P b" for b
    using assms that wf_storeD(4) [OF wf that(1)] by blast
  then have ids: "map b_id (tbl_bindings (update_bindings P f s)) = map b_id (tbl_bindings s)"
    by auto
  have "list_all binding_checks (tbl_bindings (update_bindings P f s))"
    using ok wf_storeD(4) [OF wf] by (auto simp: list_all_iff)
  moreover have "references_ok (update_bindings P f s)"
    using wf ids unfolding wf_store_def references_ok_def by (metis update_bindings_simps(1,2))
  ultimately have "wf_store (update_bindings P f s)"
    using wf ids unfolding wf_store_def by (metis update_bindings_simps(1-3))
  moreover have "store_le s (update_bindings P f s)"
    by (rule store_leI_rows) (use ids in \<open>simp_all add: list.rel_refl\<close>)
  ultimately show "wf_store (update_bindings P f s) \<and> store_le s (update_bindings P f s)" ..
qed

lemma upsert_action_cases:
  assumes "upsert_action c args spec i dg now s = Inr (v, s')"
  obtains (kept) "s' = s"
  | (inserted) "lookup_binding s i = None" "obj_get args ''expected_revision'' = None"
      "binding_checks (spec_row i spec dg Active 1 now now)"
      "s' = s\<lparr>tbl_bindings := tbl_bindings s @ [spec_row i spec dg Active 1 now now]\<rparr>"
  | (updated) current row where "lookup_binding s i = Some current"
      "arg_int args ''expected_revision'' = Some (b_revision current)" "binding_checks row"
      "b_id row = b_id current" "b_revision row = b_revision current + 1"
      "s' = update_bindings (\<lambda>b. b_id b = b_id current) (\<lambda>_. row) s"
proof (cases "lookup_binding s i")
  case None
  with assms inserted show ?thesis
    by (auto simp: upsert_action_def query_binding_def upsert_insert_def bindR_Inr_iff Let_def)
next
  case (Some current)
  let ?row = "spec_row (b_id current) spec dg (b_status current) (b_revision current + 1)
    (b_created_at current) now"
  from assms Some have "s' = s \<or>
      arg_int args ''expected_revision'' = Some (b_revision current) \<and> binding_checks ?row \<and>
      s' = update_bindings (\<lambda>b. b_id b = b_id current) (\<lambda>_. ?row) s"
    by (auto simp: upsert_action_def query_binding_def upsert_update_def bindR_Inr_iff Let_def
        split: option.splits if_splits)
  then show ?thesis using kept updated [OF Some, of ?row] by auto
qed

lemma advances_upsert:
  assumes "upsert_action c args spec i dg now s = Inr (v, s')"
  shows "advances s s'"
  using assms
proof (cases rule: upsert_action_cases)
  case inserted
  then show ?thesis using advances_new_binding [of s "spec_row i spec dg Active 1 now now"] by simp
next
  case (updated current row)
  show ?thesis unfolding updated(6) by (rule advances_update_bindings) (simp add: updated)
qed simp

lemma status_action_Inr:
  assumes "status_action c i expected st now s = Inr (v, s')"
  obtains current where "lookup_binding s i = Some current" "b_revision current = expected"
    "s' = (if st = Paused then update_activations
             (\<lambda>a. a_binding_id a = i \<and> (a_status a = Pending \<or> lease_expired now a))
             (quiesce ''binding_paused_before_admission'' now) else (\<lambda>s. s))
          (update_bindings (\<lambda>b. b_id b = i)
             (\<lambda>b. b\<lparr>b_status := st, b_revision := b_revision b + 1, b_updated_at := now\<rparr>) s)"
  using assms by (auto simp: status_action_def bindR_Inr_iff Let_def split: if_splits)

lemma advances_quiesce:
  "advances s (update_activations
     (\<lambda>a. a_binding_id a = i \<and> (a_status a = Pending \<or> lease_expired now a)) (quiesce r now) s)"
  by (rule advances_update_plain) (use quiesce_row in \<open>blast dest: lease_expired_leased\<close>)

lemma advances_status:
  assumes "status_action c i expected st now s = Inr (v, s')"
  shows "advances s s'"
proof -
  let ?t = "update_bindings (\<lambda>b. b_id b = i)
             (\<lambda>b. b\<lparr>b_status := st, b_revision := b_revision b + 1, b_updated_at := now\<rparr>) s"
  have "advances s ?t"
    by (rule advances_update_bindings) (auto simp: binding_checks_def)
  moreover have "s' = ?t \<or> s' = update_activations
      (\<lambda>a. a_binding_id a = i \<and> (a_status a = Pending \<or> lease_expired now a))
      (quiesce ''binding_paused_before_admission'' now) ?t"
    using assms by (cases rule: status_action_Inr) simp
  ultimately show ?thesis using advances_quiesce by (elim disjE) (auto intro: advances_trans)
qed

lemma insert_activation_Inr:
  "insert_activation c row s = Inr s' \<longleftrightarrow>
     sql_fault c (''insert activation '' @ a_id row) = None \<and>
     activation_unique (tbl_activations s @ [row]) \<and>
     s' = s\<lparr>tbl_activations := tbl_activations s @ [row]\<rparr>"
  by (auto simp: insert_activation_def bindR_Inr_iff)

lemma new_activation_simps [simp]:
  "a_id (new_activation h b ev i due now) = activation_key h (b_id b) i"
  "a_binding_id (new_activation h b ev i due now) = b_id b"
  "a_source_event_id (new_activation h b ev i due now) = i"
  "a_due_at (new_activation h b ev i due now) = due"
  "row_ok (new_activation h b ev i due now)"
  "\<not> in_flight (new_activation h b ev i due now)"
  by (simp_all add: new_activation_def Let_def row_ok_def lease_ok_def in_flight_def)

lemma advances_insert_activation:
  assumes "insert_activation c row s = Inr s'" "row_ok row" "\<not> in_flight row"
    and "a_binding_id row \<in> set (map b_id (tbl_bindings s))"
    and "a_source_event_id row \<in> set (map e_id (tbl_events s))"
  shows "advances s s'"
proof -
  from assms(1) have s': "s' = s\<lparr>tbl_activations := tbl_activations s @ [row]\<rparr>"
    and unique: "activation_unique (tbl_activations s @ [row])"
    by (auto simp: insert_activation_Inr)
  have "store_le s s'"
    by (rule store_leI [where rows = "tbl_activations s" and new_rows = "[row]" and new_events = "[]"
          and new_receipts = "[]" and new_bindings = "[]"])
      (simp_all add: s' list.rel_refl)
  moreover have "exclusive (tbl_activations s) \<Longrightarrow> exclusive (tbl_activations s @ [row])"
    using assms(3) unfolding exclusive_def set_append list.set by blast
  ultimately show ?thesis
    using assms(2,4,5) unique by (auto simp: s' advances_def wf_store_def references_ok_def)
qed

lemma admit_binding_cases:
  assumes "admit_binding h c ev i now b s = Inr s'"
  obtains (same) "s' = s"
      "binding_matches b ev \<Longrightarrow> lookup_activation s (activation_key h (b_id b) i) \<noteq> None"
  | (inserted) due where "binding_matches b ev"
      "lookup_activation s (activation_key h (b_id b) i) = None"
      "insert_activation c (new_activation h b ev i due now) s = Inr s'"
  using assms
  by (auto simp: admit_binding_def query_activation_def bindR_Inr_iff Let_def split: if_splits)

lemma admit_binding_tables:
  "admit_binding h c ev i now b s = Inr s' \<Longrightarrow>
     tbl_bindings s' = tbl_bindings s \<and> tbl_events s' = tbl_events s \<and> tbl_receipts s' = tbl_receipts s"
  by (elim admit_binding_cases) (auto simp: insert_activation_Inr)

lemma advances_admit_binding:
  assumes "admit_binding h c ev i now b s = Inr s'" "b_id b \<in> set (map b_id (tbl_bindings s))"
    and "i \<in> set (map e_id (tbl_events s))"
  shows "advances s s'"
  using assms(1)
proof (cases rule: admit_binding_cases)
  case (inserted due)
  then show ?thesis
    by (intro advances_insert_activation [OF inserted(3)]) (use assms(2,3) in simp_all)
qed simp

lemma advances_admit_bindings:
  assumes "admit_bindings h c ev i now bs s = Inr s'"
    and "\<forall>b \<in> set bs. b_id b \<in> set (map b_id (tbl_bindings s))" "i \<in> set (map e_id (tbl_events s))"
  shows "advances s s'"
  using assms
proof (induction bs arbitrary: s)
  case Nil
  then show ?case by simp
next
  case (Cons b bs)
  from Cons.prems(1) obtain t where t: "admit_binding h c ev i now b s = Inr t"
    "admit_bindings h c ev i now bs t = Inr s'"
    by (auto simp: bindR_Inr_iff)
  have "advances s t" using advances_admit_binding [OF t(1)] Cons.prems(2,3) by simp
  moreover have "advances t s'"
    using Cons.IH [OF t(2)] Cons.prems(2,3) admit_binding_tables [OF t(1)] by simp
  ultimately show ?case by (rule advances_trans)
qed

lemma store_event_cases:
  assumes "store_event h c ev i dg now s = Inr s'"
  obtains (old) e where "lookup_event s i = Some e" "e_digest e = dg" "s' = s"
  | (new) "lookup_event s i = None" "s' = s\<lparr>tbl_events := tbl_events s @ [event_row i ev dg now]\<rparr>"
  using assms by (auto simp: store_event_def bindR_Inr_iff Let_def split: option.splits)

lemma store_event_Inr:
  assumes "store_event h c ev i dg now s = Inr s'"
  shows "advances s s' \<and> i \<in> set (map e_id (tbl_events s')) \<and> tbl_bindings s' = tbl_bindings s \<and>
    tbl_activations s' = tbl_activations s"
  using assms
proof (cases rule: store_event_cases)
  case (old e)
  then have "lookup_event s i \<noteq> None" by simp
  then have "i \<in> set (map e_id (tbl_events s))" unfolding lookup_event_None by simp
  with old show ?thesis by simp
next
  case new
  have "store_le s s'"
    by (rule store_leI [where rows = "tbl_activations s" and new_rows = "[]"
          and new_events = "[event_row i ev dg now]" and new_receipts = "[]" and new_bindings = "[]"])
      (simp_all add: new list.rel_refl)
  then show ?thesis
    using new unfolding lookup_event_None
    by (auto simp: advances_def wf_store_def references_ok_def)
qed

lemma advances_event_admit:
  assumes "admit_action h c ev i now s = Inr (v, s')"
  shows "advances s s'"
proof -
  from assms obtain t where t: "store_event h c ev i (sched_digest h (JObj ev)) now s = Inr t"
    "admit_bindings h c ev i now (active_bindings (text_of ev ''topic'') t) t = Inr s'"
    by (auto simp: admit_action_def bindR_Inr_iff)
  have "advances t s'"
    by (rule advances_admit_bindings [OF t(2)])
      (use store_event_Inr [OF t(1)] in \<open>auto simp: active_bindings_def\<close>)
  then show ?thesis using store_event_Inr [OF t(1)] by (blast intro: advances_trans)
qed

section \<open>Tools\<close>

lemma advances_transaction:
  assumes "\<And>v s'. act s = Inr (v, s') \<Longrightarrow> advances s s'"
  shows "advances s (fst (transaction c act s))"
  by (cases rule: transaction_cases [of c act s]) (auto intro: assms)

lemma tool_advances:
  "advances s (fst (binding_upsert h c args s))" "advances s (fst (binding_set_status h c tool args s))"
  "advances s (fst (event_admit h c args s))" "advances s (fst (activation_claim h c args s))"
  "advances s (fst (activation_admit_sop h c args s))" "advances s (fst (activation_fail h c args s))"
  "advances s (fst (activation_resolve h c args s))" "advances s (fst (activation_unblock h c args s))"
  by (auto simp: binding_upsert_def binding_set_status_def event_admit_def activation_claim_def
      activation_admit_sop_def activation_fail_def activation_resolve_def activation_unblock_def Let_def
      split: sum.splits prod.splits
      intro!: advances_transaction
      intro: advances_upsert advances_status advances_event_admit advances_claim advances_admit_sop
        advances_fail advances_resolve advances_unblock)

definition file_advances :: "database \<Rightarrow> database \<Rightarrow> bool" where
  "file_advances d d' \<longleftrightarrow> advances (tables d) (tables d')"

lemma file_advances_refl [simp]: "file_advances d d"
  by (simp add: file_advances_def)

lemma file_advances_trans: "file_advances a b \<Longrightarrow> file_advances b d \<Longrightarrow> file_advances a d"
  by (auto simp: file_advances_def intro: advances_trans)

lemma then_db_advances:
  assumes "file_advances d (fst r)" "\<And>d'. file_advances d' (fst (f d'))"
  shows "file_advances d (fst (then_db r f))"
  using assms by (auto simp: then_db_def split: prod.splits sum.splits intro: file_advances_trans)

lemma batch_advances: "(\<And>d. file_advances d (f d)) \<Longrightarrow> file_advances d (fst (batch c l b f d))"
  by (auto simp: batch_def split: sum.splits)

lemma configure_advances: "file_advances d (fst (configure c m d))"
  unfolding configure_def Let_def
  by (intro then_db_advances) (auto simp: file_advances_def)

lemma initialize_advances: "file_advances d (fst (initialize_schema c d))"
  unfolding initialize_schema_def
  by (intro then_db_advances batch_advances)
    (auto simp: file_advances_def advances_migrate intro!: batch_advances [unfolded file_advances_def])

definition wf_file :: "database option \<Rightarrow> bool" where
  "wf_file file = (case file of None \<Rightarrow> True | Some d \<Rightarrow> wf_store (tables d))"

definition file_le :: "database option \<Rightarrow> database option \<Rightarrow> bool" where
  "file_le file file' =
     (case file of
        None \<Rightarrow> True
      | Some d \<Rightarrow> (case file' of None \<Rightarrow> False | Some d' \<Rightarrow> store_le (tables d) (tables d')))"

definition no_file :: "database option \<Rightarrow> bool" where
  "no_file file \<longleftrightarrow> file = None"

inductive sched_step :: "sched_host \<Rightarrow> database option \<Rightarrow> database option \<Rightarrow> bool" for h where
  tool_call: "call_tool h c wal site tool args file = (file', r) \<Longrightarrow> sched_step h file file'"

inductive_cases sched_stepE: "sched_step h file file'"

lemma wf_empty_store: "wf_store empty_store"
  by (simp add: wf_store_def empty_store_def activation_unique_def run_unique_def exclusive_def
      references_ok_def receipt_unique_def)

lemma wf_file_Some: "file_advances d d' \<Longrightarrow> wf_store (tables d) \<Longrightarrow>
    wf_file (Some d') \<and> file_le (Some d) (Some d')"
  by (simp add: file_advances_def advances_def wf_file_def file_le_def)

lemma prepare_step:
  assumes "wf_file file"
  shows "wf_file (fst (prepare c wal site file)) \<and> file_le file (fst (prepare c wal site file))"
proof -
  let ?opened = "case file of None \<Rightarrow> fresh_database wal | Some d \<Rightarrow> d"
  let ?done = "fst (then_db (configure c True ?opened) (initialize_schema c))"
  have adv: "file_advances ?opened ?done"
    by (intro then_db_advances configure_advances initialize_advances)
  have "wf_store (tables ?opened)"
    using assms wf_empty_store by (auto simp: wf_file_def fresh_database_def split: option.splits)
  then have "wf_file (Some ?done) \<and> file_le file (Some ?done)"
    using wf_file_Some [OF adv] by (cases "file") (simp_all add: file_le_def)
  moreover have "fst (prepare c wal site file) = file \<or> fst (prepare c wal site file) = Some ?done"
    by (auto simp: prepare_def Let_def split: option.splits sum.splits prod.splits)
  moreover have "file_le file file" by (cases "file") (simp_all add: file_le_def store_le_refl)
  ultimately show ?thesis using assms by metis
qed

lemma with_prepared_step:
  assumes "wf_file file" "\<And>s. advances s (fst (action s))"
  shows "wf_file (fst (with_prepared c action file)) \<and> file_le file (fst (with_prepared c action file))"
proof (cases "file")
  case None
  then show ?thesis by (simp add: with_prepared_def wf_file_def file_le_def)
next
  case (Some d)
  let ?d = "fst (configure c False d)"
  let ?acted = "?d\<lparr>tables := fst (action (tables ?d))\<rparr>"
  have "file_advances d ?d" by (rule configure_advances)
  moreover have "file_advances ?d ?acted" using assms(2) by (simp add: file_advances_def)
  moreover have "fst (with_prepared c action file) \<in> {Some d, Some ?d, Some ?acted}"
    by (auto simp: with_prepared_def Some split: sum.splits prod.splits)
  ultimately have "\<exists>d'. fst (with_prepared c action file) = Some d' \<and> file_advances d d'"
    by (auto intro: file_advances_trans)
  then show ?thesis using assms(1) wf_file_Some [of d] by (auto simp: Some wf_file_def)
qed

lemma reading_advances: "advances s (fst (reading f s))"
  by (simp add: reading_def)

lemma call_tool_step:
  assumes "wf_file file"
  shows "wf_file (fst (call_tool h c wal site tool args file)) \<and>
    file_le file (fst (call_tool h c wal site tool args file))"
proof -
  have same: "wf_file file \<and> file_le file file"
    using assms by (cases "file") (simp_all add: file_le_def store_le_refl)
  show ?thesis
    unfolding call_tool_def
    by (simp add: same prepare_step [OF assms] with_prepared_step [OF assms] tool_advances
        reading_advances)
qed

lemma sched_step_le: "sched_step h file file' \<Longrightarrow> wf_file file \<Longrightarrow> wf_file file' \<and> file_le file file'"
  by (elim sched_stepE) (metis call_tool_step fst_conv)

interpretation scheduler: monotone_system no_file "sched_step h" wf_file file_le for h
proof
  show "no_file s \<Longrightarrow> wf_file s" for s by (simp add: no_file_def wf_file_def)
  show "sched_step h s t \<Longrightarrow> wf_file s \<Longrightarrow> wf_file t" for s t by (blast dest: sched_step_le)
  show "wf_file s \<Longrightarrow> file_le s s" for s by (cases s) (simp_all add: file_le_def store_le_refl)
  show "file_le s t \<Longrightarrow> file_le t u \<Longrightarrow> file_le s u" for s t u
    by (auto simp: file_le_def split: option.splits intro: store_le_trans)
  show "wf_file s \<Longrightarrow> sched_step h s t \<Longrightarrow> file_le s t" for s t by (blast dest: sched_step_le)
qed

end
