(* ===== verification/Sched_Demo.thy ===== *)
theory Sched_Demo
  imports Sched_Invariant
begin

text \<open>
  A concrete surrounding for the witnesses: an encoder and a digest that are constant, a clock whose
  text is the number of milliseconds with twelve digits, calls without faults, and the history of a
  prepared site with one binding, one event and a claim.
\<close>

definition demo_clock :: time_lib where
  "demo_clock =
     \<lparr>rfc3339_parse = (\<lambda>s. Some (int (dec_val s) * 1000000)),
      iso_format = (\<lambda>t. pad12 (nat (t div 1000000))),
      representable = (\<lambda>t. 0 \<le> t \<and> t < 10 ^ 18)\<rparr>"

definition demo_json :: host where
  "demo_json =
     \<lparr>to_vec = (\<lambda>v. Inr ''v''), pretty_refusal = (\<lambda>v. None), parse_refusal = (\<lambda>b. ''bad''),
      sha256_bytes = (\<lambda>b. []), exists_text = ''exists'', missing_text = ''missing''\<rparr>"

definition demo_sched :: sched_host where
  "demo_sched = \<lparr>json_host = demo_json, time_host = demo_clock\<rparr>"

definition quiet_call :: "int \<Rightarrow> sched_call" where
  "quiet_call ms =
     \<lparr>clock_first = ms * 1000000, clock_later = ms * 1000000, fresh_uuid = ''u'',
      sql_fault = (\<lambda>l. None), violation_text = (\<lambda>l. ''violated'')\<rparr>"

lemma demo_simps [simp]:
  "canonical_json demo_sched v = ''v''" "sched_digest demo_sched v = []"
  "format_iso demo_sched t = pad12 (nat (t div 1000000))"
  "parse_iso demo_sched s = Inr (int (dec_val s) * 1000000)"
  "representable (time_host demo_sched) t \<longleftrightarrow> 0 \<le> t \<and> t < 10 ^ 18"
  "clock_first (quiet_call ms) = ms * 1000000" "clock_later (quiet_call ms) = ms * 1000000"
  "fresh_uuid (quiet_call ms) = ''u''" "sql_fault (quiet_call ms) l = None"
  by (simp_all add: demo_sched_def demo_json_def demo_clock_def canonical_json_def sched_digest_def
      sha256_def format_iso_def parse_iso_def quiet_call_def)

lemma pad12_le: "m < 10 ^ 12 \<Longrightarrow> n < 10 ^ 12 \<Longrightarrow> pad12 m \<le> pad12 n \<longleftrightarrow> m \<le> n"
  using dec_val_less_iff [of "pad12 n" "pad12 m"]
  by (simp add: length_pad12 pad12_digits not_less [symmetric])

lemma demo_ordered: "ordered_clock demo_sched"
proof -
  have "nat (t div 1000000) < 10 ^ 12" if "0 \<le> t" "t < 10 ^ 18" for t :: int
    using that by (simp add: nat_less_iff)
  then show ?thesis
    by (auto simp: ordered_clock_def pad12_le nat_le_eq_zle pos_imp_zdiv_nonneg_iff)
qed

section \<open>Arguments\<close>

definition demo_binding_args :: jmap where
  "demo_binding_args =
     [(''binding_id'', JStr ''b''), (''trigger_kind'', JStr ''completion''),
      (''concurrency'', JStr ''singleton''), (''source_topic'', JStr ''t''),
      (''target_sop_id'', JStr ''s''), (''target_template_version'', JStr ''1'')]"

definition demo_event_args :: jmap where
  "demo_event_args =
     [(''event_id'', JStr ''e''), (''topic'', JStr ''t''), (''partition_key'', JStr ''p''),
      (''aggregate_id'', JStr ''a''), (''causation_id'', JStr ''c''), (''idempotency_key'', JStr ''i''),
      (''aggregate_revision'', jint 1), (''schema_version'', jint 1), (''occurred_at'', JStr ''0'')]"

definition demo_claim_args :: jmap where
  "demo_claim_args = [(''consumer_id'', JStr ''w'')]"

lemmas demo_strings =
  sched_required_def arg_str_def trimmed_def trim_def ws_ascii_def ws_two_def ws_three_def byte_def
  nonnegative_def arg_int_def required_integer_def text_of_def optional_text_def integer_of_def
  i64_min_def i64_max_def

section \<open>The history\<close>

definition demo_spec :: jmap where
  "demo_spec =
     [(''binding_id'', JStr ''b''), (''trigger_kind'', JStr ''completion''),
      (''source_topic'', JStr ''t''), (''source_sop_id'', JNull), (''terminal_outcomes'', JArr []),
      (''target_sop_id'', JStr ''s''), (''target_template_version'', JStr ''1''),
      (''concurrency'', JStr ''singleton''), (''delay_by_outcome_ms'', JObj []),
      (''default_delay_ms'', jint 0), (''retry_base_ms'', jint 1000), (''retry_max_ms'', jint 300000),
      (''max_attempts'', jint 5), (''blocked_policy'', JStr ''manual_unblock'')]"

definition demo_event :: jmap where
  "demo_event =
     [(''event_id'', JStr ''e''), (''topic'', JStr ''t''), (''partition_key'', JStr ''p''),
      (''aggregate_id'', JStr ''a''), (''causation_id'', JStr ''c''), (''idempotency_key'', JStr ''i''),
      (''aggregate_revision'', jint 1), (''schema_version'', jint 1), (''payload'', JObj []),
      (''occurred_at'', JStr (pad12 0))]"

definition demo_row :: sched_binding where
  "demo_row = spec_row ''b'' demo_spec [] Active 1 (pad12 1) (pad12 1)"

definition demo_pending :: activation where
  "demo_pending = new_activation demo_sched demo_row demo_event ''e'' (pad12 0) (pad12 2)"

definition demo_bound :: sched_store where
  "demo_bound = empty_store\<lparr>tbl_bindings := [demo_row]\<rparr>"

definition demo_queued :: sched_store where
  "demo_queued =
     demo_bound\<lparr>tbl_events := [event_row ''e'' demo_event [] (pad12 2)], tbl_activations := [demo_pending]\<rparr>"

definition demo_leased :: sched_store where
  "demo_leased =
     demo_queued\<lparr>tbl_activations := [lease ''w'' ''u'' (pad12 30003) (pad12 3) demo_pending]\<rparr>"

lemma demo_normalize_binding: "normalize_binding demo_binding_args = Inr demo_spec"
  by (simp add: normalize_binding_def demo_binding_args_def demo_spec_def demo_strings delays_of_def
      terminal_outcomes_of_def jopt_str_def)

lemma demo_checks: "binding_checks demo_row"
  by (simp add: demo_row_def spec_row_def demo_spec_def demo_strings binding_checks_def)

lemma demo_upsert_result:
  "binding_upsert demo_sched (quiet_call 1) demo_binding_args empty_store =
     (demo_bound, Inr (binding_reply demo_row))"
proof -
  have "sched_required demo_spec ''binding_id'' = Inr ''b''"
    by (simp add: demo_spec_def demo_strings)
  moreover have "arg_int demo_binding_args ''expected_revision'' = None"
    "obj_get demo_binding_args ''expected_revision'' = None"
    by (simp_all add: demo_binding_args_def arg_int_def)
  ultimately show ?thesis
    using demo_checks
    by (simp add: binding_upsert_def demo_normalize_binding transaction_def upsert_action_def
        query_binding_def require_binding_def upsert_insert_def lookup_binding_def demo_row_def
        demo_bound_def empty_store_def Let_def)
qed

lemma demo_upsert:
  "fst (binding_upsert demo_sched (quiet_call 1) demo_binding_args empty_store) = demo_bound"
  by (simp add: demo_upsert_result)

lemma demo_normalize_event: "normalize_event demo_sched demo_event_args = Inr demo_event"
  by (simp add: normalize_event_def demo_event_args_def demo_event_def demo_strings event_fields_def
      bounded_json_def payload_arg_def max_event_bytes_def dec_val.simps digit_val_def)

lemma demo_event_values:
  "sched_required demo_event ''event_id'' = Inr ''e''" "text_of demo_event ''topic'' = ''t''"
  "text_of demo_event ''occurred_at'' = pad12 0" "payload_of demo_event = Some []"
  by (simp_all add: demo_event_def demo_strings payload_of_def)

lemma demo_row_values:
  "b_id demo_row = ''b''" "b_source_topic demo_row = ''t''" "b_status demo_row = Active"
  "b_source_sop_id demo_row = None" "b_terminal_outcomes demo_row = JArr []"
  "b_delays demo_row = JObj []" "b_default_delay demo_row = 0" "b_concurrency demo_row = ''singleton''"
  "b_retry_base demo_row = 1000" "b_retry_max demo_row = 300000" "b_max_attempts demo_row = 5"
  "b_target_sop_id demo_row = ''s''" "b_revision demo_row = 1"
  by (simp_all add: demo_row_def spec_row_def demo_spec_def demo_strings)

lemma demo_pending_values:
  "a_id demo_pending = ''activation_''" "a_binding_id demo_pending = ''b''"
  "a_source_event_id demo_pending = ''e''" "a_status demo_pending = Pending"
  "a_due_at demo_pending = pad12 0" "a_sop_run_id demo_pending = None"
  "a_partition_key demo_pending = ''b''" "a_attempt_count demo_pending = 0"
  by (simp_all add: demo_pending_def new_activation_def Let_def demo_row_values demo_event_values
      activation_key_def stable_id_def outcome_of_def arg_str_def)

lemma demo_matches: "binding_matches demo_row demo_event"
  by (simp add: binding_matches_def demo_row_values)

lemma demo_admit_binding:
  assumes "s = demo_bound\<lparr>tbl_events := [event_row ''e'' demo_event [] (pad12 2)]\<rparr>"
  shows "admit_binding demo_sched (quiet_call 2) demo_event ''e'' (pad12 2) demo_row s = Inr demo_queued"
  by (simp add: assms admit_binding_def demo_matches query_activation_def lookup_activation_def
      demo_bound_def empty_store_def demo_event_values plus_millis_def delay_for_def outcome_of_def
      arg_str_def demo_row_values insert_activation_def activation_unique_def run_unique_def
      demo_queued_def demo_pending_def Let_def)

lemma demo_event_admit:
  "\<exists>v. event_admit demo_sched (quiet_call 2) demo_event_args demo_bound = (demo_queued, Inr v)"
proof -
  let ?s = "demo_bound\<lparr>tbl_events := [event_row ''e'' demo_event [] (pad12 2)]\<rparr>"
  have stored: "store_event demo_sched (quiet_call 2) demo_event ''e'' [] (pad12 2) demo_bound = Inr ?s"
    by (simp add: store_event_def lookup_event_def demo_bound_def empty_store_def Let_def
        event_checks_def max_event_bytes_def)
  have "active_bindings ''t'' ?s = [demo_row]"
    by (simp add: active_bindings_def demo_bound_def demo_row_values)
  then show ?thesis
    using demo_admit_binding [OF refl]
    by (simp add: event_admit_def demo_normalize_event demo_event_values transaction_def
        admit_action_def stored list_activations_def)
qed

lemma demo_admit:
  "fst (event_admit demo_sched (quiet_call 2) demo_event_args demo_bound) = demo_queued"
  "\<exists>v. snd (event_admit demo_sched (quiet_call 2) demo_event_args demo_bound) = Inr v"
  using demo_event_admit by auto

lemma demo_recovered: "requeue_expired (pad12 3) (cancel_expired (pad12 3) demo_queued) = demo_queued"
  by (simp add: requeue_expired_def cancel_expired_def update_activations_def lease_expired_def
      demo_queued_def demo_pending_values)

lemma demo_next: "next_claim (pad12 3) demo_queued = Some demo_pending"
  by (simp add: next_claim_def claimable_def demo_queued_def demo_bound_def demo_pending_values
      binding_in_def demo_row_values pad12_le)

lemma demo_claim_result:
  "activation_claim demo_sched (quiet_call 3) demo_claim_args demo_queued =
     (demo_leased, Inr (claim_reply (Some (lease ''w'' ''u'' (pad12 30003) (pad12 3) demo_pending))))"
proof -
  have rows: "tbl_activations demo_queued = [demo_pending]" by (simp add: demo_queued_def)
  have leased: "update_activations (\<lambda>x. a_id x = a_id demo_pending \<and> a_status x = Pending)
      (lease ''w'' ''u'' (pad12 30003) (pad12 3)) demo_queued = demo_leased"
    by (simp add: update_activations_def rows demo_pending_values demo_leased_def)
  have "lookup_activation demo_leased (a_id demo_pending) =
      Some (lease ''w'' ''u'' (pad12 30003) (pad12 3) demo_pending)"
    by (simp add: lookup_activation_def demo_leased_def lease_def)
  then show ?thesis
    by (simp add: activation_claim_def demo_claim_args_def demo_strings lease_ms_of_def plus_millis_def
        transaction_def claim_action_def demo_recovered demo_next leased query_activation_def Let_def)
qed

section \<open>The file\<close>

definition demo_file :: "sched_store \<Rightarrow> database" where
  "demo_file s =
     \<lparr>wal_capable = True, journal_mode = ''wal'', has_schema = True, has_lease_token = True,
      meta_version = Some 2, tables = s\<rparr>"

lemma demo_prepare: "fst (prepare (quiet_call 0) True ''site'' None) = Some (demo_file empty_store)"
  by (simp add: prepare_def Let_def configure_def initialize_schema_def then_db_def batch_def
      fresh_database_def eq_ignore_ascii_case_def run_unique_def empty_store_def demo_file_def
      current_version_def)

lemma demo_with_prepared:
  "fst (with_prepared (quiet_call n) action (Some (demo_file s))) = Some (demo_file (fst (action s)))"
  by (simp add: with_prepared_def demo_file_def configure_def then_db_def eq_ignore_ascii_case_def
      read_version_def current_version_def split: prod.splits)

lemma demo_call_step:
  "sched_step demo_sched None (Some (demo_file empty_store))"
  "sched_step demo_sched (Some (demo_file empty_store)) (Some (demo_file demo_bound))"
  "sched_step demo_sched (Some (demo_file demo_bound)) (Some (demo_file demo_queued))"
  "sched_step demo_sched (Some (demo_file demo_queued)) (Some (demo_file demo_leased))"
proof -
  show "sched_step demo_sched None (Some (demo_file empty_store))"
    by (rule tool_call [where c = "quiet_call 0" and wal = True and site = "''site''"
          and tool = "''scheduler_activation_prepare''" and args = "[]"])
      (simp add: call_tool_def prod_eq_iff demo_prepare)
  show "sched_step demo_sched (Some (demo_file empty_store)) (Some (demo_file demo_bound))"
    by (rule tool_call [where c = "quiet_call 1" and wal = True and site = "''site''"
          and tool = "''scheduler_binding_upsert''" and args = demo_binding_args])
      (simp add: call_tool_def prod_eq_iff demo_with_prepared demo_upsert)
  show "sched_step demo_sched (Some (demo_file demo_bound)) (Some (demo_file demo_queued))"
    by (rule tool_call [where c = "quiet_call 2" and wal = True and site = "''site''"
          and tool = "''scheduler_event_admit''" and args = demo_event_args])
      (simp add: call_tool_def prod_eq_iff demo_with_prepared demo_admit)
  show "sched_step demo_sched (Some (demo_file demo_queued)) (Some (demo_file demo_leased))"
    by (rule tool_call [where c = "quiet_call 3" and wal = True and site = "''site''"
          and tool = "''scheduler_activation_claim''" and args = demo_claim_args])
      (simp add: call_tool_def prod_eq_iff demo_with_prepared demo_claim_result)
qed

lemma demo_sched_reachable:
  "reachable_from no_file (sched_step demo_sched) (Some (demo_file demo_queued))"
  "reachable_from no_file (sched_step demo_sched) (Some (demo_file demo_leased))"
proof -
  have "reachable_from no_file (sched_step demo_sched) None"
    by (rule reach_init) (simp add: no_file_def)
  then show queued: "reachable_from no_file (sched_step demo_sched) (Some (demo_file demo_queued))"
    using demo_call_step(1-3) by (blast intro: reach_step)
  show "reachable_from no_file (sched_step demo_sched) (Some (demo_file demo_leased))"
    by (rule reach_step [OF queued demo_call_step(4)])
qed

lemma demo_wf: "wf_store demo_queued" "wf_store demo_leased"
  using scheduler.reach_inv [OF demo_sched_reachable(1)] scheduler.reach_inv [OF demo_sched_reachable(2)]
  by (simp_all add: wf_file_def demo_file_def)

section \<open>Further calls\<close>

definition demo_admit_args :: jmap where
  "demo_admit_args =
     [(''activation_id'', JStr ''activation_''), (''consumer_id'', JStr ''w''),
      (''lease_token'', JStr ''u''), (''sop_run_id'', JStr ''r''), (''receipt_id'', JStr ''q'')]"

definition demo_status_args :: "int \<Rightarrow> jmap" where
  "demo_status_args n = [(''binding_id'', JStr ''b''), (''expected_revision'', jint n)]"

lemma demo_lookup: "lookup_activation demo_leased ''activation_'' =
    Some (lease ''w'' ''u'' (pad12 30003) (pad12 3) demo_pending)"
  by (simp add: lookup_activation_def demo_leased_def lease_def demo_pending_values)

lemma demo_admit_sop: "\<exists>v. snd (activation_admit_sop demo_sched (quiet_call 4) demo_admit_args demo_leased) = Inr v"
proof -
  let ?s = "update_activations (\<lambda>a. a_id a = ''activation_'') (set_admitted ''r'' (pad12 4)) demo_leased"
  have leased: "require_leased demo_sched (quiet_call 4) ''activation_'' ''w'' ''u'' demo_leased =
      Inr (lease ''w'' ''u'' (pad12 30003) (pad12 3) demo_pending)"
    by (simp add: require_leased_def require_activation_def query_activation_def demo_lookup lease_def
        pad12_le)
  have found: "lookup_activation ?s ''activation_'' =
      Some (set_admitted ''r'' (pad12 4) (lease ''w'' ''u'' (pad12 30003) (pad12 3) demo_pending))"
    by (subst lookup_update) (simp_all add: demo_lookup set_admitted_def lease_def demo_pending_values)
  have rows: "tbl_activations demo_leased = [lease ''w'' ''u'' (pad12 30003) (pad12 3) demo_pending]"
    "tbl_receipts demo_leased = []"
    by (simp_all add: demo_leased_def demo_queued_def demo_bound_def empty_store_def)
  show ?thesis
    using found
    by (simp add: activation_admit_sop_def demo_admit_args_def demo_strings transaction_def
        admit_sop_action_def leased run_unique_def rows record_receipt_def bounded_json_def
        max_event_bytes_def receipt_unique_def reply_activation_def require_activation_def
        query_activation_def lookup_activation_def Let_def)
qed

definition demo_paused :: sched_store where
  "demo_paused =
     demo_queued\<lparr>tbl_bindings := [demo_row\<lparr>b_status := Paused, b_revision := 2, b_updated_at := pad12 5\<rparr>],
       tbl_activations := [quiesce ''binding_paused_before_admission'' (pad12 5) demo_pending]\<rparr>"

definition demo_resumed :: sched_store where
  "demo_resumed =
     demo_paused\<lparr>tbl_bindings := [demo_row\<lparr>b_status := Active, b_revision := 3, b_updated_at := pad12 6\<rparr>]\<rparr>"

lemma demo_tools:
  "status_of_tool ''scheduler_binding_pause'' = Paused" "status_of_tool ''scheduler_binding_resume'' = Active"
  by (simp_all add: status_of_tool_def ends_with_def)

lemma demo_pause:
  "fst (binding_set_status demo_sched (quiet_call 5) ''scheduler_binding_pause'' (demo_status_args 1) demo_queued) =
     demo_paused"
  by (simp add: binding_set_status_def demo_status_args_def demo_strings transaction_def status_action_def
      demo_tools require_binding_def query_binding_def lookup_binding_def demo_queued_def demo_bound_def
      demo_row_values update_bindings_def update_activations_def demo_pending_values demo_paused_def
      empty_store_def Let_def)

lemma demo_resume:
  "fst (binding_set_status demo_sched (quiet_call 6) ''scheduler_binding_resume'' (demo_status_args 2) demo_paused) =
     demo_resumed"
  by (simp add: binding_set_status_def demo_status_args_def demo_strings transaction_def status_action_def
      demo_tools require_binding_def query_binding_def lookup_binding_def demo_paused_def
      demo_row_values update_bindings_def demo_resumed_def Let_def)

lemma demo_pause_steps:
  "sched_step demo_sched (Some (demo_file demo_queued)) (Some (demo_file demo_paused))"
  "sched_step demo_sched (Some (demo_file demo_paused)) (Some (demo_file demo_resumed))"
proof -
  show "sched_step demo_sched (Some (demo_file demo_queued)) (Some (demo_file demo_paused))"
    by (rule tool_call [where c = "quiet_call 5" and wal = True and site = "''site''"
          and tool = "''scheduler_binding_pause''" and args = "demo_status_args 1"])
      (simp add: call_tool_def prod_eq_iff demo_with_prepared demo_pause)
  show "sched_step demo_sched (Some (demo_file demo_paused)) (Some (demo_file demo_resumed))"
    by (rule tool_call [where c = "quiet_call 6" and wal = True and site = "''site''"
          and tool = "''scheduler_binding_resume''" and args = "demo_status_args 2"])
      (simp add: call_tool_def prod_eq_iff demo_with_prepared demo_resume)
qed

end
