(* ===== verification/Sched_Contract.thy ===== *)
theory Sched_Contract
  imports Sched_Demo
begin

text \<open>
  What the activation scheduler promises: exclusion and finality over every history of tool calls,
  fencing by lease tokens, the order of claims, retries with bounded back-off, idempotent event
  admission, revision-guarded bindings, and the calls that leave the file alone; and two places
  where it does less than its parameters suggest.
\<close>

section \<open>Lemmas\<close>

lemma trimmed_required: "sched_required args f = Inr s \<longleftrightarrow> trimmed (arg_str args f) = Some s"
  by (simp add: sched_required_def)

lemma backoff_bounds:
  assumes "0 \<le> base" "0 \<le> cap"
  shows "0 \<le> backoff base cap k \<and> backoff base cap k \<le> cap"
proof -
  have "0 \<le> base * 2 ^ k" using assms(1) by simp
  then show ?thesis
    using assms(2) by (auto simp: backoff_def saturating_mul_def i64_max_def le_max_iff_disj)
qed

lemma backoff_mono:
  assumes "0 \<le> base" "j \<le> k"
  shows "backoff base cap j \<le> backoff base cap k"
proof -
  have "(2 :: int) ^ j \<le> 2 ^ k" using assms(2) by (simp add: power_increasing)
  then have "base * 2 ^ j \<le> base * 2 ^ k" using assms(1) by (rule mult_left_mono)
  then show ?thesis by (auto simp: backoff_def saturating_mul_def)
qed

lemma next_claim_first:
  assumes "next_claim now s = Some a" "x \<in> set (tbl_activations s)" "claimable now s x"
  shows "a_due_at a < a_due_at x \<or> a_due_at a = a_due_at x \<and> a_id a \<le> a_id x"
proof (cases "a_due_at a = a_due_at x")
  case False
  then show ?thesis using next_claim_Some(3) [OF assms] by simp
next
  case True
  let ?ys = "sort_key a_id (filter (claimable now s) (tbl_activations s))"
  let ?same = "\<lambda>y. a_due_at y = a_due_at a"
  from assms(1) obtain rest where xs: "sort_key a_due_at ?ys = a # rest"
    by (auto simp: next_claim_def split: list.splits)
  have "filter ?same ?ys = filter ?same (sort_key a_due_at ?ys)" by (simp add: sort_key_stable)
  also have "\<dots> = a # filter ?same rest" unfolding xs by simp
  finally have same: "filter ?same ?ys = a # filter ?same rest" .
  have "sorted (map a_id (filter ?same ?ys))" by (simp add: sorted_filter)
  then have "\<forall>y \<in> set (filter ?same ?ys). a_id a \<le> a_id y" unfolding same by auto
  moreover have "x \<in> set (filter ?same ?ys)" using assms(2,3) True by auto
  ultimately show ?thesis using True by blast
qed

lemma update_one:
  assumes "wf_store s" "a \<in> set (tbl_activations s)" "a_status a = Pending"
  shows "tbl_activations (update_activations (\<lambda>x. a_id x = a_id a \<and> a_status x = Pending) f s) =
    map (\<lambda>x. if x = a then f a else x) (tbl_activations s)"
  using assms wf_unique_row [OF assms(1,2)] by auto

lemma update_row:
  assumes "wf_store s" "a \<in> set (tbl_activations s)" "a_id a = i"
  shows "map (\<lambda>x. if a_id x = i then f x else x) (tbl_activations s) =
    map (\<lambda>x. if x = a then f a else x) (tbl_activations s)"
proof (rule map_cong [OF refl])
  fix x
  assume "x \<in> set (tbl_activations s)"
  then have "a_id x = i \<longleftrightarrow> x = a" using wf_unique_row [OF assms(1,2)] assms(3) by metis
  then show "(if a_id x = i then f x else x) = (if x = a then f a else x)" by simp
qed

lemma claim_action_Inr:
  assumes "claim_action c u now e s = Inr (v, s')"
  obtains (nothing) "next_claim now (requeue_expired now (cancel_expired now s)) = None"
      "s' = requeue_expired now (cancel_expired now s)" "v = claim_reply None"
  | (claimed) a where "next_claim now (requeue_expired now (cancel_expired now s)) = Some a"
      "s' = update_activations (\<lambda>x. a_id x = a_id a \<and> a_status x = Pending)
              (lease u (fresh_uuid c) e now) (requeue_expired now (cancel_expired now s))"
      "v = claim_reply (lookup_activation s' (a_id a))"
  using assms
  by (auto simp: claim_action_def query_activation_def bindR_Inr_iff Let_def split: option.splits)

lemma activation_claim_Inr:
  assumes "activation_claim h c args s = (s', Inr v)"
  obtains u e where "trimmed (arg_str args ''consumer_id'') = Some u"
    "plus_millis h (clock_first c) (lease_ms_of args) = Inr e"
    "1000 \<le> lease_ms_of args" "lease_ms_of args \<le> 300000"
    "claim_action c u (format_iso h (clock_first c)) (format_iso h e) s = Inr (v, s')"
proof -
  from assms obtain u e where
    "bindR (sched_required args ''consumer_id'') (\<lambda>consumer.
       bindR (refuse_if (\<not> (1000 \<le> lease_ms_of args \<and> lease_ms_of args \<le> 300000))
         (rejected ''scheduler_activation_lease_ms_invalid'' ''scheduler_activation_lease_ms_invalid'')) (\<lambda>_.
       bindR (plus_millis h (clock_first c) (lease_ms_of args)) (\<lambda>expires. Inr (consumer, expires)))) = Inr (u, e)"
    and "transaction c (claim_action c u (format_iso h (clock_first c)) (format_iso h e)) s = (s', Inr v)"
    unfolding activation_claim_def by (auto split: sum.splits)
  then show thesis
    using that by (auto simp: bindR_Inr_iff trimmed_required transaction_Inr)
qed

text \<open>Without faults a claim with valid arguments answers.\<close>

lemma claim_quiet:
  assumes "\<And>l. sql_fault c l = None" "sched_required args ''consumer_id'' = Inr u"
    and "1000 \<le> lease_ms_of args" "lease_ms_of args \<le> 300000"
    and "plus_millis h (clock_first c) (lease_ms_of args) = Inr e"
  shows "\<exists>v. snd (activation_claim h c args s) = Inr v"
  using assms
  by (simp add: activation_claim_def transaction_def claim_action_def query_activation_def Let_def
      split: option.split)

lemma wf_recovered:
  assumes "wf_store s"
  shows "wf_store (requeue_expired now (cancel_expired now s))"
  using assms advances_cancel [of s now] advances_requeue [of "cancel_expired now s" now]
  by (simp add: advances_def)

lemma admit_sop_Inr:
  assumes "activation_admit_sop h c args s = (s', Inr v)"
  obtains i u t run r where "trimmed (arg_str args ''activation_id'') = Some i"
    "trimmed (arg_str args ''consumer_id'') = Some u" "trimmed (arg_str args ''lease_token'') = Some t"
    "trimmed (arg_str args ''sop_run_id'') = Some run"
    "admit_sop_action h c i u t run r (receipt_arg args) (format_iso h (clock_first c)) s = Inr (v, s')"
  using assms
  by (auto simp: activation_admit_sop_def bindR_Inr_iff trimmed_required transaction_Inr split: sum.splits)

lemma fail_Inr:
  assumes "activation_fail h c args s = (s', Inr v)"
  obtains i u t e where "trimmed (arg_str args ''activation_id'') = Some i"
    "trimmed (arg_str args ''consumer_id'') = Some u" "trimmed (arg_str args ''lease_token'') = Some t"
    "trimmed (arg_str args ''error'') = Some e"
    "fail_action h c i u t (Option.bind (obj_get args ''retryable'') as_bool = Some True) e s = Inr (v, s')"
  using assms
  by (auto simp: activation_fail_def bindR_Inr_iff trimmed_required transaction_Inr split: sum.splits)

text \<open>Neither operation under a lease succeeds on a row that is not leased.\<close>

lemma not_leased_refused:
  assumes "lookup_activation s i = Some a" "a_status a \<noteq> Leased"
    and "trimmed (arg_str args ''activation_id'') = Some i"
  shows "snd (activation_admit_sop h c args s) \<noteq> Inr v" "snd (activation_fail h c args s) \<noteq> Inr v"
proof -
  have no: "require_leased h c i u t s \<noteq> Inr x" for u t x
    using assms(1,2) require_leased_Inr(1,4) by fastforce
  show "snd (activation_admit_sop h c args s) \<noteq> Inr v"
  proof
    assume "snd (activation_admit_sop h c args s) = Inr v"
    then have "activation_admit_sop h c args s = (fst (activation_admit_sop h c args s), Inr v)"
      by (simp add: prod_eq_iff)
    then show False
      using assms(3) no by (elim admit_sop_Inr) (auto simp: admit_sop_action_def bindR_Inr_iff)
  qed
  show "snd (activation_fail h c args s) \<noteq> Inr v"
  proof
    assume "snd (activation_fail h c args s) = Inr v"
    then have "activation_fail h c args s = (fst (activation_fail h c args s), Inr v)"
      by (simp add: prod_eq_iff)
    then show False
      using assms(3) no by (elim fail_Inr) (auto simp: fail_action_def bindR_Inr_iff)
  qed
qed

section \<open>Exclusion and finality\<close>

text \<open>C7. In every file that tool calls can produce, at most one activation of a binding and
  partition is leased or admitted, and a row carries an owner, a token and an expiry exactly while
  it is leased.\<close>

theorem one_activation_in_flight:
  assumes "reachable_from no_file (sched_step h) (Some d)"
    and "a \<in> set (tbl_activations (tables d))" "x \<in> set (tbl_activations (tables d))"
    and "in_flight a" "in_flight x"
    and "a_binding_id a = a_binding_id x" "a_partition_key a = a_partition_key x"
  shows "a = x \<and> lease_ok a"
proof -
  have wf: "wf_store (tables d)" using scheduler.reach_inv [OF assms(1)] by (simp add: wf_file_def)
  then have "a_id a = a_id x"
    using wf_storeD(5) assms(2-7) unfolding exclusive_def by blast
  then have "a = x" using wf_unique_row [OF wf assms(3,2)] by simp
  then show ?thesis using wf_storeD(3) [OF wf assms(2)] by (simp add: row_ok_def)
qed

lemma one_activation_in_flight_witness:
  "\<exists>d a. reachable_from no_file (sched_step demo_sched) (Some d) \<and>
     a \<in> set (tbl_activations (tables d)) \<and> in_flight a \<and> lease_ok a"
proof -
  let ?a = "lease ''w'' ''u'' (pad12 30003) (pad12 3) demo_pending"
  have a: "?a \<in> set (tbl_activations (tables (demo_file demo_leased)))"
    by (simp add: demo_file_def demo_leased_def)
  have "in_flight ?a" by (simp add: in_flight_def lease_def)
  with one_activation_in_flight [OF demo_sched_reachable(2) a a] a demo_sched_reachable(2)
  show ?thesis by blast
qed

text \<open>C10. A terminal activation stays exactly as it is through every further history of tool
  calls.\<close>

theorem terminal_is_final:
  assumes "reachable_from no_file (sched_step h) (Some d)" "(sched_step h)\<^sup>*\<^sup>* (Some d) (Some d')"
    and "a \<in> set (tbl_activations (tables d))" "a_status a = Terminal"
  shows "a \<in> set (tbl_activations (tables d'))"
proof -
  have "wf_file (Some d)" using assms(1) by (rule scheduler.reach_inv)
  then have "file_le (Some d) (Some d')" using scheduler.run_le [OF assms(2)] by blast
  then obtain rows new where rows: "tbl_activations (tables d') = rows @ new"
    "list_all2 row_le (tbl_activations (tables d)) rows"
    by (auto simp: file_le_def store_le_def)
  from assms(3) obtain i where i: "i < length (tbl_activations (tables d))"
    "a = tbl_activations (tables d) ! i" by (auto simp: in_set_conv_nth)
  then have "row_le a (rows ! i)" "rows ! i \<in> set rows"
    using list_all2_nthD [OF rows(2)] list_all2_lengthD [OF rows(2)] by simp_all
  with assms(4) rows(1) show ?thesis by (simp add: row_le_def)
qed

lemma terminal_is_final_witness:
  "\<exists>d d' a. (sched_step demo_sched)\<^sup>*\<^sup>* (Some d) (Some d') \<and> d \<noteq> d' \<and>
     a \<in> set (tbl_activations (tables d)) \<and> a_status a = Terminal \<and>
     a \<in> set (tbl_activations (tables d'))"
proof -
  let ?a = "quiesce ''binding_paused_before_admission'' (pad12 5) demo_pending"
  have reach: "reachable_from no_file (sched_step demo_sched) (Some (demo_file demo_paused))"
    by (rule reach_step [OF demo_sched_reachable(1) demo_pause_steps(1)])
  have run: "(sched_step demo_sched)\<^sup>*\<^sup>* (Some (demo_file demo_paused)) (Some (demo_file demo_resumed))"
    using demo_pause_steps(2) by (rule r_into_rtranclp)
  have a: "?a \<in> set (tbl_activations (tables (demo_file demo_paused)))"
    by (simp add: demo_file_def demo_paused_def)
  have status: "a_status ?a = Terminal" by (simp add: quiesce_def)
  have "map b_status (tbl_bindings (tables (demo_file demo_paused))) \<noteq>
      map b_status (tbl_bindings (tables (demo_file demo_resumed)))"
    by (simp add: demo_file_def demo_resumed_def demo_paused_def)
  then have "demo_file demo_paused \<noteq> demo_file demo_resumed" by metis
  with terminal_is_final [OF reach run a status] run a status show ?thesis by blast
qed

section \<open>Leases\<close>

text \<open>C8. Admitting an operating procedure succeeds only for the current holder of an unexpired
  lease; it changes that row alone, and the token is spent: no later call under it succeeds.\<close>

theorem lease_fences:
  assumes "wf_store s" "activation_admit_sop h c args s = (s', Inr v)"
  shows "\<exists>a e run. a \<in> set (tbl_activations s) \<and> a_status a = Leased \<and>
    Some (a_id a) = trimmed (arg_str args ''activation_id'') \<and>
    a_lease_owner a = trimmed (arg_str args ''consumer_id'') \<and>
    a_lease_token a = trimmed (arg_str args ''lease_token'') \<and>
    a_lease_expires_at a = Some e \<and> format_iso h (clock_later c) < e \<and>
    trimmed (arg_str args ''sop_run_id'') = Some run \<and>
    tbl_activations s' = map (\<lambda>x. if x = a then set_admitted run (format_iso h (clock_first c)) a else x)
      (tbl_activations s) \<and>
    (\<forall>h' c' args' w. trimmed (arg_str args' ''activation_id'') = Some (a_id a) \<longrightarrow>
       snd (activation_admit_sop h' c' args' s') \<noteq> Inr w \<and>
       snd (activation_fail h' c' args' s') \<noteq> Inr w)"
proof -
  from assms(2) obtain i u t run r where args: "trimmed (arg_str args ''activation_id'') = Some i"
    "trimmed (arg_str args ''consumer_id'') = Some u" "trimmed (arg_str args ''lease_token'') = Some t"
    "trimmed (arg_str args ''sop_run_id'') = Some run"
    and act: "admit_sop_action h c i u t run r (receipt_arg args) (format_iso h (clock_first c)) s = Inr (v, s')"
    by (rule admit_sop_Inr)
  let ?now = "format_iso h (clock_first c)"
  let ?s1 = "update_activations (\<lambda>a. a_id a = i) (set_admitted run ?now) s"
  from act obtain a where leased: "require_leased h c i u t s = Inr a"
    and receipt: "record_receipt h c i ''sop_admission'' r (receipt_arg args) ?now ?s1 = Inr s'"
    by (auto simp: admit_sop_action_def bindR_Inr_iff Let_def reply_activation_Inr)
  note a = require_leased_Inr [OF leased]
  have "row_ok a" using wf_storeD(3) [OF assms(1) a(2)] .
  then obtain e where e: "a_lease_expires_at a = Some e" using a(4) by (auto simp: row_ok_def lease_ok_def)
  have rows: "tbl_activations s' = map (\<lambda>x. if x = a then set_admitted run ?now a else x) (tbl_activations s)"
    unfolding record_receipt_activations [OF receipt] update_activations_simps
    by (rule update_row [OF assms(1) a(2,3)])
  have found: "lookup_activation s' i = Some (set_admitted run ?now a)"
  proof -
    have "lookup_activation s' i = lookup_activation ?s1 i"
      by (simp add: lookup_activation_def record_receipt_activations [OF receipt])
    also have "\<dots> = Some (set_admitted run ?now a)"
      using a(1,3) by (subst lookup_update) (auto simp: set_admitted_def)
    finally show ?thesis .
  qed
  have "\<forall>h' c' args' w. trimmed (arg_str args' ''activation_id'') = Some (a_id a) \<longrightarrow>
       snd (activation_admit_sop h' c' args' s') \<noteq> Inr w \<and> snd (activation_fail h' c' args' s') \<noteq> Inr w"
    using not_leased_refused [OF found] a(3) by (simp add: set_admitted_def)
  with a e args rows show ?thesis
    by (intro exI [of _ a] exI [of _ e] exI [of _ run]) (simp add: not_le)
qed

lemma lease_fences_witness:
  "\<exists>s'. tbl_activations s' =
     [set_admitted ''r'' (pad12 4) (lease ''w'' ''u'' (pad12 30003) (pad12 3) demo_pending)] \<and>
     (\<forall>w. snd (activation_fail demo_sched (quiet_call 5) demo_admit_args s') \<noteq> Inr w)"
proof -
  let ?r = "activation_admit_sop demo_sched (quiet_call 4) demo_admit_args demo_leased"
  obtain v where "snd ?r = Inr v" using demo_admit_sop by blast
  then have "?r = (fst ?r, Inr v)" by (simp add: prod_eq_iff)
  from lease_fences [OF demo_wf(2) this] show ?thesis
    by (intro exI [of _ "fst ?r"])
       (auto simp: demo_leased_def demo_admit_args_def demo_strings lease_def demo_pending_values)
qed

lemma run_unique_filter: "run_unique xs \<longleftrightarrow> distinct (filter (\<lambda>r. r \<noteq> None) (map a_sop_run_id xs))"
  by (simp add: run_unique_def filter_map comp_def)

lemma run_unique_admitted:
  assumes wf: "wf_store s" and a: "a \<in> set (tbl_activations s)" "a_id a = i" "a_sop_run_id a = None"
    and fresh: "\<forall>x \<in> set (tbl_activations s). a_sop_run_id x \<noteq> Some run"
  shows "run_unique (map (\<lambda>x. if a_id x = i then set_admitted run now x else x) (tbl_activations s))"
proof -
  from a(1) obtain xs ys where rows: "tbl_activations s = xs @ a # ys" by (meson split_list)
  have "a_id x \<noteq> i" if "x \<in> set xs \<union> set ys" for x
    using wf_storeD(1) [OF wf] that a(2) unfolding rows by (auto intro: rev_image_eqI)
  then have map: "map (\<lambda>x. if a_id x = i then set_admitted run now x else x) (tbl_activations s) =
      xs @ set_admitted run now a # ys"
    unfolding rows by (simp add: a(2) map_idI)
  have "distinct (filter (\<lambda>r. r \<noteq> None) (map a_sop_run_id (xs @ ys)))"
    using wf a(3) unfolding wf_store_def activation_unique_def run_unique_filter rows by simp
  moreover have "Some run \<notin> set (map a_sop_run_id (xs @ ys))" using fresh unfolding rows by force
  ultimately show ?thesis
    unfolding map run_unique_filter by (auto simp: set_admitted_def)
qed

text \<open>C29. The holder of a lease can use it: until the millisecond at which it expires, admitting a
  fresh run with a fresh receipt succeeds.\<close>

theorem lease_is_honoured:
  assumes "wf_store s" "ordered_clock h" "\<And>l. sql_fault c l = None"
    and "lookup_activation s i = Some a" "a_status a = Leased" "a_lease_owner a = Some u"
    and "a_lease_token a = Some t" "a_lease_expires_at a = Some (format_iso h e)"
    and "0 \<le> clock_later c" "representable (time_host h) (clock_later c)"
    and "0 \<le> e" "representable (time_host h) e" "clock_later c div 1000000 < e div 1000000"
    and "trimmed (arg_str args ''activation_id'') = Some i"
    and "trimmed (arg_str args ''consumer_id'') = Some u"
    and "trimmed (arg_str args ''lease_token'') = Some t"
    and "trimmed (arg_str args ''sop_run_id'') = Some run"
    and "trimmed (arg_str args ''receipt_id'') = Some r"
    and "\<forall>x \<in> set (tbl_activations s). a_sop_run_id x \<noteq> Some run"
    and "\<forall>x \<in> set (tbl_receipts s). r_id x \<noteq> r \<and> \<not> (r_activation_id x = i \<and> r_kind x = ''sop_admission'')"
    and "length (canonical_json h (receipt_arg args)) \<le> max_event_bytes"
  shows "\<exists>v. snd (activation_admit_sop h c args s) = Inr v"
proof -
  let ?now = "format_iso h (clock_first c)"
  let ?s1 = "update_activations (\<lambda>x. a_id x = i) (set_admitted run ?now) s"
  have "\<not> format_iso h e \<le> format_iso h (clock_later c)"
    using ordered_clockD [OF assms(2) assms(11,9,12,10)] assms(13) by simp
  then have leased: "require_leased h c i u t s = Inr a"
    using assms(3-8) by (simp add: require_leased_def require_activation_def query_activation_def)
  note a = require_leased_Inr [OF leased]
  have "a_sop_run_id a = None" using wf_storeD(3) [OF assms(1) a(2)] a(4) by (auto simp: row_ok_def)
  then have run: "run_unique (tbl_activations ?s1)"
    using run_unique_admitted [OF assms(1) a(2,3)] assms(19) by simp
  have "receipt_unique (tbl_receipts s)" using assms(1) by (simp add: wf_store_def)
  then have receipts: "receipt_unique (tbl_receipts s @ [row])"
    if "r_activation_id row = i" "r_kind row = ''sop_admission''" "r_id row = r" for row
    using assms(20) that by (auto simp: receipt_unique_def)
  have "\<exists>s'. record_receipt h c i ''sop_admission'' r (receipt_arg args) ?now ?s1 = Inr s'"
    using assms(3,21) by (simp add: record_receipt_def bounded_json_def receipts sql_def constraint_def)
  then obtain s' where receipt:
    "record_receipt h c i ''sop_admission'' r (receipt_arg args) ?now ?s1 = Inr s'" by blast
  have "lookup_activation s' i = lookup_activation ?s1 i"
    by (simp add: lookup_activation_def record_receipt_activations [OF receipt])
  also have "\<dots> = Some (set_admitted run ?now a)"
    using a(1,3) by (subst lookup_update) (auto simp: set_admitted_def)
  finally show ?thesis
    using assms(3,14-18) leased run receipt
    by (simp add: activation_admit_sop_def sched_required_def transaction_def admit_sop_action_def
        reply_activation_def require_activation_def query_activation_def Let_def)
qed

lemma lease_is_honoured_witness:
  "\<exists>v. snd (activation_admit_sop demo_sched (quiet_call 30002) demo_admit_args demo_leased) = Inr v"
proof -
  let ?a = "lease ''w'' ''u'' (pad12 30003) (pad12 3) demo_pending"
  have fields: "a_status ?a = Leased" "a_lease_owner ?a = Some ''w''" "a_lease_token ?a = Some ''u''"
    "a_lease_expires_at ?a = Some (format_iso demo_sched 30003000000)"
    by (simp_all add: lease_def)
  have rows: "tbl_activations demo_leased = [?a]" "tbl_receipts demo_leased = []"
    by (simp_all add: demo_leased_def demo_queued_def demo_bound_def empty_store_def)
  show ?thesis
    by (rule lease_is_honoured [OF demo_wf(2) demo_ordered _ demo_lookup fields,
          where run = "''r''" and r = "''q''"])
      (simp_all add: rows demo_admit_args_def demo_strings lease_def demo_pending_values
        max_event_bytes_def)
qed

text \<open>C28. A claim first recovers expired leases, then leases the earliest due claimable activation
  (ties by identifier) to the consumer, leaving every other row; it comes back empty exactly when
  nothing is claimable.\<close>

theorem claim_takes_earliest_due:
  assumes "wf_store s" "activation_claim h c args s = (s', Inr v)"
    and "now = format_iso h (clock_first c)" "r = requeue_expired now (cancel_expired now s)"
  shows "(\<forall>x \<in> set (tbl_activations r). \<not> claimable now r x) \<and> s' = r \<and> v = claim_reply None \<or>
    (\<exists>a u e. a \<in> set (tbl_activations r) \<and> claimable now r a \<and>
       (\<forall>x \<in> set (tbl_activations r). claimable now r x \<longrightarrow>
          a_due_at a < a_due_at x \<or> a_due_at a = a_due_at x \<and> a_id a \<le> a_id x) \<and>
       trimmed (arg_str args ''consumer_id'') = Some u \<and>
       plus_millis h (clock_first c) (lease_ms_of args) = Inr e \<and>
       v = claim_reply (Some (lease u (fresh_uuid c) (format_iso h e) now a)) \<and>
       tbl_activations s' =
         map (\<lambda>x. if x = a then lease u (fresh_uuid c) (format_iso h e) now a else x) (tbl_activations r))"
proof -
  from assms(2) obtain u e where args: "trimmed (arg_str args ''consumer_id'') = Some u"
    "plus_millis h (clock_first c) (lease_ms_of args) = Inr e"
    and act: "claim_action c u now (format_iso h e) s = Inr (v, s')"
    by (rule activation_claim_Inr) (simp add: assms(3))
  from act show ?thesis
  proof (cases rule: claim_action_Inr)
    case nothing
    then show ?thesis using next_claim_None [of now r] by (simp add: assms(4))
  next
    case (claimed a)
    have next_a: "next_claim now r = Some a" using claimed(1) by (simp add: assms(4))
    note a = next_claim_Some [OF next_a]
    have wf: "wf_store r" using wf_recovered [OF assms(1)] by (simp add: assms(4))
    have pending: "a_status a = Pending" using a(2) by (simp add: claimable_def)
    let ?f = "lease u (fresh_uuid c) (format_iso h e) now"
    have s': "s' = update_activations (\<lambda>x. a_id x = a_id a \<and> a_status x = Pending) ?f r"
      using claimed(2) by (simp add: assms(4))
    have rows: "tbl_activations s' = map (\<lambda>x. if x = a then ?f a else x) (tbl_activations r)"
      unfolding s' update_one [OF wf a(1) pending] by auto
    have "lookup_activation r (a_id a) = Some a"
      using lookup_activation_unique [OF wf_storeD(1) [OF wf] a(1)] .
    then have "lookup_activation s' (a_id a) = Some (?f a)"
      unfolding s' by (subst lookup_update) (simp_all add: lease_def pending)
    then show ?thesis
      using a(1,2) next_claim_first [OF next_a] args rows claimed(3) by auto
  qed
qed

lemma claim_takes_earliest_due_witness:
  "\<exists>a. claimable (pad12 3) demo_queued a \<and> a_status a = Pending \<and>
     (\<forall>x \<in> set (tbl_activations demo_queued). claimable (pad12 3) demo_queued x \<longrightarrow>
        a_due_at a < a_due_at x \<or> a_due_at a = a_due_at x \<and> a_id a \<le> a_id x) \<and>
     tbl_activations demo_leased = map (\<lambda>x. if x = a then lease ''w'' ''u'' (pad12 30003) (pad12 3) a else x)
       (tbl_activations demo_queued)"
proof -
  have now: "pad12 3 = format_iso demo_sched (clock_first (quiet_call 3))" by simp
  have some: "claim_reply (Some a) \<noteq> claim_reply None" for a
    by (simp add: claim_reply_def activation_value_def)
  have expiry: "plus_millis demo_sched (clock_first (quiet_call 3)) (lease_ms_of demo_claim_args) =
      Inr 30003000000"
    by (simp add: plus_millis_def lease_ms_of_def demo_claim_args_def arg_int_def)
  have consumer: "trimmed (arg_str demo_claim_args ''consumer_id'') = Some ''w''"
    by (simp add: demo_claim_args_def demo_strings)
  show ?thesis
    using claim_takes_earliest_due
        [OF demo_wf(1) demo_claim_result now demo_recovered [symmetric]] some expiry consumer
    by (auto simp: claimable_def)
qed

section \<open>Failures\<close>

text \<open>C30. A reported failure counts one attempt and takes the lease away; the activation is queued
  again exactly when the failure is retryable and attempts are left, otherwise it is blocked. Its
  next due time is the back-off of its binding away, which never exceeds the binding's cap and never
  shrinks as the exponent grows.\<close>

theorem failure_backs_off:
  assumes "wf_store s" "activation_fail h c args s = (s', Inr v)"
  shows "\<exists>a b delay problem. a \<in> set (tbl_activations s) \<and> a_status a = Leased \<and>
    lookup_binding s (a_binding_id a) = Some b \<and>
    delay = backoff (b_retry_base b) (b_retry_max b) (nat (clamp 0 30 (a_attempt_count a))) \<and>
    0 \<le> delay \<and> delay \<le> b_retry_max b \<and>
    (\<forall>j k. j \<le> k \<longrightarrow>
       backoff (b_retry_base b) (b_retry_max b) j \<le> backoff (b_retry_base b) (b_retry_max b) k) \<and>
    tbl_activations s' = map (\<lambda>x. if x = a then
        set_failed (Option.bind (obj_get args ''retryable'') as_bool = Some True \<and>
            a_attempt_count a + 1 < b_max_attempts b)
          (a_attempt_count a + 1) (format_iso h (clock_first c + delay * 1000000))
          (take_chars max_error_bytes problem) (format_iso h (clock_first c)) a
      else x) (tbl_activations s)"
proof -
  from assms(2) obtain i u t e where
    act: "fail_action h c i u t (Option.bind (obj_get args ''retryable'') as_bool = Some True) e s = Inr (v, s')"
    by (rule fail_Inr)
  from act obtain a b due where leased: "require_leased h c i u t s = Inr a"
    and b: "lookup_binding s (a_binding_id a) = Some b"
    and due: "plus_millis h (clock_first c)
        (backoff (b_retry_base b) (b_retry_max b) (nat (clamp 0 30 (a_attempt_count a)))) = Inr due"
    and s': "s' = update_activations (\<lambda>x. a_id x = i)
      (set_failed (Option.bind (obj_get args ''retryable'') as_bool = Some True \<and>
            a_attempt_count a + 1 < b_max_attempts b)
        (a_attempt_count a + 1) (format_iso h due) (take_chars max_error_bytes e)
        (format_iso h (clock_first c))) s"
    by (auto simp: fail_action_def bindR_Inr_iff Let_def reply_activation_Inr)
  note a = require_leased_Inr [OF leased]
  have checks: "0 \<le> b_retry_base b" "0 \<le> b_retry_max b"
    using wf_storeD(4) [OF assms(1), of b] lookup_binding_Some [OF b] by (simp_all add: binding_checks_def)
  have "due = clock_first c +
      backoff (b_retry_base b) (b_retry_max b) (nat (clamp 0 30 (a_attempt_count a))) * 1000000"
    using due by (simp add: plus_millis_def Let_def split: if_splits)
  then show ?thesis
    using a(2,4) b backoff_bounds [OF checks] backoff_mono [OF checks(1)]
      update_row [OF assms(1) a(2,3)]
    unfolding s' update_activations_simps
    by (intro exI [of _ a] exI [of _ b] exI exI [of _ e]) (auto simp del: map_eq_conv)
qed

definition demo_fail_args :: jmap where
  "demo_fail_args =
     [(''activation_id'', JStr ''activation_''), (''consumer_id'', JStr ''w''),
      (''lease_token'', JStr ''u''), (''error'', JStr ''x''), (''retryable'', JBool True)]"

lemma demo_fail: "\<exists>v. snd (activation_fail demo_sched (quiet_call 4) demo_fail_args demo_leased) = Inr v"
proof -
  let ?a = "lease ''w'' ''u'' (pad12 30003) (pad12 3) demo_pending"
  have leased: "require_leased demo_sched (quiet_call 4) ''activation_'' ''w'' ''u'' demo_leased = Inr ?a"
    by (simp add: require_leased_def require_activation_def query_activation_def demo_lookup lease_def
        pad12_le)
  have binding: "require_binding (quiet_call 4) demo_leased (a_binding_id ?a) = Inr demo_row"
    by (simp add: lookup_binding_def demo_leased_def demo_queued_def demo_bound_def lease_def
        demo_pending_values demo_row_values)
  have count: "a_attempt_count ?a = 0" by (simp add: lease_def demo_pending_values)
  have "backoff 1000 300000 0 = 1000"
    by (simp add: backoff_def saturating_mul_def i64_max_def i64_min_def)
  then show ?thesis
    by (simp add: activation_fail_def demo_fail_args_def demo_strings transaction_def fail_action_def
        leased binding count Let_def plus_millis_def clamp_def demo_row_values reply_activation_def
        require_activation_def query_activation_def lookup_update demo_lookup set_failed_def)
qed

lemma failure_backs_off_witness:
  "\<exists>(s' :: sched_store) a problem. a_status a = Leased \<and>
     tbl_activations s' = [set_failed True 1 (pad12 1004) problem (pad12 4) a]"
proof -
  let ?r = "activation_fail demo_sched (quiet_call 4) demo_fail_args demo_leased"
  let ?a = "lease ''w'' ''u'' (pad12 30003) (pad12 3) demo_pending"
  obtain v where "snd ?r = Inr v" using demo_fail by blast
  then have r: "?r = (fst ?r, Inr v)" by (simp add: prod_eq_iff)
  have row: "tbl_activations demo_leased = [?a]" by (simp add: demo_leased_def)
  have a: "a_binding_id ?a = ''b''" "a_attempt_count ?a = 0"
    by (simp_all add: lease_def demo_pending_values)
  have b: "lookup_binding demo_leased ''b'' = Some demo_row"
    by (simp add: lookup_binding_def demo_leased_def demo_queued_def demo_bound_def demo_row_values)
  have delay: "backoff 1000 300000 0 = 1000"
    by (simp add: backoff_def saturating_mul_def i64_max_def i64_min_def)
  have retry: "Option.bind (obj_get demo_fail_args ''retryable'') as_bool = Some True"
    by (simp add: demo_fail_args_def)
  have "\<exists>problem. tbl_activations (fst ?r) = [set_failed True 1 (pad12 1004) problem (pad12 4) ?a]"
    using failure_backs_off [OF demo_wf(2) r]
    by (auto simp: row a b delay retry clamp_def demo_row_values)
  moreover have "a_status ?a = Leased" by (simp add: lease_def)
  ultimately show ?thesis by blast
qed

text \<open>C40. Expiry of a lease is not a failure: whatever its binding's limit of attempts, an expired
  activation of a binding that is not paused is queued (or leased) again by the next claim, with
  one attempt more.\<close>

theorem expiry_ignores_max_attempts:
  assumes "wf_store s" "activation_claim h c args s = (s', Inr v)"
    and "a \<in> set (tbl_activations s)" "lease_expired (format_iso h (clock_first c)) a"
    and "lookup_binding s (a_binding_id a) = Some b" "b_status b \<noteq> Paused"
    and "b_max_attempts b \<le> a_attempt_count a"
  shows "\<exists>a'. lookup_activation s' (a_id a) = Some a' \<and> a_status a' \<in> {Pending, Leased} \<and>
    a_attempt_count a' = a_attempt_count a + 1 \<and> b_max_attempts b < a_attempt_count a'"
proof -
  let ?now = "format_iso h (clock_first c)"
  let ?c = "cancel_expired ?now s"
  let ?r = "requeue_expired ?now ?c"
  have found: "lookup_activation s (a_id a) = Some a"
    using lookup_activation_unique [OF wf_storeD(1) [OF assms(1)] assms(3)] .
  have b: "b \<in> set (tbl_bindings s)" "b_id b = a_binding_id a"
    using lookup_binding_Some [OF assms(5)] by simp_all
  have "x = b" if "x \<in> set (tbl_bindings s)" "b_id x = a_binding_id a" for x
    using wf_storeD(2) [OF assms(1)] b that unfolding distinct_map by (metis inj_onD)
  then have not_paused: "\<not> binding_in s {Paused} (a_binding_id a)"
    using assms(6) by (auto simp: binding_in_def)
  have live: "binding_in ?c {Active, Retired} (a_binding_id a)"
    using b assms(6) by (cases "b_status b") (auto simp: binding_in_def cancel_expired_def)
  have kept: "lookup_activation ?c (a_id a) = Some a"
    unfolding cancel_expired_def
    by (subst lookup_update) (simp_all add: quiesce_def found not_paused)
  have requeued: "lookup_activation ?r (a_id a) = Some (requeue ?now a)"
    unfolding requeue_expired_def
    by (subst lookup_update) (simp_all add: requeue_def kept live assms(4))
  from assms(2) obtain u e where "claim_action c u ?now e s = Inr (v, s')"
    by (rule activation_claim_Inr)
  then have "s' = ?r \<or> (\<exists>i. s' = update_activations (\<lambda>x. a_id x = i \<and> a_status x = Pending)
      (lease u (fresh_uuid c) e ?now) ?r)"
    by (rule claim_action_Inr) auto
  then have "lookup_activation s' (a_id a) \<in>
      {Some (requeue ?now a), Some (lease u (fresh_uuid c) e ?now (requeue ?now a))}"
    by (elim disjE exE) (simp_all add: requeued lookup_update lease_def)
  then show ?thesis using assms(7) by (auto simp: requeue_def lease_def)
qed

definition demo_spent :: sched_store where
  "demo_spent =
     demo_queued\<lparr>tbl_activations :=
       [(lease ''w'' ''u'' (pad12 30003) (pad12 3) demo_pending)\<lparr>a_attempt_count := 5\<rparr>]\<rparr>"

lemma expiry_ignores_max_attempts_witness:
  "\<exists>s' a'. lookup_activation s' ''activation_'' = Some a' \<and> a_status a' \<in> {Pending, Leased} \<and>
     b_max_attempts demo_row < a_attempt_count a'"
proof -
  let ?a = "(lease ''w'' ''u'' (pad12 30003) (pad12 3) demo_pending)\<lparr>a_attempt_count := 5\<rparr>"
  let ?r = "activation_claim demo_sched (quiet_call 40000) demo_claim_args demo_spent"
  have wf: "wf_store demo_spent"
    using demo_wf(2)
    by (simp add: wf_store_def demo_leased_def demo_spent_def references_ok_def exclusive_def
        activation_unique_def run_unique_def row_ok_def lease_ok_def)
  have "\<exists>v. snd ?r = Inr v"
    by (rule claim_quiet [where u = "''w''" and e = 70000000000])
       (simp_all add: demo_claim_args_def demo_strings lease_ms_of_def plus_millis_def)
  then obtain v where "?r = (fst ?r, Inr v)" by (auto simp: prod_eq_iff)
  moreover have "?a \<in> set (tbl_activations demo_spent)" by (simp add: demo_spent_def)
  moreover have "lease_expired (format_iso demo_sched (clock_first (quiet_call 40000))) ?a"
    by (simp add: lease_expired_def lease_def pad12_le)
  moreover have "lookup_binding demo_spent (a_binding_id ?a) = Some demo_row" "b_status demo_row \<noteq> Paused"
    "b_max_attempts demo_row \<le> a_attempt_count ?a"
    by (simp_all add: lookup_binding_def demo_spent_def demo_queued_def demo_bound_def lease_def
        demo_pending_values demo_row_values)
  ultimately have "\<exists>a'. lookup_activation (fst ?r) (a_id ?a) = Some a' \<and> a_status a' \<in> {Pending, Leased} \<and>
      a_attempt_count a' = a_attempt_count ?a + 1 \<and> b_max_attempts demo_row < a_attempt_count a'"
    by (rule expiry_ignores_max_attempts [OF wf])
  moreover have "a_id ?a = ''activation_''" by (simp add: lease_def demo_pending_values)
  ultimately show ?thesis by auto
qed

end
