(* ===== verification/Sched_Admission.thy ===== *)
theory Sched_Admission
  imports Sched_Demo
begin

text \<open>
  What the scheduler promises about events, bindings and the file: an event is admitted once and
  every replay is a no-op, a changed binding names the revision it replaces, calls that fail or only
  read leave the file as it is, and an event whose due time is not representable brings the process
  down.
\<close>

section \<open>Events\<close>

lemma event_admit_Inr:
  "event_admit h c args s = (s', Inr v) \<longleftrightarrow>
     (\<exists>ev i. normalize_event h args = Inr ev \<and> sched_required ev ''event_id'' = Inr i \<and>
       transaction c (admit_action h c ev i (format_iso h (clock_first c))) s = (s', Inr v))"
  by (auto simp: event_admit_def bindR_Inr_iff bindR_Inl_iff split: sum.splits prod.splits)

lemma event_admit_start:
  "normalize_event h args = Inr ev \<Longrightarrow> sched_required ev ''event_id'' = Inr i \<Longrightarrow>
     event_admit h c args s = transaction c (admit_action h c ev i (format_iso h (clock_first c))) s"
  by (simp add: event_admit_def)

lemma admit_binding_keeps_rows:
  "admit_binding h c ev i now b s = Inr s' \<Longrightarrow> lookup_activation s k \<noteq> None \<Longrightarrow> lookup_activation s' k \<noteq> None"
  by (elim admit_binding_cases)
    (auto simp: insert_activation_Inr lookup_activation_def find_None_iff)

lemma admit_bindings_keep_rows:
  "admit_bindings h c ev i now bs s = Inr s' \<Longrightarrow> lookup_activation s k \<noteq> None \<Longrightarrow> lookup_activation s' k \<noteq> None"
proof (induction bs arbitrary: s)
  case Nil
  then show ?case by simp
next
  case (Cons b bs)
  from Cons.prems(1) obtain t where "admit_binding h c ev i now b s = Inr t"
    "admit_bindings h c ev i now bs t = Inr s'" by (auto simp: bindR_Inr_iff)
  then show ?case using Cons.IH admit_binding_keeps_rows Cons.prems(2) by metis
qed

lemma admit_binding_row:
  assumes "admit_binding h c ev i now b s = Inr s'" "binding_matches b ev"
  shows "lookup_activation s' (activation_key h (b_id b) i) \<noteq> None"
  using assms(1)
proof (cases rule: admit_binding_cases)
  case same
  then show ?thesis using assms(2) by simp
next
  case (inserted due)
  then show ?thesis by (auto simp: insert_activation_Inr lookup_activation_def find_None_iff)
qed

lemma admit_bindings_rows:
  assumes "admit_bindings h c ev i now bs s = Inr s'" "b \<in> set bs" "binding_matches b ev"
  shows "lookup_activation s' (activation_key h (b_id b) i) \<noteq> None"
  using assms(1,2)
proof (induction bs arbitrary: s)
  case Nil
  then show ?case by simp
next
  case (Cons x bs)
  from Cons.prems(1) obtain t where t: "admit_binding h c ev i now x s = Inr t"
    "admit_bindings h c ev i now bs t = Inr s'" by (auto simp: bindR_Inr_iff)
  show ?case
  proof (cases "b = x")
    case True
    then show ?thesis
      using admit_bindings_keep_rows [OF t(2)] admit_binding_row [OF t(1)] assms(3) by blast
  next
    case False
    then show ?thesis using Cons.IH [OF t(2)] Cons.prems(2) by simp
  qed
qed

lemma admit_bindings_tables:
  "admit_bindings h c ev i now bs s = Inr s' \<Longrightarrow> tbl_bindings s' = tbl_bindings s \<and> tbl_events s' = tbl_events s"
proof (induction bs arbitrary: s)
  case Nil
  then show ?case by simp
next
  case (Cons b bs)
  then obtain t where "admit_binding h c ev i now b s = Inr t"
    "admit_bindings h c ev i now bs t = Inr s'" by (auto simp: bindR_Inr_iff)
  then show ?case using Cons.IH admit_binding_tables by metis
qed

lemma admit_bindings_done:
  assumes "admit_bindings h c ev i now bs s = Inr s'"
    and "\<And>b. b \<in> set bs \<Longrightarrow> binding_matches b ev \<Longrightarrow> lookup_activation s (activation_key h (b_id b) i) \<noteq> None"
  shows "s' = s"
  using assms
proof (induction bs)
  case Nil
  then show ?case by simp
next
  case (Cons b bs)
  from Cons.prems(1) obtain t where t: "admit_binding h c ev i now b s = Inr t"
    "admit_bindings h c ev i now bs t = Inr s'" by (auto simp: bindR_Inr_iff)
  have "t = s"
    using t(1) by (cases rule: admit_binding_cases) (use Cons.prems(2) in auto)
  then show ?case using Cons.IH t(2) Cons.prems(2) by simp
qed

lemma admit_action_Inr:
  assumes "admit_action h c ev i now s = Inr (v, s')"
  obtains t rows where "store_event h c ev i (sched_digest h (JObj ev)) now s = Inr t"
    "admit_bindings h c ev i now (active_bindings (text_of ev ''topic'') t) t = Inr s'"
    "v = admission_reply (lookup_event s i \<noteq> None) i rows"
  using assms by (auto simp: admit_action_def bindR_Inr_iff)

lemma stored_event:
  assumes "store_event h c ev i dg now s = Inr t"
  obtains e where "lookup_event t i = Some e" "e_digest e = dg"
  using assms
proof (cases rule: store_event_cases)
  case (old e)
  then show ?thesis using that by simp
next
  case new
  then have "lookup_event t i = Some (event_row i ev dg now)"
    by (simp add: lookup_event_def find_append)
  then show ?thesis using that by (simp add: event_row_def)
qed

text \<open>C9. Once an event is admitted, every active binding it matches has its activation, every replay
  of the event leaves the tables exactly as they are and answers "replayed", and another event under
  the same identifier is refused and changes nothing.\<close>

theorem event_admission_idempotent:
  assumes "event_admit h c args s = (s', Inr v)"
  shows "\<exists>ev i. normalize_event h args = Inr ev \<and> sched_required ev ''event_id'' = Inr i \<and>
    (\<forall>b \<in> set (tbl_bindings s). b_status b = Active \<longrightarrow> b_source_topic b = text_of ev ''topic'' \<longrightarrow>
       binding_matches b ev \<longrightarrow> lookup_activation s' (activation_key h (b_id b) i) \<noteq> None) \<and>
    (\<forall>c'. fst (event_admit h c' args s') = s' \<and>
       (\<forall>w. snd (event_admit h c' args s') = Inr w \<longrightarrow> jget w ''status'' = Some (JStr ''replayed''))) \<and>
    (\<forall>c' args' ev'. normalize_event h args' = Inr ev' \<longrightarrow> sched_required ev' ''event_id'' = Inr i \<longrightarrow>
       sched_digest h (JObj ev') \<noteq> sched_digest h (JObj ev) \<longrightarrow>
       (\<exists>f. event_admit h c' args' s' = (s', Inl f)))"
proof -
  let ?dg = "\<lambda>ev. sched_digest h (JObj ev)"
  from assms obtain ev i where ev: "normalize_event h args = Inr ev" "sched_required ev ''event_id'' = Inr i"
    and "transaction c (admit_action h c ev i (format_iso h (clock_first c))) s = (s', Inr v)"
    by (auto simp: event_admit_Inr)
  then obtain t where t: "store_event h c ev i (?dg ev) (format_iso h (clock_first c)) s = Inr t"
    and run: "admit_bindings h c ev i (format_iso h (clock_first c))
      (active_bindings (text_of ev ''topic'') t) t = Inr s'"
    by (auto simp: transaction_Inr elim: admit_action_Inr)
  from t obtain e where e: "lookup_event t i = Some e" "e_digest e = ?dg ev" by (rule stored_event)
  have tables: "tbl_bindings s' = tbl_bindings t" "tbl_events s' = tbl_events t" "tbl_bindings t = tbl_bindings s"
    using admit_bindings_tables [OF run] store_event_Inr [OF t] by auto
  have e': "lookup_event s' i = Some e" using e(1) tables(2) by (simp add: lookup_event_def)
  have rows: "lookup_activation s' (activation_key h (b_id b) i) \<noteq> None"
    if "b \<in> set (active_bindings (text_of ev ''topic'') s')" "binding_matches b ev" for b
    using admit_bindings_rows [OF run _ that(2)] that(1) tables(1) by (simp add: active_bindings_def)
  have replay: "admit_action h c' ev i now s' = Inr (w, u) \<Longrightarrow>
      u = s' \<and> jget w ''status'' = Some (JStr ''replayed'')" for c' now w u
  proof (elim admit_action_Inr)
    fix t' rs
    assume t': "store_event h c' ev i (?dg ev) now s' = Inr t'"
      and run': "admit_bindings h c' ev i now (active_bindings (text_of ev ''topic'') t') t' = Inr u"
      and w: "w = admission_reply (lookup_event s' i \<noteq> None) i rs"
    have "t' = s'" using t' by (cases rule: store_event_cases) (simp_all add: e')
    then have "u = s'" using admit_bindings_done [OF run'] rows by blast
    with w e' show ?thesis by (simp add: admission_reply_def)
  qed
  have other: "admit_action h c' ev' i now s' \<noteq> Inr (w, u)" if "?dg ev' \<noteq> ?dg ev" for c' ev' now w u
  proof
    assume "admit_action h c' ev' i now s' = Inr (w, u)"
    then obtain t' where "store_event h c' ev' i (?dg ev') now s' = Inr t'" by (rule admit_action_Inr)
    then show False by (cases rule: store_event_cases) (use that e' e(2) in auto)
  qed
  have "fst (event_admit h c' args s') = s' \<and>
      (\<forall>w. snd (event_admit h c' args s') = Inr w \<longrightarrow> jget w ''status'' = Some (JStr ''replayed''))" for c'
    unfolding event_admit_start [OF ev]
    by (rule transaction_cases [of c' "admit_action h c' ev i (format_iso h (clock_first c'))" s'])
      (use replay transaction_Inl in \<open>force simp: transaction_def split: sum.splits prod.splits\<close>)+
  moreover have "\<exists>f. event_admit h c' args' s' = (s', Inl f)"
    if "normalize_event h args' = Inr ev'" "sched_required ev' ''event_id'' = Inr i" "?dg ev' \<noteq> ?dg ev"
    for c' args' ev'
    unfolding event_admit_start [OF that(1,2)]
    using other [OF that(3), of c' "format_iso h (clock_first c')"]
    by (auto simp: transaction_def split: sum.splits)
  moreover have "lookup_activation s' (activation_key h (b_id b) i) \<noteq> None"
    if "b \<in> set (tbl_bindings s)" "b_status b = Active" "b_source_topic b = text_of ev ''topic''"
      "binding_matches b ev" for b
    using rows that tables by (simp add: active_bindings_def)
  ultimately show ?thesis using ev by blast
qed

lemma event_admission_idempotent_witness:
  "\<exists>s'. lookup_activation s' (activation_key demo_sched ''b'' ''e'') \<noteq> None \<and>
     fst (event_admit demo_sched (quiet_call 9) demo_event_args s') = s'"
proof -
  let ?r = "event_admit demo_sched (quiet_call 2) demo_event_args demo_bound"
  obtain v where "snd ?r = Inr v" using demo_admit(2) by blast
  then have "?r = (fst ?r, Inr v)" by (simp add: prod_eq_iff)
  from event_admission_idempotent [OF this] show ?thesis
    by (auto simp: demo_normalize_event demo_event_values demo_bound_def demo_row_values demo_matches)
qed

text \<open>A binding may hold any delay a 64-bit integer can; admitting an event whose due time then
  is no representable instant panics inside the transaction, which stores nothing.\<close>

theorem unrepresentable_due_panics:
  assumes "normalize_event h args = Inr ev" "sched_required ev ''event_id'' = Inr i"
    and "\<And>l. sql_fault c l = None"
    and "store_event h c ev i (sched_digest h (JObj ev)) (format_iso h (clock_first c)) s = Inr t"
    and "active_bindings (text_of ev ''topic'') t = b # bs" "binding_matches b ev"
    and "lookup_activation t (activation_key h (b_id b) i) = None"
    and "parse_iso h (text_of ev ''occurred_at'') = Inr occurred" "payload_of ev = Some payload"
    and "\<not> representable (time_host h) (occurred + delay_for b (outcome_of payload) payload * 1000000)"
  shows "event_admit h c args s = (s, Inl (Panicked ''resulting value is out of range''))"
proof -
  have "admit_binding h c ev i (format_iso h (clock_first c)) b t =
      Inl (Panicked ''resulting value is out of range'')"
    using assms(3,6-10) by (simp add: admit_binding_def query_activation_def plus_millis_def Let_def)
  then show ?thesis
    using assms(3-5) by (simp add: event_admit_start [OF assms(1,2)] transaction_def admit_action_def)
qed

definition demo_far :: sched_binding where
  "demo_far = demo_row\<lparr>b_default_delay := 10 ^ 12\<rparr>"

lemma unrepresentable_due_panics_witness:
  "event_admit demo_sched (quiet_call 2) demo_event_args (demo_bound\<lparr>tbl_bindings := [demo_far]\<rparr>) =
     (demo_bound\<lparr>tbl_bindings := [demo_far]\<rparr>, Inl (Panicked ''resulting value is out of range'')) \<and>
   binding_checks demo_far"
proof
  let ?s = "demo_bound\<lparr>tbl_bindings := [demo_far]\<rparr>"
  let ?t = "?s\<lparr>tbl_events := [event_row ''e'' demo_event [] (pad12 2)]\<rparr>"
  show "binding_checks demo_far"
    using demo_checks by (simp add: demo_far_def binding_checks_def)
  show "event_admit demo_sched (quiet_call 2) demo_event_args ?s =
      (?s, Inl (Panicked ''resulting value is out of range''))"
    by (rule unrepresentable_due_panics [OF demo_normalize_event demo_event_values(1),
          where t = ?t and b = demo_far and bs = "[]" and occurred = 0 and payload = "[]"])
      (simp_all add: demo_event_values store_event_def lookup_event_def demo_bound_def empty_store_def
        Let_def event_checks_def max_event_bytes_def active_bindings_def demo_far_def demo_row_values
        binding_matches_def lookup_activation_def delay_for_def outcome_of_def arg_str_def)
qed

section \<open>Bindings\<close>

text \<open>After an upsert or a change of status every binding is an old one unchanged, or the successor
  of the revision the caller named, or a new one at revision 1 that the caller did not expect to
  exist.\<close>

theorem binding_changes_name_revision:
  assumes "wf_store s"
    and "b \<in> set (tbl_bindings (fst (binding_upsert h c args s))) \<union>
      set (tbl_bindings (fst (binding_set_status h c tool args s)))"
  shows "b \<in> set (tbl_bindings s) \<or>
    (\<exists>old \<in> set (tbl_bindings s). b_id b = b_id old \<and> b_revision b = b_revision old + 1 \<and>
       arg_int args ''expected_revision'' = Some (b_revision old)) \<or>
    b_revision b = 1 \<and> b_id b \<notin> b_id ` set (tbl_bindings s) \<and> arg_int args ''expected_revision'' = None"
    (is "?claim b")
  using assms(2)
proof
  assume b: "b \<in> set (tbl_bindings (fst (binding_set_status h c tool args s)))"
  show "?claim b"
  proof (cases "fst (binding_set_status h c tool args s) = s")
    case False
    then obtain i expected v where e: "arg_int args ''expected_revision'' = Some expected"
      and act: "status_action c i expected (status_of_tool tool) (format_iso h (clock_first c)) s =
        Inr (v, fst (binding_set_status h c tool args s))"
      by (auto simp: binding_set_status_def bindR_Inr_iff required_integer_def transaction_def
          split: sum.splits prod.splits)
    from act show ?thesis
    proof (cases rule: status_action_Inr)
      case (1 current)
      have "x = current" if "x \<in> set (tbl_bindings s)" "b_id x = i" for x
        using wf_storeD(2) [OF assms(1)] lookup_binding_Some [OF 1(1)] that
        unfolding distinct_map by (metis inj_onD)
      then show ?thesis using b e 1(2,3) by (auto split: if_splits)
    qed
  qed (use b in simp)
next
  assume b: "b \<in> set (tbl_bindings (fst (binding_upsert h c args s)))"
  show "?claim b"
  proof (cases "fst (binding_upsert h c args s) = s")
    case False
    then obtain spec i dg now v where
      act: "upsert_action c args spec i dg now s = Inr (v, fst (binding_upsert h c args s))"
      by (auto simp: binding_upsert_def transaction_def split: sum.splits prod.splits)
    from act show ?thesis
    proof (cases rule: upsert_action_cases)
      case inserted
      then have "i \<notin> b_id ` set (tbl_bindings s)" unfolding lookup_binding_None by simp
      then show ?thesis using inserted(2,4) b by (auto simp: arg_int_def)
    next
      case (updated current row)
      have "b \<in> set (tbl_bindings s) \<or> b = row"
        using b unfolding updated(6) update_bindings_simps by auto
      moreover have "current \<in> set (tbl_bindings s)" using lookup_binding_Some [OF updated(1)] by simp
      ultimately show ?thesis using updated(2,4,5) by blast
    qed (use b in simp)
  qed (use b in simp)
qed

lemma binding_changes_name_revision_witness:
  "\<exists>b. b \<in> set (tbl_bindings demo_paused) \<and> b \<notin> set (tbl_bindings demo_queued) \<and>
     (\<exists>old \<in> set (tbl_bindings demo_queued). b_revision b = b_revision old + 1 \<and>
        arg_int (demo_status_args 1) ''expected_revision'' = Some (b_revision old))"
proof -
  let ?b = "demo_row\<lparr>b_status := Paused, b_revision := 2, b_updated_at := pad12 5\<rparr>"
  have b: "?b \<in> set (tbl_bindings demo_paused)" by (simp add: demo_paused_def)
  then have "?b \<in> set (tbl_bindings (fst (binding_upsert demo_sched (quiet_call 5) (demo_status_args 1) demo_queued))) \<union>
      set (tbl_bindings (fst (binding_set_status demo_sched (quiet_call 5) ''scheduler_binding_pause''
        (demo_status_args 1) demo_queued)))"
    unfolding demo_pause by blast
  from binding_changes_name_revision [OF demo_wf(1) this]
  have "?b \<in> set (tbl_bindings demo_queued) \<or>
      (\<exists>old \<in> set (tbl_bindings demo_queued). b_revision ?b = b_revision old + 1 \<and>
         arg_int (demo_status_args 1) ''expected_revision'' = Some (b_revision old))"
    by auto
  moreover have "b_revision ?b \<noteq> b_revision x" if "x \<in> set (tbl_bindings demo_queued)" for x
    using that by (simp add: demo_queued_def demo_bound_def demo_row_values)
  then have "?b \<notin> set (tbl_bindings demo_queued)" by blast
  ultimately show ?thesis using b by blast
qed

section \<open>The file\<close>

lemma configure_keeps: "fst (configure c False d) = d"
  by (simp add: configure_def then_db_def Let_def split: sum.splits)

lemma with_prepared_keeps:
  assumes "\<And>s f. snd (action s) = Inl f \<Longrightarrow> fst (action s) = s"
    and "snd (with_prepared c action file) = Inl f \<or> (\<forall>s. fst (action s) = s)"
  shows "fst (with_prepared c action file) = file"
proof (cases "file")
  case None
  then show ?thesis by (simp add: with_prepared_def)
next
  case (Some d)
  obtain r where conf: "configure c False d = (d, r)"
    using configure_keeps [of c d] by (cases "configure c False d") simp
  have "fst (action (tables d)) = tables d" if "snd (with_prepared c action file) = snd (action (tables d))"
    using assms that by auto
  then show ?thesis
    using Some conf
    by (auto simp: with_prepared_def split: sum.splits prod.splits)
qed

lemma with_prepared_refused:
  "snd (with_prepared c action file) = Inl f \<Longrightarrow>
     (\<And>s f. snd (action s) = Inl f \<Longrightarrow> fst (action s) = s) \<Longrightarrow> fst (with_prepared c action file) = file"
  by (rule with_prepared_keeps) auto

lemma with_prepared_reading: "fst (with_prepared c (reading g) file) = file"
  by (rule with_prepared_keeps) (simp_all add: reading_def)

lemma tool_rollback:
  "snd (binding_upsert h c args s) = Inl f \<Longrightarrow> fst (binding_upsert h c args s) = s"
  "snd (binding_set_status h c tool args s) = Inl f \<Longrightarrow> fst (binding_set_status h c tool args s) = s"
  "snd (event_admit h c args s) = Inl f \<Longrightarrow> fst (event_admit h c args s) = s"
  "snd (activation_claim h c args s) = Inl f \<Longrightarrow> fst (activation_claim h c args s) = s"
  "snd (activation_admit_sop h c args s) = Inl f \<Longrightarrow> fst (activation_admit_sop h c args s) = s"
  "snd (activation_fail h c args s) = Inl f \<Longrightarrow> fst (activation_fail h c args s) = s"
  "snd (activation_resolve h c args s) = Inl f \<Longrightarrow> fst (activation_resolve h c args s) = s"
  "snd (activation_unblock h c args s) = Inl f \<Longrightarrow> fst (activation_unblock h c args s) = s"
  by (auto simp: binding_upsert_def binding_set_status_def event_admit_def activation_claim_def
      activation_admit_sop_def activation_fail_def activation_resolve_def activation_unblock_def Let_def
      split: sum.splits prod.splits dest: transaction_Inl)

text \<open>A call that is refused, and any call of a tool that the table marks as read-only, leaves the
  database file exactly as it was; preparing a site is the one exception.\<close>

theorem refused_or_reading_call_keeps_file:
  assumes "tool \<noteq> ''scheduler_activation_prepare''"
    and "snd (call_tool h c wal site tool args file) = Inl f \<or> \<not> is_mutation tool"
  shows "fst (call_tool h c wal site tool args file) = file"
proof (cases "supports tool")
  case False
  then have "\<forall>p \<in> set sched_tools. tool \<noteq> fst p" unfolding supports_def by metis
  then have "call_tool h c wal site tool args file =
      (file, Inl (rejected ''unknown_tool'' (''unknown_tool:'' @ tool)))"
    by (simp add: sched_tools_def call_tool_def)
  then show ?thesis by simp
next
  case True
  then have "tool \<in> set (map fst sched_tools)" unfolding supports_def by auto
  then show ?thesis
    using assms unfolding sched_tools_def list.map fst_conv list.set
    by (elim insertE emptyE)
      (auto simp: call_tool_def is_mutation_def sched_tools_def with_prepared_reading
        elim!: with_prepared_refused tool_rollback)
qed

lemma refused_or_reading_call_keeps_file_witness:
  "\<not> is_mutation ''scheduler_activation_list'' \<and>
   fst (call_tool demo_sched (quiet_call 4) True ''site'' ''scheduler_activation_list'' []
     (Some (demo_file demo_leased))) = Some (demo_file demo_leased)"
proof -
  have "\<not> is_mutation ''scheduler_activation_list''"
    by (simp add: is_mutation_def sched_tools_def)
  then show ?thesis
    using refused_or_reading_call_keeps_file [of "''scheduler_activation_list''"] by simp
qed

end
