(* ===== verification/Sched_Roundtrip.thy ===== *)
theory Sched_Roundtrip
  imports Sched_Demo
begin

text \<open>
  A binding is stored in typed columns and text columns of JSON, and read back into an object: what
  a caller is shown is what the normalized specification said.
\<close>

lemma nonnegative_range:
  assumes "nonnegative args k d = Inr i" "0 \<le> d" "d \<le> i64_max"
  shows "i64_min \<le> i \<and> i \<le> i64_max"
proof (cases "arg_int args k")
  case None
  with assms show ?thesis by (simp add: nonnegative_def i64_min_def split: if_splits)
next
  case (Some j)
  then have "i64_min \<le> j \<and> j \<le> i64_max"
    by (auto simp: arg_int_def dest: as_i64_range split: bind_splits)
  with Some assms(1) show ?thesis by (simp add: nonnegative_def split: if_splits)
qed

lemma canonicalize_ints:
  "normalize_delays m = Inr d \<Longrightarrow> canonicalize (JObj (sort_key fst d)) = JObj (sort_key fst d)"
proof -
  assume "normalize_delays m = Inr d"
  then have "\<forall>p \<in> set d. canonicalize (snd p) = snd p"
  proof (induction m arbitrary: d)
    case (Cons p m)
    then show ?case
      by (cases p) (force simp: jint_def bindR_Inr_iff split: option.splits if_splits)
  qed simp
  then have "map (\<lambda>p. (fst p, canonicalize (snd p))) (sort_key fst d) = sort_key fst d"
    by (intro map_idI) simp
  then show ?thesis by (simp add: sort_key_id_if_sorted)
qed

lemma normalize_binding_Inr:
  assumes "normalize_binding args = Inr spec"
  obtains kind concurrency delays base cap attempts i topic target version wait m where
    "spec = [(''binding_id'', JStr i), (''trigger_kind'', JStr kind), (''source_topic'', JStr topic),
       (''source_sop_id'', jopt_str (trimmed (arg_str args ''source_sop_id''))),
       (''terminal_outcomes'', JArr (map JStr (terminal_outcomes_of args))),
       (''target_sop_id'', JStr target), (''target_template_version'', JStr version),
       (''concurrency'', JStr concurrency), (''delay_by_outcome_ms'', JObj (sort_key fst delays)),
       (''default_delay_ms'', jint wait), (''retry_base_ms'', jint base), (''retry_max_ms'', jint cap),
       (''max_attempts'', jint attempts), (''blocked_policy'', JStr ''manual_unblock'')]"
    "normalize_delays m = Inr delays" "\<forall>j \<in> {wait, base, cap, attempts}. i64_min \<le> j \<and> j \<le> i64_max"
    "trimmed (Some i) = Some i" "sched_required args ''binding_id'' = Inr i"
proof -
  from assms obtain kind concurrency delays base cap attempts i topic target version wait where parts:
    "nonnegative args ''default_delay_ms'' 0 = Inr wait" "nonnegative args ''retry_base_ms'' 1000 = Inr base"
    "nonnegative args ''retry_max_ms'' 300000 = Inr cap" "nonnegative args ''max_attempts'' 5 = Inr attempts"
    "sched_required args ''binding_id'' = Inr i" "normalize_delays (delays_of args) = Inr delays"
    "[(''binding_id'', JStr i), (''trigger_kind'', JStr kind), (''source_topic'', JStr topic),
       (''source_sop_id'', jopt_str (trimmed (arg_str args ''source_sop_id''))),
       (''terminal_outcomes'', JArr (map JStr (terminal_outcomes_of args))),
       (''target_sop_id'', JStr target), (''target_template_version'', JStr version),
       (''concurrency'', JStr concurrency), (''delay_by_outcome_ms'', JObj (sort_key fst delays)),
       (''default_delay_ms'', jint wait), (''retry_base_ms'', jint base), (''retry_max_ms'', jint cap),
       (''max_attempts'', jint attempts), (''blocked_policy'', JStr ''manual_unblock'')] = spec"
    unfolding normalize_binding_def bindR_Inr_iff refuse_if_Inr_iff sum.inject
    by (elim exE conjE) (rule that; assumption)
  have "i64_min \<le> j \<and> j \<le> i64_max" if "j \<in> {wait, base, cap, attempts}" for j
    using that parts(1-4) [THEN nonnegative_range] by (auto simp: i64_max_def)
  moreover have "trimmed (Some i) = Some i"
    using parts(5) by (auto simp: sched_required_def intro: trimmed_again)
  ultimately show ?thesis
    using that [OF parts(7) [symmetric] parts(6)] parts(5) by blast
qed

definition shows_spec :: "jmap \<Rightarrow> sched_binding \<Rightarrow> bool" where
  "shows_spec spec b \<longleftrightarrow> (\<forall>(k, x) \<in> set spec. jget (binding_value b) k = Some x)"

lemma spec_row_shows:
  assumes "normalize_binding args = Inr spec"
  shows "shows_spec spec (spec_row (text_of spec ''binding_id'') spec dg st r created now)"
proof -
  have again: "jopt_str (as_str (jopt_str x)) = jopt_str x" for x
    by (cases x) (simp_all add: jopt_str_def)
  from assms show ?thesis
    by (cases rule: normalize_binding_Inr)
      (simp add: shows_spec_def binding_value_def spec_row_def text_of_def optional_text_def
        integer_of_def arg_str_def arg_int_def canonicalize_ints again comp_def del: canonicalize.simps(2))
qed

lemma upsert_stored:
  assumes "upsert_action c args spec i dg now s = Inr (v, s')" "s' \<noteq> s"
  obtains st r created where "lookup_binding s' i = Some (spec_row i spec dg st r created now)"
    "v = binding_reply (spec_row i spec dg st r created now)"
proof (cases "lookup_binding s i")
  case None
  with assms(1) have "s' = s\<lparr>tbl_bindings := tbl_bindings s @ [spec_row i spec dg Active 1 now now]\<rparr>"
    and v: "\<exists>b. lookup_binding s' i = Some b \<and> v = binding_reply b"
    by (auto simp: upsert_action_def query_binding_def require_binding_def upsert_insert_def
        bindR_Inr_iff Let_def)
  moreover from this(1) None have "lookup_binding s' i = Some (spec_row i spec dg Active 1 now now)"
    by (simp add: lookup_binding_def find_append)
  ultimately show ?thesis by (auto intro: that)
next
  case (Some current)
  let ?row = "spec_row (b_id current) spec dg (b_status current) (b_revision current + 1)
    (b_created_at current) now"
  from assms Some have s': "s' = update_bindings (\<lambda>b. b_id b = b_id current) (\<lambda>_. ?row) s"
    and v: "\<exists>b. lookup_binding s' i = Some b \<and> v = binding_reply b"
    by (auto simp: upsert_action_def query_binding_def require_binding_def upsert_update_def
        bindR_Inr_iff Let_def split: option.splits if_splits)
  have i: "b_id current = i" using lookup_binding_Some [OF Some] by simp
  obtain b where b: "lookup_binding s' i = Some b" "v = binding_reply b" using v by blast
  then have "b \<in> set (tbl_bindings s')" "b_id b = i" using lookup_binding_Some by auto
  then have "b = ?row" unfolding s' using i by (auto split: if_splits)
  with b i show ?thesis by (auto intro: that)
qed

text \<open>C31. What an upsert stores is what a later show returns: every field of the normalized
  specification comes back from the columns with its value.\<close>

theorem stored_binding_shows_spec:
  assumes "binding_upsert h c args s = (s', Inr v)" "normalize_binding args = Inr spec" "s' \<noteq> s"
    and "sql_fault c' ''select binding'' = None"
  shows "binding_show c' args s' = Inr v \<and> (\<exists>b. v = binding_reply b \<and> shows_spec spec b)"
proof -
  from assms(2) obtain i where i: "sched_required args ''binding_id'' = Inr i" "text_of spec ''binding_id'' = i"
      "sched_required spec ''binding_id'' = Inr i"
    by (cases rule: normalize_binding_Inr)
      (simp add: sched_required_def text_of_def arg_str_def)
  with assms(1,2) have "upsert_action c args spec i (sched_digest h (JObj spec))
      (format_iso h (clock_first c)) s = Inr (v, s')"
    by (simp add: binding_upsert_def transaction_Inr)
  then obtain st r created where row:
    "lookup_binding s' i = Some (spec_row i spec (sched_digest h (JObj spec)) st r created
       (format_iso h (clock_first c)))"
    "v = binding_reply (spec_row i spec (sched_digest h (JObj spec)) st r created
       (format_iso h (clock_first c)))"
    using assms(3) by (rule upsert_stored)
  moreover have "shows_spec spec (spec_row i spec dg st r created now)" for dg now
    using spec_row_shows [OF assms(2)] i(2) by simp
  ultimately show ?thesis
    using assms(4) i(1) by (auto simp: binding_show_def require_binding_def query_binding_def)
qed

lemma stored_binding_shows_spec_witness:
  "\<exists>v. snd (binding_upsert demo_sched (quiet_call 1) demo_binding_args empty_store) = Inr v \<and>
     binding_show (quiet_call 2) demo_binding_args demo_bound = Inr v \<and>
     (\<exists>b. v = binding_reply b \<and> shows_spec demo_spec b)"
proof -
  have "demo_bound \<noteq> empty_store" by (simp add: demo_bound_def empty_store_def)
  from stored_binding_shows_spec [OF demo_upsert_result demo_normalize_binding this, of "quiet_call 2"]
  show ?thesis by (auto simp: demo_upsert_result)
qed

end
