(* ===== verification/Sop_Values.thy ===== *)
theory Sop_Values
  imports Sched_Values
begin

text \<open>
  The value language of the operating procedures: the helpers at the end of
  \<^verbatim>\<open>sop_authority/parts/11.rs\<close> and \<^verbatim>\<open>12.rs\<close> and the readers of \<^verbatim>\<open>sop_engine/parts/08.rs\<close> and
  \<^verbatim>\<open>09.rs\<close>: diagnostics, bounded strings, canonical text and fingerprints, value references,
  references into the context of a run, mappings, conditions and instruction templates.
  The JSON Schema validator, the serializer and SHA-256 are the record \<open>sop_host\<close>; so is the order
  in which a \<^verbatim>\<open>HashSet\<close> is visited, which the standard library leaves open.
\<close>

record sop_host =
  sop_json :: host
  schema_refusal :: "json \<Rightarrow> string option"
  schema_violations :: "json \<Rightarrow> json \<Rightarrow> string list"
  hash_order :: "string list \<Rightarrow> string list"

section \<open>Diagnostics and strings\<close>

definition diagnostic :: "string \<Rightarrow> string \<Rightarrow> json \<Rightarrow> json" where
  "diagnostic code message details =
     JObj [(''schema'', JStr ''narada.sop.error.v1''), (''code'', JStr code),
           (''message'', JStr message), (''details'', details)]"

lemma diagnostic_code [simp]: "error_code (diagnostic c m d) = Some c"
  by (simp add: error_code_def diagnostic_def)

definition required_string :: "json option \<Rightarrow> string \<Rightarrow> nat \<Rightarrow> json + string" where
  "required_string v code bound =
     bindR (ok_or (trimmed (Option.bind v as_str)) (diagnostic code code (JObj []))) (\<lambda>s.
     if bound < char_count s
     then Inl (diagnostic (code @ ''_too_long'') (code @ ''_too_long'')
            (JObj [(''length'', jnat (char_count s)), (''max_length'', jnat bound)]))
     else Inr s)"

definition optional_string :: "json option \<Rightarrow> string option" where
  "optional_string v = trimmed (Option.bind v as_str)"

lemma required_string_Inr:
  "required_string v code n = Inr s \<longleftrightarrow>
     trimmed (Option.bind v as_str) = Some s \<and> char_count s \<le> n"
  by (cases "trimmed (Option.bind v as_str)") (auto simp: required_string_def)

section \<open>Canonical text\<close>

text \<open>\<^verbatim>\<open>[String]::join\<close>\<close>

fun joined :: "string \<Rightarrow> string list \<Rightarrow> string" where
  "joined sep [] = []"
| "joined sep [x] = x"
| "joined sep (x # xs) = x @ sep @ joined sep xs"

definition scalar_text :: "host \<Rightarrow> json \<Rightarrow> string" where
  "scalar_text h v = (case to_vec h v of Inr s \<Rightarrow> s | Inl _ \<Rightarrow> ''null'')"

definition key_text :: "host \<Rightarrow> string \<Rightarrow> string" where
  "key_text h k = (case to_vec h (JStr k) of Inr s \<Rightarrow> s | Inl _ \<Rightarrow> [CHR 0x22, CHR 0x22])"

fun sop_canonical :: "host \<Rightarrow> json \<Rightarrow> string" where
  "sop_canonical h (JArr xs) = ''['' @ joined '','' (map (sop_canonical h) xs) @ '']''"
| "sop_canonical h (JObj m) =
     ''{'' @ joined '',''
       (map (\<lambda>p. key_text h (fst p) @ '':'' @ snd p)
         (sort_key fst (map (\<lambda>p. (fst p, sop_canonical h (snd p))) m))) @ ''}''"
| "sop_canonical h v = scalar_text h v"

definition fingerprint :: "host \<Rightarrow> json \<Rightarrow> string" where
  "fingerprint h v = sha256 h (sop_canonical h v)"

definition deterministic_id :: "host \<Rightarrow> string \<Rightarrow> string \<Rightarrow> string" where
  "deterministic_id h prefix v = prefix @ take 24 (sha256 h v)"

definition assert_bound :: "host \<Rightarrow> json \<Rightarrow> string \<Rightarrow> nat \<Rightarrow> json + unit" where
  "assert_bound h v field bound =
     (let bytes = length (sop_canonical h v) in
      refuse_if (bound < bytes)
        (diagnostic (field @ ''_too_large'') (field @ ''_too_large'')
          (JObj [(''field'', JStr field), (''byte_length'', jnat bytes), (''max_bytes'', jnat bound)])))"

definition nullable_json :: "host \<Rightarrow> json \<Rightarrow> string option" where
  "nullable_json h v = (if is_null v then None else Some (sop_canonical h v))"

definition max_inline_value_bytes :: nat where
  "max_inline_value_bytes = 16384"

definition max_run_state_bytes :: nat where
  "max_run_state_bytes = 131072"

definition max_template_definition_bytes :: nat where
  "max_template_definition_bytes = 131072"

section \<open>References to stored values\<close>

definition value_ref_refusal :: "string \<Rightarrow> string \<Rightarrow> (string \<times> json) list \<Rightarrow> json" where
  "value_ref_refusal field reason extra =
     diagnostic (field @ ''_invalid'') (field @ ''_invalid'')
       (JObj ([(''field'', JStr field), (''reason'', JStr reason)] @ extra))"

text \<open>\<^verbatim>\<open>to_lowercase\<close> on the ASCII letters; a text with other characters is refused by the
  check that follows, before and after lowering.\<close>

definition lower_hex :: "char \<Rightarrow> bool" where
  "lower_hex ch \<longleftrightarrow> ascii_digit ch \<or> (97 \<le> byte ch \<and> byte ch \<le> 102)"

definition value_ref_length :: "string \<Rightarrow> json option \<Rightarrow> json + json" where
  "value_ref_length field v =
     (case v of
        None \<Rightarrow> Inr JNull
      | Some w \<Rightarrow>
          if is_null w then Inr JNull
          else case as_i64 w of
            Some i \<Rightarrow> if 0 \<le> i then Inr (jint i)
              else Inl (value_ref_refusal field ''byte_length_must_be_nonnegative_safe_integer'' [])
          | None \<Rightarrow> Inl (value_ref_refusal field ''byte_length_must_be_nonnegative_safe_integer'' []))"

definition value_ref_media :: "json option \<Rightarrow> json + json" where
  "value_ref_media v =
     (if v = None \<or> v = Some JNull then Inr JNull
      else bindR (required_string v ''sop_string_required'' 200) (\<lambda>s. Inr (JStr s)))"

definition normalize_value_ref :: "json option \<Rightarrow> string \<Rightarrow> json + json" where
  "normalize_value_ref v field =
     (case v of
        None \<Rightarrow> Inr JNull
      | Some w \<Rightarrow>
      if is_null w then Inr JNull
      else
        bindR (ok_or (as_object w) (value_ref_refusal field ''must_be_object'' [])) (\<lambda>m.
        let unknown = filter (\<lambda>k. k \<notin> {''ref'', ''sha256'', ''byte_length'', ''media_type''}) (obj_keys m) in
        bindR (refuse_if (unknown \<noteq> [])
          (value_ref_refusal field ''unknown_fields'' [(''fields'', JArr (map JStr unknown))])) (\<lambda>_.
        bindR (required_string (obj_get m ''ref'') ''sop_string_required'' 2048) (\<lambda>reference.
        bindR (required_string (obj_get m ''sha256'') ''sop_string_required'' 64) (\<lambda>raw.
        let digest = map ascii_lowercase raw in
        bindR (refuse_if (length digest \<noteq> 64 \<or> \<not> list_all lower_hex digest)
          (value_ref_refusal field ''sha256_must_be_64_lowercase_hex'' [])) (\<lambda>_.
        bindR (value_ref_length field (obj_get m ''byte_length'')) (\<lambda>byte_length.
        bindR (value_ref_media (obj_get m ''media_type'')) (\<lambda>media_type.
        Inr (JObj [(''ref'', JStr reference), (''sha256'', JStr digest),
          (''byte_length'', byte_length), (''media_type'', media_type)])))))))))"

section \<open>Schemas\<close>

definition merge_details :: "json \<Rightarrow> json \<Rightarrow> json" where
  "merge_details v w =
     (case (v, w) of
        (JObj m, JObj n) \<Rightarrow> JObj (fold (\<lambda>p. obj_insert (fst p) (snd p)) n m)
      | _ \<Rightarrow> v)"

definition validate_schema :: "sop_host \<Rightarrow> json option \<Rightarrow> json \<Rightarrow> string \<Rightarrow> json \<Rightarrow> json + unit" where
  "validate_schema h schema v code details =
     (case schema of
        None \<Rightarrow> Inr ()
      | Some sch \<Rightarrow>
      case schema_refusal h sch of
        Some message \<Rightarrow>
          Inl (diagnostic ''sop_json_schema_invalid'' ''sop_json_schema_invalid''
            (JObj [(''message'', JStr message)]))
      | None \<Rightarrow>
          (let problems = take 20 (schema_violations h sch v) in
           refuse_if (problems \<noteq> [])
             (diagnostic code code
               (merge_details details (JObj [(''errors'', JArr (map JStr problems))])))))"

section \<open>References into the context of a run\<close>

definition unsafe_segment :: "string \<Rightarrow> bool" where
  "unsafe_segment s \<longleftrightarrow> s \<in> {[], ''__proto__'', ''prototype'', ''constructor''}"

fun descend :: "json \<Rightarrow> string list \<Rightarrow> json option" where
  "descend v [] = Some v"
| "descend v (segment # segments) =
     (case v of
        JArr xs \<Rightarrow>
          Option.bind (parse_usize segment)
            (\<lambda>i. if i < length xs then descend (xs ! i) segments else None)
      | JObj m \<Rightarrow> Option.bind (obj_get m segment) (\<lambda>w. descend w segments)
      | _ \<Rightarrow> None)"

definition step_named :: "string \<Rightarrow> json \<Rightarrow> bool" where
  "step_named i step \<longleftrightarrow> Option.bind (jget step ''step_id'') as_str = Some i"

definition context_step :: "json \<Rightarrow> string \<Rightarrow> json option" where
  "context_step context i =
     Option.bind (jget context ''steps'') (\<lambda>v. Option.bind (as_array v) (find (step_named i)))"

definition read_reference :: "string \<Rightarrow> json \<Rightarrow> json option" where
  "read_reference reference context =
     (let segments = split_on CHR ''.'' reference in
      if list_ex unsafe_segment segments then None
      else case segments of
        [] \<Rightarrow> None
      | start # rest \<Rightarrow>
          if start = ''input'' then Option.bind (jget context ''input'') (\<lambda>v. descend v rest)
          else if start = ''input_ref'' then Option.bind (jget context ''input_ref'') (\<lambda>v. descend v rest)
          else if start = ''steps'' \<and> 3 \<le> length segments then
            Option.bind (context_step context (hd rest)) (\<lambda>step. descend step (tl rest))
          else None)"

section \<open>Mappings\<close>

definition reference_missing :: "string \<Rightarrow> json" where
  "reference_missing reference =
     diagnostic ''sop_mapping_reference_missing'' ''sop_mapping_reference_missing''
       (JObj [(''ref'', JStr reference)])"

definition resolve_reference :: "jmap \<Rightarrow> json \<Rightarrow> json + json" where
  "resolve_reference m context =
     bindR (required_string (obj_get m ''$ref'') ''sop_string_required'' 512) (\<lambda>reference.
     ok_or (read_reference reference context) (reference_missing reference))"

fun resolve_mapping :: "json \<Rightarrow> json \<Rightarrow> json + json" where
  "resolve_mapping (JArr xs) context =
     bindR (mapR (\<lambda>x. resolve_mapping x context) xs) (\<lambda>ys. Inr (JArr ys))"
| "resolve_mapping (JObj m) context =
     (if length m = 1 \<and> obj_has m ''$ref'' then resolve_reference m context
      else
        bindR (mapR (\<lambda>p. bindR (resolve_mapping (snd p) context) (\<lambda>w. Inr (fst p, w))) m)
          (\<lambda>n. Inr (JObj n)))"
| "resolve_mapping v context = Inr v"

section \<open>Conditions\<close>

text \<open>The loops over \<^verbatim>\<open>all\<close> and \<^verbatim>\<open>any\<close>: they stop at the first refusal and at the first
  child that decides.\<close>

fun allR :: "('a \<Rightarrow> 'e + bool) \<Rightarrow> 'a list \<Rightarrow> 'e + bool" where
  "allR f [] = Inr True"
| "allR f (x # xs) = bindR (f x) (\<lambda>b. if b then allR f xs else Inr False)"

fun anyR :: "('a \<Rightarrow> 'e + bool) \<Rightarrow> 'a list \<Rightarrow> 'e + bool" where
  "anyR f [] = Inr False"
| "anyR f (x # xs) = bindR (f x) (\<lambda>b. if b then Inr True else anyR f xs)"

lemma allR_cong [fundef_cong]:
  "xs = ys \<Longrightarrow> (\<And>x. x \<in> set ys \<Longrightarrow> f x = g x) \<Longrightarrow> allR f xs = allR g ys"
proof (induction ys arbitrary: xs)
  case Nil
  then show ?case by simp
next
  case (Cons y ys)
  then have "allR f ys = allR g ys" by simp
  with Cons.prems show ?case by (simp cong: if_cong)
qed

lemma anyR_cong [fundef_cong]:
  "xs = ys \<Longrightarrow> (\<And>x. x \<in> set ys \<Longrightarrow> f x = g x) \<Longrightarrow> anyR f xs = anyR g ys"
proof (induction ys arbitrary: xs)
  case Nil
  then show ?case by simp
next
  case (Cons y ys)
  then have "anyR f ys = anyR g ys" by simp
  with Cons.prems show ?case by (simp cong: if_cong)
qed

definition js_truthy :: "json \<Rightarrow> bool" where
  "js_truthy v =
     (case v of
        JNull \<Rightarrow> False
      | JBool b \<Rightarrow> b
      | JNum n \<Rightarrow> as_f64 n \<noteq> 0
      | JStr s \<Rightarrow> s \<noteq> []
      | _ \<Rightarrow> True)"

definition condition_refusal :: "string \<Rightarrow> (string \<times> json) list \<Rightarrow> json" where
  "condition_refusal reason extra =
     diagnostic ''sop_condition_invalid'' ''sop_condition_invalid''
       (JObj ([(''reason'', JStr reason)] @ extra))"

definition apply_operator :: "string \<Rightarrow> json option \<Rightarrow> json \<Rightarrow> json + bool" where
  "apply_operator operation resolved comparison =
     (let test = (\<lambda>p. case resolved of None \<Rightarrow> False | Some v \<Rightarrow> p v) in
      if operation = ''exists'' then Inr (resolved \<noteq> None)
      else if operation = ''not_exists'' then Inr (resolved = None)
      else if operation = ''truthy'' then Inr (test js_truthy)
      else if operation = ''falsy'' then Inr (test (\<lambda>v. \<not> js_truthy v))
      else if operation = ''equals'' then Inr (test (\<lambda>v. json_eq v comparison))
      else if operation = ''not_equals'' then
        Inr (case resolved of None \<Rightarrow> True | Some v \<Rightarrow> \<not> json_eq v comparison)
      else if operation = ''in'' then
        Inr (test (\<lambda>v. case as_array comparison of
          None \<Rightarrow> False | Some xs \<Rightarrow> list_ex (\<lambda>x. json_eq x v) xs))
      else if operation = ''contains'' then
        Inr (test (\<lambda>v. case as_array v of
          None \<Rightarrow> False | Some xs \<Rightarrow> list_ex (\<lambda>x. json_eq x comparison) xs))
      else Inl (condition_refusal ''unsupported_operator'' [(''op'', JStr operation)]))"

definition evaluate_test :: "jmap \<Rightarrow> json \<Rightarrow> json + bool" where
  "evaluate_test m context =
     bindR (required_string (obj_get m ''ref'') ''sop_string_required'' 512) (\<lambda>reference.
     bindR (required_string (obj_get m ''op'') ''sop_string_required'' 32) (\<lambda>operation.
     apply_operator operation (read_reference reference context) (jopt (obj_get m ''value''))))"

definition array_entry :: "jmap \<Rightarrow> string \<Rightarrow> json list option" where
  "array_entry m k = Option.bind (obj_get m k) as_array"

lemma array_entry_size: "array_entry m k = Some xs \<Longrightarrow> x \<in> set xs \<Longrightarrow> size x < size (JObj m)"
  by (auto simp: array_entry_def dest!: obj_value_size array_value_size split: bind_splits)

function evaluate_condition :: "json \<Rightarrow> json \<Rightarrow> json + bool" where
  "evaluate_condition condition context =
     (if is_null condition then Inr True
      else case as_object condition of
        None \<Rightarrow> Inl (condition_refusal ''condition_must_be_object'' [])
      | Some m \<Rightarrow>
      case array_entry m ''all'' of
        Some xs \<Rightarrow> allR (\<lambda>x. evaluate_condition x context) xs
      | None \<Rightarrow>
      case array_entry m ''any'' of
        Some xs \<Rightarrow> anyR (\<lambda>x. evaluate_condition x context) xs
      | None \<Rightarrow>
      case obj_get m ''not'' of
        Some v \<Rightarrow> bindR (evaluate_condition v context) (\<lambda>b. Inr (\<not> b))
      | None \<Rightarrow> evaluate_test m context)"
  by pat_completeness auto
termination
  by (relation "measure (\<lambda>(v, _). size v)") (auto dest: array_entry_size obj_value_size)

declare evaluate_condition.simps [simp del]

section \<open>Instruction templates\<close>

definition value_text :: "host \<Rightarrow> json \<Rightarrow> string" where
  "value_text h v =
     (case v of
        JStr s \<Rightarrow> s
      | JBool b \<Rightarrow> if b then ''true'' else ''false''
      | _ \<Rightarrow> sop_canonical h v)"

function render_instructions :: "host \<Rightarrow> string \<Rightarrow> json \<Rightarrow> json + string" where
  "render_instructions h remaining context =
     (case break_on ''{{'' remaining of
        None \<Rightarrow> Inr remaining
      | Some (before, tail) \<Rightarrow>
      case break_on ''}}'' tail of
        None \<Rightarrow> Inr remaining
      | Some (inside, rest) \<Rightarrow>
          bindR (ok_or (read_reference (trim inside) context) (reference_missing (trim inside)))
            (\<lambda>v. bindR (render_instructions h rest context)
              (\<lambda>out. Inr (before @ value_text h v @ out))))"
  by pat_completeness auto
termination
  by (relation "measure (\<lambda>(_, s, _). length s)") (auto dest!: break_on_Some)

declare render_instructions.simps [simp del]

end
