(* ===== verification/Sop_Definition.thy ===== *)
theory Sop_Definition
  imports Sop_Values
begin

text \<open>
  The admission of a procedure definition: \<^verbatim>\<open>sop_authority/parts/09.rs\<close> (steps and the dependency
  graph), \<^verbatim>\<open>10.rs\<close> (references and conditions) and \<^verbatim>\<open>11.rs\<close> (action bindings, schemas and
  lists). A \<^verbatim>\<open>HashSet\<close> of names is a list without repetitions; where the code visits one,
  \<open>hash_order\<close> says in which order, and only the choice among several refusals depends on it.
\<close>

section \<open>Loops that stop at the first refusal\<close>

definition eachR :: "('a \<Rightarrow> 'e + unit) \<Rightarrow> 'a list \<Rightarrow> 'e + unit" where
  "eachR f xs = bindR (mapR f xs) (\<lambda>_. Inr ())"

fun foldR :: "('a \<Rightarrow> 's \<Rightarrow> 'e + 's) \<Rightarrow> 'a list \<Rightarrow> 's \<Rightarrow> 'e + 's" where
  "foldR f [] s = Inr s"
| "foldR f (x # xs) s = bindR (f x s) (foldR f xs)"

lemma foldR_cong [fundef_cong]:
  "xs = ys \<Longrightarrow> s = t \<Longrightarrow> (\<And>x r. x \<in> set ys \<Longrightarrow> f x r = g x r) \<Longrightarrow> foldR f xs s = foldR g ys t"
proof (induction ys arbitrary: xs s t)
  case Nil
  then show ?case by simp
next
  case (Cons y ys)
  then have "foldR f ys = foldR g ys" by (intro ext) simp
  with Cons.prems show ?case by simp
qed

lemma eachR_Inr: "eachR f xs = Inr u \<longleftrightarrow> (\<forall>x \<in> set xs. f x = Inr ())"
  by (induction xs) (auto simp: eachR_def bindR_Inr_iff)

section \<open>Identifiers\<close>

definition valid_step_id :: "string \<Rightarrow> bool" where
  "valid_step_id s \<longleftrightarrow>
     (case s of [] \<Rightarrow> False | ch # rest \<Rightarrow> ascii_alphanumeric ch \<and> list_all safe_char rest)"

definition identifier_char :: "char \<Rightarrow> bool" where
  "identifier_char ch \<longleftrightarrow> ascii_alphanumeric ch \<or> ch = CHR ''_''"

definition valid_identifier :: "string \<Rightarrow> bool" where
  "valid_identifier s \<longleftrightarrow>
     (case s of
        [] \<Rightarrow> False
      | ch # rest \<Rightarrow>
          (ascii_upper ch \<or> ascii_lower ch \<or> ch = CHR ''_'') \<and> list_all identifier_char rest)"

section \<open>Bounded parts of a step\<close>

definition null_or_missing :: "json option \<Rightarrow> bool" where
  "null_or_missing v \<longleftrightarrow> (case v of None \<Rightarrow> True | Some w \<Rightarrow> is_null w)"

definition optional_schema :: "sop_host \<Rightarrow> json option \<Rightarrow> string \<Rightarrow> json + json option" where
  "optional_schema h v field =
     (case v of
        None \<Rightarrow> Inr None
      | Some w \<Rightarrow>
      if is_null w then Inr None
      else
        bindR (refuse_if (as_object w = None)
          (diagnostic ''sop_json_schema_must_be_object'' (''sop_json_schema_must_be_object:'' @ field)
            (JObj [(''field'', JStr field)]))) (\<lambda>_.
        bindR (assert_bound (sop_json h) w ''sop_json_schema'' max_inline_value_bytes) (\<lambda>_.
        case schema_refusal h w of
          Some message \<Rightarrow>
            Inl (diagnostic ''sop_json_schema_invalid'' (''sop_json_schema_invalid:'' @ field)
              (JObj [(''field'', JStr field), (''message'', JStr message)]))
        | None \<Rightarrow> Inr (Some w))))"

definition optional_value :: "sop_host \<Rightarrow> json option \<Rightarrow> string \<Rightarrow> json + json option" where
  "optional_value h v field =
     (case v of
        None \<Rightarrow> Inr None
      | Some w \<Rightarrow>
      if is_null w then Inr None
      else bindR (assert_bound (sop_json h) w field max_inline_value_bytes) (\<lambda>_. Inr (Some w)))"

definition string_list_refusal :: "string \<Rightarrow> (string \<times> json) list \<Rightarrow> json" where
  "string_list_refusal reason extra =
     diagnostic ''sop_string_list_invalid'' ''sop_string_list_invalid''
       (JObj ([(''reason'', JStr reason)] @ extra))"

definition list_entry :: "string list \<Rightarrow> nat \<times> json \<Rightarrow> json + json \<times> string list" where
  "list_entry seen p =
     bindR (ok_or (trimmed (as_str (snd p)))
       (string_list_refusal ''entry_must_be_nonempty_string'' [(''index'', jnat (fst p))])) (\<lambda>s.
     bindR (refuse_if (s \<in> set seen) (string_list_refusal ''duplicate_entries'' [])) (\<lambda>_.
     Inr (JStr s, s # seen)))"

definition string_list :: "json option \<Rightarrow> json + json list" where
  "string_list v =
     (case v of
        None \<Rightarrow> Inr []
      | Some w \<Rightarrow>
      if is_null w then Inr []
      else
        bindR (ok_or (as_array w) (string_list_refusal ''must_be_array'' [])) (\<lambda>xs.
        bindR (mapRS list_entry [] (enumerate 0 xs)) (\<lambda>(ys, _). Inr ys)))"

definition binding_refusal :: "string \<Rightarrow> string \<Rightarrow> json \<Rightarrow> json" where
  "binding_refusal code step_id details = diagnostic code (code @ '':'' @ step_id) details"

definition normalize_action :: "sop_host \<Rightarrow> json option \<Rightarrow> string \<Rightarrow> json + json option" where
  "normalize_action h v step_id =
     (case v of
        None \<Rightarrow> Inr None
      | Some w \<Rightarrow>
      if is_null w then Inr None
      else
        bindR (ok_or (as_object w)
          (binding_refusal ''sop_action_binding_invalid'' step_id
            (JObj [(''reason'', JStr ''must_be_object'')]))) (\<lambda>m.
        let unknown = filter
              (\<lambda>k. k \<notin> {''surface_id'', ''tool_name'', ''arguments'', ''idempotency_key_argument''})
              (obj_keys m) in
        bindR (refuse_if (unknown \<noteq> [])
          (binding_refusal ''sop_action_binding_invalid'' step_id
            (JObj [(''reason'', JStr ''unknown_fields''), (''fields'', JArr (map JStr unknown))]))) (\<lambda>_.
        bindR (required_string (obj_get m ''surface_id'') ''sop_action_requires_surface_id'' 256) (\<lambda>surface.
        bindR (required_string (obj_get m ''tool_name'') ''sop_action_requires_tool_name'' 256) (\<lambda>tool.
        bindR (required_string (obj_get m ''idempotency_key_argument'')
          ''sop_action_requires_idempotency_key_argument'' 128) (\<lambda>key.
        bindR (refuse_if (\<not> valid_identifier key)
          (diagnostic ''sop_action_idempotency_key_argument_invalid''
            (''sop_action_idempotency_key_argument_invalid:'' @ key) (JObj []))) (\<lambda>_.
        let arguments = (case obj_get m ''arguments'' of None \<Rightarrow> JObj [] | Some a \<Rightarrow> a) in
        bindR (refuse_if (as_object arguments = None)
          (binding_refusal ''sop_action_arguments_must_be_object'' step_id (JObj []))) (\<lambda>_.
        bindR (assert_bound (sop_json h) arguments ''sop_action_arguments_mapping''
          max_inline_value_bytes) (\<lambda>_.
        bindR (refuse_if (jget arguments key \<noteq> None)
          (binding_refusal ''sop_action_idempotency_argument_reserved'' step_id
            (JObj [(''field'', JStr key)]))) (\<lambda>_.
        Inr (Some (JObj [(''surface_id'', JStr surface), (''tool_name'', JStr tool),
          (''arguments'', arguments), (''idempotency_key_argument'', JStr key)])))))))))))) "

section \<open>References\<close>

definition safe_part :: "string \<Rightarrow> bool" where
  "safe_part part \<longleftrightarrow> \<not> unsafe_segment part \<and> list_all safe_char part"

definition valid_reference :: "string \<Rightarrow> bool" where
  "valid_reference reference \<longleftrightarrow>
     (let parts = split_on CHR ''.'' reference; safe = list_all safe_part parts in
      reference = ''input'' \<or> reference = ''input_ref'' \<or>
      safe \<and> parts \<noteq> [] \<and> hd parts \<in> {''input'', ''input_ref''} \<or>
      safe \<and> 3 \<le> length parts \<and> parts ! 0 = ''steps'' \<and>
        parts ! 2 \<in> {''status'', ''result'', ''result_ref''})"

definition validate_reference :: "string \<Rightarrow> json + unit" where
  "validate_reference reference =
     refuse_if (\<not> valid_reference reference)
       (diagnostic ''sop_reference_invalid'' ''sop_reference_invalid''
         (JObj [(''ref'', JStr reference)]))"

definition add_step_reference :: "string \<Rightarrow> string list \<Rightarrow> string list" where
  "add_step_reference reference found =
     (let parts = split_on CHR ''.'' reference in
      if parts \<noteq> [] \<and> hd parts = ''steps'' \<and> 2 \<le> length parts then List.insert (parts ! 1) found
      else found)"

definition collect_reference :: "string \<Rightarrow> string list \<Rightarrow> json + string list" where
  "collect_reference reference found =
     bindR (validate_reference reference) (\<lambda>_. Inr (add_step_reference reference found))"

definition collect_entry :: "jmap \<Rightarrow> string \<Rightarrow> string list \<Rightarrow> json + string list" where
  "collect_entry m k found =
     (case Option.bind (obj_get m k) as_str of
        None \<Rightarrow> Inr found
      | Some reference \<Rightarrow> collect_reference reference found)"

fun collect_step_references :: "json \<Rightarrow> string list \<Rightarrow> json + string list" where
  "collect_step_references (JArr xs) found = foldR collect_step_references xs found"
| "collect_step_references (JObj m) found =
     bindR (collect_entry m ''ref'' found) (\<lambda>found.
     bindR (if length m = 1 then collect_entry m ''$ref'' found else Inr found) (\<lambda>found.
     foldR (\<lambda>p. collect_step_references (snd p)) m found))"
| "collect_step_references v found = Inr found"

definition collect_optional :: "json option \<Rightarrow> string list \<Rightarrow> json + string list" where
  "collect_optional v found =
     (case v of None \<Rightarrow> Inr found | Some w \<Rightarrow> collect_step_references w found)"

function collect_instruction_references :: "string \<Rightarrow> string list \<Rightarrow> json + string list" where
  "collect_instruction_references remaining found =
     (case break_on ''{{'' remaining of
        None \<Rightarrow> Inr found
      | Some (_, after) \<Rightarrow>
      case break_on ''}}'' after of
        None \<Rightarrow> Inr found
      | Some (inside, rest) \<Rightarrow>
          bindR (collect_reference (trim inside) found) (collect_instruction_references rest))"
  by pat_completeness auto
termination
  by (relation "measure (\<lambda>(s, _). length s)") (auto dest!: break_on_Some)

declare collect_instruction_references.simps [simp del]

section \<open>Conditions\<close>

definition condition_operators :: "string list" where
  "condition_operators =
     [''equals'', ''not_equals'', ''exists'', ''not_exists'', ''truthy'', ''falsy'', ''in'', ''contains'']"

definition valueless_operators :: "string list" where
  "valueless_operators = [''exists'', ''not_exists'', ''truthy'', ''falsy'']"

definition normalize_test :: "sop_host \<Rightarrow> jmap \<Rightarrow> json + json" where
  "normalize_test h m =
     bindR (refuse_if (\<not> set (obj_keys m) \<subseteq> {''ref'', ''op'', ''value''})
       (condition_refusal ''unknown_fields'' [])) (\<lambda>_.
     bindR (required_string (obj_get m ''ref'') ''sop_condition_invalid'' 512) (\<lambda>reference.
     bindR (validate_reference reference) (\<lambda>_.
     bindR (required_string (obj_get m ''op'') ''sop_condition_invalid'' 32) (\<lambda>operation.
     bindR (refuse_if (operation \<notin> set condition_operators)
       (condition_refusal ''unsupported_operator'' [(''op'', JStr operation)])) (\<lambda>_.
     bindR (refuse_if (operation \<notin> set valueless_operators \<and> \<not> obj_has m ''value'')
       (condition_refusal ''operator_requires_value'' [(''op'', JStr operation)])) (\<lambda>_.
     bindR (refuse_if (operation = ''in'' \<and> array_entry m ''value'' = None)
       (condition_refusal ''in_value_must_be_array'' [])) (\<lambda>_.
     let base = [(''ref'', JStr reference), (''op'', JStr operation)] in
     case obj_get m ''value'' of
       None \<Rightarrow> Inr (JObj base)
     | Some v \<Rightarrow>
         bindR (assert_bound (sop_json h) v ''sop_condition_value'' max_inline_value_bytes)
           (\<lambda>_. Inr (JObj (base @ [(''value'', v)])))))))))) "

definition condition_group :: "jmap \<Rightarrow> string option" where
  "condition_group m = (if length m = 1 then find (obj_has m) [''all'', ''any''] else None)"

definition group_entries :: "jmap \<Rightarrow> string \<Rightarrow> json + json list" where
  "group_entries m k =
     (case array_entry m k of
        Some (x # xs) \<Rightarrow> Inr (x # xs)
      | _ \<Rightarrow> Inl (condition_refusal (k @ ''_requires_nonempty_array'') []))"

lemma group_entries_size: "group_entries m k = Inr xs \<Longrightarrow> x \<in> set xs \<Longrightarrow> size x < size (JObj m)"
  by (auto simp: group_entries_def dest: array_entry_size split: option.splits list.splits)

function normalize_condition :: "sop_host \<Rightarrow> json \<Rightarrow> nat \<Rightarrow> nat \<Rightarrow> json + json option \<times> nat" where
  "normalize_condition h v depth nodes =
     (if is_null v then Inr (None, nodes)
      else if 12 < depth \<or> 64 < Suc nodes then
        Inl (diagnostic ''sop_condition_too_complex'' ''sop_condition_too_complex''
          (JObj [(''max_depth'', jnat 12), (''max_nodes'', jnat 64)]))
      else
        bindR (ok_or (as_object v) (condition_refusal ''condition_must_be_object'' [])) (\<lambda>m.
        case condition_group m of
          Some k \<Rightarrow>
            bindR (group_entries m k) (\<lambda>xs.
            bindR (mapRS (\<lambda>n x. bindR (normalize_condition h x (Suc depth) n)
                (\<lambda>(c, n). Inr (jopt c, n))) (Suc nodes) xs) (\<lambda>(cs, n).
            Inr (Some (JObj [(k, JArr cs)]), n)))
        | None \<Rightarrow>
        case (if length m = 1 then obj_get m ''not'' else None) of
          Some w \<Rightarrow>
            bindR (normalize_condition h w (Suc depth) (Suc nodes)) (\<lambda>(c, n).
            bindR (ok_or c (diagnostic ''sop_condition_invalid'' ''sop_condition_invalid'' (JObj [])))
              (\<lambda>c. Inr (Some (JObj [(''not'', c)]), n)))
        | None \<Rightarrow> bindR (normalize_test h m) (\<lambda>c. Inr (Some c, Suc nodes))))"
  by pat_completeness auto
termination
  by (relation "measure (\<lambda>(_, v, _, _). size v)")
    (auto dest: group_entries_size obj_value_size split: if_splits)

declare normalize_condition.simps [simp del]

definition optional_condition :: "sop_host \<Rightarrow> json option \<Rightarrow> json + json option" where
  "optional_condition h v =
     (case v of
        None \<Rightarrow> Inr None
      | Some w \<Rightarrow> bindR (normalize_condition h w 0 0) (\<lambda>(c, _). Inr c))"

end
