(* ===== verification/Sop_Graph.thy ===== *)
theory Sop_Graph
  imports Sop_Definition
begin

text \<open>
  The dependency graph of a procedure: \<^verbatim>\<open>validate_step_references\<close> of
  \<^verbatim>\<open>sop_authority/parts/10.rs\<close>, \<^verbatim>\<open>validate_dag\<close> and \<^verbatim>\<open>validate_steps\<close> of \<^verbatim>\<open>09.rs\<close>, and the
  weaker check the engine makes of stored steps (\<^verbatim>\<open>sop_engine/parts/07.rs\<close>). The map \<^verbatim>\<open>by_id\<close> is
  the association list of the identified steps, later ones first, so that a lookup finds the entry
  that \<^verbatim>\<open>collect\<close> would have left.
\<close>

type_synonym graph = "(string \<times> string list) list"

definition step_text :: "json \<Rightarrow> string \<Rightarrow> string option" where
  "step_text step k = Option.bind (jget step k) as_str"

definition depends_on :: "json \<Rightarrow> string list" where
  "depends_on step =
     (case Option.bind (jget step ''depends_on'') as_array of
        None \<Rightarrow> []
      | Some xs \<Rightarrow> List.map_filter as_str xs)"

definition dependency_graph :: "json list \<Rightarrow> graph" where
  "dependency_graph steps =
     rev (List.map_filter (\<lambda>step. map_option (\<lambda>i. (i, depends_on step)) (step_text step ''id'')) steps)"

definition successors :: "graph \<Rightarrow> string \<Rightarrow> string list" where
  "successors g i = (case map_of g i of None \<Rightarrow> [] | Some ds \<Rightarrow> ds)"

definition step_id_or_empty :: "json \<Rightarrow> string" where
  "step_id_or_empty step = (case step_text step ''id'' of None \<Rightarrow> [] | Some i \<Rightarrow> i)"

section \<open>Ancestors\<close>

definition graph_edges :: "graph \<Rightarrow> string set" where
  "graph_edges g = (\<Union>p \<in> set g. set (snd p))"

lemma finite_graph_edges [simp]: "finite (graph_edges g)"
  by (simp add: graph_edges_def)

lemma successors_edges: "set (successors g i) \<subseteq> graph_edges g"
proof (cases "map_of g i")
  case (Some ds)
  then have "(i, ds) \<in> set g" by (rule map_of_SomeD)
  with Some show ?thesis by (force simp: successors_def graph_edges_def)
qed (simp add: successors_def)

function ancestors :: "graph \<Rightarrow> string list \<Rightarrow> string list \<Rightarrow> string list" where
  "ancestors g [] found = found"
| "ancestors g (d # ds) found =
     (if d \<in> set found then ancestors g ds found
      else ancestors g ds (ancestors g (successors g d) (d # found)))"
  by pat_completeness auto

text \<open>The set of found names only grows, so every nested call has fewer names left to find.\<close>

lemma ancestors_grows:
  "ancestors_dom (g, ds, found) \<Longrightarrow> set found \<subseteq> set (ancestors g ds found)"
  by (induction g ds found rule: ancestors.pinduct) (auto simp: ancestors.psimps)

definition ancestors_left :: "graph \<times> string list \<times> string list \<Rightarrow> nat" where
  "ancestors_left = (\<lambda>(g, ds, found). card ((set ds \<union> graph_edges g) - set found))"

lemma ancestors_left_less:
  assumes "d \<notin> set found" "set ds' \<subseteq> set ds \<union> graph_edges g" "insert d (set found) \<subseteq> set found'"
  shows "ancestors_left (g, ds', found') < ancestors_left (g, d # ds, found)"
proof -
  have "(set ds' \<union> graph_edges g) - set found' \<subset> (set (d # ds) \<union> graph_edges g) - set found"
    using assms by auto
  then show ?thesis unfolding ancestors_left_def by (simp add: psubset_card_mono)
qed

termination ancestors
proof (relation "measures [ancestors_left, \<lambda>(_, ds, _). length ds]", goal_cases)
  case 1
  then show ?case by simp
next
  case (2 g d ds found)
  then have "(set ds \<union> graph_edges g) - set found \<subseteq> (set (d # ds) \<union> graph_edges g) - set found"
    by auto
  then have "ancestors_left (g, ds, found) \<le> ancestors_left (g, d # ds, found)"
    unfolding ancestors_left_def by (simp add: card_mono)
  then show ?case by auto
next
  case (3 g d ds found)
  then show ?case
    using ancestors_left_less [of d found "successors g d" ds g "d # found"] successors_edges [of g d]
    by auto
next
  case (4 g d ds found)
  then show ?case
    using ancestors_left_less [of d found ds ds g] ancestors_grows [OF 4(2)] by auto
qed

section \<open>References of the steps\<close>

definition step_references :: "json \<Rightarrow> json + string list" where
  "step_references step =
     bindR (foldR (\<lambda>field. collect_optional (jget step field)) [''when'', ''input'', ''input_ref''] [])
       (\<lambda>found.
     bindR (collect_optional (Option.bind (jget step ''action'') (\<lambda>a. jget a ''arguments'')) found)
       (\<lambda>found.
     collect_instruction_references
       (case step_text step ''instructions'' of None \<Rightarrow> [] | Some s \<Rightarrow> s) found))"

definition check_reference :: "graph \<Rightarrow> string \<Rightarrow> string list \<Rightarrow> string \<Rightarrow> json + unit" where
  "check_reference g i allowed target =
     bindR (refuse_if (map_of g target = None)
       (diagnostic ''sop_step_reference_unknown'' ''sop_step_reference_unknown''
         (JObj [(''step_id'', JStr i), (''referenced_step_id'', JStr target)]))) (\<lambda>_.
     refuse_if (target \<notin> set allowed)
       (diagnostic ''sop_step_reference_not_dependency'' ''sop_step_reference_not_dependency''
         (JObj [(''step_id'', JStr i), (''referenced_step_id'', JStr target)])))"

definition validate_step_references :: "sop_host \<Rightarrow> json list \<Rightarrow> json + unit" where
  "validate_step_references h steps =
     (let g = dependency_graph steps in
      eachR (\<lambda>step.
        let i = step_id_or_empty step; allowed = ancestors g (successors g i) [] in
        bindR (step_references step) (\<lambda>referenced.
        eachR (check_reference g i allowed) (hash_order h referenced))) steps)"

definition validate_output_references :: "sop_host \<Rightarrow> json option \<Rightarrow> json \<Rightarrow> json + unit" where
  "validate_output_references h mapping steps =
     (case mapping of
        None \<Rightarrow> Inr ()
      | Some m \<Rightarrow>
          (let ids = List.map_filter (\<lambda>step. step_text step ''id'')
                (case as_array steps of None \<Rightarrow> [] | Some xs \<Rightarrow> xs) in
           bindR (collect_step_references m []) (\<lambda>referenced.
           eachR (\<lambda>target. refuse_if (target \<notin> set ids)
             (diagnostic ''sop_output_reference_unknown''
               (''sop_output_reference_unknown:'' @ target) (JObj []))) (hash_order h referenced))))"

section \<open>Cycles\<close>

text \<open>\<^verbatim>\<open>visit\<close>: the path of the nodes being visited, and the nodes that are done. A cycle is
  reported as the part of the path from the repeated node on.\<close>

definition unvisited :: "graph \<Rightarrow> string list \<Rightarrow> nat" where
  "unvisited g path = card (fst ` set g - set path)"

lemma unvisited_less:
  assumes "i \<notin> set path" "map_of g i \<noteq> None"
  shows "unvisited g (path @ [i]) < unvisited g path"
proof -
  have "fst ` set g - set (path @ [i]) \<subset> fst ` set g - set path"
    using assms by (auto simp: map_of_eq_None_iff)
  then show ?thesis unfolding unvisited_def by (simp add: psubset_card_mono)
qed

function visit :: "graph \<Rightarrow> string \<Rightarrow> string list \<Rightarrow> string list \<Rightarrow> string list + string list"
  and visit_all :: "graph \<Rightarrow> string list \<Rightarrow> string list \<Rightarrow> string list \<Rightarrow> string list + string list"
where
  "visit g i path visited =
     (if i \<in> set visited then Inr visited
      else if i \<in> set path then Inl (dropWhile (\<lambda>x. x \<noteq> i) path @ [i])
      else bindR (visit_all g (successors g i) (path @ [i]) visited) (\<lambda>visited. Inr (i # visited)))"
| "visit_all g [] path visited = Inr visited"
| "visit_all g (i # is) path visited =
     bindR (visit g i path visited) (visit_all g is path)"
  by pat_completeness auto
termination
proof (relation "measures
    [case_sum (\<lambda>(g, _, path, _). unvisited g path) (\<lambda>(g, _, path, _). unvisited g path),
     case_sum (\<lambda>_. 1) (\<lambda>(_, is, _, _). 2 * length is)]", goal_cases)
  case 1
  then show ?case by simp
next
  case (2 g i path visited)
  have "unvisited g (path @ [i]) \<le> unvisited g path"
    unfolding unvisited_def by (intro card_mono) auto
  moreover have "map_of g i = None \<Longrightarrow> successors g i = []"
    by (simp add: successors_def)
  ultimately show ?case
    using 2 unvisited_less [of i path g] by (cases "map_of g i") auto
qed auto

declare visit.simps [simp del]

definition cycle_refusal :: "string list \<Rightarrow> json" where
  "cycle_refusal cycle =
     diagnostic ''sop_dependency_cycle'' ''sop_dependency_cycle''
       (JObj [(''cycle'', JArr (map JStr cycle))])"

definition check_dependency :: "graph \<Rightarrow> string \<Rightarrow> string \<Rightarrow> json + unit" where
  "check_dependency g i d =
     bindR (refuse_if (map_of g d = None)
       (diagnostic ''sop_unknown_dependency'' ''sop_unknown_dependency''
         (JObj [(''step_id'', JStr i), (''dependency'', JStr d)]))) (\<lambda>_.
     refuse_if (d = i) (cycle_refusal [i, i]))"

definition validate_dag :: "sop_host \<Rightarrow> json list \<Rightarrow> json + unit" where
  "validate_dag h steps =
     (let g = dependency_graph steps in
      bindR (eachR (\<lambda>step. eachR (check_dependency g (step_id_or_empty step)) (depends_on step)) steps) (\<lambda>_.
      case visit_all g (hash_order h (remdups (map fst g))) [] [] of
        Inl cycle \<Rightarrow> Inl (cycle_refusal cycle)
      | Inr _ \<Rightarrow> Inr ()))"

section \<open>Steps\<close>

definition max_steps :: nat where
  "max_steps = 128"

definition step_count_refusal :: "nat \<Rightarrow> json" where
  "step_count_refusal n =
     diagnostic ''sop_step_count_invalid'' ''sop_step_count_invalid''
       (JObj [(''count'', jnat n), (''min'', jnat 1), (''max'', jnat max_steps)])"

definition step_refusal :: "string \<Rightarrow> string \<Rightarrow> (string \<times> json) list \<Rightarrow> json" where
  "step_refusal code i details = diagnostic code (code @ '':'' @ i) (JObj details)"

definition executors :: "string list" where
  "executors = [''engine'', ''agent'', ''operator'', ''sop'', ''action'']"

text \<open>The identifier, the executor and whether it blocks.\<close>

definition step_head :: "jmap \<Rightarrow> string list \<Rightarrow> json + string \<times> string \<times> bool" where
  "step_head step ids =
     bindR (required_string (obj_get step ''id'') ''sop_step_requires_id'' 128) (\<lambda>i.
     bindR (refuse_if (\<not> valid_step_id i) (step_refusal ''sop_step_id_invalid'' i [])) (\<lambda>_.
     bindR (refuse_if (i \<in> set ids) (step_refusal ''sop_duplicate_step_id'' i [])) (\<lambda>_.
     bindR (required_string (obj_get step ''executor'') ''sop_step_requires_executor'' 32) (\<lambda>executor.
     bindR (refuse_if (executor \<notin> set executors)
       (step_refusal ''sop_invalid_executor'' executor
         [(''step_id'', JStr i), (''allowed'', JArr (map JStr executors))])) (\<lambda>_.
     bindR (eachR (\<lambda>legacy. refuse_if (obj_has step legacy)
         (step_refusal ''sop_effect_must_be_governed_action'' i
           [(''step_id'', JStr i), (''legacy_field'', JStr legacy),
            (''remediation'', JStr ''Use executor=action with an owning MCP surface/tool and idempotency_key_argument.'')]))
       [''command'', ''args'', ''timeout_ms'', ''cwd'']) (\<lambda>_.
     let blocking = executor \<in> {''agent'', ''operator''} in
     bindR (refuse_if
         (case obj_get step ''blocking'' of
            None \<Rightarrow> False | Some declared \<Rightarrow> as_bool declared \<noteq> Some blocking)
         (step_refusal ''sop_blocking_semantics_fixed'' i
           [(''executor'', JStr executor), (''required_blocking'', JBool blocking)])) (\<lambda>_.
     Inr (i, executor, blocking))))))))"

definition child_version :: "jmap \<Rightarrow> int option" where
  "child_version step =
     (case obj_get step ''sop_version'' of
        None \<Rightarrow> None
      | Some v \<Rightarrow> if is_null v then None else as_i64 v)"

definition wait_policy :: "jmap \<Rightarrow> string \<Rightarrow> string option" where
  "wait_policy step executor =
     (case optional_string (obj_get step ''wait_policy'') of
        Some s \<Rightarrow> Some s
      | None \<Rightarrow> if executor = ''sop'' then Some ''wait'' else None)"

definition check_child :: "jmap \<Rightarrow> string option \<Rightarrow> string \<Rightarrow> string \<Rightarrow> json + unit" where
  "check_child step owner i executor =
     (let child = optional_string (obj_get step ''sop_id''); version = child_version step in
      if executor = ''sop'' then
        bindR (ok_or child
          (step_refusal ''sop_step_requires_child_sop_id'' i [(''step_id'', JStr i)])) (\<lambda>c.
        bindR (refuse_if (owner = Some c)
          (step_refusal ''sop_recursive_child_definition'' c [(''step_id'', JStr i)])) (\<lambda>_.
        bindR (refuse_if (wait_policy step executor \<noteq> Some ''wait'')
          (diagnostic ''sop_invalid_wait_policy'' ''sop_invalid_wait_policy''
            (JObj [(''step_id'', JStr i), (''allowed'', JArr [JStr ''wait''])]))) (\<lambda>_.
        refuse_if
          (obj_has step ''sop_version'' \<and> (case version of None \<Rightarrow> True | Some v \<Rightarrow> v < 1))
          (diagnostic ''sop_invalid_child_sop_version'' ''sop_invalid_child_sop_version''
            (JObj [(''step_id'', JStr i)])))))
      else
        refuse_if (child \<noteq> None \<or> version \<noteq> None \<or> obj_has step ''wait_policy'')
          (step_refusal ''sop_child_fields_require_sop_executor'' i []))"

definition step_field :: "string \<Rightarrow> string \<Rightarrow> string" where
  "step_field i field = ''steps.'' @ i @ ''.'' @ field"

definition normalize_step ::
    "sop_host \<Rightarrow> string option \<Rightarrow> string list \<Rightarrow> nat \<times> json \<Rightarrow> json + json \<times> string list" where
  "normalize_step h owner ids p =
     bindR (ok_or (as_object (snd p))
       (diagnostic ''sop_array_entry_must_be_object'' ''sop_array_entry_must_be_object''
         (JObj [(''index'', jnat (fst p))]))) (\<lambda>step.
     bindR (step_head step ids) (\<lambda>(i, executor, blocking).
     bindR (check_child step owner i executor) (\<lambda>_.
     bindR (optional_condition h (obj_get step ''when'')) (\<lambda>condition.
     bindR (optional_value h (obj_get step ''input'') (step_field i ''input'')) (\<lambda>input.
     bindR (optional_value h (obj_get step ''input_ref'') (step_field i ''input_ref'')) (\<lambda>input_ref.
     bindR (optional_schema h (obj_get step ''result_schema'') (step_field i ''result_schema'')) (\<lambda>schema.
     bindR (normalize_action h (obj_get step ''action'') i) (\<lambda>action.
     bindR (refuse_if (executor = ''action'' \<and> action = None)
       (step_refusal ''sop_action_binding_required'' i [])) (\<lambda>_.
     bindR (refuse_if (executor \<noteq> ''action'' \<and> action \<noteq> None)
       (step_refusal ''sop_action_binding_requires_action_executor'' i [])) (\<lambda>_.
     bindR (required_string (obj_get step ''title'') ''sop_step_requires_title'' 512) (\<lambda>title.
     bindR (string_list (obj_get step ''depends_on'')) (\<lambda>needs.
     bindR (required_string (obj_get step ''instructions'') ''sop_step_requires_instructions'' 16384) (\<lambda>instructions.
     Inr (JObj
       [(''id'', JStr i), (''executor'', JStr executor), (''blocking'', JBool blocking),
        (''title'', JStr title), (''depends_on'', JArr needs), (''instructions'', JStr instructions),
        (''when'', jopt condition), (''input'', jopt input), (''input_ref'', jopt input_ref),
        (''result_schema'', jopt schema), (''action'', jopt action),
        (''sop_id'', jopt_str (optional_string (obj_get step ''sop_id''))),
        (''sop_version'', case child_version step of None \<Rightarrow> JNull | Some v \<Rightarrow> jint v),
        (''wait_policy'', jopt_str (wait_policy step executor)), (''legacy_command'', JNull)],
       i # ids))))))))))))))"

definition validate_steps :: "sop_host \<Rightarrow> json option \<Rightarrow> string option \<Rightarrow> json + json" where
  "validate_steps h v owner =
     bindR (ok_or (Option.bind v as_array)
       (diagnostic ''sop_requires_array'' ''sop_requires_array'' (JObj []))) (\<lambda>raw.
     bindR (refuse_if (raw = [] \<or> max_steps < length raw) (step_count_refusal (length raw))) (\<lambda>_.
     bindR (mapRS (normalize_step h owner) [] (enumerate 0 raw)) (\<lambda>(steps, _).
     bindR (validate_dag h steps) (\<lambda>_.
     bindR (validate_step_references h steps) (\<lambda>_.
     Inr (JArr steps))))))"

section \<open>The check of stored steps\<close>

definition stored_id :: "json \<Rightarrow> string" where
  "stored_id step =
     (case Option.bind
         (case jget step ''step_id'' of Some v \<Rightarrow> Some v | None \<Rightarrow> jget step ''id'') as_str of
        None \<Rightarrow> []
      | Some i \<Rightarrow> i)"

definition unique_id :: "json \<Rightarrow> string list \<Rightarrow> json + string list" where
  "unique_id step ids =
     (let i = stored_id step in
      bindR (refuse_if (i = [] \<or> i \<in> set ids)
        (diagnostic ''sop_duplicate_step_id'' ''sop_duplicate_step_id''
          (JObj [(''step_id'', JStr i)]))) (\<lambda>_. Inr (i # ids)))"

definition validate_step_graph :: "json list \<Rightarrow> json + unit" where
  "validate_step_graph steps =
     bindR (refuse_if (steps = [] \<or> 128 < length steps) (step_count_refusal (length steps))) (\<lambda>_.
     bindR (foldR unique_id steps []) (\<lambda>ids.
     eachR (\<lambda>step. eachR (\<lambda>d. refuse_if (d \<notin> set ids)
       (diagnostic ''sop_unknown_dependency'' ''sop_unknown_dependency''
         (JObj [(''step_id'', JStr (stored_id step)), (''dependency'', JStr d)]))) (depends_on step))
       steps))"

end
