(* ===== verification/Sop_Acyclic.thy ===== *)
theory Sop_Acyclic
  imports Sop_Graph
begin

text \<open>
  What the graph algorithms of the procedure validator compute: \<open>ancestors\<close> is the transitive
  closure of the dependencies, and the depth-first search refuses exactly the cyclic graphs, with a
  cycle as the proof. An accepted procedure can therefore not block itself.
\<close>

definition needs :: "graph \<Rightarrow> (string \<times> string) set" where
  "needs g = {(i, d). d \<in> set (successors g i)}"

lemma needs_iff [simp]: "(i, d) \<in> needs g \<longleftrightarrow> d \<in> set (successors g i)"
  by (simp add: needs_def)

section \<open>Ancestors\<close>

lemma ancestors_sound:
  "set (ancestors g ds found) \<subseteq> set found \<union> (needs g)\<^sup>* `` set ds"
proof (induction g ds found rule: ancestors.induct)
  case (1 g found)
  then show ?case by simp
next
  case (2 g d ds found)
  have sub: "(needs g)\<^sup>* `` set (successors g d) \<subseteq> (needs g)\<^sup>* `` {d}"
    by (auto intro: converse_rtrancl_into_rtrancl)
  show ?case
  proof (cases "d \<in> set found")
    case True
    with 2(1) show ?thesis by auto
  next
    case False
    let ?E = "(needs g)\<^sup>*" and ?inner = "ancestors g (successors g d) (d # found)"
    have "set ?inner \<subseteq> set found \<union> ?E `` {d}"
      using 2(2) [OF False] sub by auto
    with 2(3) [OF False] have "set (ancestors g ds ?inner) \<subseteq> set found \<union> ?E `` {d} \<union> ?E `` set ds"
      by (rule order_trans [OF _ Un_mono [OF _ order_refl]])
    moreover have "?E `` set (d # ds) = ?E `` {d} \<union> ?E `` set ds" by auto
    ultimately show ?thesis using False by (simp add: Un_assoc)
  qed
qed

lemma ancestors_complete:
  "set found \<union> set ds \<subseteq> set (ancestors g ds found) \<and>
   (\<forall>x \<in> set (ancestors g ds found) - set found. set (successors g x) \<subseteq> set (ancestors g ds found))"
proof (induction g ds found rule: ancestors.induct)
  case (1 g found)
  then show ?case by simp
next
  case (2 g d ds found)
  show ?case
  proof (cases "d \<in> set found")
    case True
    with 2(1) show ?thesis by auto
  next
    case False
    let ?inner = "ancestors g (successors g d) (d # found)"
    let ?outer = "ancestors g ds ?inner"
    from 2(3) [OF False] have outer: "set ?inner \<subseteq> set ?outer" "set ds \<subseteq> set ?outer"
      "\<And>x. x \<in> set ?outer \<Longrightarrow> x \<notin> set ?inner \<Longrightarrow> set (successors g x) \<subseteq> set ?outer" by blast+
    from 2(2) [OF False] have inner: "set (d # found) \<subseteq> set ?inner" "set (successors g d) \<subseteq> set ?inner"
      "\<And>x. x \<in> set ?inner \<Longrightarrow> x \<notin> set (d # found) \<Longrightarrow> set (successors g x) \<subseteq> set ?inner" by blast+
    have "set (successors g x) \<subseteq> set ?outer" if "x \<in> set ?outer" "x \<notin> set found" for x
    proof (cases "x \<in> set ?inner")
      case True
      with inner(2) inner(3) [of x] that(2) have "set (successors g x) \<subseteq> set ?inner" by (cases "x = d") auto
      then show ?thesis using outer(1) by (rule order_trans)
    qed (rule outer(3) [OF that(1)])
    moreover have "set found \<union> set (d # ds) \<subseteq> set ?outer"
      using inner(1) outer(1,2) by auto
    ultimately show ?thesis using False by simp
  qed
qed

lemma ancestors_trancl: "set (ancestors g (successors g i) []) = (needs g)\<^sup>+ `` {i}"
proof
  have "(needs g)\<^sup>* `` set (successors g i) \<subseteq> (needs g)\<^sup>+ `` {i}"
    by (auto intro: rtrancl_into_trancl2)
  then show "set (ancestors g (successors g i) []) \<subseteq> (needs g)\<^sup>+ `` {i}"
    using ancestors_sound [of g "successors g i" "[]"] by auto
next
  let ?A = "set (ancestors g (successors g i) [])"
  have "(i, x) \<in> (needs g)\<^sup>+ \<Longrightarrow> x \<in> ?A" for x
  proof (induction rule: trancl_induct)
    case (base y)
    then show ?case using ancestors_complete [of "[]" "successors g i" g] by auto
  next
    case (step y z)
    then show ?case using ancestors_complete [of "[]" "successors g i" g] by auto
  qed
  then show "(needs g)\<^sup>+ `` {i} \<subseteq> ?A" by auto
qed

section \<open>Depth-first search\<close>

text \<open>The finished nodes are in topological order: each is preceded, in the list, only by nodes
  that may need it.\<close>

fun topological :: "graph \<Rightarrow> string list \<Rightarrow> bool" where
  "topological g [] \<longleftrightarrow> True"
| "topological g (x # xs) \<longleftrightarrow> set (successors g x) \<subseteq> set xs \<and> x \<notin> set xs \<and> topological g xs"

lemma topological_closed:
  "(x, y) \<in> (needs g)\<^sup>+ \<Longrightarrow> topological g xs \<Longrightarrow> x \<in> set xs \<Longrightarrow> y \<in> set xs"
proof (induction rule: trancl_induct)
  case (base y)
  from base(2,3,1) show ?case by (induction xs) auto
next
  case (step y z)
  then have "y \<in> set xs" by simp
  from step.prems(1) this step.hyps(2) show ?case by (induction xs) auto
qed

lemma topological_irreflexive: "topological g xs \<Longrightarrow> x \<in> set xs \<Longrightarrow> (x, x) \<notin> (needs g)\<^sup>+"
proof (induction xs)
  case Nil
  then show ?case by simp
next
  case (Cons y ys)
  show ?case
  proof (cases "x = y")
    case True
    have "z \<in> set ys" if "(y, z) \<in> (needs g)\<^sup>+" for z
      using that
    proof (cases rule: converse_tranclE [consumes 1, case_names base step])
      case base
      with Cons.prems(1) show ?thesis by auto
    next
      case (step w)
      with Cons.prems(1) have "w \<in> set ys" "topological g ys" by auto
      with topological_closed [OF step(2)] show ?thesis by simp
    qed
    with True Cons.prems(1) show ?thesis by auto
  next
    case False
    with Cons show ?thesis by simp
  qed
qed

lemma visit_topological:
  "visit g i path vs = Inr ws \<Longrightarrow> topological g vs \<Longrightarrow>
     topological g ws \<and> i \<in> set ws \<and> set vs \<subseteq> set ws \<and> set ws \<inter> set path \<subseteq> set vs"
  "visit_all g is path vs = Inr ws \<Longrightarrow> topological g vs \<Longrightarrow>
     topological g ws \<and> set is \<subseteq> set ws \<and> set vs \<subseteq> set ws \<and> set ws \<inter> set path \<subseteq> set vs"
proof (induction g i path vs and g "is" path vs arbitrary: ws and ws rule: visit_visit_all.induct)
  case (1 g i path vs)
  show ?case
  proof (cases "i \<in> set vs")
    case True
    with "1.prems" show ?thesis by (auto simp: visit.simps)
  next
    case False
    with "1.prems" have path: "i \<notin> set path" by (auto simp: visit.simps)
    with False "1.prems" obtain us where us: "visit_all g (successors g i) (path @ [i]) vs = Inr us"
      "ws = i # us" by (auto simp: visit.simps bindR_Inr_iff)
    from "1.IH" [OF False path us(1) "1.prems"(2)] us(2) False path show ?thesis by auto
  qed
next
  case (2 g path vs)
  then show ?case by simp
next
  case (3 g i "is" path vs)
  then obtain us where us: "visit g i path vs = Inr us" "visit_all g is path us = Inr ws"
    by (auto simp: bindR_Inr_iff)
  note head = "3.IH"(1) [OF us(1) "3.prems"(2)]
  note tail = "3.IH"(2) [OF us conjunct1 [OF head]]
  from head tail show ?case by auto
qed

text \<open>The path is a chain of dependencies that ends in the node being visited.\<close>

definition chain :: "graph \<Rightarrow> string list \<Rightarrow> bool" where
  "chain g path \<longleftrightarrow> successively (\<lambda>i d. d \<in> set (successors g i)) path"

definition is_cycle :: "graph \<Rightarrow> string list \<Rightarrow> bool" where
  "is_cycle g path \<longleftrightarrow> 2 \<le> length path \<and> hd path = last path \<and> chain g path"

lemma chain_snoc: "chain g (path @ [i]) \<Longrightarrow> d \<in> set (successors g i) \<Longrightarrow> chain g (path @ [i, d])"
  by (simp add: chain_def successively_append_iff)

lemma visit_cycle:
  "visit g i path vs = Inl c \<Longrightarrow> chain g (path @ [i]) \<Longrightarrow> is_cycle g c"
  "visit_all g is path vs = Inl c \<Longrightarrow> \<forall>i \<in> set is. chain g (path @ [i]) \<Longrightarrow> is_cycle g c"
proof (induction g i path vs and g "is" path vs arbitrary: c and c rule: visit_visit_all.induct)
  case (1 g i path vs)
  then have visited: "i \<notin> set vs" by (auto simp: visit.simps)
  show ?case
  proof (cases "i \<in> set path")
    case True
    with visited "1.prems" have c: "c = dropWhile (\<lambda>x. x \<noteq> i) path @ [i]"
      by (simp add: visit.simps)
    obtain pre post where path: "path = pre @ i # post" "i \<notin> set pre"
      using split_list_first [OF True] by blast
    have "dropWhile (\<lambda>x. x \<noteq> i) path = i # post"
      using path(2) unfolding path(1) by (induction pre) auto
    with c path "1.prems"(2) show ?thesis
      by (auto simp: is_cycle_def chain_def successively_append_iff)
  next
    case False
    with visited "1.prems" have "visit_all g (successors g i) (path @ [i]) vs = Inl c"
      by (auto simp: visit.simps bindR_Inl_iff)
    from "1.IH" [OF visited False this] "1.prems"(2) show ?thesis
      using chain_snoc [of g path i] by auto
  qed
next
  case (2 g path vs)
  then show ?case by simp
next
  case (3 g i "is" path vs)
  then show ?case by (auto simp: bindR_Inl_iff)
qed

lemma chain_trancl: "chain g (x # path) \<Longrightarrow> path \<noteq> [] \<Longrightarrow> (x, last path) \<in> (needs g)\<^sup>+"
proof (induction path arbitrary: x)
  case Nil
  then show ?case by simp
next
  case (Cons y path)
  then show ?case
    by (cases "path = []") (auto simp: chain_def successively_Cons intro: trancl_into_trancl2)
qed

lemma is_cycle_trancl: "is_cycle g c \<Longrightarrow> (hd c, hd c) \<in> (needs g)\<^sup>+"
proof -
  assume cycle: "is_cycle g c"
  then obtain x y path where c: "c = x # y # path"
    by (auto simp: is_cycle_def numeral_2_eq_2 Suc_le_length_iff)
  have "(x, last (y # path)) \<in> (needs g)\<^sup>+"
    using cycle c by (intro chain_trancl) (auto simp: is_cycle_def)
  moreover have "last (y # path) = x" using cycle unfolding c is_cycle_def by simp
  ultimately show ?thesis unfolding c by simp
qed

lemma acyclic_visit_all:
  assumes "set keys = fst ` set g"
  shows "(\<exists>ws. visit_all g keys [] [] = Inr ws) \<longleftrightarrow> acyclic (needs g)"
proof
  assume "\<exists>ws. visit_all g keys [] [] = Inr ws"
  then obtain ws where "visit_all g keys [] [] = Inr ws" by blast
  from visit_topological(2) [OF this] have ws: "topological g ws" "set keys \<subseteq> set ws" by auto
  have "(x, x) \<notin> (needs g)\<^sup>+" for x
  proof
    assume cycle: "(x, x) \<in> (needs g)\<^sup>+"
    then obtain y where "y \<in> set (successors g x)" by (auto elim: converse_tranclE)
    then have "x \<in> fst ` set g"
      by (cases "map_of g x") (auto simp: successors_def dest: map_of_SomeD intro: rev_image_eqI)
    with assms ws topological_irreflexive [OF ws(1)] cycle show False by auto
  qed
  then show "acyclic (needs g)" by (simp add: acyclic_def)
next
  assume acyclic: "acyclic (needs g)"
  show "\<exists>ws. visit_all g keys [] [] = Inr ws"
  proof (cases "visit_all g keys [] []")
    case (Inl c)
    have "chain g [i]" for i by (simp add: chain_def)
    with visit_cycle(2) [OF Inl] have "is_cycle g c" by simp
    with acyclic is_cycle_trancl show ?thesis by (auto simp: acyclic_def)
  qed blast
qed

end
