(* ===== verification/Sop_Contract.thy ===== *)
theory Sop_Contract
  imports Sop_Acyclic
begin

text \<open>
  What an accepted procedure definition promises: its steps are identified, their dependencies are
  known and acyclic, so that some step can always go on.
\<close>

definition identified :: "json list \<Rightarrow> bool" where
  "identified steps \<longleftrightarrow>
     distinct (map step_id_or_empty steps) \<and> (\<forall>step \<in> set steps. step_text step ''id'' \<noteq> None)"

definition requires :: "json list \<Rightarrow> (string \<times> string) set" where
  "requires steps = (\<Union>step \<in> set steps. {step_id_or_empty step} \<times> set (depends_on step))"

definition fair_order :: "sop_host \<Rightarrow> bool" where
  "fair_order h \<longleftrightarrow> (\<forall>xs. set (hash_order h xs) = set xs)"

lemma finite_requires [simp]: "finite (requires steps)"
  by (simp add: requires_def)

lemma requiresI: "step \<in> set steps \<Longrightarrow> d \<in> set (depends_on step) \<Longrightarrow> (step_id_or_empty step, d) \<in> requires steps"
  by (auto simp: requires_def)

section \<open>The graph of identified steps\<close>

lemma identified_graph:
  assumes "identified steps"
  shows "dependency_graph steps = rev (map (\<lambda>step. (step_id_or_empty step, depends_on step)) steps)"
proof -
  have "List.map_filter (\<lambda>step. map_option (\<lambda>i. (i, depends_on step)) (step_text step ''id'')) xs =
      map (\<lambda>step. (step_id_or_empty step, depends_on step)) xs"
    if "\<forall>step \<in> set xs. step_text step ''id'' \<noteq> None" for xs
    using that by (induction xs) (auto simp: List.map_filter_simps step_id_or_empty_def)
  with assms show ?thesis by (simp add: dependency_graph_def identified_def)
qed

lemma identified_keys:
  "identified steps \<Longrightarrow> fst ` set (dependency_graph steps) = step_id_or_empty ` set steps"
  by (force simp: identified_graph)

lemma identified_successors:
  assumes "identified steps" "step \<in> set steps"
  shows "map_of (dependency_graph steps) (step_id_or_empty step) = Some (depends_on step)"
proof -
  have "distinct (map fst (dependency_graph steps))"
    using assms(1) by (simp add: identified_graph identified_def rev_map [symmetric] comp_def)
  moreover have "(step_id_or_empty step, depends_on step) \<in> set (dependency_graph steps)"
    using assms by (simp add: identified_graph)
  ultimately show ?thesis by simp
qed

lemma identified_known:
  "identified steps \<Longrightarrow> map_of (dependency_graph steps) i = None \<longleftrightarrow> i \<notin> step_id_or_empty ` set steps"
  by (metis identified_keys map_of_eq_None_iff)

lemma identified_needs:
  assumes "identified steps"
  shows "needs (dependency_graph steps) = requires steps"
proof (rule set_eqI, clarify)
  fix i d
  show "(i, d) \<in> needs (dependency_graph steps) \<longleftrightarrow> (i, d) \<in> requires steps"
  proof (cases "i \<in> step_id_or_empty ` set steps")
    case True
    then obtain step where step: "step \<in> set steps" "i = step_id_or_empty step" by blast
    have "s = step" if "s \<in> set steps" "step_id_or_empty s = i" for s
      using assms that step by (auto simp: identified_def distinct_map inj_on_def)
    then show ?thesis
      using step identified_successors [OF assms step(1)]
      by (auto simp: requires_def successors_def)
  next
    case False
    then show ?thesis
      using identified_known [OF assms, of i] by (auto simp: requires_def successors_def)
  qed
qed

section \<open>Dependencies\<close>

lemma cycle_refusal_inject [simp]: "cycle_refusal c = cycle_refusal c' \<longleftrightarrow> c = c'"
  by (auto simp: cycle_refusal_def diagnostic_def inj_map_eq_map inj_def)

lemma check_dependency_cycle:
  "check_dependency g i d = Inl (cycle_refusal c) \<longleftrightarrow> map_of g d \<noteq> None \<and> d = i \<and> c = [i, i]"
  by (auto simp: check_dependency_def refuse_if_def cycle_refusal_def diagnostic_def)

lemma eachR_Inl: "eachR f xs = Inl e \<Longrightarrow> \<exists>x \<in> set xs. f x = Inl e"
  by (induction xs) (auto simp: eachR_def bindR_Inl_iff bindR_Inr_iff)

lemma validate_dag_Inr:
  assumes "fair_order h" "identified steps"
  shows "validate_dag h steps = Inr () \<longleftrightarrow>
    snd ` requires steps \<subseteq> step_id_or_empty ` set steps \<and> acyclic (requires steps)"
proof -
  let ?g = "dependency_graph steps"
  have "(\<exists>ws. visit_all ?g (hash_order h (remdups (map fst ?g))) [] [] = Inr ws) \<longleftrightarrow> acyclic (requires steps)"
    using assms acyclic_visit_all [of "hash_order h (remdups (map fst ?g))" ?g]
    by (simp add: fair_order_def identified_needs)
  moreover have "eachR (\<lambda>step. eachR (check_dependency ?g (step_id_or_empty step)) (depends_on step)) steps =
      Inr () \<longleftrightarrow> (\<forall>step \<in> set steps. \<forall>d \<in> set (depends_on step).
        d \<in> step_id_or_empty ` set steps \<and> d \<noteq> step_id_or_empty step)"
    using identified_known [OF assms(2)]
    by (simp add: eachR_Inr check_dependency_def bindR_Inr_iff)
  moreover have "\<dots> \<longleftrightarrow> snd ` requires steps \<subseteq> step_id_or_empty ` set steps \<and>
      (\<forall>i. (i, i) \<notin> requires steps)"
    unfolding requires_def by (simp add: subset_iff image_iff Ball_def Bex_def) blast
  moreover have "acyclic r \<Longrightarrow> (i, i) \<notin> r" for i :: string and r
    by (auto simp: acyclic_def)
  ultimately show ?thesis
    by (auto simp: validate_dag_def Let_def bindR_Inr_iff split: sum.splits)
qed

text \<open>C11. The dependency check accepts exactly the procedures whose dependencies are known steps and
  have no cycle, whatever the order in which the hash map lists the steps; a cycle it reports is one.\<close>

theorem dag_check_decides:
  assumes "fair_order h" "identified steps"
  shows "(validate_dag h steps = Inr ()) =
      (snd ` requires steps \<subseteq> step_id_or_empty ` set steps \<and> acyclic (requires steps)) \<and>
    (\<forall>c. validate_dag h steps = Inl (cycle_refusal c) \<longrightarrow> is_cycle (dependency_graph steps) c)"
proof (intro conjI allI impI)
  fix c
  let ?g = "dependency_graph steps"
  assume "validate_dag h steps = Inl (cycle_refusal c)"
  then consider
    step d where "step \<in> set steps" "d \<in> set (depends_on step)"
      "check_dependency ?g (step_id_or_empty step) d = Inl (cycle_refusal c)"
  | "visit_all ?g (hash_order h (remdups (map fst ?g))) [] [] = Inl c"
    by (auto simp: validate_dag_def Let_def bindR_Inl_iff split: sum.splits dest!: eachR_Inl)
  then show "is_cycle ?g c"
  proof cases
    case (1 step d)
    then show ?thesis
      using identified_successors [OF assms(2) 1(1)]
      by (auto simp: check_dependency_cycle is_cycle_def chain_def successors_def)
  next
    case 2
    have "chain ?g [i]" for i by (simp add: chain_def)
    with visit_cycle(2) [OF 2] show ?thesis by simp
  qed
qed (rule validate_dag_Inr [OF assms])

section \<open>Accepted procedures\<close>

lemma step_head_Inr:
  "step_head step ids = Inr (i, executor, blocking) \<Longrightarrow>
     trimmed (Option.bind (obj_get step ''id'') as_str) = Some i \<and> i \<notin> set ids \<and> valid_step_id i \<and>
     executor \<in> set executors \<and> blocking = (executor \<in> {''agent'', ''operator''})"
  by (auto simp: step_head_def bindR_Inr_iff Let_def required_string_Inr)

lemma normalize_step_Inr:
  assumes "normalize_step h owner ids p = Inr (step, ids')"
  obtains raw i executor blocking condition input input_ref schema action title needs instructions version
  where "snd p = JObj raw" "step_head raw ids = Inr (i, executor, blocking)"
    "optional_condition h (obj_get raw ''when'') = Inr condition"
    "string_list (obj_get raw ''depends_on'') = Inr needs" "ids' = i # ids"
    "step = JObj
       [(''id'', JStr i), (''executor'', JStr executor), (''blocking'', JBool blocking),
        (''title'', JStr title), (''depends_on'', JArr needs), (''instructions'', JStr instructions),
        (''when'', jopt condition), (''input'', jopt input), (''input_ref'', jopt input_ref),
        (''result_schema'', jopt schema), (''action'', jopt action),
        (''sop_id'', jopt_str (optional_string (obj_get raw ''sop_id''))),
        (''sop_version'', version),
        (''wait_policy'', jopt_str (wait_policy raw executor)), (''legacy_command'', JNull)]"
  using assms
  by (clarsimp simp: normalize_step_def bindR_Inr_iff)

lemma validate_steps_Inr:
  assumes "validate_steps h v owner = Inr (JArr steps)"
  obtains raw ids where "v = Some (JArr raw)" "raw \<noteq> []" "length raw \<le> max_steps"
    "mapRS (normalize_step h owner) [] (enumerate 0 raw) = Inr (steps, ids)"
    "validate_dag h steps = Inr ()" "validate_step_references h steps = Inr ()"
  using assms
  by (auto simp: validate_steps_def bindR_Inr_iff not_less split: bind_splits)

lemma normalized_identified:
  "mapRS (normalize_step h owner) ids xs = Inr (steps, ids') \<Longrightarrow>
     identified steps \<and> step_id_or_empty ` set steps \<inter> set ids = {}"
proof (induction xs arbitrary: ids steps)
  case Nil
  then show ?case by (simp add: identified_def)
next
  case (Cons p xs)
  then obtain step mid rest where
    step: "normalize_step h owner ids p = Inr (step, mid)" and
    rest: "mapRS (normalize_step h owner) mid xs = Inr (rest, ids')" and steps: "steps = step # rest"
    by (auto simp: bindR_Inr_iff)
  from step obtain i where i: "mid = i # ids" "step_text step ''id'' = Some i" "i \<notin> set ids"
    by (rule normalize_step_Inr) (auto simp: step_text_def dest: step_head_Inr)
  with Cons.IH [OF rest] steps show ?case
    by (auto simp: identified_def step_id_or_empty_def)
qed

lemma accepted_identified: "validate_steps h v owner = Inr (JArr steps) \<Longrightarrow> identified steps"
  by (erule validate_steps_Inr) (blast dest: normalized_identified)

lemma accepted_dag:
  assumes "fair_order h" "validate_steps h v owner = Inr (JArr steps)"
  shows "snd ` requires steps \<subseteq> step_id_or_empty ` set steps" "acyclic (requires steps)"
  using assms(2) validate_dag_Inr [OF assms(1) accepted_identified [OF assms(2)]]
  by (auto elim: validate_steps_Inr)

text \<open>An accepted procedure cannot block itself: as long as some step is pending, some pending
  step depends on no pending one.\<close>

lemma accepted_never_blocks:
  assumes "fair_order h" "validate_steps h v owner = Inr (JArr steps)"
    and "step \<in> set steps" "pending (step_id_or_empty step)"
  shows "\<exists>s \<in> set steps. pending (step_id_or_empty s) \<and> (\<forall>d \<in> set (depends_on s). \<not> pending d)"
proof -
  note dag = accepted_dag [OF assms(1,2)]
  have "wf ((requires steps)\<inverse>)" using dag(2) by (simp add: finite_acyclic_wf_converse)
  moreover let ?Q = "{i. pending i \<and> i \<in> step_id_or_empty ` set steps}"
  have "step_id_or_empty step \<in> ?Q" using assms(3,4) by auto
  ultimately obtain i where i: "i \<in> ?Q" "\<And>d. (d, i) \<in> (requires steps)\<inverse> \<Longrightarrow> d \<notin> ?Q"
    by (rule wfE_min) blast
  then obtain s where s: "s \<in> set steps" "i = step_id_or_empty s" by blast
  have "\<not> pending d" if "d \<in> set (depends_on s)" for d
    using i(2) [of d] requiresI [OF s(1) that] dag(1) s(2) by force
  with i(1) s show ?thesis by auto
qed

end
