(* ===== verification/Sop_Conditions.thy ===== *)
theory Sop_Conditions
  imports Sop_Contract
begin

text \<open>
  The conditions of an accepted procedure cannot go wrong: each is the JSON form of an expression
  of a small language, and the evaluator computes what the expression means in every context.
\<close>

section \<open>Abstract conditions\<close>

datatype cond_op =
    Op_Equals | Op_Not_Equals | Op_Exists | Op_Not_Exists | Op_Truthy | Op_Falsy | Op_In | Op_Contains

datatype cond =
    Always
  | All_Of "cond list"
  | Any_Of "cond list"
  | Negated cond
  | Check string cond_op "json option"

fun op_text :: "cond_op \<Rightarrow> string" where
  "op_text Op_Equals = ''equals''"
| "op_text Op_Not_Equals = ''not_equals''"
| "op_text Op_Exists = ''exists''"
| "op_text Op_Not_Exists = ''not_exists''"
| "op_text Op_Truthy = ''truthy''"
| "op_text Op_Falsy = ''falsy''"
| "op_text Op_In = ''in''"
| "op_text Op_Contains = ''contains''"

fun cond_json :: "cond \<Rightarrow> json" where
  "cond_json Always = JNull"
| "cond_json (All_Of cs) = JObj [(''all'', JArr (map cond_json cs))]"
| "cond_json (Any_Of cs) = JObj [(''any'', JArr (map cond_json cs))]"
| "cond_json (Negated c) = JObj [(''not'', cond_json c)]"
| "cond_json (Check r p v) =
     JObj ([(''ref'', JStr r), (''op'', JStr (op_text p))] @
       (case v of None \<Rightarrow> [] | Some w \<Rightarrow> [(''value'', w)]))"

text \<open>What an operator says of the value a reference leads to, if any.\<close>

fun op_holds :: "cond_op \<Rightarrow> json option \<Rightarrow> json \<Rightarrow> bool" where
  "op_holds Op_Exists x v \<longleftrightarrow> x \<noteq> None"
| "op_holds Op_Not_Exists x v \<longleftrightarrow> x = None"
| "op_holds Op_Truthy x v \<longleftrightarrow> (\<exists>w. x = Some w \<and> js_truthy w)"
| "op_holds Op_Falsy x v \<longleftrightarrow> (\<exists>w. x = Some w \<and> \<not> js_truthy w)"
| "op_holds Op_Equals x v \<longleftrightarrow> (\<exists>w. x = Some w \<and> json_eq w v)"
| "op_holds Op_Not_Equals x v \<longleftrightarrow> \<not> (\<exists>w. x = Some w \<and> json_eq w v)"
| "op_holds Op_In x v \<longleftrightarrow> (\<exists>w ws. x = Some w \<and> v = JArr ws \<and> (\<exists>u \<in> set ws. json_eq u w))"
| "op_holds Op_Contains x v \<longleftrightarrow> (\<exists>ws. x = Some (JArr ws) \<and> (\<exists>u \<in> set ws. json_eq u v))"

fun holds :: "json \<Rightarrow> cond \<Rightarrow> bool" where
  "holds context Always \<longleftrightarrow> True"
| "holds context (All_Of cs) \<longleftrightarrow> (\<forall>c \<in> set cs. holds context c)"
| "holds context (Any_Of cs) \<longleftrightarrow> (\<exists>c \<in> set cs. holds context c)"
| "holds context (Negated c) \<longleftrightarrow> \<not> holds context c"
| "holds context (Check r p v) \<longleftrightarrow> op_holds p (read_reference r context) (jopt v)"

fun cond_nodes :: "cond \<Rightarrow> nat" where
  "cond_nodes Always = 0"
| "cond_nodes (All_Of cs) = Suc (sum_list (map cond_nodes cs))"
| "cond_nodes (Any_Of cs) = Suc (sum_list (map cond_nodes cs))"
| "cond_nodes (Negated c) = Suc (cond_nodes c)"
| "cond_nodes (Check r p v) = 1"

text \<open>The references and operators survive the trimming and the bounds of the evaluator.\<close>

fun wf_cond :: "cond \<Rightarrow> bool" where
  "wf_cond Always \<longleftrightarrow> True"
| "wf_cond (All_Of cs) \<longleftrightarrow> (\<forall>c \<in> set cs. wf_cond c)"
| "wf_cond (Any_Of cs) \<longleftrightarrow> (\<forall>c \<in> set cs. wf_cond c)"
| "wf_cond (Negated c) \<longleftrightarrow> wf_cond c"
| "wf_cond (Check r p v) \<longleftrightarrow> valid_reference r \<and> trimmed (Some r) = Some r \<and> char_count r \<le> 512"

section \<open>Evaluation\<close>

lemma allR_Inr: "(\<And>x. x \<in> set xs \<Longrightarrow> f x = Inr (P x)) \<Longrightarrow> allR f xs = Inr (\<forall>x \<in> set xs. P x)"
  by (induction xs) auto

lemma anyR_Inr: "(\<And>x. x \<in> set xs \<Longrightarrow> f x = Inr (P x)) \<Longrightarrow> anyR f xs = Inr (\<exists>x \<in> set xs. P x)"
  by (induction xs) auto

lemma op_text_trimmed: "trimmed (Some (op_text p)) = Some (op_text p)" "char_count (op_text p) \<le> 32"
  by (cases p; simp add: trimmed_def trim_def ws_ascii_def ws_two_def ws_three_def byte_def)
    (cases p; simp add: char_count_def continuation_def byte_def)

lemma apply_operator_holds: "apply_operator (op_text p) x v = Inr (op_holds p x v)"
  by (cases p)
    (auto simp: apply_operator_def Let_def list_ex_iff as_array_def split: option.splits json.splits)

lemma evaluate_cond_json:
  "wf_cond c \<Longrightarrow> evaluate_condition (cond_json c) context = Inr (holds context c)"
proof (induction c)
  case Always
  then show ?case by (simp add: evaluate_condition.simps)
next
  case (All_Of cs)
  then have "allR (\<lambda>x. evaluate_condition x context) (map cond_json cs) =
      Inr (\<forall>x \<in> set (map cond_json cs). evaluate_condition x context = Inr True)"
    by (intro allR_Inr) auto
  with All_Of show ?case
    by (subst evaluate_condition.simps) (simp add: array_entry_def)
next
  case (Any_Of cs)
  then have "anyR (\<lambda>x. evaluate_condition x context) (map cond_json cs) =
      Inr (\<exists>x \<in> set (map cond_json cs). evaluate_condition x context = Inr True)"
    by (intro anyR_Inr) auto
  with Any_Of show ?case
    by (subst evaluate_condition.simps) (simp add: array_entry_def)
next
  case (Negated c)
  then show ?case by (subst evaluate_condition.simps) (simp add: array_entry_def)
next
  case (Check r p v)
  then have "required_string (Some (JStr r)) ''sop_string_required'' 512 = Inr r"
    by (simp add: required_string_Inr)
  moreover have "required_string (Some (JStr (op_text p))) ''sop_string_required'' 32 = Inr (op_text p)"
    by (simp add: required_string_Inr op_text_trimmed)
  ultimately show ?case
    by (cases v) (simp_all add: evaluate_condition.simps array_entry_def evaluate_test_def apply_operator_holds)
qed

section \<open>Normalized conditions\<close>

definition represents :: "nat \<Rightarrow> cond \<Rightarrow> nat \<Rightarrow> json \<Rightarrow> bool" where
  "represents n c m v \<longleftrightarrow> wf_cond c \<and> v = cond_json c \<and> m = n + cond_nodes c \<and> m \<le> 64"

lemma normalize_test_represents:
  assumes "normalize_test h m = Inr v" "n < 64"
  shows "\<exists>r p w. represents n (Check r p w) (Suc n) v"
proof -
  obtain r operation where parts: "required_string (obj_get m ''ref'') ''sop_condition_invalid'' 512 = Inr r"
    "valid_reference r" "operation \<in> set condition_operators"
    "v = JObj ([(''ref'', JStr r), (''op'', JStr operation)] @
      (case obj_get m ''value'' of None \<Rightarrow> [] | Some w \<Rightarrow> [(''value'', w)]))"
    using assms(1)
    by (auto simp: normalize_test_def validate_reference_def bindR_Inr_iff Let_def split: option.splits)
  obtain p where "operation = op_text p"
    using parts(3) unfolding condition_operators_def by (auto intro: op_text.simps [symmetric])
  with parts assms(2) have "represents n (Check r p (obj_get m ''value'')) (Suc n) v"
    by (auto simp: represents_def required_string_Inr dest: trimmed_again)
  then show ?thesis by blast
qed

lemma mapRS_represents:
  assumes "\<And>x m v m'. x \<in> set xs \<Longrightarrow> m \<le> 64 \<Longrightarrow> f m x = Inr (v, m') \<Longrightarrow> \<exists>c. represents m c m' v"
    and "mapRS f n xs = Inr (vs, n')" "n \<le> 64"
  shows "\<exists>cs. (\<forall>c \<in> set cs. wf_cond c) \<and> vs = map cond_json cs \<and>
    n' = n + sum_list (map cond_nodes cs) \<and> n' \<le> 64"
  using assms
proof (induction xs arbitrary: n vs)
  case Nil
  then show ?case by auto
next
  case (Cons x xs)
  from Cons.prems(2) obtain v m ws where step: "f n x = Inr (v, m)" "mapRS f m xs = Inr (ws, n')" "vs = v # ws"
    by (auto simp: bindR_Inr_iff)
  from Cons.prems(1) [OF _ Cons.prems(3) step(1)] obtain c where c: "represents n c m v" by auto
  then have "m \<le> 64" by (simp add: represents_def)
  have "\<exists>cs. (\<forall>c \<in> set cs. wf_cond c) \<and> ws = map cond_json cs \<and>
      n' = m + sum_list (map cond_nodes cs) \<and> n' \<le> 64"
    by (rule Cons.IH [OF _ step(2) \<open>m \<le> 64\<close>]) (rule Cons.prems(1), simp_all)
  then obtain cs where
    "(\<forall>c \<in> set cs. wf_cond c) \<and> ws = map cond_json cs \<and> n' = m + sum_list (map cond_nodes cs) \<and> n' \<le> 64"
    by blast
  with c step(3) show ?case by (intro exI [of _ "c # cs"]) (auto simp: represents_def)
qed

lemma normalize_condition_represents:
  "normalize_condition h v depth n = Inr (r, n') \<Longrightarrow> n \<le> 64 \<Longrightarrow>
     \<exists>c. represents n c n' (jopt r) \<and> (r = None \<longleftrightarrow> c = Always)"
proof (induction h v depth n arbitrary: r n' rule: normalize_condition.induct)
  case (1 h v depth n)
  show ?case
  proof (cases v)
    case JNull
    with "1.prems" show ?thesis
      by (intro exI [of _ Always]) (auto simp: normalize_condition.simps represents_def jopt_def)
  next
    case (JObj m)
    note unfolded = "1.prems"(1) [unfolded JObj, unfolded normalize_condition.simps [of h "JObj m" depth n]]
    have nodes: "\<not> (12 < depth \<or> 64 < Suc n)" using unfolded by (auto split: if_splits)
    then have room: "Suc n \<le> 64" by simp
    show ?thesis
    proof (cases "condition_group m")
      case (Some k)
      with unfolded nodes obtain xs cs where group: "group_entries m k = Inr xs"
        "mapRS (\<lambda>n x. bindR (normalize_condition h x (Suc depth) n) (\<lambda>(c, n). Inr (jopt c, n))) (Suc n) xs
          = Inr (cs, n')" "r = Some (JObj [(k, JArr cs)])"
        by (auto simp: bindR_Inr_iff)
      have k: "k = ''all'' \<or> k = ''any''"
        using Some by (auto simp: condition_group_def split: if_splits)
      have "\<exists>ks. (\<forall>c \<in> set ks. wf_cond c) \<and> cs = map cond_json ks \<and>
          n' = Suc n + sum_list (map cond_nodes ks) \<and> n' \<le> 64"
      proof (rule mapRS_represents [OF _ group(2) room])
        fix x i w j
        assume x: "x \<in> set xs" "i \<le> 64"
          "bindR (normalize_condition h x (Suc depth) i) (\<lambda>(c, n). Inr (jopt c, n)) = Inr (w, j)"
        then obtain c where "normalize_condition h x (Suc depth) i = Inr (c, j)" "w = jopt c"
          by (auto simp: bindR_Inr_iff)
        with "1.IH"(2) [OF _ nodes _ Some group(1) x(1) this(1) x(2)] JObj
        show "\<exists>c. represents i c j w" by auto
      qed
      then obtain ks where "\<forall>c \<in> set ks. wf_cond c" "cs = map cond_json ks"
        "n' = Suc n + sum_list (map cond_nodes ks)" "n' \<le> 64" by blast
      with k group(3) show ?thesis
        by (intro exI [of _ "if k = ''all'' then All_Of ks else Any_Of ks"])
          (auto simp: represents_def jopt_def)
    next
      case None
      show ?thesis
      proof (cases "if length m = 1 then obj_get m ''not'' else None")
        case (Some w)
        with unfolded nodes None obtain c i where inner: "normalize_condition h w (Suc depth) (Suc n) = Inr (Some c, n')"
          "r = Some (JObj [(''not'', c)])"
          by (auto simp: bindR_Inr_iff)
        with "1.IH"(1) [OF _ nodes _ None Some inner(1) room] JObj obtain k where
          "represents (Suc n) k n' c" by (auto simp: jopt_def)
        with inner(2) show ?thesis
          by (intro exI [of _ "Negated k"]) (auto simp: represents_def jopt_def)
      next
        case missing: None
        with unfolded nodes None obtain w where "normalize_test h m = Inr w" "r = Some w" "n' = Suc n"
          by (auto simp: bindR_Inr_iff split: if_splits)
        with normalize_test_represents [of h m w n] room show ?thesis
          by (fastforce simp: jopt_def)
      qed
    qed
  qed (use "1.prems" in \<open>auto simp: normalize_condition.simps split: if_splits\<close>)
qed

text \<open>C12. The condition of every step of an accepted procedure evaluates without a refusal in every
  context, to what it says: conjunction, disjunction, negation and the eight operators.\<close>

theorem accepted_condition_evaluates:
  assumes "validate_steps h v owner = Inr (JArr steps)" "step \<in> set steps"
  shows "\<exists>c. jget step ''when'' = Some (cond_json c) \<and> wf_cond c \<and> cond_nodes c \<le> 64 \<and>
    (\<forall>context. evaluate_condition (cond_json c) context = Inr (holds context c))"
proof -
  from assms obtain raw ids where "mapRS (normalize_step h owner) [] (enumerate 0 raw) = Inr (steps, ids)"
    by (elim validate_steps_Inr)
  from mapRS_Inr_set [OF this assms(2)] obtain p xs ys where
    "normalize_step h owner xs p = Inr (step, ys)" by blast
  then obtain m w where step: "optional_condition h (obj_get m ''when'') = Inr w"
    "jget step ''when'' = Some (jopt w)"
    by (elim normalize_step_Inr) simp
  have "\<exists>c. wf_cond c \<and> jopt w = cond_json c \<and> cond_nodes c \<le> 64"
  proof (cases "obj_get m ''when''")
    case None
    with step(1) show ?thesis
      by (intro exI [of _ Always]) (simp add: optional_condition_def jopt_def)
  next
    case (Some x)
    with step(1) obtain i where "normalize_condition h x 0 0 = Inr (w, i)"
      by (auto simp: optional_condition_def bindR_Inr_iff)
    from normalize_condition_represents [OF this] show ?thesis by (auto simp: represents_def)
  qed
  with step(2) evaluate_cond_json show ?thesis by metis
qed

end
