(* ===== verification/Sop_References.thy ===== *)
theory Sop_References
  imports Sop_Contract
begin

text \<open>
  The references of an accepted procedure: what a step reads while it is started is the input of the
  run and the steps it depends on, directly or through others, and nothing else.
\<close>

section \<open>Contexts that agree\<close>

definition agree :: "json \<Rightarrow> json \<Rightarrow> string set \<Rightarrow> bool" where
  "agree c c' names \<longleftrightarrow>
     jget c ''input'' = jget c' ''input'' \<and> jget c ''input_ref'' = jget c' ''input_ref'' \<and>
     (\<forall>i \<in> names. context_step c i = context_step c' i)"

lemma agree_mono: "agree c c' names \<Longrightarrow> some \<subseteq> names \<Longrightarrow> agree c c' some"
  by (auto simp: agree_def)

lemma read_agree:
  assumes "agree c c' (set (add_step_reference r []))"
  shows "read_reference r c = read_reference r c'"
proof (cases "split_on CHR ''.'' r")
  case Nil
  then show ?thesis by (simp add: read_reference_def)
next
  case (Cons start rest)
  show ?thesis
  proof (cases "start = ''steps'' \<and> rest \<noteq> []")
    case True
    then have "context_step c (hd rest) = context_step c' (hd rest)"
      using assms Cons by (cases rest) (auto simp: agree_def add_step_reference_def Let_def)
    with assms Cons show ?thesis
      by (simp add: read_reference_def Let_def agree_def)
  next
    case False
    with assms Cons show ?thesis
      by (auto simp: read_reference_def Let_def agree_def)
  qed
qed

section \<open>Valid references\<close>

lemma split_on_chars: "c \<in> set s \<Longrightarrow> c = d \<or> (\<exists>w \<in> set (split_on d s). c \<in> set w)"
  by (induction s) (auto split: list.splits)

lemma safe_char_plain: "safe_char c \<Longrightarrow> plain c"
  by (auto simp: safe_char_def ascii_alphanumeric_def ascii_digit_def ascii_upper_def ascii_lower_def
      plain_def ws_ascii_def byte_def)

lemma safe_parts_plain: "list_all safe_part (split_on CHR ''.'' r) \<Longrightarrow> list_all plain r"
  using split_on_chars [of _ r "CHR ''.''"]
  by (fastforce simp: list_all_iff safe_part_def plain_def ws_ascii_def byte_def
      dest: safe_char_plain)

lemma input_plain: "list_all plain ''input''" "list_all plain ''input_ref''"
  by (simp_all add: plain_def ws_ascii_def byte_def)

lemma valid_reference_trim:
  assumes "valid_reference r"
  shows "trim r = r"
proof -
  from assms consider "r = ''input''" | "r = ''input_ref''" | "list_all safe_part (split_on CHR ''.'' r)"
    unfolding valid_reference_def Let_def by blast
  then have "list_all plain r"
    by cases (simp_all only: input_plain safe_parts_plain)
  then show ?thesis by (rule trim_plain)
qed

lemma valid_required:
  assumes "valid_reference r" "required_string (Some (JStr r)) code n = Inr s"
  shows "s = r"
  using assms by (auto simp: required_string_Inr trimmed_def valid_reference_trim split: if_splits)

section \<open>Collected references\<close>

definition collected :: "json \<Rightarrow> string set \<Rightarrow> bool" where
  "collected v names \<longleftrightarrow>
     (\<exists>found found'. collect_step_references v found = Inr found' \<and> set found' \<subseteq> names)"

lemma collect_reference_Inr:
  "collect_reference r found = Inr found' \<longleftrightarrow>
     valid_reference r \<and> found' = add_step_reference r found"
  by (auto simp: collect_reference_def validate_reference_def bindR_Inr_iff)

lemma add_step_reference_set:
  "set (add_step_reference r found) = set found \<union> set (add_step_reference r [])"
  by (auto simp: add_step_reference_def Let_def)

lemma collect_entry_grows: "collect_entry m k found = Inr found' \<Longrightarrow> set found \<subseteq> set found'"
  by (auto simp: collect_entry_def collect_reference_Inr add_step_reference_set [of _ found]
      split: option.splits)

lemma foldR_grows:
  assumes "\<And>x r r'. x \<in> set xs \<Longrightarrow> f x r = Inr r' \<Longrightarrow> set r \<subseteq> set r'"
  shows "foldR f xs s = Inr t \<Longrightarrow> set s \<subseteq> set t"
  using assms
proof (induction xs arbitrary: s)
  case Nil
  then show ?case by simp
next
  case (Cons x xs)
  then obtain r where r: "f x s = Inr r" "foldR f xs r = Inr t" by (auto simp: bindR_Inr_iff)
  have "set s \<subseteq> set r" using Cons.prems(2) [OF _ r(1)] by simp
  also have "\<dots> \<subseteq> set t" using Cons.IH [OF r(2)] Cons.prems(2) by (metis list.set_intros(2))
  finally show ?case .
qed

lemma collect_grows: "collect_step_references v found = Inr found' \<Longrightarrow> set found \<subseteq> set found'"
proof (induction v found arbitrary: found' rule: collect_step_references.induct)
  case (1 xs found)
  from 1(2) have "foldR collect_step_references xs found = Inr found'" by simp
  with 1(1) show ?case by (rule foldR_grows)
next
  case (2 m found)
  then obtain a b where ab: "collect_entry m ''ref'' found = Inr a"
    "(if length m = 1 then collect_entry m ''$ref'' a else Inr a) = Inr b"
    "foldR (\<lambda>p. collect_step_references (snd p)) m b = Inr found'"
    by (auto simp: bindR_Inr_iff)
  have "set found \<subseteq> set a" by (rule collect_entry_grows [OF ab(1)])
  also have "set a \<subseteq> set b" using ab(2) by (auto split: if_splits dest: collect_entry_grows)
  also have "set b \<subseteq> set found'"
  proof (rule foldR_grows [OF _ ab(3)])
    fix p r r'
    assume p: "p \<in> set m" "collect_step_references (snd p) r = Inr r'"
    show "set r \<subseteq> set r'" by (rule "2.IH" [OF ab(1,2) p])
  qed
  finally show ?case .
qed simp_all

lemma foldR_collected:
  assumes "foldR f xs s = Inr t" "x \<in> set xs"
    and "\<And>x r r'. x \<in> set xs \<Longrightarrow> f x r = Inr r' \<Longrightarrow> set r \<subseteq> set r'"
  shows "\<exists>r r'. f x r = Inr r' \<and> set r' \<subseteq> set t"
  using assms
proof (induction xs arbitrary: s)
  case Nil
  then show ?case by simp
next
  case (Cons y xs)
  then obtain r where r: "f y s = Inr r" "foldR f xs r = Inr t" by (auto simp: bindR_Inr_iff)
  have grows: "\<And>x r r'. x \<in> set xs \<Longrightarrow> f x r = Inr r' \<Longrightarrow> set r \<subseteq> set r'"
    by (rule Cons.prems(3)) simp_all
  show ?case
  proof (cases "x = y")
    case True
    moreover have "set r \<subseteq> set t" by (rule foldR_grows [OF grows r(2)])
    ultimately show ?thesis using r(1) by blast
  next
    case False
    with Cons.prems(2) Cons.IH [OF r(2) _ grows] show ?thesis by simp
  qed
qed

lemma collected_array: "collected (JArr xs) names \<Longrightarrow> x \<in> set xs \<Longrightarrow> collected x names"
  unfolding collected_def
  by (clarsimp simp del: foldR.simps)
    (drule (1) foldR_collected, erule collect_grows, blast)

lemma collected_entry:
  assumes "collected (JObj m) names" "obj_get m k = Some v"
  shows "collected v names"
proof -
  have "(k, v) \<in> set m" using assms(2) by (rule map_of_SomeD)
  moreover obtain b found' where "foldR (\<lambda>p. collect_step_references (snd p)) m b = Inr found'"
    "set found' \<subseteq> names"
    using assms(1) by (auto simp: collected_def bindR_Inr_iff)
  ultimately obtain r r' where "collect_step_references (snd (k, v)) r = Inr r'" "set r' \<subseteq> names"
    using foldR_collected [of "\<lambda>p. collect_step_references (snd p)" m b found' "(k, v)"] collect_grows
    by blast
  then show ?thesis by (auto simp: collected_def)
qed

lemma collected_object: "collected (JObj m) names \<Longrightarrow> p \<in> set m \<Longrightarrow> collected (snd p) names"
proof -
  assume assms: "collected (JObj m) names" "p \<in> set m"
  then obtain b found' where "foldR (\<lambda>p. collect_step_references (snd p)) m b = Inr found'"
    "set found' \<subseteq> names"
    by (auto simp: collected_def bindR_Inr_iff)
  with foldR_collected [of "\<lambda>p. collect_step_references (snd p)" m b found' p] collect_grows assms(2)
  show ?thesis unfolding collected_def by blast
qed

lemma collect_entry_reference:
  "collect_entry m k found = Inr found' \<Longrightarrow> obj_get m k = Some (JStr r) \<Longrightarrow>
     valid_reference r \<and> set (add_step_reference r []) \<subseteq> set found'"
  using add_step_reference_set [of r found] by (simp add: collect_entry_def collect_reference_Inr)

lemma collected_reference:
  assumes "collected (JObj m) names" "obj_get m k = Some (JStr r)"
    and "k = ''ref'' \<or> k = ''$ref'' \<and> length m = 1"
  shows "valid_reference r \<and> set (add_step_reference r []) \<subseteq> names"
proof -
  obtain found a b found' where ab: "collect_entry m ''ref'' found = Inr a"
    "(if length m = 1 then collect_entry m ''$ref'' a else Inr a) = Inr b"
    "foldR (\<lambda>p. collect_step_references (snd p)) m b = Inr found'" "set found' \<subseteq> names"
    using assms(1) by (auto simp: collected_def bindR_Inr_iff)
  have "set a \<subseteq> set b" using ab(2) by (auto split: if_splits dest: collect_entry_grows)
  moreover have "set b \<subseteq> set found'" by (rule foldR_grows [OF collect_grows ab(3)])
  moreover have "valid_reference r \<and> set (add_step_reference r []) \<subseteq> set a \<union> set b"
    using assms(3)
  proof
    assume "k = ''ref''"
    with collect_entry_reference [OF ab(1)] assms(2) show ?thesis by blast
  next
    assume "k = ''$ref'' \<and> length m = 1"
    with ab(2) collect_entry_reference [of m k a b r] assms(2) show ?thesis by auto
  qed
  ultimately show ?thesis using ab(4) by blast
qed

section \<open>What is read\<close>

lemma resolve_reference_agree:
  assumes "collected (JObj m) names" "length m = 1" "agree c c' names"
  shows "resolve_reference m c = resolve_reference m c'"
proof (cases "required_string (obj_get m ''$ref'') ''sop_string_required'' 512")
  case (Inr s)
  then obtain r where r: "obj_get m ''$ref'' = Some (JStr r)"
    by (auto simp: required_string_Inr trimmed_def split: option.splits bind_splits)
  note valid = collected_reference [OF assms(1) r] assms(2)
  then have "s = r" using Inr r valid_required by auto
  moreover from valid assms(3) have "read_reference r c = read_reference r c'"
    by (blast intro: read_agree agree_mono)
  ultimately show ?thesis using Inr by (simp add: resolve_reference_def)
qed (simp add: resolve_reference_def)

lemma mapR_agree: "(\<And>x. x \<in> set xs \<Longrightarrow> f x = g x) \<Longrightarrow> mapR f xs = mapR g xs"
  by (rule mapR_cong) simp_all

lemma resolve_agree:
  "collected v names \<Longrightarrow> agree c c' names \<Longrightarrow> resolve_mapping v c = resolve_mapping v c'"
proof (induction v c rule: resolve_mapping.induct)
  case (1 xs c)
  then have "mapR (\<lambda>x. resolve_mapping x c) xs = mapR (\<lambda>x. resolve_mapping x c') xs"
    by (intro mapR_agree) (blast dest: collected_array)
  then show ?case by simp
next
  case (2 m c)
  show ?case
  proof (cases "length m = 1 \<and> obj_has m ''$ref''")
    case True
    have "resolve_reference m c = resolve_reference m c'"
      using True 2(2,3) by (blast intro: resolve_reference_agree)
    moreover have "resolve_mapping (JObj m) x = resolve_reference m x" for x using True by simp
    ultimately show ?thesis by simp
  next
    case False
    then have "mapR (\<lambda>p. bindR (resolve_mapping (snd p) c) (\<lambda>w. Inr (fst p, w))) m =
        mapR (\<lambda>p. bindR (resolve_mapping (snd p) c') (\<lambda>w. Inr (fst p, w))) m"
      using 2 by (intro mapR_agree) (metis collected_object)
    then show ?thesis by (simp only: resolve_mapping.simps False if_False)
  qed
qed simp_all

lemma evaluate_test_agree:
  assumes "collected (JObj m) names" "agree c c' names"
  shows "evaluate_test m c = evaluate_test m c'"
proof (cases "required_string (obj_get m ''ref'') ''sop_string_required'' 512")
  case (Inr s)
  then obtain r where r: "obj_get m ''ref'' = Some (JStr r)"
    by (auto simp: required_string_Inr trimmed_def split: option.splits bind_splits)
  note valid = collected_reference [OF assms(1) r]
  then have "s = r" using Inr r valid_required by auto
  moreover from valid assms(2) have "read_reference r c = read_reference r c'"
    by (blast intro: read_agree agree_mono)
  ultimately show ?thesis using Inr by (simp add: evaluate_test_def)
qed (simp add: evaluate_test_def)

lemma evaluate_agree:
  "collected v names \<Longrightarrow> agree c c' names \<Longrightarrow> evaluate_condition v c = evaluate_condition v c'"
proof (induction v c rule: evaluate_condition.induct)
  case (1 v c)
  show ?case
  proof (cases v)
    case (JObj m)
    have entry: "collected x names" if "array_entry m k = Some xs" "x \<in> set xs" for k xs x
      using that collected_entry [of m names k "JArr xs"] "1.prems"(1) JObj
      by (auto simp: array_entry_def intro: collected_array split: bind_splits)
    have all: "allR (\<lambda>x. evaluate_condition x c) xs = allR (\<lambda>x. evaluate_condition x c') xs"
      if "array_entry m ''all'' = Some xs" for xs
      using "1.IH" that entry "1.prems"(2) JObj by (intro allR_cong) auto
    have any: "anyR (\<lambda>x. evaluate_condition x c) xs = anyR (\<lambda>x. evaluate_condition x c') xs"
      if "array_entry m ''all'' = None" "array_entry m ''any'' = Some xs" for xs
      using "1.IH" that entry "1.prems"(2) JObj by (intro anyR_cong) auto
    have negation: "evaluate_condition w c = evaluate_condition w c'"
      if "array_entry m ''all'' = None" "array_entry m ''any'' = None" "obj_get m ''not'' = Some w" for w
      using "1.IH" that collected_entry [of m names _ w] "1.prems" JObj by auto
    have test: "evaluate_test m c = evaluate_test m c'"
      using evaluate_test_agree "1.prems" JObj by blast
    show ?thesis
      unfolding JObj evaluate_condition.simps [of "JObj m"]
      by (simp add: all any negation test split: option.split)
  qed (simp_all add: evaluate_condition.simps as_object_def)
qed

lemma instructions_grow:
  "collect_instruction_references s found = Inr found' \<Longrightarrow> set found \<subseteq> set found'"
proof (induction s found arbitrary: found' rule: collect_instruction_references.induct)
  case (1 s found)
  show ?case
  proof (cases "break_on ''{{'' s")
    case None
    with "1.prems" show ?thesis by (simp add: collect_instruction_references.simps [of s])
  next
    case (Some p)
    then obtain before tail where opened: "break_on ''{{'' s = Some (before, tail)" by (cases p) auto
    show ?thesis
    proof (cases "break_on ''}}'' tail")
      case None
      with opened "1.prems" show ?thesis by (simp add: collect_instruction_references.simps [of s])
    next
      case (Some q)
      then obtain inside rest where closed: "break_on ''}}'' tail = Some (inside, rest)" by (cases q) auto
      with opened "1.prems" obtain mid where mid: "collect_reference (trim inside) found = Inr mid"
        "collect_instruction_references rest mid = Inr found'"
        by (auto simp: collect_instruction_references.simps [of s] bindR_Inr_iff)
      have "set mid \<subseteq> set found'" by (rule "1.IH" [OF opened refl closed refl mid])
      moreover have "set found \<subseteq> set mid"
        using mid(1) add_step_reference_set [of "trim inside" found] by (simp add: collect_reference_Inr)
      ultimately show ?thesis by simp
    qed
  qed
qed

lemma render_agree:
  "collect_instruction_references s found = Inr found' \<Longrightarrow> agree c c' (set found') \<Longrightarrow>
     render_instructions h s c = render_instructions h s c'"
proof (induction s found arbitrary: found' rule: collect_instruction_references.induct)
  case (1 s found)
  show ?case
  proof (cases "break_on ''{{'' s")
    case None
    then show ?thesis by (simp add: render_instructions.simps [of h s])
  next
    case (Some p)
    then obtain before tail where opened: "break_on ''{{'' s = Some (before, tail)" by (cases p) auto
    show ?thesis
    proof (cases "break_on ''}}'' tail")
      case None
      with opened show ?thesis by (simp add: render_instructions.simps [of h s])
    next
      case (Some q)
      then obtain inside rest where closed: "break_on ''}}'' tail = Some (inside, rest)" by (cases q) auto
      with opened "1.prems"(1) obtain mid where mid: "collect_reference (trim inside) found = Inr mid"
        "collect_instruction_references rest mid = Inr found'"
        by (subst (asm) collect_instruction_references.simps) (auto simp: bindR_Inr_iff)
      have "render_instructions h rest c = render_instructions h rest c'"
        by (rule "1.IH" [OF opened refl closed refl mid "1.prems"(2)])
      moreover have "set (add_step_reference (trim inside) []) \<subseteq> set found'"
        using instructions_grow [OF mid(2)] mid(1) add_step_reference_set [of "trim inside" found]
        by (auto simp: collect_reference_Inr)
      then have "read_reference (trim inside) c = read_reference (trim inside) c'"
        by (intro read_agree agree_mono [OF "1.prems"(2)])
      ultimately show ?thesis
        using opened closed by (simp add: render_instructions.simps [of h s])
    qed
  qed
qed

section \<open>Steps\<close>

lemma collect_optional_grows: "collect_optional v found = Inr found' \<Longrightarrow> set found \<subseteq> set found'"
  by (auto simp: collect_optional_def split: option.splits dest: collect_grows)

lemma collect_optional_collected:
  "collect_optional v found = Inr found' \<Longrightarrow> set found' \<subseteq> names \<Longrightarrow> collected (jopt v) names"
  by (auto simp: collect_optional_def collected_def jopt_def split: option.splits)

definition step_instructions :: "json \<Rightarrow> string" where
  "step_instructions step = (case step_text step ''instructions'' of None \<Rightarrow> [] | Some s \<Rightarrow> s)"

definition step_arguments :: "json \<Rightarrow> json" where
  "step_arguments step = jopt (Option.bind (jget step ''action'') (\<lambda>a. jget a ''arguments''))"

lemma step_references_agree:
  assumes "step_references step = Inr found" "agree c c' (set found)"
  shows "evaluate_condition (jidx step ''when'') c = evaluate_condition (jidx step ''when'') c'"
    and "resolve_mapping (jidx step ''input'') c = resolve_mapping (jidx step ''input'') c'"
    and "resolve_mapping (jidx step ''input_ref'') c = resolve_mapping (jidx step ''input_ref'') c'"
    and "resolve_mapping (step_arguments step) c = resolve_mapping (step_arguments step) c'"
    and "render_instructions h (step_instructions step) c = render_instructions h (step_instructions step) c'"
proof -
  obtain f1 f2 f3 f4 where f:
    "collect_optional (jget step ''when'') [] = Inr f1"
    "collect_optional (jget step ''input'') f1 = Inr f2"
    "collect_optional (jget step ''input_ref'') f2 = Inr f3"
    "collect_optional (Option.bind (jget step ''action'') (\<lambda>a. jget a ''arguments'')) f3 = Inr f4"
    "collect_instruction_references (step_instructions step) f4 = Inr found"
    using assms(1) by (auto simp: step_references_def step_instructions_def bindR_Inr_iff)
  have sub: "set f4 \<subseteq> set found" "set f3 \<subseteq> set found" "set f2 \<subseteq> set found" "set f1 \<subseteq> set found"
    using instructions_grow [OF f(5)] f(2-4)[THEN collect_optional_grows] by auto
  show "evaluate_condition (jidx step ''when'') c = evaluate_condition (jidx step ''when'') c'"
    unfolding jidx_def
    by (rule evaluate_agree [OF collect_optional_collected [OF f(1) sub(4)] assms(2)])
  show "resolve_mapping (jidx step ''input'') c = resolve_mapping (jidx step ''input'') c'"
    unfolding jidx_def
    by (rule resolve_agree [OF collect_optional_collected [OF f(2) sub(3)] assms(2)])
  show "resolve_mapping (jidx step ''input_ref'') c = resolve_mapping (jidx step ''input_ref'') c'"
    unfolding jidx_def
    by (rule resolve_agree [OF collect_optional_collected [OF f(3) sub(2)] assms(2)])
  show "resolve_mapping (step_arguments step) c = resolve_mapping (step_arguments step) c'"
    unfolding step_arguments_def
    by (rule resolve_agree [OF collect_optional_collected [OF f(4) sub(1)] assms(2)])
  show "render_instructions h (step_instructions step) c = render_instructions h (step_instructions step) c'"
    by (rule render_agree [OF f(5) assms(2)])
qed

lemma checked_references:
  assumes "fair_order h" "identified steps" "validate_step_references h steps = Inr ()"
    and "step \<in> set steps"
  shows "\<exists>found. step_references step = Inr found \<and>
    set found \<subseteq> (requires steps)\<^sup>+ `` {step_id_or_empty step}"
proof -
  let ?g = "dependency_graph steps" and ?i = "step_id_or_empty step"
  obtain found where found: "step_references step = Inr found"
    "eachR (check_reference ?g ?i (ancestors ?g (successors ?g ?i) [])) (hash_order h found) = Inr ()"
    using assms(3,4) by (auto simp: validate_step_references_def Let_def eachR_Inr bindR_Inr_iff)
  then have "set found \<subseteq> set (ancestors ?g (successors ?g ?i) [])"
    using assms(1) by (auto simp: eachR_Inr check_reference_def bindR_Inr_iff fair_order_def)
  with found(1) show ?thesis
    by (simp add: ancestors_trancl identified_needs [OF assms(2)])
qed

text \<open>C13. A step of an accepted procedure reads only the input of the run and its transitive
  dependencies: in two contexts that agree on those, its condition, its mappings, its action's
  arguments and its instructions come out the same.\<close>

theorem accepted_step_reads_ancestors:
  assumes "fair_order h" "validate_steps h v owner = Inr (JArr steps)" "step \<in> set steps"
    and "agree c c' ((requires steps)\<^sup>+ `` {step_id_or_empty step})"
  shows "evaluate_condition (jidx step ''when'') c = evaluate_condition (jidx step ''when'') c' \<and>
    resolve_mapping (jidx step ''input'') c = resolve_mapping (jidx step ''input'') c' \<and>
    resolve_mapping (jidx step ''input_ref'') c = resolve_mapping (jidx step ''input_ref'') c' \<and>
    resolve_mapping (step_arguments step) c = resolve_mapping (step_arguments step) c' \<and>
    render_instructions (sop_json h) (step_instructions step) c =
      render_instructions (sop_json h) (step_instructions step) c'"
proof -
  from assms(2) have "validate_step_references h steps = Inr ()" by (rule validate_steps_Inr)
  from checked_references [OF assms(1) accepted_identified [OF assms(2)] this assms(3)]
  obtain found where found: "step_references step = Inr found"
    "set found \<subseteq> (requires steps)\<^sup>+ `` {step_id_or_empty step}" by blast
  note agreed = step_references_agree [OF found(1) agree_mono [OF assms(4) found(2)]]
  show ?thesis by (intro conjI) (rule agreed)+
qed

end
