(* ===== verification/Sop_Demo.thy ===== *)
theory Sop_Demo
  imports Sop_Conditions Sop_References
begin

text \<open>
  A procedure of two steps, the second of which waits for the first, reads its status and is skipped
  unless it completed; the check accepts it, and refuses it when the first waits for the second.
\<close>

definition demo_sop_json :: host where
  "demo_sop_json =
     \<lparr>to_vec = (\<lambda>v. Inr ''v''), pretty_refusal = (\<lambda>_. None), parse_refusal = (\<lambda>_. ''not json''),
      sha256_bytes = (\<lambda>s. s), exists_text = ''exists'', missing_text = ''missing''\<rparr>"

definition demo_sop :: sop_host where
  "demo_sop =
     \<lparr>sop_json = demo_sop_json, schema_refusal = (\<lambda>_. None), schema_violations = (\<lambda>_ _. []),
      hash_order = rev\<rparr>"

definition demo_raw_step :: "string \<Rightarrow> string \<Rightarrow> (string \<times> json) list \<Rightarrow> json" where
  "demo_raw_step i executor rest =
     JObj ([(''id'', JStr i), (''executor'', JStr executor), (''title'', JStr ''t'')] @ rest)"

definition demo_raw :: "json list" where
  "demo_raw =
     [demo_raw_step ''a'' ''engine'' [(''instructions'', JStr ''go'')],
      demo_raw_step ''b'' ''agent''
        [(''instructions'', JStr ''a is {{ steps.a.status }}''), (''depends_on'', JArr [JStr ''a'']),
         (''when'', JObj [(''ref'', JStr '' steps.a.status''), (''op'', JStr ''equals''),
            (''value'', JStr ''completed'')])]]"

definition demo_normal :: "string \<Rightarrow> string \<Rightarrow> bool \<Rightarrow> string list \<Rightarrow> string \<Rightarrow> json \<Rightarrow> json" where
  "demo_normal i executor blocking deps instructions condition =
     JObj
       [(''id'', JStr i), (''executor'', JStr executor), (''blocking'', JBool blocking),
        (''title'', JStr ''t''), (''depends_on'', JArr (map JStr deps)),
        (''instructions'', JStr instructions), (''when'', condition), (''input'', JNull),
        (''input_ref'', JNull), (''result_schema'', JNull), (''action'', JNull), (''sop_id'', JNull),
        (''sop_version'', JNull), (''wait_policy'', JNull), (''legacy_command'', JNull)]"

definition demo_steps :: "json list" where
  "demo_steps =
     [demo_normal ''a'' ''engine'' False [] ''go'' JNull,
      demo_normal ''b'' ''agent'' True [''a''] ''a is {{ steps.a.status }}''
        (JObj [(''ref'', JStr ''steps.a.status''), (''op'', JStr ''equals''),
           (''value'', JStr ''completed'')])]"

lemma demo_fair: "fair_order demo_sop"
  by (simp add: fair_order_def demo_sop_def)

lemma demo_validate: "validate_steps demo_sop (Some (JArr demo_raw)) None = Inr (JArr demo_steps)"
  by code_simp

lemma demo_members: "demo_steps ! 0 \<in> set demo_steps" "demo_steps ! 1 \<in> set demo_steps"
  by (simp_all add: demo_steps_def)

lemma demo_ids: "step_id_or_empty (demo_steps ! 0) = ''a''" "step_id_or_empty (demo_steps ! 1) = ''b''"
  by (simp_all add: demo_steps_def demo_normal_def step_id_or_empty_def step_text_def)

lemma demo_requires: "requires demo_steps = {(''b'', ''a'')}"
  by (simp add: requires_def demo_steps_def demo_normal_def step_id_or_empty_def step_text_def
      depends_on_def List.map_filter_simps)

definition demo_circular :: "json list" where
  "demo_circular =
     [demo_normal ''a'' ''engine'' False [''b''] ''go'' JNull, demo_normal ''b'' ''agent'' True [''a''] ''go'' JNull]"

lemma demo_circular_identified: "identified demo_circular"
  by (simp add: identified_def demo_circular_def demo_normal_def step_id_or_empty_def step_text_def)

lemma demo_accepted: "validate_dag demo_sop demo_steps = Inr ()"
  by code_simp

lemma demo_refused: "validate_dag demo_sop demo_circular = Inl (cycle_refusal [''a'', ''b'', ''a''])"
  by code_simp

section \<open>The properties on the procedure\<close>

lemma dag_check_decides_witness:
  "snd ` requires demo_steps \<subseteq> step_id_or_empty ` set demo_steps \<and> acyclic (requires demo_steps) \<and>
    is_cycle (dependency_graph demo_circular) [''a'', ''b'', ''a'']"
  using dag_check_decides [OF demo_fair accepted_identified [OF demo_validate], THEN conjunct1]
    dag_check_decides [OF demo_fair demo_circular_identified, THEN conjunct2] demo_accepted demo_refused
  by simp

lemma accepted_never_blocks_witness:
  "\<exists>s. s \<in> set demo_steps \<and> step_id_or_empty s \<in> {''a'', ''b''} \<and> set (depends_on s) \<inter> {''a'', ''b''} = {}"
proof -
  have "step_id_or_empty (demo_steps ! 1) \<in> {''a'', ''b''}"
    by (simp only: demo_ids) simp
  from accepted_never_blocks [OF demo_fair demo_validate demo_members(2), of "\<lambda>i. i \<in> {''a'', ''b''}", OF this]
  show ?thesis
    by blast
qed

lemma accepted_condition_evaluates_witness:
  "\<exists>c. jget (demo_steps ! 1) ''when'' = Some (cond_json c) \<and> wf_cond c \<and> cond_nodes c \<le> 64 \<and>
    (\<forall>context. evaluate_condition (cond_json c) context = Inr (holds context c))"
  by (rule accepted_condition_evaluates [OF demo_validate demo_members(2)])

definition demo_context :: "json list \<Rightarrow> json" where
  "demo_context others =
     JObj [(''input'', JObj []), (''input_ref'', JNull),
       (''steps'', JArr (JObj [(''step_id'', JStr ''a''), (''status'', JStr ''completed'')] # others))]"

lemma accepted_step_reads_ancestors_witness:
  "render_instructions (sop_json demo_sop) (step_instructions (demo_steps ! 1)) (demo_context []) =
     render_instructions (sop_json demo_sop) (step_instructions (demo_steps ! 1))
       (demo_context [JObj [(''step_id'', JStr ''c''), (''status'', JStr ''failed'')]])"
proof -
  have "(requires demo_steps)\<^sup>+ `` {step_id_or_empty (demo_steps ! 1)} \<subseteq> {''a''}"
    by (auto simp: demo_requires dest: tranclD2)
  then have "agree (demo_context []) (demo_context [JObj [(''step_id'', JStr ''c''), (''status'', JStr ''failed'')]])
      ((requires demo_steps)\<^sup>+ `` {step_id_or_empty (demo_steps ! 1)})"
    by (rule agree_mono [rotated])
      (simp add: agree_def demo_context_def context_step_def step_named_def)
  from accepted_step_reads_ancestors [OF demo_fair demo_validate demo_members(2) this] show ?thesis
    by simp
qed

end
