(* ===== verification/Sop_Tables.thy ===== *)
theory Sop_Tables
  imports Sop_Graph
begin

text \<open>
  The tables of \<^verbatim>\<open>.sop/sop.db\<close>: the schema of \<^verbatim>\<open>sop_authority/parts/01.rs\<close>, its constraints, and
  the rows as the values that \<^verbatim>\<open>row_json\<close> (\<^verbatim>\<open>06.rs\<close>) makes of them. A table is the list of its
  rows in insertion order. A text column whose name ends in \<^verbatim>\<open>_json\<close> holds the value its text
  denotes; a value written by \<^verbatim>\<open>canonical_json\<close> comes back with its keys sorted (\<open>canonicalize\<close>).
\<close>

section \<open>Tables\<close>

record template_row =
  tp_sop_id :: string
  tp_version :: int
  tp_title :: string
  tp_status :: string
  tp_description :: string
  tp_steps :: json
  tp_trigger_kind :: string
  tp_input_schema :: "json option"
  tp_output :: "json option"
  tp_output_ref :: "json option"
  tp_output_schema :: "json option"
  tp_acceptance :: json
  tp_evidence :: json
  tp_created_at :: string
  tp_updated_at :: string

record run_row =
  rn_id :: string
  rn_sop_id :: string
  rn_version :: int
  rn_title :: string
  rn_status :: string
  rn_occurrence :: string
  rn_request_fp :: string
  rn_definition_fp :: string
  rn_definition :: json
  rn_input :: json
  rn_input_ref :: "json option"
  rn_output :: json
  rn_output_ref :: "json option"
  rn_steps :: json
  rn_trigger_kind :: string
  rn_trigger_ref :: string
  rn_triggered_by :: string
  rn_parent :: "string option"
  rn_parent_step :: "string option"
  rn_created_at :: string
  rn_updated_at :: string
  rn_completed_at :: "string option"

record audit_row =
  ev_id :: string
  ev_run :: string
  ev_step :: string
  ev_kind :: string
  ev_details :: json
  ev_recorded_at :: string

record action_row =
  ac_id :: string
  ac_run :: string
  ac_step :: string
  ac_occurrence :: string
  ac_surface :: string
  ac_tool :: string
  ac_arguments :: json
  ac_request_fp :: string
  ac_status :: string
  ac_completion_key :: "string option"
  ac_completion_fp :: "string option"
  ac_operation_ref :: "string option"
  ac_result :: json
  ac_result_ref :: "json option"
  ac_error :: "string option"
  ac_created_at :: string
  ac_updated_at :: string
  ac_completed_at :: "string option"

record handoff_row =
  hf_id :: string
  hf_run :: string
  hf_step :: string
  hf_occurrence :: string
  hf_sop_id :: string
  hf_version :: int
  hf_executor :: string
  hf_title :: string
  hf_instructions :: string
  hf_input :: json
  hf_input_ref :: "json option"
  hf_result_schema :: "json option"
  hf_request_fp :: string
  hf_status :: string
  hf_lease_owner :: "string option"
  hf_lease_token :: "string option"
  hf_lease_expires :: "string option"
  hf_attempts :: int
  hf_last_error :: "string option"
  hf_completion_key :: "string option"
  hf_completion_fp :: "string option"
  hf_principal :: "string option"
  hf_result :: json
  hf_result_ref :: "json option"
  hf_error :: "string option"
  hf_created_at :: string
  hf_updated_at :: string
  hf_completed_at :: "string option"

record outbox_row =
  ob_id :: string
  ob_topic :: string
  ob_partition :: string
  ob_run :: string
  ob_sop_id :: string
  ob_version :: int
  ob_occurrence :: string
  ob_outcome :: string
  ob_payload :: json
  ob_created_at :: string
  ob_available_at :: string
  ob_compacted_at :: "string option"

record requirement_row =
  rq_topic :: string
  rq_consumer :: string
  rq_start_at :: string
  rq_registered_at :: string

record receipt_row =
  rc_event :: string
  rc_consumer :: string
  rc_processed_at :: string
  rc_receipt :: json

record sop_db =
  templates :: "template_row list"
  runs :: "run_row list"
  events :: "audit_row list"
  actions :: "action_row list"
  handoffs :: "handoff_row list"
  outbox :: "outbox_row list"
  requirements :: "requirement_row list"
  receipts :: "receipt_row list"

definition empty_db :: sop_db where
  "empty_db =
     \<lparr>templates = [], runs = [], events = [], actions = [], handoffs = [], outbox = [],
      requirements = [], receipts = []\<rparr>"

section \<open>Rows as values\<close>

definition template_row_json :: "template_row \<Rightarrow> json" where
  "template_row_json r =
     JObj [(''sop_id'', JStr (tp_sop_id r)), (''version'', jint (tp_version r)),
       (''title'', JStr (tp_title r)), (''status'', JStr (tp_status r)),
       (''description'', JStr (tp_description r)), (''steps_json'', tp_steps r),
       (''trigger_kind'', JStr (tp_trigger_kind r)),
       (''input_schema_json'', jopt (tp_input_schema r)),
       (''output_mapping_json'', jopt (tp_output r)),
       (''output_ref_mapping_json'', jopt (tp_output_ref r)),
       (''output_schema_json'', jopt (tp_output_schema r)),
       (''acceptance_criteria_json'', tp_acceptance r),
       (''evidence_requirements_json'', tp_evidence r),
       (''created_at'', JStr (tp_created_at r)), (''updated_at'', JStr (tp_updated_at r))]"

definition run_row_json :: "run_row \<Rightarrow> json" where
  "run_row_json r =
     JObj [(''run_id'', JStr (rn_id r)), (''sop_id'', JStr (rn_sop_id r)),
       (''sop_version'', jint (rn_version r)), (''sop_title'', JStr (rn_title r)),
       (''status'', JStr (rn_status r)), (''occurrence_key'', JStr (rn_occurrence r)),
       (''request_fingerprint'', JStr (rn_request_fp r)),
       (''definition_fingerprint'', JStr (rn_definition_fp r)),
       (''definition_json'', rn_definition r), (''input_json'', rn_input r),
       (''input_ref_json'', jopt (rn_input_ref r)), (''output_json'', rn_output r),
       (''output_ref_json'', jopt (rn_output_ref r)), (''step_states_json'', rn_steps r),
       (''trigger_source_kind'', JStr (rn_trigger_kind r)),
       (''trigger_source_ref'', JStr (rn_trigger_ref r)),
       (''triggered_by'', JStr (rn_triggered_by r)), (''parent_run_id'', jopt_str (rn_parent r)),
       (''parent_step_id'', jopt_str (rn_parent_step r)), (''created_at'', JStr (rn_created_at r)),
       (''updated_at'', JStr (rn_updated_at r)), (''completed_at'', jopt_str (rn_completed_at r))]"

definition action_row_json :: "action_row \<Rightarrow> json" where
  "action_row_json r =
     JObj [(''action_id'', JStr (ac_id r)), (''run_id'', JStr (ac_run r)),
       (''step_id'', JStr (ac_step r)), (''occurrence_key'', JStr (ac_occurrence r)),
       (''surface_id'', JStr (ac_surface r)), (''tool_name'', JStr (ac_tool r)),
       (''arguments_json'', ac_arguments r), (''request_fingerprint'', JStr (ac_request_fp r)),
       (''status'', JStr (ac_status r)), (''completion_key'', jopt_str (ac_completion_key r)),
       (''completion_fingerprint'', jopt_str (ac_completion_fp r)),
       (''operation_ref'', jopt_str (ac_operation_ref r)), (''result_json'', ac_result r),
       (''result_ref_json'', jopt (ac_result_ref r)), (''error_message'', jopt_str (ac_error r)),
       (''created_at'', JStr (ac_created_at r)), (''updated_at'', JStr (ac_updated_at r)),
       (''completed_at'', jopt_str (ac_completed_at r))]"

definition handoff_row_json :: "handoff_row \<Rightarrow> json" where
  "handoff_row_json r =
     JObj [(''handoff_id'', JStr (hf_id r)), (''run_id'', JStr (hf_run r)),
       (''step_id'', JStr (hf_step r)), (''occurrence_key'', JStr (hf_occurrence r)),
       (''sop_id'', JStr (hf_sop_id r)), (''sop_version'', jint (hf_version r)),
       (''executor'', JStr (hf_executor r)), (''title'', JStr (hf_title r)),
       (''instructions'', JStr (hf_instructions r)), (''input_json'', hf_input r),
       (''input_ref_json'', jopt (hf_input_ref r)),
       (''result_schema_json'', jopt (hf_result_schema r)),
       (''request_fingerprint'', JStr (hf_request_fp r)), (''status'', JStr (hf_status r)),
       (''lease_owner'', jopt_str (hf_lease_owner r)), (''lease_token'', jopt_str (hf_lease_token r)),
       (''lease_expires_at'', jopt_str (hf_lease_expires r)),
       (''attempt_count'', jint (hf_attempts r)), (''last_error'', jopt_str (hf_last_error r)),
       (''completion_key'', jopt_str (hf_completion_key r)),
       (''completion_fingerprint'', jopt_str (hf_completion_fp r)),
       (''principal'', jopt_str (hf_principal r)), (''result_json'', hf_result r),
       (''result_ref_json'', jopt (hf_result_ref r)), (''error_message'', jopt_str (hf_error r)),
       (''created_at'', JStr (hf_created_at r)), (''updated_at'', JStr (hf_updated_at r)),
       (''completed_at'', jopt_str (hf_completed_at r))]"

definition outbox_row_json :: "outbox_row \<Rightarrow> json" where
  "outbox_row_json r =
     JObj [(''event_id'', JStr (ob_id r)), (''topic'', JStr (ob_topic r)),
       (''partition_key'', JStr (ob_partition r)), (''run_id'', JStr (ob_run r)),
       (''sop_id'', JStr (ob_sop_id r)), (''sop_version'', jint (ob_version r)),
       (''occurrence_key'', JStr (ob_occurrence r)), (''outcome'', JStr (ob_outcome r)),
       (''payload_json'', ob_payload r), (''created_at'', JStr (ob_created_at r)),
       (''available_at'', JStr (ob_available_at r)),
       (''compacted_at'', jopt_str (ob_compacted_at r))]"

section \<open>Constraints\<close>

definition handoff_checks :: "host \<Rightarrow> handoff_row \<Rightarrow> bool" where
  "handoff_checks h r \<longleftrightarrow>
     hf_executor r \<in> {''agent'', ''operator''} \<and>
     length (hf_instructions r) \<le> 16384 \<and>
     length (sop_canonical h (hf_input r)) \<le> 16384 \<and>
     hf_status r \<in> {''pending'', ''leased'', ''completed'', ''failed'', ''cancelled''} \<and>
     length (sop_canonical h (hf_result r)) \<le> 16384"

definition outbox_checks :: "host \<Rightarrow> outbox_row \<Rightarrow> bool" where
  "outbox_checks h r \<longleftrightarrow>
     ob_outcome r \<in> {''completed'', ''failed'', ''cancelled''} \<and>
     length (sop_canonical h (ob_payload r)) \<le> 16384"

definition template_fresh :: "sop_db \<Rightarrow> template_row \<Rightarrow> bool" where
  "template_fresh d r \<longleftrightarrow>
     (tp_sop_id r, tp_version r) \<notin> set (map (\<lambda>q. (tp_sop_id q, tp_version q)) (templates d))"

text \<open>The partial index \<^verbatim>\<open>sop_runs_occurrence_unique\<close> and the primary key.\<close>

definition run_fresh :: "sop_db \<Rightarrow> run_row \<Rightarrow> bool" where
  "run_fresh d r \<longleftrightarrow>
     rn_id r \<notin> set (map rn_id (runs d)) \<and>
     (rn_occurrence r = [] \<or>
       (rn_sop_id r, rn_occurrence r) \<notin> set (map (\<lambda>q. (rn_sop_id q, rn_occurrence q)) (runs d)))"

definition action_fresh :: "sop_db \<Rightarrow> action_row \<Rightarrow> bool" where
  "action_fresh d r \<longleftrightarrow>
     ac_id r \<notin> set (map ac_id (actions d)) \<and>
     (ac_run r, ac_step r) \<notin> set (map (\<lambda>q. (ac_run q, ac_step q)) (actions d)) \<and>
     ac_occurrence r \<notin> set (map ac_occurrence (actions d))"

definition handoff_fresh :: "sop_db \<Rightarrow> handoff_row \<Rightarrow> bool" where
  "handoff_fresh d r \<longleftrightarrow>
     hf_id r \<notin> set (map hf_id (handoffs d)) \<and>
     hf_run r \<in> set (map rn_id (runs d)) \<and>
     (hf_run r, hf_step r) \<notin> set (map (\<lambda>q. (hf_run q, hf_step q)) (handoffs d)) \<and>
     hf_occurrence r \<notin> set (map hf_occurrence (handoffs d))"

definition outbox_fresh :: "sop_db \<Rightarrow> outbox_row \<Rightarrow> bool" where
  "outbox_fresh d r \<longleftrightarrow>
     ob_id r \<notin> set (map ob_id (outbox d)) \<and>
     ob_run r \<in> set (map rn_id (runs d)) \<and>
     ob_run r \<notin> set (map ob_run (outbox d))"

definition receipt_fresh :: "sop_db \<Rightarrow> receipt_row \<Rightarrow> bool" where
  "receipt_fresh d r \<longleftrightarrow>
     rc_event r \<in> set (map ob_id (outbox d)) \<and>
     (rc_event r, rc_consumer r) \<notin> set (map (\<lambda>q. (rc_event q, rc_consumer q)) (receipts d))"

definition requirement_fresh :: "sop_db \<Rightarrow> requirement_row \<Rightarrow> bool" where
  "requirement_fresh d r \<longleftrightarrow>
     (rq_topic r, rq_consumer r) \<notin> set (map (\<lambda>q. (rq_topic q, rq_consumer q)) (requirements d))"

section \<open>Rows by key\<close>

definition find_run :: "sop_db \<Rightarrow> string \<Rightarrow> run_row option" where
  "find_run d i = find (\<lambda>r. rn_id r = i) (runs d)"

definition find_occurrence :: "sop_db \<Rightarrow> string \<Rightarrow> string \<Rightarrow> run_row option" where
  "find_occurrence d sop key = find (\<lambda>r. rn_sop_id r = sop \<and> rn_occurrence r = key) (runs d)"

definition find_action :: "sop_db \<Rightarrow> string \<Rightarrow> action_row option" where
  "find_action d i = find (\<lambda>r. ac_id r = i) (actions d)"

definition find_step_action :: "sop_db \<Rightarrow> string \<Rightarrow> string \<Rightarrow> action_row option" where
  "find_step_action d run step = find (\<lambda>r. ac_run r = run \<and> ac_step r = step) (actions d)"

definition find_handoff :: "sop_db \<Rightarrow> string \<Rightarrow> handoff_row option" where
  "find_handoff d i = find (\<lambda>r. hf_id r = i) (handoffs d)"

definition find_step_handoff :: "sop_db \<Rightarrow> string \<Rightarrow> string \<Rightarrow> handoff_row option" where
  "find_step_handoff d run step = find (\<lambda>r. hf_run r = run \<and> hf_step r = step) (handoffs d)"

definition find_template :: "sop_db \<Rightarrow> string \<Rightarrow> int \<Rightarrow> template_row option" where
  "find_template d sop version =
     find (\<lambda>r. tp_sop_id r = sop \<and> tp_version r = version) (templates d)"

text \<open>\<^verbatim>\<open>update ... set ... where\<close>\<close>

definition update_rows :: "('r \<Rightarrow> bool) \<Rightarrow> ('r \<Rightarrow> 'r) \<Rightarrow> 'r list \<Rightarrow> 'r list" where
  "update_rows P f rows = map (\<lambda>r. if P r then f r else r) rows"

lemma find_Some_iff_key:
  "find P xs = Some x \<Longrightarrow> x \<in> set xs \<and> P x"
  by (auto simp: find_Some_iff)

lemma update_rows_map [simp]:
  "(\<And>r. P r \<Longrightarrow> k (f r) = k r) \<Longrightarrow> map k (update_rows P f rows) = map k rows"
  by (auto simp: update_rows_def)

lemma update_rows_in: "r \<in> set (update_rows P f rows) \<Longrightarrow> r \<in> set rows \<or> (\<exists>q \<in> set rows. P q \<and> r = f q)"
  by (auto simp: update_rows_def split: if_splits)

end
