(* ===== verification/Sop_Effects.thy ===== *)
theory Sop_Effects
  imports Sop_Tables
begin

text \<open>
  How an operation of the procedure engine runs: on the database inside one transaction, with the
  clock, fresh uuids and the faults of the SQL library as inputs. An operation is a function on the
  \<open>sop_world\<close>: the tables, and the number of draws made so far from the inputs of the call, so that
  every reading of the clock, every uuid and every statement sees an input of its own. A failing
  operation returns the world as well: the code catches some refusals inside a transaction and goes
  on with what was written before (\<^verbatim>\<open>attempt\<close> in \<^verbatim>\<open>sop_engine/parts/13.rs\<close>). Only
  \<open>transactional\<close> takes writes back. A recursion that the code bounds by its data is given fuel and
  stops with \<open>Unfinished\<close>, which nothing catches.
\<close>

datatype stop = Denied json | Crashed string | Unfinished

record civil_time =
  year :: int
  month :: nat
  day :: nat
  hour :: nat
  minute :: nat
  sec :: nat
  nanos :: nat

record sop_call =
  lib :: sop_host
  rfc3339 :: "string \<Rightarrow> int option"
  civil :: "int \<Rightarrow> civil_time"
  in_range :: "int \<Rightarrow> bool"
  clock_at :: "nat \<Rightarrow> int"
  uuid_at :: "nat \<Rightarrow> string"
  fault_at :: "nat \<Rightarrow> string option"
  violation :: "string \<Rightarrow> string"

abbreviation jlib :: "sop_call \<Rightarrow> host" where
  "jlib c \<equiv> sop_json (lib c)"

record sop_world =
  tables :: sop_db
  draws :: nat

type_synonym 'a op = "sop_world \<Rightarrow> (stop + 'a) \<times> sop_world"

section \<open>Sequencing\<close>

definition retS :: "'a \<Rightarrow> 'a op" where
  "retS x w = (Inr x, w)"

definition stopS :: "stop \<Rightarrow> 'a op" where
  "stopS e w = (Inl e, w)"

abbreviation denyS :: "json \<Rightarrow> 'a op" where
  "denyS e \<equiv> stopS (Denied e)"

definition bindS :: "'a op \<Rightarrow> ('a \<Rightarrow> 'b op) \<Rightarrow> 'b op" where
  "bindS m f w = (case m w of (Inl e, w') \<Rightarrow> (Inl e, w') | (Inr x, w') \<Rightarrow> f x w')"

definition liftS :: "json + 'a \<Rightarrow> 'a op" where
  "liftS r = (case r of Inl e \<Rightarrow> denyS e | Inr x \<Rightarrow> retS x)"

definition denyS_if :: "bool \<Rightarrow> json \<Rightarrow> unit op" where
  "denyS_if b e = (if b then denyS e else retS ())"

text \<open>A refusal as a value, for the places where the code looks at a \<^verbatim>\<open>Result\<close> instead of passing it on.\<close>

definition reifyS :: "'a op \<Rightarrow> (json + 'a) op" where
  "reifyS m w =
     (case m w of
        (Inl (Denied e), w') \<Rightarrow> (Inr (Inl e), w')
      | (Inl e, w') \<Rightarrow> (Inl e, w')
      | (Inr x, w') \<Rightarrow> (Inr (Inr x), w'))"

definition getS :: "(sop_db \<Rightarrow> 'a) \<Rightarrow> 'a op" where
  "getS f w = (Inr (f (tables w)), w)"

definition modifyS :: "(sop_db \<Rightarrow> sop_db) \<Rightarrow> unit op" where
  "modifyS f w = (Inr (), w\<lparr>tables := f (tables w)\<rparr>)"

definition drawS :: "(nat \<Rightarrow> 'a) \<Rightarrow> 'a op" where
  "drawS f w = (Inr (f (draws w)), w\<lparr>draws := Suc (draws w)\<rparr>)"

fun mapS :: "('a \<Rightarrow> 'b op) \<Rightarrow> 'a list \<Rightarrow> 'b list op" where
  "mapS f [] = retS []"
| "mapS f (x # xs) = bindS (f x) (\<lambda>y. bindS (mapS f xs) (\<lambda>ys. retS (y # ys)))"

fun foldS :: "('a \<Rightarrow> 's \<Rightarrow> 's op) \<Rightarrow> 'a list \<Rightarrow> 's \<Rightarrow> 's op" where
  "foldS f [] s = retS s"
| "foldS f (x # xs) s = bindS (f x s) (foldS f xs)"

lemma bindS_cong [fundef_cong]:
  "m = m' \<Longrightarrow> (\<And>x. f x = g x) \<Longrightarrow> bindS m f = bindS m' g"
  by (metis ext)

section \<open>The inputs of a call\<close>

text \<open>\<^verbatim>\<open>{:02}\<close>, \<^verbatim>\<open>{:03}\<close> and, for the signed year, \<^verbatim>\<open>{:04}\<close>.\<close>

definition zero_fill :: "nat \<Rightarrow> nat \<Rightarrow> string" where
  "zero_fill width n = replicate (width - length (show_nat n)) CHR ''0'' @ show_nat n"

definition year_text :: "int \<Rightarrow> string" where
  "year_text y = (if y < 0 then ''-'' @ zero_fill 3 (nat (- y)) else zero_fill 4 (nat y))"

definition iso_text :: "sop_call \<Rightarrow> int \<Rightarrow> string" where
  "iso_text c t =
     (let v = civil c t in
      year_text (year v) @ ''-'' @ zero_fill 2 (month v) @ ''-'' @ zero_fill 2 (day v) @ ''T'' @
      zero_fill 2 (hour v) @ '':'' @ zero_fill 2 (minute v) @ '':'' @ zero_fill 2 (sec v) @ ''.'' @
      zero_fill 3 (nanos v div 1000000) @ ''Z'')"

definition now_utc :: "sop_call \<Rightarrow> int op" where
  "now_utc c = drawS (clock_at c)"

definition now_iso :: "sop_call \<Rightarrow> string op" where
  "now_iso c = drawS (\<lambda>n. iso_text c (clock_at c n))"

definition new_uuid :: "sop_call \<Rightarrow> string op" where
  "new_uuid c = drawS (uuid_at c)"

definition read_iso :: "sop_call \<Rightarrow> string \<Rightarrow> int option" where
  "read_iso c s = rfc3339 c (trim s)"

text \<open>\<^verbatim>\<open>now + Duration::milliseconds(ms)\<close>, which panics out of range.\<close>

definition after_millis :: "sop_call \<Rightarrow> int \<Rightarrow> int \<Rightarrow> int op" where
  "after_millis c t ms =
     (if in_range c (t + ms * 1000000) then retS (t + ms * 1000000)
      else stopS (Crashed ''resulting value is out of range''))"

section \<open>Statements\<close>

definition statement :: "sop_call \<Rightarrow> string \<Rightarrow> unit op" where
  "statement c code =
     bindS (drawS (fault_at c)) (\<lambda>fault.
     case fault of None \<Rightarrow> retS () | Some cause \<Rightarrow> denyS (diagnostic code cause (JObj [])))"

definition query :: "sop_call \<Rightarrow> string \<Rightarrow> (sop_db \<Rightarrow> 'a) \<Rightarrow> 'a op" where
  "query c code f = bindS (statement c code) (\<lambda>_. getS f)"

text \<open>A statement that writes: refused with the text of the violated constraint, if any.\<close>

definition perform :: "sop_call \<Rightarrow> string \<Rightarrow> (sop_db \<Rightarrow> bool) \<Rightarrow> (sop_db \<Rightarrow> sop_db) \<Rightarrow> unit op" where
  "perform c code ok f =
     bindS (statement c code) (\<lambda>_.
     bindS (getS ok) (\<lambda>fine.
     if fine then modifyS f else denyS (diagnostic code (violation c code) (JObj []))))"

section \<open>Transactions\<close>

text \<open>Opening the database creates its directory, the file and the tables that are missing; none of
  this is visible in the rows.\<close>

definition open_db :: "sop_call \<Rightarrow> unit op" where
  "open_db c =
     bindS (statement c ''sop_registry_directory_failed'') (\<lambda>_.
     bindS (statement c ''sop_registry_open_failed'') (\<lambda>_.
     bindS (statement c ''sop_registry_pragma_failed'') (\<lambda>_.
     bindS (statement c ''sop_registry_pragma_failed'') (\<lambda>_.
     bindS (statement c ''sop_registry_pragma_failed'') (\<lambda>_.
     statement c ''sop_registry_schema_failed'')))))"

definition rolled_back :: "'a op \<Rightarrow> 'a op" where
  "rolled_back m w =
     (case m w of (Inl e, w') \<Rightarrow> (Inl e, w'\<lparr>tables := tables w\<rparr>) | (Inr x, w') \<Rightarrow> (Inr x, w'))"

definition transactional :: "sop_call \<Rightarrow> 'a op \<Rightarrow> 'a op" where
  "transactional c work =
     bindS (open_db c) (\<lambda>_.
     bindS (statement c ''sop_transaction_begin_failed'') (\<lambda>_.
     rolled_back (bindS work (\<lambda>x.
     bindS (statement c ''sop_transaction_commit_failed'') (\<lambda>_. retS x)))))"

section \<open>Outcomes\<close>

text \<open>\<open>ends m w P E\<close>: run on \<open>w\<close>, \<open>m\<close> ends in a result and a world that satisfy \<open>P\<close>, or with a stop
  and a world that satisfy \<open>E\<close>.\<close>

definition ends :: "'a op \<Rightarrow> sop_world \<Rightarrow> ('a \<Rightarrow> sop_world \<Rightarrow> bool) \<Rightarrow> (stop \<Rightarrow> sop_world \<Rightarrow> bool) \<Rightarrow> bool" where
  "ends m w P E = (case m w of (Inr x, w') \<Rightarrow> P x w' | (Inl e, w') \<Rightarrow> E e w')"

named_theorems ends_simps \<open>outcomes of the combinators\<close>

lemma ends_ret [simp, ends_simps]: "ends (retS x) w P E = P x w"
  by (simp add: ends_def retS_def)

lemma ends_stop [simp, ends_simps]: "ends (stopS e) w P E = E e w"
  by (simp add: ends_def stopS_def)

lemma ends_bind [simp, ends_simps]: "ends (bindS m f) w P E = ends m w (\<lambda>x w'. ends (f x) w' P E) E"
  by (simp add: ends_def bindS_def split: sum.splits prod.splits)

lemma ends_reify [simp, ends_simps]:
  "ends (reifyS m) w P E =
     ends m w (\<lambda>x. P (Inr x)) (\<lambda>e. case e of Denied d \<Rightarrow> P (Inl d) | _ \<Rightarrow> E e)"
  by (simp add: ends_def reifyS_def split: sum.splits prod.splits stop.splits)

lemma ends_get [simp, ends_simps]: "ends (getS f) w P E = P (f (tables w)) w"
  by (simp add: ends_def getS_def)

lemma ends_modify [simp, ends_simps]: "ends (modifyS f) w P E = P () (w\<lparr>tables := f (tables w)\<rparr>)"
  by (simp add: ends_def modifyS_def)

lemma ends_draw [simp, ends_simps]:
  "ends (drawS f) w P E = P (f (draws w)) (w\<lparr>draws := Suc (draws w)\<rparr>)"
  by (simp add: ends_def drawS_def)

lemma ends_lift [ends_simps]:
  "ends (liftS r) w P E = (case r of Inl e \<Rightarrow> E (Denied e) w | Inr x \<Rightarrow> P x w)"
  by (simp add: liftS_def split: sum.splits)

lemma ends_deny_if [ends_simps]: "ends (denyS_if b e) w P E = (if b then E (Denied e) w else P () w)"
  by (simp add: denyS_if_def)

lemma ends_rolled_back [ends_simps]:
  "ends (rolled_back m) w P E = ends m w P (\<lambda>e w'. E e (w'\<lparr>tables := tables w\<rparr>))"
  by (simp add: ends_def rolled_back_def split: sum.splits prod.splits)

lemma ends_if [ends_simps]: "ends (if b then m else n) w P E = (if b then ends m w P E else ends n w P E)"
  by simp

text \<open>The rule of consequence, and the outcomes themselves.\<close>

lemma ends_mono:
  assumes "ends m w P E" "\<And>x w'. P x w' \<Longrightarrow> Q x w'" "\<And>e w'. E e w' \<Longrightarrow> F e w'"
  shows "ends m w Q F"
  using assms by (auto simp: ends_def split: sum.splits prod.splits)

lemma ends_conj: "ends m w P E \<Longrightarrow> ends m w Q F \<Longrightarrow> ends m w (\<lambda>x u. P x u \<and> Q x u) (\<lambda>e u. E e u \<and> F e u)"
  by (simp add: ends_def split: sum.splits prod.splits)

lemma ends_Inr: "ends m w P E \<Longrightarrow> m w = (Inr x, w') \<Longrightarrow> P x w'"
  by (simp add: ends_def)

lemma ends_Inl: "ends m w P E \<Longrightarrow> m w = (Inl e, w') \<Longrightarrow> E e w'"
  by (simp add: ends_def)

lemma endsI:
  "(\<And>x w'. m w = (Inr x, w') \<Longrightarrow> P x w') \<Longrightarrow> (\<And>e w'. m w = (Inl e, w') \<Longrightarrow> E e w') \<Longrightarrow> ends m w P E"
  by (simp add: ends_def split: sum.splits prod.splits)

section \<open>Operations that only read\<close>

text \<open>The stop of an operation that only reads and has no fuel to run out of.\<close>

definition reads :: "'a op \<Rightarrow> bool" where
  "reads m \<longleftrightarrow> (\<forall>w. tables (snd (m w)) = tables w)"

named_theorems reads_intros \<open>operations that leave the tables\<close>

lemma reads_ret [reads_intros]: "reads (retS x)"
  by (simp add: reads_def retS_def)

lemma reads_stop [reads_intros]: "reads (stopS e)"
  by (simp add: reads_def stopS_def)

lemma reads_bind [reads_intros]: "reads m \<Longrightarrow> (\<And>x. reads (f x)) \<Longrightarrow> reads (bindS m f)"
  by (auto simp: reads_def bindS_def split: sum.splits prod.splits) (metis snd_conv)+

lemma reads_reify [reads_intros]: "reads m \<Longrightarrow> reads (reifyS m)"
  by (auto simp: reads_def reifyS_def split: sum.splits prod.splits stop.splits) (metis snd_conv)+

lemma reads_lift [reads_intros]: "reads (liftS r)"
  by (simp add: liftS_def reads_ret reads_stop split: sum.splits)

lemma reads_deny_if [reads_intros]: "reads (denyS_if b e)"
  by (simp add: denyS_if_def reads_ret reads_stop)

lemma reads_get [reads_intros]: "reads (getS f)"
  by (simp add: reads_def getS_def)

lemma reads_draw [reads_intros]: "reads (drawS f)"
  by (simp add: reads_def drawS_def)

lemma reads_now [reads_intros]: "reads (now_iso c)" "reads (now_utc c)" "reads (new_uuid c)"
  by (simp_all add: now_iso_def now_utc_def new_uuid_def reads_draw)

lemma reads_if [reads_intros]: "(b \<Longrightarrow> reads m) \<Longrightarrow> (\<not> b \<Longrightarrow> reads n) \<Longrightarrow> reads (if b then m else n)"
  by simp

lemma reads_option [reads_intros]:
  "(v = None \<Longrightarrow> reads m) \<Longrightarrow> (\<And>x. v = Some x \<Longrightarrow> reads (f x)) \<Longrightarrow>
    reads (case v of None \<Rightarrow> m | Some x \<Rightarrow> f x)"
  by (cases v) auto

lemma reads_statement [reads_intros]: "reads (statement c code)"
  unfolding statement_def by (intro reads_intros)

lemma reads_query [reads_intros]: "reads (query c code f)"
  unfolding query_def by (intro reads_intros)

lemma reads_after [reads_intros]: "reads (after_millis c t ms)"
  unfolding after_millis_def by (intro reads_intros)

lemma reads_open [reads_intros]: "reads (open_db c)"
  unfolding open_db_def by (intro reads_intros)

lemma reads_mapS [reads_intros]: "(\<And>x. reads (f x)) \<Longrightarrow> reads (mapS f xs)"
  by (induction xs) (auto intro!: reads_intros)

lemma reads_tables: "reads m \<Longrightarrow> m w = (r, w') \<Longrightarrow> tables w' = tables w"
  by (metis reads_def snd_conv)

section \<open>Operations that move the tables along an order\<close>

text \<open>\<open>moves R m\<close>: whatever \<open>m\<close> ends in, it leaves tables that \<open>R\<close> relates to the ones it found.
  With \<open>R d d' = (I d \<longrightarrow> I d')\<close> this is the preservation of \<open>I\<close>.\<close>

definition moves :: "(sop_db \<Rightarrow> sop_db \<Rightarrow> bool) \<Rightarrow> 'a op \<Rightarrow> bool" where
  "moves R m \<longleftrightarrow> (\<forall>w. R (tables w) (tables (snd (m w))))"

locale table_order =
  fixes R :: "sop_db \<Rightarrow> sop_db \<Rightarrow> bool"
  assumes R_refl: "R d d"
    and R_trans: "R d e \<Longrightarrow> R e f \<Longrightarrow> R d f"
begin

lemma moves_reads: "reads m \<Longrightarrow> moves R m"
  by (simp add: reads_def moves_def R_refl)

lemma moves_bind: "moves R m \<Longrightarrow> (\<And>x. moves R (f x)) \<Longrightarrow> moves R (bindS m f)"
  by (auto simp: moves_def bindS_def split: sum.splits prod.splits) (metis R_trans snd_conv)+

lemma moves_reify: "moves R m \<Longrightarrow> moves R (reifyS m)"
  by (auto simp: moves_def reifyS_def split: sum.splits prod.splits stop.splits) (metis snd_conv)+

lemma moves_modify: "(\<And>d. R d (f d)) \<Longrightarrow> moves R (modifyS f)"
  by (simp add: moves_def modifyS_def)

lemma moves_perform: "(\<And>d. ok d \<Longrightarrow> R d (f d)) \<Longrightarrow> moves R (perform c code ok f)"
proof -
  assume f: "\<And>d. ok d \<Longrightarrow> R d (f d)"
  have "R (tables u) (tables (snd (bindS (getS ok) (\<lambda>fine. if fine then modifyS f else n) u)))"
    if "reads n" for n u
    using that R_refl f [of "tables u"]
    by (auto simp: bindS_def getS_def modifyS_def reads_def)
  then have "moves R (bindS (getS ok) (\<lambda>fine. if fine then modifyS f else denyS e))" for e
    unfolding moves_def by (blast intro: reads_intros)
  then show ?thesis
    unfolding perform_def by (rule moves_bind [OF moves_reads [OF reads_statement]])
qed

lemma moves_rolled_back: "moves R m \<Longrightarrow> moves R (rolled_back m)"
  by (auto simp: moves_def rolled_back_def R_refl split: sum.splits prod.splits) (metis snd_conv)

lemma moves_transactional: "moves R work \<Longrightarrow> moves R (transactional c work)"
  unfolding transactional_def
  by (intro moves_bind moves_rolled_back) (auto intro: moves_reads reads_intros)

lemma moves_foldS: "(\<And>x s. moves R (f x s)) \<Longrightarrow> moves R (foldS f xs s)"
  by (induction xs arbitrary: s) (auto intro: moves_bind moves_reads reads_intros)

end

lemma movesD: "moves R m \<Longrightarrow> m w = (r, w') \<Longrightarrow> R (tables w) (tables w')"
  by (metis moves_def snd_conv)

text \<open>What a transaction that is refused leaves.\<close>

lemma rolled_back_Inl: "rolled_back m w = (Inl e, w') \<Longrightarrow> tables w' = tables w"
  by (auto simp: rolled_back_def split: sum.splits prod.splits)

lemma bindS_Inr:
  "bindS m f w = (Inr y, w') \<longleftrightarrow> (\<exists>x u. m w = (Inr x, u) \<and> f x u = (Inr y, w'))"
  by (auto simp: bindS_def split: sum.splits prod.splits)

lemma bindS_Inl:
  "bindS m f w = (Inl e, w') \<longleftrightarrow> m w = (Inl e, w') \<or> (\<exists>x u. m w = (Inr x, u) \<and> f x u = (Inl e, w'))"
  by (auto simp: bindS_def split: sum.splits prod.splits)

lemma transactional_Inl: "transactional c work w = (Inl e, w') \<Longrightarrow> tables w' = tables w"
  by (auto simp: transactional_def bindS_Inl dest!: rolled_back_Inl
      reads_tables [OF reads_open] reads_tables [OF reads_statement])

lemma transactional_Inr:
  assumes "transactional c work w = (Inr x, w')"
  obtains u v where "tables u = tables w" "work u = (Inr x, v)" "tables w' = tables v"
proof -
  from assms obtain a b where a: "open_db c w = (Inr (), a)"
    and b: "statement c ''sop_transaction_begin_failed'' a = (Inr (), b)"
    and r: "rolled_back (bindS work (\<lambda>x. bindS (statement c ''sop_transaction_commit_failed'')
      (\<lambda>_. retS x))) b = (Inr x, w')"
    by (auto simp: transactional_def bindS_Inr)
  from r obtain v where v: "work b = (Inr x, v)" "tables w' = tables v"
    by (auto simp: rolled_back_def bindS_Inr bindS_Inl retS_def split: sum.splits prod.splits
        dest!: reads_tables [OF reads_statement])
  have "tables b = tables w"
    using reads_tables [OF reads_open a] reads_tables [OF reads_statement b] by simp
  with v show thesis using that by blast
qed

end
