(* ===== verification/Sop_Runs.thy ===== *)
theory Sop_Runs
  imports Sop_Effects
begin

text \<open>
  Runs of a procedure (\<^verbatim>\<open>sop_engine/parts/01.rs\<close>, \<^verbatim>\<open>06.rs\<close> to \<^verbatim>\<open>08.rs\<close>): the record \<^verbatim>\<open>Run\<close>, its
  reading from a row with the checks of identity and fingerprints (\<open>hydrate_run\<close>), its writing back
  (\<open>persist_run\<close>), the audit events, the steps it holds, the context its steps read, and the reply
  that shows it. The state of a step is the JSON object the code keeps.
\<close>

record sop_run =
  run_id :: string
  run_sop_id :: string
  run_version :: int
  run_title :: string
  run_status :: string
  run_occurrence :: string
  run_request_fp :: string
  run_definition_fp :: string
  run_definition :: json
  run_input :: json
  run_input_ref :: json
  run_output :: json
  run_output_ref :: json
  run_steps :: "json list"
  run_trigger_kind :: string
  run_trigger_ref :: string
  run_triggered_by :: string
  run_parent :: "string option"
  run_parent_step :: "string option"
  run_created :: string
  run_updated :: string
  run_completed :: "string option"

definition run_statuses :: "string list" where
  "run_statuses =
     [''pending'', ''running'', ''completed'', ''failed'', ''cancelled'', ''awaiting_confirmation'']"

definition step_statuses :: "string list" where
  "step_statuses = [''pending'', ''running'', ''completed'', ''failed'', ''skipped'']"

definition is_run_terminal :: "string \<Rightarrow> bool" where
  "is_run_terminal status \<longleftrightarrow> status \<in> {''completed'', ''failed'', ''cancelled''}"

section \<open>Steps\<close>

text \<open>\<^verbatim>\<open>.and_then(Value::as_str).unwrap_or_default()\<close> and \<^verbatim>\<open>.cloned().unwrap_or(d)\<close>.\<close>

definition text_or :: "json option \<Rightarrow> string" where
  "text_or v = (case Option.bind v as_str of None \<Rightarrow> [] | Some s \<Rightarrow> s)"

definition value_or :: "json \<Rightarrow> json option \<Rightarrow> json" where
  "value_or d v = (case v of None \<Rightarrow> d | Some w \<Rightarrow> w)"

definition member_is :: "json \<Rightarrow> string \<Rightarrow> string \<Rightarrow> bool" where
  "member_is v k s \<longleftrightarrow> Option.bind (jget v k) as_str = Some s"

abbreviation step_status_is :: "string \<Rightarrow> json \<Rightarrow> bool" where
  "step_status_is s step \<equiv> member_is step ''status'' s"

definition step_string :: "json \<Rightarrow> string \<Rightarrow> string" where
  "step_string step k = text_or (jget step k)"

text \<open>The code panics on a step that is no object; \<open>hydrate_run\<close> has refused those.\<close>

definition set_step :: "string \<Rightarrow> json \<Rightarrow> json \<Rightarrow> json" where
  "set_step k v step = (case step of JObj m \<Rightarrow> JObj (obj_insert k v m) | _ \<Rightarrow> step)"

definition value_context :: "sop_run \<Rightarrow> json" where
  "value_context run =
     JObj [(''input'', run_input run), (''input_ref'', run_input_ref run),
       (''steps'', JArr (map (\<lambda>step.
          JObj [(''step_id'', jopt (jget step ''step_id'')), (''status'', jopt (jget step ''status'')),
            (''result'', jopt (jget step ''result'')), (''result_ref'', jopt (jget step ''result_ref''))])
          (run_steps run)))]"

definition set_run_step :: "nat \<Rightarrow> (json \<Rightarrow> json) \<Rightarrow> sop_run \<Rightarrow> sop_run" where
  "set_run_step i f run = run\<lparr>run_steps := (run_steps run)[i := f (run_steps run ! i)]\<rparr>"

section \<open>Reading a run\<close>

definition check_step_state :: "json \<Rightarrow> json + unit" where
  "check_step_state step =
     (let status = text_or (jget step ''status''); i = jopt (jget step ''step_id'') in
      bindR (refuse_if (status \<notin> set step_statuses)
        (diagnostic ''sop_persisted_step_status_invalid''
          (''sop_persisted_step_status_invalid:'' @ status) (JObj [(''step_id'', i)]))) (\<lambda>_.
      refuse_if (Option.bind (jget step ''result'') as_object = None)
        (diagnostic ''sop_persisted_step_result_invalid'' ''sop_persisted_step_result_invalid''
          (JObj [(''step_id'', i)]))))"

definition request_value ::
    "string \<Rightarrow> int \<Rightarrow> string \<Rightarrow> json \<Rightarrow> json \<Rightarrow> string \<Rightarrow> string \<Rightarrow> string \<Rightarrow> string option \<Rightarrow> string option
      \<Rightarrow> json" where
  "request_value sop version occurrence value_in ref_in kind trigger by parent parent_step =
     JObj [(''sop_id'', JStr sop), (''sop_version'', jint version),
       (''occurrence_key'', JStr occurrence), (''input'', value_in), (''input_ref'', ref_in),
       (''trigger_source_kind'', JStr kind), (''trigger_source_ref'', JStr trigger),
       (''triggered_by'', JStr by), (''parent_run_id'', jopt_str parent),
       (''parent_step_id'', jopt_str parent_step)]"

definition check_definition :: "host \<Rightarrow> string \<Rightarrow> string \<Rightarrow> int \<Rightarrow> json \<Rightarrow> string \<Rightarrow> json + unit" where
  "check_definition h i sop version def fp =
     (if fp = [] then Inr ()
      else
        bindR (refuse_if
          (\<not> member_is def ''schema'' ''narada.sop.definition.v2'' \<or> \<not> member_is def ''sop_id'' sop \<or>
            Option.bind (jget def ''version'') as_i64 \<noteq> Some version)
          (diagnostic ''sop_definition_identity_mismatch'' (''sop_definition_identity_mismatch:'' @ i)
            (JObj [(''run_id'', JStr i)]))) (\<lambda>_.
        refuse_if (fingerprint h def \<noteq> fp)
          (diagnostic ''sop_definition_fingerprint_mismatch''
            (''sop_definition_fingerprint_mismatch:'' @ i)
            (JObj [(''run_id'', JStr i), (''expected'', JStr fp),
              (''actual'', JStr (fingerprint h def))]))))"

definition check_request :: "host \<Rightarrow> string \<Rightarrow> json \<Rightarrow> string \<Rightarrow> json + unit" where
  "check_request h i request fp =
     refuse_if (fp \<noteq> [] \<and> fingerprint h request \<noteq> fp)
       (diagnostic ''sop_request_fingerprint_mismatch'' (''sop_request_fingerprint_mismatch:'' @ i)
         (JObj [(''run_id'', JStr i), (''expected'', JStr fp),
           (''actual'', JStr (fingerprint h request))]))"

definition run_version_of :: "json \<Rightarrow> string \<Rightarrow> json + int" where
  "run_version_of row i =
     ok_or (case Option.bind (jget row ''sop_version'') as_i64 of
         None \<Rightarrow> None | Some v \<Rightarrow> if 1 \<le> v then Some v else None)
       (diagnostic ''sop_run_corrupt'' ''sop_run_corrupt'' (JObj [(''run_id'', JStr i)]))"

definition hydrate_run :: "host \<Rightarrow> json \<Rightarrow> json + sop_run" where
  "hydrate_run h row =
     bindR (ok_or (as_object row) (diagnostic ''sop_run_corrupt'' ''sop_run_corrupt'' (JObj []))) (\<lambda>_.
     bindR (required_string (jget row ''run_id'') ''sop_run_corrupt'' 512) (\<lambda>i.
     bindR (required_string (jget row ''sop_id'') ''sop_run_corrupt'' 256) (\<lambda>sop.
     bindR (run_version_of row i) (\<lambda>version.
     bindR (required_string (jget row ''status'') ''sop_run_status_invalid'' 64) (\<lambda>status.
     bindR (refuse_if (status \<notin> set run_statuses)
       (diagnostic ''sop_run_status_invalid'' (''sop_run_status_invalid:'' @ status)
         (JObj [(''run_id'', JStr i)]))) (\<lambda>_.
     let def = value_or (JObj []) (jget row ''definition_json'') in
     bindR (ok_or (Option.bind (jget row ''step_states_json'') as_array)
       (diagnostic ''sop_run_corrupt'' (''sop_run_corrupt:'' @ i)
         (JObj [(''reason'', JStr ''step_states_json is not an array'')]))) (\<lambda>steps.
     bindR (validate_step_graph steps) (\<lambda>_.
     bindR (eachR check_step_state steps) (\<lambda>_.
     let occurrence = text_or (jget row ''occurrence_key'');
         request_fp = text_or (jget row ''request_fingerprint'');
         definition_fp = text_or (jget row ''definition_fingerprint'');
         value_in = value_or (JObj []) (jget row ''input_json'') in
     bindR (normalize_value_ref (jget row ''input_ref_json'') ''sop_input_ref'') (\<lambda>ref_in.
     let kind = text_or (jget row ''trigger_source_kind'');
         trigger = text_or (jget row ''trigger_source_ref'');
         by = text_or (jget row ''triggered_by'');
         parent = optional_string (jget row ''parent_run_id'');
         parent_step = optional_string (jget row ''parent_step_id'') in
     bindR (check_definition h i sop version def definition_fp) (\<lambda>_.
     bindR (check_request h i
       (request_value sop version occurrence value_in ref_in kind trigger by parent parent_step)
       request_fp) (\<lambda>_.
     bindR (required_string (jget row ''sop_title'') ''sop_run_corrupt'' 512) (\<lambda>title.
     bindR (normalize_value_ref (jget row ''output_ref_json'') ''sop_output_ref'') (\<lambda>ref_out.
     bindR (required_string (jget row ''created_at'') ''sop_run_corrupt'' 512) (\<lambda>created.
     bindR (required_string (jget row ''updated_at'') ''sop_run_corrupt'' 512) (\<lambda>updated.
     Inr \<lparr>run_id = i, run_sop_id = sop, run_version = version, run_title = title,
       run_status = status, run_occurrence = occurrence, run_request_fp = request_fp,
       run_definition_fp = definition_fp, run_definition = def, run_input = value_in,
       run_input_ref = ref_in, run_output = value_or (JObj []) (jget row ''output_json''),
       run_output_ref = ref_out, run_steps = steps, run_trigger_kind = kind,
       run_trigger_ref = trigger, run_triggered_by = by, run_parent = parent,
       run_parent_step = parent_step, run_created = created, run_updated = updated,
       run_completed = optional_string (jget row ''completed_at'')\<rparr>))))))))))))))))"

definition run_missing :: "string \<Rightarrow> json" where
  "run_missing i = diagnostic ''sop_run_not_found'' (''sop_run_not_found:'' @ i) (JObj [])"

definition get_run :: "sop_call \<Rightarrow> string \<Rightarrow> sop_run op" where
  "get_run c i =
     bindS (query c ''sop_run_query_failed'' (\<lambda>d. find_run d i)) (\<lambda>row.
     bindS (liftS (ok_or row (run_missing i))) (\<lambda>r.
     liftS (hydrate_run (jlib c) (run_row_json r))))"

section \<open>Writing\<close>

definition null_column :: "json \<Rightarrow> json option" where
  "null_column v = (if is_null v then None else Some (canonicalize v))"

definition append_run_event ::
    "sop_call \<Rightarrow> string \<Rightarrow> string option \<Rightarrow> string \<Rightarrow> json \<Rightarrow> unit op" where
  "append_run_event c i step kind details =
     bindS (new_uuid c) (\<lambda>u.
     bindS (now_iso c) (\<lambda>now.
     let row = \<lparr>ev_id = ''soe_'' @ take 12 u, ev_run = i,
           ev_step = (case step of None \<Rightarrow> [] | Some s \<Rightarrow> s), ev_kind = kind,
           ev_details = canonicalize details, ev_recorded_at = now\<rparr> in
     perform c ''sop_event_insert_failed''
       (\<lambda>d. ev_id row \<notin> set (map ev_id (events d))) (\<lambda>d. d\<lparr>events := events d @ [row]\<rparr>)))"

definition write_run :: "sop_run \<Rightarrow> sop_db \<Rightarrow> sop_db" where
  "write_run run d =
     d\<lparr>runs := update_rows (\<lambda>r. rn_id r = run_id run)
        (\<lambda>r. r\<lparr>rn_status := run_status run, rn_output := canonicalize (run_output run),
           rn_output_ref := null_column (run_output_ref run),
           rn_steps := canonicalize (JArr (run_steps run)), rn_updated_at := run_updated run,
           rn_completed_at := run_completed run\<rparr>) (runs d)\<rparr>"

definition persist_run :: "sop_call \<Rightarrow> sop_run \<Rightarrow> sop_run op" where
  "persist_run c run =
     bindS (liftS (assert_bound (jlib c) (JArr (run_steps run)) ''sop_run_state'' max_run_state_bytes)) (\<lambda>_.
     bindS (now_iso c) (\<lambda>now.
     let run' = run\<lparr>run_updated := now\<rparr> in
     bindS (perform c ''sop_run_update_failed'' (\<lambda>_. True) (write_run run')) (\<lambda>_. retS run')))"

section \<open>The reply\<close>

definition next_step_view :: "json \<Rightarrow> json" where
  "next_step_view step =
     (let result = value_or (JObj []) (jget step ''result'');
          instructions = (case jget result ''instructions'' of
              None \<Rightarrow> value_or JNull (jget step ''instructions'') | Some v \<Rightarrow> v);
          target = (case Option.bind (jget step ''action'') as_object of
              None \<Rightarrow> JNull
            | Some a \<Rightarrow> JObj [(''surface_id'', jopt (obj_get a ''surface_id'')),
                (''tool_name'', jopt (obj_get a ''tool_name''))]) in
      JObj [(''step_id'', jopt (jget step ''step_id'')), (''executor'', jopt (jget step ''executor'')),
        (''title'', jopt (jget step ''title'')), (''instructions'', instructions),
        (''child_run_id'', jopt (jget step ''child_run_id'')),
        (''child_sop_id'', jopt (jget step ''sop_id'')), (''action_id'', jopt (jget step ''action_id'')),
        (''action_target'', target), (''result'', result),
        (''result_ref'', jopt (jget step ''result_ref''))])"

definition child_pin_view :: "json \<Rightarrow> json" where
  "child_pin_view step =
     JObj [(''step_id'', jopt (jget step ''step_id'')), (''sop_id'', jopt (jget step ''sop_id'')),
       (''sop_version'', jopt (jget step ''sop_version'')),
       (''definition_fingerprint'', jopt (jget step ''pinned_child_definition_fingerprint''))]"

definition run_result :: "sop_run \<Rightarrow> string option \<Rightarrow> jmap" where
  "run_result run admission =
     (let next = map next_step_view (filter (step_status_is ''running'') (run_steps run));
          pins = map child_pin_view (filter (\<lambda>s. member_is s ''executor'' ''sop'') (run_steps run)) in
      [(''schema'', JStr ''narada.sop.run.v2''), (''run_id'', JStr (run_id run)),
       (''sop_id'', JStr (run_sop_id run)), (''sop_version'', jint (run_version run)),
       (''sop_title'', JStr (run_title run)), (''status'', JStr (run_status run)),
       (''occurrence_key'', JStr (run_occurrence run)),
       (''request_fingerprint'', JStr (run_request_fp run)),
       (''definition_fingerprint'', JStr (run_definition_fp run)), (''input'', run_input run),
       (''input_ref'', run_input_ref run), (''output'', run_output run),
       (''output_ref'', run_output_ref run), (''step_states'', JArr (run_steps run)),
       (''step_states_parse_error'', JNull), (''trigger_source_kind'', JStr (run_trigger_kind run)),
       (''trigger_source_ref'', JStr (run_trigger_ref run)),
       (''triggered_by'', JStr (run_triggered_by run)), (''parent_run_id'', jopt_str (run_parent run)),
       (''parent_step_id'', jopt_str (run_parent_step run)), (''created_at'', JStr (run_created run)),
       (''updated_at'', JStr (run_updated run)), (''completed_at'', jopt_str (run_completed run)),
       (''definition_snapshot'',
         JObj [(''stored'', JBool True), (''fingerprint'', JStr (run_definition_fp run)),
           (''sop_id'', JStr (run_sop_id run)), (''sop_version'', jint (run_version run)),
           (''child_pins'', JArr pins)]),
       (''admission'', jopt_str admission),
       (''next_awaits_confirmation'',
         JBool (list_ex (\<lambda>s. member_is s ''executor'' ''agent'' \<or> member_is s ''executor'' ''operator'') next)),
       (''next_steps'', JArr next),
       (''next_step'', case next of [] \<Rightarrow> JNull | s # _ \<Rightarrow> s),
       (''relationship_reconciliation'',
         JObj [(''mode'', JStr ''automatic''), (''repair_tool'', JStr ''sop_run_refresh'')])])"

end
