(* ===== verification/Sop_Handoffs.thy ===== *)
theory Sop_Handoffs
  imports Sop_Runs
begin

text \<open>
  Handoffs: the work of a step that an agent or an operator does. The reading of a row with its
  checks (\<^verbatim>\<open>sop_authority/parts/05.rs\<close>), claiming under a lease, renewing, releasing
  (\<^verbatim>\<open>04.rs\<close>), the intent that a starting step records (\<^verbatim>\<open>sop_engine/parts/09.rs\<close>) and the
  completion by the holder of the lease (\<^verbatim>\<open>sop_engine/parts/02.rs\<close>).
\<close>

section \<open>Arguments\<close>

definition min_lease_ms :: int where
  "min_lease_ms = 1000"

definition max_lease_ms :: int where
  "max_lease_ms = 300000"

definition bounded_integer_arg :: "json option \<Rightarrow> int \<Rightarrow> int \<Rightarrow> int \<Rightarrow> string \<Rightarrow> json + int" where
  "bounded_integer_arg v fallback lo hi code =
     (let refusal = diagnostic code code
          (JObj [(''value'', jopt v), (''min'', jint lo), (''max'', jint hi)]) in
      bindR (case v of
          None \<Rightarrow> Inr fallback
        | Some w \<Rightarrow> if is_null w then Inr fallback else ok_or (as_i64 w) refusal) (\<lambda>i.
      bindR (refuse_if (i < lo \<or> hi < i) refusal) (\<lambda>_. Inr i)))"

definition positive_integer_member :: "json option \<Rightarrow> string \<Rightarrow> json + int" where
  "positive_integer_member v code =
     bindR (ok_or (Option.bind v as_i64) (diagnostic code code (JObj []))) (\<lambda>i.
     bindR (refuse_if (i < 1)
       (diagnostic code code (JObj [(''value'', jint i), (''min'', jint 1)]))) (\<lambda>_. Inr i))"

definition nonnegative_integer_member :: "json option \<Rightarrow> string \<Rightarrow> json + int" where
  "nonnegative_integer_member v code =
     bindR (ok_or (Option.bind v as_i64) (diagnostic code code (JObj []))) (\<lambda>i.
     bindR (refuse_if (i < 0)
       (diagnostic code code (JObj [(''value'', jint i), (''min'', jint 0)]))) (\<lambda>_. Inr i))"

definition optional_bounded_string :: "json option \<Rightarrow> string \<Rightarrow> nat \<Rightarrow> json + string option" where
  "optional_bounded_string v code bound =
     (case optional_string v of
        None \<Rightarrow> Inr None
      | Some s \<Rightarrow>
          bindR (refuse_if (bound < char_count s)
            (diagnostic code code
              (JObj [(''length'', jnat (char_count s)), (''max_length'', jnat bound)])))
            (\<lambda>_. Inr (Some s)))"

definition normalize_handoff_executor :: "string \<Rightarrow> json + string" where
  "normalize_handoff_executor s =
     bindR (refuse_if (s \<notin> {''agent'', ''operator''})
       (diagnostic ''sop_handoff_executor_invalid'' ''sop_handoff_executor_invalid''
         (JObj [(''executor'', JStr s)]))) (\<lambda>_. Inr s)"

definition normalize_handoff_status :: "string \<Rightarrow> json + string" where
  "normalize_handoff_status s =
     bindR (refuse_if (s \<notin> {''pending'', ''leased'', ''completed'', ''failed'', ''cancelled''})
       (diagnostic ''sop_handoff_status_invalid'' ''sop_handoff_status_invalid''
         (JObj [(''status'', JStr s)]))) (\<lambda>_. Inr s)"

section \<open>Reading a handoff\<close>

definition step_identity :: "string \<Rightarrow> string \<Rightarrow> string" where
  "step_identity run step = run @ [CHR 0x00] @ step"

definition handoff_request ::
    "string \<Rightarrow> string \<Rightarrow> string \<Rightarrow> int \<Rightarrow> string \<Rightarrow> string \<Rightarrow> string \<Rightarrow> json \<Rightarrow> json \<Rightarrow> json \<Rightarrow> json" where
  "handoff_request run step sop version executor title instructions value_in ref_in schema =
     JObj [(''run_id'', JStr run), (''step_id'', JStr step), (''sop_id'', JStr sop),
       (''sop_version'', jint version), (''executor'', JStr executor), (''title'', JStr title),
       (''instructions'', JStr instructions), (''input'', value_in), (''input_ref'', ref_in),
       (''result_schema'', schema)]"

definition completion_value ::
    "string option \<Rightarrow> string \<Rightarrow> string option \<Rightarrow> json \<Rightarrow> json \<Rightarrow> string option \<Rightarrow> json" where
  "completion_value key outcome who result result_ref message =
     JObj [(''completion_key'', jopt_str key), (''outcome'', JStr outcome),
       (''principal'', jopt_str who), (''result'', result), (''result_ref'', result_ref),
       (''error_message'', jopt_str message)]"

definition handoff_refusal :: "string \<Rightarrow> string \<Rightarrow> (string \<times> json) list \<Rightarrow> json" where
  "handoff_refusal code i extra = diagnostic code code (JObj ([(''handoff_id'', JStr i)] @ extra))"

definition check_handoff_identity :: "host \<Rightarrow> string \<Rightarrow> string \<Rightarrow> string \<Rightarrow> string \<Rightarrow> json + unit" where
  "check_handoff_identity h run step i occurrence =
     (let expected = deterministic_id h ''soh_'' (step_identity run step) in
      refuse_if (i \<noteq> expected \<or> occurrence \<noteq> deterministic_id h ''sop_handoff_'' (step_identity run step))
        (handoff_refusal ''sop_handoff_identity_mismatch'' i [(''expected_handoff_id'', JStr expected)]))"

text \<open>A row carries a lease exactly while it is leased.\<close>

definition check_handoff_lease ::
    "string \<Rightarrow> string \<Rightarrow> string option \<Rightarrow> string option \<Rightarrow> string option \<Rightarrow> json + unit" where
  "check_handoff_lease i status owner token expires =
     (if status = ''leased'' then
        refuse_if (owner = None \<or> token = None \<or> expires = None)
          (handoff_refusal ''sop_handoff_lease_corrupt'' i [])
      else
        refuse_if (owner \<noteq> None \<or> token \<noteq> None \<or> expires \<noteq> None)
          (handoff_refusal ''sop_handoff_lease_corrupt'' i [(''status'', JStr status)]))"

definition check_handoff_completion ::
    "host \<Rightarrow> string \<Rightarrow> string \<Rightarrow> string option \<Rightarrow> string option \<Rightarrow> string option \<Rightarrow> json \<Rightarrow> json
      \<Rightarrow> string option \<Rightarrow> json + unit" where
  "check_handoff_completion h i status key fp who result result_ref message =
     (case fp of
        Some recorded \<Rightarrow>
          bindR (refuse_if (key = None \<or> who = None \<or> status \<notin> {''completed'', ''failed''})
            (handoff_refusal ''sop_handoff_completion_identity_invalid'' i [(''status'', JStr status)])) (\<lambda>_.
          refuse_if (recorded \<noteq> fingerprint h (completion_value key status who result result_ref message))
            (handoff_refusal ''sop_handoff_completion_fingerprint_mismatch'' i []))
      | None \<Rightarrow>
          refuse_if (key \<noteq> None \<or> who \<noteq> None \<or> status \<in> {''completed'', ''failed''})
            (handoff_refusal ''sop_handoff_completion_identity_invalid'' i [(''status'', JStr status)]))"

definition handoff_text :: "json \<Rightarrow> string \<Rightarrow> nat \<Rightarrow> json + string" where
  "handoff_text row k bound = required_string (jget row k) ''sop_handoff_corrupt'' bound"

definition hydrate_handoff :: "host \<Rightarrow> json \<Rightarrow> json + json" where
  "hydrate_handoff h row =
     bindR (ok_or (as_object row) (diagnostic ''sop_handoff_corrupt'' ''sop_handoff_corrupt'' (JObj []))) (\<lambda>_.
     bindR (handoff_text row ''run_id'' 512) (\<lambda>run.
     bindR (handoff_text row ''step_id'' 512) (\<lambda>step.
     bindR (handoff_text row ''handoff_id'' 512) (\<lambda>i.
     bindR (handoff_text row ''occurrence_key'' 512) (\<lambda>occurrence.
     bindR (check_handoff_identity h run step i occurrence) (\<lambda>_.
     bindR (handoff_text row ''sop_id'' 512) (\<lambda>sop.
     bindR (positive_integer_member (jget row ''sop_version'') ''sop_handoff_corrupt'') (\<lambda>version.
     bindR (normalize_handoff_executor (text_or (jget row ''executor''))) (\<lambda>executor.
     bindR (handoff_text row ''title'' 512) (\<lambda>title.
     bindR (handoff_text row ''instructions'' 16384) (\<lambda>instructions.
     let value_in = jopt (jget row ''input_json''); ref_in = jopt (jget row ''input_ref_json'');
         schema = jopt (jget row ''result_schema_json'') in
     bindR (handoff_text row ''request_fingerprint'' 512) (\<lambda>request_fp.
     bindR (refuse_if (request_fp \<noteq> fingerprint h
         (handoff_request run step sop version executor title instructions value_in ref_in schema))
       (handoff_refusal ''sop_handoff_request_fingerprint_mismatch'' i [])) (\<lambda>_.
     bindR (normalize_handoff_status (text_or (jget row ''status''))) (\<lambda>status.
     let owner = optional_string (jget row ''lease_owner'');
         token = optional_string (jget row ''lease_token'');
         expires = optional_string (jget row ''lease_expires_at'') in
     bindR (check_handoff_lease i status owner token expires) (\<lambda>_.
     bindR (nonnegative_integer_member (jget row ''attempt_count'') ''sop_handoff_attempt_count_invalid'') (\<lambda>attempts.
     let key = optional_string (jget row ''completion_key'');
         fp = optional_string (jget row ''completion_fingerprint'');
         who = optional_string (jget row ''principal'');
         result = value_or (JObj []) (jget row ''result_json'') in
     bindR (refuse_if (as_object result = None) (handoff_refusal ''sop_handoff_result_corrupt'' i [])) (\<lambda>_.
     let result_ref = jopt (jget row ''result_ref_json'');
         message = optional_string (jget row ''error_message'') in
     bindR (check_handoff_completion h i status key fp who result result_ref message) (\<lambda>_.
     bindR (handoff_text row ''created_at'' 512) (\<lambda>created.
     bindR (handoff_text row ''updated_at'' 512) (\<lambda>updated.
     Inr (JObj [(''schema'', JStr ''narada.sop.handoff.v1''), (''handoff_id'', JStr i),
       (''run_id'', JStr run), (''step_id'', JStr step), (''occurrence_key'', JStr occurrence),
       (''sop_id'', JStr sop), (''sop_version'', jint version), (''executor'', JStr executor),
       (''title'', JStr title), (''instructions'', JStr instructions), (''input'', value_in),
       (''input_ref'', ref_in), (''result_schema'', schema), (''request_fingerprint'', JStr request_fp),
       (''status'', JStr status), (''lease_owner'', jopt_str owner), (''lease_token'', jopt_str token),
       (''lease_expires_at'', jopt_str expires), (''attempt_count'', jint attempts),
       (''last_error'', jopt_str (optional_string (jget row ''last_error''))),
       (''completion_key'', jopt_str key), (''completion_fingerprint'', jopt_str fp),
       (''principal'', jopt_str who), (''result'', result), (''result_ref'', result_ref),
       (''error_message'', jopt_str message), (''created_at'', JStr created),
       (''updated_at'', JStr updated),
       (''completed_at'', jopt_str (optional_string (jget row ''completed_at'')))])))))))))))))))))))))"

definition public_handoff :: "json \<Rightarrow> bool \<Rightarrow> json" where
  "public_handoff handoff include_token =
     (case handoff of
        JObj m \<Rightarrow> if include_token then handoff else JObj (obj_remove ''lease_token'' m)
      | _ \<Rightarrow> handoff)"

definition get_handoff :: "sop_call \<Rightarrow> string \<Rightarrow> json op" where
  "get_handoff c i =
     bindS (query c ''sop_handoff_query_failed'' (\<lambda>d. find_handoff d i)) (\<lambda>row.
     bindS (liftS (ok_or row (handoff_refusal ''sop_handoff_not_found'' i []))) (\<lambda>r.
     liftS (hydrate_handoff (jlib c) (handoff_row_json r))))"

definition update_handoffs :: "(handoff_row \<Rightarrow> bool) \<Rightarrow> (handoff_row \<Rightarrow> handoff_row) \<Rightarrow> sop_db \<Rightarrow> sop_db" where
  "update_handoffs P f d = d\<lparr>handoffs := update_rows P f (handoffs d)\<rparr>"

section \<open>Claims and leases\<close>

definition run_of :: "sop_db \<Rightarrow> handoff_row \<Rightarrow> run_row option" where
  "run_of d r = find_run d (hf_run r)"

text \<open>Texts of instants are compared as SQLite compares text, byte by byte.\<close>

definition claimable_row :: "string \<Rightarrow> handoff_row \<Rightarrow> bool" where
  "claimable_row now r \<longleftrightarrow>
     hf_status r = ''pending'' \<or>
     (hf_status r = ''leased'' \<and> (case hf_lease_expires r of None \<Rightarrow> False | Some t \<Rightarrow> t \<le> now))"

definition claim_candidates ::
    "string \<Rightarrow> string option \<Rightarrow> string option \<Rightarrow> sop_db \<Rightarrow> handoff_row list" where
  "claim_candidates now wanted executor d =
     sort_key hf_created_at (sort_key hf_id (filter (\<lambda>r.
       claimable_row now r \<and>
       (case run_of d r of None \<Rightarrow> False | Some q \<Rightarrow> \<not> is_run_terminal (rn_status q)) \<and>
       (case wanted of None \<Rightarrow> True | Some i \<Rightarrow> hf_id r = i) \<and>
       (case executor of None \<Rightarrow> True | Some x \<Rightarrow> hf_executor r = x)) (handoffs d)))"

definition lease_row :: "string \<Rightarrow> string \<Rightarrow> string \<Rightarrow> string \<Rightarrow> handoff_row \<Rightarrow> handoff_row" where
  "lease_row consumer token expires now r =
     r\<lparr>hf_status := ''leased'', hf_lease_owner := Some consumer, hf_lease_token := Some token,
       hf_lease_expires := Some expires, hf_attempts := hf_attempts r + 1,
       hf_last_error := (if hf_status r = ''leased'' then Some ''lease_expired'' else hf_last_error r),
       hf_updated_at := now\<rparr>"

definition handoff_claim_reply :: "json \<Rightarrow> int \<Rightarrow> json" where
  "handoff_claim_reply handoff lease_ms =
     JObj [(''schema'', JStr ''narada.sop.handoff_claim.v1''), (''status'', JStr ''claimed''),
       (''handoff'', handoff), (''lease_ms'', jint lease_ms), (''lease_remaining_ms'', jint lease_ms),
       (''next'', JObj [(''tool'', JStr ''sop_run_advance''),
          (''required_from_claim'', JArr [JStr ''handoff.handoff_id'', JStr ''handoff.run_id'',
             JStr ''handoff.step_id'', JStr ''handoff.lease_token''])])]"

definition empty_claim :: json where
  "empty_claim =
     JObj [(''schema'', JStr ''narada.sop.handoff_claim.v1''), (''status'', JStr ''empty''),
       (''handoff'', JNull)]"

definition take_lease :: "sop_call \<Rightarrow> string \<Rightarrow> int \<Rightarrow> int \<Rightarrow> string \<Rightarrow> json op" where
  "take_lease c consumer lease_ms now i =
     (let now_text = iso_text c now; mine = (\<lambda>r. hf_id r = i \<and> claimable_row now_text r) in
      bindS (new_uuid c) (\<lambda>token.
      bindS (after_millis c now lease_ms) (\<lambda>expires.
      bindS (getS (\<lambda>d. length (filter mine (handoffs d)))) (\<lambda>changes.
      bindS (perform c ''sop_handoff_claim_failed'' (\<lambda>_. True)
        (update_handoffs mine (lease_row consumer token (iso_text c expires) now_text))) (\<lambda>_.
      bindS (denyS_if (changes \<noteq> 1) (handoff_refusal ''sop_handoff_claim_race'' i [])) (\<lambda>_.
      bindS (get_handoff c i) (\<lambda>handoff.
      retS (handoff_claim_reply (public_handoff handoff True) lease_ms))))))))"

definition handoff_claim :: "sop_call \<Rightarrow> jmap \<Rightarrow> json op" where
  "handoff_claim c args =
     transactional c (
     bindS (liftS (required_string (obj_get args ''consumer_id'') ''sop_handoff_consumer_id_required'' 512)) (\<lambda>consumer.
     let wanted = optional_string (obj_get args ''handoff_id'') in
     bindS (liftS (case optional_string (obj_get args ''executor'') of
         Some x \<Rightarrow> bindR (normalize_handoff_executor x) (\<lambda>x. Inr (Some x)) | None \<Rightarrow> Inr None)) (\<lambda>executor.
     bindS (liftS (bounded_integer_arg (obj_get args ''lease_ms'') 60000 min_lease_ms max_lease_ms
       ''sop_handoff_lease_ms_invalid'')) (\<lambda>lease_ms.
     bindS (now_utc c) (\<lambda>now.
     bindS (query c ''sop_handoff_query_failed'' (claim_candidates (iso_text c now) wanted executor)) (\<lambda>rows.
     case rows of
       [] \<Rightarrow> retS empty_claim
     | r # _ \<Rightarrow>
         bindS (liftS (required_string (Some (JStr (hf_id r))) ''sop_handoff_corrupt'' 512)) (\<lambda>i.
         take_lease c consumer lease_ms now i)))))))"

definition holds_lease :: "json \<Rightarrow> string \<Rightarrow> string \<Rightarrow> bool" where
  "holds_lease handoff consumer token \<longleftrightarrow>
     member_is handoff ''lease_owner'' consumer \<and> member_is handoff ''lease_token'' token"

definition lease_not_expired :: "sop_call \<Rightarrow> string \<Rightarrow> string \<Rightarrow> json \<Rightarrow> int \<Rightarrow> json + unit" where
  "lease_not_expired c i consumer handoff now =
     bindR (ok_or (Option.bind (jget handoff ''lease_expires_at'') as_str)
       (handoff_refusal ''sop_handoff_lease_corrupt'' i [])) (\<lambda>expires_text.
     bindR (ok_or (read_iso c expires_text) (handoff_refusal ''sop_handoff_lease_corrupt'' i [])) (\<lambda>expires.
     refuse_if (expires \<le> now)
       (handoff_refusal ''sop_handoff_lease_expired'' i
         [(''lease_expires_at'', JStr expires_text),
          (''recovery'', JObj [(''tool'', JStr ''sop_handoff_claim''),
             (''arguments'', JObj [(''handoff_id'', JStr i), (''consumer_id'', JStr consumer)]),
             (''guidance'', JStr ''Reclaim the expired handoff with a new lease token; the stale token cannot commit.'')])])))"

definition require_lease :: "sop_call \<Rightarrow> jmap \<Rightarrow> int \<Rightarrow> bool \<Rightarrow> json op" where
  "require_lease c args now allow_expired =
     bindS (liftS (required_string (obj_get args ''handoff_id'') ''sop_handoff_id_required'' 512)) (\<lambda>i.
     bindS (liftS (required_string (obj_get args ''consumer_id'') ''sop_handoff_consumer_id_required'' 512)) (\<lambda>consumer.
     bindS (liftS (required_string (obj_get args ''lease_token'') ''sop_handoff_lease_token_required'' 512)) (\<lambda>token.
     bindS (get_handoff c i) (\<lambda>handoff.
     let status = text_or (jget handoff ''status'') in
     bindS (denyS_if (status \<noteq> ''leased'')
       (handoff_refusal ''sop_handoff_not_leased'' i [(''status'', JStr status)])) (\<lambda>_.
     bindS (denyS_if (\<not> holds_lease handoff consumer token)
       (handoff_refusal ''sop_handoff_lease_mismatch'' i
         [(''lease_owner'', jopt (jget handoff ''lease_owner''))])) (\<lambda>_.
     bindS (if allow_expired then retS () else liftS (lease_not_expired c i consumer handoff now)) (\<lambda>_.
     retS handoff)))))))"

definition handoff_renew :: "sop_call \<Rightarrow> jmap \<Rightarrow> json op" where
  "handoff_renew c args =
     transactional c (
     bindS (now_utc c) (\<lambda>now.
     bindS (require_lease c args now False) (\<lambda>handoff.
     bindS (liftS (bounded_integer_arg (obj_get args ''lease_ms'') 60000 min_lease_ms max_lease_ms
       ''sop_handoff_lease_ms_invalid'')) (\<lambda>lease_ms.
     let i = step_string handoff ''handoff_id'' in
     bindS (after_millis c now lease_ms) (\<lambda>expires.
     bindS (perform c ''sop_handoff_renew_failed'' (\<lambda>_. True)
       (update_handoffs (\<lambda>r. hf_id r = i)
         (\<lambda>r. r\<lparr>hf_lease_expires := Some (iso_text c expires), hf_updated_at := iso_text c now\<rparr>))) (\<lambda>_.
     bindS (get_handoff c i) (\<lambda>renewed.
     retS (set_step ''lease_remaining_ms'' (jint lease_ms)
       (set_step ''lease_ms'' (jint lease_ms) (public_handoff renewed True))))))))))"

definition free_row :: "string \<Rightarrow> string option \<Rightarrow> string \<Rightarrow> handoff_row \<Rightarrow> handoff_row" where
  "free_row status message now r =
     r\<lparr>hf_status := status, hf_lease_owner := None, hf_lease_token := None, hf_lease_expires := None,
       hf_last_error := message, hf_updated_at := now\<rparr>"

definition handoff_release :: "sop_call \<Rightarrow> jmap \<Rightarrow> json op" where
  "handoff_release c args =
     transactional c (
     bindS (now_utc c) (\<lambda>now.
     bindS (require_lease c args now True) (\<lambda>handoff.
     let i = step_string handoff ''handoff_id'' in
     bindS (liftS (optional_bounded_string (obj_get args ''error_message'')
       ''sop_handoff_error_message_too_long'' 4096)) (\<lambda>message.
     bindS (perform c ''sop_handoff_release_failed'' (\<lambda>_. True)
       (update_handoffs (\<lambda>r. hf_id r = i) (free_row ''pending'' message (iso_text c now)))) (\<lambda>_.
     bindS (get_handoff c i) (\<lambda>released. retS (public_handoff released False)))))))"

section \<open>The intent of a starting step\<close>

text \<open>\<^verbatim>\<open>None | Some(Value::Null) => d, Some(mapping) => resolve_mapping(mapping, context)?\<close>\<close>

definition mapped_or :: "json \<Rightarrow> json option \<Rightarrow> json \<Rightarrow> json + json" where
  "mapped_or d mapping context =
     (case mapping of None \<Rightarrow> Inr d | Some v \<Rightarrow> if is_null v then Inr d else resolve_mapping v context)"

definition mapped_ref :: "json option \<Rightarrow> json \<Rightarrow> string \<Rightarrow> json + json" where
  "mapped_ref mapping context field =
     (case mapping of
        None \<Rightarrow> Inr JNull
      | Some v \<Rightarrow>
          if is_null v then Inr JNull
          else bindR (resolve_mapping v context) (\<lambda>w. normalize_value_ref (Some w) field))"

definition handoff_instructions :: "host \<Rightarrow> json \<Rightarrow> json \<Rightarrow> string option \<Rightarrow> json + string" where
  "handoff_instructions h step context rendered =
     (case rendered of
        Some s \<Rightarrow> Inr s
      | None \<Rightarrow>
      case Option.bind (Option.bind (jget step ''result'') (\<lambda>r. jget r ''instructions'')) as_str of
        Some s \<Rightarrow> Inr s
      | None \<Rightarrow> render_instructions h (step_string step ''instructions'') context)"

definition handoff_parts :: "host \<Rightarrow> sop_run \<Rightarrow> json \<Rightarrow> string option \<Rightarrow> json + handoff_row" where
  "handoff_parts h run step rendered =
     (let executor = step_string step ''executor''; i = step_string step ''step_id'';
          context = value_context run in
      bindR (refuse_if (executor \<notin> {''agent'', ''operator''})
        (diagnostic ''sop_step_not_manual_handoff'' (''sop_step_not_manual_handoff:'' @ i)
          (JObj [(''executor'', JStr executor)]))) (\<lambda>_.
      bindR (mapped_or (JObj []) (jget step ''input'') context) (\<lambda>value_in.
      bindR (assert_bound h value_in ''sop_handoff_input'' max_inline_value_bytes) (\<lambda>_.
      bindR (mapped_ref (jget step ''input_ref'') context ''sop_handoff_input_ref'') (\<lambda>ref_in.
      bindR (handoff_instructions h step context rendered) (\<lambda>instructions.
      let title = step_string step ''title''; schema = value_or JNull (jget step ''result_schema'');
          identity = step_identity (run_id run) i in
      Inr \<lparr>hf_id = deterministic_id h ''soh_'' identity, hf_run = run_id run, hf_step = i,
        hf_occurrence = deterministic_id h ''sop_handoff_'' identity, hf_sop_id = run_sop_id run,
        hf_version = run_version run, hf_executor = executor, hf_title = title,
        hf_instructions = instructions, hf_input = canonicalize value_in,
        hf_input_ref = null_column ref_in, hf_result_schema = null_column schema,
        hf_request_fp = fingerprint h (handoff_request (run_id run) i (run_sop_id run)
          (run_version run) executor title instructions value_in ref_in schema),
        hf_status = ''pending'', hf_lease_owner = None, hf_lease_token = None, hf_lease_expires = None,
        hf_attempts = 0, hf_last_error = None, hf_completion_key = None, hf_completion_fp = None,
        hf_principal = None, hf_result = JObj [], hf_result_ref = None, hf_error = None,
        hf_created_at = [], hf_updated_at = [], hf_completed_at = None\<rparr>))))))"

definition insert_handoff :: "sop_call \<Rightarrow> handoff_row \<Rightarrow> unit op" where
  "insert_handoff c row =
     perform c ''sop_handoff_insert_failed''
       (\<lambda>d. handoff_checks (jlib c) row \<and> handoff_fresh d row) (\<lambda>d. d\<lparr>handoffs := handoffs d @ [row]\<rparr>)"

definition ensure_handoff_intent :: "sop_call \<Rightarrow> sop_run \<Rightarrow> json \<Rightarrow> string option \<Rightarrow> json op" where
  "ensure_handoff_intent c run step rendered =
     bindS (liftS (handoff_parts (jlib c) run step rendered)) (\<lambda>row.
     bindS (query c ''sop_handoff_query_failed'' (\<lambda>d. find_step_handoff d (run_id run) (hf_step row))) (\<lambda>found.
     case found of
       Some r \<Rightarrow>
         bindS (get_handoff c (hf_id r)) (\<lambda>existing.
         bindS (denyS_if (\<not> member_is existing ''handoff_id'' (hf_id row) \<or>
             \<not> member_is existing ''request_fingerprint'' (hf_request_fp row))
           (diagnostic ''sop_handoff_intent_conflict'' ''sop_handoff_intent_conflict''
             (JObj [(''run_id'', JStr (run_id run)), (''step_id'', JStr (hf_step row))]))) (\<lambda>_.
         retS existing))
     | None \<Rightarrow>
         bindS (now_iso c) (\<lambda>now.
         bindS (insert_handoff c (row\<lparr>hf_created_at := now, hf_updated_at := now\<rparr>)) (\<lambda>_.
         get_handoff c (hf_id row)))))"

section \<open>Completion\<close>

record completion =
  cp_key :: string
  cp_outcome :: string
  cp_principal :: string
  cp_result :: json
  cp_result_ref :: json
  cp_error :: "string option"

definition completion_fp :: "host \<Rightarrow> completion \<Rightarrow> string" where
  "completion_fp h p =
     fingerprint h (completion_value (Some (cp_key p)) (cp_outcome p) (Some (cp_principal p))
       (cp_result p) (cp_result_ref p) (cp_error p))"

definition complete_row :: "host \<Rightarrow> completion \<Rightarrow> string \<Rightarrow> handoff_row \<Rightarrow> handoff_row" where
  "complete_row h p now r =
     r\<lparr>hf_status := cp_outcome p, hf_lease_owner := None, hf_lease_token := None,
       hf_lease_expires := None, hf_completion_key := Some (cp_key p),
       hf_completion_fp := Some (completion_fp h p), hf_principal := Some (cp_principal p),
       hf_result := canonicalize (cp_result p), hf_result_ref := null_column (cp_result_ref p),
       hf_error := cp_error p, hf_updated_at := now, hf_completed_at := Some now\<rparr>"

definition lease_expired_at :: "sop_call \<Rightarrow> string \<Rightarrow> string \<Rightarrow> bool" where
  "lease_expired_at c expires now =
     (case (read_iso c expires, read_iso c now) of (Some e, Some n) \<Rightarrow> e \<le> n | _ \<Rightarrow> True)"

text \<open>The reply, and whether the completion was already recorded.\<close>

definition complete_handoff ::
    "sop_call \<Rightarrow> string \<Rightarrow> string \<Rightarrow> string \<Rightarrow> string \<Rightarrow> string \<Rightarrow> completion \<Rightarrow> (json \<times> bool) op" where
  "complete_handoff c i run step consumer token p =
     bindS (get_handoff c i) (\<lambda>handoff.
     bindS (denyS_if (\<not> member_is handoff ''run_id'' run \<or> \<not> member_is handoff ''step_id'' step)
       (handoff_refusal ''sop_handoff_run_binding_mismatch'' i
         [(''run_id'', JStr run), (''step_id'', JStr step)])) (\<lambda>_.
     case Option.bind (jget handoff ''completion_fingerprint'') as_str of
       Some recorded \<Rightarrow>
         if member_is handoff ''completion_key'' (cp_key p) \<and> recorded = completion_fp (jlib c) p
         then retS (handoff, True)
         else denyS (handoff_refusal ''sop_handoff_completion_conflict'' i
           [(''recorded_completion_key'', jopt (jget handoff ''completion_key'')),
            (''supplied_completion_key'', JStr (cp_key p))])
     | None \<Rightarrow>
         bindS (denyS_if (\<not> member_is handoff ''status'' ''leased'')
           (handoff_refusal ''sop_handoff_not_leased'' i [(''status'', jopt (jget handoff ''status''))])) (\<lambda>_.
         bindS (denyS_if (\<not> holds_lease handoff consumer token)
           (handoff_refusal ''sop_handoff_lease_mismatch'' i
             [(''lease_owner'', jopt (jget handoff ''lease_owner''))])) (\<lambda>_.
         let expires = step_string handoff ''lease_expires_at'' in
         bindS (now_iso c) (\<lambda>checked.
         bindS (denyS_if (lease_expired_at c expires checked)
           (handoff_refusal ''sop_handoff_lease_expired'' i [(''lease_expires_at'', JStr expires)])) (\<lambda>_.
         bindS (now_iso c) (\<lambda>now.
         bindS (perform c ''sop_handoff_update_failed''
           (\<lambda>d. list_all (handoff_checks (jlib c))
             (map (complete_row (jlib c) p now) (filter (\<lambda>r. hf_id r = i) (handoffs d))))
           (update_handoffs (\<lambda>r. hf_id r = i) (complete_row (jlib c) p now))) (\<lambda>_.
         bindS (get_handoff c i) (\<lambda>completed. retS (completed, False))))))))))"

end
