(* ===== verification/Sop_Actions.thy ===== *)
theory Sop_Actions
  imports Sop_Handoffs
begin

text \<open>
  Actions: the tool call of another surface that a step asks for. Reading a row with its checks,
  the intent that a starting step records, and the check that a recorded action belongs to its step
  (\<^verbatim>\<open>sop_engine/parts/10.rs\<close> and the end of \<^verbatim>\<open>14.rs\<close>).
\<close>

definition action_request :: "string \<Rightarrow> string \<Rightarrow> json \<Rightarrow> json" where
  "action_request surface tool arguments =
     JObj [(''surface_id'', JStr surface), (''tool_name'', JStr tool), (''arguments'', arguments)]"

definition action_completion ::
    "string option \<Rightarrow> string \<Rightarrow> string option \<Rightarrow> json \<Rightarrow> json \<Rightarrow> string option \<Rightarrow> json" where
  "action_completion key outcome operation result result_ref message =
     JObj [(''completion_key'', jopt_str key), (''outcome'', JStr outcome),
       (''operation_ref'', jopt_str operation), (''result'', result), (''result_ref'', result_ref),
       (''error_message'', jopt_str message)]"

definition action_text :: "json \<Rightarrow> string \<Rightarrow> nat \<Rightarrow> json + string" where
  "action_text row k bound = required_string (jget row k) ''sop_action_corrupt'' bound"

definition action_field :: "string \<Rightarrow> json" where
  "action_field k =
     diagnostic ''sop_action_corrupt'' ''sop_action_corrupt'' (JObj [(''field'', JStr k)])"

definition check_action_identity :: "host \<Rightarrow> string \<Rightarrow> string \<Rightarrow> string \<Rightarrow> string \<Rightarrow> json + unit" where
  "check_action_identity h run step i occurrence =
     (let expected = deterministic_id h ''soa_'' (step_identity run step);
          expected_key = deterministic_id h ''sop_action_'' (step_identity run step) in
      refuse_if (i \<noteq> expected \<or> occurrence \<noteq> expected_key)
        (diagnostic ''sop_action_identity_mismatch'' (''sop_action_identity_mismatch:'' @ i)
          (JObj [(''action_id'', JStr i), (''expected_action_id'', JStr expected),
            (''occurrence_key'', JStr occurrence), (''expected_occurrence_key'', JStr expected_key)])))"

definition check_action_completion ::
    "host \<Rightarrow> string \<Rightarrow> string \<Rightarrow> string option \<Rightarrow> string option \<Rightarrow> string option \<Rightarrow> json \<Rightarrow> json
      \<Rightarrow> string option \<Rightarrow> json + unit" where
  "check_action_completion h i status key fp operation result result_ref message =
     (let refusal = diagnostic ''sop_action_completion_identity_invalid''
            ''sop_action_completion_identity_invalid''
            (JObj [(''action_id'', JStr i), (''status'', JStr status)]) in
      case fp of
        Some recorded \<Rightarrow>
          bindR (refuse_if (key = None \<or> operation = None \<or> status \<notin> {''completed'', ''failed''}) refusal) (\<lambda>_.
          refuse_if (recorded \<noteq> fingerprint h (action_completion key status operation result result_ref message))
            (diagnostic ''sop_action_completion_fingerprint_mismatch''
              ''sop_action_completion_fingerprint_mismatch'' (JObj [(''action_id'', JStr i)])))
      | None \<Rightarrow>
          refuse_if (key \<noteq> None \<or> operation \<noteq> None \<or> status \<in> {''completed'', ''failed''}) refusal)"

definition hydrate_action :: "host \<Rightarrow> json \<Rightarrow> json + json" where
  "hydrate_action h row =
     bindR (ok_or (as_object row) (diagnostic ''sop_action_corrupt'' ''sop_action_corrupt'' (JObj []))) (\<lambda>_.
     bindR (action_text row ''action_id'' 512) (\<lambda>i.
     bindR (action_text row ''run_id'' 512) (\<lambda>run.
     bindR (action_text row ''step_id'' 512) (\<lambda>step.
     bindR (action_text row ''occurrence_key'' 512) (\<lambda>occurrence.
     bindR (action_text row ''surface_id'' 256) (\<lambda>surface.
     bindR (action_text row ''tool_name'' 256) (\<lambda>tool.
     let arguments = value_or (JObj []) (jget row ''arguments_json'') in
     bindR (refuse_if (as_object arguments = None) (action_field ''arguments_json'')) (\<lambda>_.
     bindR (assert_bound h arguments ''sop_action_arguments'' max_inline_value_bytes) (\<lambda>_.
     bindR (action_text row ''request_fingerprint'' 512) (\<lambda>request_fp.
     bindR (check_action_identity h run step i occurrence) (\<lambda>_.
     bindR (refuse_if (request_fp \<noteq> fingerprint h (action_request surface tool arguments))
       (diagnostic ''sop_action_request_fingerprint_mismatch''
         (''sop_action_request_fingerprint_mismatch:'' @ i)
         (JObj [(''action_id'', JStr i), (''expected'', JStr request_fp),
           (''actual'', JStr (fingerprint h (action_request surface tool arguments)))]))) (\<lambda>_.
     bindR (required_string (jget row ''status'') ''sop_action_status_invalid'' 64) (\<lambda>status.
     bindR (refuse_if (status \<notin> {''pending'', ''completed'', ''failed'', ''cancelled''})
       (diagnostic ''sop_action_status_invalid'' (''sop_action_status_invalid:'' @ status) (JObj []))) (\<lambda>_.
     let key = optional_string (jget row ''completion_key'');
         fp = optional_string (jget row ''completion_fingerprint'');
         operation = optional_string (jget row ''operation_ref'');
         result = value_or (JObj []) (jget row ''result_json'') in
     bindR (refuse_if (as_object result = None) (action_field ''result_json'')) (\<lambda>_.
     bindR (normalize_value_ref (jget row ''result_ref_json'') ''sop_result_ref'') (\<lambda>result_ref.
     let message = optional_string (jget row ''error_message'') in
     bindR (check_action_completion h i status key fp operation result result_ref message) (\<lambda>_.
     Inr (JObj [(''schema'', JStr ''narada.sop.action.v1''), (''action_id'', JStr i),
       (''run_id'', JStr run), (''step_id'', JStr step), (''occurrence_key'', JStr occurrence),
       (''surface_id'', JStr surface), (''tool_name'', JStr tool), (''arguments'', arguments),
       (''request_fingerprint'', JStr request_fp), (''status'', JStr status),
       (''completion_key'', jopt_str key), (''completion_fingerprint'', jopt_str fp),
       (''operation_ref'', jopt_str operation), (''result'', result), (''result_ref'', result_ref),
       (''error_message'', jopt_str message),
       (''created_at'', value_or JNull (jget row ''created_at'')),
       (''updated_at'', value_or JNull (jget row ''updated_at'')),
       (''completed_at'', value_or JNull (jget row ''completed_at''))]))))))))))))))))))"

definition get_action :: "sop_call \<Rightarrow> string \<Rightarrow> json op" where
  "get_action c i =
     bindS (query c ''sop_action_query_failed'' (\<lambda>d. find_action d i)) (\<lambda>row.
     bindS (liftS (ok_or row
       (diagnostic ''sop_action_not_found'' (''sop_action_not_found:'' @ i) (JObj [])))) (\<lambda>r.
     liftS (hydrate_action (jlib c) (action_row_json r))))"

section \<open>The intent of a starting step\<close>

definition refuse_step :: "string \<Rightarrow> string \<Rightarrow> json" where
  "refuse_step code i = diagnostic code (code @ '':'' @ i) (JObj [])"

text \<open>The arguments of the call, with the occurrence key under the name the binding asks for.\<close>

definition keyed_arguments :: "jmap \<Rightarrow> string \<Rightarrow> string \<Rightarrow> json \<Rightarrow> json + json" where
  "keyed_arguments binding i occurrence context =
     bindR (resolve_mapping (value_or (JObj []) (obj_get binding ''arguments'')) context) (\<lambda>mapped.
     bindR (ok_or (as_object mapped) (refuse_step ''sop_action_arguments_must_be_object'' i)) (\<lambda>m.
     bindR (required_string (obj_get binding ''idempotency_key_argument'')
       ''sop_action_requires_idempotency_key_argument'' 128) (\<lambda>field.
     bindR (refuse_if (case obj_get m field of None \<Rightarrow> False | Some v \<Rightarrow> v \<noteq> JStr occurrence)
       (diagnostic ''sop_action_idempotency_argument_conflict''
         (''sop_action_idempotency_argument_conflict:'' @ i) (JObj [(''field'', JStr field)]))) (\<lambda>_.
     Inr (JObj (obj_insert field (JStr occurrence) m))))))"

definition action_parts :: "host \<Rightarrow> sop_run \<Rightarrow> json \<Rightarrow> json + action_row" where
  "action_parts h run step =
     (let i = step_string step ''step_id'' in
      bindR (ok_or (Option.bind (jget step ''action'') as_object)
        (refuse_step ''sop_action_binding_required'' i)) (\<lambda>binding.
      let identity = step_identity (run_id run) i;
          occurrence = deterministic_id h ''sop_action_'' identity in
      bindR (keyed_arguments binding i occurrence (value_context run)) (\<lambda>arguments.
      bindR (assert_bound h arguments ''sop_action_arguments'' max_inline_value_bytes) (\<lambda>_.
      bindR (required_string (obj_get binding ''surface_id'') ''sop_action_requires_surface_id'' 256) (\<lambda>surface.
      bindR (required_string (obj_get binding ''tool_name'') ''sop_action_requires_tool_name'' 256) (\<lambda>tool.
      Inr \<lparr>ac_id = deterministic_id h ''soa_'' identity, ac_run = run_id run, ac_step = i,
        ac_occurrence = occurrence, ac_surface = surface, ac_tool = tool,
        ac_arguments = canonicalize arguments,
        ac_request_fp = fingerprint h (action_request surface tool arguments),
        ac_status = ''pending'', ac_completion_key = None, ac_completion_fp = None,
        ac_operation_ref = None, ac_result = JObj [], ac_result_ref = None, ac_error = None,
        ac_created_at = [], ac_updated_at = [], ac_completed_at = None\<rparr>))))))"

definition insert_action :: "sop_call \<Rightarrow> action_row \<Rightarrow> unit op" where
  "insert_action c row =
     perform c ''sop_action_insert_failed'' (\<lambda>d. action_fresh d row)
       (\<lambda>d. d\<lparr>actions := actions d @ [row]\<rparr>)"

definition ensure_action_intent :: "sop_call \<Rightarrow> sop_run \<Rightarrow> json \<Rightarrow> json op" where
  "ensure_action_intent c run step =
     bindS (liftS (action_parts (jlib c) run step)) (\<lambda>row.
     bindS (query c ''sop_action_query_failed'' (\<lambda>d. find_step_action d (run_id run) (ac_step row))) (\<lambda>found.
     case found of
       Some r \<Rightarrow>
         bindS (get_action c (ac_id r)) (\<lambda>existing.
         bindS (denyS_if (\<not> member_is existing ''action_id'' (ac_id row) \<or>
             \<not> member_is existing ''request_fingerprint'' (ac_request_fp row))
           (diagnostic ''sop_action_intent_conflict''
             (''sop_action_intent_conflict:'' @ run_id run @ '':'' @ ac_step row) (JObj []))) (\<lambda>_.
         retS existing))
     | None \<Rightarrow>
         bindS (now_iso c) (\<lambda>now.
         bindS (insert_action c (row\<lparr>ac_created_at := now, ac_updated_at := now\<rparr>)) (\<lambda>_.
         get_action c (ac_id row)))))"

section \<open>The binding of an action to its step\<close>

definition same_text :: "json option \<Rightarrow> json option \<Rightarrow> bool" where
  "same_text v w \<longleftrightarrow> Option.bind v as_str = Option.bind w as_str"

definition assert_action_run_binding :: "sop_run \<Rightarrow> json \<Rightarrow> json \<Rightarrow> json + unit" where
  "assert_action_run_binding run step action =
     (let i = step_string step ''step_id''; binding = Option.bind (jget step ''action'') as_object;
          bound = (\<lambda>k. Option.bind binding (\<lambda>m. obj_get m k));
          valid = (binding \<noteq> None \<and> same_text (jget step ''action_id'') (jget action ''action_id'') \<and>
            member_is action ''run_id'' (run_id run) \<and> member_is action ''step_id'' i \<and>
            same_text (bound ''surface_id'') (jget action ''surface_id'') \<and>
            same_text (bound ''tool_name'') (jget action ''tool_name'')) in
      refuse_if (\<not> valid)
        (diagnostic ''sop_action_run_binding_mismatch''
          (''sop_action_run_binding_mismatch:'' @ run_id run @ '':'' @ i)
          (JObj [(''run_id'', JStr (run_id run)), (''step_id'', JStr i),
            (''action_id'', jopt (jget action ''action_id''))])))"

end
