(* ===== verification/Sop_Outbox.thy ===== *)
theory Sop_Outbox
  imports Sop_Actions
begin

text \<open>
  The outbox of terminal runs: the event that a run leaves when it ends
  (\<open>put_terminal_outbox\<close>, \<^verbatim>\<open>sop_engine/parts/15.rs\<close>), the taking back of an event nobody has seen
  when a step is retried (\<^verbatim>\<open>03.rs\<close>), and the consumers: registration, acknowledgement and compaction
  (\<^verbatim>\<open>sop_authority/parts/05.rs\<close> to \<^verbatim>\<open>07.rs\<close>).
\<close>

definition max_outbox_payload_bytes :: nat where
  "max_outbox_payload_bytes = 16384"

definition max_outbox_receipt_bytes :: nat where
  "max_outbox_receipt_bytes = 8192"

definition sop_terminal_topic :: string where
  "sop_terminal_topic = ''sop.run.terminal.v1''"

section \<open>Reading an event\<close>

definition normalize_outbox_topic :: "string \<Rightarrow> json + string" where
  "normalize_outbox_topic s =
     (let topic = trim s in
      bindR (refuse_if (topic = [])
        (diagnostic ''sop_outbox_topic_required'' ''sop_outbox_topic_required'' (JObj []))) (\<lambda>_.
      bindR (refuse_if (256 < char_count topic)
        (diagnostic ''sop_outbox_topic_required_too_long'' ''sop_outbox_topic_required_too_long''
          (JObj [(''max_length'', jnat 256)]))) (\<lambda>_.
      bindR (refuse_if (topic \<noteq> sop_terminal_topic)
        (diagnostic ''sop_outbox_topic_unsupported'' ''sop_outbox_topic_unsupported''
          (JObj [(''topic'', JStr topic), (''allowed'', JArr [JStr sop_terminal_topic])]))) (\<lambda>_.
      Inr topic))))"

definition normalize_timestamp :: "sop_call \<Rightarrow> string \<Rightarrow> string \<Rightarrow> json + string" where
  "normalize_timestamp c s code =
     ok_or (map_option (iso_text c) (read_iso c s))
       (diagnostic code code (JObj [(''value'', JStr s)]))"

definition outbox_text :: "json \<Rightarrow> string \<Rightarrow> json + string" where
  "outbox_text row k = required_string (jget row k) ''sop_outbox_event_corrupt'' 512"

definition hydrate_outbox_event :: "host \<Rightarrow> json \<Rightarrow> json + json" where
  "hydrate_outbox_event h row =
     bindR (ok_or (as_object row)
       (diagnostic ''sop_outbox_event_corrupt'' ''sop_outbox_event_corrupt'' (JObj []))) (\<lambda>_.
     bindR (required_string (jget row ''outcome'') ''sop_outbox_event_corrupt'' 64) (\<lambda>outcome.
     bindR (refuse_if (outcome \<notin> {''completed'', ''failed'', ''cancelled''})
       (diagnostic ''sop_outbox_outcome_corrupt'' ''sop_outbox_outcome_corrupt''
         (JObj [(''outcome'', JStr outcome)]))) (\<lambda>_.
     bindR (normalize_outbox_topic (text_or (jget row ''topic''))) (\<lambda>topic.
     let payload = jopt (jget row ''payload_json'') in
     bindR (refuse_if (as_object payload = None)
       (diagnostic ''sop_outbox_payload_corrupt'' ''sop_outbox_payload_corrupt'' (JObj []))) (\<lambda>_.
     bindR (assert_bound h payload ''sop_outbox_payload'' max_outbox_payload_bytes) (\<lambda>_.
     bindR (outbox_text row ''event_id'') (\<lambda>i.
     bindR (outbox_text row ''partition_key'') (\<lambda>partition.
     bindR (outbox_text row ''run_id'') (\<lambda>run.
     bindR (outbox_text row ''sop_id'') (\<lambda>sop.
     bindR (positive_integer_member (jget row ''sop_version'') ''sop_outbox_event_corrupt'') (\<lambda>version.
     bindR (outbox_text row ''occurrence_key'') (\<lambda>occurrence.
     bindR (outbox_text row ''created_at'') (\<lambda>created.
     bindR (outbox_text row ''available_at'') (\<lambda>available.
     Inr (JObj [(''schema'', JStr ''narada.sop.outbox_event.v1''), (''event_id'', JStr i),
       (''topic'', JStr topic), (''partition_key'', JStr partition), (''run_id'', JStr run),
       (''sop_id'', JStr sop), (''sop_version'', jint version), (''occurrence_key'', JStr occurrence),
       (''outcome'', JStr outcome), (''payload'', payload), (''created_at'', JStr created),
       (''available_at'', JStr available),
       (''compacted_at'', jopt_str (optional_string (jget row ''compacted_at'')))])))))))))))))))"

definition find_event :: "sop_db \<Rightarrow> string \<Rightarrow> outbox_row option" where
  "find_event d i = find (\<lambda>r. ob_id r = i) (outbox d)"

definition require_outbox_event :: "sop_call \<Rightarrow> string \<Rightarrow> json op" where
  "require_outbox_event c i =
     bindS (query c ''sop_outbox_query_failed'' (\<lambda>d. find_event d i)) (\<lambda>row.
     bindS (liftS (ok_or row
       (diagnostic ''sop_outbox_event_not_found'' ''sop_outbox_event_not_found''
         (JObj [(''event_id'', JStr i)])))) (\<lambda>r.
     liftS (hydrate_outbox_event (jlib c) (outbox_row_json r))))"

section \<open>The event of a terminal run\<close>

definition procedure_outcome :: "sop_run \<Rightarrow> json + string" where
  "procedure_outcome run =
     (if run_status run = ''completed'' then
        (case Option.bind (jget (run_output run) ''outcome'') as_str of
           Some s \<Rightarrow>
             bindR (refuse_if (s = [] \<or> 128 < char_count s)
               (diagnostic ''sop_outbox_procedure_outcome_invalid''
                 ''sop_outbox_procedure_outcome_invalid'' (JObj [(''value'', JStr s)]))) (\<lambda>_. Inr s)
         | None \<Rightarrow> Inr (run_status run))
      else Inr (run_status run))"

definition outbox_payload :: "sop_run \<Rightarrow> string \<Rightarrow> string \<Rightarrow> string \<Rightarrow> json" where
  "outbox_payload run i outcome created =
     JObj [(''schema'', JStr ''narada.sop.run_terminal.v2''), (''event_id'', JStr i),
       (''topic'', JStr sop_terminal_topic), (''run_id'', JStr (run_id run)),
       (''sop_id'', JStr (run_sop_id run)), (''sop_version'', jint (run_version run)),
       (''occurrence_key'', JStr (run_occurrence run)), (''run_outcome'', JStr (run_status run)),
       (''outcome'', JStr outcome), (''definition_fingerprint'', JStr (run_definition_fp run)),
       (''trigger_source_kind'', JStr (run_trigger_kind run)),
       (''trigger_source_ref'', JStr (run_trigger_ref run)), (''output'', run_output run),
       (''output_ref'', run_output_ref run), (''completed_at'', JStr created)]"

definition opt_json_eq :: "json option \<Rightarrow> json option \<Rightarrow> bool" where
  "opt_json_eq v w =
     (case (v, w) of (None, None) \<Rightarrow> True | (Some a, Some b) \<Rightarrow> json_eq a b | _ \<Rightarrow> False)"

definition same_event :: "sop_run \<Rightarrow> string \<Rightarrow> json \<Rightarrow> json \<Rightarrow> bool" where
  "same_event run i payload event =
     (let stored = value_or (JObj []) (jget event ''payload'');
          compacted = (case jget event ''compacted_at'' of None \<Rightarrow> False | Some v \<Rightarrow> \<not> is_null v) in
      member_is event ''event_id'' i \<and> member_is event ''topic'' sop_terminal_topic \<and>
      member_is event ''run_id'' (run_id run) \<and> member_is event ''sop_id'' (run_sop_id run) \<and>
      Option.bind (jget event ''sop_version'') as_i64 = Some (run_version run) \<and>
      member_is event ''occurrence_key'' (run_occurrence run) \<and>
      member_is event ''outcome'' (run_status run) \<and>
      (compacted \<or>
       list_all (\<lambda>k. opt_json_eq (jget stored k) (jget payload k))
         [''definition_fingerprint'', ''trigger_source_kind'', ''trigger_source_ref'', ''run_outcome'',
          ''outcome'', ''output'', ''output_ref'']))"

definition put_terminal_outbox :: "sop_call \<Rightarrow> sop_run \<Rightarrow> unit op" where
  "put_terminal_outbox c run =
     bindS (denyS_if (\<not> is_run_terminal (run_status run))
       (diagnostic ''sop_outbox_requires_terminal_run'' ''sop_outbox_requires_terminal_run''
         (JObj [(''run_id'', JStr (run_id run)), (''status'', JStr (run_status run))]))) (\<lambda>_.
     bindS (denyS_if (as_object (run_output run) = None)
       (diagnostic ''sop_outbox_output_invalid'' ''sop_outbox_output_invalid''
         (JObj [(''run_id'', JStr (run_id run))]))) (\<lambda>_.
     let i = deterministic_id (jlib c) ''sote_'' (run_id run) in
     bindS (case run_completed run of Some t \<Rightarrow> retS t | None \<Rightarrow> now_iso c) (\<lambda>created.
     bindS (liftS (procedure_outcome run)) (\<lambda>outcome.
     let payload = outbox_payload run i outcome created in
     bindS (liftS (assert_bound (jlib c) payload ''sop_outbox_payload'' max_outbox_payload_bytes)) (\<lambda>_.
     bindS (query c ''sop_outbox_query_failed''
       (\<lambda>d. find (\<lambda>r. ob_id r = i \<or> ob_run r = run_id run) (outbox d))) (\<lambda>found.
     case found of
       Some r \<Rightarrow>
         bindS (liftS (hydrate_outbox_event (jlib c) (outbox_row_json r))) (\<lambda>event.
         denyS_if (\<not> same_event run i payload event)
           (diagnostic ''sop_outbox_event_conflict'' ''sop_outbox_event_conflict''
             (JObj [(''event_id'', JStr i), (''run_id'', JStr (run_id run))])))
     | None \<Rightarrow>
         let row = \<lparr>ob_id = i, ob_topic = sop_terminal_topic, ob_partition = run_sop_id run,
             ob_run = run_id run, ob_sop_id = run_sop_id run, ob_version = run_version run,
             ob_occurrence = run_occurrence run, ob_outcome = run_status run,
             ob_payload = canonicalize payload, ob_created_at = created, ob_available_at = created,
             ob_compacted_at = None\<rparr> in
         perform c ''sop_outbox_insert_failed''
           (\<lambda>d. outbox_checks (jlib c) row \<and> outbox_fresh d row)
           (\<lambda>d. d\<lparr>outbox := outbox d @ [row]\<rparr>)))))))"

section \<open>Taking an event back\<close>

text \<open>The event of the run, taken out unless a consumer has seen it or it was compacted.\<close>

definition reopen_terminal_outbox_for_retry :: "sop_call \<Rightarrow> string \<Rightarrow> string option op" where
  "reopen_terminal_outbox_for_retry c run =
     bindS (query c ''sop_outbox_query_failed'' (\<lambda>d. find (\<lambda>r. ob_run r = run) (outbox d))) (\<lambda>found.
     case found of
       None \<Rightarrow> retS None
     | Some r \<Rightarrow>
         bindS (liftS (required_string (Some (JStr (ob_id r))) ''sop_outbox_event_id_invalid'' 512)) (\<lambda>i.
         bindS (query c ''sop_outbox_receipt_query_failed''
           (\<lambda>d. list_ex (\<lambda>q. rc_event q = i) (receipts d))) (\<lambda>consumed.
         let compacted = ob_compacted_at r \<noteq> None in
         bindS (denyS_if (consumed \<or> compacted)
           (diagnostic ''sop_outbox_retry_requires_new_run'' ''sop_outbox_retry_requires_new_run''
             (JObj [(''event_id'', JStr i), (''run_id'', JStr run), (''consumed'', JBool consumed),
               (''compacted'', JBool compacted)]))) (\<lambda>_.
         bindS (perform c ''sop_outbox_delete_failed''
           (\<lambda>d. list_all (\<lambda>q. rc_event q \<noteq> i \<or> \<not> list_ex (\<lambda>r. ob_id r = i \<and> ob_run r = run) (outbox d))
              (receipts d))
           (\<lambda>d. d\<lparr>outbox := filter (\<lambda>r. \<not> (ob_id r = i \<and> ob_run r = run)) (outbox d)\<rparr>)) (\<lambda>_.
         retS (Some i))))))"

section \<open>Consumers\<close>

definition consumer_reply :: "string \<Rightarrow> string \<Rightarrow> string \<Rightarrow> string \<Rightarrow> bool \<Rightarrow> json" where
  "consumer_reply topic consumer start registered replayed =
     JObj [(''schema'', JStr ''narada.sop.outbox_consumer.v1''), (''topic'', JStr topic),
       (''consumer_id'', JStr consumer), (''start_at'', JStr start),
       (''registered_at'', JStr registered), (''registration_replayed'', JBool replayed)]"

definition find_requirement :: "sop_db \<Rightarrow> string \<Rightarrow> string \<Rightarrow> requirement_row option" where
  "find_requirement d topic consumer =
     find (\<lambda>q. rq_topic q = topic \<and> rq_consumer q = consumer) (requirements d)"

definition first_compacted :: "sop_db \<Rightarrow> string \<Rightarrow> string \<Rightarrow> outbox_row option" where
  "first_compacted d topic start =
     (case sort_key ob_created_at (filter (\<lambda>r. ob_topic r = topic \<and> start \<le> ob_created_at r \<and>
         ob_compacted_at r \<noteq> None) (outbox d)) of [] \<Rightarrow> None | r # _ \<Rightarrow> Some r)"

definition outbox_consumer_register :: "sop_call \<Rightarrow> jmap \<Rightarrow> json op" where
  "outbox_consumer_register c args =
     transactional c (
     bindS (liftS (normalize_outbox_topic (case optional_string (obj_get args ''topic'') of
         None \<Rightarrow> sop_terminal_topic | Some s \<Rightarrow> s))) (\<lambda>topic.
     bindS (liftS (required_string (obj_get args ''consumer_id'') ''sop_outbox_consumer_id_required'' 512)) (\<lambda>consumer.
     bindS (now_utc c) (\<lambda>now.
     bindS (liftS (case optional_string (obj_get args ''start_at'') of
         Some s \<Rightarrow> normalize_timestamp c s ''sop_outbox_start_at_invalid''
       | None \<Rightarrow> Inr (iso_text c now))) (\<lambda>start.
     bindS (query c ''sop_outbox_consumer_query_failed'' (\<lambda>d. find_requirement d topic consumer)) (\<lambda>found.
     case found of
       Some q \<Rightarrow>
         bindS (denyS_if (rq_start_at q \<noteq> start)
           (diagnostic ''sop_outbox_consumer_registration_conflict''
             ''sop_outbox_consumer_registration_conflict''
             (JObj [(''topic'', JStr topic), (''consumer_id'', JStr consumer),
               (''recorded_start_at'', JStr (rq_start_at q)), (''supplied_start_at'', JStr start)]))) (\<lambda>_.
         retS (consumer_reply (rq_topic q) (rq_consumer q) (rq_start_at q) (rq_registered_at q) True))
     | None \<Rightarrow>
         bindS (query c ''sop_outbox_query_failed'' (\<lambda>d. first_compacted d topic start)) (\<lambda>compacted.
         bindS (case compacted of
             None \<Rightarrow> retS ()
           | Some r \<Rightarrow> denyS (diagnostic ''sop_outbox_registration_history_compacted''
               ''sop_outbox_registration_history_compacted''
               (JObj [(''topic'', JStr topic), (''consumer_id'', JStr consumer),
                 (''start_at'', JStr start), (''first_compacted_event_id'', JStr (ob_id r)),
                 (''first_compacted_event_created_at'', JStr (ob_created_at r))]))) (\<lambda>_.
         let row = \<lparr>rq_topic = topic, rq_consumer = consumer, rq_start_at = start,
             rq_registered_at = iso_text c now\<rparr> in
         bindS (perform c ''sop_outbox_consumer_insert_failed'' (\<lambda>d. requirement_fresh d row)
           (\<lambda>d. d\<lparr>requirements := requirements d @ [row]\<rparr>)) (\<lambda>_.
         retS (consumer_reply topic consumer start (iso_text c now) False))))))))))"

definition ack_reply :: "string \<Rightarrow> string \<Rightarrow> string \<Rightarrow> bool \<Rightarrow> json" where
  "ack_reply i consumer processed replayed =
     JObj [(''schema'', JStr ''narada.sop.outbox_ack.v1''), (''event_id'', JStr i),
       (''consumer_id'', JStr consumer), (''processed_at'', JStr processed),
       (''acknowledgement_replayed'', JBool replayed)]"

definition ack_receipt :: "host \<Rightarrow> jmap \<Rightarrow> json + json" where
  "ack_receipt h args =
     (let refusal = diagnostic ''sop_outbox_receipt_must_be_object''
            ''sop_outbox_receipt_must_be_object'' (JObj []) in
      bindR (ok_or (obj_get args ''receipt'') refusal) (\<lambda>receipt.
      bindR (refuse_if (as_object receipt = None) refusal) (\<lambda>_.
      bindR (assert_bound h receipt ''sop_outbox_receipt'' max_outbox_receipt_bytes) (\<lambda>_. Inr receipt))))"

definition event_consumer :: "string \<Rightarrow> string \<Rightarrow> (string \<times> json) list \<Rightarrow> string \<Rightarrow> json" where
  "event_consumer i consumer extra code =
     diagnostic code code (JObj ([(''event_id'', JStr i), (''consumer_id'', JStr consumer)] @ extra))"

definition store_receipt :: "sop_call \<Rightarrow> string \<Rightarrow> string \<Rightarrow> json \<Rightarrow> json op" where
  "store_receipt c i consumer receipt =
     bindS (query c ''sop_outbox_receipt_query_failed''
       (\<lambda>d. find (\<lambda>q. rc_event q = i \<and> rc_consumer q = consumer) (receipts d))) (\<lambda>found.
     case found of
       Some q \<Rightarrow>
         bindS (denyS_if (as_object (rc_receipt q) = None)
           (event_consumer i consumer [] ''sop_outbox_receipt_corrupt'')) (\<lambda>_.
         bindS (denyS_if (sop_canonical (jlib c) (rc_receipt q) \<noteq> sop_canonical (jlib c) receipt)
           (event_consumer i consumer [] ''sop_outbox_receipt_conflict'')) (\<lambda>_.
         retS (ack_reply i consumer (rc_processed_at q) True)))
     | None \<Rightarrow>
         bindS (now_iso c) (\<lambda>processed.
         let row = \<lparr>rc_event = i, rc_consumer = consumer, rc_processed_at = processed,
             rc_receipt = canonicalize receipt\<rparr> in
         bindS (perform c ''sop_outbox_receipt_insert_failed''
           (\<lambda>d. length (sop_canonical (jlib c) receipt) \<le> 8192 \<and> receipt_fresh d row)
           (\<lambda>d. d\<lparr>receipts := receipts d @ [row]\<rparr>)) (\<lambda>_.
         retS (ack_reply i consumer processed False))))"

definition outbox_ack :: "sop_call \<Rightarrow> jmap \<Rightarrow> json op" where
  "outbox_ack c args =
     bindS (liftS (ack_receipt (jlib c) args)) (\<lambda>receipt.
     transactional c (
     bindS (liftS (required_string (obj_get args ''event_id'') ''sop_outbox_event_id_required'' 512)) (\<lambda>i.
     bindS (liftS (required_string (obj_get args ''consumer_id'') ''sop_outbox_consumer_id_required'' 512)) (\<lambda>consumer.
     bindS (require_outbox_event c i) (\<lambda>event.
     let topic = step_string event ''topic'' in
     bindS (query c ''sop_outbox_consumer_query_failed'' (\<lambda>d. find_requirement d topic consumer)) (\<lambda>found.
     bindS (liftS (ok_or found
       (diagnostic ''sop_outbox_consumer_not_registered'' ''sop_outbox_consumer_not_registered''
         (JObj [(''consumer_id'', JStr consumer), (''topic'', JStr topic)])))) (\<lambda>q.
     bindS (denyS_if (step_string event ''created_at'' < rq_start_at q)
       (event_consumer i consumer [(''start_at'', JStr (rq_start_at q))]
         ''sop_outbox_event_before_consumer_start'')) (\<lambda>_.
     store_receipt c i consumer receipt))))))))"

text \<open>The consumers that must have seen an event before its payload may go.\<close>

definition due_consumers :: "sop_db \<Rightarrow> outbox_row \<Rightarrow> string list" where
  "due_consumers d r =
     map rq_consumer (filter (\<lambda>q. rq_topic q = ob_topic r \<and> rq_start_at q \<le> ob_created_at r) (requirements d))"

definition compactable :: "string \<Rightarrow> sop_db \<Rightarrow> outbox_row \<Rightarrow> bool" where
  "compactable cutoff d r \<longleftrightarrow>
     ob_compacted_at r = None \<and> ob_created_at r < cutoff \<and> due_consumers d r \<noteq> [] \<and>
     list_all (\<lambda>consumer. list_ex (\<lambda>q. rc_event q = ob_id r \<and> rc_consumer q = consumer) (receipts d))
       (due_consumers d r)"

definition outbox_compact :: "sop_call \<Rightarrow> jmap \<Rightarrow> json op" where
  "outbox_compact c args =
     transactional c (
     bindS (liftS (required_string (obj_get args ''before'') ''sop_outbox_compact_before_required'' 512)) (\<lambda>limit.
     bindS (liftS (normalize_timestamp c limit ''sop_outbox_compact_before_invalid'')) (\<lambda>cutoff.
     bindS (now_iso c) (\<lambda>now.
     bindS (getS (\<lambda>d. length (filter (compactable cutoff d) (outbox d)))) (\<lambda>compacted.
     bindS (perform c ''sop_outbox_compaction_failed'' (\<lambda>_. True)
       (\<lambda>d. d\<lparr>outbox := update_rows (compactable cutoff d)
          (\<lambda>r. r\<lparr>ob_payload := JObj [], ob_compacted_at := Some now\<rparr>) (outbox d)\<rparr>)) (\<lambda>_.
     retS (JObj [(''schema'', JStr ''narada.sop.outbox_compaction.v1''), (''before'', JStr cutoff),
       (''compacted_at'', JStr now), (''compacted'', jnat compacted)])))))))"

end
