(* ===== verification/Sop_Admission.thy ===== *)
theory Sop_Admission
  imports Sop_Outbox
begin

text \<open>
  The admission of a run (\<^verbatim>\<open>sop_engine/parts/05.rs\<close> and \<^verbatim>\<open>06.rs\<close>): the template and its steps as the
  engine reads them, the snapshot of the definition with its fingerprint, the initial state of the
  steps with the versions of child procedures pinned, the refusal of recursive children, and
  \<open>admit_run\<close>, which a second request for the same occurrence only replays.
\<close>

section \<open>Templates as the engine reads them\<close>

definition persisted_executor :: "jmap \<Rightarrow> string" where
  "persisted_executor m =
     (case Option.bind (obj_get m ''executor'') as_str of
        Some x \<Rightarrow> x
      | None \<Rightarrow>
          (let kind = text_or (obj_get m ''kind'') in
           if kind = ''manual'' then ''operator'' else if kind = ''note'' then ''engine'' else kind))"

definition normalize_persisted_step :: "json \<Rightarrow> json + json" where
  "normalize_persisted_step v =
     bindR (ok_or (as_object v)
       (diagnostic ''sop_persisted_step_invalid'' ''sop_persisted_step_invalid'' (JObj []))) (\<lambda>m.
     let executor = persisted_executor m in
     bindR (refuse_if (executor \<notin> set executors)
       (diagnostic ''sop_persisted_step_executor_invalid''
         (''sop_persisted_step_executor_invalid:'' @ executor)
         (JObj [(''executor'', JStr executor), (''step_id'', jopt (obj_get m ''id''))]))) (\<lambda>_.
     bindR (required_string (obj_get m ''id'') ''sop_step_requires_id'' 128) (\<lambda>i.
     bindR (required_string (obj_get m ''title'') ''sop_step_requires_title'' 512) (\<lambda>title.
     bindR (required_string (obj_get m ''instructions'') ''sop_step_requires_instructions'' 16384) (\<lambda>instructions.
     let version = Option.bind (obj_get m ''sop_version'') as_i64 in
     Inr (JObj [(''id'', JStr i), (''executor'', JStr executor),
       (''blocking'', JBool (executor \<in> {''agent'', ''operator''})), (''title'', JStr title),
       (''depends_on'', JArr (map JStr (depends_on v))), (''instructions'', JStr instructions),
       (''when'', jopt (obj_get m ''when'')), (''input'', jopt (obj_get m ''input'')),
       (''input_ref'', jopt (obj_get m ''input_ref'')),
       (''result_schema'', jopt (obj_get m ''result_schema'')),
       (''action'', jopt (obj_get m ''action'')), (''sop_id'', jopt (obj_get m ''sop_id'')),
       (''sop_version'', jopt (map_option jint version)),
       (''wait_policy'', value_or (if executor = ''sop'' then JStr ''wait'' else JNull)
          (obj_get m ''wait_policy'')),
       (''legacy_command'', jopt (obj_get m ''command''))]))))))"

definition template_corrupt :: "(string \<times> json) list \<Rightarrow> json" where
  "template_corrupt extra = diagnostic ''sop_template_corrupt'' ''sop_template_corrupt'' (JObj extra)"

definition hydrate_template :: "json \<Rightarrow> json + json" where
  "hydrate_template row =
     bindR (ok_or (as_object row) (template_corrupt [])) (\<lambda>m.
     bindR (ok_or (Option.bind (obj_get m ''steps_json'') as_array)
       (template_corrupt [(''field'', JStr ''steps_json'')])) (\<lambda>raw.
     bindR (mapR normalize_persisted_step raw) (\<lambda>steps.
     bindR (validate_step_graph steps) (\<lambda>_.
     Inr (JObj [(''sop_id'', jopt (obj_get m ''sop_id'')), (''version'', jopt (obj_get m ''version'')),
       (''title'', jopt (obj_get m ''title'')), (''status'', jopt (obj_get m ''status'')),
       (''description'', value_or (JStr []) (obj_get m ''description'')), (''steps'', JArr steps),
       (''trigger_kind'', value_or (JStr ''manual'') (obj_get m ''trigger_kind'')),
       (''input_schema'', jopt (obj_get m ''input_schema_json'')),
       (''output'', jopt (obj_get m ''output_mapping_json'')),
       (''output_ref'', jopt (obj_get m ''output_ref_mapping_json'')),
       (''output_schema'', jopt (obj_get m ''output_schema_json'')),
       (''acceptance_criteria'', value_or (JArr []) (obj_get m ''acceptance_criteria_json'')),
       (''evidence_requirements'', value_or (JArr []) (obj_get m ''evidence_requirements_json'')),
       (''created_at'', jopt (obj_get m ''created_at'')),
       (''updated_at'', jopt (obj_get m ''updated_at''))])))))"

definition template_by_version :: "sop_call \<Rightarrow> string \<Rightarrow> int \<Rightarrow> json op" where
  "template_by_version c sop version =
     bindS (query c ''sop_template_query_failed'' (\<lambda>d. find_template d sop version)) (\<lambda>row.
     bindS (liftS (ok_or row (diagnostic ''sop_not_found''
       (''sop_not_found:'' @ sop @ ''@v'' @ show_int version) (JObj [])))) (\<lambda>r.
     liftS (hydrate_template (template_row_json r))))"

text \<open>\<^verbatim>\<open>COALESCE(MAX(version), 0)\<close>\<close>

definition max_version :: "template_row list \<Rightarrow> int" where
  "max_version rows = (if rows = [] then 0 else Max (tp_version ` set rows))"

definition latest_runnable_template_version :: "sop_call \<Rightarrow> string \<Rightarrow> int op" where
  "latest_runnable_template_version c sop =
     bindS (query c ''sop_template_query_failed''
       (\<lambda>d. max_version (filter (\<lambda>r. tp_sop_id r = sop \<and> tp_status r \<noteq> ''deprecated'') (templates d)))) (\<lambda>version.
     bindS (denyS_if (version < 1) (refuse_step ''sop_no_active_version'' sop)) (\<lambda>_. retS version))"

definition executable_definition :: "json \<Rightarrow> json" where
  "executable_definition template =
     JObj [(''schema'', JStr ''narada.sop.definition.v2''), (''sop_id'', jopt (jget template ''sop_id'')),
       (''version'', jopt (jget template ''version'')), (''title'', jopt (jget template ''title'')),
       (''steps'', jopt (jget template ''steps'')),
       (''input_schema'', jopt (jget template ''input_schema'')),
       (''output'', jopt (jget template ''output'')),
       (''output_ref'', jopt (jget template ''output_ref'')),
       (''output_schema'', jopt (jget template ''output_schema'')),
       (''acceptance_criteria'', jopt (jget template ''acceptance_criteria'')),
       (''evidence_requirements'', jopt (jget template ''evidence_requirements''))]"

definition steps_of :: "json \<Rightarrow> json list" where
  "steps_of template = (case Option.bind (jget template ''steps'') as_array of None \<Rightarrow> [] | Some xs \<Rightarrow> xs)"

definition assert_no_legacy_effects :: "json \<Rightarrow> json + unit" where
  "assert_no_legacy_effects template =
     (let legacy = List.map_filter (\<lambda>s. Option.bind (jget s ''id'') as_str)
            (filter (\<lambda>s. case jget s ''legacy_command'' of None \<Rightarrow> False | Some v \<Rightarrow> \<not> is_null v)
              (steps_of template)) in
      refuse_if (legacy \<noteq> [])
        (diagnostic ''sop_legacy_command_unsupported'' ''sop_legacy_command_unsupported''
          (JObj [(''step_ids'', JArr (map JStr legacy)),
            (''remediation'', JStr ''Replace each command step with a governed action step targeting the domain MCP surface that owns the effect.'')])))"

section \<open>The initial steps of a run\<close>

definition initial_step :: "json \<Rightarrow> string \<Rightarrow> int option \<Rightarrow> string option \<Rightarrow> json" where
  "initial_step step executor version pin =
     JObj [(''step_id'', jopt (jget step ''id'')), (''executor'', JStr executor),
       (''blocking'', jopt (jget step ''blocking'')), (''title'', jopt (jget step ''title'')),
       (''status'', JStr ''pending''), (''depends_on'', jopt (jget step ''depends_on'')),
       (''instructions'', jopt (jget step ''instructions'')), (''when'', jopt (jget step ''when'')),
       (''input'', jopt (jget step ''input'')), (''input_ref'', jopt (jget step ''input_ref'')),
       (''result_schema'', jopt (jget step ''result_schema'')), (''action'', jopt (jget step ''action'')),
       (''sop_id'', jopt (jget step ''sop_id'')), (''sop_version'', jopt (map_option jint version)),
       (''wait_policy'', jopt (jget step ''wait_policy'')),
       (''pinned_child_definition_fingerprint'', jopt_str pin), (''child_run_id'', JNull),
       (''action_id'', JNull), (''started_at'', JNull), (''completed_at'', JNull),
       (''result'', JObj []), (''result_ref'', JNull), (''completion_key'', JNull),
       (''completion_fingerprint'', JNull), (''error_message'', JNull)]"

definition initialize_step :: "sop_call \<Rightarrow> json \<Rightarrow> json op" where
  "initialize_step c step =
     (let executor = step_string step ''executor'';
          version = Option.bind (jget step ''sop_version'') as_i64 in
      if executor = ''sop'' then
        bindS (liftS (required_string (jget step ''sop_id'') ''sop_step_requires_child_sop_id'' 256)) (\<lambda>sop.
        bindS (case version of Some v \<Rightarrow> retS v | None \<Rightarrow> latest_runnable_template_version c sop) (\<lambda>v.
        bindS (template_by_version c sop v) (\<lambda>child.
        bindS (liftS (assert_no_legacy_effects child)) (\<lambda>_.
        retS (initial_step step executor (Some v)
          (Some (fingerprint (jlib c) (executable_definition child))))))))
      else retS (initial_step step executor version None))"

definition initialize_step_states :: "sop_call \<Rightarrow> json \<Rightarrow> json list op" where
  "initialize_step_states c template =
     bindS (liftS (ok_or (Option.bind (jget template ''steps'') as_array)
       (diagnostic ''sop_definition_steps_invalid'' ''sop_definition_steps_invalid'' (JObj [])))) (\<lambda>steps.
     mapS (initialize_step c) steps)"

section \<open>Recursive children\<close>

text \<open>The loop over the parents of a run, with fuel: one more than the number of runs, since the loop
  refuses a run that it has seen.\<close>

fun parent_chain ::
    "sop_call \<Rightarrow> string \<Rightarrow> int \<Rightarrow> nat \<Rightarrow> string option \<Rightarrow> string list \<Rightarrow> json list \<Rightarrow> unit op" where
  "parent_chain c sop version n None seen chain = retS ()"
| "parent_chain c sop version 0 (Some i) seen chain = stopS Unfinished"
| "parent_chain c sop version (Suc n) (Some i) seen chain =
     bindS (denyS_if (i \<in> set seen) (refuse_step ''sop_parent_chain_cycle'' i)) (\<lambda>_.
     bindS (get_run c i) (\<lambda>run.
     let chain' = chain @ [JObj [(''run_id'', JStr (run_id run)), (''sop_id'', JStr (run_sop_id run)),
           (''sop_version'', jint (run_version run))]] in
     bindS (denyS_if (run_sop_id run = sop)
       (diagnostic ''sop_recursive_child_occurrence''
         (''sop_recursive_child_occurrence:'' @ sop @ ''@v'' @ show_int version)
         (JObj [(''ancestor_chain'', JArr chain')]))) (\<lambda>_.
     parent_chain c sop version n (run_parent run) (i # seen) chain')))"

definition assert_no_recursive_child :: "sop_call \<Rightarrow> string \<Rightarrow> string \<Rightarrow> int \<Rightarrow> unit op" where
  "assert_no_recursive_child c parent sop version =
     bindS (getS (\<lambda>d. Suc (length (runs d)))) (\<lambda>n. parent_chain c sop version n (Some parent) [] [])"

section \<open>Admission\<close>

record admission =
  ad_sop_id :: string
  ad_occurrence :: string
  ad_triggered_by :: string
  ad_kind :: string
  ad_trigger :: string
  ad_input :: json
  ad_input_ref :: json

definition read_admission :: "host \<Rightarrow> jmap \<Rightarrow> json + admission" where
  "read_admission h args =
     bindR (required_string (obj_get args ''sop_id'') ''sop_requires_sop_id'' 256) (\<lambda>sop.
     bindR (required_string (obj_get args ''occurrence_key'') ''sop_requires_occurrence_key'' 512) (\<lambda>occurrence.
     bindR (required_string (obj_get args ''triggered_by'') ''sop_requires_triggered_by'' 512) (\<lambda>by.
     bindR (if null_or_missing (obj_get args ''trigger_source_kind'') then Inr ''manual''
       else required_string (obj_get args ''trigger_source_kind'') ''sop_requires_trigger_source_kind'' 128) (\<lambda>kind.
     let trigger = (case optional_string (obj_get args ''trigger_source_ref'') of None \<Rightarrow> [] | Some s \<Rightarrow> s) in
     bindR (refuse_if (2048 < char_count trigger)
       (diagnostic ''sop_trigger_source_ref_too_long'' ''sop_trigger_source_ref_too_long''
         (JObj [(''max_length'', jnat 2048)]))) (\<lambda>_.
     let value_in = value_or (JObj []) (obj_get args ''input'') in
     bindR (assert_bound h value_in ''sop_input'' max_inline_value_bytes) (\<lambda>_.
     bindR (refuse_if (as_object value_in = None)
       (diagnostic ''sop_input_must_be_object'' ''sop_input_must_be_object'' (JObj []))) (\<lambda>_.
     bindR (normalize_value_ref (obj_get args ''input_ref'') ''sop_input_ref'') (\<lambda>ref_in.
     Inr \<lparr>ad_sop_id = sop, ad_occurrence = occurrence, ad_triggered_by = by, ad_kind = kind,
       ad_trigger = trigger, ad_input = value_in, ad_input_ref = ref_in\<rparr>))))))))"

definition wanted_version :: "host \<Rightarrow> json option \<Rightarrow> json + int option" where
  "wanted_version h v =
     (case v of
        None \<Rightarrow> Inr None
      | Some w \<Rightarrow>
          if is_null w then Inr None
          else
            bindR (ok_or (as_i64 w) (refuse_step ''sop_invalid_version'' (scalar_text h w))) (\<lambda>i.
            bindR (refuse_if (i < 1) (refuse_step ''sop_invalid_version'' (show_int i))) (\<lambda>_.
            Inr (Some i))))"

definition admission_version :: "sop_call \<Rightarrow> jmap \<Rightarrow> string \<Rightarrow> run_row option \<Rightarrow> int op" where
  "admission_version c args sop existing =
     bindS (liftS (wanted_version (jlib c) (obj_get args ''sop_version''))) (\<lambda>wanted.
     case wanted of
       Some v \<Rightarrow> retS v
     | None \<Rightarrow>
     case existing of
       Some r \<Rightarrow> retS (rn_version r)
     | None \<Rightarrow> latest_runnable_template_version c sop)"

definition non_null :: "json option \<Rightarrow> json option" where
  "non_null v = (case v of None \<Rightarrow> None | Some w \<Rightarrow> if is_null w then None else Some w)"

definition new_run_id :: "sop_call \<Rightarrow> string op" where
  "new_run_id c =
     bindS (now_iso c) (\<lambda>now.
     bindS (new_uuid c) (\<lambda>u.
     retS (''sop_run_'' @ take 15 (filter (\<lambda>ch. ch \<notin> set ''-:.'') now) @ ''_'' @ take 8 u)))"

definition insert_run :: "sop_call \<Rightarrow> run_row \<Rightarrow> unit op" where
  "insert_run c row =
     perform c ''sop_run_insert_failed'' (\<lambda>d. run_fresh d row) (\<lambda>d. d\<lparr>runs := runs d @ [row]\<rparr>)"

definition admission_request :: "admission \<Rightarrow> int \<Rightarrow> string option \<Rightarrow> string option \<Rightarrow> json" where
  "admission_request a version parent parent_step =
     request_value (ad_sop_id a) version (ad_occurrence a) (ad_input a) (ad_input_ref a) (ad_kind a)
       (ad_trigger a) (ad_triggered_by a) parent parent_step"

definition new_run_row ::
    "sop_call \<Rightarrow> admission \<Rightarrow> int \<Rightarrow> string option \<Rightarrow> string option \<Rightarrow> json \<Rightarrow> json \<Rightarrow> json list \<Rightarrow> string
      \<Rightarrow> string \<Rightarrow> run_row" where
  "new_run_row c a version parent parent_step template def steps i now =
     \<lparr>rn_id = i, rn_sop_id = ad_sop_id a, rn_version = version,
      rn_title = text_or (jget template ''title''), rn_status = ''pending'',
      rn_occurrence = ad_occurrence a,
      rn_request_fp = fingerprint (jlib c) (admission_request a version parent parent_step),
      rn_definition_fp = fingerprint (jlib c) def, rn_definition = canonicalize def,
      rn_input = canonicalize (ad_input a), rn_input_ref = null_column (ad_input_ref a),
      rn_output = JObj [], rn_output_ref = None, rn_steps = canonicalize (JArr steps),
      rn_trigger_kind = ad_kind a, rn_trigger_ref = ad_trigger a, rn_triggered_by = ad_triggered_by a,
      rn_parent = parent, rn_parent_step = parent_step, rn_created_at = now, rn_updated_at = now,
      rn_completed_at = None\<rparr>"

definition create_run ::
    "sop_call \<Rightarrow> admission \<Rightarrow> int \<Rightarrow> string option \<Rightarrow> string option \<Rightarrow> json \<Rightarrow> (sop_run \<times> string) op" where
  "create_run c a version parent parent_step template =
     (let def = executable_definition template in
      bindS (liftS (assert_bound (jlib c) def ''sop_definition'' max_template_definition_bytes)) (\<lambda>_.
      bindS (initialize_step_states c template) (\<lambda>steps.
      bindS (liftS (assert_bound (jlib c) (JArr steps) ''sop_run_state'' max_run_state_bytes)) (\<lambda>_.
      bindS (new_run_id c) (\<lambda>i.
      bindS (now_iso c) (\<lambda>now.
      let row = new_run_row c a version parent parent_step template def steps i now in
      bindS (insert_run c row) (\<lambda>_.
      bindS (append_run_event c i None ''run_admitted''
        (JObj [(''sop_id'', JStr (ad_sop_id a)), (''sop_version'', jint version),
          (''occurrence_key'', JStr (ad_occurrence a)),
          (''request_fingerprint'', JStr (rn_request_fp row)),
          (''definition_fingerprint'', JStr (rn_definition_fp row)),
          (''triggered_by'', JStr (ad_triggered_by a)), (''parent_run_id'', jopt_str parent),
          (''parent_step_id'', jopt_str parent_step)])) (\<lambda>_.
      bindS (get_run c i) (\<lambda>run. retS (run, ''created''))))))))))"

definition replay_run ::
    "sop_call \<Rightarrow> admission \<Rightarrow> int \<Rightarrow> string \<Rightarrow> run_row \<Rightarrow> (sop_run \<times> string) op" where
  "replay_run c a version request_fp row =
     bindS (liftS (hydrate_run (jlib c) (run_row_json row))) (\<lambda>run.
     bindS (denyS_if (run_request_fp run \<noteq> request_fp)
       (diagnostic ''sop_occurrence_conflict''
         (''sop_occurrence_conflict:'' @ ad_sop_id a @ '':'' @ ad_occurrence a)
         (JObj [(''occurrence_key'', JStr (ad_occurrence a)),
           (''recorded_request_fingerprint'', JStr (run_request_fp run)),
           (''supplied_request_fingerprint'', JStr request_fp),
           (''recorded_sop_version'', jint (run_version run)),
           (''supplied_sop_version'', jint version)]))) (\<lambda>_.
     retS (run, ''replayed'')))"

definition admit_run ::
    "sop_call \<Rightarrow> jmap \<Rightarrow> string option \<Rightarrow> string option \<Rightarrow> (sop_run \<times> string) op" where
  "admit_run c args parent parent_step =
     bindS (liftS (read_admission (jlib c) args)) (\<lambda>a.
     bindS (query c ''sop_run_query_failed''
       (\<lambda>d. find_occurrence d (ad_sop_id a) (ad_occurrence a))) (\<lambda>existing.
     bindS (admission_version c args (ad_sop_id a) existing) (\<lambda>version.
     bindS (template_by_version c (ad_sop_id a) version) (\<lambda>template.
     bindS (liftS (assert_no_legacy_effects template)) (\<lambda>_.
     bindS (liftS (validate_schema (lib c) (non_null (jget template ''input_schema'')) (ad_input a)
       ''sop_input_schema_mismatch''
       (JObj [(''sop_id'', JStr (ad_sop_id a)), (''sop_version'', jint version)]))) (\<lambda>_.
     case existing of
       Some row \<Rightarrow>
         replay_run c a version
           (fingerprint (jlib c) (admission_request a version parent parent_step)) row
     | None \<Rightarrow>
         bindS (case (parent, parent_step) of
             (Some p, Some _) \<Rightarrow> assert_no_recursive_child c p (ad_sop_id a) version
           | _ \<Rightarrow> retS ()) (\<lambda>_.
         create_run c a version parent parent_step template)))))))"

end
