(* ===== verification/Sop_Reconcile.thy ===== *)
theory Sop_Reconcile
  imports Sop_Admission
begin

text \<open>
  Reconciliation (\<^verbatim>\<open>sop_engine/parts/10.rs\<close> to \<^verbatim>\<open>14.rs\<close>): passes over the steps of a run that take
  in what running steps have come to and start the pending steps whose dependencies are done, until
  a pass makes no progress; then the status of the run, its output and its outbox event. A step that
  is a procedure of its own admits and reconciles a child run. The recursion into children is given
  fuel; the passes are bounded by the code itself.
\<close>

section \<open>Ends of a step\<close>

definition fail_step :: "sop_call \<Rightarrow> string \<Rightarrow> json \<Rightarrow> json op" where
  "fail_step c message step =
     bindS (now_iso c) (\<lambda>now.
     retS (set_step ''error_message'' (JStr message)
       (set_step ''completed_at'' (JStr now) (set_step ''status'' (JStr ''failed'') step))))"

definition skip_step :: "sop_call \<Rightarrow> string \<Rightarrow> json \<Rightarrow> json op" where
  "skip_step c reason step =
     bindS (now_iso c) (\<lambda>now.
     retS (set_step ''error_message'' JNull
       (set_step ''result'' (JObj [(''reason'', JStr reason)])
         (set_step ''completed_at'' (JStr now) (set_step ''status'' (JStr ''skipped'') step)))))"

definition diagnostic_text :: "json \<Rightarrow> string" where
  "diagnostic_text e =
     (let part = (\<lambda>k. case Option.bind (jget e k) as_str of None \<Rightarrow> ''sop_internal_error'' | Some s \<Rightarrow> s) in
      part ''code'' @ '':'' @ part ''message'')"

definition on_step :: "nat \<Rightarrow> (json \<Rightarrow> json op) \<Rightarrow> sop_run \<Rightarrow> sop_run op" where
  "on_step i f run = bindS (f (run_steps run ! i)) (\<lambda>s. retS (set_run_step i (\<lambda>_. s) run))"

text \<open>A result too large for the state of the run fails the step, and the short form is kept.\<close>

definition completed_step :: "string \<Rightarrow> json \<Rightarrow> json \<Rightarrow> json \<Rightarrow> json" where
  "completed_step completed_at full result_ref step =
     set_step ''result_ref'' result_ref (set_step ''result'' full
       (set_step ''error_message'' JNull (set_step ''completed_at'' (JStr completed_at)
         (set_step ''status'' (JStr ''completed'') step))))"

definition run_state_bound :: "sop_call \<Rightarrow> sop_run \<Rightarrow> json + unit" where
  "run_state_bound c run =
     assert_bound (jlib c) (JArr (run_steps run)) ''sop_run_state'' max_run_state_bytes"

definition omit_result :: "sop_call \<Rightarrow> nat \<Rightarrow> json \<Rightarrow> json \<Rightarrow> json \<Rightarrow> sop_run \<Rightarrow> (sop_run \<times> bool) op" where
  "omit_result c i error result_ref small run =
     (let name = step_string (run_steps run ! i) ''step_id'';
          kept = (case as_object small of None \<Rightarrow> [] | Some m \<Rightarrow> m) in
      bindS (on_step i (fail_step c (diagnostic_text error)) run) (\<lambda>run.
      let run = set_run_step i (\<lambda>s. set_step ''result_ref'' result_ref
            (set_step ''result'' (JObj (obj_insert ''inline_result_omitted'' (JBool True) kept)) s)) run in
      bindS (liftS (run_state_bound c run)) (\<lambda>_.
      bindS (append_run_event c (run_id run) (Some name) ''step_failed''
        (JObj [(''diagnostic'', error), (''result_ref'', result_ref),
          (''inline_result_omitted'', JBool True)])) (\<lambda>_.
      retS (run, False)))))"

definition complete_step_with_bounded_run_state ::
    "sop_call \<Rightarrow> nat \<Rightarrow> string \<Rightarrow> json \<Rightarrow> json \<Rightarrow> json \<Rightarrow> sop_run \<Rightarrow> (sop_run \<times> bool) op" where
  "complete_step_with_bounded_run_state c i completed_at full result_ref small run =
     (let done_run = set_run_step i (completed_step completed_at full result_ref) run in
      case run_state_bound c done_run of
        Inr _ \<Rightarrow> retS (done_run, True)
      | Inl e \<Rightarrow>
          if error_code e = Some ''sop_run_state_too_large''
          then omit_result c i e result_ref small done_run
          else denyS e)"

section \<open>Running steps\<close>

type_synonym progress = "sop_run \<times> bool \<times> bool"

text \<open>What one step makes of the run, with the flags \<^verbatim>\<open>changed\<close> and \<^verbatim>\<open>progress\<close> it sets.\<close>

definition moved :: "sop_run \<Rightarrow> progress op" where
  "moved run = retS (run, True, True)"

definition running_manual :: "sop_call \<Rightarrow> nat \<Rightarrow> json \<Rightarrow> sop_run \<Rightarrow> progress op" where
  "running_manual c i step run =
     bindS (ensure_handoff_intent c run step None) (\<lambda>handoff.
     let handoff_id = value_or JNull (jget handoff ''handoff_id'');
         occurrence = value_or JNull (jget handoff ''occurrence_key'') in
     if opt_json_eq (Option.bind (jget step ''result'') (\<lambda>r. jget r ''handoff_id'')) (Some handoff_id)
     then retS (run, False, False)
     else
       let result = (case Option.bind (jget step ''result'') as_object of None \<Rightarrow> [] | Some m \<Rightarrow> m) in
       retS (set_run_step i (set_step ''result'' (JObj
           (obj_insert ''handoff_occurrence_key'' occurrence (obj_insert ''handoff_id'' handoff_id result)))) run,
         True, False))"

definition child_summary :: "sop_run \<Rightarrow> (string \<times> json) list" where
  "child_summary child =
     [(''child_run_id'', JStr (run_id child)), (''child_sop_id'', JStr (run_sop_id child)),
      (''child_sop_version'', jint (run_version child)), (''child_status'', JStr (run_status child))]"

definition assert_child_run_binding :: "host \<Rightarrow> sop_run \<Rightarrow> json \<Rightarrow> sop_run \<Rightarrow> json + unit" where
  "assert_child_run_binding h parent step child =
     (let i = step_string step ''step_id'';
          expected = deterministic_id h ''sop_child_''
            (run_occurrence parent @ [CHR 0x00] @ run_id parent @ [CHR 0x00] @ i);
          pin = Option.bind (jget step ''pinned_child_definition_fingerprint'') as_str in
      bindR (refuse_if (\<not> (run_parent child = Some (run_id parent) \<and> run_parent_step child = Some i \<and>
          member_is step ''sop_id'' (run_sop_id child) \<and>
          Option.bind (jget step ''sop_version'') as_i64 = Some (run_version child) \<and>
          run_occurrence child = expected))
        (diagnostic ''sop_child_run_binding_mismatch''
          (''sop_child_run_binding_mismatch:'' @ run_id parent @ '':'' @ i)
          (JObj [(''parent_run_id'', JStr (run_id parent)), (''step_id'', JStr i),
            (''child_run_id'', JStr (run_id child))]))) (\<lambda>_.
      refuse_if (pin \<noteq> Some (run_definition_fp child))
        (diagnostic ''sop_child_definition_pin_mismatch'' (''sop_child_definition_pin_mismatch:'' @ i)
          (JObj [(''expected'', jopt_str pin), (''actual'', JStr (run_definition_fp child))]))))"

definition result_schema_check :: "sop_call \<Rightarrow> sop_run \<Rightarrow> json \<Rightarrow> json \<Rightarrow> json + unit" where
  "result_schema_check c run step v =
     validate_schema (lib c) (non_null (jget step ''result_schema'')) v ''sop_step_result_schema_mismatch''
       (JObj [(''run_id'', JStr (run_id run)), (''step_id'', JStr (step_string step ''step_id''))])"

definition child_completed :: "sop_call \<Rightarrow> nat \<Rightarrow> json \<Rightarrow> sop_run \<Rightarrow> sop_run \<Rightarrow> progress op" where
  "child_completed c i step child run =
     (let name = step_string step ''step_id'' in
      case result_schema_check c run step (run_output child) of
        Inl e \<Rightarrow>
          bindS (on_step i (fail_step c (diagnostic_text e)) run) (\<lambda>run.
          bindS (append_run_event c (run_id run) (Some name) ''step_failed''
            (JObj [(''child_run_id'', JStr (run_id child)), (''diagnostic'', e)])) (\<lambda>_.
          moved run))
      | Inr _ \<Rightarrow>
          bindS (case run_completed child of Some t \<Rightarrow> retS t | None \<Rightarrow> now_iso c) (\<lambda>completed_at.
          bindS (complete_step_with_bounded_run_state c i completed_at
            (JObj (child_summary child @ [(''output'', run_output child)])) (run_output_ref child)
            (JObj (child_summary child)) run) (\<lambda>(run, retained).
          bindS (if retained
            then append_run_event c (run_id run) (Some name) ''child_sop_completed''
              (JObj [(''child_run_id'', JStr (run_id child)), (''child_status'', JStr (run_status child)),
                (''output_ref'', run_output_ref child)])
            else retS ()) (\<lambda>_.
          moved run))))"

definition child_ended :: "sop_call \<Rightarrow> nat \<Rightarrow> json \<Rightarrow> sop_run \<Rightarrow> sop_run \<Rightarrow> progress op" where
  "child_ended c i step child run =
     bindS (on_step i (fail_step c (''child_sop_'' @ run_status child @ '':'' @ run_id child)) run) (\<lambda>run.
     let run = set_run_step i (set_step ''result'' (JObj (child_summary child))) run in
     bindS (append_run_event c (run_id run) (Some (step_string step ''step_id'')) ''child_sop_failed''
       (JObj [(''child_run_id'', JStr (run_id child)), (''child_status'', JStr (run_status child))])) (\<lambda>_.
     moved run))"

definition running_child ::
    "sop_call \<Rightarrow> (string \<Rightarrow> sop_run op) \<Rightarrow> nat \<Rightarrow> json \<Rightarrow> sop_run \<Rightarrow> progress op" where
  "running_child c reconcile i step run =
     (case Option.bind (jget step ''child_run_id'') as_str of
        None \<Rightarrow> retS (run, False, False)
      | Some child_id \<Rightarrow>
          bindS (reconcile child_id) (\<lambda>_.
          bindS (get_run c child_id) (\<lambda>child.
          bindS (liftS (assert_child_run_binding (jlib c) run step child)) (\<lambda>_.
          if run_status child = ''completed'' then child_completed c i step child run
          else if run_status child \<in> {''failed'', ''cancelled''} then child_ended c i step child run
          else retS (run, False, False)))))"

definition action_summary :: "json \<Rightarrow> (string \<times> json) list" where
  "action_summary action =
     map (\<lambda>k. (k, jopt (jget action k))) [''action_id'', ''operation_ref'', ''surface_id'', ''tool_name'']"

definition put_action_summary :: "nat \<Rightarrow> json \<Rightarrow> sop_run \<Rightarrow> sop_run" where
  "put_action_summary i action run =
     set_run_step i (\<lambda>s. set_step ''result_ref'' (value_or JNull (jget action ''result_ref''))
       (set_step ''result'' (JObj (action_summary action)) s)) run"

definition action_completed :: "sop_call \<Rightarrow> nat \<Rightarrow> json \<Rightarrow> json \<Rightarrow> sop_run \<Rightarrow> progress op" where
  "action_completed c i step action run =
     (let result = value_or (JObj []) (jget action ''result'') in
      case result_schema_check c run step result of
        Inl e \<Rightarrow>
          bindS (on_step i (fail_step c (diagnostic_text e)) run) (\<lambda>run.
          let run = put_action_summary i action run in
          bindS (append_run_event c (run_id run) (Some (step_string step ''step_id'')) ''step_failed''
            (JObj [(''action_id'', jopt (jget action ''action_id'')), (''diagnostic'', e)])) (\<lambda>_.
          moved run))
      | Inr _ \<Rightarrow>
          let full = fold (\<lambda>p. obj_insert (fst p) (snd p)) (action_summary action)
                (case as_object result of None \<Rightarrow> [] | Some m \<Rightarrow> m) in
          bindS (case Option.bind (jget action ''completed_at'') as_str of
              Some t \<Rightarrow> retS t | None \<Rightarrow> now_iso c) (\<lambda>completed_at.
          bindS (complete_step_with_bounded_run_state c i completed_at (JObj full)
            (value_or JNull (jget action ''result_ref'')) (JObj (action_summary action)) run) (\<lambda>(run, _).
          moved run)))"

definition action_ended :: "sop_call \<Rightarrow> nat \<Rightarrow> json \<Rightarrow> string \<Rightarrow> sop_run \<Rightarrow> progress op" where
  "action_ended c i action status run =
     (let message = (case Option.bind (jget action ''error_message'') as_str of
          Some s \<Rightarrow> s
        | None \<Rightarrow> ''action_'' @ status @ '':'' @ step_string action ''action_id'') in
      bindS (on_step i (fail_step c message) run) (\<lambda>run.
      moved (put_action_summary i action run)))"

definition running_action :: "sop_call \<Rightarrow> nat \<Rightarrow> json \<Rightarrow> sop_run \<Rightarrow> progress op" where
  "running_action c i step run =
     (case Option.bind (jget step ''action_id'') as_str of
        None \<Rightarrow> retS (run, False, False)
      | Some action_id \<Rightarrow>
          bindS (ensure_action_intent c run step) (\<lambda>action.
          bindS (denyS_if (\<not> member_is action ''action_id'' action_id)
            (diagnostic ''sop_action_run_binding_mismatch''
              (''sop_action_run_binding_mismatch:'' @ run_id run @ '':'' @ step_string step ''step_id'')
              (JObj [(''action_id'', jopt (jget action ''action_id''))]))) (\<lambda>_.
          bindS (liftS (assert_action_run_binding run step action)) (\<lambda>_.
          let status = step_string action ''status'' in
          if status = ''completed'' then action_completed c i step action run
          else if status \<in> {''failed'', ''cancelled''} then action_ended c i action status run
          else retS (run, False, False)))))"

definition running_step ::
    "sop_call \<Rightarrow> (string \<Rightarrow> sop_run op) \<Rightarrow> nat \<Rightarrow> sop_run \<Rightarrow> progress op" where
  "running_step c reconcile i run =
     (let step = run_steps run ! i; executor = step_string step ''executor'' in
      if \<not> step_status_is ''running'' step then retS (run, False, False)
      else if executor \<in> {''agent'', ''operator''} then running_manual c i step run
      else if executor = ''sop'' then running_child c reconcile i step run
      else if executor = ''action'' then running_action c i step run
      else retS (run, False, False))"

text \<open>The loop over the indices, with the flags joined.\<close>

definition each_step :: "(nat \<Rightarrow> sop_run \<Rightarrow> progress op) \<Rightarrow> sop_run \<Rightarrow> progress op" where
  "each_step f run =
     foldS (\<lambda>i (run, changed, progress).
       bindS (f i run) (\<lambda>(run, c, p). retS (run, changed \<or> c, progress \<or> p)))
       [0..<length (run_steps run)] (run, False, False)"

definition reconcile_running_steps ::
    "sop_call \<Rightarrow> (string \<Rightarrow> sop_run op) \<Rightarrow> sop_run \<Rightarrow> progress op" where
  "reconcile_running_steps c reconcile run = each_step (running_step c reconcile) run"

section \<open>Pending steps\<close>

text \<open>\<^verbatim>\<open>attempt\<close>: a refusal does not end the call but comes back with the run as it is then.\<close>

type_synonym attempted = "json option \<times> sop_run"

definition tryS :: "'a op \<Rightarrow> sop_run \<Rightarrow> ('a \<Rightarrow> attempted op) \<Rightarrow> attempted op" where
  "tryS m run f =
     bindS (reifyS m) (\<lambda>r. case r of Inl e \<Rightarrow> retS (Some e, run) | Inr x \<Rightarrow> f x)"

definition started :: "sop_call \<Rightarrow> sop_run \<Rightarrow> json \<Rightarrow> string \<Rightarrow> json \<Rightarrow> attempted op" where
  "started c run step kind details =
     tryS (append_run_event c (run_id run) (Some (step_string step ''step_id'')) kind details) run
       (\<lambda>_. retS (None, run))"

definition start_engine :: "sop_call \<Rightarrow> nat \<Rightarrow> json \<Rightarrow> sop_run \<Rightarrow> attempted op" where
  "start_engine c i step run =
     bindS (now_iso c) (\<lambda>now.
     started c (set_run_step i (\<lambda>s. set_step ''result'' (JObj [])
         (set_step ''completed_at'' (JStr now) (set_step ''status'' (JStr ''completed'') s))) run)
       step ''step_completed'' (JObj [(''executor'', JStr ''engine'')]))"

definition start_manual ::
    "sop_call \<Rightarrow> nat \<Rightarrow> json \<Rightarrow> string \<Rightarrow> string \<Rightarrow> sop_run \<Rightarrow> attempted op" where
  "start_manual c i step executor instructions run =
     tryS (ensure_handoff_intent c run step (Some instructions)) run (\<lambda>handoff.
     let handoff_id = jopt (jget handoff ''handoff_id''); occurrence = jopt (jget handoff ''occurrence_key'') in
     started c (set_run_step i (\<lambda>s. set_step ''result'' (JObj [(''instructions'', JStr instructions),
           (''handoff_id'', handoff_id), (''handoff_occurrence_key'', occurrence)])
         (set_step ''status'' (JStr ''running'') s)) run)
       step ''step_started''
       (JObj [(''executor'', JStr executor), (''handoff'', JBool True), (''handoff_id'', handoff_id),
         (''occurrence_key'', occurrence)]))"

definition start_action :: "sop_call \<Rightarrow> nat \<Rightarrow> json \<Rightarrow> string \<Rightarrow> sop_run \<Rightarrow> attempted op" where
  "start_action c i step instructions run =
     tryS (ensure_action_intent c run step) run (\<lambda>action.
     let view = map (\<lambda>k. (k, jopt (jget action k)))
           [''action_id'', ''occurrence_key'', ''surface_id'', ''tool_name''] in
     started c (set_run_step i (\<lambda>s. set_step ''result'' (JObj ((''instructions'', JStr instructions) # view))
         (set_step ''action_id'' (value_or JNull (jget action ''action_id''))
           (set_step ''status'' (JStr ''running'') s))) run)
       step ''action_admitted''
       (JObj (view @ [(''request_fingerprint'', jopt (jget action ''request_fingerprint''))])))"

definition child_arguments :: "sop_call \<Rightarrow> sop_run \<Rightarrow> json \<Rightarrow> json + jmap" where
  "child_arguments c parent step =
     (let i = step_string step ''step_id''; context = value_context parent in
      bindR (required_string (jget step ''sop_id'') ''sop_step_requires_pinned_child'' 256) (\<lambda>sop.
      bindR (ok_or (case Option.bind (jget step ''sop_version'') as_i64 of
          None \<Rightarrow> None | Some v \<Rightarrow> if 1 \<le> v then Some v else None)
        (refuse_step ''sop_step_requires_pinned_child'' i)) (\<lambda>version.
      bindR (mapped_or (JObj []) (jget step ''input'') context) (\<lambda>value_in.
      bindR (assert_bound (jlib c) value_in ''sop_input'' max_inline_value_bytes) (\<lambda>_.
      bindR (refuse_if (as_object value_in = None) (refuse_step ''sop_child_input_must_be_object'' i)) (\<lambda>_.
      bindR (mapped_ref (jget step ''input_ref'') context ''sop_input_ref'') (\<lambda>ref_in.
      let occurrence = deterministic_id (jlib c) ''sop_child_''
            (run_occurrence parent @ [CHR 0x00] @ run_id parent @ [CHR 0x00] @ i) in
      Inr [(''sop_id'', JStr sop), (''sop_version'', jint version), (''occurrence_key'', JStr occurrence),
        (''input'', value_in), (''input_ref'', ref_in),
        (''trigger_source_kind'', JStr ''parent_sop_step''),
        (''trigger_source_ref'', JStr (run_id parent @ '':'' @ i)),
        (''triggered_by'', JStr (''sop:'' @ run_id parent))])))))))"

definition start_child_run ::
    "sop_call \<Rightarrow> (string \<Rightarrow> sop_run op) \<Rightarrow> sop_run \<Rightarrow> json \<Rightarrow> sop_run op" where
  "start_child_run c reconcile parent step =
     bindS (liftS (child_arguments c parent step)) (\<lambda>args.
     bindS (admit_run c args (Some (run_id parent)) (Some (step_string step ''step_id''))) (\<lambda>(admitted, _).
     bindS (liftS (assert_child_run_binding (jlib c) parent step admitted)) (\<lambda>_.
     bindS (reconcile (run_id admitted)) (\<lambda>_.
     get_run c (run_id admitted)))))"

definition start_sop ::
    "sop_call \<Rightarrow> (string \<Rightarrow> sop_run op) \<Rightarrow> nat \<Rightarrow> json \<Rightarrow> string \<Rightarrow> sop_run \<Rightarrow> attempted op" where
  "start_sop c reconcile i step instructions run =
     tryS (start_child_run c reconcile run step) run (\<lambda>child.
     started c (set_run_step i (\<lambda>s. set_step ''result''
           (JObj ((''instructions'', JStr instructions) # child_summary child @
             [(''wait_policy'', JStr ''wait'')]))
         (set_step ''child_run_id'' (JStr (run_id child)) (set_step ''status'' (JStr ''running'') s))) run)
       step ''child_sop_admitted''
       (JObj [(''child_run_id'', JStr (run_id child)), (''child_sop_id'', JStr (run_sop_id child)),
         (''child_sop_version'', jint (run_version child)),
         (''child_definition_fingerprint'', JStr (run_definition_fp child))]))"

definition start_step ::
    "sop_call \<Rightarrow> (string \<Rightarrow> sop_run op) \<Rightarrow> nat \<Rightarrow> json \<Rightarrow> string \<Rightarrow> sop_run \<Rightarrow> attempted op" where
  "start_step c reconcile i step instructions run =
     (let executor = step_string step ''executor'' in
      if executor = ''engine'' then start_engine c i step run
      else if executor \<in> {''agent'', ''operator''} then start_manual c i step executor instructions run
      else if executor = ''action'' then start_action c i step instructions run
      else if executor = ''sop'' then start_sop c reconcile i step instructions run
      else retS (Some (refuse_step ''sop_invalid_executor'' executor), run))"

definition attempt ::
    "sop_call \<Rightarrow> (string \<Rightarrow> sop_run op) \<Rightarrow> nat \<Rightarrow> json \<Rightarrow> sop_run \<Rightarrow> attempted op" where
  "attempt c reconcile i step run =
     (let context = value_context run; condition = jopt (jget step ''when'') in
      tryS (liftS (evaluate_condition condition context)) run (\<lambda>go.
      if \<not> go then
        bindS (on_step i (skip_step c ''condition_false'') run) (\<lambda>run.
        started c run step ''step_skipped''
          (JObj [(''reason'', JStr ''condition_false''), (''when'', condition)]))
      else
        tryS (liftS (render_instructions (jlib c) (step_string step ''instructions'') context)) run (\<lambda>instructions.
        bindS (now_iso c) (\<lambda>now.
        start_step c reconcile i step instructions
          (set_run_step i (set_step ''started_at'' (JStr now)) run)))))"

text \<open>The map from step ids to statuses; a later step would take the place of an earlier one.\<close>

definition status_of :: "sop_run \<Rightarrow> string \<Rightarrow> string option" where
  "status_of run i =
     map_of (rev (List.map_filter (\<lambda>s.
        case (Option.bind (jget s ''step_id'') as_str, Option.bind (jget s ''status'') as_str) of
          (Some j, Some t) \<Rightarrow> Some (j, t) | _ \<Rightarrow> None) (run_steps run))) i"

definition dependency_failed :: "sop_run \<Rightarrow> string \<Rightarrow> bool" where
  "dependency_failed run d \<longleftrightarrow> status_of run d = Some ''failed''"

definition dependency_done :: "sop_run \<Rightarrow> string \<Rightarrow> bool" where
  "dependency_done run d \<longleftrightarrow> status_of run d \<in> {Some ''completed'', Some ''skipped''}"

definition pending_step ::
    "sop_call \<Rightarrow> (string \<Rightarrow> sop_run op) \<Rightarrow> nat \<Rightarrow> sop_run \<Rightarrow> progress op" where
  "pending_step c reconcile i run =
     (let step = run_steps run ! i; name = step_string step ''step_id'';
          dependencies = depends_on step; bad = filter (dependency_failed run) dependencies in
      if \<not> step_status_is ''pending'' step then retS (run, False, False)
      else if bad \<noteq> [] then
        bindS (on_step i (fail_step c (''failed_dependency:'' @ joined '','' bad)) run) (\<lambda>run.
        bindS (append_run_event c (run_id run) (Some name) ''step_failed''
          (JObj [(''failed_dependencies'', JArr (map JStr bad))])) (\<lambda>_.
        moved run))
      else if \<not> list_all (dependency_done run) dependencies then retS (run, False, False)
      else
        bindS (attempt c reconcile i step run) (\<lambda>(error, run).
        case error of
          None \<Rightarrow> moved run
        | Some e \<Rightarrow>
            bindS (on_step i (fail_step c (diagnostic_text e)) run) (\<lambda>run.
            bindS (append_run_event c (run_id run) (Some name) ''step_failed''
              (JObj [(''diagnostic'', e)])) (\<lambda>_.
            moved run))))"

definition reconcile_pending_steps ::
    "sop_call \<Rightarrow> (string \<Rightarrow> sop_run op) \<Rightarrow> sop_run \<Rightarrow> progress op" where
  "reconcile_pending_steps c reconcile run = each_step (pending_step c reconcile) run"

section \<open>Passes\<close>

fun reconcile_passes ::
    "sop_call \<Rightarrow> (string \<Rightarrow> sop_run op) \<Rightarrow> nat \<Rightarrow> sop_run \<Rightarrow> bool \<Rightarrow> (sop_run \<times> bool) op" where
  "reconcile_passes c reconcile 0 run changed =
     denyS (refuse_step ''sop_reconciliation_did_not_converge'' (run_id run))"
| "reconcile_passes c reconcile (Suc n) run changed =
     bindS (reconcile_running_steps c reconcile run) (\<lambda>(run, changed1, progress1).
     bindS (reconcile_pending_steps c reconcile run) (\<lambda>(run, changed2, progress2).
     let changed = (changed \<or> changed1 \<or> changed2) in
     if progress1 \<or> progress2 then reconcile_passes c reconcile n run changed
     else retS (run, changed)))"

definition pass_limit :: "sop_run \<Rightarrow> nat" where
  "pass_limit run = length (run_steps run) * 4 + 8"

section \<open>The status of the run\<close>

definition derive_run_output :: "sop_host \<Rightarrow> sop_run \<Rightarrow> json + json \<times> json" where
  "derive_run_output h run =
     (let context = value_context run; mapping = jopt (jget (run_definition run) ''output'');
          ref_mapping = jopt (jget (run_definition run) ''output_ref'') in
      bindR (if is_null mapping then Inr (JObj []) else resolve_mapping mapping context) (\<lambda>value_out.
      bindR (assert_bound (sop_json h) value_out ''sop_output'' max_inline_value_bytes) (\<lambda>_.
      bindR (refuse_if (as_object value_out = None)
        (diagnostic ''sop_output_must_be_object'' ''sop_output_must_be_object'' (JObj []))) (\<lambda>_.
      bindR (validate_schema h (non_null (jget (run_definition run) ''output_schema'')) value_out
        ''sop_output_schema_mismatch'' (JObj [(''run_id'', JStr (run_id run))])) (\<lambda>_.
      bindR (if is_null ref_mapping then Inr JNull
        else bindR (resolve_mapping ref_mapping context) (\<lambda>w. normalize_value_ref (Some w) ''sop_output_ref'')) (\<lambda>ref_out.
      Inr (value_out, ref_out)))))))"

definition step_terminal :: "json \<Rightarrow> bool" where
  "step_terminal step \<longleftrightarrow>
     step_status_is ''completed'' step \<or> step_status_is ''failed'' step \<or> step_status_is ''skipped'' step"

definition no_output :: "string \<Rightarrow> sop_run \<Rightarrow> sop_run" where
  "no_output status run = run\<lparr>run_status := status, run_output := JObj [], run_output_ref := JNull\<rparr>"

definition finish_run :: "sop_call \<Rightarrow> sop_run \<Rightarrow> sop_run op" where
  "finish_run c run =
     bindS (if list_ex (step_status_is ''failed'') (run_steps run) then retS (no_output ''failed'' run)
       else
         case derive_run_output (lib c) run of
           Inr (value_out, ref_out) \<Rightarrow>
             retS (run\<lparr>run_status := ''completed'', run_output := value_out, run_output_ref := ref_out\<rparr>)
         | Inl e \<Rightarrow>
             bindS (append_run_event c (run_id run) None ''run_output_failed'' (JObj [(''diagnostic'', e)])) (\<lambda>_.
             retS (no_output ''failed'' run))) (\<lambda>run.
     case run_completed run of
       Some _ \<Rightarrow> retS run
     | None \<Rightarrow> bindS (now_iso c) (\<lambda>now. retS (run\<lparr>run_completed := Some now\<rparr>)))"

definition awaits_confirmation :: "json \<Rightarrow> bool" where
  "awaits_confirmation step \<longleftrightarrow>
     step_status_is ''running'' step \<and>
     (member_is step ''executor'' ''agent'' \<or> member_is step ''executor'' ''operator'')"

definition resume_run :: "sop_run \<Rightarrow> sop_run" where
  "resume_run run =
     run\<lparr>run_status := (if list_ex awaits_confirmation (run_steps run)
           then ''awaiting_confirmation'' else ''running''),
       run_completed := None\<rparr>"

definition status_event :: "string \<Rightarrow> string" where
  "status_event status =
     (if is_run_terminal status then (if status = ''completed'' then ''run_completed'' else ''run_failed'')
      else ''run_state_changed'')"

definition record_status :: "sop_call \<Rightarrow> string \<Rightarrow> sop_run \<Rightarrow> unit op" where
  "record_status c prior run =
     bindS (append_run_event c (run_id run) None (status_event (run_status run))
       (JObj [(''from'', JStr prior), (''to'', JStr (run_status run)),
         (''step_states'', JArr (map (\<lambda>s. JObj [(''step_id'', jopt (jget s ''step_id'')),
            (''status'', jopt (jget s ''status''))]) (run_steps run)))])) (\<lambda>_.
     if is_run_terminal (run_status run) then put_terminal_outbox c run else retS ())"

definition settle_run :: "sop_call \<Rightarrow> sop_run \<Rightarrow> bool \<Rightarrow> sop_run op" where
  "settle_run c run changed =
     (let prior = run_status run in
      bindS (if list_all step_terminal (run_steps run) then finish_run c run else retS (resume_run run)) (\<lambda>run.
      if changed \<or> prior \<noteq> run_status run then
        bindS (persist_run c run) (\<lambda>run.
        bindS (if prior \<noteq> run_status run then record_status c prior run else retS ()) (\<lambda>_.
        retS run))
      else retS run))"

section \<open>Runs and their ancestors\<close>

fun reconcile_run :: "sop_call \<Rightarrow> nat \<Rightarrow> string list \<Rightarrow> string \<Rightarrow> sop_run op" where
  "reconcile_run c 0 stack i = stopS Unfinished"
| "reconcile_run c (Suc n) stack i =
     bindS (denyS_if (i \<in> set stack) (refuse_step ''sop_child_run_cycle'' i)) (\<lambda>_.
     bindS (get_run c i) (\<lambda>run.
     if is_run_terminal (run_status run) then retS run
     else
       bindS (reconcile_passes c (reconcile_run c n (i # stack)) (pass_limit run) run False) (\<lambda>(run, changed).
       settle_run c run changed)))"

fun ancestors_loop :: "sop_call \<Rightarrow> nat \<Rightarrow> nat \<Rightarrow> string list \<Rightarrow> string option \<Rightarrow> unit op" where
  "ancestors_loop c n m seen None = retS ()"
| "ancestors_loop c n 0 seen (Some i) = stopS Unfinished"
| "ancestors_loop c n (Suc m) seen (Some i) =
     bindS (denyS_if (i \<in> set seen) (refuse_step ''sop_parent_chain_cycle'' i)) (\<lambda>_.
     bindS (reconcile_run c n [] i) (\<lambda>_.
     bindS (get_run c i) (\<lambda>run.
     ancestors_loop c n m (i # seen) (run_parent run))))"

definition reconcile_run_and_ancestors :: "sop_call \<Rightarrow> nat \<Rightarrow> string \<Rightarrow> unit op" where
  "reconcile_run_and_ancestors c n i = ancestors_loop c n n [] (Some i)"

end
