(* ===== verification/Sop_Run_Tools.thy ===== *)
theory Sop_Run_Tools
  imports Sop_Reconcile
begin

text \<open>
  The tools on runs: start, refresh, advance, retry of a failed handoff, resolution of an action and
  cancellation (\<^verbatim>\<open>sop_engine/parts/01.rs\<close> to \<^verbatim>\<open>04.rs\<close>), and the claim of a handoff that advances
  its run in one call (\<^verbatim>\<open>sop_authority/parts/04.rs\<close>). The number that the tools take is the fuel of
  the recursion into children and parents.
\<close>

section \<open>Starting and refreshing\<close>

definition run_start :: "sop_call \<Rightarrow> nat \<Rightarrow> jmap \<Rightarrow> json op" where
  "run_start c n args =
     transactional c (
     bindS (admit_run c args None None) (\<lambda>(run, admission).
     bindS (reconcile_run_and_ancestors c n (run_id run)) (\<lambda>_.
     bindS (get_run c (run_id run)) (\<lambda>run.
     retS (JObj (run_result run (Some admission)))))))"

definition run_refresh :: "sop_call \<Rightarrow> nat \<Rightarrow> jmap \<Rightarrow> json op" where
  "run_refresh c n args =
     transactional c (
     bindS (liftS (required_string (obj_get args ''run_id'') ''sop_requires_run_id'' 512)) (\<lambda>i.
     bindS (get_run c i) (\<lambda>old.
     bindS (reconcile_run_and_ancestors c n i) (\<lambda>_.
     bindS (get_run c i) (\<lambda>new.
     retS (JObj (obj_insert ''explicit_reconciliation''
       (JObj [(''changed'', JBool (run_updated old \<noteq> run_updated new)), (''automatic_mode'', JBool True)])
       (run_result new None))))))))"

section \<open>Advancing\<close>

definition check_outcome :: "string \<Rightarrow> json + unit" where
  "check_outcome outcome =
     refuse_if (outcome \<notin> {''completed'', ''failed''})
       (diagnostic ''sop_outcome_invalid'' (''sop_outcome_invalid:'' @ outcome)
         (JObj [(''allowed'', JArr [JStr ''completed'', JStr ''failed''])]))"

definition plain_refusal :: "string \<Rightarrow> json" where
  "plain_refusal code = diagnostic code code (JObj [])"

text \<open>What both completions read: the result, its reference and the error message.\<close>

definition read_outcome :: "host \<Rightarrow> jmap \<Rightarrow> string \<Rightarrow> json + json \<times> json \<times> string option" where
  "read_outcome h args outcome =
     (let result = value_or (JObj []) (obj_get args ''result'') in
      bindR (assert_bound h result ''sop_result'' max_inline_value_bytes) (\<lambda>_.
      bindR (refuse_if (as_object result = None) (plain_refusal ''sop_result_must_be_object'')) (\<lambda>_.
      bindR (normalize_value_ref (obj_get args ''result_ref'') ''sop_result_ref'') (\<lambda>result_ref.
      bindR (optional_bounded_string (obj_get args ''error_message'') ''sop_error_message_too_long'' 4096) (\<lambda>message.
      bindR (refuse_if (outcome = ''failed'' \<and> message = None)
        (plain_refusal ''sop_failed_outcome_requires_error_message'')) (\<lambda>_.
      Inr (result, result_ref, message)))))))"

record advance =
  av_handoff :: string
  av_run :: string
  av_step :: string
  av_consumer :: string
  av_token :: string
  av_completion :: completion

definition read_advance :: "host \<Rightarrow> jmap \<Rightarrow> json + advance" where
  "read_advance h args =
     bindR (required_string (obj_get args ''handoff_id'') ''sop_handoff_id_required'' 512) (\<lambda>handoff.
     bindR (required_string (obj_get args ''run_id'') ''sop_requires_run_id'' 512) (\<lambda>i.
     bindR (required_string (obj_get args ''step_id'') ''sop_requires_step_id'' 512) (\<lambda>step.
     bindR (required_string (obj_get args ''consumer_id'') ''sop_handoff_consumer_id_required'' 512) (\<lambda>consumer.
     bindR (required_string (obj_get args ''lease_token'') ''sop_handoff_lease_token_required'' 512) (\<lambda>token.
     bindR (required_string (obj_get args ''completion_key'') ''sop_requires_completion_key'' 512) (\<lambda>key.
     bindR (required_string (obj_get args ''principal'') ''sop_requires_principal'' 512) (\<lambda>who.
     bindR (required_string (obj_get args ''outcome'') ''sop_requires_outcome'' 64) (\<lambda>outcome.
     bindR (check_outcome outcome) (\<lambda>_.
     bindR (read_outcome h args outcome) (\<lambda>(result, result_ref, message).
     Inr \<lparr>av_handoff = handoff, av_run = i, av_step = step, av_consumer = consumer, av_token = token,
       av_completion = \<lparr>cp_key = key, cp_outcome = outcome, cp_principal = who, cp_result = result,
         cp_result_ref = result_ref, cp_error = message\<rparr>\<rparr>))))))))))"

definition step_position :: "sop_run \<Rightarrow> string \<Rightarrow> nat option" where
  "step_position run i =
     (let k = length (takeWhile (\<lambda>s. \<not> member_is s ''step_id'' i) (run_steps run)) in
      if k < length (run_steps run) then Some k else None)"

definition check_advance :: "sop_call \<Rightarrow> advance \<Rightarrow> sop_run \<Rightarrow> json \<Rightarrow> string option \<Rightarrow> json + unit" where
  "check_advance c a run step recorded =
     (let executor = step_string step ''executor'' in
      bindR (refuse_if (executor \<notin> {''agent'', ''operator''})
        (diagnostic ''sop_step_not_manual_handoff'' (''sop_step_not_manual_handoff:'' @ av_step a)
          (JObj [(''executor'', JStr executor)]))) (\<lambda>_.
      bindR (refuse_if (recorded = None \<and> is_run_terminal (run_status run))
        (diagnostic ''sop_run_terminal'' (''sop_run_terminal:'' @ av_run a)
          (JObj [(''status'', JStr (run_status run))]))) (\<lambda>_.
      bindR (refuse_if (recorded = None \<and> \<not> step_status_is ''running'' step)
        (diagnostic ''sop_step_not_running'' (''sop_step_not_running:'' @ av_step a)
          (JObj [(''status'', jopt (jget step ''status''))]))) (\<lambda>_.
      if cp_outcome (av_completion a) = ''completed'' then
        validate_schema (lib c) (non_null (jget step ''result_schema'')) (cp_result (av_completion a))
          ''sop_step_result_schema_mismatch''
          (JObj [(''run_id'', JStr (av_run a)), (''step_id'', JStr (av_step a))])
      else Inr ()))))"

definition advanced_step :: "host \<Rightarrow> completion \<Rightarrow> string \<Rightarrow> json \<Rightarrow> json" where
  "advanced_step h p completed_at step =
     set_step ''error_message'' (if cp_outcome p = ''failed'' then jopt_str (cp_error p) else JNull)
       (set_step ''completion_fingerprint'' (JStr (completion_fp h p))
         (set_step ''completion_key'' (JStr (cp_key p))
           (set_step ''result_ref'' (cp_result_ref p) (set_step ''result'' (cp_result p)
             (set_step ''completed_at'' (JStr completed_at)
               (set_step ''status'' (JStr (cp_outcome p)) step))))))"

definition advance_reply :: "sop_run \<Rightarrow> json \<Rightarrow> bool \<Rightarrow> json" where
  "advance_reply run handoff replayed =
     JObj (obj_insert ''completion_replayed'' (JBool replayed)
       (obj_insert ''handoff'' (public_handoff handoff False) (run_result run None)))"

definition advance_step ::
    "sop_call \<Rightarrow> nat \<Rightarrow> advance \<Rightarrow> nat \<Rightarrow> json \<Rightarrow> sop_run \<Rightarrow> json op" where
  "advance_step c n a k handoff run =
     (let p = av_completion a in
      bindS (case Option.bind (jget handoff ''completed_at'') as_str of
          Some t \<Rightarrow> retS t | None \<Rightarrow> now_iso c) (\<lambda>completed_at.
      let run = set_run_step k (advanced_step (jlib c) p completed_at) run in
      bindS (append_run_event c (av_run a) (Some (av_step a))
        (if cp_outcome p = ''completed'' then ''step_completed'' else ''step_failed'')
        (JObj [(''handoff_id'', JStr (av_handoff a)), (''consumer_id'', JStr (av_consumer a)),
          (''principal'', JStr (cp_principal p)), (''completion_key'', JStr (cp_key p)),
          (''result_ref'', cp_result_ref p),
          (''error_message'', jopt (jget (run_steps run ! k) ''error_message''))])) (\<lambda>_.
      bindS (persist_run c run) (\<lambda>_.
      bindS (reconcile_run_and_ancestors c n (av_run a)) (\<lambda>_.
      bindS (get_run c (av_run a)) (\<lambda>run.
      retS (advance_reply run handoff False)))))))"

definition run_advance :: "sop_call \<Rightarrow> nat \<Rightarrow> jmap \<Rightarrow> json op" where
  "run_advance c n args =
     transactional c (
     bindS (liftS (read_advance (jlib c) args)) (\<lambda>a.
     bindS (get_run c (av_run a)) (\<lambda>run.
     bindS (liftS (ok_or (step_position run (av_step a)) (refuse_step ''sop_step_not_found'' (av_step a)))) (\<lambda>k.
     let step = run_steps run ! k; recorded = optional_string (jget step ''completion_fingerprint'') in
     bindS (liftS (check_advance c a run step recorded)) (\<lambda>_.
     bindS (complete_handoff c (av_handoff a) (av_run a) (av_step a) (av_consumer a) (av_token a)
       (av_completion a)) (\<lambda>(handoff, replayed).
     case recorded of
       Some fp \<Rightarrow>
         if optional_string (jget step ''completion_key'') = Some (cp_key (av_completion a)) \<and>
           fp = completion_fp (jlib c) (av_completion a) \<and> replayed
         then retS (advance_reply run handoff True)
         else denyS (diagnostic ''sop_step_completion_conflict''
           (''sop_step_completion_conflict:'' @ av_run a @ '':'' @ av_step a)
           (JObj [(''recorded_completion_key'', jopt (jget step ''completion_key'')),
             (''supplied_completion_key'', JStr (cp_key (av_completion a)))]))
     | None \<Rightarrow> advance_step c n a k handoff run))))))"

section \<open>Retrying a failed handoff\<close>

text \<open>\<^verbatim>\<open>chars().take(n).collect::<String>()\<close> on the bytes of a text.\<close>

fun first_chars :: "nat \<Rightarrow> string \<Rightarrow> string" where
  "first_chars n [] = []"
| "first_chars n (ch # s) =
     (if continuation ch then ch # first_chars n s
      else case n of 0 \<Rightarrow> [] | Suc m \<Rightarrow> ch # first_chars m s)"

definition resettable :: "string list \<Rightarrow> json \<Rightarrow> bool" where
  "resettable reset step \<longleftrightarrow>
     step_string step ''step_id'' \<notin> set reset \<and> step_status_is ''failed'' step \<and>
     (case Option.bind (jget step ''error_message'') as_str of
        None \<Rightarrow> False | Some s \<Rightarrow> starts_with ''failed_dependency:'' s) \<and>
     list_ex (\<lambda>d. d \<in> set reset) (depends_on step)"

definition reset_step :: "json \<Rightarrow> json" where
  "reset_step step =
     set_step ''result'' (JObj [])
       (fold (\<lambda>k. set_step k JNull)
         [''started_at'', ''completed_at'', ''result_ref'', ''completion_key'', ''completion_fingerprint'',
          ''error_message'', ''child_run_id'', ''action_id'', ''pinned_child_definition_fingerprint'']
         (set_step ''status'' (JStr ''pending'') step))"

fun reset_pass :: "string list \<Rightarrow> json list \<Rightarrow> json list \<times> string list" where
  "reset_pass reset [] = ([], reset)"
| "reset_pass reset (s # ss) =
     (if resettable reset s then
        (let (ss', reset') = reset_pass (step_string s ''step_id'' # reset) ss in (reset_step s # ss', reset'))
      else (let (ss', reset') = reset_pass reset ss in (s # ss', reset')))"

definition failed_steps :: "json list \<Rightarrow> nat" where
  "failed_steps steps = length (filter (step_status_is ''failed'') steps)"

lemma set_step_status: "step_status_is t (set_step ''status'' (JStr u) s) \<longleftrightarrow> (\<exists>m. s = JObj m) \<and> t = u"
  by (cases s) (auto simp: set_step_def member_is_def jget_def)

lemma set_step_other: "k \<noteq> l \<Longrightarrow> jget (set_step k v s) l = jget s l"
  by (cases s) (simp_all add: set_step_def jget_def)

lemma reset_step_status: "\<not> step_status_is ''failed'' (reset_step s)"
  by (cases s) (simp_all add: reset_step_def member_is_def set_step_def jget_def)

lemma reset_pass_failed:
  "reset_pass reset ss = (ss', reset') \<Longrightarrow>
     failed_steps ss' + length reset' = failed_steps ss + length reset"
proof (induction reset ss arbitrary: ss' reset' rule: reset_pass.induct)
  case (2 reset s ss)
  then show ?case
    by (auto simp: failed_steps_def reset_step_status resettable_def split: if_splits prod.splits)
qed (simp add: failed_steps_def)

function reset_loop :: "string list \<Rightarrow> json list \<Rightarrow> json list \<times> string list" where
  "reset_loop reset steps =
     (let (steps', reset') = reset_pass reset steps in
      if length reset < length reset' then reset_loop reset' steps' else (steps', reset'))"
  by pat_completeness auto
termination
proof (relation "measure (\<lambda>(_, steps). failed_steps steps)", goal_cases)
  case 1
  then show ?case by simp
next
  case (2 reset steps p steps' reset')
  then have "reset_pass reset steps = (steps', reset')" by (metis surj_pair)
  from reset_pass_failed [OF this] 2 show ?case by simp
qed

declare reset_loop.simps [simp del]

definition reset_retryable_dependent_steps :: "sop_run \<Rightarrow> string \<Rightarrow> sop_run \<times> string list" where
  "reset_retryable_dependent_steps run i =
     (let (steps, reset) = reset_loop [i] (run_steps run) in
      (run\<lparr>run_steps := steps\<rparr>, sort (filter (\<lambda>j. j \<noteq> i) reset)))"

definition retry_arguments :: "sop_run \<Rightarrow> string \<Rightarrow> string \<Rightarrow> jmap" where
  "retry_arguments run occurrence i =
     [(''sop_id'', JStr (run_sop_id run)), (''sop_version'', jint (run_version run)),
      (''occurrence_key'', JStr occurrence), (''input'', run_input run),
      (''input_ref'', run_input_ref run), (''trigger_source_kind'', JStr ''manual''),
      (''trigger_source_ref'', JStr (''sop_handoff_retry:'' @ i)),
      (''triggered_by'', JStr ''sop-handoff-retry'')]"

definition retry_failed_handoff_as_new_run ::
    "sop_call \<Rightarrow> nat \<Rightarrow> json \<Rightarrow> sop_run \<Rightarrow> string \<Rightarrow> string \<Rightarrow> json \<Rightarrow> json op" where
  "retry_failed_handoff_as_new_run c n handoff run who reason blocked =
     (let i = step_string handoff ''handoff_id''; step = step_string handoff ''step_id'';
          occurrence = deterministic_id (jlib c) ''sop_retry_'' i in
      bindS (admit_run c (retry_arguments run occurrence i) None None) (\<lambda>(admitted, admission).
      bindS (reconcile_run_and_ancestors c n (run_id admitted)) (\<lambda>_.
      bindS (get_run c (run_id admitted)) (\<lambda>retry_run.
      bindS (query c ''sop_handoff_query_failed'' (\<lambda>d. find_step_handoff d (run_id retry_run) step)) (\<lambda>row.
      bindS (case row of None \<Rightarrow> retS None
        | Some r \<Rightarrow> bindS (get_handoff c (hf_id r)) (\<lambda>j. retS (Some j))) (\<lambda>retry_handoff.
      bindS (if admission = ''created'' then
          append_run_event c (run_id run) (Some step) ''handoff_retry_spawned''
            (JObj [(''handoff_id'', JStr i), (''principal'', JStr who), (''reason'', JStr reason),
              (''retry_run_id'', JStr (run_id retry_run)),
              (''retry_handoff_id'', jopt (Option.bind retry_handoff (\<lambda>j. jget j ''handoff_id''))),
              (''retry_occurrence_key'', JStr occurrence),
              (''original_outbox_event_id'', jopt (Option.bind (jget blocked ''details'') (\<lambda>j. jget j ''event_id''))),
              (''original_outbox_preserved'', JBool True)])
        else retS ()) (\<lambda>_.
      retS (JObj (fold (\<lambda>p. obj_insert (fst p) (snd p))
        [(''handoff'', case retry_handoff of None \<Rightarrow> JNull | Some j \<Rightarrow> public_handoff j False),
         (''retry_replayed'', JBool (admission = ''replayed'')), (''retry_mode'', JStr ''new_run''),
         (''retry_of_run_id'', JStr (run_id run)), (''retry_of_handoff_id'', JStr i),
         (''retry_reason'', JStr reason), (''original_outbox_preserved'', JBool True)]
        (run_result retry_run (Some admission)))))))))))"

definition retry_step_valid :: "json \<Rightarrow> bool" where
  "retry_step_valid step \<longleftrightarrow>
     member_is step ''executor'' ''agent'' \<and> step_status_is ''failed'' step \<and>
     (case jget step ''completion_fingerprint'' of None \<Rightarrow> False | Some v \<Rightarrow> \<not> is_null v)"

definition reopened_row :: "string \<Rightarrow> string \<Rightarrow> handoff_row \<Rightarrow> handoff_row" where
  "reopened_row marker now r =
     r\<lparr>hf_status := ''pending'', hf_lease_owner := None, hf_lease_token := None,
       hf_lease_expires := None, hf_completion_key := None, hf_completion_fp := None,
       hf_principal := None, hf_result := JObj [], hf_result_ref := None, hf_error := None,
       hf_last_error := Some marker, hf_updated_at := now, hf_completed_at := None\<rparr>"

definition reopened_step :: "json \<Rightarrow> string \<Rightarrow> json \<Rightarrow> json" where
  "reopened_step handoff now step =
     set_step ''error_message'' JNull (set_step ''completion_fingerprint'' JNull
       (set_step ''completion_key'' JNull (set_step ''result_ref'' JNull
         (set_step ''result'' (JObj [(''handoff_id'', jopt (jget handoff ''handoff_id'')),
             (''handoff_occurrence_key'', jopt (jget handoff ''occurrence_key''))])
           (set_step ''completed_at'' JNull (set_step ''started_at'' (JStr now)
             (set_step ''status'' (JStr ''running'') step)))))))"

definition reopen_handoff ::
    "sop_call \<Rightarrow> nat \<Rightarrow> string \<Rightarrow> json \<Rightarrow> sop_run \<Rightarrow> string \<Rightarrow> nat \<Rightarrow> string \<Rightarrow> string \<Rightarrow> string option
      \<Rightarrow> json op" where
  "reopen_handoff c n i handoff run step k who reason event =
     bindS (now_iso c) (\<lambda>now.
     let (run, reset) = reset_retryable_dependent_steps run step;
         marker = first_chars 4096 (''worker_retryable:reopened:'' @ reason) in
     bindS (perform c ''sop_handoff_update_failed'' (\<lambda>_. True)
       (update_handoffs (\<lambda>r. hf_id r = i \<and> hf_status r = ''failed'') (reopened_row marker now))) (\<lambda>_.
     let run = (set_run_step k (reopened_step handoff now) run)
           \<lparr>run_status := ''awaiting_confirmation'', run_output := JObj [], run_output_ref := JNull,
            run_completed := None\<rparr> in
     bindS (persist_run c run) (\<lambda>_.
     bindS (append_run_event c (run_id run) (Some step) ''handoff_reopened''
       (JObj [(''handoff_id'', JStr i), (''principal'', JStr who), (''reason'', JStr reason),
         (''retry_marker'', JStr marker), (''reset_step_ids'', JArr (map JStr reset)),
         (''reopened_outbox_event_id'', jopt_str event)])) (\<lambda>_.
     bindS (reconcile_run_and_ancestors c n (run_id run)) (\<lambda>_.
     bindS (get_run c (run_id run)) (\<lambda>run.
     bindS (get_handoff c i) (\<lambda>handoff.
     retS (JObj (obj_insert ''retry_replayed'' (JBool False)
       (obj_insert ''handoff'' (public_handoff handoff False) (run_result run None)))))))))))"

definition retry_failed ::
    "sop_call \<Rightarrow> nat \<Rightarrow> string \<Rightarrow> json \<Rightarrow> string \<Rightarrow> string \<Rightarrow> json op" where
  "retry_failed c n i handoff who reason =
     (let run_name = step_string handoff ''run_id''; step = step_string handoff ''step_id'' in
      bindS (get_run c run_name) (\<lambda>run.
      let position = step_position run step;
          shown = (case position of None \<Rightarrow> JNull | Some k \<Rightarrow> jopt (jget (run_steps run ! k) ''status'')) in
      case position of
        Some k \<Rightarrow>
          if \<not> retry_step_valid (run_steps run ! k)
          then denyS (diagnostic ''sop_handoff_retry_state_conflict''
            (''sop_handoff_retry_state_conflict:'' @ i)
            (JObj [(''run_id'', JStr run_name), (''step_id'', JStr step),
              (''run_status'', JStr (run_status run)), (''step_status'', shown)]))
          else
            bindS (denyS_if (\<not> opt_json_eq (jget (run_steps run ! k) ''completion_fingerprint'')
                (jget handoff ''completion_fingerprint''))
              (diagnostic ''sop_handoff_retry_completion_conflict''
                (''sop_handoff_retry_completion_conflict:'' @ i)
                (JObj [(''run_id'', JStr run_name), (''step_id'', JStr step)]))) (\<lambda>_.
            bindS (reifyS (reopen_terminal_outbox_for_retry c run_name)) (\<lambda>r.
            case r of
              Inr event \<Rightarrow> reopen_handoff c n i handoff run step k who reason event
            | Inl e \<Rightarrow>
                if error_code e = Some ''sop_outbox_retry_requires_new_run''
                then retry_failed_handoff_as_new_run c n handoff run who reason e
                else denyS e))
      | None \<Rightarrow> denyS (diagnostic ''sop_handoff_retry_state_conflict''
          (''sop_handoff_retry_state_conflict:'' @ i)
          (JObj [(''run_id'', JStr run_name), (''step_id'', JStr step),
            (''run_status'', JStr (run_status run)), (''step_status'', shown)]))))"

definition handoff_retry :: "sop_call \<Rightarrow> nat \<Rightarrow> jmap \<Rightarrow> json op" where
  "handoff_retry c n args =
     transactional c (
     bindS (liftS (required_string (obj_get args ''handoff_id'') ''sop_handoff_id_required'' 512)) (\<lambda>i.
     bindS (liftS (required_string (obj_get args ''principal'') ''sop_handoff_retry_principal_required'' 512)) (\<lambda>who.
     bindS (liftS (required_string (obj_get args ''reason'') ''sop_handoff_retry_reason_required'' 4096)) (\<lambda>reason.
     bindS (get_handoff c i) (\<lambda>handoff.
     let status = step_string handoff ''status'' in
     if status \<in> {''pending'', ''leased''} then
       bindS (get_run c (step_string handoff ''run_id'')) (\<lambda>run.
       retS (JObj (obj_insert ''retry_replayed'' (JBool True)
         (obj_insert ''handoff'' (public_handoff handoff False) (run_result run None)))))
     else
       bindS (denyS_if (status \<noteq> ''failed'')
         (diagnostic ''sop_handoff_retry_requires_failed'' (''sop_handoff_retry_requires_failed:'' @ i)
           (JObj [(''status'', JStr status)]))) (\<lambda>_.
       bindS (denyS_if (\<not> member_is handoff ''executor'' ''agent'')
         (diagnostic ''sop_handoff_retry_agent_only'' (''sop_handoff_retry_agent_only:'' @ i)
           (JObj [(''executor'', jopt (jget handoff ''executor''))]))) (\<lambda>_.
       retry_failed c n i handoff who reason)))))))"

end
