(* ===== verification/Sop_Endings.thy ===== *)
theory Sop_Endings
  imports Sop_Run_Tools
begin

text \<open>
  The resolution of an action and the cancellation of a run (\<^verbatim>\<open>sop_engine/parts/03.rs\<close>, \<^verbatim>\<open>04.rs\<close>), and
  the claim of a handoff that advances its run in the same call (\<^verbatim>\<open>sop_authority/parts/04.rs\<close>).
  The resolution commits before it
  reconciles, in a transaction of its own, so that a failing reconciliation leaves it in place.
\<close>

section \<open>Resolving an action\<close>

record resolution =
  rv_action :: string
  rv_key :: string
  rv_outcome :: string
  rv_operation :: string
  rv_result :: json
  rv_result_ref :: json
  rv_error :: "string option"

definition read_resolution :: "host \<Rightarrow> jmap \<Rightarrow> json + resolution" where
  "read_resolution h args =
     bindR (required_string (obj_get args ''action_id'') ''sop_requires_action_id'' 512) (\<lambda>i.
     bindR (required_string (obj_get args ''completion_key'') ''sop_requires_completion_key'' 512) (\<lambda>key.
     bindR (required_string (obj_get args ''outcome'') ''sop_requires_outcome'' 64) (\<lambda>outcome.
     bindR (check_outcome outcome) (\<lambda>_.
     bindR (required_string (obj_get args ''operation_ref'') ''sop_requires_operation_ref'' 2048) (\<lambda>operation.
     bindR (read_outcome h args outcome) (\<lambda>(result, result_ref, message).
     Inr \<lparr>rv_action = i, rv_key = key, rv_outcome = outcome, rv_operation = operation,
       rv_result = result, rv_result_ref = result_ref, rv_error = message\<rparr>))))))"

definition resolution_fp :: "host \<Rightarrow> resolution \<Rightarrow> string" where
  "resolution_fp h v =
     fingerprint h (action_completion (Some (rv_key v)) (rv_outcome v) (Some (rv_operation v))
       (rv_result v) (rv_result_ref v) (rv_error v))"

definition resolved_row :: "host \<Rightarrow> resolution \<Rightarrow> string \<Rightarrow> action_row \<Rightarrow> action_row" where
  "resolved_row h v now r =
     r\<lparr>ac_status := rv_outcome v, ac_completion_key := Some (rv_key v),
       ac_completion_fp := Some (resolution_fp h v), ac_operation_ref := Some (rv_operation v),
       ac_result := canonicalize (rv_result v), ac_result_ref := null_column (rv_result_ref v),
       ac_error := (if rv_outcome v = ''failed'' then rv_error v else None),
       ac_updated_at := now, ac_completed_at := Some now\<rparr>"

definition resolution_event :: "bool \<Rightarrow> string \<Rightarrow> string" where
  "resolution_event late outcome =
     (if late then
        (if outcome = ''completed'' then ''action_completed_after_cancellation''
         else ''action_failed_after_cancellation'')
      else (if outcome = ''completed'' then ''action_completed'' else ''action_failed''))"

definition run_status_query :: "sop_call \<Rightarrow> string \<Rightarrow> string option op" where
  "run_status_query c i =
     query c ''sop_run_query_failed'' (\<lambda>d. map_option rn_status (find_run d i))"

text \<open>The receipt: the run, whether the resolution was recorded before, whether it comes after the
  cancellation of the run.\<close>

definition record_resolution ::
    "sop_call \<Rightarrow> resolution \<Rightarrow> json \<Rightarrow> string \<Rightarrow> bool \<Rightarrow> (string \<times> bool \<times> bool) op" where
  "record_resolution c v existing run late =
     bindS (now_iso c) (\<lambda>now.
     bindS (perform c ''sop_action_update_failed'' (\<lambda>_. True)
       (\<lambda>d. d\<lparr>actions := update_rows (\<lambda>r. ac_id r = rv_action v) (resolved_row (jlib c) v now) (actions d)\<rparr>)) (\<lambda>_.
     bindS (append_run_event c run (Some (step_string existing ''step_id''))
       (resolution_event late (rv_outcome v))
       (JObj [(''action_id'', JStr (rv_action v)), (''completion_key'', JStr (rv_key v)),
         (''operation_ref'', JStr (rv_operation v)), (''result_ref'', rv_result_ref v),
         (''error_message'', jopt_str (rv_error v))])) (\<lambda>_.
     bindS (get_action c (rv_action v)) (\<lambda>_.
     retS (run, False, late)))))"

definition resolve_receipt :: "sop_call \<Rightarrow> resolution \<Rightarrow> (string \<times> bool \<times> bool) op" where
  "resolve_receipt c v =
     bindS (get_action c (rv_action v)) (\<lambda>existing.
     let run = step_string existing ''run_id'' in
     case Option.bind (jget existing ''completion_fingerprint'') as_str of
       Some recorded \<Rightarrow>
         if member_is existing ''completion_key'' (rv_key v) \<and> recorded = resolution_fp (jlib c) v
         then bindS (run_status_query c run) (\<lambda>status. retS (run, True, status = Some ''cancelled''))
         else denyS (diagnostic ''sop_action_completion_conflict''
           (''sop_action_completion_conflict:'' @ rv_action v)
           (JObj [(''recorded_completion_key'', jopt (jget existing ''completion_key'')),
             (''supplied_completion_key'', JStr (rv_key v))]))
     | None \<Rightarrow>
         bindS (run_status_query c run) (\<lambda>status.
         bindS (liftS (ok_or status (run_missing run))) (\<lambda>status.
         let late = (member_is existing ''status'' ''cancelled'' \<and> status = ''cancelled'') in
         bindS (denyS_if (\<not> member_is existing ''status'' ''pending'' \<and> \<not> late)
           (diagnostic ''sop_action_not_pending'' (''sop_action_not_pending:'' @ rv_action v)
             (JObj [(''status'', jopt (jget existing ''status''))]))) (\<lambda>_.
         record_resolution c v existing run late))))"

definition action_resolution_run_view :: "sop_call \<Rightarrow> string \<Rightarrow> json op" where
  "action_resolution_run_view c i =
     bindS (reifyS (get_run c i)) (\<lambda>r.
     case r of
       Inr run \<Rightarrow> retS (JObj (run_result run None))
     | Inl e \<Rightarrow>
         bindS (reifyS (query c ''sop_run_query_failed'' (\<lambda>d. find_run d i))) (\<lambda>q.
         let shown = (case q of
               Inr (Some r) \<Rightarrow>
                 [(''run_id'', JStr (rn_id r)), (''sop_id'', JStr (rn_sop_id r)),
                  (''sop_version'', jint (rn_version r)), (''status'', JStr (rn_status r)),
                  (''occurrence_key'', JStr (rn_occurrence r)), (''updated_at'', JStr (rn_updated_at r))]
             | _ \<Rightarrow> [(''run_id'', JStr i)]) in
         retS (JObj (obj_insert ''diagnostic'' e (obj_insert ''unavailable'' (JBool True) shown)))))"

definition reconciliation_view :: "json option \<Rightarrow> json" where
  "reconciliation_view error =
     (case error of
        Some e \<Rightarrow> JObj [(''status'', JStr ''failed''), (''diagnostic'', e)]
      | None \<Rightarrow> JObj [(''status'', JStr ''completed'')])"

definition action_resolve :: "sop_call \<Rightarrow> nat \<Rightarrow> jmap \<Rightarrow> json op" where
  "action_resolve c n args =
     bindS (liftS (read_resolution (jlib c) args)) (\<lambda>v.
     bindS (transactional c (resolve_receipt c v)) (\<lambda>(run, replayed, late).
     bindS (if late then retS None
       else bindS (reifyS (transactional c (reconcile_run_and_ancestors c n run))) (\<lambda>r.
         retS (case r of Inl e \<Rightarrow> Some e | Inr _ \<Rightarrow> None))) (\<lambda>error.
     bindS (open_db c) (\<lambda>_.
     bindS (get_action c (rv_action v)) (\<lambda>response.
     bindS (action_resolution_run_view c run) (\<lambda>view.
     retS (set_step ''run'' view (set_step ''reconciliation'' (reconciliation_view error)
       (set_step ''late_cancellation_acknowledgement'' (JBool late)
         (set_step ''completion_replayed'' (JBool replayed) response))))))))))"

section \<open>Cancelling a run\<close>

definition cancel_rows :: "string \<Rightarrow> string \<Rightarrow> string \<Rightarrow> action_row \<Rightarrow> action_row" where
  "cancel_rows run message now r =
     (if ac_run r = run \<and> ac_status r = ''pending''
      then r\<lparr>ac_status := ''cancelled'', ac_error := Some message, ac_updated_at := now,
        ac_completed_at := Some now\<rparr>
      else r)"

definition open_handoff_of :: "string \<Rightarrow> handoff_row \<Rightarrow> bool" where
  "open_handoff_of run r \<longleftrightarrow> hf_run r = run \<and> hf_status r \<in> {''pending'', ''leased''}"

definition cancelled_handoff :: "string \<Rightarrow> string \<Rightarrow> handoff_row \<Rightarrow> handoff_row" where
  "cancelled_handoff message now r =
     (free_row ''cancelled'' (Some message) now r)\<lparr>hf_completed_at := Some now\<rparr>"

definition skip_open_step :: "sop_call \<Rightarrow> string \<Rightarrow> json \<Rightarrow> json op" where
  "skip_open_step c message step =
     (if step_status_is ''pending'' step \<or> step_status_is ''running'' step
      then skip_step c message step else retS step)"

text \<open>The part of \<^verbatim>\<open>cancel_run_internal\<close> after the children: the steps, the actions, the handoffs,
  the run and its event.\<close>

definition cancel_open_run :: "sop_call \<Rightarrow> string \<Rightarrow> sop_run \<Rightarrow> unit op" where
  "cancel_open_run c reason run =
     (let message = ''run_cancelled:'' @ reason in
      bindS (mapS (skip_open_step c message) (run_steps run)) (\<lambda>steps.
      bindS (now_iso c) (\<lambda>now.
      bindS (perform c ''sop_action_update_failed'' (\<lambda>_. True)
        (\<lambda>d. d\<lparr>actions := map (cancel_rows (run_id run) message now) (actions d)\<rparr>)) (\<lambda>_.
      bindS (perform c ''sop_handoff_update_failed'' (\<lambda>_. True)
        (update_handoffs (open_handoff_of (run_id run)) (cancelled_handoff message now))) (\<lambda>_.
      let run = (no_output ''cancelled'' run)\<lparr>run_steps := steps, run_completed := Some now\<rparr> in
      bindS (persist_run c run) (\<lambda>run.
      bindS (append_run_event c (run_id run) None ''run_cancelled'' (JObj [(''reason'', JStr reason)])) (\<lambda>_.
      put_terminal_outbox c run)))))))"

definition child_ids :: "sop_run \<Rightarrow> string list" where
  "child_ids run = List.map_filter (\<lambda>s. Option.bind (jget s ''child_run_id'') as_str) (run_steps run)"

fun cancel_run_internal :: "sop_call \<Rightarrow> nat \<Rightarrow> string \<Rightarrow> string \<Rightarrow> string list \<Rightarrow> string list op" where
  "cancel_run_internal c 0 i reason seen = stopS Unfinished"
| "cancel_run_internal c (Suc n) i reason seen =
     (if i \<in> set seen then retS seen
      else
        bindS (get_run c i) (\<lambda>run.
        if is_run_terminal (run_status run) then retS (i # seen)
        else
          bindS (foldS (\<lambda>child. cancel_run_internal c n child (''parent_cancelled:'' @ i))
            (child_ids run) (i # seen)) (\<lambda>seen.
          bindS (cancel_open_run c reason run) (\<lambda>_. retS seen))))"

definition cancellation_reply :: "sop_run \<Rightarrow> bool \<Rightarrow> json" where
  "cancellation_reply run replayed =
     JObj (obj_insert ''cancellation_replayed'' (JBool replayed) (run_result run None))"

definition run_cancel :: "sop_call \<Rightarrow> nat \<Rightarrow> jmap \<Rightarrow> json op" where
  "run_cancel c n args =
     transactional c (
     bindS (liftS (required_string (obj_get args ''run_id'') ''sop_requires_run_id'' 512)) (\<lambda>i.
     bindS (get_run c i) (\<lambda>run.
     if run_status run = ''cancelled'' then retS (cancellation_reply run True)
     else
       bindS (denyS_if (run_status run \<in> {''completed'', ''failed''})
         (diagnostic ''sop_run_already_terminal'' (''sop_run_already_terminal:'' @ i)
           (JObj [(''status'', JStr (run_status run))]))) (\<lambda>_.
       bindS (liftS (optional_bounded_string (obj_get args ''reason'')
         ''sop_cancellation_reason_too_long'' 4096)) (\<lambda>given.
       let reason = (case given of None \<Rightarrow> ''cancelled_by_caller'' | Some s \<Rightarrow> s) in
       bindS (cancel_run_internal c n i reason []) (\<lambda>_.
       bindS (reconcile_run_and_ancestors c n i) (\<lambda>_.
       bindS (get_run c i) (\<lambda>run. retS (cancellation_reply run False)))))))))"

section \<open>Claiming and advancing in one call\<close>

definition advance_arguments :: "jmap \<Rightarrow> json \<Rightarrow> jmap" where
  "advance_arguments args handoff =
     map (\<lambda>k. (k, value_or JNull (jget handoff k))) [''handoff_id'', ''run_id'', ''step_id'', ''lease_token''] @
     List.map_filter (\<lambda>k. map_option (Pair k) (obj_get args k))
       [''consumer_id'', ''completion_key'', ''outcome'', ''result'', ''result_ref'', ''error_message'',
        ''principal'']"

definition release_arguments :: "jmap \<Rightarrow> json \<Rightarrow> jmap" where
  "release_arguments args handoff =
     [(''handoff_id'', jidx handoff ''handoff_id''), (''consumer_id'', value_or JNull (obj_get args ''consumer_id'')),
      (''lease_token'', jidx handoff ''lease_token''),
      (''error_message'', JStr ''compound_advance_failed_released'')]"

definition cleanup_view :: "json \<Rightarrow> json + json \<Rightarrow> json" where
  "cleanup_view handoff r =
     (case r of
        Inr _ \<Rightarrow> JObj [(''status'', JStr ''released''), (''handoff_id'', jidx handoff ''handoff_id'')]
      | Inl e \<Rightarrow> JObj [(''status'', JStr ''release_failed''), (''error'', e)])"

definition handoff_claim_and_advance :: "sop_call \<Rightarrow> nat \<Rightarrow> jmap \<Rightarrow> json op" where
  "handoff_claim_and_advance c n args =
     bindS (handoff_claim c args) (\<lambda>claim.
     if member_is claim ''status'' ''empty'' then
       retS (JObj [(''schema'', JStr ''narada.sop.handoff_claim_and_advance.v1''),
         (''status'', JStr ''empty''), (''handoff'', JNull), (''advanced'', JBool False)])
     else
       bindS (liftS (ok_or (jget claim ''handoff'')
         (plain_refusal ''sop_handoff_claim_response_corrupt''))) (\<lambda>handoff.
       bindS (reifyS (run_advance c n (advance_arguments args handoff))) (\<lambda>r.
       case r of
         Inr result \<Rightarrow>
           retS (JObj [(''schema'', JStr ''narada.sop.handoff_claim_and_advance.v1''),
             (''status'', JStr ''advanced''), (''advanced'', JBool True), (''claim'', claim),
             (''result'', result)])
       | Inl failure \<Rightarrow>
           bindS (reifyS (handoff_release c (release_arguments args handoff))) (\<lambda>cleanup.
           denyS (set_step ''compound_cleanup'' (cleanup_view handoff cleanup) failure)))))"

end
