(* ===== verification/Sop_Authoring.thy ===== *)
theory Sop_Authoring
  imports Sop_Endings
begin

text \<open>
  The tools that author procedure templates (\<^verbatim>\<open>sop_authority/parts/02.rs\<close>, \<^verbatim>\<open>03.rs\<close>, \<^verbatim>\<open>07.rs\<close>,
  \<^verbatim>\<open>08.rs\<close>, \<^verbatim>\<open>11.rs\<close>, \<^verbatim>\<open>12.rs\<close>): create, update, deprecate, unimport and the import of a YAML file, and
  the dispatch of all tools. These tools run outside a transaction: every statement commits on its
  own. The file system, the YAML parser and the validator of the template schema are the record
  \<open>sop_files\<close>. A column written by \<^verbatim>\<open>encode\<close> holds the value itself.
\<close>

record sop_files =
  sops_dir_variable :: "string option"
  site_root :: string
  join_path :: "string \<Rightarrow> string \<Rightarrow> string"
  is_file :: "string \<Rightarrow> bool"
  file_size :: "string \<Rightarrow> string + nat"
  file_text :: "string \<Rightarrow> string + string"
  parse_yaml :: "string \<Rightarrow> string + json"
  template_schema :: "string + (json \<Rightarrow> string list)"

definition max_template_file_bytes :: nat where
  "max_template_file_bytes = 524288"

section \<open>Reading the fields of a template\<close>

definition normalize_trigger :: "json option \<Rightarrow> json + string" where
  "normalize_trigger v =
     (let value = (case optional_string v of None \<Rightarrow> ''manual'' | Some s \<Rightarrow> s);
          allowed = [''manual'', ''inbox_event'', ''schedule''] in
      bindR (refuse_if (value \<notin> set allowed)
        (diagnostic ''sop_invalid_trigger_kind'' (''sop_invalid_trigger_kind:'' @ value)
          (JObj [(''trigger_kind'', JStr value), (''allowed'', JArr (map JStr allowed))]))) (\<lambda>_. Inr value))"

definition normalize_template_status :: "json option \<Rightarrow> json + string" where
  "normalize_template_status v =
     (let value = (case optional_string v of None \<Rightarrow> ''draft'' | Some s \<Rightarrow> s);
          allowed = [''draft'', ''active'', ''deprecated''] in
      bindR (refuse_if (value \<notin> set allowed)
        (diagnostic ''sop_invalid_template_status'' (''sop_invalid_template_status:'' @ value)
          (JObj [(''status'', JStr value), (''allowed'', JArr (map JStr allowed))]))) (\<lambda>_. Inr value))"

record template_parts =
  tt_title :: string
  tt_steps :: json
  tt_input_schema :: "json option"
  tt_output :: "json option"
  tt_output_ref :: "json option"
  tt_output_schema :: "json option"
  tt_acceptance :: "json list"
  tt_evidence :: "json list"

definition template_value :: "string \<Rightarrow> template_parts \<Rightarrow> (string \<times> json) list" where
  "template_value sop t =
     [(''sop_id'', JStr sop), (''title'', JStr (tt_title t)), (''steps'', tt_steps t),
      (''input_schema'', jopt (tt_input_schema t)), (''output'', jopt (tt_output t)),
      (''output_ref'', jopt (tt_output_ref t)), (''output_schema'', jopt (tt_output_schema t)),
      (''acceptance_criteria'', JArr (tt_acceptance t)),
      (''evidence_requirements'', JArr (tt_evidence t))]"

definition assert_template_bound :: "host \<Rightarrow> json \<Rightarrow> json + unit" where
  "assert_template_bound h v = assert_bound h v ''sop_template_definition'' max_template_definition_bytes"

text \<open>The part that \<^verbatim>\<open>template_create\<close> and \<^verbatim>\<open>parse_yaml_template\<close> read alike, from \<^verbatim>\<open>steps\<close> on.\<close>

definition read_template :: "sop_host \<Rightarrow> jmap \<Rightarrow> string \<Rightarrow> string \<Rightarrow> json + template_parts" where
  "read_template h args sop title =
     bindR (validate_steps h (obj_get args ''steps'') (Some sop)) (\<lambda>steps.
     bindR (optional_schema h (obj_get args ''input_schema'') ''input_schema'') (\<lambda>input_schema.
     bindR (optional_value h (obj_get args ''output'') ''output'') (\<lambda>mapped.
     bindR (optional_value h (obj_get args ''output_ref'') ''output_ref'') (\<lambda>mapped_ref.
     bindR (optional_schema h (obj_get args ''output_schema'') ''output_schema'') (\<lambda>output_schema.
     bindR (validate_output_references h mapped steps) (\<lambda>_.
     bindR (validate_output_references h mapped_ref steps) (\<lambda>_.
     bindR (string_list (obj_get args ''acceptance_criteria'')) (\<lambda>acceptance.
     bindR (string_list (obj_get args ''evidence_requirements'')) (\<lambda>evidence.
     Inr \<lparr>tt_title = title, tt_steps = steps, tt_input_schema = input_schema, tt_output = mapped,
       tt_output_ref = mapped_ref, tt_output_schema = output_schema, tt_acceptance = acceptance,
       tt_evidence = evidence\<rparr>)))))))))"

definition step_count :: "json \<Rightarrow> json" where
  "step_count steps = jnat (case as_array steps of None \<Rightarrow> 0 | Some xs \<Rightarrow> length xs)"

section \<open>Rows\<close>

definition insert_template ::
    "sop_call \<Rightarrow> string \<Rightarrow> int \<Rightarrow> string \<Rightarrow> string \<Rightarrow> string \<Rightarrow> template_parts \<Rightarrow> string \<Rightarrow> unit op" where
  "insert_template c sop version status description trigger t now =
     (let row = \<lparr>tp_sop_id = sop, tp_version = version, tp_title = tt_title t, tp_status = status,
           tp_description = description, tp_steps = tt_steps t, tp_trigger_kind = trigger,
           tp_input_schema = tt_input_schema t, tp_output = tt_output t, tp_output_ref = tt_output_ref t,
           tp_output_schema = tt_output_schema t, tp_acceptance = JArr (tt_acceptance t),
           tp_evidence = JArr (tt_evidence t), tp_created_at = now, tp_updated_at = now\<rparr> in
      perform c ''sop_template_insert_failed'' (\<lambda>d. template_fresh d row)
        (\<lambda>d. d\<lparr>templates := templates d @ [row]\<rparr>))"

definition append_sop_event :: "sop_call \<Rightarrow> string \<Rightarrow> json \<Rightarrow> string op" where
  "append_sop_event c kind details =
     bindS (new_uuid c) (\<lambda>u.
     bindS (now_iso c) (\<lambda>now.
     let row = \<lparr>ev_id = ''soe_'' @ take 12 u, ev_run = [], ev_step = [], ev_kind = kind,
           ev_details = details, ev_recorded_at = now\<rparr> in
     bindS (perform c ''sop_event_insert_failed''
       (\<lambda>d. ev_id row \<notin> set (map ev_id (events d))) (\<lambda>d. d\<lparr>events := events d @ [row]\<rparr>)) (\<lambda>_.
     retS (ev_id row))))"

definition versions_of :: "string \<Rightarrow> sop_db \<Rightarrow> template_row list" where
  "versions_of sop d = filter (\<lambda>r. tp_sop_id r = sop) (templates d)"

definition latest_template :: "sop_call \<Rightarrow> string \<Rightarrow> template_row option op" where
  "latest_template c sop =
     query c ''sop_template_query_failed''
       (\<lambda>d. find (\<lambda>r. tp_version r = max_version (versions_of sop d)) (versions_of sop d))"

definition require_latest :: "sop_call \<Rightarrow> string \<Rightarrow> template_row op" where
  "require_latest c sop =
     bindS (latest_template c sop) (\<lambda>row. liftS (ok_or row (refuse_step ''sop_not_found'' sop)))"

section \<open>Create, update, deprecate\<close>

definition template_create :: "sop_call \<Rightarrow> jmap \<Rightarrow> json op" where
  "template_create c args =
     bindS (liftS (required_string (obj_get args ''sop_id'') ''sop_requires_sop_id'' 512)) (\<lambda>sop.
     bindS (liftS (required_string (obj_get args ''title'') ''sop_requires_title'' 512)) (\<lambda>title.
     bindS (liftS (read_template (lib c) args sop title)) (\<lambda>t.
     bindS (liftS (assert_template_bound (jlib c) (JObj (template_value sop t)))) (\<lambda>_.
     let description = (case optional_string (obj_get args ''description'') of None \<Rightarrow> [] | Some s \<Rightarrow> s) in
     bindS (liftS (normalize_trigger (obj_get args ''trigger_kind''))) (\<lambda>trigger.
     bindS (open_db c) (\<lambda>_.
     bindS (query c ''sop_template_query_failed'' (\<lambda>d. max_version (versions_of sop d))) (\<lambda>last.
     bindS (now_iso c) (\<lambda>now.
     bindS (insert_template c sop (last + 1) ''draft'' description trigger t now) (\<lambda>_.
     bindS (append_sop_event c ''template_created''
       (JObj [(''sop_id'', JStr sop), (''version'', jint (last + 1))])) (\<lambda>_.
     retS (JObj [(''status'', JStr ''created''), (''sop_id'', JStr sop), (''version'', jint (last + 1)),
       (''title'', JStr title), (''step_count'', step_count (tt_steps t))])))))))))))"

text \<open>\<^verbatim>\<open>if args.contains_key(k) { read } else { stored }\<close>\<close>

definition given_or :: "jmap \<Rightarrow> string \<Rightarrow> json + 'a \<Rightarrow> json + 'a \<Rightarrow> json + 'a" where
  "given_or args k given stored = (if obj_has args k then given else stored)"

text \<open>The order of the checks is the order of the code: the optional fields, then the references.\<close>

definition updated_template :: "sop_host \<Rightarrow> jmap \<Rightarrow> string \<Rightarrow> template_row \<Rightarrow> json + template_parts \<times> string \<times> string" where
  "updated_template h args sop r =
     (let get = obj_get args;
          title = (case optional_string (get ''title'') of None \<Rightarrow> tp_title r | Some s \<Rightarrow> s) in
      bindR (given_or args ''steps'' (validate_steps h (get ''steps'') (Some sop)) (Inr (tp_steps r))) (\<lambda>steps.
      bindR (given_or args ''input_schema'' (optional_schema h (get ''input_schema'') ''input_schema'')
        (Inr (tp_input_schema r))) (\<lambda>input_schema.
      bindR (given_or args ''output'' (optional_value h (get ''output'') ''output'') (Inr (tp_output r))) (\<lambda>mapped.
      bindR (given_or args ''output_ref'' (optional_value h (get ''output_ref'') ''output_ref'')
        (Inr (tp_output_ref r))) (\<lambda>mapped_ref.
      bindR (given_or args ''output_schema'' (optional_schema h (get ''output_schema'') ''output_schema'')
        (Inr (tp_output_schema r))) (\<lambda>output_schema.
      bindR (validate_output_references h mapped steps) (\<lambda>_.
      bindR (validate_output_references h mapped_ref steps) (\<lambda>_.
      bindR (given_or args ''trigger_kind'' (normalize_trigger (get ''trigger_kind''))
        (normalize_trigger (Some (JStr (tp_trigger_kind r))))) (\<lambda>trigger.
      bindR (normalize_template_status (get ''status'')) (\<lambda>status.
      bindR (given_or args ''acceptance_criteria'' (string_list (get ''acceptance_criteria''))
        (string_list (Some (tp_acceptance r)))) (\<lambda>acceptance.
      bindR (given_or args ''evidence_requirements'' (string_list (get ''evidence_requirements''))
        (string_list (Some (tp_evidence r)))) (\<lambda>evidence.
      let t = \<lparr>tt_title = title, tt_steps = steps, tt_input_schema = input_schema, tt_output = mapped,
            tt_output_ref = mapped_ref, tt_output_schema = output_schema, tt_acceptance = acceptance,
            tt_evidence = evidence\<rparr> in
      bindR (assert_template_bound (sop_json h) (JObj (template_value sop t))) (\<lambda>_.
      Inr (t, trigger, status))))))))))))))"

definition template_update :: "sop_call \<Rightarrow> jmap \<Rightarrow> json op" where
  "template_update c args =
     bindS (liftS (required_string (obj_get args ''sop_id'') ''sop_requires_sop_id'' 512)) (\<lambda>sop.
     bindS (open_db c) (\<lambda>_.
     bindS (require_latest c sop) (\<lambda>r.
     let description = (case optional_string (obj_get args ''description'') of
           None \<Rightarrow> tp_description r | Some s \<Rightarrow> s);
         version = tp_version r + 1 in
     bindS (liftS (updated_template (lib c) args sop r)) (\<lambda>(t, trigger, status).
     bindS (now_iso c) (\<lambda>now.
     bindS (insert_template c sop version status description trigger t now) (\<lambda>_.
     bindS (append_sop_event c ''template_updated''
       (JObj [(''sop_id'', JStr sop), (''version'', jint version),
         (''previous_version'', jint (tp_version r))])) (\<lambda>_.
     retS (JObj [(''status'', JStr ''updated''), (''sop_id'', JStr sop), (''version'', jint version),
       (''previous_version'', jint (tp_version r)), (''title'', JStr (tt_title t)),
       (''step_count'', step_count (tt_steps t))]))))))))"

definition update_templates :: "(template_row \<Rightarrow> bool) \<Rightarrow> (template_row \<Rightarrow> template_row) \<Rightarrow> sop_db \<Rightarrow> sop_db" where
  "update_templates P f d = d\<lparr>templates := update_rows P f (templates d)\<rparr>"

definition template_deprecate :: "sop_call \<Rightarrow> jmap \<Rightarrow> json op" where
  "template_deprecate c args =
     bindS (liftS (required_string (obj_get args ''sop_id'') ''sop_requires_sop_id'' 512)) (\<lambda>sop.
     bindS (open_db c) (\<lambda>_.
     bindS (require_latest c sop) (\<lambda>r.
     let version = tp_version r;
         reason = (case optional_string (obj_get args ''reason'') of
           None \<Rightarrow> [] | Some s \<Rightarrow> [(''reason'', JStr s)]) in
     bindS (perform c ''sop_template_update_failed'' (\<lambda>_. True)
       (update_templates (\<lambda>r. tp_sop_id r = sop \<and> tp_version r = version)
         (\<lambda>r. r\<lparr>tp_status := ''deprecated''\<rparr>))) (\<lambda>_.
     bindS (append_sop_event c ''template_deprecated''
       (JObj ([(''sop_id'', JStr sop), (''version'', jint version)] @ reason))) (\<lambda>_.
     retS (JObj [(''status'', JStr ''deprecated''), (''sop_id'', JStr sop), (''version'', jint version)]))))))"

section \<open>Unimport\<close>

definition requested_version :: "string \<Rightarrow> json option \<Rightarrow> json + int option" where
  "requested_version sop v =
     (case v of
        None \<Rightarrow> Inr None
      | Some w \<Rightarrow>
          if is_null w then Inr None
          else
            bindR (ok_or (as_i64 w)
              (diagnostic ''sop_invalid_version'' ''sop_invalid_version'' (JObj [(''sop_id'', JStr sop)]))) (\<lambda>i.
            bindR (refuse_if (i < 1)
              (diagnostic ''sop_invalid_version'' (''sop_invalid_version:'' @ show_int i)
                (JObj [(''sop_id'', JStr sop)]))) (\<lambda>_. Inr (Some i))))"

text \<open>\<^verbatim>\<open>order by created_at desc limit n\<close>\<close>

definition newest_runs :: "nat \<Rightarrow> run_row list \<Rightarrow> run_row list" where
  "newest_runs n rows = take n (rev (sort_key rn_created_at (rev rows)))"

definition runs_of_version :: "string \<Rightarrow> int \<Rightarrow> sop_db \<Rightarrow> run_row list" where
  "runs_of_version sop version d = filter (\<lambda>r. rn_sop_id r = sop \<and> rn_version r = version) (runs d)"

definition pinned_steps :: "string \<Rightarrow> int \<Rightarrow> run_row \<Rightarrow> json list" where
  "pinned_steps sop version r =
     map (\<lambda>s. JObj [(''run_id'', JStr (rn_id r)), (''step_id'', value_or JNull (jget s ''step_id''))])
       (filter (\<lambda>s. member_is s ''sop_id'' sop \<and> Option.bind (jget s ''sop_version'') as_i64 = Some version)
         (case as_array (rn_steps r) of None \<Rightarrow> [] | Some xs \<Rightarrow> xs))"

definition pinned_child_references :: "sop_call \<Rightarrow> string \<Rightarrow> int \<Rightarrow> json list op" where
  "pinned_child_references c sop version =
     bindS (statement c ''sop_run_query_failed'') (\<lambda>_.
     query c ''sop_run_query_failed''
       (\<lambda>d. take 20 (concat (map (pinned_steps sop version) (newest_runs 10000 (runs d))))))"

definition select_template :: "sop_call \<Rightarrow> string \<Rightarrow> int option \<Rightarrow> template_row op" where
  "select_template c sop wanted =
     bindS (case wanted of
         Some v \<Rightarrow> query c ''sop_template_query_failed'' (\<lambda>d. find_template d sop v)
       | None \<Rightarrow> latest_template c sop) (\<lambda>row.
     liftS (ok_or row (refuse_step ''sop_not_found''
       (sop @ (case wanted of None \<Rightarrow> [] | Some v \<Rightarrow> ''@v'' @ show_int v)))))"

definition run_ref :: "run_row \<Rightarrow> json" where
  "run_ref r =
     JObj [(''run_id'', JStr (rn_id r)), (''status'', JStr (rn_status r)), (''created_at'', JStr (rn_created_at r))]"

definition template_unimport :: "sop_call \<Rightarrow> jmap \<Rightarrow> json op" where
  "template_unimport c args =
     bindS (liftS (required_string (obj_get args ''sop_id'') ''sop_requires_sop_id'' 512)) (\<lambda>sop.
     bindS (liftS (required_string (obj_get args ''reason'') ''sop_unimport_requires_reason'' 4096)) (\<lambda>reason.
     bindS (liftS (required_string (obj_get args ''principal'') ''sop_unimport_requires_principal'' 512)) (\<lambda>who.
     bindS (liftS (requested_version sop (obj_get args ''version''))) (\<lambda>wanted.
     bindS (open_db c) (\<lambda>_.
     bindS (select_template c sop wanted) (\<lambda>r.
     let version = tp_version r in
     bindS (query c ''sop_run_query_failed'' (\<lambda>d. length (runs_of_version sop version d))) (\<lambda>run_count.
     bindS (statement c ''sop_run_query_failed'') (\<lambda>_.
     bindS (query c ''sop_run_query_failed''
       (\<lambda>d. map run_ref (newest_runs 10 (runs_of_version sop version d)))) (\<lambda>run_refs.
     bindS (pinned_child_references c sop version) (\<lambda>pinned.
     bindS (denyS_if (0 < run_count \<or> pinned \<noteq> [])
       (diagnostic ''sop_template_has_runs''
         (''sop_template_has_runs:'' @ sop @ ''@v'' @ show_int version)
         (JObj [(''sop_id'', JStr sop), (''version'', jint version), (''run_count'', jnat run_count),
           (''run_refs'', JArr run_refs), (''pinned_child_refs'', JArr pinned)]))) (\<lambda>_.
     bindS (perform c ''sop_template_delete_failed'' (\<lambda>_. True)
       (\<lambda>d. d\<lparr>templates := filter (\<lambda>r. \<not> (tp_sop_id r = sop \<and> tp_version r = version)) (templates d)\<rparr>)) (\<lambda>_.
     bindS (statement c ''sop_template_query_failed'') (\<lambda>_.
     bindS (query c ''sop_template_query_failed''
       (\<lambda>d. take 10000 (sort (map tp_version (versions_of sop d))))) (\<lambda>remaining.
     bindS (append_sop_event c ''template_unimported''
       (JObj [(''sop_id'', JStr sop), (''version'', jint version), (''reason'', JStr reason),
         (''principal'', JStr who), (''remaining_versions'', JArr (map jint remaining))])) (\<lambda>event.
     retS (JObj [(''status'', JStr ''unimported''), (''sop_id'', JStr sop), (''version'', jint version),
       (''remaining_versions'', JArr (map jint remaining)), (''runs_checked'', jnat run_count),
       (''event_id'', JStr event)]))))))))))))))))"

section \<open>Import of a YAML file\<close>

definition sops_dirs :: "sop_files \<Rightarrow> string list" where
  "sops_dirs f =
     take 10 (rev (remdups (rev
       ((case sops_dir_variable f of None \<Rightarrow> [] | Some dir \<Rightarrow> [dir]) @
        [join_path f (site_root f) ''sops'', join_path f (site_root f) ''.ai/sops'']))))"

definition yaml_refusal :: "string \<Rightarrow> string \<Rightarrow> (string \<times> json) list \<Rightarrow> json" where
  "yaml_refusal code rest details = diagnostic code (code @ '':'' @ rest) (JObj details)"

definition yaml_document :: "sop_files \<Rightarrow> string \<Rightarrow> string \<Rightarrow> json + jmap" where
  "yaml_document f path sop =
     (let reading = (\<lambda>m. yaml_refusal ''sop_yaml_read_error'' sop [(''yaml_path'', JStr path), (''message'', JStr m)]) in
      bindR (case file_size f path of Inl m \<Rightarrow> Inl (reading m) | Inr n \<Rightarrow> Inr n) (\<lambda>bytes.
      bindR (refuse_if (max_template_file_bytes < bytes)
        (yaml_refusal ''sop_yaml_too_large'' sop [(''yaml_path'', JStr path),
          (''byte_length'', jnat bytes), (''max_bytes'', jnat max_template_file_bytes)])) (\<lambda>_.
      bindR (case file_text f path of Inl m \<Rightarrow> Inl (reading m) | Inr s \<Rightarrow> Inr s) (\<lambda>raw.
      bindR (case parse_yaml f raw of
          Inl m \<Rightarrow> Inl (yaml_refusal ''sop_yaml_parse_error'' sop [(''yaml_path'', JStr path), (''message'', JStr m)])
        | Inr v \<Rightarrow> Inr v) (\<lambda>document.
      bindR (case template_schema f of
          Inl m \<Rightarrow> Inl (diagnostic ''sop_schema_load_failed'' m (JObj []))
        | Inr errors \<Rightarrow> Inr (take 20 (errors document))) (\<lambda>errors.
      bindR (refuse_if (errors \<noteq> [])
        (yaml_refusal ''sop_yaml_schema_error'' sop
          [(''yaml_path'', JStr path), (''errors'', JStr (joined ''; '' errors))])) (\<lambda>_.
      ok_or (as_object document)
        (yaml_refusal ''sop_yaml_schema_error'' sop
          [(''yaml_path'', JStr path), (''errors'', JStr ''(root) must be object'')]))))))))"

record yaml_template =
  yt_parts :: template_parts
  yt_status :: string
  yt_description :: string
  yt_trigger :: string

definition parse_yaml_template :: "sop_host \<Rightarrow> sop_files \<Rightarrow> string \<Rightarrow> string \<Rightarrow> json + yaml_template" where
  "parse_yaml_template h f path sop =
     bindR (yaml_document f path sop) (\<lambda>m.
     bindR (required_string (obj_get m ''sop_id'') ''sop_yaml_requires_sop_id'' 512) (\<lambda>yaml_id.
     bindR (refuse_if (yaml_id \<noteq> sop)
       (yaml_refusal ''sop_yaml_id_mismatch'' (''arg='' @ sop @ '' yaml='' @ yaml_id)
         [(''yaml_path'', JStr path)])) (\<lambda>_.
     bindR (required_string (obj_get m ''title'') ''sop_yaml_requires_title'' 512) (\<lambda>title.
     let description = (case optional_string (obj_get m ''description'') of None \<Rightarrow> [] | Some s \<Rightarrow> s) in
     bindR (normalize_trigger (obj_get m ''trigger_kind'')) (\<lambda>trigger.
     bindR (normalize_template_status (obj_get m ''status'')) (\<lambda>status.
     bindR (read_template h m yaml_id title) (\<lambda>t.
     bindR (assert_template_bound (sop_json h)
       (JObj (template_value yaml_id t @ [(''description'', JStr description),
         (''trigger_kind'', JStr trigger), (''status'', JStr status)]))) (\<lambda>_.
     Inr \<lparr>yt_parts = t, yt_status = status, yt_description = description, yt_trigger = trigger\<rparr>))))))))"

definition template_matches :: "template_row \<Rightarrow> yaml_template \<Rightarrow> bool" where
  "template_matches r y =
     (let t = yt_parts y in
      tp_title r = tt_title t \<and> tp_status r = yt_status y \<and> tp_description r = yt_description y \<and>
      tp_trigger_kind r = yt_trigger y \<and> json_eq (tp_steps r) (tt_steps t) \<and>
      json_eq (jopt (tp_input_schema r)) (jopt (tt_input_schema t)) \<and>
      json_eq (jopt (tp_output r)) (jopt (tt_output t)) \<and>
      json_eq (jopt (tp_output_ref r)) (jopt (tt_output_ref t)) \<and>
      json_eq (jopt (tp_output_schema r)) (jopt (tt_output_schema t)) \<and>
      json_eq (tp_acceptance r) (JArr (tt_acceptance t)) \<and>
      json_eq (tp_evidence r) (JArr (tt_evidence t)))"

definition import_version :: "sop_call \<Rightarrow> string \<Rightarrow> string \<Rightarrow> yaml_template \<Rightarrow> template_row option \<Rightarrow> json op" where
  "import_version c sop path y current =
     (let previous = map_option tp_version current;
          version = (case previous of None \<Rightarrow> 1 | Some v \<Rightarrow> v + 1);
          t = yt_parts y;
          prior = (case previous of None \<Rightarrow> [] | Some v \<Rightarrow> [(''previous_version'', jint v)]) in
      bindS (now_iso c) (\<lambda>now.
      bindS (insert_template c sop version (yt_status y) (yt_description y) (yt_trigger y) t now) (\<lambda>_.
      bindS (append_sop_event c (if previous = None then ''template_created'' else ''template_updated'')
        (JObj ([(''sop_id'', JStr sop), (''version'', jint version)] @ prior @
          [(''source'', JStr ''yaml_import''), (''yaml_path'', JStr path)]))) (\<lambda>_.
      retS (JObj ([(''status'', JStr (if previous = None then ''created'' else ''updated'')),
        (''sop_id'', JStr sop), (''version'', jint version)] @ prior @
        [(''title'', JStr (tt_title t)), (''step_count'', step_count (tt_steps t))]))))))"

definition template_import_yaml :: "sop_call \<Rightarrow> sop_files \<Rightarrow> jmap \<Rightarrow> json op" where
  "template_import_yaml c f args =
     bindS (liftS (required_string (obj_get args ''sop_id'') ''sop_requires_sop_id'' 512)) (\<lambda>sop.
     let file_name = sop @ ''.sop.yaml'' in
     bindS (liftS (ok_or (find (is_file f) (map (\<lambda>dir. join_path f dir file_name) (sops_dirs f)))
       (yaml_refusal ''sop_yaml_not_found'' sop
         [(''searched'', JArr (map JStr (sops_dirs f))), (''file'', JStr file_name)]))) (\<lambda>path.
     bindS (liftS (parse_yaml_template (lib c) f path sop)) (\<lambda>y.
     bindS (open_db c) (\<lambda>_.
     bindS (latest_template c sop) (\<lambda>current.
     case current of
       None \<Rightarrow> import_version c sop path y None
     | Some r \<Rightarrow>
         if template_matches r y
         then retS (JObj [(''status'', JStr ''unchanged''), (''sop_id'', JStr sop),
           (''version'', jint (tp_version r)), (''title'', JStr (tt_title (yt_parts y))),
           (''step_count'', step_count (tt_steps (yt_parts y)))])
         else import_version c sop path y (Some r))))))"

section \<open>Dispatch\<close>

definition unknown_tool :: "string \<Rightarrow> json" where
  "unknown_tool name =
     diagnostic ''unknown_tool'' (''unknown_tool:'' @ name) (JObj [(''tool_name'', JStr name)])"

definition engine_call :: "sop_call \<Rightarrow> nat \<Rightarrow> string \<Rightarrow> jmap \<Rightarrow> json op" where
  "engine_call c n name args =
     (if name = ''sop_run_start'' then run_start c n args
      else if name = ''sop_run_refresh'' then run_refresh c n args
      else if name = ''sop_run_advance'' then run_advance c n args
      else if name = ''sop_handoff_retry'' then handoff_retry c n args
      else if name = ''sop_action_resolve'' then action_resolve c n args
      else if name = ''sop_run_cancel'' then run_cancel c n args
      else denyS (unknown_tool name))"

definition engine_tools :: "string list" where
  "engine_tools =
     [''sop_run_start'', ''sop_run_refresh'', ''sop_run_advance'', ''sop_handoff_retry'',
      ''sop_action_resolve'', ''sop_run_cancel'']"

definition authority_call :: "sop_call \<Rightarrow> sop_files \<Rightarrow> nat \<Rightarrow> string \<Rightarrow> jmap \<Rightarrow> json op" where
  "authority_call c f n name args =
     (if name = ''sop_template_create'' then template_create c args
      else if name = ''sop_template_update'' then template_update c args
      else if name = ''sop_template_deprecate'' then template_deprecate c args
      else if name = ''sop_template_unimport'' then template_unimport c args
      else if name = ''sop_template_import_yaml'' then template_import_yaml c f args
      else if name = ''sop_handoff_claim'' then handoff_claim c args
      else if name = ''sop_handoff_claim_and_advance'' then handoff_claim_and_advance c n args
      else if name = ''sop_handoff_renew'' then handoff_renew c args
      else if name = ''sop_handoff_release'' then handoff_release c args
      else if name = ''sop_outbox_consumer_register'' then outbox_consumer_register c args
      else if name = ''sop_outbox_ack'' then outbox_ack c args
      else if name = ''sop_outbox_compact'' then outbox_compact c args
      else if name \<in> set engine_tools then engine_call c n name args
      else denyS (unknown_tool name))"

end
