(* ===== verification/Sop_Orders.thy ===== *)
theory Sop_Orders
  imports Sop_Authoring
begin

text \<open>
  Every tool of the procedure surface as a move along an order of databases. The locale
  \<open>engine_order\<close> states one law per kind of write that the code makes; inside it every operation, up
  to the two dispatchers, is shown to move the tables along the order. \<open>Sop_History\<close> interprets it.
\<close>

section \<open>What never changes in a row\<close>

definition run_identity :: "run_row \<Rightarrow> run_row" where
  "run_identity r =
     r\<lparr>rn_status := [], rn_output := JNull, rn_output_ref := None, rn_steps := JNull,
       rn_updated_at := [], rn_completed_at := None\<rparr>"

definition action_identity :: "action_row \<Rightarrow> action_row" where
  "action_identity r =
     r\<lparr>ac_status := [], ac_completion_key := None, ac_completion_fp := None, ac_operation_ref := None,
       ac_result := JNull, ac_result_ref := None, ac_error := None, ac_updated_at := [],
       ac_completed_at := None\<rparr>"

definition handoff_identity :: "handoff_row \<Rightarrow> handoff_row" where
  "handoff_identity r =
     r\<lparr>hf_status := [], hf_lease_owner := None, hf_lease_token := None, hf_lease_expires := None,
       hf_attempts := 0, hf_last_error := None, hf_completion_key := None, hf_completion_fp := None,
       hf_principal := None, hf_result := JNull, hf_result_ref := None, hf_error := None,
       hf_updated_at := [], hf_completed_at := None\<rparr>"

definition outbox_identity :: "outbox_row \<Rightarrow> outbox_row" where
  "outbox_identity r = r\<lparr>ob_payload := JNull, ob_compacted_at := None\<rparr>"

definition template_identity :: "template_row \<Rightarrow> template_row" where
  "template_identity r = r\<lparr>tp_status := []\<rparr>"

text \<open>Texts that \<^verbatim>\<open>trim\<close> leaves as they are. A uuid has no white space, so the id of a run is plain.\<close>

definition tight :: "string \<Rightarrow> bool" where
  "tight s \<longleftrightarrow> trim s = s"

definition plain_uuids :: "sop_call \<Rightarrow> bool" where
  "plain_uuids c \<longleftrightarrow> (\<forall>n. list_all plain (uuid_at c n))"

lemma trim_start_plain: "plain a \<Longrightarrow> trim_start (a # s) = a # s"
  by (cases "a # s" rule: trim_start.cases) (auto simp: plain_two plain_three plain_ascii)

lemma trim_rev_plain: "plain a \<Longrightarrow> trim_rev (a # s) = a # s"
  by (cases "a # s" rule: trim_rev.cases) (auto simp: plain_two plain_three plain_ascii)

lemma tight_ends: "plain a \<Longrightarrow> plain (last (b # s)) \<Longrightarrow> tight (a # b # s)"
  by (cases "b # s" rule: rev_cases)
    (auto simp: tight_def trim_def trim_start_plain trim_rev_plain)

lemma new_run_id_tight:
  assumes "list_all plain u"
  shows "tight (''sop_run_'' @ t @ ''_'' @ take n u)"
proof -
  have "list_all plain (''_'' @ take n u)"
    using assms by (auto simp: list_all_iff plain_def ws_ascii_def byte_def dest: in_set_takeD)
  then have "plain (last (''_'' @ take n u))"
    by (metis append_Cons last_in_set list.distinct(1) list_all_iff)
  then have "plain (last (''op_run_'' @ t @ ''_'' @ take n u))"
    by (simp add: last_append)
  then show ?thesis
    using tight_ends [of "CHR ''s''" "CHR ''o''" "''p_run_'' @ t @ ''_'' @ take n u"]
    by (simp add: plain_def ws_ascii_def byte_def)
qed

lemma bindS_assoc: "bindS (bindS m f) g = bindS m (\<lambda>x. bindS (f x) g)"
  by (rule ext) (simp add: bindS_def split: sum.splits prod.splits)

lemma bindS_ret: "bindS (retS x) f = f x"
  by (rule ext) (simp add: bindS_def retS_def)

section \<open>The laws\<close>

named_theorems moves_intros \<open>operations that move along the order\<close>

text \<open>The writes that leave the rows of runs and the number of outbox events alone.\<close>

locale quiet_order = table_order R for R +
  fixes c :: sop_call
  assumes new_template: "template_fresh d t \<Longrightarrow> R d (d\<lparr>templates := templates d @ [t]\<rparr>)"
    and change_template:
      "(\<And>t. template_identity (f t) = template_identity t) \<Longrightarrow> R d (d\<lparr>templates := map f (templates d)\<rparr>)"
    and drop_template: "R d (d\<lparr>templates := filter P (templates d)\<rparr>)"
    and new_run: "run_fresh d r \<Longrightarrow> (plain_uuids c \<Longrightarrow> tight (rn_id r)) \<Longrightarrow> R d (d\<lparr>runs := runs d @ [r]\<rparr>)"
    and new_event: "ev_id e \<notin> set (map ev_id (events d)) \<Longrightarrow> R d (d\<lparr>events := events d @ [e]\<rparr>)"
    and new_action: "action_fresh d a \<Longrightarrow> R d (d\<lparr>actions := actions d @ [a]\<rparr>)"
    and change_action:
      "(\<And>a. action_identity (k a) = action_identity a) \<Longrightarrow> R d (d\<lparr>actions := map k (actions d)\<rparr>)"
    and new_handoff: "handoff_fresh d q \<Longrightarrow> R d (d\<lparr>handoffs := handoffs d @ [q]\<rparr>)"
    and change_handoff:
      "(\<And>q. handoff_identity (l q) = handoff_identity q) \<Longrightarrow> R d (d\<lparr>handoffs := map l (handoffs d)\<rparr>)"
    and change_outbox:
      "(\<And>b. outbox_identity (o' b) = outbox_identity b) \<Longrightarrow> R d (d\<lparr>outbox := map o' (outbox d)\<rparr>)"
    and new_requirement:
      "requirement_fresh d m \<Longrightarrow> R d (d\<lparr>requirements := requirements d @ [m]\<rparr>)"
    and new_receipt: "receipt_fresh d p \<Longrightarrow> R d (d\<lparr>receipts := receipts d @ [p]\<rparr>)"
begin

section \<open>The combinators\<close>

lemmas moves_of_reads = reads_intros [THEN moves_reads]

lemma moves_basic [moves_intros]:
  "moves R (retS x)" "moves R (stopS e)" "moves R (liftS r)" "moves R (denyS_if b v)" "moves R (getS f)"
  "moves R (now_iso c)" "moves R (now_utc c)" "moves R (new_uuid c)" "moves R (statement c code)"
  "moves R (query c code f)" "moves R (after_millis c t ms)" "moves R (open_db c)"
  by (auto intro!: moves_reads reads_intros)

lemma moves_if [moves_intros]: "moves R m \<Longrightarrow> moves R n \<Longrightarrow> moves R (if b then m else n)"
  by simp

lemma moves_option [moves_intros]:
  "moves R m \<Longrightarrow> (\<And>x. v = Some x \<Longrightarrow> moves R (f x)) \<Longrightarrow> moves R (case v of None \<Rightarrow> m | Some x \<Rightarrow> f x)"
  by (cases v) auto

lemma moves_sum [moves_intros]:
  "(\<And>e. v = Inl e \<Longrightarrow> moves R (g e)) \<Longrightarrow> (\<And>x. v = Inr x \<Longrightarrow> moves R (f x)) \<Longrightarrow>
     moves R (case v of Inl e \<Rightarrow> g e | Inr x \<Rightarrow> f x)"
  by (cases v) auto

lemma moves_pair [moves_intros]: "(\<And>x y. v = (x, y) \<Longrightarrow> moves R (f x y)) \<Longrightarrow> moves R (case v of (x, y) \<Rightarrow> f x y)"
  by (cases v) auto

lemma moves_list [moves_intros]:
  "moves R m \<Longrightarrow> (\<And>x xs. v = x # xs \<Longrightarrow> moves R (f x xs)) \<Longrightarrow> moves R (case v of [] \<Rightarrow> m | x # xs \<Rightarrow> f x xs)"
  by (cases v) auto

lemma moves_mapS [moves_intros]: "(\<And>x. moves R (f x)) \<Longrightarrow> moves R (mapS f xs)"
  by (induction xs) (auto intro: moves_bind moves_basic)

lemmas moves_seq [moves_intros] = moves_bind moves_reify moves_foldS moves_transactional

section \<open>Runs and events\<close>

lemma moves_get_run [moves_intros]: "moves R (get_run c i)"
  unfolding get_run_def by (intro moves_intros)

lemma moves_append_run_event [moves_intros]: "moves R (append_run_event c i s k v)"
  unfolding append_run_event_def Let_def by (intro moves_intros moves_perform new_event)

lemma moves_append_sop_event [moves_intros]: "moves R (append_sop_event c k v)"
  unfolding append_sop_event_def Let_def by (intro moves_intros moves_perform new_event)

section \<open>Handoffs\<close>

lemma moves_get_handoff [moves_intros]: "moves R (get_handoff c i)"
  unfolding get_handoff_def by (intro moves_intros)

lemma moves_update_handoffs:
  "(\<And>q. handoff_identity (f q) = handoff_identity q) \<Longrightarrow> moves R (perform c code ok (update_handoffs P f))"
  unfolding update_handoffs_def update_rows_def by (intro moves_perform change_handoff) simp

lemma row_identities [simp]:
  "handoff_identity (lease_row x y z n r) = handoff_identity r"
  "handoff_identity (free_row s m n r) = handoff_identity r"
  "handoff_identity (complete_row h p n r) = handoff_identity r"
  "handoff_identity (reopened_row x n r) = handoff_identity r"
  "handoff_identity (cancelled_handoff y n r) = handoff_identity r"
  "handoff_identity (r\<lparr>hf_lease_expires := e, hf_updated_at := n\<rparr>) = handoff_identity r"
  "action_identity (resolved_row h v n a) = action_identity a"
  "action_identity (cancel_rows i z n a) = action_identity a"
  by (simp_all add: handoff_identity_def action_identity_def lease_row_def free_row_def complete_row_def
      reopened_row_def cancelled_handoff_def resolved_row_def cancel_rows_def)

lemma moves_take_lease [moves_intros]: "moves R (take_lease c x ms now i)"
  unfolding take_lease_def Let_def by (intro moves_intros moves_update_handoffs) simp

lemma moves_handoff_claim [moves_intros]: "moves R (handoff_claim c args)"
  unfolding handoff_claim_def Let_def by (intro moves_intros)

lemma moves_require_lease [moves_intros]: "moves R (require_lease c args now b)"
  unfolding require_lease_def Let_def by (intro moves_intros)

lemma moves_handoff_renew [moves_intros]: "moves R (handoff_renew c args)"
  unfolding handoff_renew_def Let_def by (intro moves_intros moves_update_handoffs) simp

lemma moves_handoff_release [moves_intros]: "moves R (handoff_release c args)"
  unfolding handoff_release_def Let_def by (intro moves_intros moves_update_handoffs) simp

lemma moves_insert_handoff [moves_intros]: "moves R (insert_handoff c row)"
  unfolding insert_handoff_def by (intro moves_perform new_handoff) simp

lemma moves_ensure_handoff_intent [moves_intros]: "moves R (ensure_handoff_intent c run step r)"
  unfolding ensure_handoff_intent_def by (intro moves_intros)

lemma moves_complete_handoff [moves_intros]: "moves R (complete_handoff c i run step x t p)"
  unfolding complete_handoff_def Let_def by (intro moves_intros moves_update_handoffs) simp

section \<open>Actions\<close>

lemma moves_get_action [moves_intros]: "moves R (get_action c i)"
  unfolding get_action_def by (intro moves_intros)

lemma moves_insert_action [moves_intros]: "moves R (insert_action c row)"
  unfolding insert_action_def by (intro moves_perform new_action)

lemma moves_ensure_action_intent [moves_intros]: "moves R (ensure_action_intent c run step)"
  unfolding ensure_action_intent_def by (intro moves_intros)

section \<open>The outbox\<close>

lemma moves_require_outbox_event [moves_intros]: "moves R (require_outbox_event c i)"
  unfolding require_outbox_event_def by (intro moves_intros)

lemma moves_outbox_consumer_register [moves_intros]: "moves R (outbox_consumer_register c args)"
  unfolding outbox_consumer_register_def Let_def
  by (intro moves_intros moves_perform new_requirement)

lemma moves_store_receipt [moves_intros]: "moves R (store_receipt c i x v)"
  unfolding store_receipt_def Let_def by (intro moves_intros moves_perform new_receipt) simp

lemma moves_outbox_ack [moves_intros]: "moves R (outbox_ack c args)"
  unfolding outbox_ack_def Let_def by (intro moves_intros)

lemma moves_outbox_compact [moves_intros]: "moves R (outbox_compact c args)"
  unfolding outbox_compact_def Let_def update_rows_def
  by (intro moves_intros moves_perform change_outbox) (simp add: outbox_identity_def)

section \<open>Admission\<close>

lemma moves_template_by_version [moves_intros]: "moves R (template_by_version c sop v)"
  unfolding template_by_version_def by (intro moves_intros)

lemma moves_latest_runnable [moves_intros]: "moves R (latest_runnable_template_version c sop)"
  unfolding latest_runnable_template_version_def by (intro moves_intros)

lemma moves_initialize_step [moves_intros]: "moves R (initialize_step c step)"
  unfolding initialize_step_def Let_def by (intro moves_intros)

lemma moves_initialize_step_states [moves_intros]: "moves R (initialize_step_states c template)"
  unfolding initialize_step_states_def by (intro moves_intros)

lemma moves_parent_chain [moves_intros]: "moves R (parent_chain c sop v n p seen chain)"
proof (induction n arbitrary: p seen chain)
  case 0
  then show ?case by (cases p) (auto intro: moves_intros)
next
  case (Suc n)
  then show ?case
    by (cases p) (auto simp: Let_def intro!: moves_intros)
qed

lemma moves_assert_no_recursive_child [moves_intros]: "moves R (assert_no_recursive_child c p sop v)"
  unfolding assert_no_recursive_child_def by (intro moves_intros)

lemma moves_admission_version [moves_intros]: "moves R (admission_version c args sop r)"
  unfolding admission_version_def by (intro moves_intros)

lemma moves_new_run_id [moves_intros]: "moves R (new_run_id c)"
  unfolding new_run_id_def by (intro moves_intros)

text \<open>The id of a new run is tight.\<close>

lemma moves_bind_uuid:
  assumes "\<And>n. moves R (f (uuid_at c n))"
  shows "moves R (bindS (new_uuid c) f)"
  unfolding moves_def
proof
  fix w :: sop_world
  show "R (tables w) (tables (snd (bindS (new_uuid c) f w)))"
    using assms [of "draws w", unfolded moves_def, rule_format, of "w\<lparr>draws := Suc (draws w)\<rparr>"]
    by (simp add: bindS_def new_uuid_def drawS_def)
qed

lemma moves_bind_new_run_id:
  assumes "\<And>i. (plain_uuids c \<Longrightarrow> tight i) \<Longrightarrow> moves R (f i)"
  shows "moves R (bindS (new_run_id c) f)"
  unfolding new_run_id_def bindS_assoc bindS_ret
  by (intro moves_bind [of "now_iso c"] moves_bind_uuid assms moves_intros) (rule new_run_id_tight, simp add: plain_uuids_def)

lemma moves_insert_run: "(plain_uuids c \<Longrightarrow> tight (rn_id row)) \<Longrightarrow> moves R (insert_run c row)"
  unfolding insert_run_def by (intro moves_perform new_run)

lemma moves_create_run [moves_intros]: "moves R (create_run c a v p s t)"
  unfolding create_run_def Let_def
  by (intro moves_bind_new_run_id moves_insert_run moves_intros) (simp add: new_run_row_def)

lemma moves_replay_run [moves_intros]: "moves R (replay_run c a v fp row)"
  unfolding replay_run_def by (intro moves_intros)

lemma moves_admit_run [moves_intros]: "moves R (admit_run c args p s)"
  unfolding admit_run_def by (intro moves_intros)

section \<open>Reconciliation\<close>

lemma moves_on_step [moves_intros]: "(\<And>s. moves R (f s)) \<Longrightarrow> moves R (on_step i f run)"
  unfolding on_step_def by (intro moves_intros)

lemma moves_fail_step [moves_intros]: "moves R (fail_step c m s)"
  unfolding fail_step_def by (intro moves_intros)

lemma moves_skip_step [moves_intros]: "moves R (skip_step c m s)"
  unfolding skip_step_def by (intro moves_intros)

lemma moves_moved [moves_intros]: "moves R (moved run)"
  unfolding moved_def by (intro moves_intros)

lemma moves_complete_step [moves_intros]:
  "moves R (complete_step_with_bounded_run_state c i stamp full ref small run)"
  unfolding complete_step_with_bounded_run_state_def omit_result_def Let_def by (intro moves_intros)

lemma moves_running_manual [moves_intros]: "moves R (running_manual c i step run)"
  unfolding running_manual_def Let_def by (intro moves_intros)

lemma moves_child_completed [moves_intros]: "moves R (child_completed c i step child run)"
  unfolding child_completed_def Let_def by (intro moves_intros)

lemma moves_child_ended [moves_intros]: "moves R (child_ended c i step child run)"
  unfolding child_ended_def Let_def by (intro moves_intros)

lemma moves_running_child [moves_intros]:
  "(\<And>i. moves R (rec i)) \<Longrightarrow> moves R (running_child c rec i step run)"
  unfolding running_child_def by (intro moves_intros)

lemma moves_running_action [moves_intros]: "moves R (running_action c i step run)"
  unfolding running_action_def action_completed_def action_ended_def Let_def by (intro moves_intros)

lemma moves_running_step [moves_intros]: "(\<And>i. moves R (rec i)) \<Longrightarrow> moves R (running_step c rec i run)"
  unfolding running_step_def Let_def by (intro moves_intros)

lemma moves_each_step [moves_intros]: "(\<And>i run. moves R (f i run)) \<Longrightarrow> moves R (each_step f run)"
  unfolding each_step_def by (intro moves_intros)

lemma moves_try [moves_intros]: "moves R m \<Longrightarrow> (\<And>x. moves R (f x)) \<Longrightarrow> moves R (tryS m run f)"
  unfolding tryS_def by (intro moves_intros)

lemma moves_started [moves_intros]: "moves R (started c run step kind details)"
  unfolding started_def by (intro moves_intros)

lemma moves_start_child_run [moves_intros]:
  "(\<And>i. moves R (rec i)) \<Longrightarrow> moves R (start_child_run c rec run step)"
  unfolding start_child_run_def by (intro moves_intros)

lemma moves_start_step [moves_intros]:
  "(\<And>i. moves R (rec i)) \<Longrightarrow> moves R (start_step c rec i step ins run)"
  unfolding start_step_def start_engine_def start_manual_def start_action_def start_sop_def Let_def
  by (intro moves_intros)

lemma moves_pending_step [moves_intros]: "(\<And>i. moves R (rec i)) \<Longrightarrow> moves R (pending_step c rec i run)"
  unfolding pending_step_def attempt_def Let_def by (intro moves_intros)

lemma moves_reconcile_passes [moves_intros]:
  "(\<And>i. moves R (rec i)) \<Longrightarrow> moves R (reconcile_passes c rec m run ch)"
  by (induction m arbitrary: run ch)
    (auto simp: reconcile_passes.simps reconcile_running_steps_def reconcile_pending_steps_def Let_def
      intro!: moves_intros)

section \<open>The resolution of an action\<close>

lemma moves_record_resolution [moves_intros]: "moves R (record_resolution c v existing run late)"
  unfolding record_resolution_def update_rows_def
  by (intro moves_intros moves_perform change_action) simp

lemma moves_resolve_receipt [moves_intros]: "moves R (resolve_receipt c v)"
  unfolding resolve_receipt_def run_status_query_def Let_def by (intro moves_intros)

section \<open>The tools on templates\<close>

lemma moves_insert_template [moves_intros]: "moves R (insert_template c sop v s e t p now)"
  unfolding insert_template_def Let_def by (intro moves_perform new_template)

lemma moves_latest_template [moves_intros]: "moves R (latest_template c sop)"
  unfolding latest_template_def by (intro moves_intros)

lemma moves_template_create [moves_intros]: "moves R (template_create c args)"
  unfolding template_create_def Let_def by (intro moves_intros)

lemma moves_template_update [moves_intros]: "moves R (template_update c args)"
  unfolding template_update_def require_latest_def Let_def by (intro moves_intros)

lemma moves_template_deprecate [moves_intros]: "moves R (template_deprecate c args)"
  unfolding template_deprecate_def require_latest_def update_templates_def update_rows_def Let_def
  by (intro moves_intros moves_perform change_template) (simp add: template_identity_def)

lemma moves_template_unimport [moves_intros]: "moves R (template_unimport c args)"
  unfolding template_unimport_def select_template_def pinned_child_references_def Let_def
  by (intro moves_intros moves_perform drop_template)

lemma moves_template_import_yaml [moves_intros]: "moves R (template_import_yaml c g args)"
  unfolding template_import_yaml_def import_version_def Let_def by (intro moves_intros)

end

section \<open>All writes\<close>

locale engine_order = quiet_order +
  assumes change_run: "(\<And>r. run_identity (g r) = run_identity r) \<Longrightarrow> R d (d\<lparr>runs := map g (runs d)\<rparr>)"
    and new_outbox: "outbox_fresh d b \<Longrightarrow> R d (d\<lparr>outbox := outbox d @ [b]\<rparr>)"
    and drop_outbox:
      "(\<And>b q. b \<in> set (outbox d) \<Longrightarrow> \<not> Q b \<Longrightarrow> q \<in> set (receipts d) \<Longrightarrow> rc_event q \<noteq> ob_id b) \<Longrightarrow>
        R d (d\<lparr>outbox := filter Q (outbox d)\<rparr>)"
begin

lemma moves_persist_run [moves_intros]: "moves R (persist_run c run)"
  unfolding persist_run_def Let_def write_run_def update_rows_def
  by (intro moves_intros moves_perform change_run) (simp add: run_identity_def)

lemma moves_put_terminal_outbox [moves_intros]: "moves R (put_terminal_outbox c run)"
  unfolding put_terminal_outbox_def Let_def
  by (intro moves_intros moves_perform new_outbox) simp

lemma moves_reopen_terminal_outbox [moves_intros]: "moves R (reopen_terminal_outbox_for_retry c run)"
  unfolding reopen_terminal_outbox_for_retry_def Let_def
  by (intro moves_intros moves_perform drop_outbox) (auto simp: list_all_iff list_ex_iff)

lemma moves_settle_run [moves_intros]: "moves R (settle_run c run ch)"
  unfolding settle_run_def finish_run_def record_status_def Let_def by (intro moves_intros)

lemma moves_reconcile_run [moves_intros]: "moves R (reconcile_run c n stack i)"
  by (induction n arbitrary: stack i) (auto intro!: moves_intros)

lemma moves_ancestors_loop [moves_intros]: "moves R (ancestors_loop c n m seen i)"
proof (induction m arbitrary: seen i)
  case 0
  then show ?case by (cases i) (auto intro: moves_intros)
next
  case (Suc m)
  then show ?case by (cases i) (auto intro!: moves_intros)
qed

lemma moves_reconcile_run_and_ancestors [moves_intros]: "moves R (reconcile_run_and_ancestors c n i)"
  unfolding reconcile_run_and_ancestors_def by (intro moves_intros)

lemma moves_run_start [moves_intros]: "moves R (run_start c n args)"
  unfolding run_start_def by (intro moves_intros)

lemma moves_run_refresh [moves_intros]: "moves R (run_refresh c n args)"
  unfolding run_refresh_def by (intro moves_intros)

lemma moves_run_advance [moves_intros]: "moves R (run_advance c n args)"
  unfolding run_advance_def advance_step_def Let_def by (intro moves_intros)

lemma moves_retry_as_new_run [moves_intros]:
  "moves R (retry_failed_handoff_as_new_run c n handoff run who reason blocked)"
  unfolding retry_failed_handoff_as_new_run_def Let_def by (intro moves_intros)

lemma moves_reopen_handoff [moves_intros]:
  "moves R (reopen_handoff c n i handoff run step k who reason event)"
  unfolding reopen_handoff_def Let_def by (intro moves_intros moves_update_handoffs) simp

lemma moves_handoff_retry [moves_intros]: "moves R (handoff_retry c n args)"
  unfolding handoff_retry_def retry_failed_def Let_def by (intro moves_intros)

lemma moves_action_resolve [moves_intros]: "moves R (action_resolve c n args)"
  unfolding action_resolve_def action_resolution_run_view_def Let_def by (intro moves_intros)

lemma moves_cancel_open_run [moves_intros]: "moves R (cancel_open_run c reason run)"
  unfolding cancel_open_run_def skip_open_step_def Let_def
  by (intro moves_intros moves_update_handoffs moves_perform change_action) simp_all

lemma moves_cancel_run_internal [moves_intros]: "moves R (cancel_run_internal c n i reason seen)"
  by (induction n arbitrary: i reason seen) (auto intro!: moves_intros)

lemma moves_run_cancel [moves_intros]: "moves R (run_cancel c n args)"
  unfolding run_cancel_def Let_def by (intro moves_intros)

lemma moves_claim_and_advance [moves_intros]: "moves R (handoff_claim_and_advance c n args)"
  unfolding handoff_claim_and_advance_def by (intro moves_intros)

lemma moves_engine_call [moves_intros]: "moves R (engine_call c n name args)"
  unfolding engine_call_def by (intro moves_intros)

theorem moves_authority_call: "moves R (authority_call c g n name args)"
  unfolding authority_call_def by (intro moves_intros)

end

end
