(* ===== verification/Sop_History.thy ===== *)
theory Sop_History
  imports Sop_Orders "HOL-Library.Sublist"
begin

text \<open>
  What every sequence of tool calls keeps: the audit events and the identities of runs, actions and
  handoffs only grow at the end, and the constraints of the schema hold. Both are instances of
  \<open>engine_order\<close>.
\<close>

section \<open>Sequences of calls\<close>

text \<open>\<open>tool_calls P d d'\<close>: calls of tools, each with inputs and a name that satisfy \<open>P\<close>, lead from \<open>d\<close>
  to \<open>d'\<close>.\<close>

inductive tool_calls :: "(sop_call \<Rightarrow> string \<Rightarrow> bool) \<Rightarrow> sop_db \<Rightarrow> sop_db \<Rightarrow> bool" for P where
  no_calls: "tool_calls P d d"
| next_call: "tool_calls P d (tables w) \<Longrightarrow> P c name \<Longrightarrow> authority_call c f n name args w = (r, w') \<Longrightarrow>
    tool_calls P d (tables w')"

lemma tool_calls_move:
  assumes "tool_calls P d d'" "\<And>d. R d d" "\<And>d e f. R d e \<Longrightarrow> R e f \<Longrightarrow> R d f"
    and "\<And>c f n name args. P c name \<Longrightarrow> moves R (authority_call c f n name args)"
  shows "R d d'"
  using assms(1)
proof (induction rule: tool_calls.induct)
  case (next_call d w c name f n args r w')
  with movesD [OF assms(4) [OF next_call.hyps(2)] next_call.hyps(3)] show ?case
    by (blast intro: assms(3))
qed (rule assms(2))

lemma tool_calls_mono: "tool_calls P d d' \<Longrightarrow> (\<And>c name. P c name \<Longrightarrow> Q c name) \<Longrightarrow> tool_calls Q d d'"
  by (induction rule: tool_calls.induct) (blast intro: tool_calls.intros)+

lemma tool_calls_trans: "tool_calls P e f \<Longrightarrow> tool_calls P d e \<Longrightarrow> tool_calls P d f"
  by (induction rule: tool_calls.induct) (blast intro: tool_calls.intros)+

section \<open>History is append-only\<close>

definition extends_history :: "sop_db \<Rightarrow> sop_db \<Rightarrow> bool" where
  "extends_history d d' \<longleftrightarrow>
     prefix (events d) (events d') \<and>
     prefix (map run_identity (runs d)) (map run_identity (runs d')) \<and>
     prefix (map action_identity (actions d)) (map action_identity (actions d')) \<and>
     prefix (map handoff_identity (handoffs d)) (map handoff_identity (handoffs d')) \<and>
     prefix (requirements d) (requirements d') \<and> prefix (receipts d) (receipts d')"

interpretation history: engine_order extends_history c for c
  by unfold_locales (auto simp: extends_history_def comp_def intro: prefix_order.trans)

lemma history_kept: "tool_calls P d d' \<Longrightarrow> extends_history d d'"
  using tool_calls_move [where P = P, OF _ history.R_refl history.R_trans history.moves_authority_call] .

lemma identity_fields [simp]:
  "tp_sop_id (template_identity t) = tp_sop_id t" "tp_version (template_identity t) = tp_version t"
  "rn_id (run_identity r) = rn_id r" "rn_sop_id (run_identity r) = rn_sop_id r"
  "rn_occurrence (run_identity r) = rn_occurrence r"
  "ac_id (action_identity a) = ac_id a" "ac_run (action_identity a) = ac_run a"
  "ac_step (action_identity a) = ac_step a"
  "hf_id (handoff_identity h) = hf_id h" "hf_run (handoff_identity h) = hf_run h"
  "hf_step (handoff_identity h) = hf_step h"
  "ob_id (outbox_identity b) = ob_id b" "ob_run (outbox_identity b) = ob_run b"
  "ob_outcome (outbox_identity b) = ob_outcome b"
  by (simp_all add: template_identity_def run_identity_def action_identity_def handoff_identity_def
      outbox_identity_def)

lemma same_run_id: "run_identity r = run_identity q \<Longrightarrow> rn_id r = rn_id q"
  by (metis identity_fields(3))

lemma find_identity:
  "map run_identity rs = map run_identity qs \<Longrightarrow>
     map_option run_identity (find (\<lambda>r. rn_id r = i) rs) = map_option run_identity (find (\<lambda>r. rn_id r = i) qs)"
proof (induction rs arbitrary: qs)
  case (Cons r rs)
  then obtain q qs' where "qs = q # qs'" "run_identity r = run_identity q" "map run_identity rs = map run_identity qs'"
    by (cases qs) auto
  with Cons.IH same_run_id [of r q] show ?case by simp
qed simp

lemma find_append_Some: "find P xs = Some x \<Longrightarrow> find P (xs @ ys) = Some x"
  by (induction xs) auto

text \<open>C19. History is append-only: whatever tools are called, in whatever order and with whatever
  faults, no audit event is changed or removed, and an admitted run keeps its procedure, version,
  occurrence, request, definition snapshot, input and parent.\<close>

theorem history_append_only:
  assumes "tool_calls P d d'"
  shows "prefix (events d) (events d') \<and>
    (\<forall>i r. find_run d i = Some r \<longrightarrow> (\<exists>r'. find_run d' i = Some r' \<and> run_identity r' = run_identity r))"
proof (intro conjI allI impI)
  note kept = history_kept [OF assms, unfolded extends_history_def]
  then show "prefix (events d) (events d')" by simp
  from kept obtain rest where
    rest: "map run_identity (runs d') = map run_identity (runs d) @ rest" by (auto elim: prefixE)
  then obtain old new where split: "runs d' = old @ new" "map run_identity old = map run_identity (runs d)"
    by (auto simp: map_eq_append_conv)
  fix i r
  assume "find_run d i = Some r"
  then have "map_option run_identity (find (\<lambda>r. rn_id r = i) old) = Some (run_identity r)"
    using find_identity [OF split(2), of i] by (simp add: find_run_def)
  then obtain r' where r': "find (\<lambda>r. rn_id r = i) old = Some r'" "run_identity r' = run_identity r"
    by (cases "find (\<lambda>r. rn_id r = i) old") auto
  from find_append_Some [OF r'(1), of new] r'(2)
  show "\<exists>r'. find_run d' i = Some r' \<and> run_identity r' = run_identity r"
    by (simp add: find_run_def split(1))
qed

section \<open>The constraints of the schema\<close>

definition keys_distinct :: "sop_db \<Rightarrow> bool" where
  "keys_distinct d \<longleftrightarrow>
     distinct (map (\<lambda>t. (tp_sop_id t, tp_version t)) (templates d)) \<and>
     distinct (map rn_id (runs d)) \<and>
     distinct (map (\<lambda>r. (rn_sop_id r, rn_occurrence r)) (filter (\<lambda>r. rn_occurrence r \<noteq> []) (runs d))) \<and>
     distinct (map ev_id (events d)) \<and>
     distinct (map ac_id (actions d)) \<and> distinct (map (\<lambda>a. (ac_run a, ac_step a)) (actions d)) \<and>
     distinct (map hf_id (handoffs d)) \<and> distinct (map (\<lambda>h. (hf_run h, hf_step h)) (handoffs d)) \<and>
     distinct (map ob_id (outbox d)) \<and> distinct (map ob_run (outbox d)) \<and>
     distinct (map (\<lambda>q. (rq_topic q, rq_consumer q)) (requirements d)) \<and>
     distinct (map (\<lambda>q. (rc_event q, rc_consumer q)) (receipts d))"

definition references_exist :: "sop_db \<Rightarrow> bool" where
  "references_exist d \<longleftrightarrow>
     set (map hf_run (handoffs d)) \<subseteq> set (map rn_id (runs d)) \<and>
     set (map ob_run (outbox d)) \<subseteq> set (map rn_id (runs d)) \<and>
     set (map rc_event (receipts d)) \<subseteq> set (map ob_id (outbox d))"

definition sound_db :: "sop_db \<Rightarrow> bool" where
  "sound_db d \<longleftrightarrow> keys_distinct d \<and> references_exist d"

lemma same_field:
  assumes "\<And>x. k (i x) = k x" "\<And>x. i (f x) = i x"
  shows "k (f x) = k x"
proof -
  have "k (f x) = k (i (f x))" by (rule assms(1) [symmetric])
  also have "\<dots> = k (i x)" by (rule arg_cong [OF assms(2)])
  also have "\<dots> = k x" by (rule assms(1))
  finally show ?thesis .
qed

lemmas template_keys = same_field [of tp_sop_id template_identity, OF identity_fields(1)]
  same_field [of tp_version template_identity, OF identity_fields(2)]
lemmas run_keys = same_field [of rn_id run_identity, OF identity_fields(3)]
  same_field [of rn_sop_id run_identity, OF identity_fields(4)]
  same_field [of rn_occurrence run_identity, OF identity_fields(5)]
lemmas action_keys = same_field [of ac_id action_identity, OF identity_fields(6)]
  same_field [of ac_run action_identity, OF identity_fields(7)]
  same_field [of ac_step action_identity, OF identity_fields(8)]
lemmas handoff_keys = same_field [of hf_id handoff_identity, OF identity_fields(9)]
  same_field [of hf_run handoff_identity, OF identity_fields(10)]
  same_field [of hf_step handoff_identity, OF identity_fields(11)]
lemmas outbox_keys = same_field [of ob_id outbox_identity, OF identity_fields(12)]
  same_field [of ob_run outbox_identity, OF identity_fields(13)]
  same_field [of ob_outcome outbox_identity, OF identity_fields(14)]

lemma distinct_map_filter: "distinct (map k xs) \<Longrightarrow> distinct (map k (filter P xs))"
  by (induction xs) auto

interpretation keys: engine_order "\<lambda>d d'. sound_db d \<longrightarrow> sound_db d'" c for c
proof (unfold_locales, goal_cases)
  case (3 d t)
  then show ?case
    by (auto simp: sound_db_def keys_distinct_def references_exist_def template_fresh_def)
next
  case (4 f d)
  then show ?case
    by (simp add: sound_db_def keys_distinct_def references_exist_def comp_def template_keys)
next
  case (5 d P)
  then show ?case
    by (simp add: sound_db_def keys_distinct_def references_exist_def distinct_map_filter)
next
  case (6 d r)
  then show ?case
    by (auto simp: sound_db_def keys_distinct_def references_exist_def run_fresh_def)
next
  case (7 e d)
  then show ?case
    by (simp add: sound_db_def keys_distinct_def references_exist_def)
next
  case (8 d a)
  then show ?case
    by (auto simp: sound_db_def keys_distinct_def references_exist_def action_fresh_def)
next
  case (9 k d)
  then show ?case
    by (simp add: sound_db_def keys_distinct_def references_exist_def comp_def action_keys)
next
  case (10 d q)
  then show ?case
    by (auto simp: sound_db_def keys_distinct_def references_exist_def handoff_fresh_def)
next
  case (11 l d)
  then show ?case
    by (simp add: sound_db_def keys_distinct_def references_exist_def comp_def handoff_keys)
next
  case (12 m d)
  then show ?case
    by (simp add: sound_db_def keys_distinct_def references_exist_def comp_def outbox_keys image_image)
next
  case (13 d m)
  then show ?case
    by (auto simp: sound_db_def keys_distinct_def references_exist_def requirement_fresh_def)
next
  case (14 d p)
  then show ?case
    by (auto simp: sound_db_def keys_distinct_def references_exist_def receipt_fresh_def)
next
  case (15 g d)
  then show ?case
    by (simp add: sound_db_def keys_distinct_def references_exist_def comp_def run_keys filter_map image_image)
next
  case (16 d b)
  then show ?case
    by (auto simp: sound_db_def keys_distinct_def references_exist_def outbox_fresh_def)
next
  case (17 d Q)
  have "rc_event ` set (receipts d) \<subseteq> ob_id ` set (filter Q (outbox d))"
    if refs: "rc_event ` set (receipts d) \<subseteq> ob_id ` set (outbox d)"
  proof (rule image_subsetI)
    fix q
    assume q: "q \<in> set (receipts d)"
    with refs obtain b where b: "b \<in> set (outbox d)" "ob_id b = rc_event q" by force
    have "Q b" using 17 [OF b(1) _ q] b(2) by (cases "Q b") simp_all
    with b show "rc_event q \<in> ob_id ` set (filter Q (outbox d))"
      by (auto simp flip: b(2))
  qed
  then show ?case
    by (auto simp: sound_db_def keys_distinct_def references_exist_def distinct_map_filter)
qed simp_all

lemma sound_kept: "tool_calls P d d' \<Longrightarrow> sound_db d \<Longrightarrow> sound_db d'"
  using tool_calls_move [of P d d' "\<lambda>d d'. sound_db d \<longrightarrow> sound_db d'", OF _ _ _ keys.moves_authority_call]
  by blast

lemma sound_empty: "sound_db empty_db"
  by (simp add: sound_db_def keys_distinct_def references_exist_def empty_db_def)

lemma sound_occurrence:
  assumes "sound_db d" "r \<in> set (runs d)" "q \<in> set (runs d)" "rn_sop_id r = rn_sop_id q"
    and "rn_occurrence r = rn_occurrence q" "rn_occurrence r \<noteq> []"
  shows "r = q"
proof -
  have "inj_on (\<lambda>r. (rn_sop_id r, rn_occurrence r)) (set (filter (\<lambda>r. rn_occurrence r \<noteq> []) (runs d)))"
    using assms(1) by (simp add: sound_db_def keys_distinct_def distinct_map)
  from inj_onD [OF this, of r q] assms show ?thesis by simp
qed

text \<open>C18. An occurrence is admitted once: in every database that tool calls make of an empty one, two
  runs of a procedure with the same occurrence key are the same run, and every handoff, outbox event
  and receipt belongs to a run or an event that exists.\<close>

theorem occurrence_admitted_once:
  assumes "tool_calls P empty_db d"
  shows "references_exist d \<and>
    (\<forall>r \<in> set (runs d). \<forall>q \<in> set (runs d). rn_sop_id r = rn_sop_id q \<and> rn_occurrence r = rn_occurrence q \<and>
      rn_occurrence r \<noteq> [] \<longrightarrow> r = q)"
  using sound_kept [OF assms sound_empty] sound_occurrence [of d]
  by (auto simp: sound_db_def)

end
