(* ===== verification/Sop_Steps.thy ===== *)
theory Sop_Steps
  imports Sop_Endings
begin

text \<open>
  What the reconciliation does to one step of a run: only its live fields change (\<open>same_shape\<close>), a
  running step stays or ends (\<open>running_step_effect\<close>), and a pending step stays, or fails, or starts
  with its dependencies done (\<open>pending_step_effect\<close>), whatever the called operations end in.
\<close>

section \<open>Steps\<close>

text \<open>The keys that reconciliation writes; the others are the definition of the step.\<close>

definition live_keys :: "string list" where
  "live_keys = [''status'', ''completed_at'', ''error_message'', ''result'', ''result_ref'',
     ''action_id'', ''child_run_id'', ''started_at'']"

definition is_step :: "json \<Rightarrow> bool" where
  "is_step s \<longleftrightarrow> as_object s \<noteq> None"

definition same_shape :: "json \<Rightarrow> json \<Rightarrow> bool" where
  "same_shape s s' \<longleftrightarrow>
     is_step s' = is_step s \<and> (\<forall>k. k \<notin> set live_keys \<longrightarrow> jget s' k = jget s k)"

abbreviation step_name :: "json \<Rightarrow> string option" where
  "step_name s \<equiv> Option.bind (jget s ''step_id'') as_str"

abbreviation status :: "json \<Rightarrow> string option" where
  "status s \<equiv> Option.bind (jget s ''status'') as_str"

lemma same_shape_refl [simp]: "same_shape s s"
  by (simp add: same_shape_def)

lemma same_shape_trans: "same_shape s t \<Longrightarrow> same_shape t u \<Longrightarrow> same_shape s u"
  by (simp add: same_shape_def)

lemma live_key_simps [simp]:
  "''status'' \<in> set live_keys" "''completed_at'' \<in> set live_keys" "''error_message'' \<in> set live_keys"
  "''result'' \<in> set live_keys" "''result_ref'' \<in> set live_keys" "''action_id'' \<in> set live_keys"
  "''child_run_id'' \<in> set live_keys" "''started_at'' \<in> set live_keys"
  "''step_id'' \<notin> set live_keys" "''depends_on'' \<notin> set live_keys" "''executor'' \<notin> set live_keys"
  by (simp_all add: live_keys_def)

lemma same_shape_fields:
  assumes "same_shape s s'"
  shows "is_step s' = is_step s" "step_name s' = step_name s" "depends_on s' = depends_on s"
    "jget s' ''executor'' = jget s ''executor''"
  using assms by (simp_all add: same_shape_def depends_on_def)

lemma is_step_set [simp]: "is_step (set_step k v s) = is_step s"
  by (cases s) (simp_all add: set_step_def is_step_def)

lemma jget_set_step:
  "jget (set_step k v s) l = (if is_step s \<and> l = k then Some v else jget s l)"
  by (cases s) (simp_all add: set_step_def is_step_def jget_def)

lemma same_shape_set [simp]: "k \<in> set live_keys \<Longrightarrow> same_shape s (set_step k v t) = same_shape s t"
  by (auto simp: same_shape_def jget_set_step)

lemma step_status_set [simp]:
  "is_step s \<Longrightarrow> step_status_is u (set_step ''status'' (JStr t) s) \<longleftrightarrow> u = t"
  by (auto simp: member_is_def jget_set_step)

lemma step_status_set_other [simp]:
  "k \<noteq> ''status'' \<Longrightarrow> step_status_is u (set_step k v s) = step_status_is u s"
  by (simp add: member_is_def jget_set_step)

lemma step_string_set [simp]: "k \<noteq> l \<Longrightarrow> step_string (set_step k v s) l = step_string s l"
  by (simp add: step_string_def jget_set_step)

section \<open>Updates of one step\<close>

lemma run_steps_set [simp]: "run_steps (set_run_step i f run) = (run_steps run)[i := f (run_steps run ! i)]"
  by (simp add: set_run_step_def)

lemma set_run_step_twice [simp]:
  "i < length (run_steps run) \<Longrightarrow> set_run_step i f (set_run_step i g run) = set_run_step i (\<lambda>s. f (g s)) run"
  by (simp add: set_run_step_def)

lemma set_run_step_fields [simp]:
  "run_id (set_run_step i f run) = run_id run" "run_status (set_run_step i f run) = run_status run"
  "run_completed (set_run_step i f run) = run_completed run"
  by (simp_all add: set_run_step_def)

text \<open>\<open>at_step i Q run run'\<close>: \<open>run'\<close> is \<open>run\<close> with its step \<open>i\<close> replaced by one that \<open>Q\<close> relates to it.\<close>

definition at_step :: "nat \<Rightarrow> (json \<Rightarrow> json \<Rightarrow> bool) \<Rightarrow> sop_run \<Rightarrow> sop_run \<Rightarrow> bool" where
  "at_step i Q run run' \<longleftrightarrow>
     (\<exists>s'. run' = run\<lparr>run_steps := (run_steps run)[i := s']\<rparr> \<and> Q (run_steps run ! i) s')"

lemma at_step_set [simp]: "at_step i Q run (set_run_step i f run) \<longleftrightarrow> Q (run_steps run ! i) (f (run_steps run ! i))"
  if "i < length (run_steps run)"
proof -
  have "(run_steps run)[i := s] = (run_steps run)[i := t] \<longleftrightarrow> s = t" for s t
    using that by (metis nth_list_update_eq)
  then show ?thesis
    by (auto simp: at_step_def set_run_step_def dest: arg_cong [of _ _ run_steps])
qed

lemma at_step_same [simp]: "i < length (run_steps run) \<Longrightarrow> at_step i Q run run \<longleftrightarrow> Q (run_steps run ! i) (run_steps run ! i)"
  using at_step_set [of i run Q "\<lambda>s. s"] by (simp add: set_run_step_def)

lemma at_step_run_steps:
  "at_step i Q run run' \<Longrightarrow> length (run_steps run') = length (run_steps run)"
  by (auto simp: at_step_def)

lemma ends_any: "(\<And>x u. P x u) \<Longrightarrow> (\<And>e u. E e u) \<Longrightarrow> ends m w P E"
  by (simp add: endsI)

lemma ends_try [ends_simps]:
  "ends (tryS m run f) w P E =
     ends m w (\<lambda>x w'. ends (f x) w' P E) (\<lambda>e. case e of Denied d \<Rightarrow> P (Some d, run) | _ \<Rightarrow> E e)"
  by (auto simp: tryS_def ends_def reifyS_def bindS_def retS_def split: sum.splits prod.splits stop.splits)

lemma ends_now [simp, ends_simps]:
  "ends (now_iso c) w P E = P (iso_text c (clock_at c (draws w))) (w\<lparr>draws := Suc (draws w)\<rparr>)"
  by (simp add: now_iso_def)

section \<open>The steps of a pass\<close>

text \<open>What a step may become: nothing but live fields change; a step that a pass ends was running or
  was ready, and a step that starts has its dependencies done.\<close>

definition open_end :: "json \<Rightarrow> bool" where
  "open_end s \<longleftrightarrow> step_status_is ''completed'' s \<or> step_status_is ''failed'' s"

text \<open>The names under which a step keeps the action or the child run it has started.\<close>

definition same_handle :: "json \<Rightarrow> json \<Rightarrow> bool" where
  "same_handle s s' \<longleftrightarrow>
     jget s' ''action_id'' = jget s ''action_id'' \<and> jget s' ''child_run_id'' = jget s ''child_run_id''"

definition still_running :: "bool \<Rightarrow> json \<Rightarrow> json \<Rightarrow> bool" where
  "still_running p s s' \<longleftrightarrow>
     same_shape s s' \<and>
     (if p then step_status_is ''running'' s \<and> open_end s' else status s' = status s \<and> same_handle s s')"

text \<open>What a running step works through: the handoff to an agent or an operator, an action, or a child
  run. A step of the engine has nothing of the kind.\<close>

definition holds_handle :: "json \<Rightarrow> bool" where
  "holds_handle s \<longleftrightarrow>
     (let e = step_string s ''executor'' in
      e \<in> {''agent'', ''operator''} \<or>
      e = ''action'' \<and> Option.bind (jget s ''action_id'') as_str \<noteq> None \<or>
      e = ''sop'' \<and> Option.bind (jget s ''child_run_id'') as_str \<noteq> None)"

lemma holds_handle_same: "same_shape s s' \<Longrightarrow> same_handle s s' \<Longrightarrow> holds_handle s' = holds_handle s"
  by (simp add: holds_handle_def same_handle_def step_string_def same_shape_fields)

abbreviation any_end :: "stop \<Rightarrow> sop_world \<Rightarrow> bool" where
  "any_end \<equiv> \<lambda>_ _. True"

lemma status_set [simp]:
  "is_step s \<Longrightarrow> status (set_step ''status'' (JStr t) s) = Some t"
  "k \<noteq> ''status'' \<Longrightarrow> status (set_step k v s) = status s"
  by (simp_all add: jget_set_step)

definition failed_with :: "string \<Rightarrow> string \<Rightarrow> json \<Rightarrow> json" where
  "failed_with message now s =
     set_step ''error_message'' (JStr message)
       (set_step ''completed_at'' (JStr now) (set_step ''status'' (JStr ''failed'') s))"

lemma failed_with [simp]:
  "same_shape s (failed_with m t r) = same_shape s r"
  "is_step s \<Longrightarrow> step_status_is u (failed_with m t s) \<longleftrightarrow> u = ''failed''"
  by (simp_all add: failed_with_def)

lemma ends_on_fail [ends_simps]:
  "ends (on_step i (fail_step c message) run) w P E =
     P (set_run_step i (failed_with message (iso_text c (clock_at c (draws w)))) run) (w\<lparr>draws := Suc (draws w)\<rparr>)"
  by (simp add: on_step_def fail_step_def set_run_step_def failed_with_def)

lemma ends_on_skip [ends_simps]:
  "ends (on_step i (skip_step c reason) run) w P E =
     P (set_run_step i (\<lambda>s. set_step ''error_message'' JNull (set_step ''result'' (JObj [(''reason'', JStr reason)])
         (set_step ''completed_at'' (JStr (iso_text c (clock_at c (draws w))))
           (set_step ''status'' (JStr ''skipped'') s)))) run)
       (w\<lparr>draws := Suc (draws w)\<rparr>)"
  by (simp add: on_step_def skip_step_def set_run_step_def)

lemma ends_moved [ends_simps]: "ends (moved run) w P E = P (run, True, True) w"
  by (simp add: moved_def)

text \<open>The ends of a running step.\<close>

lemma complete_effect:
  assumes i: "i < length (run_steps run)" and s: "is_step (run_steps run ! i)"
    and Q: "\<And>s'. same_shape (run_steps run ! i) s' \<Longrightarrow> open_end s' \<Longrightarrow>
      Q (run_steps run ! i) s'"
  shows "ends (complete_step_with_bounded_run_state c i stamp full ref small run) w
     (\<lambda>(run', _) _. at_step i Q run run') any_end"
  using i s
  by (auto simp: complete_step_with_bounded_run_state_def omit_result_def completed_step_def Let_def
      ends_simps open_end_def split: sum.splits intro!: Q ends_any)

lemma still_runningI:
  "step_status_is ''running'' s \<Longrightarrow> same_shape s s' \<Longrightarrow> open_end s' \<Longrightarrow> still_running True s s'"
  by (simp add: still_running_def)

lemma same_handle_refl [simp]: "same_handle s s"
  by (simp add: same_handle_def)

lemma same_handle_set [simp]:
  "k \<noteq> ''action_id'' \<Longrightarrow> k \<noteq> ''child_run_id'' \<Longrightarrow> same_handle s (set_step k v t) = same_handle s t"
  by (simp add: same_handle_def jget_set_step)

lemma still_running_same [simp]: "still_running False s s"
  by (simp add: still_running_def)

definition running_post :: "nat \<Rightarrow> sop_run \<Rightarrow> progress \<Rightarrow> bool" where
  "running_post i run = (\<lambda>(run', _, p). at_step i (still_running p) run run')"

lemma at_step_mono: "at_step i Q run run' \<Longrightarrow> (\<And>s'. Q (run_steps run ! i) s' \<Longrightarrow> R (run_steps run ! i) s') \<Longrightarrow> at_step i R run run'"
  by (auto simp: at_step_def)

lemma complete_running:
  assumes "i < length (run_steps run)" "is_step (run_steps run ! i)"
    and "step_status_is ''running'' (run_steps run ! i)"
  shows "ends (complete_step_with_bounded_run_state c i stamp full ref small run) w
     (\<lambda>(run', _) _. at_step i (still_running True) run run') any_end"
  using assms by (intro complete_effect still_runningI)

lemmas ends_other =
  ends_any [where m = "append_run_event c i n k d" for c i n k d]
  ends_any [where m = "get_run c i" for c i]
  ends_any [where m = "start_child_run c rec run step" for c rec run step]
  ends_any [where m = "ensure_handoff_intent c run step r" for c run step r]

lemma child_completed_effect:
  assumes "i < length (run_steps run)" "is_step (run_steps run ! i)"
    and "step_status_is ''running'' (run_steps run ! i)"
  shows "ends (child_completed c i step child run) w (\<lambda>r _. running_post i run r) any_end"
  using assms
  by (auto simp: child_completed_def running_post_def Let_def ends_simps open_end_def
      split: sum.splits option.splits
      intro!: still_runningI ends_other ends_mono [OF complete_running])

lemma child_ended_effect:
  assumes "i < length (run_steps run)" "is_step (run_steps run ! i)"
    and "step_status_is ''running'' (run_steps run ! i)"
  shows "ends (child_ended c i step child run) w (\<lambda>r _. running_post i run r) any_end"
  using assms
  by (auto simp: child_ended_def running_post_def Let_def ends_simps open_end_def
      intro!: still_runningI ends_other)

lemma running_child_effect:
  assumes "i < length (run_steps run)" "is_step (run_steps run ! i)"
    and "step_status_is ''running'' (run_steps run ! i)"
  shows "ends (running_child c rec i step run) w (\<lambda>r _. running_post i run r) any_end"
proof -
  have "running_post i run (run, False, False)"
    using assms(1) by (simp add: running_post_def)
  with assms show ?thesis
    by (auto simp: running_child_def ends_simps split: sum.splits option.splits
        intro!: child_completed_effect child_ended_effect ends_other ends_any [where m = "rec k" for k])
qed

lemma action_completed_effect:
  assumes "i < length (run_steps run)" "is_step (run_steps run ! i)"
    and "step_status_is ''running'' (run_steps run ! i)"
  shows "ends (action_completed c i step action run) w (\<lambda>r _. running_post i run r) any_end"
  using assms
  by (auto simp: action_completed_def put_action_summary_def running_post_def Let_def ends_simps
      open_end_def split: sum.splits option.splits
      intro!: still_runningI ends_other ends_mono [OF complete_running])

lemma running_action_effect:
  assumes "i < length (run_steps run)" "is_step (run_steps run ! i)"
    and "step_status_is ''running'' (run_steps run ! i)"
  shows "ends (running_action c i step run) w (\<lambda>r _. running_post i run r) any_end"
proof -
  have "running_post i run (run, False, False)"
    using assms(1) by (simp add: running_post_def)
  moreover have "ends (action_ended c i action s run) v (\<lambda>r _. running_post i run r) any_end" for action s v
    using assms
    by (auto simp: action_ended_def put_action_summary_def running_post_def Let_def ends_simps
        open_end_def split: option.splits intro!: still_runningI)
  ultimately show ?thesis
    using assms
    by (auto simp: running_action_def Let_def ends_simps split: sum.splits option.splits
        intro!: action_completed_effect ends_any [where m = "ensure_action_intent c run step" for step])
qed

lemma running_manual_effect:
  assumes "i < length (run_steps run)"
  shows "ends (running_manual c i step run) w (\<lambda>r _. running_post i run r) any_end"
  using assms
  by (auto simp: running_manual_def running_post_def Let_def still_running_def ends_simps intro!: ends_other
      split: option.splits)

lemma running_step_effect:
  assumes "i < length (run_steps run)" "is_step (run_steps run ! i)"
  shows "ends (running_step c rec i run) w (\<lambda>r _. running_post i run r) any_end"
proof -
  have "running_post i run (run, False, False)"
    using assms(1) by (simp add: running_post_def)
  with assms show ?thesis
    by (simp add: running_step_def Let_def running_child_effect running_action_effect
        running_manual_effect)
qed

section \<open>The steps that start\<close>

definition ready :: "sop_run \<Rightarrow> json \<Rightarrow> bool" where
  "ready run s \<longleftrightarrow> list_all (dependency_done run) (depends_on s)"

definition quiet :: "sop_run \<Rightarrow> json \<Rightarrow> bool" where
  "quiet run s \<longleftrightarrow>
     (step_status_is ''pending'' s \<longrightarrow>
       \<not> list_ex (dependency_failed run) (depends_on s) \<and> \<not> ready run s)"

definition left_pending :: "sop_run \<Rightarrow> json \<Rightarrow> json \<Rightarrow> bool" where
  "left_pending run s s' \<longleftrightarrow>
     step_status_is ''pending'' s \<and> same_shape s s' \<and>
     (step_status_is ''running'' s' \<longrightarrow> holds_handle s') \<and>
     (step_status_is ''failed'' s' \<or>
      ready run s \<and> (step_status_is ''running'' s' \<or> step_status_is ''completed'' s' \<or> step_status_is ''skipped'' s'))"

definition pending_post :: "nat \<Rightarrow> sop_run \<Rightarrow> progress \<Rightarrow> bool" where
  "pending_post i run = (\<lambda>(run', _, p).
     if p then at_step i (left_pending run) run run' else run' = run \<and> quiet run (run_steps run ! i))"

text \<open>An attempt gives the step a new status, or leaves a step that can still be failed.\<close>

definition attempted_post :: "nat \<Rightarrow> sop_run \<Rightarrow> attempted \<Rightarrow> bool" where
  "attempted_post i run = (\<lambda>(error, run').
     at_step i (\<lambda>s s'. same_shape s s' \<and>
       (error = None \<longrightarrow> (step_status_is ''running'' s' \<longrightarrow> holds_handle s') \<and>
         (step_status_is ''running'' s' \<or> step_status_is ''completed'' s' \<or> step_status_is ''skipped'' s'))) run run')"

lemma action_view_fields:
  assumes "hydrate_action h row = Inr v"
  obtains i st where "jget v ''action_id'' = Some (JStr i)" "jget v ''status'' = Some (JStr st)"
    "st \<in> {''pending'', ''completed'', ''failed'', ''cancelled''}"
  using assms unfolding hydrate_action_def Let_def bindR_Inr_iff
  by (auto simp: jget_def refuse_if_def split: if_splits)


lemma liftS_Inr: "liftS r w = (Inr x, w') \<longleftrightarrow> r = Inr x \<and> w' = w"
  by (cases r) (auto simp: liftS_def retS_def stopS_def)

lemma query_Inr: "query c code f w = (Inr x, w') \<Longrightarrow> x = f (tables w) \<and> tables w' = tables w"
  by (auto simp: query_def bindS_Inr getS_def dest: reads_tables [OF reads_statement])

lemma get_run_row:
  assumes "get_run c i w = (Inr run, w')"
  obtains r where "find_run (tables w) i = Some r" "hydrate_run (jlib c) (run_row_json r) = Inr run"
    "tables w' = tables w"
proof -
  from assms show thesis
    by (auto simp: get_run_def bindS_Inr liftS_Inr dest!: query_Inr intro: that)
qed

lemma get_action_Inr:
  assumes "get_action c i w = (Inr v, w')"
  shows "tables w' = tables w \<and>
    (\<exists>r. find_action (tables w) i = Some r \<and> hydrate_action (jlib c) (action_row_json r) = Inr v)"
  using assms by (auto simp: get_action_def bindS_Inr liftS_Inr dest!: query_Inr)

lemma ensure_action_text:
  "ends (ensure_action_intent c run step) w (\<lambda>a _. \<exists>i. jget a ''action_id'' = Some (JStr i)) any_end"
proof (rule endsI)
  fix a w'
  assume "ensure_action_intent c run step w = (Inr a, w')"
  then obtain k u u' where "get_action c k u = (Inr a, u')"
    by (auto simp: ensure_action_intent_def bindS_Inr retS_def split: option.splits)
  then obtain row where "hydrate_action (jlib c) row = Inr a"
    using get_action_Inr by blast
  then show "\<exists>i. jget a ''action_id'' = Some (JStr i)"
    using action_view_fields by blast
qed simp

lemma attempt_effect:
  assumes "i < length (run_steps run)" "is_step (run_steps run ! i)" "step = run_steps run ! i"
  shows "ends (attempt c rec i step run) w (\<lambda>r _. attempted_post i run r) any_end"
  using assms
  by (auto simp: attempt_def start_step_def start_engine_def start_manual_def start_action_def
      start_sop_def attempted_post_def Let_def ends_simps started_def holds_handle_def jget_set_step
      value_or_def
      split: stop.splits sum.splits intro!: ends_other ends_mono [OF ensure_action_text])

lemma bad_dependencies: "filter (dependency_failed run) ds = [] \<longleftrightarrow> \<not> list_ex (dependency_failed run) ds"
  by (simp add: filter_empty_conv list_ex_iff)

lemma at_step_length: "at_step i Q run run' \<Longrightarrow> length (run_steps run') = length (run_steps run)"
  by (auto simp: at_step_def)

lemma at_step_set_after:
  assumes "at_step i Q run run'" "i < length (run_steps run)"
    and "\<And>s'. Q (run_steps run ! i) s' \<Longrightarrow> R (run_steps run ! i) (f s')"
  shows "at_step i R run (set_run_step i f run')"
  using assms by (auto simp: at_step_def set_run_step_def)

lemma attempt_then_fail:
  assumes "attempted_post i run (error, run')" "i < length (run_steps run)"
    and "is_step (run_steps run ! i)" "step_status_is ''pending'' (run_steps run ! i)"
  shows "at_step i (left_pending run) run (set_run_step i (failed_with m t) run')"
  using assms unfolding attempted_post_def
  by (auto elim!: at_step_set_after simp: left_pending_def same_shape_fields)

lemma attempt_then_go:
  assumes "attempted_post i run (None, run')" "ready run (run_steps run ! i)"
    and "step_status_is ''pending'' (run_steps run ! i)"
  shows "at_step i (left_pending run) run run'"
  using assms unfolding attempted_post_def by (auto elim!: at_step_mono simp: left_pending_def)

lemma pending_step_effect:
  assumes "i < length (run_steps run)" "is_step (run_steps run ! i)"
  shows "ends (pending_step c rec i run) w (\<lambda>r _. pending_post i run r) any_end"
  using assms
  by (auto simp: pending_step_def Let_def ends_simps pending_post_def quiet_def bad_dependencies
      ready_def [symmetric] left_pending_def [of _ _ "failed_with m t s" for m t s]
      attempt_then_go attempt_then_fail split: option.splits
      intro!: ends_other ends_mono [OF attempt_effect])

end
