(* ===== verification/Sop_Passes.thy ===== *)
theory Sop_Passes
  imports Sop_Steps Sop_Contract
begin

text \<open>
  Passes of the reconciliation: a step moves forward along its life and starts only when its
  dependencies are done, and runs through a handoff, an action or a child run. From this follow the
  end of the passes within the limit of the code, the rest state they reach, and the order of the
  steps.
\<close>

section \<open>Statuses by name\<close>

definition valid_status :: "json \<Rightarrow> bool" where
  "valid_status s \<longleftrightarrow> text_or (jget s ''status'') \<in> set step_statuses"

lemma valid_status_iff:
  "valid_status s \<longleftrightarrow>
     step_status_is ''pending'' s \<or> step_status_is ''running'' s \<or> step_status_is ''completed'' s \<or>
     step_status_is ''failed'' s \<or> step_status_is ''skipped'' s"
  by (auto simp: valid_status_def text_or_def step_statuses_def member_is_def split: option.splits)

definition well_run :: "json list \<Rightarrow> bool" where
  "well_run steps \<longleftrightarrow>
     list_all is_step steps \<and> list_all valid_status steps \<and> distinct (List.map_filter step_name steps)"

definition named_statuses :: "json list \<Rightarrow> (string \<times> string) list" where
  "named_statuses steps =
     List.map_filter (\<lambda>s. case (step_name s, status s) of (Some j, Some t) \<Rightarrow> Some (j, t) | _ \<Rightarrow> None) steps"

lemma named_statuses_set:
  "(i, t) \<in> set (named_statuses steps) \<longleftrightarrow> (\<exists>s \<in> set steps. step_name s = Some i \<and> status s = Some t)"
  by (auto simp: named_statuses_def List.map_filter_def split: option.splits) force

lemma named_statuses_distinct:
  "distinct (List.map_filter step_name steps) \<Longrightarrow> distinct (map fst (named_statuses steps))"
proof (induction steps)
  case (Cons s steps)
  have "fst ` set (named_statuses steps) \<subseteq> set (List.map_filter step_name steps)"
    by (force simp: named_statuses_def List.map_filter_def split: option.splits)
  with Cons show ?case
    by (auto simp: named_statuses_def List.map_filter_simps split: option.splits)
qed (simp add: named_statuses_def)

lemma status_of_iff:
  assumes "well_run (run_steps run)"
  shows "status_of run i = Some t \<longleftrightarrow>
    (\<exists>s \<in> set (run_steps run). step_name s = Some i \<and> status s = Some t)"
proof -
  have "distinct (map fst (rev (named_statuses (run_steps run))))"
    using assms named_statuses_distinct by (simp add: well_run_def rev_map [symmetric])
  then show ?thesis
    unfolding status_of_def named_statuses_def [symmetric] named_statuses_set [symmetric] by simp
qed

definition finished :: "json \<Rightarrow> bool" where
  "finished s \<longleftrightarrow> step_status_is ''completed'' s \<or> step_status_is ''skipped'' s"

definition done_in :: "json list \<Rightarrow> string \<Rightarrow> bool" where
  "done_in steps d \<longleftrightarrow> (\<exists>s \<in> set steps. step_name s = Some d \<and> finished s)"

lemma dependency_done_iff: "well_run (run_steps run) \<Longrightarrow> dependency_done run d = done_in (run_steps run) d"
  by (auto simp: dependency_done_def done_in_def finished_def member_is_def status_of_iff)

lemma dependency_failed_iff:
  "well_run (run_steps run) \<Longrightarrow>
     dependency_failed run d \<longleftrightarrow>
       (\<exists>s \<in> set (run_steps run). step_name s = Some d \<and> step_status_is ''failed'' s)"
  by (auto simp: dependency_failed_def member_is_def status_of_iff)

text \<open>The steps that run or have completed had their dependencies done.\<close>

definition begun :: "json \<Rightarrow> bool" where
  "begun s \<longleftrightarrow> step_status_is ''running'' s \<or> step_status_is ''completed'' s"

definition ordered :: "json list \<Rightarrow> bool" where
  "ordered steps \<longleftrightarrow> (\<forall>s \<in> set steps. begun s \<longrightarrow> (\<forall>d \<in> set (depends_on s). done_in steps d))"

text \<open>Every step that runs does so through a handoff, an action or a child run.\<close>

definition handled :: "json list \<Rightarrow> bool" where
  "handled steps \<longleftrightarrow> (\<forall>s \<in> set steps. step_status_is ''running'' s \<longrightarrow> holds_handle s)"

lemma ready_iff:
  "well_run (run_steps run) \<Longrightarrow> ready run s \<longleftrightarrow> (\<forall>d \<in> set (depends_on s). done_in (run_steps run) d)"
  by (simp add: ready_def list_all_iff dependency_done_iff)

lemma in_list_update: "s \<in> set (xs[i := x]) \<Longrightarrow> s = x \<or> s \<in> set xs"
  using set_update_subset_insert by fastforce

lemma done_in_update:
  assumes "done_in steps d" "i < length steps" "same_shape (steps ! i) s'"
    and "finished (steps ! i) \<Longrightarrow> finished s'"
  shows "done_in (steps[i := s']) d"
proof -
  from assms(1) obtain s where s: "s \<in> set steps" "step_name s = Some d" "finished s"
    by (auto simp: done_in_def)
  then obtain j where j: "j < length steps" "s = steps ! j" by (auto simp: in_set_conv_nth)
  show ?thesis
  proof (cases "j = i")
    case True
    with s j assms show ?thesis
      by (auto simp: done_in_def same_shape_fields(2) intro!: bexI [of _ s'] set_update_memI)
  next
    case False
    with s j show ?thesis
      by (auto simp: done_in_def set_conv_nth intro!: exI [of _ j])
  qed
qed

lemma update_well_run:
  assumes "well_run steps" "i < length steps" "same_shape (steps ! i) s'" "valid_status s'"
  shows "well_run (steps[i := s'])"
proof -
  have "List.map_filter step_name (steps[i := s']) = List.map_filter step_name steps"
    using same_shape_fields(2) [OF assms(3)] assms(2)
    by (induction steps arbitrary: i) (auto simp: List.map_filter_simps split: nat.splits option.splits)
  moreover have "is_step s'"
    using assms same_shape_fields(1) [OF assms(3)] by (simp add: well_run_def list_all_length)
  ultimately show ?thesis
    using assms by (auto simp: well_run_def list_all_iff dest: in_list_update)
qed

lemma update_ordered:
  assumes "ordered steps" "i < length steps" "same_shape (steps ! i) s'"
    and "finished (steps ! i) \<Longrightarrow> finished s'"
    and "begun s' \<Longrightarrow> \<forall>d \<in> set (depends_on (steps ! i)). done_in steps d"
  shows "ordered (steps[i := s'])"
  using assms same_shape_fields(3) [OF assms(3)]
  by (auto simp: ordered_def dest!: in_list_update intro: done_in_update)

lemma update_handled:
  "handled steps \<Longrightarrow> step_status_is ''running'' s' \<longrightarrow> holds_handle s' \<Longrightarrow> handled (steps[i := s'])"
  by (auto simp: handled_def dest!: in_list_update)

section \<open>A pass\<close>

text \<open>What is left to do: a pending step may start and end, a running one may end.\<close>

definition left_to_do :: "json \<Rightarrow> nat" where
  "left_to_do s = (if step_status_is ''pending'' s then 2 else if step_status_is ''running'' s then 1 else 0)"

definition remaining :: "json list \<Rightarrow> nat" where
  "remaining steps = (\<Sum>s\<leftarrow>steps. left_to_do s)"

definition pass_post :: "sop_run \<Rightarrow> progress \<Rightarrow> bool" where
  "pass_post run = (\<lambda>(run', _, p).
     run' = run\<lparr>run_steps := run_steps run'\<rparr> \<and> list_all2 same_shape (run_steps run) (run_steps run') \<and>
     well_run (run_steps run') \<and> ordered (run_steps run') \<and>
     (handled (run_steps run) \<longrightarrow> handled (run_steps run')) \<and>
     remaining (run_steps run') + of_bool p \<le> remaining (run_steps run))"

definition good_run :: "sop_run \<Rightarrow> bool" where
  "good_run run \<longleftrightarrow> well_run (run_steps run) \<and> ordered (run_steps run)"

lemma good_run_step: "good_run run \<Longrightarrow> i < length (run_steps run) \<Longrightarrow> is_step (run_steps run ! i)"
  by (simp add: good_run_def well_run_def list_all_length)

lemma pass_post_refl: "good_run run \<Longrightarrow> pass_post run (run, ch, False)"
  by (simp add: pass_post_def good_run_def list.rel_refl)

lemma pass_post_good: "pass_post run (run', ch, p) \<Longrightarrow> good_run run'"
  by (simp add: pass_post_def good_run_def)

lemma pass_post_length: "pass_post run (run', ch, p) \<Longrightarrow> length (run_steps run') = length (run_steps run)"
  by (auto simp: pass_post_def dest: list_all2_lengthD)

lemma only_steps_trans:
  "run1 = run\<lparr>run_steps := run_steps run1\<rparr> \<Longrightarrow> run2 = run1\<lparr>run_steps := run_steps run2\<rparr> \<Longrightarrow>
     run2 = run\<lparr>run_steps := run_steps run2\<rparr>"
  by (cases run; cases run1; cases run2) auto

lemma pass_post_trans:
  assumes "pass_post run (run1, ch, p)" "pass_post run1 (run2, ch', q)"
  shows "pass_post run (run2, ch'', p \<or> q)"
proof -
  have "list_all2 same_shape (run_steps run) (run_steps run2)"
    using assms unfolding pass_post_def
    by (auto intro: list_all2_trans [of same_shape same_shape same_shape] same_shape_trans)
  moreover have "run2 = run\<lparr>run_steps := run_steps run2\<rparr>"
    using assms unfolding pass_post_def by (auto intro: only_steps_trans)
  ultimately show ?thesis
    using assms by (cases p; cases q) (auto simp: pass_post_def)
qed

lemma remaining_update:
  assumes "i < length steps"
  shows "remaining (steps[i := s']) + left_to_do (steps ! i) = remaining steps + left_to_do s'"
  using assms
proof (induction steps arbitrary: i)
  case (Cons s steps)
  show ?case
  proof (cases i)
    case (Suc j)
    with Cons.IH [of j] Cons.prems show ?thesis by (simp add: remaining_def)
  qed (simp add: remaining_def)
qed simp

lemma status_apart: "status s = Some t \<Longrightarrow> step_status_is u s \<longleftrightarrow> u = t"
  by (auto simp: member_is_def)

lemma list_update_shape:
  "same_shape (steps ! i) s' \<Longrightarrow> list_all2 same_shape steps (steps[i := s'])"
  by (cases "i < length steps") (auto simp: list_all2_conv_all_nth nth_list_update)

lemma running_pass:
  assumes "good_run run" "i < length (run_steps run)" "running_post i run (run', ch, p)"
  shows "pass_post run (run', ch, p)"
proof -
  let ?s = "run_steps run ! i"
  from assms(3) obtain s' where s': "run' = run\<lparr>run_steps := (run_steps run)[i := s']\<rparr>" "still_running p ?s s'"
    by (auto simp: running_post_def at_step_def)
  then have shape: "same_shape ?s s'" by (simp add: still_running_def)
  have "begun s' \<Longrightarrow> begun ?s"
    using s'(2) by (auto simp: still_running_def begun_def open_end_def member_is_def split: if_splits)
  then have "begun s' \<Longrightarrow> \<forall>d \<in> set (depends_on ?s). done_in (run_steps run) d"
    using assms(1,2) by (auto simp: good_run_def ordered_def)
  moreover have "finished ?s \<Longrightarrow> finished s'"
    using s'(2) by (auto simp: still_running_def finished_def open_end_def member_is_def split: if_splits)
  moreover have "remaining ((run_steps run)[i := s']) + of_bool p \<le> remaining (run_steps run)"
    using remaining_update [OF assms(2), of s'] s'(2)
    by (auto simp: left_to_do_def still_running_def open_end_def member_is_def split: if_splits)
  moreover have "valid_status s'"
    using assms(1,2) s'(2)
    by (auto simp: good_run_def well_run_def list_all_length valid_status_iff still_running_def
        open_end_def member_is_def split: if_splits)
  moreover have "handled (run_steps run) \<Longrightarrow> step_status_is ''running'' s' \<longrightarrow> holds_handle s'"
    using assms(2) s'(2) holds_handle_same [of ?s s']
    by (auto simp: handled_def still_running_def open_end_def member_is_def split: if_splits)
  ultimately show ?thesis
    using assms(1,2) s'(1) shape
    by (auto simp: pass_post_def good_run_def list_update_shape
        intro: update_well_run update_ordered update_handled)
qed

lemma pending_pass:
  assumes "good_run run" "i < length (run_steps run)" "pending_post i run (run', ch, p)"
  shows "pass_post run (run', ch, p)"
proof (cases p)
  case True
  let ?s = "run_steps run ! i"
  from assms(3) True obtain s' where
    s': "run' = run\<lparr>run_steps := (run_steps run)[i := s']\<rparr>" "left_pending run ?s s'"
    by (auto simp: pending_post_def at_step_def)
  have "well_run (run_steps run)" using assms(1) by (simp add: good_run_def)
  then have "begun s' \<Longrightarrow> \<forall>d \<in> set (depends_on ?s). done_in (run_steps run) d"
    using s'(2) by (auto simp: left_pending_def begun_def member_is_def ready_iff)
  moreover have "\<not> finished ?s"
    using s'(2) by (auto simp: left_pending_def finished_def member_is_def)
  moreover have "remaining ((run_steps run)[i := s']) + of_bool p \<le> remaining (run_steps run)"
    using remaining_update [OF assms(2), of s'] s'(2)
    by (auto simp: left_to_do_def left_pending_def member_is_def True)
  moreover have "valid_status s'"
    using s'(2) by (auto simp: left_pending_def valid_status_iff)
  ultimately show ?thesis
    using assms(1,2) s'(1) s'(2) [unfolded left_pending_def]
    by (auto simp: pass_post_def good_run_def list_update_shape True
        intro: update_well_run update_ordered update_handled)
next
  case False
  with assms show ?thesis by (auto simp: pending_post_def pass_post_refl)
qed

lemma each_step_pass:
  assumes "\<And>i run w. good_run run \<Longrightarrow> i < length (run_steps run) \<Longrightarrow>
      ends (f i run) w (\<lambda>r _. pass_post run r) any_end"
    and "good_run run"
  shows "ends (each_step f run) w (\<lambda>r _. pass_post run r) any_end"
proof -
  have "ends (foldS (\<lambda>i (run, changed, progress). bindS (f i run)
      (\<lambda>(run, c, p). retS (run, changed \<or> c, progress \<or> p))) is r) w (\<lambda>r _. pass_post run r) any_end"
    if "pass_post run r" "set is \<subseteq> {..<length (run_steps run)}" for "is" r w
    using that
  proof (induction "is" arbitrary: r w)
    case (Cons i "is")
    obtain run1 ch p where r: "r = (run1, ch, p)" by (metis surj_pair)
    with Cons.prems have "good_run run1" "i < length (run_steps run1)" "pass_post run (run1, ch, p)"
      by (auto dest: pass_post_good pass_post_length)
    with Cons show ?case
      by (auto simp: r intro!: ends_mono [OF assms(1)] Cons.IH intro: pass_post_trans)
  qed simp
  then show ?thesis
    using pass_post_refl [OF assms(2)] by (simp add: each_step_def atLeast0LessThan)
qed

lemma running_steps_pass:
  "good_run run \<Longrightarrow> ends (reconcile_running_steps c rec run) w (\<lambda>r _. pass_post run r) any_end"
  unfolding reconcile_running_steps_def
  by (rule each_step_pass)
    (auto intro!: ends_mono [OF running_step_effect] running_pass good_run_step)

lemma pending_steps_pass:
  "good_run run \<Longrightarrow> ends (reconcile_pending_steps c rec run) w (\<lambda>r _. pass_post run r) any_end"
  unfolding reconcile_pending_steps_def
  by (rule each_step_pass)
    (auto intro!: ends_mono [OF pending_step_effect] pending_pass good_run_step)

section \<open>The passes end at rest\<close>

definition at_rest :: "sop_run \<Rightarrow> bool" where
  "at_rest run \<longleftrightarrow> (\<forall>s \<in> set (run_steps run). quiet run s)"

lemma pending_steps_rest:
  assumes "good_run run"
  shows "ends (reconcile_pending_steps c rec run) w
    (\<lambda>(run', _, p) _. \<not> p \<longrightarrow> run' = run \<and> at_rest run) any_end"
proof -
  have "ends (foldS (\<lambda>i (run, changed, progress). bindS (pending_step c rec i run)
        (\<lambda>(run, c, p). retS (run, changed \<or> c, progress \<or> p))) is (r, ch, q)) w
      (\<lambda>(run', _, p) _. \<not> p \<longrightarrow> \<not> q \<and> run' = r \<and> (\<forall>i \<in> set is. quiet r (run_steps r ! i))) any_end"
    if "good_run r" "set is \<subseteq> {..<length (run_steps r)}" for "is" r ch q w
    using that
  proof (induction "is" arbitrary: r ch q w)
    case (Cons i "is")
    have "ends (foldS (\<lambda>i (run, changed, progress). bindS (pending_step c rec i run)
          (\<lambda>(run, c, p). retS (run, changed \<or> c, progress \<or> p))) is (r', ch \<or> ch', q \<or> p)) w'
        (\<lambda>(run', _, p) _. \<not> p \<longrightarrow> \<not> q \<and> run' = r \<and> quiet r (run_steps r ! i) \<and>
          (\<forall>i \<in> set is. quiet r (run_steps r ! i))) any_end"
      if post: "pending_post i r (r', ch', p)" for r' ch' p w'
    proof -
      have "pass_post r (r', ch', p)" using Cons.prems post by (intro pending_pass) auto
      then have "good_run r'" "length (run_steps r') = length (run_steps r)"
        by (auto dest: pass_post_good pass_post_length)
      then show ?thesis
        using Cons.prems post
        by (intro ends_mono [OF Cons.IH]) (auto simp: pending_post_def split: if_splits)
    qed
    with Cons.prems show ?case
      by (auto intro!: ends_mono [OF pending_step_effect] good_run_step)
  qed simp
  from this [of run "[0..<length (run_steps run)]" False False, OF assms] show ?thesis
    unfolding reconcile_pending_steps_def each_step_def
    by (rule ends_mono) (auto simp: at_rest_def in_set_conv_nth)
qed

definition one_pass :: "sop_call \<Rightarrow> (string \<Rightarrow> sop_run op) \<Rightarrow> sop_run \<Rightarrow> progress op" where
  "one_pass c rec run =
     bindS (reconcile_running_steps c rec run) (\<lambda>(run, ch, p).
     bindS (reconcile_pending_steps c rec run) (\<lambda>(run, ch', p').
     retS (run, ch \<or> ch', p \<or> p')))"

lemma one_pass_effect:
  assumes "good_run run"
  shows "ends (one_pass c rec run) w
    (\<lambda>(run', ch, p) _. pass_post run (run', ch, p) \<and> (\<not> p \<longrightarrow> at_rest run')) any_end"
proof -
  have "ends (reconcile_pending_steps c rec run1) w1
      (\<lambda>(run', ch', q) _. pass_post run (run', ch \<or> ch', p \<or> q) \<and> (\<not> (p \<or> q) \<longrightarrow> at_rest run')) any_end"
    if "pass_post run (run1, ch, p)" for run1 ch p w1
    by (rule ends_mono [OF ends_conj [OF pending_steps_pass pending_steps_rest]])
      (auto intro: pass_post_trans [OF that] pass_post_good [OF that])
  then show ?thesis
    unfolding one_pass_def
    by (auto intro!: ends_mono [OF running_steps_pass [OF assms]] simp: case_prod_unfold)
qed

lemma passes_Suc:
  "reconcile_passes c rec (Suc n) run changed =
     bindS (one_pass c rec run) (\<lambda>(run, ch, p).
       if p then reconcile_passes c rec n run (changed \<or> ch) else retS (run, changed \<or> ch))"
  by (rule ext)
    (auto simp: one_pass_def bindS_def retS_def disj_assoc split: sum.splits prod.splits)

declare reconcile_passes.simps [simp del]

text \<open>\<open>advances c rec n s t\<close>: \<open>n\<close> passes that make progress lead from \<open>s\<close> to \<open>t\<close>.\<close>

inductive advances ::
    "sop_call \<Rightarrow> (string \<Rightarrow> sop_run op) \<Rightarrow> nat \<Rightarrow> sop_run \<times> sop_world \<Rightarrow> sop_run \<times> sop_world \<Rightarrow> bool"
  for c rec where
  advances_none: "advances c rec 0 s s"
| advances_pass: "one_pass c rec run w = (Inr (run', ch, True), w') \<Longrightarrow>
    advances c rec n (run', w') s \<Longrightarrow> advances c rec (Suc n) (run, w) s"

definition last_pass ::
    "sop_call \<Rightarrow> (string \<Rightarrow> sop_run op) \<Rightarrow> sop_run \<times> sop_world \<Rightarrow> (stop + sop_run) \<times> sop_world \<Rightarrow> bool" where
  "last_pass c rec s out =
     (case one_pass c rec (fst s) (snd s) of
        (Inl e, w') \<Rightarrow> out = (Inl e, w')
      | (Inr (run', _, p), w') \<Rightarrow> out = (Inr run', w') \<and> \<not> p \<and> at_rest run')"

definition end_of_passes :: "(stop + sop_run \<times> bool) \<times> sop_world \<Rightarrow> (stop + sop_run) \<times> sop_world" where
  "end_of_passes r = (case fst r of Inl e \<Rightarrow> Inl e | Inr (run, _) \<Rightarrow> Inr run, snd r)"

lemma passes_bounded:
  assumes "good_run run" "remaining (run_steps run) < m"
  shows "\<exists>n s. n \<le> remaining (run_steps run) \<and> advances c rec n (run, w) s \<and>
    last_pass c rec s (end_of_passes (reconcile_passes c rec m run ch w))"
  using assms
proof (induction m arbitrary: run ch w)
  case (Suc m)
  show ?case
  proof (cases "one_pass c rec run w")
    case (Pair r w')
    show ?thesis
    proof (cases r)
      case (Inl e)
      then have "last_pass c rec (run, w) (end_of_passes (reconcile_passes c rec (Suc m) run ch w))"
        using Pair by (simp add: last_pass_def end_of_passes_def passes_Suc bindS_def)
      then show ?thesis by (blast intro: advances_none)
    next
      case (Inr q)
      then obtain run' ch' p where q: "r = Inr (run', ch', p)" by (metis surj_pair)
      note effect = ends_Inr [OF one_pass_effect [OF Suc.prems(1)] Pair [unfolded q], simplified]
      show ?thesis
      proof (cases p)
        case True
        then have "good_run run'" "remaining (run_steps run') < remaining (run_steps run)"
          using effect pass_post_good [of run run' ch' p] by (auto simp: pass_post_def)
        with Suc.IH [where run = run' and w = w' and ch = "ch \<or> ch'"] Suc.prems obtain n s where
          n: "n \<le> remaining (run_steps run')" "advances c rec n (run', w') s"
            "last_pass c rec s (end_of_passes (reconcile_passes c rec m run' (ch \<or> ch') w'))" by auto
        have "reconcile_passes c rec (Suc m) run ch w = reconcile_passes c rec m run' (ch \<or> ch') w'"
          using Pair q True by (simp add: passes_Suc bindS_def)
        moreover have "advances c rec (Suc n) (run, w) s"
          using Pair q True n(2) by (auto intro: advances_pass)
        moreover have "Suc n \<le> remaining (run_steps run)"
          using n(1) \<open>remaining (run_steps run') < remaining (run_steps run)\<close> by simp
        ultimately show ?thesis using n(3) by (intro exI [of _ "Suc n"] exI [of _ s]) simp
      next
        case False
        with effect Pair q
        have "last_pass c rec (run, w) (end_of_passes (reconcile_passes c rec (Suc m) run ch w))"
          by (simp add: last_pass_def end_of_passes_def passes_Suc bindS_def retS_def)
        then show ?thesis by (blast intro: advances_none)
      qed
    qed
  qed
qed simp

lemma remaining_bound: "remaining steps \<le> 2 * length steps"
  by (induction steps) (auto simp: remaining_def left_to_do_def)

text \<open>C16. Reconciliation converges: from a run whose steps are well-formed and in order, at most two
  passes per step make progress, and then the next pass ends the loop, with the refusal of one of its
  own operations or with a run at rest. So the limit of the code is never what stops the passes,
  whatever children, handoffs, actions, clock and faults do.\<close>

theorem passes_converge:
  assumes "well_run (run_steps run)" "ordered (run_steps run)"
  shows "\<exists>n s. n \<le> 2 * length (run_steps run) \<and> 2 * length (run_steps run) < pass_limit run \<and>
    advances c rec n (run, w) s \<and>
    last_pass c rec s (end_of_passes (reconcile_passes c rec (pass_limit run) run ch w))"
proof -
  have "good_run run" "remaining (run_steps run) < pass_limit run"
    using assms remaining_bound [of "run_steps run"] by (simp_all add: good_run_def pass_limit_def)
  from passes_bounded [OF this, of c rec w ch] obtain n s where
    "n \<le> remaining (run_steps run)" "advances c rec n (run, w) s"
    "last_pass c rec s (end_of_passes (reconcile_passes c rec (pass_limit run) run ch w))" by blast
  with remaining_bound [of "run_steps run"] show ?thesis
    by (intro exI [of _ n] exI [of _ s]) (simp add: pass_limit_def)
qed

end
