(* ===== verification/Sop_Finality.thy ===== *)
theory Sop_Finality
  imports Sop_History Sop_Passes
begin

text \<open>
  Runs that have ended. In a database where ids are tight, run ids are unique and every outbox event
  announces a run that has ended as it says (\<open>settled_db\<close>), all tools keep this, and all of them but
  the retry of a handoff keep the row of every ended run as it is. The proof follows the stack of the
  reconciliation: while a run is reconciled, whatever happens to its children and their children, its
  own row stays.
\<close>

section \<open>Settled databases\<close>

definition ended :: "run_row \<Rightarrow> bool" where
  "ended r \<longleftrightarrow> is_run_terminal (rn_status r)"

definition announced :: "sop_db \<Rightarrow> outbox_row \<Rightarrow> bool" where
  "announced d b \<longleftrightarrow> (\<exists>r \<in> set (runs d). rn_id r = ob_run b \<and> rn_status r = ob_outcome b \<and> ended r)"

definition settled_db :: "sop_db \<Rightarrow> bool" where
  "settled_db d \<longleftrightarrow>
     (\<forall>r \<in> set (runs d). tight (rn_id r)) \<and> distinct (map rn_id (runs d)) \<and>
     (\<forall>b \<in> set (outbox d). tight (ob_id b) \<and> announced d b) \<and> distinct (map ob_run (outbox d))"

definition keeps_rows :: "(run_row \<Rightarrow> bool) \<Rightarrow> sop_db \<Rightarrow> sop_db \<Rightarrow> bool" where
  "keeps_rows P d d' \<longleftrightarrow> settled_db d' \<and> (\<forall>r \<in> set (runs d). P r \<longrightarrow> r \<in> set (runs d'))"

definition frozen :: "(run_row \<Rightarrow> bool) \<Rightarrow> sop_call \<Rightarrow> sop_db \<Rightarrow> sop_db \<Rightarrow> bool" where
  "frozen P c d d' \<longleftrightarrow> (plain_uuids c \<and> settled_db d \<longrightarrow> keeps_rows P d d')"

lemma settled_same: "runs d' = runs d \<Longrightarrow> outbox d' = outbox d \<Longrightarrow> settled_db d' = settled_db d"
  by (simp add: settled_db_def announced_def)

lemma frozen_same: "runs d' = runs d \<Longrightarrow> outbox d' = outbox d \<Longrightarrow> frozen P c d d'"
  by (simp add: frozen_def keeps_rows_def settled_same [of d' d])

lemma frozen_mono: "frozen P c d d' \<Longrightarrow> (\<And>r. Q r \<Longrightarrow> P r) \<Longrightarrow> frozen Q c d d'"
  by (auto simp: frozen_def keeps_rows_def)

interpretation frozen: quiet_order "frozen P c" c for P c
proof (unfold_locales, goal_cases)
  case (6 d r)
  then show ?case
    by (auto simp: frozen_def keeps_rows_def settled_db_def announced_def run_fresh_def)
next
  case (12 f d)
  have "ob_id (f b) = ob_id b" "ob_run (f b) = ob_run b" "ob_outcome (f b) = ob_outcome b" for b
    using 12 by (simp_all add: outbox_keys)
  then show ?case
    by (auto simp: frozen_def keeps_rows_def settled_db_def announced_def comp_def)
qed (auto simp: frozen_same, auto simp: frozen_def keeps_rows_def)

lemma settled_row: "settled_db d \<Longrightarrow> find_run d i = Some r \<Longrightarrow> r \<in> set (runs d) \<and> rn_id r = i \<and> tight i"
  by (auto simp: find_run_def settled_db_def dest: find_Some_iff_key)

lemma settled_unique: "settled_db d \<Longrightarrow> r \<in> set (runs d) \<Longrightarrow> q \<in> set (runs d) \<Longrightarrow> rn_id r = rn_id q \<Longrightarrow> r = q"
  by (auto simp: settled_db_def distinct_map inj_on_def)

section \<open>Reading a run\<close>

lemma ended_status: "ended r \<Longrightarrow> trim (rn_status r) = rn_status r"
  by (auto simp: ended_def is_run_terminal_def intro!: trim_plain simp: plain_def ws_ascii_def byte_def)

lemma run_row_columns:
  "jget (run_row_json r) ''run_id'' = Some (JStr (rn_id r))"
  "jget (run_row_json r) ''status'' = Some (JStr (rn_status r))"
  "jget (run_row_json r) ''step_states_json'' = Some (rn_steps r)"
  "jget (run_row_json r) ''parent_run_id'' = Some (jopt_str (rn_parent r))"
  by (simp_all add: run_row_json_def jget_def)

lemma required_JStr: "required_string (Some (JStr s)) code n = Inr t \<Longrightarrow> t = trim s"
  by (auto simp: required_string_Inr trimmed_def split: if_splits)

lemma hydrate_run_fields:
  assumes "hydrate_run h (run_row_json r) = Inr run"
  shows "run_id run = trim (rn_id r)" "run_status run = trim (rn_status r)"
    and "list_all is_step (run_steps run)"
proof -
  from assms obtain i status steps where
    "required_string (Some (JStr (rn_id r))) ''sop_run_corrupt'' 512 = Inr i"
    "required_string (Some (JStr (rn_status r))) ''sop_run_status_invalid'' 64 = Inr status"
    and checked: "eachR check_step_state steps = Inr ()"
    and run: "run_id run = i" "run_status run = status" "run_steps run = steps"
    unfolding hydrate_run_def Let_def bindR_Inr_iff run_row_columns by (elim exE conjE) auto
  then show "run_id run = trim (rn_id r)" "run_status run = trim (rn_status r)"
    by (auto dest: required_JStr)
  have "is_step s" if "check_step_state s = Inr ()" for s
    using that by (cases s) (auto simp: check_step_state_def bindR_Inr_iff Let_def is_step_def jget_def)
  with checked show "list_all is_step (run_steps run)"
    by (simp add: run eachR_Inr list_all_iff)
qed

section \<open>The passes change only the steps of their run\<close>

definition same_run :: "sop_run \<Rightarrow> sop_run \<Rightarrow> bool" where
  "same_run run run' \<longleftrightarrow>
     run' = run\<lparr>run_steps := run_steps run'\<rparr> \<and> list_all2 same_shape (run_steps run) (run_steps run')"

lemma same_run_refl [simp]: "same_run run run"
  by (simp add: same_run_def list.rel_refl)

lemma same_run_trans: "same_run run run1 \<Longrightarrow> same_run run1 run2 \<Longrightarrow> same_run run run2"
  unfolding same_run_def
  by (auto intro: only_steps_trans list_all2_trans [of same_shape same_shape same_shape] same_shape_trans)

lemma same_run_steps:
  assumes "same_run run run'" "list_all is_step (run_steps run)"
  shows "list_all is_step (run_steps run')" "length (run_steps run') = length (run_steps run)"
    "run_id run' = run_id run" "run_status run' = run_status run"
proof -
  from assms(1) have eq: "run' = run\<lparr>run_steps := run_steps run'\<rparr>"
    and shape: "list_all2 same_shape (run_steps run) (run_steps run')"
    by (simp_all add: same_run_def)
  show "list_all is_step (run_steps run')"
    using shape assms(2) by (auto simp: list_all2_conv_all_nth list_all_length same_shape_def)
  show "length (run_steps run') = length (run_steps run)" using shape by (simp add: list_all2_lengthD)
  show "run_id run' = run_id run" "run_status run' = run_status run"
    by (subst eq, simp)+
qed

lemma at_step_same_run:
  assumes "at_step i Q run run'" "\<And>s'. Q (run_steps run ! i) s' \<Longrightarrow> same_shape (run_steps run ! i) s'"
  shows "same_run run run'"
  using assms by (auto simp: at_step_def same_run_def intro!: list_update_shape)

lemma each_step_same_run:
  assumes step: "\<And>i run w. list_all is_step (run_steps run) \<Longrightarrow> i < length (run_steps run) \<Longrightarrow>
      ends (f i run) w (\<lambda>(run', _) _. same_run run run') any_end"
    and "list_all is_step (run_steps run)"
  shows "ends (each_step f run) w (\<lambda>(run', _) _. same_run run run') any_end"
proof -
  have "ends (foldS (\<lambda>i (run, changed, progress). bindS (f i run)
      (\<lambda>(run, c, p). retS (run, changed \<or> c, progress \<or> p))) is (r, ch)) w (\<lambda>(run', _) _. same_run run run') any_end"
    if "same_run run r" "set is \<subseteq> {..<length (run_steps run)}" for "is" r ch w
    using that
  proof (induction "is" arbitrary: r ch w)
    case (Cons i "is")
    note steps = same_run_steps [OF Cons.prems(1) assms(2)]
    have "ends (f i r) w (\<lambda>(run', _) _. same_run r run') any_end"
      using step [OF steps(1), of i] Cons.prems(2) steps(2) by simp
    with Cons.prems show ?case
      by (cases ch) (auto intro!: Cons.IH elim!: ends_mono intro: same_run_trans [OF Cons.prems(1)])
  qed simp
  then show ?thesis by (simp add: each_step_def atLeast0LessThan)
qed

lemma running_steps_same_run:
  "list_all is_step (run_steps run) \<Longrightarrow>
     ends (reconcile_running_steps c rec run) w (\<lambda>(run', _) _. same_run run run') any_end"
  unfolding reconcile_running_steps_def
  by (rule each_step_same_run)
    (auto simp: list_all_length running_post_def still_running_def
      intro!: ends_mono [OF running_step_effect] at_step_same_run)

lemma pending_post_same_run: "pending_post i run (run', ch, p) \<Longrightarrow> same_run run run'"
  by (cases p) (auto simp: pending_post_def left_pending_def elim: at_step_same_run)

lemma pending_steps_same_run:
  "list_all is_step (run_steps run) \<Longrightarrow>
     ends (reconcile_pending_steps c rec run) w (\<lambda>(run', _) _. same_run run run') any_end"
  unfolding reconcile_pending_steps_def
  by (rule each_step_same_run)
    (auto simp: list_all_length intro!: ends_mono [OF pending_step_effect] intro: pending_post_same_run)

lemma passes_same_run:
  "list_all is_step (run_steps run) \<Longrightarrow>
     ends (reconcile_passes c rec m run ch) w (\<lambda>(run', _) _. same_run run run') any_end"
proof (induction m arbitrary: run ch w)
  case (Suc m)
  have pending: "ends (reconcile_pending_steps c rec run1) w1 (\<lambda>(run', _) _. same_run run run') any_end"
    if "same_run run run1" for run1 w1
    using pending_steps_same_run [OF same_run_steps(1) [OF that Suc.prems]]
    by (rule ends_mono) (auto intro: same_run_trans [OF that])
  have rest: "ends (reconcile_passes c rec m run1 ch1) w1 (\<lambda>(run', _) _. same_run run run') any_end"
    if "same_run run run1" for run1 ch1 w1
    using Suc.IH [OF same_run_steps(1) [OF that Suc.prems]]
    by (rule ends_mono) (auto intro: same_run_trans [OF that])
  show ?case
    using Suc.prems
    by (auto simp: reconcile_passes.simps(2) Let_def
        intro!: ends_mono [OF running_steps_same_run] ends_mono [OF pending] rest)
qed (simp add: reconcile_passes.simps)

section \<open>Operations that leave runs and outbox\<close>

definition rows_kept :: "sop_db \<Rightarrow> sop_db \<Rightarrow> bool" where
  "rows_kept d d' \<longleftrightarrow> runs d' = runs d \<and> outbox d' = outbox d"

interpretation rows: table_order rows_kept
  by unfold_locales (simp_all add: rows_kept_def)

lemma rows_kept_settled: "rows_kept d d' \<Longrightarrow> settled_db d' = settled_db d"
  unfolding rows_kept_def by (intro settled_same) auto

lemma rows_append_event: "moves rows_kept (append_run_event c i s k v)"
  unfolding append_run_event_def Let_def
  by (intro rows.moves_bind rows.moves_perform rows.moves_reads reads_intros) (simp add: rows_kept_def)

lemma rows_update_handoffs: "moves rows_kept (perform c code ok (update_handoffs P f))"
  by (intro rows.moves_perform) (simp add: rows_kept_def update_handoffs_def)

lemma ends_moves: "moves R m \<Longrightarrow> ends m w (\<lambda>_ v. R (tables w) (tables v)) (\<lambda>_ v. R (tables w) (tables v))"
  by (auto simp: ends_def moves_def split: sum.splits prod.splits) (metis snd_conv)+

lemma ends_reads: "reads m \<Longrightarrow> ends m w (\<lambda>_ v. tables v = tables w) (\<lambda>_ v. tables v = tables w)"
  by (intro endsI) (simp_all add: reads_tables)

lemma ends_bindI: "ends m w Q E \<Longrightarrow> (\<And>x v. Q x v \<Longrightarrow> ends (f x) v P E) \<Longrightarrow> ends (bindS m f) w P E"
  by (auto elim: ends_mono)

lemma perform_rule:
  assumes "\<And>v. ok (tables w) \<Longrightarrow> tables v = f (tables w) \<Longrightarrow> P () v" "\<And>e v. tables v = tables w \<Longrightarrow> E e v"
  shows "ends (perform c code ok f) w P E"
  unfolding perform_def
  by (auto simp: ends_simps assms intro!: ends_mono [OF ends_reads [OF reads_statement]])

lemma query_rule:
  assumes "\<And>v. tables v = tables w \<Longrightarrow> P (f (tables w)) v" "\<And>e v. tables v = tables w \<Longrightarrow> E e v"
  shows "ends (query c code f) w P E"
  unfolding query_def
  by (auto simp: assms intro!: ends_mono [OF ends_reads [OF reads_statement]])

section \<open>Writes of one run\<close>

definition no_event :: "string \<Rightarrow> sop_db \<Rightarrow> bool" where
  "no_event i d \<longleftrightarrow> (\<forall>b \<in> set (outbox d). ob_run b \<noteq> i)"

definition shows_status :: "string \<Rightarrow> string \<Rightarrow> sop_db \<Rightarrow> bool" where
  "shows_status i s d \<longleftrightarrow> (\<forall>r \<in> set (runs d). rn_id r = i \<longrightarrow> rn_status r = s)"

abbreviation own :: "string \<Rightarrow> sop_db \<Rightarrow> sop_db \<Rightarrow> bool" where
  "own i \<equiv> keeps_rows (\<lambda>r. rn_id r \<noteq> i)"

lemma keeps_refl: "settled_db d \<Longrightarrow> keeps_rows P d d"
  by (simp add: keeps_rows_def)

lemma keeps_trans: "keeps_rows P d e \<Longrightarrow> keeps_rows P e f \<Longrightarrow> keeps_rows P d f"
  by (simp add: keeps_rows_def)

lemma keeps_rows_kept: "rows_kept d e \<Longrightarrow> keeps_rows P e f \<Longrightarrow> keeps_rows P d f"
  by (simp add: keeps_rows_def rows_kept_def)

lemma rows_kept_keeps: "rows_kept d d' \<Longrightarrow> settled_db d \<Longrightarrow> keeps_rows P d d'"
  by (rule keeps_rows_kept, assumption, rule keeps_refl, simp add: rows_kept_settled)

lemma write_run_own:
  assumes "settled_db d" "no_event (run_id run) d"
  shows "own (run_id run) d (write_run run d)" "no_event (run_id run) (write_run run d)"
    "shows_status (run_id run) (run_status run) (write_run run d)"
proof -
  have "announced (write_run run d) b" if "b \<in> set (outbox d)" for b
  proof -
    from that assms have "announced d b" "ob_run b \<noteq> run_id run"
      by (auto simp: settled_db_def no_event_def)
    then obtain r where "r \<in> set (runs d)" "rn_id r = ob_run b" "rn_status r = ob_outcome b" "ended r"
      by (auto simp: announced_def)
    with \<open>ob_run b \<noteq> run_id run\<close> show ?thesis
      by (auto simp: announced_def write_run_def update_rows_def intro!: image_eqI [of _ _ r] bexI [of _ r])
  qed
  with assms show "own (run_id run) d (write_run run d)"
    by (auto simp: keeps_rows_def settled_db_def write_run_def) (auto simp: update_rows_def)
  show "no_event (run_id run) (write_run run d)"
    using assms by (simp add: no_event_def write_run_def)
  show "shows_status (run_id run) (run_status run) (write_run run d)"
    by (auto simp: shows_status_def write_run_def update_rows_def)
qed

definition written :: "sop_run \<Rightarrow> sop_db \<Rightarrow> sop_run \<Rightarrow> sop_db \<Rightarrow> bool" where
  "written run d run' d' \<longleftrightarrow>
     run_id run' = run_id run \<and> run_status run' = run_status run \<and> own (run_id run) d d' \<and>
     no_event (run_id run) d' \<and> shows_status (run_id run) (run_status run) d'"

lemma persist_run_own:
  assumes "settled_db (tables w)" "no_event (run_id run) (tables w)"
  shows "ends (persist_run c run) w (\<lambda>run' v. written run (tables w) run' (tables v)) (\<lambda>_ v. tables v = tables w)"
  unfolding persist_run_def Let_def written_def
  using assms write_run_own [of "tables w" "run\<lparr>run_updated := t\<rparr>" for t]
  by (auto simp: ends_simps split: sum.splits intro!: perform_rule)

lemma hex_plain: "list_all plain (sha256 h v)"
proof -
  have "plain (hex_digit n)" if "n < 16" for n
    using that unfolding hex_digit_def by (simp add: plain_def ws_ascii_def byte_def)
  then show ?thesis
    by (simp add: sha256_def list_all_iff hex_byte_def byte_bound less_mult_imp_div_less)
qed

lemma deterministic_id_tight: "list_all plain p \<Longrightarrow> tight (deterministic_id h p v)"
  using hex_plain [of h v]
  by (auto simp: deterministic_id_def tight_def list_all_iff intro!: trim_plain dest!: in_set_takeD)

lemma put_terminal_outbox_own:
  assumes "settled_db (tables w)" "no_event (run_id run) (tables w)"
    and "shows_status (run_id run) (run_status run) (tables w)"
  shows "ends (put_terminal_outbox c run) w (\<lambda>_ v. own (run_id run) (tables w) (tables v))
    (\<lambda>_ v. own (run_id run) (tables w) (tables v))"
proof -
  have same: "own (run_id run) (tables w) (tables v)" if "tables v = tables w" for v
    using that keeps_refl [OF assms(1)] by simp
  have "own (run_id run) d (d\<lparr>outbox := outbox d @ [b]\<rparr>)"
    if "d = tables w" "outbox_fresh d b" "ob_run b = run_id run" "ob_outcome b = run_status run"
      "is_run_terminal (run_status run)" "tight (ob_id b)" for d b
    using that assms
    by (auto simp: keeps_rows_def settled_db_def announced_def outbox_fresh_def shows_status_def ended_def)
  moreover have "tight (deterministic_id (jlib c) ''sote_'' (run_id run))"
    by (rule deterministic_id_tight) (simp add: plain_def ws_ascii_def byte_def)
  ultimately show ?thesis
    unfolding put_terminal_outbox_def Let_def
    by (auto simp: ends_simps same split: sum.splits option.splits
        intro!: perform_rule query_rule)
qed

lemma ends_own_trans:
  assumes "ends m u (\<lambda>_ v. keeps_rows P (tables u) (tables v)) (\<lambda>_ v. keeps_rows P (tables u) (tables v))"
    and "keeps_rows P d (tables u)"
  shows "ends m u (\<lambda>_ v. keeps_rows P d (tables v)) (\<lambda>_ v. keeps_rows P d (tables v))"
  using assms(1) by (rule ends_mono) (auto intro: keeps_trans [OF assms(2)])

lemma record_status_own:
  assumes "settled_db (tables w)" "no_event (run_id run) (tables w)"
    and "shows_status (run_id run) (run_status run) (tables w)"
  shows "ends (record_status c prior run) w (\<lambda>_ v. own (run_id run) (tables w) (tables v))
    (\<lambda>_ v. own (run_id run) (tables w) (tables v))"
proof -
  have "ends (if is_run_terminal (run_status run) then put_terminal_outbox c run else retS ()) u
      (\<lambda>_ v. own (run_id run) (tables w) (tables v)) (\<lambda>_ v. own (run_id run) (tables w) (tables v))"
    if u: "rows_kept (tables w) (tables u)" for u
  proof -
    have "settled_db (tables u)" "no_event (run_id run) (tables u)"
      "shows_status (run_id run) (run_status run) (tables u)"
      using assms u rows_kept_settled [OF u] by (auto simp: rows_kept_def no_event_def shows_status_def)
    note put = put_terminal_outbox_own [OF this]
    have "own (run_id run) (tables w) (tables u)"
      by (rule rows_kept_keeps [OF u assms(1)])
    with ends_own_trans [OF put this] show ?thesis by simp
  qed
  then show ?thesis
    unfolding record_status_def
    by (rule ends_bindI [OF ends_mono [OF ends_moves [OF rows_append_event]]])
      (auto intro: rows_kept_keeps assms(1))
qed

lemma settle_run_own:
  assumes "settled_db (tables w)" "no_event (run_id run) (tables w)"
  shows "ends (settle_run c run ch) w (\<lambda>_ v. own (run_id run) (tables w) (tables v))
    (\<lambda>_ v. own (run_id run) (tables w) (tables v))"
proof -
  let ?prior = "run_status run"
  let ?Q = "\<lambda>_ v. own (run_id run) (tables w) (tables v)"
  have finish: "ends (finish_run c run) w
      (\<lambda>run' v. run_id run' = run_id run \<and> rows_kept (tables w) (tables v)) (\<lambda>_ v. rows_kept (tables w) (tables v))"
    unfolding finish_run_def
    by (auto simp: ends_simps no_output_def split: sum.splits option.splits
        intro!: ends_mono [OF ends_moves [OF rows_append_event]])
      (auto simp: rows_kept_def)
  have "ends (if ch \<or> ?prior \<noteq> run_status run1 then
        bindS (persist_run c run1) (\<lambda>run2.
        bindS (if ?prior \<noteq> run_status run2 then record_status c ?prior run2 else retS ()) (\<lambda>_. retS run2))
      else retS run1) u ?Q ?Q"
    if id: "run_id run1 = run_id run" and u: "rows_kept (tables w) (tables u)" for run1 u
  proof -
    have settled: "settled_db (tables u)" "no_event (run_id run1) (tables u)"
      using assms u id rows_kept_settled [OF u] by (auto simp: rows_kept_def no_event_def)
    have own_v: "own (run_id run) (tables w) (tables v)" if "written run1 (tables u) run2 (tables v)" for run2 v
      using that by (auto simp: written_def id intro: keeps_rows_kept [OF u])
    have recorded: "ends (record_status c ?prior run2) v ?Q ?Q" if "written run1 (tables u) run2 (tables v)" for run2 v
    proof -
      from that have "settled_db (tables v)" "no_event (run_id run2) (tables v)"
        "shows_status (run_id run2) (run_status run2) (tables v)" and i2: "run_id run2 = run_id run"
        by (auto simp: written_def keeps_rows_def id)
      from ends_own_trans [OF record_status_own [OF this(1-3)]] own_v [OF that] i2 show ?thesis by simp
    qed
    show ?thesis
      using keeps_rows_kept [OF u keeps_refl [OF settled(1)]]
      by (auto simp: ends_simps intro!: ends_mono [OF persist_run_own [OF settled]] recorded intro: own_v)
  qed
  note rest = this
  have "ends (if list_all step_terminal (run_steps run) then finish_run c run else retS (resume_run run)) w
      (\<lambda>run' v. run_id run' = run_id run \<and> rows_kept (tables w) (tables v)) ?Q"
    using ends_mono [OF finish, where F = ?Q] rows_kept_keeps [OF _ assms(1)]
    by (simp add: resume_run_def rows.R_refl)
  then show ?thesis
    unfolding settle_run_def Let_def by (rule ends_bindI) (rule rest, simp_all)
qed

section \<open>Reconciliation under a stack\<close>

definition outside :: "string list \<Rightarrow> run_row \<Rightarrow> bool" where
  "outside stack r \<longleftrightarrow> rn_id r \<in> set stack \<or> ended r"

lemma moves_ends:
  "(\<And>w. ends m w (\<lambda>_ v. R (tables w) (tables v)) (\<lambda>_ v. R (tables w) (tables v))) \<Longrightarrow> moves R m"
  unfolding moves_def ends_def by (simp add: case_prod_beta split: sum.splits)

lemma frozenI:
  assumes "\<And>w. plain_uuids c \<Longrightarrow> settled_db (tables w) \<Longrightarrow>
    ends m w (\<lambda>_ v. keeps_rows P (tables w) (tables v)) (\<lambda>_ v. keeps_rows P (tables w) (tables v))"
  shows "moves (frozen P c) m"
proof (rule moves_ends)
  fix w
  show "ends m w (\<lambda>_ v. frozen P c (tables w) (tables v)) (\<lambda>_ v. frozen P c (tables w) (tables v))"
  proof (cases "plain_uuids c \<and> settled_db (tables w)")
    case True
    with ends_mono [OF assms [of w]] show ?thesis by (simp add: frozen_def)
  qed (auto simp: frozen_def intro: ends_any)
qed

lemma frozen_ends:
  assumes "moves (frozen P c) m" "plain_uuids c" "settled_db (tables w)"
  shows "ends m w (\<lambda>_ v. keeps_rows P (tables w) (tables v)) (\<lambda>_ v. keeps_rows P (tables w) (tables v))"
  using ends_moves [OF assms(1), of w] assms(2,3) by (simp add: frozen_def)

lemma get_run_rule:
  assumes "\<And>r run v. find_run (tables w) i = Some r \<Longrightarrow> hydrate_run (jlib c) (run_row_json r) = Inr run \<Longrightarrow>
      tables v = tables w \<Longrightarrow> P run v"
    and "\<And>e v. tables v = tables w \<Longrightarrow> E e v"
  shows "ends (get_run c i) w P E"
proof (rule endsI)
  fix run v
  assume "get_run c i w = (Inr run, v)"
  then show "P run v" by (rule get_run_row) (rule assms(1))
next
  fix e v
  assume "get_run c i w = (Inl e, v)"
  moreover have "reads (get_run c i)" by (auto simp: get_run_def intro: reads_intros)
  ultimately show "E e v" by (intro assms(2)) (rule reads_tables)
qed

text \<open>What is read of an open run in a settled database.\<close>

definition open_row :: "string \<Rightarrow> sop_run \<Rightarrow> sop_db \<Rightarrow> run_row \<Rightarrow> bool" where
  "open_row i run d r \<longleftrightarrow>
     r \<in> set (runs d) \<and> rn_id r = i \<and> run_id run = i \<and> \<not> ended r \<and> list_all is_step (run_steps run)"

lemma read_row:
  assumes "settled_db d" "find_run d i = Some r" "hydrate_run h (run_row_json r) = Inr run"
  shows "r \<in> set (runs d)" "rn_id r = i" "run_id run = i"
    and "\<not> is_run_terminal (run_status run) \<Longrightarrow> open_row i run d r"
proof -
  note row = settled_row [OF assms(1,2)] and fields = hydrate_run_fields [OF assms(3)]
  then show facts: "r \<in> set (runs d)" "rn_id r = i" "run_id run = i" by (auto simp: tight_def)
  show "open_row i run d r" if "\<not> is_run_terminal (run_status run)"
    using facts fields that ended_status [of r] by (auto simp: open_row_def ended_def)
qed

lemma get_open:
  assumes "settled_db (tables w)" "\<And>e v. tables v = tables w \<Longrightarrow> E e v"
  shows "ends (get_run c i) w (\<lambda>run v. tables v = tables w \<and> run_id run = i \<and>
    (\<not> is_run_terminal (run_status run) \<longrightarrow> (\<exists>r. open_row i run (tables w) r))) E"
  by (rule get_run_rule) (use read_row [OF assms(1)] assms(2) in blast)+

lemma own_compose:
  assumes "settled_db d" "r \<in> set (runs d)" "rn_id r = i" "\<not> P r"
    and "keeps_rows P d e" "own i e f"
  shows "keeps_rows P d f"
  using assms settled_unique [OF assms(1)] by (auto simp: keeps_rows_def)

lemma open_no_event:
  assumes "settled_db d" "r \<in> set (runs d)" "rn_id r = i" "\<not> ended r"
  shows "no_event i d"
  unfolding no_event_def
proof (intro ballI notI)
  fix b
  assume "b \<in> set (outbox d)" "ob_run b = i"
  then obtain q where "q \<in> set (runs d)" "rn_id q = i" "ended q"
    using assms(1) by (auto simp: settled_db_def announced_def)
  with settled_unique [OF assms(1), of q r] assms show False by simp
qed

lemma reconcile_run_frozen: "moves (frozen (outside stack) c) (reconcile_run c n stack i)"
proof (induction n arbitrary: stack i)
  case (Suc n)
  let ?passes = "\<lambda>run. reconcile_passes c (reconcile_run c n (i # stack)) (pass_limit run) run False"
  show ?case
  proof (rule frozenI)
    fix w :: sop_world
    assume plain: "plain_uuids c" and settled: "settled_db (tables w)"
    let ?Q = "\<lambda>_ v. keeps_rows (outside stack) (tables w) (tables v)"
    have work: "ends (bindS (?passes run) (\<lambda>(run, ch). settle_run c run ch)) v ?Q ?Q"
      if row: "open_row i run (tables w) r" and fresh: "i \<notin> set stack" and v: "tables v = tables w" for run r v
    proof (rule ends_bindI)
      let ?P = "outside (i # stack)"
      have "moves (frozen ?P c) (?passes run)"
        by (rule frozen.moves_reconcile_passes) (rule Suc.IH)
      from ends_conj [OF frozen_ends [OF this plain, of v] passes_same_run] row v settled
      have "ends (?passes run) v (\<lambda>x u. keeps_rows ?P (tables w) (tables u) \<and> same_run run (fst x))
        (\<lambda>_ u. keeps_rows ?P (tables w) (tables u))"
        by (auto simp: open_row_def elim: ends_mono)
      then show "ends (?passes run) v (\<lambda>x u. keeps_rows ?P (tables w) (tables u) \<and> same_run run (fst x)) ?Q"
        by (rule ends_mono) (auto simp: keeps_rows_def outside_def)
    next
      fix x :: "sop_run \<times> bool" and u :: sop_world
      assume x: "keeps_rows (outside (i # stack)) (tables w) (tables u) \<and> same_run run (fst x)"
      obtain run' ch where "x = (run', ch)" by force
      with x row have id: "run_id run' = i" and keeps: "keeps_rows (outside (i # stack)) (tables w) (tables u)"
        using same_run_steps(3) [of run run'] by (auto simp: open_row_def)
      with row have "settled_db (tables u)" "r \<in> set (runs (tables u))"
        by (auto simp: keeps_rows_def outside_def open_row_def)
      with row id have "no_event (run_id run') (tables u)"
        by (auto simp: open_row_def intro: open_no_event)
      have "keeps_rows (outside stack) (tables w) (tables u)" "\<not> outside stack r"
        using keeps row fresh by (auto simp: keeps_rows_def outside_def open_row_def)
      from own_compose [OF settled _ _ this(2,1)] row
      have "own i (tables u) d \<Longrightarrow> keeps_rows (outside stack) (tables w) d" for d
        by (auto simp: open_row_def)
      with settle_run_own [OF \<open>settled_db (tables u)\<close> \<open>no_event (run_id run') (tables u)\<close>, of c ch] id
      have "ends (settle_run c run' ch) u ?Q ?Q"
        by (auto elim: ends_mono)
      with \<open>x = (run', ch)\<close> show "ends (case x of (run, ch) \<Rightarrow> settle_run c run ch) u ?Q ?Q" by simp
    qed
    have refl: "keeps_rows (outside stack) (tables w) (tables w)" by (rule keeps_refl [OF settled])
    have "ends (bindS (get_run c i) (\<lambda>run. if is_run_terminal (run_status run) then retS run
        else bindS (?passes run) (\<lambda>(run, ch). settle_run c run ch))) w ?Q ?Q" if "i \<notin> set stack"
      by (rule ends_bindI [OF get_open [OF settled]]) (use refl work that in \<open>auto simp del: ends_bind\<close>)
    then show "ends (reconcile_run c (Suc n) stack i) w ?Q ?Q"
      by (cases "i \<in> set stack") (simp_all add: denyS_if_def refl bindS_ret)
  qed
qed (auto intro: moves_intros)

lemma outside_nil: "outside [] = ended"
  by (rule ext) (simp add: outside_def)

lemma ancestors_loop_frozen: "moves (frozen ended c) (ancestors_loop c n m seen i)"
proof (induction m arbitrary: seen i)
  case 0
  then show ?case by (cases i) (auto intro: moves_intros)
next
  case (Suc m)
  then show ?case
    using reconcile_run_frozen [of "[]" c n] by (cases i) (auto simp: outside_nil intro!: moves_intros)
qed

lemma reconcile_ancestors_frozen [moves_intros]: "moves (frozen ended c) (reconcile_run_and_ancestors c n i)"
  unfolding reconcile_run_and_ancestors_def by (rule ancestors_loop_frozen)

section \<open>Cancellation\<close>

lemma frozen_weaken: "moves (frozen P c) m \<Longrightarrow> (\<And>r. Q r \<Longrightarrow> P r) \<Longrightarrow> moves (frozen Q c) m"
  unfolding moves_def by (blast intro: frozen_mono)

lemma rows_cancel_actions: "moves rows_kept (perform c code ok (\<lambda>d. d\<lparr>actions := f (actions d)\<rparr>))"
  by (intro rows.moves_perform) (simp add: rows_kept_def)

lemma reads_skip: "reads (skip_open_step c m s)"
  unfolding skip_open_step_def skip_step_def by (intro reads_intros)

lemma written_event_own:
  assumes "written run d run' (tables u)" "settled_db d"
  shows "ends (bindS (append_run_event c i s k v) (\<lambda>_. put_terminal_outbox c run')) u
    (\<lambda>_ v. own (run_id run) d (tables v)) (\<lambda>_ v. own (run_id run) d (tables v))"
proof -
  have now: "settled_db (tables u)" "own (run_id run) d (tables u)"
    using assms by (auto simp: written_def keeps_rows_def)
  have kept: "own (run_id run) d (tables v)" if "rows_kept (tables u) (tables v)" for v :: sop_world
    using keeps_trans [OF now(2) rows_kept_keeps [OF that now(1)]] .
  have event: "ends (append_run_event c i s k v) u (\<lambda>_ v. rows_kept (tables u) (tables v))
      (\<lambda>_ v. own (run_id run) d (tables v))"
    by (rule ends_mono [OF ends_moves [OF rows_append_event]]) (simp_all add: kept)
  have put: "ends (put_terminal_outbox c run') v (\<lambda>_ v. own (run_id run) d (tables v))
      (\<lambda>_ v. own (run_id run) d (tables v))" if v: "rows_kept (tables u) (tables v)" for v :: sop_world
  proof -
    have "settled_db (tables v)" "no_event (run_id run') (tables v)"
      "shows_status (run_id run') (run_status run') (tables v)" "run_id run' = run_id run"
      using assms now(1) rows_kept_settled [OF v] v
      by (auto simp: written_def rows_kept_def no_event_def shows_status_def)
    from ends_own_trans [OF put_terminal_outbox_own [OF this(1-3)], of d c] kept [OF v] this(4)
    show ?thesis by simp
  qed
  show ?thesis by (rule ends_bindI [OF event put])
qed

lemma cancel_open_run_own:
  assumes "settled_db (tables w)" "no_event (run_id run) (tables w)"
  shows "ends (cancel_open_run c reason run) w (\<lambda>_ v. own (run_id run) (tables w) (tables v))
    (\<lambda>_ v. own (run_id run) (tables w) (tables v))"
proof -
  let ?K = "\<lambda>_ v. rows_kept (tables w) (tables v)"
  let ?Q = "\<lambda>_ v. own (run_id run) (tables w) (tables v)"
  have kept: "ends m u ?K ?Q" if "moves rows_kept m" "rows_kept (tables w) (tables u)" for m :: "'a op" and u
    using ends_moves [OF that(1), of u]
    by (rule ends_mono) (auto intro: rows.R_trans [OF that(2)] rows_kept_keeps assms(1))
  have rest: "ends (bindS (persist_run c run1) (\<lambda>run2.
      bindS (append_run_event c (run_id run2) None ''run_cancelled'' (JObj [(''reason'', JStr reason)])) (\<lambda>_.
      put_terminal_outbox c run2))) u ?Q ?Q"
    if u: "rows_kept (tables w) (tables u)" and id: "run_id run1 = run_id run" for run1 u
  proof (rule ends_bindI [OF ends_mono [OF persist_run_own]])
    show "settled_db (tables u)" "no_event (run_id run1) (tables u)"
      using assms u id rows_kept_settled [OF u] by (auto simp: rows_kept_def no_event_def)
    then show "ends (bindS (append_run_event c (run_id run2) None ''run_cancelled'' (JObj [(''reason'', JStr reason)]))
        (\<lambda>_. put_terminal_outbox c run2)) v ?Q ?Q" if "written run1 (tables u) run2 (tables v)" for run2 v
      by - (rule ends_mono [OF written_event_own [OF that]], simp_all add: id keeps_rows_kept [OF u])
    show "own (run_id run) (tables w) (tables v)" if "tables v = tables u" for e :: stop and v
      using rows_kept_keeps [OF u assms(1)] that by simp
  qed
  show ?thesis
    unfolding cancel_open_run_def Let_def
    by (intro ends_bindI [OF kept] rest rows.moves_reads reads_mapS reads_skip reads_now
        rows_cancel_actions rows_update_handoffs rows.R_refl)
      (simp_all add: no_output_def)
qed

lemma cancel_children:
  assumes "\<And>i seen w. settled_db (tables w) \<Longrightarrow>
      ends (f i seen) w (\<lambda>seen' v. set seen \<subseteq> set seen' \<and> keeps_rows (outside seen) (tables w) (tables v))
        (\<lambda>_ v. keeps_rows (outside seen) (tables w) (tables v))"
    and "settled_db (tables w)"
  shows "ends (foldS f is seen) w
    (\<lambda>seen' v. set seen \<subseteq> set seen' \<and> keeps_rows (outside seen) (tables w) (tables v))
    (\<lambda>_ v. keeps_rows (outside seen) (tables w) (tables v))"
  using assms(2)
proof (induction "is" arbitrary: seen w)
  case (Cons i "is")
  show ?case
    unfolding foldS.simps
  proof (rule ends_bindI [OF assms(1) [OF Cons.prems]])
    fix seen1 and u :: sop_world
    assume u: "set seen \<subseteq> set seen1 \<and> keeps_rows (outside seen) (tables w) (tables u)"
    then have "settled_db (tables u)" by (simp add: keeps_rows_def)
    have less: "keeps_rows (outside seen) (tables w) d" if "keeps_rows (outside seen1) (tables u) d" for d
      using that u by (auto simp: keeps_rows_def outside_def)
    show "ends (foldS f is seen1) u
        (\<lambda>seen' v. set seen \<subseteq> set seen' \<and> keeps_rows (outside seen) (tables w) (tables v))
        (\<lambda>_ v. keeps_rows (outside seen) (tables w) (tables v))"
      using Cons.IH [OF \<open>settled_db (tables u)\<close>, of seen1] by (rule ends_mono) (use u less in auto)
  qed
qed (simp add: keeps_refl)

lemma cancel_run_internal_keeps:
  assumes "settled_db (tables w)"
  shows "ends (cancel_run_internal c n i reason seen) w
    (\<lambda>seen' v. set seen \<subseteq> set seen' \<and> keeps_rows (outside seen) (tables w) (tables v))
    (\<lambda>_ v. keeps_rows (outside seen) (tables w) (tables v))"
  using assms
proof (induction n arbitrary: i reason seen w)
  case 0
  then show ?case by (simp add: keeps_refl)
next
  case (Suc n)
  let ?Q = "\<lambda>seen' v. set seen \<subseteq> set seen' \<and> keeps_rows (outside seen) (tables w) (tables v)"
  let ?E = "\<lambda>_ v. keeps_rows (outside seen) (tables w) (tables v)"
  let ?children = "\<lambda>run. foldS (\<lambda>child. cancel_run_internal c n child (''parent_cancelled:'' @ i)) (child_ids run) (i # seen)"
  have work: "ends (bindS (?children run) (\<lambda>seen. bindS (cancel_open_run c reason run) (\<lambda>_. retS seen))) v ?Q ?E"
    if row: "open_row i run (tables w) r" and fresh: "i \<notin> set seen" and v: "tables v = tables w" for run r v
  proof (rule ends_bindI)
    have "settled_db (tables v)" using Suc.prems v by simp
    from cancel_children [OF Suc.IH this, where seen = "i # seen"]
    show "ends (?children run) v (\<lambda>seen' u. set (i # seen) \<subseteq> set seen' \<and>
        keeps_rows (outside (i # seen)) (tables w) (tables u)) ?E"
      by (rule ends_mono) (auto simp: v keeps_rows_def outside_def)
  next
    fix seen' and u :: sop_world
    assume u: "set (i # seen) \<subseteq> set seen' \<and> keeps_rows (outside (i # seen)) (tables w) (tables u)"
    then have settled: "settled_db (tables u)" and "r \<in> set (runs (tables u))"
      using row by (auto simp: keeps_rows_def outside_def open_row_def)
    with row have no: "no_event (run_id run) (tables u)"
      by (auto simp: open_row_def intro: open_no_event)
    have "keeps_rows (outside seen) (tables w) (tables u)" "\<not> outside seen r"
      using u row fresh by (auto simp: keeps_rows_def outside_def open_row_def)
    from own_compose [OF Suc.prems _ _ this(2,1)] row
    have "own i (tables u) d \<Longrightarrow> keeps_rows (outside seen) (tables w) d" for d
      by (auto simp: open_row_def)
    with cancel_open_run_own [OF settled no, of c reason] row u
    show "ends (bindS (cancel_open_run c reason run) (\<lambda>_. retS seen')) u ?Q ?E"
      by (auto simp: open_row_def elim: ends_mono)
  qed
  have refl: "keeps_rows (outside seen) (tables w) (tables w)" by (rule keeps_refl [OF Suc.prems])
  have "ends (bindS (get_run c i) (\<lambda>run. if is_run_terminal (run_status run) then retS (i # seen)
      else bindS (?children run) (\<lambda>seen. bindS (cancel_open_run c reason run) (\<lambda>_. retS seen)))) w ?Q ?E"
    if "i \<notin> set seen"
    by (rule ends_bindI [OF get_open [OF Suc.prems]]) (use refl work that in \<open>auto simp del: ends_bind\<close>)
  then show ?case by (simp add: refl del: ends_bind)
qed

section \<open>The tools\<close>

lemma cancel_run_frozen [moves_intros]: "moves (frozen ended c) (cancel_run_internal c n i reason seen)"
  by (rule frozenI, rule ends_mono, erule cancel_run_internal_keeps)
    (auto simp: keeps_rows_def outside_def)

lemma run_start_frozen [moves_intros]: "moves (frozen ended c) (run_start c n args)"
  unfolding run_start_def by (intro moves_intros)

lemma run_refresh_frozen [moves_intros]: "moves (frozen ended c) (run_refresh c n args)"
  unfolding run_refresh_def by (intro moves_intros)

lemma run_cancel_frozen [moves_intros]: "moves (frozen ended c) (run_cancel c n args)"
  unfolding run_cancel_def Let_def by (intro moves_intros)

lemma action_resolve_frozen [moves_intros]: "moves (frozen ended c) (action_resolve c n args)"
  unfolding action_resolve_def action_resolution_run_view_def Let_def by (intro moves_intros)

lemma retry_as_new_run_frozen [moves_intros]:
  "moves (frozen ended c) (retry_failed_handoff_as_new_run c n handoff run who reason blocked)"
  unfolding retry_failed_handoff_as_new_run_def Let_def by (intro moves_intros)

text \<open>The write of an open run, and what follows it.\<close>

lemma persist_open:
  assumes "settled_db d" "open_row i run d r" "keeps_rows (\<lambda>_. True) d (tables u)"
    and "run_id run' = i" "moves (frozen ended c) m" "plain_uuids c"
  shows "ends (bindS (persist_run c run') (\<lambda>_. m)) u (\<lambda>_ v. keeps_rows ended d (tables v))
    (\<lambda>_ v. keeps_rows ended d (tables v))"
proof -
  have settled: "settled_db (tables u)" and kept: "keeps_rows ended d (tables u)"
    and row: "r \<in> set (runs (tables u))" "rn_id r = i" "\<not> ended r"
    using assms(1-3) by (auto simp: keeps_rows_def open_row_def)
  have no: "no_event (run_id run') (tables u)"
    using open_no_event [OF settled row] assms(4) by simp
  have after: "keeps_rows ended d (tables v)" if "written run' (tables u) run2 (tables v)" for run2 and v :: sop_world
    using that assms(2,4) own_compose [OF assms(1) _ _ _ kept, of r i "tables v"]
    by (auto simp: written_def open_row_def)
  have rest: "ends m v (\<lambda>_ v. keeps_rows ended d (tables v)) (\<lambda>_ v. keeps_rows ended d (tables v))"
    if "written run' (tables u) run2 (tables v)" for run2 v
  proof (rule ends_own_trans [OF frozen_ends [OF assms(5,6)] after [OF that]])
    show "settled_db (tables v)" using after [OF that] by (simp add: keeps_rows_def)
  qed
  show ?thesis
    by (rule ends_bindI [OF ends_mono [OF persist_run_own [OF settled no]] rest]) (simp_all add: kept)
qed

lemma reads_now_or: "reads (case v of None \<Rightarrow> now_iso c | Some t \<Rightarrow> retS t)"
  by (intro reads_intros)

lemma frozen_true_ends:
  assumes "moves (frozen (\<lambda>_. True) c) m" "plain_uuids c" "keeps_rows (\<lambda>_. True) d (tables u)"
  shows "ends m u (\<lambda>_ v. keeps_rows (\<lambda>_. True) d (tables v)) (\<lambda>_ v. keeps_rows ended d (tables v))"
proof -
  have "settled_db (tables u)" using assms(3) by (simp add: keeps_rows_def)
  from frozen_ends [OF assms(1,2) this] show ?thesis
    by (rule ends_mono) (use assms(3) in \<open>auto simp: keeps_rows_def\<close>)
qed

lemma advance_step_keeps:
  assumes "settled_db d" "open_row i run d r" "keeps_rows (\<lambda>_. True) d (tables u)" "plain_uuids c"
  shows "ends (advance_step c n a k handoff run) u (\<lambda>_ v. keeps_rows ended d (tables v))
    (\<lambda>_ v. keeps_rows ended d (tables v))"
proof -
  have rest: "moves (frozen ended c) (bindS (reconcile_run_and_ancestors c n (av_run a)) (\<lambda>_.
      bindS (get_run c (av_run a)) (\<lambda>run. retS (advance_reply run handoff False))))"
    by (intro moves_intros)
  have id: "run_id (set_run_step k f run) = i" for f using assms(2) by (simp add: open_row_def)
  show ?thesis
    unfolding advance_step_def Let_def
  proof (rule ends_bindI [OF frozen_true_ends [OF _ assms(4)]], goal_cases)
    case (3 t v)
    then show ?case
    proof (rule_tac ends_bindI [OF frozen_true_ends [OF _ assms(4)]], goal_cases)
      case (3 t v)
      then show ?case by (rule_tac persist_open [OF assms(1,2) _ id rest assms(4)])
    qed (auto intro: moves_intros)
  qed (use assms(3) in \<open>auto intro!: moves_intros\<close>)
qed

lemma advance_outcome:
  "is_run_terminal (run_status run) \<Longrightarrow> check_advance c a run step None \<noteq> Inr u"
  by (auto simp: check_advance_def Let_def bindR_Inr_iff)

lemma run_advance_frozen [moves_intros]: "moves (frozen ended c) (run_advance c n args)"
proof -
  have "moves (frozen ended c) (bindS (get_run c (av_run a)) (\<lambda>run.
      bindS (liftS (ok_or (step_position run (av_step a)) (refuse_step ''sop_step_not_found'' (av_step a)))) (\<lambda>k.
      bindS (liftS (check_advance c a run (run_steps run ! k)
        (optional_string (jget (run_steps run ! k) ''completion_fingerprint'')))) (\<lambda>_.
      bindS (complete_handoff c (av_handoff a) (av_run a) (av_step a) (av_consumer a) (av_token a)
        (av_completion a)) (\<lambda>(handoff, replayed).
      case optional_string (jget (run_steps run ! k) ''completion_fingerprint'') of
        Some fp \<Rightarrow> if b k run fp replayed then retS (x run handoff) else denyS (y run k)
      | None \<Rightarrow> advance_step c n a k handoff run)))))" for a b x y
  proof (rule frozenI)
    fix w :: sop_world
    assume plain: "plain_uuids c" and settled: "settled_db (tables w)"
    let ?Q = "\<lambda>_ v. keeps_rows ended (tables w) (tables v)"
    have refl: "keeps_rows P (tables w) (tables w)" for P by (rule keeps_refl [OF settled])
    have complete: "ends (complete_handoff c (av_handoff a) (av_run a) (av_step a) (av_consumer a) (av_token a)
        (av_completion a)) v (\<lambda>_ v. keeps_rows (\<lambda>_. True) (tables w) (tables v)) ?Q"
      if "tables v = tables w" for v
      by (rule frozen_true_ends [OF _ plain]) (auto intro: moves_intros simp: that refl)
    have drop: "keeps_rows ended (tables w) d" if "keeps_rows (\<lambda>_. True) (tables w) d" for d
      using that by (simp add: keeps_rows_def)
    show "ends (bindS (get_run c (av_run a)) (\<lambda>run.
      bindS (liftS (ok_or (step_position run (av_step a)) (refuse_step ''sop_step_not_found'' (av_step a)))) (\<lambda>k.
      bindS (liftS (check_advance c a run (run_steps run ! k)
        (optional_string (jget (run_steps run ! k) ''completion_fingerprint'')))) (\<lambda>_.
      bindS (complete_handoff c (av_handoff a) (av_run a) (av_step a) (av_consumer a) (av_token a)
        (av_completion a)) (\<lambda>(handoff, replayed).
      case optional_string (jget (run_steps run ! k) ''completion_fingerprint'') of
        Some fp \<Rightarrow> if b k run fp replayed then retS (x run handoff) else denyS (y run k)
      | None \<Rightarrow> advance_step c n a k handoff run))))) w ?Q ?Q"
      by (rule ends_bindI [OF get_open [OF settled]], simp add: refl)
        (auto simp: ends_lift refl advance_outcome split: sum.splits option.splits prod.splits
          intro!: ends_mono [OF complete] drop advance_step_keeps [OF settled _ _ plain])
  qed
  then show ?thesis
    unfolding run_advance_def Let_def
    by (rule_tac frozen.moves_transactional, rule_tac frozen.moves_bind, rule_tac frozen.moves_basic(3))
qed

section \<open>The retry of a handoff\<close>

lemma reopen_outbox_keeps:
  assumes "settled_db (tables w)"
  shows "ends (reopen_terminal_outbox_for_retry c i) w
    (\<lambda>_ v. keeps_rows (\<lambda>_. True) (tables w) (tables v) \<and> no_event i (tables v)) (\<lambda>_ v. tables v = tables w)"
proof -
  have none: "no_event i d" if "find (\<lambda>r. ob_run r = i) (outbox d) = None" for d :: sop_db
    using that by (auto simp: no_event_def find_None_iff)
  let ?left = "\<lambda>t d. d\<lparr>outbox := filter (\<lambda>q. ob_id q = t \<longrightarrow> ob_run q \<noteq> i) (outbox d)\<rparr>"
  have found: "keeps_rows (\<lambda>_. True) d (?left t d)" "no_event i (?left t d)"
    if d: "settled_db d" and b: "find (\<lambda>r. ob_run r = i) (outbox d) = Some b"
      and t: "required_string (Some (JStr (ob_id b))) ''sop_outbox_event_id_invalid'' 512 = Inr t" for d :: sop_db and b t
  proof -
    from find_Some_iff_key [OF b] have row: "b \<in> set (outbox d)" "ob_run b = i" by auto
    with d required_JStr [OF t] have "t = ob_id b" by (simp add: settled_db_def tight_def)
    moreover have "inj_on ob_run (set (outbox d))" using d by (simp add: settled_db_def distinct_map)
    then have "q = b" if "q \<in> set (outbox d)" "ob_run q = i" for q
      using that row by (auto dest: inj_onD)
    ultimately show "no_event i (?left t d)" by (auto simp: no_event_def)
    show "keeps_rows (\<lambda>_. True) d (?left t d)"
      using d by (auto simp: keeps_rows_def settled_db_def announced_def distinct_map_filter)
  qed
  show ?thesis
    unfolding reopen_terminal_outbox_for_retry_def Let_def
    using assms keeps_refl [OF assms] none
    by (auto simp: ends_simps split: option.splits sum.splits intro!: query_rule perform_rule)
      (rule found; assumption)+
qed

lemma settled_kept: "moves (frozen P c) m \<Longrightarrow> moves (frozen (\<lambda>_. False) c) m"
  by (rule frozen_weaken) simp_all

lemma reopen_handoff_settled:
  assumes "settled_db d" "keeps_rows (\<lambda>_. True) d (tables u)" "no_event (run_id run) (tables u)" "plain_uuids c"
  shows "ends (reopen_handoff c n i handoff run step k who reason event) u
    (\<lambda>_ v. settled_db (tables v)) (\<lambda>_ v. settled_db (tables v))"
proof -
  have id: "run_id (fst (reset_retryable_dependent_steps run step)) = run_id run"
    by (simp add: reset_retryable_dependent_steps_def split: prod.split)
  have "moves (frozen (\<lambda>_. False) c) (bindS (append_run_event c r s' x v) (\<lambda>_.
      bindS (reconcile_run_and_ancestors c n r) (\<lambda>_. bindS (get_run c r) (\<lambda>run.
      bindS (get_handoff c i) (\<lambda>handoff. retS (f run handoff))))))" for r s' x v f
    by (rule settled_kept [where P = ended]) (intro moves_intros)
  then have after: "ends (bindS (append_run_event c r s' x v) (\<lambda>_.
      bindS (reconcile_run_and_ancestors c n r) (\<lambda>_. bindS (get_run c r) (\<lambda>run.
      bindS (get_handoff c i) (\<lambda>handoff. retS (f run handoff)))))) w
      (\<lambda>_ v. settled_db (tables v)) (\<lambda>_ v. settled_db (tables v))"
    if "settled_db (tables w)" for r s' x v f w
    by (rule ends_mono [OF frozen_ends [OF _ assms(4) that]]) (simp_all add: keeps_rows_def)
  have settled: "settled_db (tables u)" using assms(2) by (simp add: keeps_rows_def)
  have work: "ends (bindS (perform c code ok (update_handoffs P h)) (\<lambda>_. bindS (persist_run c run1) (\<lambda>_.
      bindS (append_run_event c r s' x v) (\<lambda>_.
      bindS (reconcile_run_and_ancestors c n r) (\<lambda>_. bindS (get_run c r) (\<lambda>run.
      bindS (get_handoff c i) (\<lambda>handoff. retS (f run handoff)))))))) w
      (\<lambda>_ v. settled_db (tables v)) (\<lambda>_ v. settled_db (tables v))"
    if w: "tables w = tables u" and run1: "run_id run1 = run_id run" for code ok P h run1 r s' x v f w
  proof (rule ends_bindI [OF ends_mono [OF ends_moves [OF rows_update_handoffs]]])
    fix y :: unit and z :: sop_world
    assume z: "rows_kept (tables w) (tables z)"
    then have "settled_db (tables z)" "no_event (run_id run1) (tables z)"
      using settled assms(3) w run1 rows_kept_settled [OF z] by (auto simp: rows_kept_def no_event_def)
    note written = persist_run_own [OF this, of c] and this
    then show "ends (bindS (persist_run c run1) (\<lambda>_. bindS (append_run_event c r s' x v) (\<lambda>_.
      bindS (reconcile_run_and_ancestors c n r) (\<lambda>_. bindS (get_run c r) (\<lambda>run.
      bindS (get_handoff c i) (\<lambda>handoff. retS (f run handoff))))))) z
      (\<lambda>_ v. settled_db (tables v)) (\<lambda>_ v. settled_db (tables v))"
      by (intro ends_bindI [OF ends_mono [OF written, where Q = "\<lambda>_ v. settled_db (tables v)"]] after)
        (auto simp: written_def keeps_rows_def)
  qed (use settled w rows_kept_settled in \<open>auto intro: rows.R_trans\<close>)
  have now: "ends (now_iso c) u (\<lambda>_ v. tables v = tables u) (\<lambda>_ v. settled_db (tables v))"
    by simp
  show ?thesis
    unfolding reopen_handoff_def Let_def case_prod_beta
    by (rule ends_bindI [OF now], rule work) (simp_all add: id)
qed

lemma ends_guard:
  "ends (bindS (denyS_if b e) f) w P E = (if b then E (Denied e) w else ends (f ()) w P E)"
  by (simp add: ends_deny_if)

lemma retry_failed_settled: "moves (frozen (\<lambda>_. False) c) (retry_failed c n i handoff who reason)"
proof (rule frozenI)
  fix w :: sop_world
  assume plain: "plain_uuids c" and settled: "settled_db (tables w)"
  let ?S = "\<lambda>_ v. settled_db (tables v)"
  have fresh: "ends (retry_failed_handoff_as_new_run c n handoff run who reason e) v ?S ?S"
    if "settled_db (tables v)" for run e v
    by (rule ends_mono [OF frozen_ends [OF retry_as_new_run_frozen plain that]])
      (simp_all add: keeps_rows_def)
  let ?i = "step_string handoff ''run_id''"
  have reopen: "ends (bindS (reifyS (reopen_terminal_outbox_for_retry c ?i)) (\<lambda>r. case r of
        Inr event \<Rightarrow> reopen_handoff c n i handoff run s k who reason event
      | Inl e \<Rightarrow> if b e then retry_failed_handoff_as_new_run c n handoff run who reason e else denyS e)) v ?S ?S"
    if v: "tables v = tables w" "run_id run = ?i" for run s k b v
    using settled
    by (auto simp: v fresh split: stop.split
        intro!: ends_mono [OF reopen_outbox_keeps] reopen_handoff_settled [OF settled _ _ plain])
  have "ends (retry_failed c n i handoff who reason) w ?S ?S"
    unfolding retry_failed_def Let_def
    by (rule ends_bindI [OF get_open [OF settled]])
      (auto simp: ends_guard settled reopen simp del: ends_bind ends_reify split: option.splits)
  then show "ends (retry_failed c n i handoff who reason) w (\<lambda>_ v. keeps_rows (\<lambda>_. False) (tables w) (tables v))
      (\<lambda>_ v. keeps_rows (\<lambda>_. False) (tables w) (tables v))"
    by (simp add: keeps_rows_def)
qed

lemma handoff_retry_settled [moves_intros]: "moves (frozen (\<lambda>_. False) c) (handoff_retry c n args)"
  unfolding handoff_retry_def Let_def by (intro moves_intros retry_failed_settled)

section \<open>All tools\<close>

lemma claim_and_advance_frozen [moves_intros]: "moves (frozen ended c) (handoff_claim_and_advance c n args)"
  unfolding handoff_claim_and_advance_def by (intro moves_intros)

lemma engine_call_frozen: "name \<noteq> ''sop_handoff_retry'' \<Longrightarrow> moves (frozen ended c) (engine_call c n name args)"
  unfolding engine_call_def by (simp, intro moves_intros conjI impI)

lemma authority_call_frozen:
  "name \<noteq> ''sop_handoff_retry'' \<Longrightarrow> moves (frozen ended c) (authority_call c g n name args)"
  unfolding authority_call_def by (intro moves_intros engine_call_frozen)

lemma authority_call_settled: "moves (frozen (\<lambda>_. False) c) (authority_call c g n name args)"
proof (cases "name = ''sop_handoff_retry''")
  case True
  then show ?thesis
    by (simp add: authority_call_def engine_call_def engine_tools_def handoff_retry_settled)
next
  case False
  from settled_kept [OF authority_call_frozen [OF this]] show ?thesis .
qed

lemma settled_empty: "settled_db empty_db"
  by (simp add: settled_db_def empty_db_def)

abbreviation uuid_calls :: "sop_call \<Rightarrow> string \<Rightarrow> bool" where
  "uuid_calls \<equiv> \<lambda>c _. plain_uuids c"

abbreviation calls_but_retry :: "sop_call \<Rightarrow> string \<Rightarrow> bool" where
  "calls_but_retry \<equiv> \<lambda>c name. plain_uuids c \<and> name \<noteq> ''sop_handoff_retry''"

lemma settled_reached: "tool_calls uuid_calls d d' \<Longrightarrow> settled_db d \<Longrightarrow> settled_db d'"
proof (erule tool_calls_move [where R = "\<lambda>d d'. settled_db d \<longrightarrow> settled_db d'", rule_format])
  show "moves (\<lambda>d d'. settled_db d \<longrightarrow> settled_db d') (authority_call c f n name args)"
    if "plain_uuids c" for c f n name args
    using authority_call_settled [of c f n name args] that
    by (simp add: moves_def frozen_def keeps_rows_def)
qed simp_all

lemma ended_kept:
  assumes "tool_calls calls_but_retry d d'"
  shows "settled_db d \<longrightarrow> keeps_rows ended d d'"
proof (rule tool_calls_move [where R = "\<lambda>d d'. settled_db d \<longrightarrow> keeps_rows ended d d'", OF assms])
  show "moves (\<lambda>d d'. settled_db d \<longrightarrow> keeps_rows ended d d') (authority_call c f n name args)"
    if "calls_but_retry c name" for c f n name args
    using authority_call_frozen [of name c f n args] that by (simp add: moves_def frozen_def)
qed (auto simp: keeps_refl keeps_rows_def)

text \<open>C14. A run that has ended stays as it ended: in a database that tool calls made of an empty one, no
  tool but the retry of a handoff changes anything in the row of a run that is completed, failed or
  cancelled, neither its status, nor its output, nor its steps, whatever refreshes, late completions,
  cancellations of parents and faults come after.\<close>

theorem ended_runs_are_final:
  assumes "tool_calls uuid_calls empty_db d" "tool_calls calls_but_retry d d'"
    and "find_run d i = Some r" "is_run_terminal (rn_status r)"
  shows "find_run d' i = Some r"
proof -
  have settled: "settled_db d" using settled_reached [OF assms(1) settled_empty] .
  with ended_kept [OF assms(2)] have kept: "keeps_rows ended d d'" by simp
  from settled_row [OF settled assms(3)] assms(4) kept
  have row: "r \<in> set (runs d')" "rn_id r = i" by (auto simp: keeps_rows_def ended_def)
  then obtain q where q: "find_run d' i = Some q"
    by (cases "find_run d' i") (auto simp: find_run_def find_None_iff)
  have "settled_db d'" using kept by (simp add: keeps_rows_def)
  from settled_row [OF this q] settled_unique [OF this, of q r] row q show ?thesis by simp
qed

text \<open>C17. Events tell the truth: in every database that tool calls make of an empty one, an event of the
  outbox names a run that exists, has ended and has ended with the outcome that the event tells, and no
  run has two events. A retry takes the event back before it reopens the run.\<close>

theorem events_announce_ended_runs:
  assumes "tool_calls uuid_calls empty_db d"
  shows "distinct (map ob_run (outbox d)) \<and>
    (\<forall>b \<in> set (outbox d). \<exists>r. find_run d (ob_run b) = Some r \<and> is_run_terminal (rn_status r) \<and>
      ob_outcome b = rn_status r)"
proof -
  have settled: "settled_db d" using settled_reached [OF assms settled_empty] .
  have "\<exists>r. find_run d (ob_run b) = Some r \<and> is_run_terminal (rn_status r) \<and> ob_outcome b = rn_status r"
    if "b \<in> set (outbox d)" for b
  proof -
    from that settled obtain r where r: "r \<in> set (runs d)" "rn_id r = ob_run b" "rn_status r = ob_outcome b" "ended r"
      by (auto simp: settled_db_def announced_def)
    then obtain q where q: "find_run d (ob_run b) = Some q"
      by (cases "find_run d (ob_run b)") (auto simp: find_run_def find_None_iff)
    with settled_row [OF settled q] settled_unique [OF settled, of q r] r show ?thesis
      by (auto simp: ended_def)
  qed
  with settled show ?thesis by (simp add: settled_db_def)
qed

end
