(* ===== verification/Sop_Waiting.thy ===== *)
theory Sop_Waiting
  imports Sop_Passes
begin

text \<open>
  What a run at rest waits for. When the passes over a run return, the last pass has looked at every
  running step and found it open: a step of an agent or an operator has its handoff in the tables, an
  action is pending, a child run has not ended. A step of the engine never stays running. Since the
  check of the definition excludes circular dependencies, some step is running unless all have ended.
\<close>

section \<open>What a step waits for\<close>

text \<open>The handoff and the action of a step of a run, and the run of an id, as the code reads them back.\<close>

definition handoff_view :: "sop_call \<Rightarrow> sop_db \<Rightarrow> string \<Rightarrow> string \<Rightarrow> json \<Rightarrow> bool" where
  "handoff_view c d run step v \<longleftrightarrow>
     (\<exists>r q. find_step_handoff d run step = Some r \<and> find_handoff d (hf_id r) = Some q \<and>
        hydrate_handoff (jlib c) (handoff_row_json q) = Inr v)"

definition action_view :: "sop_call \<Rightarrow> sop_db \<Rightarrow> string \<Rightarrow> string \<Rightarrow> json \<Rightarrow> bool" where
  "action_view c d run step v \<longleftrightarrow>
     (\<exists>r q. find_step_action d run step = Some r \<and> find_action d (ac_id r) = Some q \<and>
        hydrate_action (jlib c) (action_row_json q) = Inr v)"

definition run_view :: "sop_call \<Rightarrow> sop_db \<Rightarrow> string \<Rightarrow> sop_run \<Rightarrow> bool" where
  "run_view c d i run \<longleftrightarrow>
     (\<exists>r. find_run d i = Some r \<and> hydrate_run (jlib c) (run_row_json r) = Inr run)"

text \<open>The step of the run waits for something outside: for the handoff recorded for it, under whose id
  its result refers to it; for its action, which is pending; or for its child run, which has not ended.\<close>

definition waits_for :: "sop_call \<Rightarrow> string \<Rightarrow> json \<Rightarrow> sop_db \<Rightarrow> bool" where
  "waits_for c run s d \<longleftrightarrow>
     (let e = step_string s ''executor''; i = step_string s ''step_id'' in
      e \<in> {''agent'', ''operator''} \<and>
        (\<exists>v k. handoff_view c d run i v \<and> jget v ''handoff_id'' = Some (JStr k) \<and>
          Option.bind (jget s ''result'') (\<lambda>r. jget r ''handoff_id'') = Some (JStr k)) \<or>
      e = ''action'' \<and>
        (\<exists>v k. action_view c d run i v \<and> jget s ''action_id'' = Some (JStr k) \<and>
          jget v ''action_id'' = Some (JStr k) \<and> jget v ''status'' = Some (JStr ''pending'')) \<or>
      e = ''sop'' \<and>
        (\<exists>k child. jget s ''child_run_id'' = Some (JStr k) \<and> run_view c d k child \<and>
          run_parent child = Some run \<and> run_parent_step child = Some i \<and>
          \<not> is_run_terminal (run_status child)))"

section \<open>What a look at a running step finds\<close>

lemma denyS_if_Inr: "denyS_if b e w = (Inr x, w') \<longleftrightarrow> \<not> b \<and> w' = w"
  by (auto simp: denyS_if_def stopS_def retS_def)

lemma perform_Inr:
  "perform c code ok f w = (Inr x, w') \<Longrightarrow> ok (tables w) \<and> tables w' = f (tables w)"
  by (auto simp: perform_def bindS_Inr getS_def modifyS_def stopS_def
      dest!: reads_tables [OF reads_statement] split: if_splits)

lemma now_Inr: "now_iso c w = (Inr x, w') \<Longrightarrow> tables w' = tables w"
  by (rule reads_tables [OF reads_now(1)])

lemma get_handoff_Inr:
  assumes "get_handoff c i w = (Inr v, w')"
  shows "tables w' = tables w \<and>
    (\<exists>r. find_handoff (tables w) i = Some r \<and> hydrate_handoff (jlib c) (handoff_row_json r) = Inr v)"
  using assms by (auto simp: get_handoff_def bindS_Inr liftS_Inr dest!: query_Inr)

lemma handoff_view_id: "hydrate_handoff h row = Inr v \<Longrightarrow> \<exists>k. jget v ''handoff_id'' = Some (JStr k)"
  unfolding hydrate_handoff_def Let_def bindR_Inr_iff by (auto simp: jget_def)

lemma find_appended_row: "find P xs = None \<Longrightarrow> P x \<Longrightarrow> find P (xs @ [x]) = Some x"
  by (induction xs) auto

lemma handoff_parts_key:
  "handoff_parts h run step r = Inr row \<Longrightarrow> hf_run row = run_id run \<and> hf_step row = step_string step ''step_id''"
  unfolding handoff_parts_def Let_def bindR_Inr_iff by auto

lemma ensure_handoff_view:
  assumes "ensure_handoff_intent c run step r w = (Inr v, w')"
  shows "handoff_view c (tables w') (run_id run) (step_string step ''step_id'') v"
proof -
  from assms obtain row found w1 where row: "handoff_parts (jlib c) run step r = Inr row"
    and found: "found = find_step_handoff (tables w) (run_id run) (hf_step row)" "tables w1 = tables w"
    and rest: "(case found of
       Some r \<Rightarrow>
         bindS (get_handoff c (hf_id r)) (\<lambda>existing.
         bindS (denyS_if (\<not> member_is existing ''handoff_id'' (hf_id row) \<or>
             \<not> member_is existing ''request_fingerprint'' (hf_request_fp row))
           (diagnostic ''sop_handoff_intent_conflict'' ''sop_handoff_intent_conflict''
             (JObj [(''run_id'', JStr (run_id run)), (''step_id'', JStr (hf_step row))]))) (\<lambda>_.
         retS existing))
     | None \<Rightarrow>
         bindS (now_iso c) (\<lambda>now.
         bindS (insert_handoff c (row\<lparr>hf_created_at := now, hf_updated_at := now\<rparr>)) (\<lambda>_.
         get_handoff c (hf_id row)))) w1 = (Inr v, w')"
    unfolding ensure_handoff_intent_def bindS_Inr liftS_Inr by (auto dest: query_Inr)
  note key = handoff_parts_key [OF row]
  show ?thesis
  proof (cases found)
    case (Some q)
    with rest have "get_handoff c (hf_id q) w1 = (Inr v, w')"
      by (auto simp: bindS_Inr denyS_if_Inr retS_def)
    from get_handoff_Inr [OF this] Some found key show ?thesis
      by (auto simp: handoff_view_def)
  next
    case None
    with rest obtain now w2 w3 where now: "now_iso c w1 = (Inr now, w2)"
      and ins: "insert_handoff c (row\<lparr>hf_created_at := now, hf_updated_at := now\<rparr>) w2 = (Inr (), w3)"
      and get: "get_handoff c (hf_id row) w3 = (Inr v, w')"
      by (auto simp: bindS_Inr)
    let ?row = "row\<lparr>hf_created_at := now, hf_updated_at := now\<rparr>"
    have "tables w3 = (tables w)\<lparr>handoffs := handoffs (tables w) @ [?row]\<rparr>"
      using perform_Inr [OF ins [unfolded insert_handoff_def]] now_Inr [OF now] found(2) by simp
    then have "find_step_handoff (tables w3) (run_id run) (step_string step ''step_id'') = Some ?row"
      using None found key by (simp add: find_step_handoff_def find_appended_row)
    with get_handoff_Inr [OF get] show ?thesis
      by (auto simp: handoff_view_def)
  qed
qed

lemma action_parts_key:
  "action_parts h run step = Inr row \<Longrightarrow> ac_run row = run_id run \<and> ac_step row = step_string step ''step_id''"
  unfolding action_parts_def Let_def bindR_Inr_iff by auto

lemma ensure_action_view:
  assumes "ensure_action_intent c run step w = (Inr v, w')"
  shows "action_view c (tables w') (run_id run) (step_string step ''step_id'') v"
proof -
  from assms obtain row found w1 where row: "action_parts (jlib c) run step = Inr row"
    and found: "found = find_step_action (tables w) (run_id run) (ac_step row)" "tables w1 = tables w"
    and rest: "(case found of
       Some r \<Rightarrow>
         bindS (get_action c (ac_id r)) (\<lambda>existing.
         bindS (denyS_if (\<not> member_is existing ''action_id'' (ac_id row) \<or>
             \<not> member_is existing ''request_fingerprint'' (ac_request_fp row))
           (diagnostic ''sop_action_intent_conflict''
             (''sop_action_intent_conflict:'' @ run_id run @ '':'' @ ac_step row) (JObj []))) (\<lambda>_.
         retS existing))
     | None \<Rightarrow>
         bindS (now_iso c) (\<lambda>now.
         bindS (insert_action c (row\<lparr>ac_created_at := now, ac_updated_at := now\<rparr>)) (\<lambda>_.
         get_action c (ac_id row)))) w1 = (Inr v, w')"
    unfolding ensure_action_intent_def bindS_Inr liftS_Inr by (auto dest: query_Inr)
  note key = action_parts_key [OF row]
  show ?thesis
  proof (cases found)
    case (Some q)
    with rest have "get_action c (ac_id q) w1 = (Inr v, w')"
      by (auto simp: bindS_Inr denyS_if_Inr retS_def)
    from get_action_Inr [OF this] Some found key show ?thesis
      by (auto simp: action_view_def)
  next
    case None
    with rest obtain now w2 w3 where now: "now_iso c w1 = (Inr now, w2)"
      and ins: "insert_action c (row\<lparr>ac_created_at := now, ac_updated_at := now\<rparr>) w2 = (Inr (), w3)"
      and get: "get_action c (ac_id row) w3 = (Inr v, w')"
      by (auto simp: bindS_Inr)
    let ?row = "row\<lparr>ac_created_at := now, ac_updated_at := now\<rparr>"
    have "tables w3 = (tables w)\<lparr>actions := actions (tables w) @ [?row]\<rparr>"
      using perform_Inr [OF ins [unfolded insert_action_def]] now_Inr [OF now] found(2) by simp
    then have "find_step_action (tables w3) (run_id run) (step_string step ''step_id'') = Some ?row"
      using None found key by (simp add: find_step_action_def find_appended_row)
    with get_action_Inr [OF get] show ?thesis
      by (auto simp: action_view_def)
  qed
qed

lemma opt_eq_text: "opt_json_eq v (Some (JStr k)) \<Longrightarrow> v = Some (JStr k)"
  by (cases v; cases "the v") (auto simp: opt_json_eq_def)

lemma running_manual_waits:
  assumes "running_manual c i s run w = (Inr (run', ch, p), u)"
    and "s = run_steps run ! i" "i < length (run_steps run)" "is_step s"
    and "step_string s ''executor'' \<in> {''agent'', ''operator''}"
  shows "waits_for c (run_id run) (run_steps run' ! i) (tables u)"
proof -
  from assms(1) obtain v where v: "ensure_handoff_intent c run s None w = (Inr v, u)"
    and r: "run' = (if opt_json_eq (Option.bind (jget s ''result'') (\<lambda>r. jget r ''handoff_id''))
          (Some (value_or JNull (jget v ''handoff_id'')))
        then run
        else set_run_step i (set_step ''result'' (JObj
          (obj_insert ''handoff_occurrence_key'' (value_or JNull (jget v ''occurrence_key''))
            (obj_insert ''handoff_id'' (value_or JNull (jget v ''handoff_id''))
              (case Option.bind (jget s ''result'') as_object of None \<Rightarrow> [] | Some m \<Rightarrow> m))))) run)"
    by (auto simp: running_manual_def bindS_Inr Let_def retS_def split: if_splits)
  note view = ensure_handoff_view [OF v]
  then obtain k where k: "jget v ''handoff_id'' = Some (JStr k)"
    using handoff_view_id unfolding handoff_view_def by blast
  have "Option.bind (jget (run_steps run' ! i) ''result'') (\<lambda>r. jget r ''handoff_id'') = Some (JStr k)"
    using r assms(2-4) k by (auto simp: value_or_def jget_set_step dest: opt_eq_text split: if_splits)
  moreover have "same_shape s (run_steps run' ! i)"
    using r assms(2,3) by (auto split: if_splits)
  then have "step_string (run_steps run' ! i) ''executor'' = step_string s ''executor''"
    "step_string (run_steps run' ! i) ''step_id'' = step_string s ''step_id''"
    by (simp_all add: step_string_def same_shape_def)
  ultimately show ?thesis
    using view k assms(5) by (auto simp: waits_for_def Let_def)
qed

text \<open>The ends of an action or a child are progress.\<close>

lemma moves_later: "(\<And>x w. f x w \<noteq> (Inr (run', ch, False), u)) \<Longrightarrow> bindS m f w \<noteq> (Inr (run', ch, False), u)"
  by (simp add: bindS_Inr)

lemma moves_action:
  "action_completed c i s v run w \<noteq> (Inr (run', ch, False), u)"
  "action_ended c i v st run w \<noteq> (Inr (run', ch, False), u)"
  unfolding action_completed_def action_ended_def Let_def
  by (auto intro!: moves_later split: sum.split simp: moved_def retS_def)

lemma moves_child:
  "child_completed c i s child run w \<noteq> (Inr (run', ch, False), u)"
  "child_ended c i s child run w \<noteq> (Inr (run', ch, False), u)"
  unfolding child_completed_def child_ended_def Let_def
  by (auto intro!: moves_later split: sum.split simp: moved_def retS_def)

lemma running_action_waits:
  assumes "running_action c i s run w = (Inr (run', ch, False), u)"
    and "s = run_steps run ! i" "holds_handle s" "step_string s ''executor'' = ''action''"
  shows "run' = run \<and> waits_for c (run_id run) s (tables u)"
proof -
  from assms(3,4) obtain k where k: "jget s ''action_id'' = Some (JStr k)"
    by (auto simp: holds_handle_def bind_eq_Some_conv)
  from assms(1) k obtain v u1 where v: "ensure_action_intent c run s w = (Inr v, u1)"
    and id: "member_is v ''action_id'' k"
    and rest: "(if step_string v ''status'' = ''completed'' then action_completed c i s v run
      else if step_string v ''status'' \<in> {''failed'', ''cancelled''}
      then action_ended c i v (step_string v ''status'') run
      else retS (run, False, False)) u1 = (Inr (run', ch, False), u)"
    by (auto simp: running_action_def bindS_Inr liftS_Inr denyS_if_Inr Let_def)
  from rest have open_action: "step_string v ''status'' \<notin> {''completed'', ''failed'', ''cancelled''}"
    and same: "run' = run" "u = u1"
    by (cases "step_string v ''status'' = ''completed''";
        cases "step_string v ''status'' \<in> {''failed'', ''cancelled''}"; simp add: moves_action retS_def)+
  note view = ensure_action_view [OF v]
  then obtain row where "hydrate_action (jlib c) row = Inr v" by (auto simp: action_view_def)
  then obtain j st where "jget v ''action_id'' = Some (JStr j)" "jget v ''status'' = Some (JStr st)"
    "st \<in> {''pending'', ''completed'', ''failed'', ''cancelled''}"
    by (rule action_view_fields)
  with open_action id have "jget v ''action_id'' = Some (JStr k)" "jget v ''status'' = Some (JStr ''pending'')"
    by (auto simp: step_string_def text_or_def member_is_def)
  with view k same assms(4) show ?thesis by (auto simp: waits_for_def Let_def)
qed

lemma running_child_waits:
  assumes "running_child c rec i s run w = (Inr (run', ch, False), u)"
    and "s = run_steps run ! i" "holds_handle s" "step_string s ''executor'' = ''sop''"
  shows "run' = run \<and> waits_for c (run_id run) s (tables u)"
proof -
  from assms(3,4) obtain k where k: "jget s ''child_run_id'' = Some (JStr k)"
    by (auto simp: holds_handle_def bind_eq_Some_conv)
  then have key: "Option.bind (jget s ''child_run_id'') as_str = Some k" by simp
  from assms(1) obtain child u1 u2 b where get: "get_run c k u1 = (Inr child, u2)"
    and bound: "assert_child_run_binding (jlib c) run s child = Inr b"
    and rest: "(if run_status child = ''completed'' then child_completed c i s child run
      else if run_status child \<in> {''failed'', ''cancelled''} then child_ended c i s child run
      else retS (run, False, False)) u2 = (Inr (run', ch, False), u)"
    unfolding running_child_def key option.case bindS_Inr liftS_Inr by blast
  from rest have open_child: "\<not> is_run_terminal (run_status child)" and same: "run' = run" "u = u2"
    by (cases "run_status child = ''completed''"; cases "run_status child \<in> {''failed'', ''cancelled''}";
        simp add: moves_child retS_def is_run_terminal_def)+
  from get obtain r where "find_run (tables u1) k = Some r" "hydrate_run (jlib c) (run_row_json r) = Inr child"
    "tables u2 = tables u1"
    by (rule get_run_row)
  then have "run_view c (tables u) k child"
    using same by (simp add: run_view_def)
  moreover have "run_parent child = Some (run_id run)" "run_parent_step child = Some (step_string s ''step_id'')"
    using bound by (auto simp: assert_child_run_binding_def Let_def bindR_Inr_iff refuse_if_def split: if_splits)
  ultimately show ?thesis
    using k open_child same assms(4) by (auto simp: waits_for_def Let_def)
qed

lemma running_step_waits:
  assumes "running_step c rec i run w = (Inr (run', ch, False), u)"
    and "i < length (run_steps run)" "is_step (run_steps run ! i)"
    and "step_status_is ''running'' (run_steps run ! i)" "holds_handle (run_steps run ! i)"
  shows "waits_for c (run_id run) (run_steps run' ! i) (tables u)"
proof -
  let ?s = "run_steps run ! i"
  consider "step_string ?s ''executor'' \<in> {''agent'', ''operator''}" | "step_string ?s ''executor'' = ''action''"
    | "step_string ?s ''executor'' = ''sop''"
    using assms(5) by (auto simp: holds_handle_def Let_def)
  then show ?thesis
  proof cases
    case 1
    with assms have "running_manual c i ?s run w = (Inr (run', ch, False), u)"
      by (simp add: running_step_def Let_def)
    from running_manual_waits [OF this refl assms(2,3) 1] show ?thesis .
  next
    case 2
    with assms have "running_action c i ?s run w = (Inr (run', ch, False), u)"
      by (simp add: running_step_def Let_def)
    from running_action_waits [OF this refl assms(5) 2] show ?thesis by simp
  next
    case 3
    with assms have "running_child c rec i ?s run w = (Inr (run', ch, False), u)"
      by (simp add: running_step_def Let_def)
    from running_child_waits [OF this refl assms(5) 3] show ?thesis by simp
  qed
qed

section \<open>The last pass\<close>

text \<open>The pass over the running steps up to the n-th, and the tables it finds there.\<close>

definition running_part :: "sop_call \<Rightarrow> (string \<Rightarrow> sop_run op) \<Rightarrow> nat \<Rightarrow> sop_run \<Rightarrow> progress op" where
  "running_part c rec n run =
     foldS (\<lambda>i (run, changed, progress).
       bindS (running_step c rec i run) (\<lambda>(run, c, p). retS (run, changed \<or> c, progress \<or> p)))
       [0..<n] (run, False, False)"

text \<open>\<open>found_waiting\<close>: in a pass that starts with \<open>run\<close> in \<open>w\<close>, the tables just after the look at the i-th
  step show that the step \<open>s\<close> waits.\<close>

definition found_waiting ::
    "sop_call \<Rightarrow> (string \<Rightarrow> sop_run op) \<Rightarrow> sop_run \<Rightarrow> sop_world \<Rightarrow> nat \<Rightarrow> json \<Rightarrow> bool" where
  "found_waiting c rec run w i s \<longleftrightarrow>
     (\<exists>r u. running_part c rec (Suc i) run w = (Inr r, u) \<and> waits_for c (run_id run) s (tables u))"

lemma foldS_append: "foldS f (xs @ ys) s = bindS (foldS f xs s) (foldS f ys)"
  by (induction xs arbitrary: s) (auto simp: bindS_def retS_def fun_eq_iff split: sum.splits prod.splits)

lemma running_part_Suc:
  "running_part c rec (Suc n) run =
     bindS (running_part c rec n run) (\<lambda>(run, changed, progress).
       bindS (running_step c rec n run) (\<lambda>(run, c, p). retS (run, changed \<or> c, progress \<or> p)))"
  by (auto simp: running_part_def foldS_append bindS_def retS_def fun_eq_iff split: sum.splits prod.splits)

lemma running_part_waits:
  assumes "good_run run" "handled (run_steps run)" "n \<le> length (run_steps run)"
    and "running_part c rec n run w = (Inr (run', ch, False), u)"
  shows "pass_post run (run', ch, False) \<and>
    (\<forall>i < n. step_status_is ''running'' (run_steps run' ! i) \<longrightarrow>
      found_waiting c rec run w i (run_steps run' ! i))"
  using assms(3,4)
proof (induction n arbitrary: run' ch u)
  case 0
  then show ?case using pass_post_refl [OF assms(1)] by (simp add: running_part_def retS_def)
next
  case (Suc n)
  from Suc.prems(2) obtain x u1 where x: "running_part c rec n run w = (Inr x, u1)"
    and y: "(case x of (run, changed, progress) \<Rightarrow> bindS (running_step c rec n run)
      (\<lambda>(run, c, p). retS (run, changed \<or> c, progress \<or> p))) u1 = (Inr (run', ch, False), u)"
    unfolding running_part_Suc bindS_Inr by blast
  obtain r ch1 p1 where r: "x = (r, ch1, p1)" by (metis surj_pair)
  with y obtain z u2 where "running_step c rec n r u1 = (Inr z, u2)"
    "(case z of (run, c, p) \<Rightarrow> retS (run, ch1 \<or> c, p1 \<or> p)) u2 = (Inr (run', ch, False), u)"
    by (simp only: prod.case bindS_Inr) blast
  then obtain ch2 where look: "running_step c rec n r u1 = (Inr (run', ch2, False), u)" and "\<not> p1"
    by (cases z) (simp add: retS_def)
  with x r have part: "running_part c rec n run w = (Inr (r, ch1, False), u1)" by simp
  from Suc.IH [OF _ part] Suc.prems(1) have before: "pass_post run (r, ch1, False)"
    "\<And>i. i < n \<Longrightarrow> step_status_is ''running'' (run_steps r ! i) \<Longrightarrow> found_waiting c rec run w i (run_steps r ! i)"
    by auto
  note good = pass_post_good [OF before(1)]
  have n: "n < length (run_steps r)" using pass_post_length [OF before(1)] Suc.prems(1) by simp
  have step: "is_step (run_steps r ! n)" using good n by (rule good_run_step)
  have post: "running_post n r (run', ch2, False)"
    using ends_Inr [OF running_step_effect [OF n step] look] by simp
  then have shape: "still_running False (run_steps r ! n) (run_steps run' ! n)"
    and other: "\<And>i. i \<noteq> n \<Longrightarrow> run_steps run' ! i = run_steps r ! i"
    using n by (auto simp: running_post_def at_step_def)
  have "found_waiting c rec run w n (run_steps run' ! n)"
    if "step_status_is ''running'' (run_steps run' ! n)"
  proof -
    have running: "step_status_is ''running'' (run_steps r ! n)"
      using that shape by (simp add: still_running_def member_is_def)
    moreover have "handled (run_steps r)" using before(1) assms(2) by (simp add: pass_post_def)
    then have "holds_handle (run_steps r ! n)" using running n by (simp add: handled_def)
    ultimately have "waits_for c (run_id r) (run_steps run' ! n) (tables u)"
      by (rule running_step_waits [OF look n step])
    moreover have "run_id r = run_id run" using before(1) by (cases r) (auto simp: pass_post_def)
    ultimately show ?thesis using Suc.prems(2) by (auto simp: found_waiting_def)
  qed
  moreover have "pass_post run (run', ch, False)"
    using pass_post_trans [OF before(1) running_pass [OF good n post]] by simp
  ultimately show ?case using before(2) other by (auto simp: less_Suc_eq)
qed

lemma one_pass_waits:
  assumes "good_run run" "handled (run_steps run)" "one_pass c rec run w = (Inr (run', ch, False), w')"
  shows "\<forall>i < length (run_steps run'). step_status_is ''running'' (run_steps run' ! i) \<longrightarrow>
    found_waiting c rec run w i (run_steps run' ! i)"
proof -
  from assms(3) obtain x w1 where x: "reconcile_running_steps c rec run w = (Inr x, w1)"
    and y: "(case x of (run, ch, p) \<Rightarrow> bindS (reconcile_pending_steps c rec run)
      (\<lambda>(run, ch', p'). retS (run, ch \<or> ch', p \<or> p'))) w1 = (Inr (run', ch, False), w')"
    unfolding one_pass_def bindS_Inr by blast
  obtain r ch1 p1 where r: "x = (r, ch1, p1)" by (metis surj_pair)
  with y obtain z w2 where z: "reconcile_pending_steps c rec r w1 = (Inr z, w2)"
    "(case z of (run, ch', p') \<Rightarrow> retS (run, ch1 \<or> ch', p1 \<or> p')) w2 = (Inr (run', ch, False), w')"
    by (simp only: prod.case bindS_Inr) blast
  then obtain ch2 where pending: "reconcile_pending_steps c rec r w1 = (Inr (run', ch2, False), w2)" and "\<not> p1"
    by (cases z) (simp add: retS_def)
  with x r have "running_part c rec (length (run_steps run)) run w = (Inr (r, ch1, False), w1)"
    by (simp add: reconcile_running_steps_def each_step_def running_part_def)
  from running_part_waits [OF assms(1,2) order_refl this]
  have running: "pass_post run (r, ch1, False)"
    "\<forall>i < length (run_steps run). step_status_is ''running'' (run_steps r ! i) \<longrightarrow>
      found_waiting c rec run w i (run_steps r ! i)" by blast+
  have "run' = r"
    using ends_Inr [OF pending_steps_rest [OF pass_post_good [OF running(1)]] pending] by simp
  with running(2) pass_post_length [OF running(1)] show ?thesis by simp
qed

lemma passes_result:
  assumes "good_run run" "handled (run_steps run)" "reconcile_passes c rec m run ch w = (Inr (run', ch'), w')"
  shows "list_all2 same_shape (run_steps run) (run_steps run') \<and> good_run run' \<and> at_rest run' \<and>
    (\<exists>n run0 w0 ch0. advances c rec n (run, w) (run0, w0) \<and>
      one_pass c rec run0 w0 = (Inr (run', ch0, False), w') \<and>
      (\<forall>i < length (run_steps run'). step_status_is ''running'' (run_steps run' ! i) \<longrightarrow>
        found_waiting c rec run0 w0 i (run_steps run' ! i)))"
  using assms
proof (induction m arbitrary: run ch w)
  case (Suc m)
  from Suc.prems(3) obtain run1 c1 p w1 where pass: "one_pass c rec run w = (Inr (run1, c1, p), w1)"
    and rest: "(if p then reconcile_passes c rec m run1 (ch \<or> c1) else retS (run1, ch \<or> c1)) w1 =
      (Inr (run', ch'), w')"
    by (auto simp: passes_Suc bindS_Inr)
  note effect = ends_Inr [OF one_pass_effect [OF Suc.prems(1)] pass, simplified]
  then have g: "good_run run1" "handled (run_steps run1)" and shape: "list_all2 same_shape (run_steps run) (run_steps run1)"
    using Suc.prems(2) by (auto simp: pass_post_def good_run_def)
  show ?case
  proof (cases p)
    case True
    with rest Suc.IH [OF g] have later: "list_all2 same_shape (run_steps run1) (run_steps run')"
      "good_run run'" "at_rest run'"
      and last: "\<exists>n run0 w0 ch0. advances c rec n (run1, w1) (run0, w0) \<and>
        one_pass c rec run0 w0 = (Inr (run', ch0, False), w') \<and>
        (\<forall>i < length (run_steps run'). step_status_is ''running'' (run_steps run' ! i) \<longrightarrow>
          found_waiting c rec run0 w0 i (run_steps run' ! i))"
      by auto
    have "list_all2 same_shape (run_steps run) (run_steps run')"
      by (rule list_all2_trans [OF _ shape later(1)]) (rule same_shape_trans)
    moreover have "advances c rec (Suc n) (run, w) s" if "advances c rec n (run1, w1) s" for n s
      using that pass True by (auto intro: advances_pass)
    ultimately show ?thesis using later(2,3) last by blast
  next
    case False
    with rest have same: "run1 = run'" "w1 = w'" by (simp_all add: retS_def)
    with pass False have pass': "one_pass c rec run w = (Inr (run', c1, False), w')" by simp
    from one_pass_waits [OF Suc.prems(1,2) this] pass' effect g(1) shape same False
    show ?thesis by (blast intro: advances_none)
  qed
qed (simp add: reconcile_passes.simps stopS_def)

section \<open>A run at rest waits for something outside\<close>

text \<open>The steps of a run carry the names and the dependencies of its definition.\<close>

definition runs_definition :: "json list \<Rightarrow> json list \<Rightarrow> bool" where
  "runs_definition defs steps \<longleftrightarrow>
     list_all2 (\<lambda>d s. step_name s = step_text d ''id'' \<and> depends_on s = depends_on d) defs steps"

lemma runs_definition_shape:
  assumes "runs_definition defs steps" "list_all2 same_shape steps steps'"
  shows "runs_definition defs steps'"
  using assms unfolding runs_definition_def
  by (auto simp: list_all2_conv_all_nth same_shape_fields)

lemma definition_of_step:
  "runs_definition defs steps \<Longrightarrow> s \<in> set steps \<Longrightarrow>
     \<exists>d \<in> set defs. step_name s = step_text d ''id'' \<and> depends_on s = depends_on d"
  by (auto simp: runs_definition_def list_all2_conv_all_nth in_set_conv_nth)
    (metis nth_mem)

lemma step_of_definition:
  "runs_definition defs steps \<Longrightarrow> d \<in> set defs \<Longrightarrow>
     \<exists>s \<in> set steps. step_name s = step_text d ''id'' \<and> depends_on s = depends_on d"
  by (auto simp: runs_definition_def list_all2_conv_all_nth in_set_conv_nth)
    (metis nth_mem)

lemma rest_runs:
  assumes "fair_order h" "validate_steps h v owner = Inr (JArr defs)"
    and "runs_definition defs (run_steps run)" "good_run run" "at_rest run"
    and "\<not> list_all step_terminal (run_steps run)"
  shows "\<exists>s \<in> set (run_steps run). step_status_is ''running'' s"
proof (rule ccontr)
  assume none: "\<not> ?thesis"
  let ?steps = "run_steps run"
  have well: "well_run ?steps" using assms(4) by (simp add: good_run_def)
  let ?pending = "\<lambda>i. \<exists>s \<in> set ?steps. step_name s = Some i \<and> step_status_is ''pending'' s"
  have def_of: "\<exists>d \<in> set defs. step_name s = Some (step_id_or_empty d) \<and> depends_on s = depends_on d"
    if "s \<in> set ?steps" for s
  proof -
    from definition_of_step [OF assms(3) that] obtain d where
      d: "d \<in> set defs" "step_name s = step_text d ''id''" "depends_on s = depends_on d" by blast
    moreover have "step_text d ''id'' \<noteq> None"
      using accepted_identified [OF assms(2)] d(1) by (simp add: identified_def)
    ultimately show ?thesis by (intro bexI [of _ d]) (auto simp: step_id_or_empty_def)
  qed
  from assms(6) well none obtain s where s: "s \<in> set ?steps" "step_status_is ''pending'' s"
    by (auto simp: well_run_def list_all_iff step_terminal_def valid_status_iff)
  from def_of [OF s(1)] s obtain d where "d \<in> set defs" "?pending (step_id_or_empty d)" by force
  from accepted_never_blocks [OF assms(1,2), where pending = ?pending, OF this] obtain d where
    d: "d \<in> set defs" "?pending (step_id_or_empty d)" "\<forall>e \<in> set (depends_on d). \<not> ?pending e" by blast
  then obtain t where t: "t \<in> set ?steps" "step_name t = Some (step_id_or_empty d)" "step_status_is ''pending'' t"
    by blast
  from def_of [OF t(1)] t(2) obtain d' where
    d': "d' \<in> set defs" "step_id_or_empty d' = step_id_or_empty d" "depends_on t = depends_on d'" by auto
  with d(1) accepted_identified [OF assms(2)] have "d' = d"
    by (auto simp: identified_def distinct_map inj_on_def)
  with d' have t_needs: "depends_on t = depends_on d" by simp
  from assms(5) t have "quiet run t" by (simp add: at_rest_def)
  with t(3) obtain e where e: "e \<in> set (depends_on d)" "\<not> done_in ?steps e" "\<not> dependency_failed run e"
    by (auto simp: quiet_def ready_iff [OF well] t_needs list_ex_iff)
  from requiresI [OF d(1) e(1)] accepted_dag(1) [OF assms(1,2)]
  obtain d2 where d2: "d2 \<in> set defs" "step_id_or_empty d2 = e" by force
  obtain u where u: "u \<in> set ?steps" "step_name u = Some e"
    using step_of_definition [OF assms(3) d2(1)] d2 accepted_identified [OF assms(2)]
    by (auto simp: identified_def step_id_or_empty_def split: option.splits)
  have "valid_status u" using well u(1) by (simp add: well_run_def list_all_iff)
  moreover have "\<not> step_status_is ''failed'' u"
    using e(3) u by (auto simp: dependency_failed_iff [OF well])
  moreover have "\<not> finished u" using e(2) u by (auto simp: done_in_def)
  moreover have "\<not> step_status_is ''pending'' u" using d(3) e(1) u by auto
  ultimately have "step_status_is ''running'' u" by (auto simp: valid_status_iff finished_def)
  with none u(1) show False by blast
qed

text \<open>C15. A reconciled run is over or waits for something outside. The procedure is one that the check of
  definitions accepted (with hash sets that iterate over their own elements, \<open>fair_order\<close>); the steps
  of the run carry its names and dependencies (\<open>runs_definition\<close>), have valid statuses and distinct
  names (\<open>well_run\<close>), those that run or completed had their dependencies done (\<open>ordered\<close>), and those
  that run do so through a handoff, an action or a child run (\<open>handled\<close>); a new run, all of whose steps
  are pending, is of this kind, and the passes keep it so. If the passes return, then all steps have
  ended or some step is running; and for every running step the dependencies are done and the last
  pass, which follows on passes with progress, has found it waiting: its handoff is recorded, its action is pending, or its child run has not
  ended. So no step of the engine stays running, and no run gets stuck on its own dependencies.\<close>

theorem reconciled_run_waits_outside:
  assumes "fair_order h" "validate_steps h v owner = Inr (JArr defs)"
    and "runs_definition defs (run_steps run)" "well_run (run_steps run)" "ordered (run_steps run)"
    and "handled (run_steps run)" "reconcile_passes c rec m run ch w = (Inr (run', ch'), w')"
  shows "(list_all step_terminal (run_steps run') \<or> list_ex (step_status_is ''running'') (run_steps run')) \<and>
    (\<exists>n run0 w0 ch0. advances c rec n (run, w) (run0, w0) \<and>
      one_pass c rec run0 w0 = (Inr (run', ch0, False), w') \<and>
      (\<forall>i < length (run_steps run'). step_status_is ''running'' (run_steps run' ! i) \<longrightarrow>
        set (depends_on (run_steps run' ! i)) \<subseteq> {d. dependency_done run' d} \<and>
        found_waiting c rec run0 w0 i (run_steps run' ! i)))"
proof -
  have good: "good_run run" using assms(4,5) by (simp add: good_run_def)
  note result = passes_result [OF good assms(6,7)]
  then have "runs_definition defs (run_steps run')"
    using assms(3) by (blast intro: runs_definition_shape)
  with rest_runs [OF assms(1,2)] result
  have "list_all step_terminal (run_steps run') \<or> list_ex (step_status_is ''running'') (run_steps run')"
    by (auto simp: list_ex_iff)
  moreover have "set (depends_on s) \<subseteq> {d. dependency_done run' d}"
    if "s \<in> set (run_steps run')" "step_status_is ''running'' s" for s
    using result that by (auto simp: good_run_def ordered_def begun_def dependency_done_iff)
  ultimately show ?thesis using result by (meson nth_mem)
qed

lemma pending_run_handled:
  assumes "list_all (step_status_is ''pending'') steps"
  shows "ordered steps \<and> handled steps"
  using assms by (auto simp: ordered_def handled_def begun_def list_all_iff member_is_def)

end
