(* ===== verification/Sop_Run_Demo.thy ===== *)
theory Sop_Run_Demo
  imports Sop_Finality Sop_Waiting Sop_Demo "HOL-Library.Code_Target_Nat"
begin

text \<open>
  A template is created in an empty database and a run of it is started, with inputs of the calls in
  which every clock reading is the same and every uuid is the number of its draw. The run ends in the
  call that starts it and announces its end. A second run, of the procedure of two steps, comes to
  rest at its second step, which an agent has to do.
\<close>

section \<open>The calls\<close>

definition demo_host :: sop_host where
  "demo_host = demo_sop\<lparr>sop_json := demo_sop_json\<lparr>sha256_bytes := (\<lambda>_. ''d'')\<rparr>\<rparr>"

definition demo_call :: sop_call where
  "demo_call =
     \<lparr>lib = demo_host, rfc3339 = (\<lambda>_. None),
      civil = (\<lambda>_. \<lparr>year = 2026, month = 1, day = 2, hour = 3, minute = 4, sec = 5, nanos = 0\<rparr>),
      in_range = (\<lambda>_. True), clock_at = (\<lambda>_. 0), uuid_at = show_nat, fault_at = (\<lambda>_. None),
      violation = (\<lambda>_. ''v'')\<rparr>"

definition demo_files :: sop_files where
  "demo_files =
     \<lparr>sops_dir_variable = None, site_root = ''r'', join_path = (\<lambda>a b. a @ b), is_file = (\<lambda>_. False),
      file_size = (\<lambda>_. Inl ''e''), file_text = (\<lambda>_. Inl ''e''), parse_yaml = (\<lambda>_. Inl ''e''),
      template_schema = Inl ''e''\<rparr>"

definition demo_create :: jmap where
  "demo_create =
     [(''sop_id'', JStr ''p''), (''title'', JStr ''P''),
      (''steps'', JArr [demo_raw_step ''a'' ''engine'' [(''instructions'', JStr ''go'')]])]"

definition demo_start :: jmap where
  "demo_start = [(''sop_id'', JStr ''p''), (''occurrence_key'', JStr ''k''), (''triggered_by'', JStr ''me'')]"

definition demo_now :: string where
  "demo_now = ''2026-01-02T03:04:05.000Z''"

definition demo_template :: template_row where
  "demo_template =
     \<lparr>tp_sop_id = ''p'', tp_version = 1, tp_title = ''P'', tp_status = ''draft'', tp_description = [],
      tp_steps = JArr [demo_normal ''a'' ''engine'' False [] ''go'' JNull], tp_trigger_kind = ''manual'',
      tp_input_schema = None, tp_output = None, tp_output_ref = None, tp_output_schema = None,
      tp_acceptance = JArr [], tp_evidence = JArr [],
      tp_created_at = demo_now, tp_updated_at = demo_now\<rparr>"

definition demo_created_event :: audit_row where
  "demo_created_event =
     \<lparr>ev_id = ''soe_9'', ev_run = [], ev_step = [], ev_kind = ''template_created'',
      ev_details = JObj [(''sop_id'', JStr ''p''), (''version'', JNum (PosInt 1))],
      ev_recorded_at = demo_now\<rparr>"

definition demo_created :: sop_world where
  "demo_created = \<lparr>tables = empty_db\<lparr>templates := [demo_template], events := [demo_created_event]\<rparr>, draws = 12\<rparr>"

abbreviation demo_started :: "(stop + json) \<times> sop_world" where
  "demo_started \<equiv> authority_call demo_call demo_files 3 ''sop_run_start'' demo_start demo_created"

lemma created_world:
  "snd (authority_call demo_call demo_files 3 ''sop_template_create'' demo_create \<lparr>tables = empty_db, draws = 0\<rparr>) =
     demo_created"
  by code_simp

lemma started_world:
  "(case demo_started of (_, w) \<Rightarrow>
     (map (\<lambda>r. (rn_id r, rn_status r, rn_sop_id r, rn_occurrence r)) (runs (tables w)),
      map (\<lambda>b. (ob_run b, ob_outcome b)) (outbox (tables w)), map ev_kind (events (tables w)))) =
   ([(''sop_run_20260102T030405_23'', ''completed'', ''p'', ''k'')],
    [(''sop_run_20260102T030405_23'', ''completed'')],
    [''template_created'', ''run_admitted'', ''step_completed'', ''run_completed''])"
  by code_simp

lemma started_run:
  "map (\<lambda>r. (rn_id r, rn_status r, rn_sop_id r, rn_occurrence r)) (runs (tables (snd demo_started))) =
     [(''sop_run_20260102T030405_23'', ''completed'', ''p'', ''k'')] \<and>
   map (\<lambda>b. (ob_run b, ob_outcome b)) (outbox (tables (snd demo_started))) =
     [(''sop_run_20260102T030405_23'', ''completed'')] \<and>
   map ev_kind (events (tables (snd demo_started))) =
     [''template_created'', ''run_admitted'', ''step_completed'', ''run_completed'']"
  using started_world by (simp only: case_prod_beta prod.inject)

lemma demo_uuids: "plain_uuids demo_call"
proof -
  have "plain a" if "is_digit a" for a
    using that by (auto simp: plain_def ws_ascii_def is_digit_def byte_def)
  with show_nat_digits show ?thesis
    by (auto simp: plain_uuids_def demo_call_def list_all_iff)
qed

lemma demo_template_calls:
  assumes "P demo_call ''sop_template_create''"
  shows "tool_calls P empty_db (tables demo_created)"
proof -
  have "tool_calls P empty_db (tables (snd (authority_call demo_call demo_files 3 ''sop_template_create''
      demo_create \<lparr>tables = empty_db, draws = 0\<rparr>)))"
    by (rule next_call [where P = P and c = demo_call and name = "''sop_template_create''",
        OF _ _ prod.collapse [symmetric]])
      (simp_all add: assms no_calls)
  then show ?thesis
    by (simp only: created_world)
qed

lemma demo_run_calls:
  assumes "P demo_call ''sop_template_create''" "P demo_call ''sop_run_start''"
  shows "tool_calls P empty_db (tables (snd demo_started))"
  by (rule next_call [where P = P and c = demo_call and name = "''sop_run_start''",
      OF _ _ prod.collapse [symmetric]])
    (simp_all add: assms demo_template_calls)

lemma demo_start_call:
  assumes "P demo_call ''sop_run_start''"
  shows "tool_calls P (tables demo_created) (tables (snd demo_started))"
  by (rule next_call [where P = P and c = demo_call and name = "''sop_run_start''",
      OF _ _ prod.collapse [symmetric]])
    (simp_all add: assms no_calls)

lemma demo_again:
  assumes "P demo_call ''sop_run_start''"
  shows "tool_calls P (tables (snd demo_started))
    (tables (snd (authority_call demo_call demo_files 3 ''sop_run_start'' demo_start (snd demo_started))))"
  by (rule next_call [where P = P and c = demo_call and name = "''sop_run_start''",
      OF _ _ prod.collapse [symmetric]])
    (simp_all add: assms no_calls)

section \<open>The properties of histories\<close>

lemma history_append_only_witness:
  "prefix (events (tables demo_created)) (events (tables (snd demo_started))) \<and>
    length (events (tables (snd demo_started))) = 4"
proof -
  have "tool_calls (\<lambda>_ _. True) (tables demo_created) (tables (snd demo_started))"
    by (rule demo_start_call) simp
  moreover have "length (events (tables (snd demo_started))) = 4"
    using arg_cong [OF started_run [THEN conjunct2, THEN conjunct2], of length] by simp
  ultimately show ?thesis
    using history_append_only by blast
qed

lemma demo_only_run:
  obtains r where "runs (tables (snd demo_started)) = [r]" "rn_id r = ''sop_run_20260102T030405_23''"
    "rn_status r = ''completed''" "rn_sop_id r = ''p''" "rn_occurrence r = ''k''"
  using started_run by auto

lemma occurrence_admitted_once_witness:
  "references_exist (tables (snd demo_started)) \<and>
    (\<exists>r. runs (tables (snd demo_started)) = [r] \<and> rn_occurrence r = ''k'')"
proof -
  have "tool_calls (\<lambda>_ _. True) empty_db (tables (snd demo_started))"
    by (rule demo_run_calls) simp_all
  from occurrence_admitted_once [OF this] show ?thesis
    by (metis demo_only_run)
qed

lemma ended_runs_are_final_witness:
  "\<exists>r. find_run (tables (snd (authority_call demo_call demo_files 3 ''sop_run_start'' demo_start
      (snd demo_started)))) ''sop_run_20260102T030405_23'' = Some r \<and> rn_status r = ''completed''"
proof -
  obtain r where r: "runs (tables (snd demo_started)) = [r]" "rn_id r = ''sop_run_20260102T030405_23''"
      "rn_status r = ''completed''"
    by (rule demo_only_run)
  then have "find_run (tables (snd demo_started)) ''sop_run_20260102T030405_23'' = Some r"
    by (simp add: find_run_def)
  moreover have "tool_calls uuid_calls empty_db (tables (snd demo_started))"
    by (rule demo_run_calls) (simp_all add: demo_uuids)
  moreover have "tool_calls calls_but_retry (tables (snd demo_started))
      (tables (snd (authority_call demo_call demo_files 3 ''sop_run_start'' demo_start (snd demo_started))))"
    by (rule demo_again) (simp add: demo_uuids)
  moreover have "is_run_terminal (rn_status r)"
    using r(3) by (simp add: is_run_terminal_def)
  ultimately show ?thesis
    using ended_runs_are_final r(3) by blast
qed

lemma events_announce_ended_runs_witness:
  "\<exists>b. outbox (tables (snd demo_started)) = [b] \<and>
    (\<exists>r. find_run (tables (snd demo_started)) (ob_run b) = Some r \<and> ob_outcome b = rn_status r)"
proof -
  obtain b where b: "outbox (tables (snd demo_started)) = [b]"
    using started_run by auto
  have "tool_calls uuid_calls empty_db (tables (snd demo_started))"
    by (rule demo_run_calls) (simp_all add: demo_uuids)
  from events_announce_ended_runs [OF this] b show ?thesis
    by auto
qed

section \<open>A run at rest\<close>

definition demo_run :: sop_run where
  "demo_run =
     \<lparr>run_id = ''r'', run_sop_id = ''p'', run_version = 1, run_title = ''P'', run_status = ''pending'',
      run_occurrence = ''k'', run_request_fp = ''64'', run_definition_fp = ''64'',
      run_definition = JObj [(''steps'', JArr demo_steps)], run_input = JObj [], run_input_ref = JNull,
      run_output = JObj [], run_output_ref = JNull,
      run_steps = map (\<lambda>s. initial_step s (step_string s ''executor'') None None) demo_steps,
      run_trigger_kind = ''manual'', run_trigger_ref = [], run_triggered_by = ''me'',
      run_parent = None, run_parent_step = None, run_created = demo_now, run_updated = demo_now,
      run_completed = None\<rparr>"

definition demo_open_row :: run_row where
  "demo_open_row =
     \<lparr>rn_id = ''r'', rn_sop_id = ''p'', rn_version = 1, rn_title = ''P'', rn_status = ''pending'',
      rn_occurrence = ''k'', rn_request_fp = ''64'', rn_definition_fp = ''64'',
      rn_definition = run_definition demo_run, rn_input = JObj [], rn_input_ref = None,
      rn_output = JObj [], rn_output_ref = None, rn_steps = JArr (run_steps demo_run),
      rn_trigger_kind = ''manual'', rn_trigger_ref = [], rn_triggered_by = ''me'', rn_parent = None,
      rn_parent_step = None, rn_created_at = demo_now, rn_updated_at = demo_now, rn_completed_at = None\<rparr>"

definition demo_world :: sop_world where
  "demo_world = \<lparr>tables = (tables demo_created)\<lparr>runs := [demo_open_row]\<rparr>, draws = 12\<rparr>"

abbreviation demo_passes :: "(stop + sop_run \<times> bool) \<times> sop_world" where
  "demo_passes \<equiv> reconcile_passes demo_call (\<lambda>_. stopS Unfinished) (pass_limit demo_run) demo_run False demo_world"

lemma demo_rest:
  "map_sum id (\<lambda>(run, _). map status (run_steps run)) (fst demo_passes) =
     Inr [Some ''completed'', Some ''running'']"
  by code_simp

lemma demo_run_good:
  "well_run (run_steps demo_run)" "ordered (run_steps demo_run)" "runs_definition demo_steps (run_steps demo_run)"
  "handled (run_steps demo_run)"
  by code_simp+

lemma demo_host_steps: "fair_order demo_host" "validate_steps demo_host (Some (JArr demo_raw)) None = Inr (JArr demo_steps)"
proof -
  show "fair_order demo_host"
    using demo_fair by (simp add: fair_order_def demo_host_def)
  show "validate_steps demo_host (Some (JArr demo_raw)) None = Inr (JArr demo_steps)"
    by code_simp
qed

lemma passes_converge_witness:
  "\<exists>n s. n \<le> 4 \<and> advances demo_call (\<lambda>_. stopS Unfinished) n (demo_run, demo_world) s \<and>
    last_pass demo_call (\<lambda>_. stopS Unfinished) s (end_of_passes demo_passes)"
  using passes_converge [OF demo_run_good(1,2), of demo_call "\<lambda>_. stopS Unfinished" demo_world False]
  by (auto simp: demo_run_def demo_steps_def)

lemma reconciled_run_waits_outside_witness:
  "\<exists>run' ch' w' run0 w0. demo_passes = (Inr (run', ch'), w') \<and>
    step_status_is ''running'' (run_steps run' ! 1) \<and>
    found_waiting demo_call (\<lambda>_. stopS Unfinished) run0 w0 1 (run_steps run' ! 1)"
proof -
  obtain run' ch' w' where passes: "demo_passes = (Inr (run', ch'), w')"
    using demo_rest by (cases demo_passes; cases "fst demo_passes") auto
  with demo_rest have statuses: "map status (run_steps run') = [Some ''completed'', Some ''running'']"
    by simp
  then have "length (run_steps run') = 2" "status (run_steps run' ! 1) = Some ''running''"
    using nth_map [of 1 "run_steps run'" status] by (auto dest: map_eq_imp_length_eq)
  then have "1 < length (run_steps run')" "step_status_is ''running'' (run_steps run' ! 1)"
    by (simp_all add: member_is_def)
  with reconciled_run_waits_outside [OF demo_host_steps demo_run_good(3,1,2,4) passes] passes show ?thesis
    by blast
qed

end
