(* ===== verification/Domain_Descriptor.thy ===== *)
theory Domain_Descriptor
  imports Ledger_Contract
begin

text \<open>
  The descriptor of a ledger domain (\<^verbatim>\<open>ledger-domain-mcp/native/src/descriptor/parts\<close>) and the engine
  that hosts it (\<^verbatim>\<open>engine/parts/01.rs\<close>, \<^verbatim>\<open>impl_parts/01.rs\<close>). The records have the fields that the
  sequences, the proposals and the projection of the engine read; a \<^verbatim>\<open>BTreeMap\<close> is the list of its
  entries in key order. Loading a descriptor file and its validation against the compiled-in JSON
  Schema come before: the model starts with the typed descriptor.
\<close>

section \<open>The descriptor\<close>

record bound =
  bound_min :: u64
  bound_max :: u64

record capped_limit =
  cap_max :: u64
  cap_default :: u64

record domain_identity =
  tool_prefix :: string
  schema_namespace :: string
  error_schema_id :: string

record domain_storage =
  control_root_subdir :: string
  runtime_subdir :: string
  ledger_file_prefix :: string
  event_schema_id :: string
  event_hash_field :: string
  ledger_subdir :: string
  proposals_subdir :: string
  sequences_subdir :: string

record extension_rule =
  must_contain :: string
  rule_pattern :: string
  rule_examples :: "string list"
  rule_refusal_code :: string

record entity_rules =
  core_kinds :: "string list"
  conditional_fields :: "(string \<times> string list) list"
  entity_extension :: extension_rule

record relation_rules =
  core_relations :: "string list"
  relation_extension :: extension_rule

record reference_binding =
  bound_operation :: string
  bound_fields :: "string list"

record operation_rules =
  operation_fields :: "(string \<times> string list) list"
  evidence_entry :: json
  evidence_at_review :: "string list"
  reference_bindings :: "reference_binding list"

record entity_id_recipe =
  entity_applies_to :: string
  entity_template :: string
  digest_input_fields :: "string list"

record relation_id_recipe =
  relation_applies_to :: string
  relation_template :: string
  hash_input :: string

record local_ref_wiring =
  declare_field :: string
  duplicate_refusal_code :: string
  reference_fields :: "(string \<times> string) list"
  unresolved_refusal_code :: string

record identity_prefix =
  id_prefix :: string
  id_field :: string

record derived_key_recipe =
  key_template :: string
  input_fields :: "string list"

record generated_ids =
  proposal_id_template :: string
  sequence_id_template :: string
  claim_id_template :: string

record id_derivation =
  entity_recipe :: entity_id_recipe
  relation_recipe :: relation_id_recipe
  local_refs :: local_ref_wiring
  identity_prefixes :: "(string \<times> identity_prefix) list"
  proposal_key :: derived_key_recipe
  admission_key :: derived_key_recipe
  generated :: generated_ids

record fold_entry =
  fold_operation :: string
  fold_table :: string
  key_field :: string
  fold_columns :: jmap

record projection_rules =
  ddl :: string
  fold_entries :: "fold_entry list"

record communication_config =
  canonical_kind :: string
  legacy_read_aliases :: "string list"
  contract_version :: u64
  canonicalization_operation :: string
  legacy_write_refusal_code :: string
  collision_refusal_code :: string
  communication_fields :: "string list"
  content_any_of :: "string list"

record query_config =
  communication :: communication_config
  kind_aliases :: "(string \<times> string list) list"
  named_queries :: "(string \<times> json) list"
  relation_inverses :: "(string \<times> string) list"

record domain_caps =
  operations_per_proposal :: bound
  proposal_read_limit :: capped_limit
  sequence_name_chars :: bound
  authority_basis_bytes :: nat
  resulting_operations :: bound
  capture_sources_min :: u64
  capture_combined_max :: u64

record proposals_feature =
  proposal_schema_id :: string
  submission_receipt_schema_id :: string
  review_schema_id :: string
  admission_receipt_schema_id :: string
  rejection_schema_id :: string
  resubmission_schema_id :: string
  source_capture_schema_id :: string
  compound_schema_id :: string
  read_schema_id :: string
  admission_event_kind :: string
  review_gate_preserved :: bool
  certifies_truth :: bool
  capture_requires_admission :: bool
  missing_drop_refusal_code :: string

record sequences_feature =
  manifest_schema_id :: string
  claim_schema_id :: string
  claim_receipt_schema_id :: string
  status_schema_id :: string
  list_schema_id :: string
  claims_schema_id :: string
  idempotency_schema_id :: string
  sequence_step :: u64
  start_at_min :: u64
  claim_file_pattern :: string
  manifest_hash_field :: string
  claim_hash_field :: string
  claim_chain_field :: string

record descriptor =
  identity :: domain_identity
  storage :: domain_storage
  entity_config :: entity_rules
  relation_config :: relation_rules
  operation_config :: operation_rules
  ids :: id_derivation
  projection_config :: projection_rules
  queries :: query_config
  caps :: domain_caps
  proposals_config :: proposals_feature
  sequences_config :: sequences_feature

section \<open>Templates\<close>

text \<open>\<^verbatim>\<open>[..n]\<close> in a template says how much of a digest is taken.\<close>

definition template_truncation :: "string \<Rightarrow> nat \<Rightarrow> nat" where
  "template_truncation template fallback =
     (case break_on ''[..'' template of
        None \<Rightarrow> fallback
      | Some (_, rest) \<Rightarrow>
          (case break_on '']'' rest of
             None \<Rightarrow> fallback
           | Some (digits, _) \<Rightarrow>
               (case parse_usize digits of None \<Rightarrow> fallback | Some n \<Rightarrow> n)))"

definition template_prefix :: "string \<Rightarrow> string" where
  "template_prefix template = takeWhile (\<lambda>ch. ch \<noteq> CHR ''{'') template"

text \<open>\<^verbatim>\<open>&digest[..n]\<close>, which panics beyond the end of the text.\<close>

definition slice_to :: "nat \<Rightarrow> string \<Rightarrow> failure + string" where
  "slice_to n s =
     (if n \<le> length s then Inr (take n s) else Inl (Panicked ''byte index out of bounds''))"

lemma slice_to_Inr [simp]: "slice_to n s = Inr t \<longleftrightarrow> n \<le> length s \<and> t = take n s"
  by (auto simp: slice_to_def)

definition derived_id :: "host \<Rightarrow> string \<Rightarrow> nat \<Rightarrow> string \<Rightarrow> failure + string" where
  "derived_id h template fallback bytes =
     bindR (slice_to (template_truncation template fallback) (sha256 h bytes)) (\<lambda>part.
     Inr (template_prefix template @ part))"

section \<open>The tables of the projection\<close>

record table_spec =
  table_name :: string
  table_columns :: "string list"
  primary_key :: string

text \<open>\<^verbatim>\<open>split_whitespace().next()\<close> of a trimmed text.\<close>

fun first_word :: "string \<Rightarrow> string" where
  "first_word [] = []"
| "first_word (ch # s) = (if trim_start (ch # s) \<noteq> ch # s then [] else ch # first_word s)"

definition trim_parens :: "string \<Rightarrow> string" where
  "trim_parens s = rev (dropWhile (\<lambda>ch. ch = CHR '')'') (rev s))"

definition contains_text :: "string \<Rightarrow> string \<Rightarrow> bool" where
  "contains_text p s \<longleftrightarrow> break_on p s \<noteq> None"

fun read_columns :: "string list \<Rightarrow> string list \<times> string option" where
  "read_columns [] = ([], None)"
| "read_columns (part # parts) =
     (let column = trim part; (names, key) = read_columns parts; name = first_word column in
      if column = [] then (names, key)
      else (name # names,
        if key = None \<and> contains_text ''primary key'' column then Some name else key))"

definition read_table :: "string \<Rightarrow> string + table_spec option" where
  "read_table segment =
     (if \<not> starts_with ''create table '' segment then Inr None
      else
        let rest = drop (length ''create table '') segment in
        case break_on ''('' rest of
          None \<Rightarrow> Inl (''domain_invalid:projection_ddl:'' @ segment)
        | Some (name, body) \<Rightarrow>
            let (columns, key) = read_columns (split_on CHR '','' (trim (trim_parens body))) in
            bindR (ok_or key (''domain_invalid:projection_ddl_no_primary_key:'' @ trim name)) (\<lambda>key.
            Inr (Some \<lparr>table_name = trim name, table_columns = columns, primary_key = key\<rparr>)))"

definition parse_ddl_tables :: "string \<Rightarrow> string + table_spec list" where
  "parse_ddl_tables text =
     bindR (mapR (\<lambda>segment. read_table (trim segment)) (split_on CHR '';'' text)) (\<lambda>tables.
     let specs = List.map_filter id tables in
     if specs = [] then Inl ''domain_invalid:projection_ddl_no_tables'' else Inr specs)"

section \<open>The engine\<close>

record engine =
  domain :: descriptor
  engine_tables :: "table_spec list"
  entity_table :: string
  relation_table :: string
  records_table :: string
  datoms_table :: "string option"
  projection_meta_table :: "string option"

definition fold_of :: "descriptor \<Rightarrow> string \<Rightarrow> fold_entry option" where
  "fold_of d operation = find (\<lambda>entry. fold_operation entry = operation) (fold_entries (projection_config d))"

definition fold_table_of :: "descriptor \<Rightarrow> string \<Rightarrow> string + string" where
  "fold_table_of d operation =
     ok_or (map_option fold_table (fold_of d operation)) (''domain_invalid:projection_fold_missing:'' @ operation)"

definition table_named :: "string \<Rightarrow> table_spec list \<Rightarrow> table_spec option" where
  "table_named n tables = find (\<lambda>spec. table_name spec = n) tables"

definition check_table :: "table_spec list \<Rightarrow> string \<Rightarrow> string + unit" where
  "check_table tables n =
     refuse_if (table_named n tables = None) (''domain_invalid:projection_fold_unknown_table:'' @ n)"

definition new_engine :: "descriptor \<Rightarrow> string + engine" where
  "new_engine d =
     bindR (parse_ddl_tables (ddl (projection_config d))) (\<lambda>tables.
     bindR (fold_table_of d (entity_applies_to (entity_recipe (ids d)))) (\<lambda>entities.
     bindR (fold_table_of d (relation_applies_to (relation_recipe (ids d)))) (\<lambda>relations.
     bindR (ok_or (find (\<lambda>entry. fold_table entry \<noteq> entities \<and> fold_table entry \<noteq> relations)
         (fold_entries (projection_config d))) ''domain_invalid:projection_fold_missing_records'') (\<lambda>records.
     bindR (mapR (check_table tables) [entities, relations, fold_table records]) (\<lambda>_.
     Inr \<lparr>domain = d, engine_tables = tables, entity_table = entities, relation_table = relations,
       records_table = fold_table records,
       datoms_table = map_option table_name (table_named ''datoms'' tables),
       projection_meta_table = map_option table_name (table_named ''projection_meta'' tables)\<rparr>)))))"

definition table_of :: "engine \<Rightarrow> string \<Rightarrow> failure + table_spec" where
  "table_of e n =
     ok_or (table_named n (engine_tables e)) (Panicked ''fold tables are validated at load'')"

definition entity_op :: "engine \<Rightarrow> string" where
  "entity_op e = entity_applies_to (entity_recipe (ids (domain e)))"

definition relation_op :: "engine \<Rightarrow> string" where
  "relation_op e = relation_applies_to (relation_recipe (ids (domain e)))"

definition engine_schema :: "engine \<Rightarrow> error_schema" where
  "engine_schema e = error_schema_id (identity (domain e))"

definition engine_error :: "engine \<Rightarrow> string \<Rightarrow> string \<Rightarrow> (string \<times> json) list \<Rightarrow> json" where
  "engine_error e c m details = schema_error (engine_schema e) c m (JObj details)"

definition engine_refusal :: "engine \<Rightarrow> string \<Rightarrow> string \<Rightarrow> json" where
  "engine_refusal e c m = schema_error (engine_schema e) c m JNull"

definition tool_name :: "engine \<Rightarrow> string \<Rightarrow> string" where
  "tool_name e verb = tool_prefix (identity (domain e)) @ ''_'' @ verb"

definition configured_message_kinds :: "engine \<Rightarrow> string list" where
  "configured_message_kinds e =
     concat (map (\<lambda>(_, config).
       if Option.bind (jget config ''mode'') as_str \<noteq> Some ''inbox'' then []
       else case Option.bind (jget config ''kind_key'') as_str of
              None \<Rightarrow> []
            | Some canonical \<Rightarrow>
                canonical # (case map_of (kind_aliases (queries (domain e))) canonical of
                               None \<Rightarrow> [] | Some aliases \<Rightarrow> aliases))
       (named_queries (queries (domain e))))"

section \<open>Where the stores of a site are\<close>

text \<open>A site root: its path text and its base name.\<close>

record site =
  root_text :: string
  base_name :: "string option"

definition control :: "site \<Rightarrow> string" where
  "control s = (if base_name s = Some ''.narada'' then root_text s else path_text (root_text s) ''.narada'')"

definition control_subdir :: "engine \<Rightarrow> site \<Rightarrow> string \<Rightarrow> string" where
  "control_subdir e s sub =
     path_text (control s) (control_root_subdir (storage (domain e)) @ CHR ''/'' # sub)"

definition ledger_directory :: "engine \<Rightarrow> site \<Rightarrow> string" where
  "ledger_directory e s = control_subdir e s (ledger_subdir (storage (domain e)))"

definition proposals_directory :: "engine \<Rightarrow> site \<Rightarrow> string" where
  "proposals_directory e s = control_subdir e s (proposals_subdir (storage (domain e)))"

definition sequences_directory :: "engine \<Rightarrow> site \<Rightarrow> string" where
  "sequences_directory e s = control_subdir e s (sequences_subdir (storage (domain e)))"

definition ledger_layout :: "engine \<Rightarrow> site \<Rightarrow> layout" where
  "ledger_layout e s =
     \<lparr>directory = ledger_directory e s, layout_prefix = ledger_file_prefix (storage (domain e))\<rparr>"

section \<open>What a loaded engine knows of its tables\<close>

lemma new_engine_domain: "new_engine d = Inr e \<Longrightarrow> domain e = d"
  by (auto simp: new_engine_def bindR_Inr_iff)

lemma new_engine_tables:
  assumes "new_engine d = Inr e" "n \<in> {entity_table e, relation_table e, records_table e}"
  shows "\<exists>spec. table_of e n = Inr spec \<and> table_name spec = n"
proof -
  have "table_named n (engine_tables e) \<noteq> None"
    using assms by (auto simp: new_engine_def bindR_Inr_iff check_table_def refuse_if_def split: if_splits)
  then obtain spec where "table_named n (engine_tables e) = Some spec" by blast
  moreover from this have "table_name spec = n"
    by (auto simp: table_named_def find_Some_iff)
  ultimately show ?thesis by (simp add: table_of_def)
qed

lemma new_engine_folds:
  assumes "new_engine d = Inr e"
  shows "\<exists>entry. fold_of d (entity_op e) = Some entry \<and> fold_table entry = entity_table e"
    "\<exists>entry. fold_of d (relation_op e) = Some entry \<and> fold_table entry = relation_table e"
  using assms by (auto simp: new_engine_def bindR_Inr_iff fold_table_of_def entity_op_def relation_op_def)

end
