(* ===== verification/Domain_Steps.thy ===== *)
theory Domain_Steps
  imports Domain_Descriptor Authority_Lock
begin

text \<open>
  Operations of the engine on the files of a site. An operation returns the states it passes through
  after the first one, so that a crash leaves one of them, and its result. The rules at the end take a
  contract of such an operation apart along its composition.
\<close>

text \<open>\<^verbatim>\<open>json!\<close> inserts its entries one by one.\<close>

definition obj_of :: "(string \<times> json) list \<Rightarrow> jmap" where
  "obj_of entries = fold (\<lambda>(k, v). obj_insert k v) entries []"

lemma obj_of_distinct: "distinct (map fst entries) \<Longrightarrow> obj_of entries = entries"
proof -
  have "distinct (map fst (m @ entries)) \<Longrightarrow> fold (\<lambda>(k, v). obj_insert k v) entries m = m @ entries" for m
  proof (induction entries arbitrary: m)
    case (Cons e entries)
    then have "\<not> obj_has m (fst e)"
      by (auto simp: obj_has_def)
    with Cons show ?case
      by (cases e) (simp add: obj_insert_new)
  qed simp
  then show "distinct (map fst entries) \<Longrightarrow> obj_of entries = entries"
    by (simp add: obj_of_def)
qed

type_synonym ('s, 'a) steps = "'s \<Rightarrow> 's list \<times> (failure + 'a)"

definition doneT :: "'a \<Rightarrow> ('s, 'a) steps" where
  "doneT x s = ([], Inr x)"

definition refuseT :: "json \<Rightarrow> ('s, 'a) steps" where
  "refuseT e s = ([], Inl (Refused e))"

definition final_state :: "'s list \<Rightarrow> 's \<Rightarrow> 's" where
  "final_state states s = last (s # states)"

definition bindT :: "('s, 'a) steps \<Rightarrow> ('a \<Rightarrow> ('s, 'b) steps) \<Rightarrow> ('s, 'b) steps" where
  "bindT m f s =
     (case m s of
        (states, Inl e) \<Rightarrow> (states, Inl e)
      | (states, Inr x) \<Rightarrow>
          let (rest, r) = f x (final_state states s) in (states @ rest, r))"

text \<open>A computation on the current state that changes nothing.\<close>

definition askT :: "('s \<Rightarrow> failure + 'a) \<Rightarrow> ('s, 'a) steps" where
  "askT f s = ([], f s)"

definition tryT :: "failure + 'a \<Rightarrow> ('s, 'a) steps" where
  "tryT r s = ([], r)"

definition refuseT_if :: "bool \<Rightarrow> json \<Rightarrow> ('s, unit) steps" where
  "refuseT_if b e s = ([], if b then Inl (Refused e) else Inr ())"

text \<open>One step of the file system, which either fails with a text or changes the state.\<close>

definition stepT :: "error_schema \<Rightarrow> string \<Rightarrow> string option \<Rightarrow> ('s \<Rightarrow> 's) \<Rightarrow> ('s, unit) steps" where
  "stepT sch c fault f s =
     (case fault of
        Some t \<Rightarrow> ([], Inl (Refused (io_error sch c t)))
      | None \<Rightarrow> ([f s], Inr ()))"

text \<open>A write into one directory of the state: its states, without the one it starts from.\<close>

definition writeT :: "('s \<Rightarrow> dir) \<Rightarrow> (dir \<Rightarrow> 's \<Rightarrow> 's) \<Rightarrow> (dir \<Rightarrow> dir list \<times> (json + unit)) \<Rightarrow> ('s, unit) steps" where
  "writeT get put w s =
     (let (dirs, r) = w (get s) in (map (\<lambda>d. put d s) (tl dirs), refused r))"

fun mapT :: "('a \<Rightarrow> ('s, 'b) steps) \<Rightarrow> 'a list \<Rightarrow> ('s, 'b list) steps" where
  "mapT f [] = doneT []"
| "mapT f (x # xs) = bindT (f x) (\<lambda>y. bindT (mapT f xs) (\<lambda>ys. doneT (y # ys)))"

section \<open>The authority lock\<close>

text \<open>\<open>Authority_Lock\<close> has the polling loop; that it ends within its fuel is \<open>lock_wait_bounded\<close>.\<close>

definition acquire :: "error_schema \<Rightarrow> string \<Rightarrow> lock_env \<Rightarrow> json + unit" where
  "acquire sch key l =
     bindR (io_step sch ''authority_lock_store_create_failed'' (create_fault l)) (\<lambda>_.
     bindR (io_step sch ''authority_lock_open_failed'' (open_fault l)) (\<lambda>_.
     case lock_loop sch key default_policy (lock_tries l) (lock_fuel default_policy) 0 of
       Some (Inr _) \<Rightarrow> Inr ()
     | Some (Inl e) \<Rightarrow> Inl e
     | None \<Rightarrow> Inl (authority_busy sch key default_policy
         \<lparr>would_block = True, raw_os_error = None, os_text = []\<rparr>)))"

definition release_failed :: "error_schema \<Rightarrow> string \<Rightarrow> string \<Rightarrow> json" where
  "release_failed sch key t =
     schema_error sch ''authority_unlock_failed''
       ''authority mutation completed but its process lock could not be released''
       (JObj [(''lock_key'', JStr key), (''source'', JStr t)])"

definition locked :: "error_schema \<Rightarrow> string \<Rightarrow> lock_env \<Rightarrow> ('s, 'a) steps \<Rightarrow> ('s, 'a) steps" where
  "locked sch key l action s =
     (case acquire sch key l of
        Inl e \<Rightarrow> ([], Inl (Refused e))
      | Inr _ \<Rightarrow>
          let (states, r) = action s in
          (states,
           case (r, unlock_fault l) of
             (Inr _, Some t) \<Rightarrow> Inl (Refused (release_failed sch key t))
           | _ \<Rightarrow> r))"

lemma with_authority_lock_locked:
  assumes "with_authority_lock sch key default_policy l (\<lambda>s. (r, s')) s = Some (q, t)"
  shows "q = (case acquire sch key l of Inl e \<Rightarrow> Inl e
    | Inr _ \<Rightarrow> unlock_result sch key (unlock_fault l) r)"
  using assms
  by (auto simp: with_authority_lock_def acquire_def bindR_def split: option.splits sum.splits)

section \<open>Contracts\<close>

text \<open>\<open>spec I P m Q\<close>: from states with \<open>P\<close>, every state on the way has \<open>I\<close>, and a result and the state
  that goes with it have \<open>Q\<close>.\<close>

definition spec :: "('s \<Rightarrow> bool) \<Rightarrow> ('s \<Rightarrow> bool) \<Rightarrow> ('s, 'a) steps \<Rightarrow> ('a \<Rightarrow> 's \<Rightarrow> bool) \<Rightarrow> bool" where
  "spec I P m Q \<longleftrightarrow>
     (\<forall>s. P s \<longrightarrow> list_all I (fst (m s)) \<and>
        (\<forall>x. snd (m s) = Inr x \<longrightarrow> Q x (final_state (fst (m s)) s)))"

lemma final_state_simps [simp]:
  "final_state [] s = s"
  "final_state (states @ [t]) s = t"
  "final_state (xs @ ys) s = final_state ys (final_state xs s)"
  by (auto simp: final_state_def)

lemma final_state_Cons [simp]: "final_state (t # states) s = final_state states t"
  by (simp add: final_state_def)

lemma final_state_in: "final_state states s = s \<or> final_state states s \<in> set states"
  by (auto simp: final_state_def dest: last_in_set)

lemma specI:
  assumes "\<And>s. P s \<Longrightarrow> list_all I (fst (m s))"
    and "\<And>s x. P s \<Longrightarrow> snd (m s) = Inr x \<Longrightarrow> Q x (final_state (fst (m s)) s)"
  shows "spec I P m Q"
  using assms by (simp add: spec_def)

lemma spec_states: "spec I P m Q \<Longrightarrow> P s \<Longrightarrow> t \<in> set (fst (m s)) \<Longrightarrow> I t"
  by (auto simp: spec_def list_all_iff)

lemma spec_result: "spec I P m Q \<Longrightarrow> P s \<Longrightarrow> m s = (states, Inr x) \<Longrightarrow> Q x (final_state states s)"
  by (force simp: spec_def)

lemma spec_mono:
  "spec I P m Q \<Longrightarrow> (\<And>s. P' s \<Longrightarrow> P s) \<Longrightarrow> (\<And>s. I s \<Longrightarrow> I' s) \<Longrightarrow> (\<And>x s. Q x s \<Longrightarrow> Q' x s) \<Longrightarrow> spec I' P' m Q'"
  unfolding spec_def list_all_iff by blast

named_theorems spec_rules

lemma spec_bind [spec_rules]:
  assumes "spec I P m Q" "\<And>x. spec I (Q x) (f x) R"
  shows "spec I P (bindT m f) R"
proof (rule specI)
  fix s assume P: "P s"
  obtain states r where m: "m s = (states, r)" by (cases "m s")
  have states: "list_all I states" using assms(1) P m by (force simp: spec_def)
  show "list_all I (fst (bindT m f s))"
  proof (cases r)
    case (Inl e)
    with m states show ?thesis by (simp add: bindT_def)
  next
    case (Inr x)
    have "Q x (final_state states s)" using spec_result [OF assms(1) P] m Inr by simp
    with assms(2) [of x] have "list_all I (fst (f x (final_state states s)))"
      by (simp add: spec_def)
    with m Inr states show ?thesis by (simp add: bindT_def split_beta)
  qed
  fix y assume y: "snd (bindT m f s) = Inr y"
  then obtain x where x: "r = Inr x" using m by (cases r) (auto simp: bindT_def)
  have "Q x (final_state states s)" using spec_result [OF assms(1) P] m x by simp
  moreover obtain rest q where f: "f x (final_state states s) = (rest, q)"
    by (cases "f x (final_state states s)")
  moreover from m x f y have "q = Inr y" by (simp add: bindT_def)
  ultimately have "R y (final_state rest (final_state states s))"
    using spec_result [OF assms(2)] by blast
  with m x f show "R y (final_state (fst (bindT m f s)) s)" by (simp add: bindT_def)
qed

lemma spec_done [spec_rules]: "spec I (Q x) (doneT x) Q"
  by (simp add: spec_def doneT_def)

lemma spec_refuse [spec_rules]: "spec I P (refuseT e) Q"
  by (simp add: spec_def refuseT_def)

lemma spec_try [spec_rules]: "spec I (\<lambda>s. \<forall>x. r = Inr x \<longrightarrow> Q x s) (tryT r) Q"
  by (simp add: spec_def tryT_def)

lemma spec_ask [spec_rules]: "spec I (\<lambda>s. \<forall>x. f s = Inr x \<longrightarrow> Q x s) (askT f) Q"
  by (simp add: spec_def askT_def)

lemma spec_refuse_if [spec_rules]: "spec I (\<lambda>s. \<not> b \<longrightarrow> Q () s) (refuseT_if b e) Q"
  by (simp add: spec_def refuseT_if_def)

lemma spec_step [spec_rules]: "spec I (\<lambda>s. I (f s) \<and> Q () (f s)) (stepT sch c fault f) Q"
  by (simp add: spec_def stepT_def split: option.split)

lemma spec_locked [spec_rules]: "spec I P m Q \<Longrightarrow> spec I P (locked sch key l m) Q"
  by (auto simp: spec_def locked_def split: sum.splits option.splits prod.splits)

lemma spec_pre: "spec I P m Q \<Longrightarrow> (\<And>s. P' s \<Longrightarrow> P s) \<Longrightarrow> spec I P' m Q"
  by (erule spec_mono) auto

lemma spec_cases: "(\<And>s. P s \<Longrightarrow> spec I (\<lambda>t. t = s) m (\<lambda>x t. Q x t)) \<Longrightarrow> spec I P m Q"
  by (simp add: spec_def)

end
