(* ===== verification/Domain_Sequences.thy ===== *)
theory Domain_Sequences
  imports Domain_Steps
begin

text \<open>
  Sequences (\<^verbatim>\<open>engine/impl_parts/05.rs\<close>, \<^verbatim>\<open>06.rs\<close>, \<^verbatim>\<open>29.rs\<close>, \<^verbatim>\<open>30.rs\<close>): named counters whose values are
  claimed one by one. A sequence is a directory with its manifest, one file per claim, linked by
  hashes, and one file per idempotency key. The state of an operation on one sequence is its three
  directories; \<open>on_sequence\<close> lifts it to all sequences of the site.
\<close>

record seq_store =
  sq_files :: dir
  sq_claims :: "dir option"
  sq_index :: "dir option"

type_synonym sequences = "(string \<times> seq_store) list"

definition empty_sequence :: seq_store where
  "empty_sequence = \<lparr>sq_files = [], sq_claims = None, sq_index = None\<rparr>"

text \<open>What a call takes from its surroundings.\<close>

record seq_call =
  call_host :: host
  call_site :: site
  call_engine :: engine
  prepare_fault :: "(string \<times> string) option"
  call_lock :: lock_env
  stamp :: "nat \<Rightarrow> string"
  make_claims_fault :: "string option"
  make_index_fault :: "string option"
  read_claims_fault :: "string option"
  read_sequences_fault :: "string option"
  manifest_write :: write_env
  claim_write :: write_env
  index_write :: write_env

abbreviation seq_config :: "seq_call \<Rightarrow> sequences_feature" where
  "seq_config c \<equiv> sequences_config (domain (call_engine c))"

abbreviation call_schema :: "seq_call \<Rightarrow> error_schema" where
  "call_schema c \<equiv> engine_schema (call_engine c)"

abbreviation call_error :: "seq_call \<Rightarrow> string \<Rightarrow> string \<Rightarrow> (string \<times> json) list \<Rightarrow> json" where
  "call_error c \<equiv> engine_error (call_engine c)"

definition ju64 :: "u64 \<Rightarrow> json" where
  "ju64 w = JNum (PosInt w)"

definition jopt_u64 :: "u64 option \<Rightarrow> json" where
  "jopt_u64 x = (case x of None \<Rightarrow> JNull | Some w \<Rightarrow> ju64 w)"

definition checked_suc :: "u64 \<Rightarrow> u64 option" where
  "checked_suc w = (if w = - 1 then None else Some (w + 1))"

definition prepare_site :: "seq_call \<Rightarrow> failure + unit" where
  "prepare_site c =
     (case prepare_fault c of
        None \<Rightarrow> Inr ()
      | Some (which, t) \<Rightarrow> Inl (Refused (io_error (call_schema c) which t)))"

section \<open>Names\<close>

text \<open>\<^verbatim>\<open>char::is_control\<close> on the bytes of UTF-8: the ASCII controls and U+0080 to U+009F.\<close>

fun has_control :: "string \<Rightarrow> bool" where
  "has_control [] = False"
| "has_control (ch # s) =
     (byte ch < 32 \<or> byte ch = 127 \<or>
      byte ch = 194 \<and> (case s of [] \<Rightarrow> False | d # _ \<Rightarrow> 128 \<le> byte d \<and> byte d < 160) \<or>
      has_control s)"

definition validated_sequence_name :: "engine \<Rightarrow> jmap \<Rightarrow> json + string" where
  "validated_sequence_name e args =
     bindR (required (engine_schema e) args ''sequence_name'') (\<lambda>name.
     bindR (refuse_if (trim name \<noteq> name \<or>
          unat (bound_max (sequence_name_chars (caps (domain e)))) < char_count name \<or> has_control name)
        (engine_error e ''sequence_name_invalid''
          ''sequence_name must be 1-120 non-control characters without surrounding whitespace''
          [(''sequence_name'', JStr name)])) (\<lambda>_.
     Inr name))"

definition authority_basis_of :: "seq_call \<Rightarrow> jmap \<Rightarrow> json + json" where
  "authority_basis_of c args =
     required_object (call_host c) (call_schema c) args ''authority_basis''
       (authority_basis_bytes (caps (domain (call_engine c)))) ''authority_basis''"

definition generated_sequence_id :: "engine \<Rightarrow> host \<Rightarrow> string \<Rightarrow> failure + string" where
  "generated_sequence_id e h name = derived_id h (sequence_id_template (generated (ids (domain e)))) 24 name"

definition generated_claim_id :: "engine \<Rightarrow> host \<Rightarrow> string \<Rightarrow> string \<Rightarrow> failure + string" where
  "generated_claim_id e h name key =
     derived_id h (claim_id_template (generated (ids (domain e)))) 24 (name @ CHR 0x00 # key)"

text \<open>\<^verbatim>\<open>{value:0width$}\<close>: at least so many digits, zero filled, never truncated.\<close>

definition pad_to :: "nat \<Rightarrow> nat \<Rightarrow> string" where
  "pad_to w n = (let s = show_nat n in replicate (w - length s) (CHR ''0'') @ s)"

definition claim_name_parts :: "string \<Rightarrow> string \<times> nat \<times> string" where
  "claim_name_parts pattern =
     (let dflt = (''claim-'', 20, ''.json'') in
      case break_on ''{value:'' pattern of
        None \<Rightarrow> dflt
      | Some (left, right) \<Rightarrow>
          (case break_on ''}'' right of
             None \<Rightarrow> dflt
           | Some (width, suffix) \<Rightarrow>
               (case parse_usize width of
                  None \<Rightarrow> dflt
                | Some w \<Rightarrow> (rev (takeWhile (\<lambda>ch. ch \<noteq> CHR ''/'') (rev left)), w, suffix))))"

definition sequence_claim_file_name :: "engine \<Rightarrow> u64 \<Rightarrow> string" where
  "sequence_claim_file_name e v =
     (case claim_name_parts (claim_file_pattern (sequences_config (domain e))) of
        (before_value, width, after_value) \<Rightarrow> before_value @ pad_to width (unat v) @ after_value)"

definition index_name :: "host \<Rightarrow> string \<Rightarrow> string" where
  "index_name h key = sha256 h key @ ''.json''"

definition sequence_path :: "seq_call \<Rightarrow> string \<Rightarrow> string" where
  "sequence_path c name =
     path_text (sequences_directory (call_engine c) (call_site c)) (sha256 (call_host c) name)"

definition claims_path :: "seq_call \<Rightarrow> string \<Rightarrow> string" where
  "claims_path c name = path_text (sequence_path c name) ''claims''"

definition index_path :: "seq_call \<Rightarrow> string \<Rightarrow> string" where
  "index_path c name = path_text (sequence_path c name) ''idempotency''"

section \<open>Verification\<close>

definition valid_manifest :: "sequences_feature \<Rightarrow> string \<Rightarrow> string \<Rightarrow> json \<Rightarrow> bool" where
  "valid_manifest q name i manifest \<longleftrightarrow>
     jget manifest ''schema'' = Some (JStr (manifest_schema_id q)) \<and>
     Option.bind (jget manifest ''sequence_name'') as_str = Some name \<and>
     Option.bind (jget manifest ''sequence_id'') as_str = Some i \<and>
     (case Option.bind (jget manifest ''start_at'') as_u64 of None \<Rightarrow> False | Some w \<Rightarrow> start_at_min q \<le> w) \<and>
     Option.bind (jget manifest ''step'') as_u64 = Some (sequence_step q)"

definition verify_sequence_manifest :: "seq_call \<Rightarrow> json \<Rightarrow> string \<Rightarrow> failure + unit" where
  "verify_sequence_manifest c manifest name =
     bindR (generated_sequence_id (call_engine c) (call_host c) name) (\<lambda>i.
     bindR (refused (refuse_if (\<not> valid_manifest (seq_config c) name i manifest)
       (call_error c ''sequence_manifest_invalid'' ''sequence manifest has invalid identity or configuration''
         [(''sequence_name'', JStr name)]))) (\<lambda>_.
     bindR (refused (recompute_hash (call_host c) (call_schema c) manifest
       (manifest_hash_field (seq_config c)))) (\<lambda>r.
     case r of
       None \<Rightarrow>
         Inl (Refused (call_error c ''sequence_manifest_invalid'' ''sequence manifest lacks creation_hash''
           [(''sequence_name'', JStr name)]))
     | Some rec \<Rightarrow>
         refused (refuse_if (stored rec \<noteq> computed rec)
           (call_error c ''sequence_manifest_hash_invalid'' ''sequence manifest hash does not match''
             [(''sequence_name'', JStr name), (''expected_hash'', JStr (computed rec)),
              (''actual_hash'', JStr (stored rec))])))))"

definition read_manifest :: "seq_call \<Rightarrow> string \<Rightarrow> seq_store \<Rightarrow> failure + json" where
  "read_manifest c name s =
     bindR (refused (read_json (call_host c) (call_schema c) (sequence_path c name) (sq_files s) ''sequence.json''))
       (\<lambda>manifest. bindR (verify_sequence_manifest c manifest name) (\<lambda>_. Inr manifest))"

definition load_sequence_manifest :: "seq_call \<Rightarrow> string \<Rightarrow> seq_store \<Rightarrow> failure + json" where
  "load_sequence_manifest c name s =
     (if map_of (sq_files s) ''sequence.json'' = None
      then Inl (Refused (call_error c ''sequence_not_found'' ''sequence does not exist''
        [(''sequence_name'', JStr name)]))
      else read_manifest c name s)"

definition start_of :: "json \<Rightarrow> failure + u64" where
  "start_of manifest =
     ok_or (as_u64 (jidx manifest ''start_at'')) (Panicked ''called `Option::unwrap()` on a `None` value'')"

text \<open>The members of a claim that the chain does not determine.\<close>

definition same_member :: "string \<Rightarrow> json \<Rightarrow> json \<Rightarrow> bool" where
  "same_member k v w \<longleftrightarrow> rel_option json_eq (jget v k) (jget w k)"

definition member_text :: "json \<Rightarrow> string \<Rightarrow> string option" where
  "member_text v k = Option.bind (jget v k) as_str"

definition filled :: "string option \<Rightarrow> bool" where
  "filled x \<longleftrightarrow> x \<noteq> None \<and> x \<noteq> Some []"

definition valid_claim ::
    "sequences_feature \<Rightarrow> string \<Rightarrow> json \<Rightarrow> u64 \<Rightarrow> string option \<Rightarrow> string list \<Rightarrow> string list \<Rightarrow> json \<Rightarrow> bool" where
  "valid_claim q name manifest expected previous keys claim_ids claim \<longleftrightarrow>
     jget claim ''schema'' = Some (JStr (claim_schema_id q)) \<and>
     member_text claim ''sequence_name'' = Some name \<and>
     same_member ''sequence_id'' claim manifest \<and>
     Option.bind (jget claim ''value'') as_u64 = Some expected \<and>
     member_text claim (claim_chain_field q) = previous \<and>
     member_text claim ''request_digest'' \<noteq> None \<and>
     filled (member_text claim ''idempotency_key'') \<and>
     filled (member_text claim ''claim_id'') \<and>
     the (member_text claim ''idempotency_key'') \<notin> set keys \<and>
     the (member_text claim ''claim_id'') \<notin> set claim_ids"

definition claim_chain_invalid :: "seq_call \<Rightarrow> string \<Rightarrow> string \<Rightarrow> u64 \<Rightarrow> json" where
  "claim_chain_invalid c name file expected =
     call_error c ''sequence_claim_chain_invalid'' ''sequence claim chain is not contiguous and hash-valid''
       [(''sequence_name'', JStr name), (''path'', JStr (path_text (claims_path c name) file)),
        (''expected_value'', ju64 expected)]"

fun claims_loop ::
    "seq_call \<Rightarrow> string \<Rightarrow> json \<Rightarrow> dir \<Rightarrow> u64 \<Rightarrow> string option \<Rightarrow> string list \<Rightarrow> string list
      \<Rightarrow> string list \<Rightarrow> json + json list" where
  "claims_loop c name manifest d expected previous keys claim_ids [] = Inr []"
| "claims_loop c name manifest d expected previous keys claim_ids (file # files) =
     bindR (read_json (call_host c) (call_schema c) (claims_path c name) d file) (\<lambda>claim.
     bindR (recompute_hash (call_host c) (call_schema c) claim (claim_hash_field (seq_config c))) (\<lambda>r.
     case r of
       None \<Rightarrow>
         Inl (call_error c ''sequence_claim_invalid'' ''sequence claim lacks claim_hash''
           [(''path'', JStr (path_text (claims_path c name) file))])
     | Some rec \<Rightarrow>
         if \<not> valid_claim (seq_config c) name manifest expected previous keys claim_ids claim \<or>
            stored rec \<noteq> computed rec
         then Inl (claim_chain_invalid c name file expected)
         else if files = [] then Inr [claim]
         else case checked_suc expected of
           None \<Rightarrow>
             Inl (call_error c ''sequence_claim_chain_invalid'' ''claim exists after u64 exhaustion''
               [(''sequence_name'', JStr name)])
         | Some next_value \<Rightarrow>
             bindR (claims_loop c name manifest d next_value (Some (stored rec))
               (the (member_text claim ''idempotency_key'') # keys)
               (the (member_text claim ''claim_id'') # claim_ids) files) (\<lambda>claims.
             Inr (claim # claims))))"

definition json_files :: "dir \<Rightarrow> string list" where
  "json_files d = sort (filter (\<lambda>n. extension n = Some ''json'') (map fst d))"

definition verified_sequence_claims :: "seq_call \<Rightarrow> string \<Rightarrow> json \<Rightarrow> seq_store \<Rightarrow> failure + json list" where
  "verified_sequence_claims c name manifest s =
     (case sq_claims s of
        None \<Rightarrow> Inr []
      | Some d \<Rightarrow>
          (case read_claims_fault c of
             Some t \<Rightarrow> Inl (Refused (io_error (call_schema c) ''sequence_claim_store_read_failed'' t))
           | None \<Rightarrow>
               bindR (start_of manifest) (\<lambda>start.
               refused (claims_loop c name manifest d start None [] [] (json_files d)))))"

section \<open>Status and creation\<close>

definition last_claim :: "json list \<Rightarrow> json" where
  "last_claim claims = (if claims = [] then JNull else last claims)"

definition last_value_of :: "json list \<Rightarrow> u64 option" where
  "last_value_of claims = Option.bind (jget (last_claim claims) ''value'') as_u64"

definition next_value_of :: "u64 \<Rightarrow> json list \<Rightarrow> u64 option" where
  "next_value_of start claims =
     (case last_value_of claims of Some v \<Rightarrow> checked_suc v | None \<Rightarrow> Some start)"

definition status_reply :: "seq_call \<Rightarrow> string \<Rightarrow> string \<Rightarrow> json \<Rightarrow> u64 \<Rightarrow> json list \<Rightarrow> json" where
  "status_reply c name status manifest start claims =
     JObj [(''schema'', JStr (status_schema_id (seq_config c))), (''status'', JStr status),
       (''sequence_id'', jidx manifest ''sequence_id''), (''sequence_name'', JStr name),
       (''start_at'', ju64 start), (''step'', ju64 (sequence_step (seq_config c))),
       (''claim_count'', jnat (length claims)), (''last_claimed_value'', jopt_u64 (last_value_of claims)),
       (''next_value'', jopt_u64 (next_value_of start claims)),
       (''exhausted'', JBool (next_value_of start claims = None)),
       (''latest_claim'', last_claim claims), (''integrity_status'', JStr ''valid'')]"

definition sequence_status_value :: "seq_call \<Rightarrow> string \<Rightarrow> string \<Rightarrow> seq_store \<Rightarrow> failure + json" where
  "sequence_status_value c name status s =
     bindR (load_sequence_manifest c name s) (\<lambda>manifest.
     bindR (verified_sequence_claims c name manifest s) (\<lambda>claims.
     bindR (start_of manifest) (\<lambda>start.
     Inr (status_reply c name status manifest start claims))))"

definition identity_state_for_event :: "string \<Rightarrow> string \<Rightarrow> string \<Rightarrow> json" where
  "identity_state_for_event now actor operation =
     JObj [(''schema'', JStr ''narada.agent.identity_state.v1''),
       (''claimed_identity'', JObj [(''identity'', JStr actor), (''status'', JStr ''claimed''),
          (''source'', JStr ''ledger_actor''), (''asserted_at'', JStr now), (''evidence_refs'', JArr []),
          (''authority_granted'', JBool False)]),
       (''authentication'', JObj [(''status'', JStr ''missing''), (''authenticated_identity'', JNull),
          (''evidence_refs'', JArr [])]),
       (''authority'', JObj [(''status'', JStr ''not_evaluated''), (''operation'', JStr operation),
          (''granted'', JBool False), (''evidence_refs'', JArr [])])]"

definition new_manifest :: "seq_call \<Rightarrow> string \<Rightarrow> string \<Rightarrow> string \<Rightarrow> json \<Rightarrow> u64 \<Rightarrow> json \<Rightarrow> jmap" where
  "new_manifest c name i actor basis start key =
     [(''schema'', JStr (manifest_schema_id (seq_config c))), (''sequence_id'', JStr i),
      (''sequence_name'', JStr name), (''start_at'', ju64 start),
      (''step'', ju64 (sequence_step (seq_config c))), (''created_by'', JStr actor),
      (''identity_state'', identity_state_for_event (stamp c 0) actor ''ledger.sequence_create''),
      (''authority_basis'', basis), (''idempotency_key'', key), (''created_at'', JStr (stamp c 1))]"

definition manifest_file :: "seq_call \<Rightarrow> json \<Rightarrow> (seq_store, unit) steps" where
  "manifest_file c manifest =
     writeT sq_files (\<lambda>d s. s\<lparr>sq_files := d\<rparr>)
       (write_new_json (call_host c) (call_schema c) (manifest_write c) ''sequence.json'' manifest)"

definition make_claims :: "seq_call \<Rightarrow> (seq_store, unit) steps" where
  "make_claims c =
     stepT (call_schema c) ''sequence_claim_store_create_failed'' (make_claims_fault c)
       (\<lambda>s. if sq_claims s = None then s\<lparr>sq_claims := Some []\<rparr> else s)"

definition make_index :: "seq_call \<Rightarrow> (seq_store, unit) steps" where
  "make_index c =
     stepT (call_schema c) ''sequence_idempotency_store_create_failed'' (make_index_fault c)
       (\<lambda>s. if sq_index s = None then s\<lparr>sq_index := Some []\<rparr> else s)"

definition existing_sequence :: "seq_call \<Rightarrow> string \<Rightarrow> u64 \<Rightarrow> seq_store \<Rightarrow> failure + json" where
  "existing_sequence c name start s =
     bindR (read_manifest c name s) (\<lambda>manifest.
     bindR (refused (refuse_if (Option.bind (jget manifest ''start_at'') as_u64 \<noteq> Some start)
       (call_error c ''sequence_configuration_conflict'' ''sequence already exists with a different start_at''
         [(''sequence_name'', JStr name), (''existing_start_at'', jopt (jget manifest ''start_at'')),
          (''requested_start_at'', ju64 start)]))) (\<lambda>_.
     sequence_status_value c name ''already_exists'' s))"

definition create_sequence ::
    "seq_call \<Rightarrow> string \<Rightarrow> string \<Rightarrow> json \<Rightarrow> u64 \<Rightarrow> json \<Rightarrow> (seq_store, json) steps" where
  "create_sequence c name actor basis start key s =
     (if map_of (sq_files s) ''sequence.json'' \<noteq> None then askT (existing_sequence c name start) s
      else
        bindT (make_claims c) (\<lambda>_.
        bindT (make_index c) (\<lambda>_.
        bindT (tryT (generated_sequence_id (call_engine c) (call_host c) name)) (\<lambda>i.
        let manifest = new_manifest c name i actor basis start key in
        bindT (tryT (refused (digest_value (call_host c) (call_schema c) (JObj manifest)))) (\<lambda>hash.
        bindT (manifest_file c (JObj (obj_insert (manifest_hash_field (seq_config c)) (JStr hash) manifest))) (\<lambda>_.
        askT (sequence_status_value c name ''created'')))))) s)"

section \<open>Claims\<close>

definition find_sequence_claim_by_idempotency :: "json list \<Rightarrow> string \<Rightarrow> json option" where
  "find_sequence_claim_by_idempotency claims key =
     find (\<lambda>claim. member_text claim ''idempotency_key'' = Some key) claims"

definition index_entry :: "seq_call \<Rightarrow> string \<Rightarrow> json \<Rightarrow> json" where
  "index_entry c key claim =
     JObj [(''schema'', JStr (idempotency_schema_id (seq_config c))), (''idempotency_key'', JStr key),
       (''claim_id'', jidx claim ''claim_id''), (''value'', jidx claim ''value'')]"

definition index_dir :: "seq_store \<Rightarrow> dir" where
  "index_dir s = (case sq_index s of None \<Rightarrow> [] | Some d \<Rightarrow> d)"

definition claims_dir :: "seq_store \<Rightarrow> dir" where
  "claims_dir s = (case sq_claims s of None \<Rightarrow> [] | Some d \<Rightarrow> d)"

definition check_index :: "seq_call \<Rightarrow> string \<Rightarrow> string \<Rightarrow> json \<Rightarrow> seq_store \<Rightarrow> failure + unit" where
  "check_index c name key claim s =
     bindR (refused (read_json (call_host c) (call_schema c) (index_path c name) (index_dir s)
       (index_name (call_host c) key))) (\<lambda>existing.
     refused (refuse_if (\<not> same_member ''claim_id'' existing claim)
       (call_error c ''sequence_claim_idempotency_conflict'' ''idempotency index names a different claim''
         [(''sequence_name'', JStr name), (''idempotency_key'', JStr key),
          (''existing_claim_id'', jopt (jget existing ''claim_id'')),
          (''claim_id'', jopt (jget claim ''claim_id''))])))"

definition index_file :: "seq_call \<Rightarrow> string \<Rightarrow> json \<Rightarrow> (seq_store, unit) steps" where
  "index_file c key claim =
     writeT index_dir (\<lambda>d s. s\<lparr>sq_index := Some d\<rparr>)
       (write_new_json (call_host c) (call_schema c) (index_write c) (index_name (call_host c) key)
         (index_entry c key claim))"

definition recover_sequence_idempotency_index ::
    "seq_call \<Rightarrow> string \<Rightarrow> string \<Rightarrow> json \<Rightarrow> (seq_store, unit) steps" where
  "recover_sequence_idempotency_index c name key claim =
     bindT (make_index c) (\<lambda>_ s.
       if map_of (index_dir s) (index_name (call_host c) key) \<noteq> None
       then askT (check_index c name key claim) s
       else index_file c key claim s)"

definition sequence_claim_receipt :: "seq_call \<Rightarrow> json \<Rightarrow> bool \<Rightarrow> json" where
  "sequence_claim_receipt c claim replay =
     (let next_value = Option.bind (as_u64 (jidx claim ''value'')) checked_suc in
      JObj [(''schema'', JStr (claim_receipt_schema_id (seq_config c))),
        (''status'', JStr (if replay then ''idempotent_replay'' else ''claimed'')),
        (''idempotency_replay'', JBool replay), (''sequence_id'', jidx claim ''sequence_id''),
        (''sequence_name'', jidx claim ''sequence_name''), (''value'', jidx claim ''value''),
        (''claim_id'', jidx claim ''claim_id''), (''claimed_at'', jidx claim ''claimed_at''),
        (''next_value'', jopt_u64 next_value), (''exhausted'', JBool (next_value = None))])"

definition claim_value :: "seq_call \<Rightarrow> string \<Rightarrow> u64 \<Rightarrow> json list \<Rightarrow> json + u64" where
  "claim_value c name start claims =
     (case last_value_of claims of
        None \<Rightarrow> Inr start
      | Some previous \<Rightarrow>
          ok_or (checked_suc previous)
            (call_error c ''sequence_exhausted'' ''sequence has exhausted u64 values''
              [(''sequence_name'', JStr name), (''last_claimed_value'', ju64 previous)]))"

definition claim_previous :: "seq_call \<Rightarrow> json list \<Rightarrow> string option" where
  "claim_previous c claims =
     (if claims = [] then None else as_str (jidx (last claims) (claim_hash_field (seq_config c))))"

definition new_claim ::
    "seq_call \<Rightarrow> string \<Rightarrow> json \<Rightarrow> u64 \<Rightarrow> string \<Rightarrow> string option \<Rightarrow> string \<Rightarrow> json \<Rightarrow> string \<Rightarrow> string \<Rightarrow> jmap" where
  "new_claim c name manifest v i previous actor basis key request =
     obj_of
       [(''schema'', JStr (claim_schema_id (seq_config c))), (''sequence_id'', jidx manifest ''sequence_id''),
        (''sequence_name'', JStr name), (''value'', ju64 v), (''claim_id'', JStr i),
        (claim_chain_field (seq_config c), jopt_str previous), (''actor'', JStr actor),
        (''identity_state'', identity_state_for_event (stamp c 0) actor ''ledger.sequence_claim''),
        (''authority_basis'', basis), (''idempotency_key'', JStr key), (''request_digest'', JStr request),
        (''claimed_at'', JStr (stamp c 1))]"

definition claim_file :: "seq_call \<Rightarrow> u64 \<Rightarrow> json \<Rightarrow> (seq_store, unit) steps" where
  "claim_file c v claim =
     writeT claims_dir (\<lambda>d s. s\<lparr>sq_claims := Some d\<rparr>)
       (write_new_json (call_host c) (call_schema c) (claim_write c)
         (sequence_claim_file_name (call_engine c) v) claim)"

definition replay_claim ::
    "seq_call \<Rightarrow> string \<Rightarrow> string \<Rightarrow> string \<Rightarrow> json \<Rightarrow> (seq_store, json) steps" where
  "replay_claim c name key request claim =
     bindT (refuseT_if (member_text claim ''request_digest'' \<noteq> Some request)
       (call_error c ''sequence_claim_idempotency_conflict''
         ''idempotency key already names a different claim request''
         [(''sequence_name'', JStr name), (''idempotency_key'', JStr key),
          (''claim_id'', jidx claim ''claim_id'')])) (\<lambda>_.
     bindT (recover_sequence_idempotency_index c name key claim) (\<lambda>_.
     doneT (sequence_claim_receipt c claim True)))"

definition fresh_claim ::
    "seq_call \<Rightarrow> string \<Rightarrow> json \<Rightarrow> string \<Rightarrow> json \<Rightarrow> string \<Rightarrow> string \<Rightarrow> json list \<Rightarrow> (seq_store, json) steps" where
  "fresh_claim c name manifest actor basis key request claims =
     bindT (tryT (start_of manifest)) (\<lambda>start.
     bindT (tryT (refused (claim_value c name start claims))) (\<lambda>v.
     bindT (tryT (generated_claim_id (call_engine c) (call_host c) name key)) (\<lambda>i.
     let claim = new_claim c name manifest v i (claim_previous c claims) actor basis key request in
     bindT (tryT (refused (digest_value (call_host c) (call_schema c) (JObj claim)))) (\<lambda>hash.
     let claim = JObj (obj_insert (claim_hash_field (seq_config c)) (JStr hash) claim) in
     bindT (claim_file c v claim) (\<lambda>_.
     bindT (recover_sequence_idempotency_index c name key claim) (\<lambda>_.
     doneT (sequence_claim_receipt c claim False)))))))"

definition claim_next :: "seq_call \<Rightarrow> string \<Rightarrow> string \<Rightarrow> json \<Rightarrow> string \<Rightarrow> string \<Rightarrow> (seq_store, json) steps" where
  "claim_next c name actor basis key request =
     bindT (askT (load_sequence_manifest c name)) (\<lambda>manifest.
     bindT (askT (verified_sequence_claims c name manifest)) (\<lambda>claims.
     case find_sequence_claim_by_idempotency claims key of
       Some claim \<Rightarrow> replay_claim c name key request claim
     | None \<Rightarrow> fresh_claim c name manifest actor basis key request claims))"

section \<open>The tools\<close>

definition store_of :: "sequences \<Rightarrow> string \<Rightarrow> seq_store" where
  "store_of d key = (case map_of d key of None \<Rightarrow> empty_sequence | Some s \<Rightarrow> s)"

definition on_sequence :: "string \<Rightarrow> (seq_store, 'a) steps \<Rightarrow> (sequences, 'a) steps" where
  "on_sequence key m d =
     (let (states, r) = m (store_of d key) in (map (\<lambda>s. AList.update key s d) states, r))"

definition with_sequence_lock :: "seq_call \<Rightarrow> string \<Rightarrow> (seq_store, 'a) steps \<Rightarrow> (sequences, 'a) steps" where
  "with_sequence_lock c name action =
     locked (call_schema c) (''sequence-'' @ sha256 (call_host c) name) (call_lock c)
       (on_sequence (sha256 (call_host c) name) action)"

definition sequence_create :: "seq_call \<Rightarrow> jmap \<Rightarrow> (sequences, json) steps" where
  "sequence_create c args =
     bindT (tryT (prepare_site c)) (\<lambda>_.
     bindT (tryT (refused (validated_sequence_name (call_engine c) args))) (\<lambda>name.
     bindT (tryT (refused (required (call_schema c) args ''actor''))) (\<lambda>actor.
     bindT (tryT (refused (authority_basis_of c args))) (\<lambda>basis.
     bindT (tryT (refused (optional_u64 (call_schema c) args ''start_at'' 1))) (\<lambda>start.
     bindT (refuseT_if (start < start_at_min (seq_config c))
       (call_error c ''sequence_start_invalid'' ''sequence start_at must be at least 1''
         [(''start_at'', ju64 start)])) (\<lambda>_.
     with_sequence_lock c name
       (create_sequence c name actor basis start (jopt (obj_get args ''idempotency_key'')))))))))"

definition sequence_status :: "seq_call \<Rightarrow> jmap \<Rightarrow> (sequences, json) steps" where
  "sequence_status c args =
     bindT (tryT (refused (validated_sequence_name (call_engine c) args))) (\<lambda>name.
     with_sequence_lock c name (askT (sequence_status_value c name ''ready'')))"

definition request_digest_of :: "seq_call \<Rightarrow> string \<Rightarrow> string \<Rightarrow> json \<Rightarrow> failure + string" where
  "request_digest_of c name actor basis =
     refused (digest_value (call_host c) (call_schema c)
       (JObj [(''sequence_name'', JStr name), (''actor'', JStr actor), (''authority_basis'', basis)]))"

definition sequence_claim_next :: "seq_call \<Rightarrow> jmap \<Rightarrow> (sequences, json) steps" where
  "sequence_claim_next c args =
     bindT (tryT (prepare_site c)) (\<lambda>_.
     bindT (tryT (refused (validated_sequence_name (call_engine c) args))) (\<lambda>name.
     bindT (tryT (refused (required (call_schema c) args ''actor''))) (\<lambda>actor.
     bindT (tryT (refused (authority_basis_of c args))) (\<lambda>basis.
     bindT (tryT (refused (required (call_schema c) args ''idempotency_key''))) (\<lambda>key.
     bindT (tryT (request_digest_of c name actor basis)) (\<lambda>request.
     with_sequence_lock c name (claim_next c name actor basis key request)))))))"

definition paged :: "jmap \<Rightarrow> string \<Rightarrow> json list \<Rightarrow> nat \<Rightarrow> nat \<Rightarrow> json" where
  "paged head field items offset limit =
     (let page = take limit (drop offset items) in
      JObj (head @ [(field, JArr page), (''offset'', jnat offset), (''limit'', jnat limit),
        (''count'', jnat (length page)), (''total'', jnat (length items)),
        (''has_more'', JBool (offset + length page < length items))]))"

definition sequence_claims :: "seq_call \<Rightarrow> jmap \<Rightarrow> (sequences, json) steps" where
  "sequence_claims c args =
     bindT (tryT (refused (validated_sequence_name (call_engine c) args))) (\<lambda>name.
     bindT (tryT (refused (page_limit (call_schema c) args))) (\<lambda>limit.
     bindT (tryT (refused (page_offset (call_schema c) args))) (\<lambda>offset.
     with_sequence_lock c name
       (bindT (askT (load_sequence_manifest c name)) (\<lambda>manifest.
        bindT (askT (verified_sequence_claims c name manifest)) (\<lambda>claims.
        doneT (paged [(''schema'', JStr (claims_schema_id (seq_config c))), (''sequence_name'', JStr name)]
          ''claims'' claims offset limit)))))))"

text \<open>One entry of the directory of sequences. Its claims are looked up by the name in its manifest.\<close>

definition listed_sequence :: "seq_call \<Rightarrow> string \<Rightarrow> sequences \<Rightarrow> failure + json" where
  "listed_sequence c entry d =
     (let directory = path_text (sequences_directory (call_engine c) (call_site c)) entry in
      bindR (refused (read_json (call_host c) (call_schema c) directory (sq_files (store_of d entry))
        ''sequence.json'')) (\<lambda>manifest.
      bindR (refused (ok_or (member_text manifest ''sequence_name'')
        (call_error c ''sequence_manifest_invalid'' ''sequence manifest lacks sequence_name''
          [(''path'', JStr (path_text directory ''sequence.json''))]))) (\<lambda>name.
      bindR (verify_sequence_manifest c manifest name) (\<lambda>_.
      bindR (verified_sequence_claims c name manifest (store_of d (sha256 (call_host c) name))) (\<lambda>claims.
      Inr (JObj [(''sequence_id'', jidx manifest ''sequence_id''), (''sequence_name'', JStr name),
        (''start_at'', jidx manifest ''start_at''), (''claim_count'', jnat (length claims)),
        (''last_claimed_value'', jopt (jget (last_claim claims) ''value'')),
        (''created_at'', jidx manifest ''created_at'')]))))))"

definition sequence_list :: "seq_call \<Rightarrow> jmap \<Rightarrow> (sequences, json) steps" where
  "sequence_list c args =
     bindT (tryT (refused (page_limit (call_schema c) args))) (\<lambda>limit.
     bindT (tryT (refused (page_offset (call_schema c) args))) (\<lambda>offset.
     bindT (askT (\<lambda>d.
       case (d, read_sequences_fault c) of
         (_ # _, Some t) \<Rightarrow> Inl (Refused (io_error (call_schema c) ''sequence_store_read_failed'' t))
       | _ \<Rightarrow> Inr (map fst (filter (\<lambda>(_, s). map_of (sq_files s) ''sequence.json'' \<noteq> None) d)))) (\<lambda>entries.
     bindT (mapT (\<lambda>entry. locked (call_schema c) (''sequence-'' @ entry) (call_lock c)
       (askT (listed_sequence c entry))) entries) (\<lambda>items.
     doneT (paged [(''schema'', JStr (list_schema_id (seq_config c)))] ''items''
       (sort_key (\<lambda>item. case member_text item ''sequence_name'' of None \<Rightarrow> [] | Some n \<Rightarrow> n) items)
       offset limit)))))"

end
