(* ===== verification/Domain_Claims.thy ===== *)
theory Domain_Claims
  imports Domain_Sequences
begin

text \<open>
  What the files of a sequence hold. \<open>claim_chain\<close> is the specification that the verification of
  claims decides; \<open>seq_rows\<close> relates a store to its manifest and its list of claims, with contiguous
  values and different keys.
\<close>

definition claim_key :: "json \<Rightarrow> string" where
  "claim_key x = the (member_text x ''idempotency_key'')"

definition claim_ident :: "json \<Rightarrow> string" where
  "claim_ident x = the (member_text x ''claim_id'')"

definition claim_num :: "json \<Rightarrow> u64" where
  "claim_num x = the (Option.bind (jget x ''value'') as_u64)"

section \<open>Chains of claims\<close>

definition claim_ok ::
    "host \<Rightarrow> sequences_feature \<Rightarrow> string \<Rightarrow> json \<Rightarrow> u64 \<Rightarrow> string option \<Rightarrow> string list \<Rightarrow> string list \<Rightarrow> json \<Rightarrow> bool" where
  "claim_ok h q name manifest expected previous keys claim_ids x \<longleftrightarrow>
     valid_claim q name manifest expected previous keys claim_ids x \<and>
     stored_hash (claim_hash_field q) x \<noteq> None \<and>
     host_digest h (unhash (claim_hash_field q) x) = stored_hash (claim_hash_field q) x"

fun claim_chain ::
    "host \<Rightarrow> sequences_feature \<Rightarrow> string \<Rightarrow> json \<Rightarrow> u64 \<Rightarrow> string option \<Rightarrow> string list \<Rightarrow> string list \<Rightarrow> json list \<Rightarrow> bool" where
  "claim_chain h q name manifest expected previous keys claim_ids [] \<longleftrightarrow> True"
| "claim_chain h q name manifest expected previous keys claim_ids (x # xs) \<longleftrightarrow>
     claim_ok h q name manifest expected previous keys claim_ids x \<and>
     (xs \<noteq> [] \<longrightarrow> expected \<noteq> - 1 \<and>
        claim_chain h q name manifest (expected + 1) (stored_hash (claim_hash_field q) x)
          (claim_key x # keys) (claim_ident x # claim_ids) xs)"

lemma mapR_Nil_iff: "mapR f xs = Inr [] \<longleftrightarrow> xs = []"
  by (cases xs) (auto simp: bindR_Inr_iff)

lemma claims_loop_Inr:
  "claims_loop c name manifest d expected previous keys claim_ids files = Inr cs \<longleftrightarrow>
     mapR (read_json (call_host c) (call_schema c) (claims_path c name) d) files = Inr cs \<and>
     claim_chain (call_host c) (seq_config c) name manifest expected previous keys claim_ids cs"
proof (induction files arbitrary: expected previous keys claim_ids cs)
  case Nil
  then show ?case by auto
next
  case (Cons fname files)
  let ?h = "call_host c" and ?q = "seq_config c" and ?sch = "call_schema c"
  let ?read = "read_json ?h ?sch (claims_path c name) d"
  show ?case
  proof (cases "?read fname")
    case (Inl e)
    then show ?thesis by simp
  next
    case (Inr x)
    let ?tail = "\<lambda>r. if files = [] then Inr [x] else case checked_suc expected of
        None \<Rightarrow> Inl (call_error c ''sequence_claim_chain_invalid'' ''claim exists after u64 exhaustion''
          [(''sequence_name'', JStr name)])
      | Some v \<Rightarrow> bindR (claims_loop c name manifest d v (Some (stored r))
          (claim_key x # keys) (claim_ident x # claim_ids) files) (\<lambda>claims. Inr (x # claims))"
    have ok: "claim_ok ?h ?q name manifest expected previous keys claim_ids x \<longleftrightarrow>
        (\<exists>r. recompute_hash ?h ?sch x (claim_hash_field ?q) = Inr (Some r) \<and> stored r = computed r \<and>
          valid_claim ?q name manifest expected previous keys claim_ids x)"
      unfolding claim_ok_def recompute_hash_Some
      by (auto simp: host_digest_Some [of _ _ _ ?sch] intro: exI [of _ "\<lparr>stored = _, computed = _\<rparr>"])
    have loop: "claims_loop c name manifest d expected previous keys claim_ids (fname # files) = Inr cs \<longleftrightarrow>
        (\<exists>r. recompute_hash ?h ?sch x (claim_hash_field ?q) = Inr (Some r) \<and> stored r = computed r \<and>
          valid_claim ?q name manifest expected previous keys claim_ids x \<and> ?tail r = Inr cs)"
    proof (cases "recompute_hash ?h ?sch x (claim_hash_field ?q)")
      case (Inl e)
      with \<open>?read fname = Inr x\<close> show ?thesis by simp
    next
      case hash: (Inr ro)
      show ?thesis
      proof (cases ro)
        case None
        with hash \<open>?read fname = Inr x\<close> show ?thesis by simp
      next
        case (Some r)
        show ?thesis
        proof (cases "valid_claim ?q name manifest expected previous keys claim_ids x \<and> stored r = computed r")
          case True
          with Some hash \<open>?read fname = Inr x\<close> show ?thesis
            by (cases "checked_suc expected") (simp_all add: claim_key_def claim_ident_def)
        next
          case False
          with Some hash \<open>?read fname = Inr x\<close> show ?thesis by auto
        qed
      qed
    qed
    have stored: "recompute_hash ?h ?sch x (claim_hash_field ?q) = Inr (Some r) \<Longrightarrow>
        stored_hash (claim_hash_field ?q) x = Some (stored r)" for r
      by (simp add: recompute_hash_Some)
    show ?thesis
    proof (cases "files = []")
      case True
      with loop ok Inr show ?thesis by (auto simp: bindR_Inr_iff)
    next
      case False
      have "?tail r = Inr cs \<longleftrightarrow> expected \<noteq> - 1 \<and> (\<exists>xs. cs = x # xs \<and> mapR ?read files = Inr xs \<and>
          claim_chain ?h ?q name manifest (expected + 1) (Some (stored r))
            (claim_key x # keys) (claim_ident x # claim_ids) xs)" for r
        using False by (auto simp: checked_suc_def bindR_Inr_iff Cons.IH)
      with loop ok stored False Inr show ?thesis
        by (cases cs) (auto simp: bindR_Inr_iff mapR_Nil_iff)
    qed
  qed
qed

lemma claim_chain_snoc:
  "claim_chain h q name m e p K I (xs @ [x]) \<longleftrightarrow>
     claim_chain h q name m e p K I xs \<and>
     claim_ok h q name m (e + of_nat (length xs))
       (if xs = [] then p else stored_hash (claim_hash_field q) (last xs))
       (rev (map claim_key xs) @ K) (rev (map claim_ident xs) @ I) x \<and>
     (xs \<noteq> [] \<longrightarrow> e + of_nat (length xs) \<noteq> 0)"
proof (induction xs arbitrary: e p K I)
  case (Cons y ys)
  have "e = - 1 \<longleftrightarrow> e + 1 = 0" by (metis add_eq_0_iff2)
  then show ?case
    by (cases "ys = []") (auto simp: Cons.IH algebra_simps)
qed simp

lemma claim_chain_each:
  assumes "claim_chain h q name m e p K I xs" "x \<in> set xs"
  shows "\<exists>e p K I. claim_ok h q name m e p K I x"
  using assms by (induction xs arbitrary: e p K I) auto

section \<open>The rows of a sequence\<close>

text \<open>What holds of the claims whether or not they verify: contiguous values and different keys.\<close>

definition claim_rows :: "u64 \<Rightarrow> json list \<Rightarrow> bool" where
  "claim_rows start cs \<longleftrightarrow>
     (\<forall>i < length cs. Option.bind (jget (cs ! i) ''value'') as_u64 = Some (start + of_nat i)) \<and>
     (\<forall>x \<in> set cs. member_text x ''idempotency_key'' \<noteq> None) \<and>
     distinct (map claim_key cs) \<and> (cs \<noteq> [] \<longrightarrow> unat start + length cs \<le> 2 ^ 64)"

lemma claim_rows_Nil [simp]: "claim_rows start []"
  by (simp add: claim_rows_def)

lemma claim_rows_snoc:
  assumes "claim_rows start cs" "Option.bind (jget x ''value'') as_u64 = Some (start + of_nat (length cs))"
    and "member_text x ''idempotency_key'' = Some k" "k \<notin> claim_key ` set cs"
    and "unat start + length cs < 2 ^ 64"
  shows "claim_rows start (cs @ [x])"
  using assms by (auto simp: claim_rows_def nth_append claim_key_def less_Suc_eq simp del: bind_eq_Some_conv)

lemma claim_rows_values:
  assumes "claim_rows start cs"
  shows "map claim_num cs = map (\<lambda>i. start + of_nat i) [0..<length cs]"
  using assms by (intro nth_equalityI) (simp_all add: claim_rows_def claim_num_def del: bind_eq_Some_conv)

lemma claim_rows_last:
  assumes "claim_rows start cs" "cs \<noteq> []"
  shows "last_value_of cs = Some (start + of_nat (length cs - 1))"
  using assms
  by (simp add: claim_rows_def last_value_of_def last_claim_def last_conv_nth del: bind_eq_Some_conv of_nat_diff)

lemma unat_add_less:
  assumes "unat (start :: u64) + n < 2 ^ 64"
  shows "unat (start + of_nat n) = unat start + n"
proof -
  have n: "unat (of_nat n :: u64) = n"
    using assms by (simp add: unat_of_nat mod_less)
  with assms have "unat start + unat (of_nat n :: u64) < 2 ^ LENGTH(64)" by simp
  then have "unat (start + of_nat n) = unat start + unat (of_nat n :: u64)"
    by (rule unat_add_lem [THEN iffD1])
  with n show ?thesis by metis
qed

lemma unat_max: "unat (w :: u64) = 2 ^ 64 - 1 \<longleftrightarrow> w = - 1"
  by (simp add: word_unat_eq_iff unsigned_minus_1_eq_mask mask_eq_exp_minus_1)

text \<open>The value after the last one, if there is one.\<close>

lemma claim_rows_next:
  assumes "claim_rows start cs" "claim_value c name start cs = Inr v"
  shows "v = start + of_nat (length cs) \<and> unat start + length cs < 2 ^ 64"
proof (cases "cs = []")
  case True
  with assms(2) unsigned_less [of start] show ?thesis
    by (simp add: claim_value_def last_value_of_def last_claim_def jget_def)
next
  case False
  let ?last = "start + of_nat (length cs - 1)"
  have bound: "unat start + (length cs - 1) < 2 ^ 64"
    using assms(1) False by (cases cs) (auto simp: claim_rows_def)
  from assms(2) have v: "v = ?last + 1" and max: "?last \<noteq> - 1"
    by (auto simp: claim_value_def claim_rows_last [OF assms(1) False] checked_suc_def split: if_splits)
  have "Suc (length cs - 1) = length cs" using False by simp
  then have "of_nat (length cs) = (of_nat (length cs - 1) + 1 :: u64)" by (metis of_nat_Suc add.commute)
  with v have "v = start + of_nat (length cs)" by (simp only: add.assoc)
  moreover have "unat ?last \<noteq> 2 ^ 64 - 1" using max unfolding unat_max .
  then have "unat start + (length cs - 1) < 2 ^ 64 - 1"
    using unat_add_less [OF bound] bound by linarith
  with False have "unat start + length cs < 2 ^ 64" by (cases cs) auto
  ultimately show ?thesis by blast
qed

lemma claim_rows_distinct:
  assumes "claim_rows start cs"
  shows "distinct (map claim_num cs)"
proof -
  have "inj_on (\<lambda>i. start + of_nat i) {0..<length cs}"
  proof (rule inj_onI)
    fix i j assume ij: "i \<in> {0..<length cs}" "j \<in> {0..<length cs}"
      and eq: "start + of_nat i = start + of_nat j"
    then have "cs \<noteq> []" by auto
    then have "unat start + length cs \<le> 2 ^ 64" using assms by (simp add: claim_rows_def)
    with ij have "unat start + i < 2 ^ 64" "unat start + j < 2 ^ 64"
      by (meson atLeastLessThan_iff add_le_cancel_left less_le_trans nat_add_left_cancel_less)+
    then have "unat (start + of_nat i) = unat start + i" "unat (start + of_nat j) = unat start + j"
      by (simp_all only: unat_add_less)
    with eq show "i = j" by (metis add_left_cancel)
  qed
  then show ?thesis by (simp add: claim_rows_values [OF assms] distinct_map)
qed

text \<open>Among the claims of a sequence the value determines the key and the key the value.\<close>

lemma claim_rows_same:
  assumes "claim_rows start cs" "x \<in> set cs" "y \<in> set cs"
  shows "claim_num x = claim_num y \<longleftrightarrow> claim_key x = claim_key y"
proof -
  have "inj_on claim_num (set cs)" "inj_on claim_key (set cs)"
    using claim_rows_distinct [OF assms(1)] assms(1) by (simp_all add: distinct_map claim_rows_def)
  with assms(2,3) show ?thesis by (metis inj_onD)
qed

section \<open>The stores\<close>

definition manifest_start :: "json \<Rightarrow> u64" where
  "manifest_start m = the (as_u64 (jidx m ''start_at''))"

interpretation json_dir: record_store json_files map_of wf_dir "\<lambda>n. extension n = Some ''json''"
proof unfold_locales
  fix d :: dir
  assume "wf_dir d"
  then show "sorted (json_files d) \<and> distinct (json_files d)"
    by (simp add: json_files_def wf_dir_def)
next
  fix d :: dir and k
  show "k \<in> set (json_files d) \<longleftrightarrow> extension k = Some ''json'' \<and> map_of d k \<noteq> None"
    by (auto simp: json_files_def map_of_eq_None_iff)
qed

definition claim_names :: "seq_call \<Rightarrow> u64 \<Rightarrow> nat \<Rightarrow> string list" where
  "claim_names c start n = map (\<lambda>i. sequence_claim_file_name (call_engine c) (start + of_nat i)) [0..<n]"

lemma claim_names_Nil [simp]: "claim_names c v n = [] \<longleftrightarrow> n = 0" "[] = claim_names c v n \<longleftrightarrow> n = 0"
  by (auto simp: claim_names_def)

definition seq_rows :: "seq_call \<Rightarrow> string \<Rightarrow> seq_store \<Rightarrow> json \<Rightarrow> json list \<Rightarrow> bool" where
  "seq_rows c name s m cs \<longleftrightarrow>
     map_of (sq_files s) ''sequence.json'' = Some (JsonFile m) \<and>
     verify_sequence_manifest c m name = Inr () \<and> wf_dir (claims_dir s) \<and>
     json_files (claims_dir s) = claim_names c (manifest_start m) (length cs) \<and>
     map (map_of (claims_dir s)) (claim_names c (manifest_start m) (length cs)) = map (Some \<circ> JsonFile) cs \<and>
     claim_rows (manifest_start m) cs"

definition unmade :: "seq_store \<Rightarrow> bool" where
  "unmade s \<longleftrightarrow> map_of (sq_files s) ''sequence.json'' = None \<and> wf_dir (claims_dir s) \<and>
     json_files (claims_dir s) = []"

lemma json_files_Nil [simp]: "json_files [] = []"
  by (simp add: json_files_def)

lemma empty_sequence_dirs [simp]:
  "claims_dir empty_sequence = []" "index_dir empty_sequence = []" "sq_files empty_sequence = []"
  by (simp_all add: empty_sequence_def claims_dir_def index_dir_def)

lemma manifest_start_of:
  assumes "verify_sequence_manifest c m n = Inr u"
  shows "start_of m = Inr (manifest_start m)" "start_at_min (seq_config c) \<le> manifest_start m"
  using assms
  by (auto simp: verify_sequence_manifest_def bindR_Inr_iff refuse_if_def valid_manifest_def start_of_def
      manifest_start_def as_u64_jidx simp del: bind_eq_Some_conv split: if_splits option.splits)

lemma seq_rows_load:
  assumes "seq_rows c n s m cs"
  shows "load_sequence_manifest c n s = Inr m"
  using assms by (simp add: seq_rows_def load_sequence_manifest_def read_manifest_def read_json_def)

lemma load_manifest_name:
  assumes "load_sequence_manifest c n s = Inr m"
  shows "map_of (sq_files s) ''sequence.json'' = Some (JsonFile m)" "verify_sequence_manifest c m n = Inr ()"
  using assms
  by (auto simp: load_sequence_manifest_def read_manifest_def bindR_Inr_iff read_json_Inr split: if_splits)

lemma verified_manifest_name:
  assumes "verify_sequence_manifest c m n = Inr u" "verify_sequence_manifest c m n' = Inr u'"
  shows "n = n'"
  using assms
  by (auto simp: verify_sequence_manifest_def bindR_Inr_iff refuse_if_def valid_manifest_def split: if_splits)

lemma seq_rows_read:
  assumes "seq_rows c n s m cs"
  shows "mapR (read_json h sch p (claims_dir s)) (json_files (claims_dir s)) = Inr cs"
  using assms by (intro mapR_read) (simp add: seq_rows_def)

text \<open>What the verification returns, when it returns, are the rows.\<close>

lemma seq_rows_claims:
  assumes "seq_rows c n s m cs" "verified_sequence_claims c n m s = Inr cs'"
  shows "cs' = cs"
proof (cases "sq_claims s")
  case None
  then have "json_files (claims_dir s) = []" by (simp add: claims_dir_def)
  with assms None show ?thesis
    by (simp add: seq_rows_def verified_sequence_claims_def)
next
  case (Some d)
  then have d: "claims_dir s = d" by (simp add: claims_dir_def)
  with assms(2) Some seq_rows_read [OF assms(1)] show ?thesis
    by (auto simp: verified_sequence_claims_def bindR_Inr_iff claims_loop_Inr split: option.splits)
qed

lemma seq_rows_verifies:
  assumes "seq_rows c n s m cs" "read_claims_fault c = None"
    and "claim_chain (call_host c) (seq_config c) n m (manifest_start m) None [] [] cs"
  shows "verified_sequence_claims c n m s = Inr cs"
proof (cases "sq_claims s")
  case None
  then have "json_files (claims_dir s) = []" by (simp add: claims_dir_def)
  with assms None show ?thesis
    by (simp add: seq_rows_def verified_sequence_claims_def)
next
  case (Some d)
  then have d: "claims_dir s = d" by (simp add: claims_dir_def)
  then have "claims_loop c n m d (manifest_start m) None [] [] (json_files d) = Inr cs"
    using assms(3) seq_rows_read [OF assms(1)] unfolding claims_loop_Inr by simp
  with assms Some show ?thesis
    using manifest_start_of(1) [of c m n] by (simp add: verified_sequence_claims_def seq_rows_def)
qed

text \<open>A store determines its manifest and its claims.\<close>

lemma seq_rows_unique:
  assumes "seq_rows c n s m cs" "seq_rows c n' s m' cs'"
  shows "n' = n \<and> m' = m \<and> cs' = cs"
proof -
  from assms have m: "m' = m" by (simp add: seq_rows_def)
  with assms have n: "n' = n" by (auto simp: seq_rows_def dest: verified_manifest_name)
  have "cs' = cs"
    using seq_rows_read [OF assms(1)] seq_rows_read [OF assms(2)] by (metis sum.inject(2))
  with m n show ?thesis by blast
qed

end
