(* ===== verification/Domain_Sequence_Contract.thy ===== *)
theory Domain_Sequence_Contract
  imports Domain_Claims
begin

text \<open>
  What the sequences promise: through any interleaving of creations and claims, interrupted at any
  step of the file system, the claims of a sequence keep their values, a number belongs to one
  idempotency key and a key to one number; and as long as no two keys share a claim id, the claims on
  disk verify and are the values from the start on without a gap.
\<close>

section \<open>File names of claims\<close>

lemma pad_to_digits: "\<forall>ch \<in> set (pad_to w n). is_digit ch"
  using show_nat_digits by (auto simp: pad_to_def Let_def)

lemma length_pad_to: "n < 10 ^ Suc w \<Longrightarrow> length (pad_to (Suc w) n) = Suc w"
  using length_show_nat [of n w] by (simp add: pad_to_def Let_def)

lemma pad_to_less:
  assumes "m < n" "n < 10 ^ w"
  shows "pad_to w m @ x < pad_to w n @ y"
proof (rule less_append)
  obtain w' where w: "w = Suc w'" using assms by (cases w) auto
  have "m < 10 ^ w" using assms by simp
  then have "length (pad_to w m) = w" "length (pad_to w n) = w"
    using assms(2) unfolding w by (simp_all only: length_pad_to)
  then show len: "length (pad_to w m) = length (pad_to w n)" by simp
  have "dec_val (pad_to w k) = k" for k by (simp add: pad_to_def Let_def dec_val_append)
  then show "pad_to w m < pad_to w n"
    using assms(1) len by (simp add: dec_val_less_iff pad_to_digits)
qed

text \<open>What the contract asks of a descriptor: numbers wide enough for any value, and hash fields that
  are no other member of the record.\<close>

definition claim_members :: "string list" where
  "claim_members = [''schema'', ''sequence_id'', ''sequence_name'', ''value'', ''claim_id'', ''actor'',
     ''identity_state'', ''authority_basis'', ''idempotency_key'', ''request_digest'', ''claimed_at'']"

definition manifest_members :: "string list" where
  "manifest_members = [''schema'', ''sequence_id'', ''sequence_name'', ''start_at'', ''step'', ''created_by'',
     ''identity_state'', ''authority_basis'', ''idempotency_key'', ''created_at'']"

definition wide_names :: "string \<Rightarrow> bool" where
  "wide_names pattern \<longleftrightarrow>
     (case claim_name_parts pattern of (_, width, suffix) \<Rightarrow> 20 \<le> width \<and> suffix = ''.json'')"

definition sequences_ok :: "engine \<Rightarrow> bool" where
  "sequences_ok e \<longleftrightarrow>
     (let q = sequences_config (domain e) in
      wide_names (claim_file_pattern q) \<and> claim_chain_field q \<notin> set claim_members \<and>
      claim_hash_field q \<notin> set (claim_chain_field q # claim_members) \<and>
      manifest_hash_field q \<notin> set manifest_members \<and>
      template_prefix (claim_id_template (generated (ids (domain e)))) \<noteq> [])"

abbreviation claim_name :: "seq_call \<Rightarrow> u64 \<Rightarrow> string" where
  "claim_name c v \<equiv> sequence_claim_file_name (call_engine c) v"

lemma claim_name_cases:
  assumes "sequences_ok (call_engine c)"
  obtains b w where "20 \<le> w" "\<And>v. claim_name c v = b @ pad_to w (unat v) @ ''.json''"
proof -
  obtain b w s where parts: "claim_name_parts (claim_file_pattern (seq_config c)) = (b, w, s)"
    by (cases "claim_name_parts (claim_file_pattern (seq_config c))")
  with assms have "20 \<le> w" "s = ''.json''" by (simp_all add: sequences_ok_def wide_names_def Let_def)
  with parts show ?thesis by (intro that [of w b]) (simp_all add: sequence_claim_file_name_def)
qed

lemma claim_name_json:
  assumes "sequences_ok (call_engine c)"
  shows "extension (claim_name c v) = Some ''json''" "claim_name c v \<noteq> []"
proof -
  obtain b w where w: "20 \<le> w" and n: "claim_name c v = (b @ pad_to w (unat v)) @ CHR ''.'' # ''json''"
    using claim_name_cases [OF assms] by (metis append.assoc append_Cons append_Nil)
  have "b @ pad_to w (unat v) \<noteq> []" using w by (auto simp: pad_to_def Let_def)
  then have "split_ext ((b @ pad_to w (unat v)) @ CHR ''.'' # ''json'') = Some (b @ pad_to w (unat v), ''json'')"
    by (rule split_ext_dot) simp
  then show "extension (claim_name c v) = Some ''json''" by (simp only: extension_def n option.map snd_conv)
  show "claim_name c v \<noteq> []" using n by simp
qed

lemma claim_name_less:
  assumes "sequences_ok (call_engine c)" "v < v'"
  shows "claim_name c v < claim_name c v'"
proof -
  obtain b w where w: "20 \<le> w" and n: "\<And>v. claim_name c v = b @ pad_to w (unat v) @ ''.json''"
    using claim_name_cases [OF assms(1)] by blast
  have "unat v' < 2 ^ 64" using unsigned_less [of v'] by simp
  also have "(2 :: nat) ^ 64 < 10 ^ 20" by simp
  also have "(10 :: nat) ^ 20 \<le> 10 ^ w" using w by (intro power_increasing) simp_all
  finally have "unat v' < 10 ^ w" .
  moreover have "unat v < unat v'" using assms(2) by (simp add: word_less_nat_alt)
  ultimately show ?thesis by (simp add: n pad_to_less)
qed

lemma claim_names_less:
  assumes "sequences_ok (call_engine c)" "k \<in> set (claim_names c start n)" "unat start + n < 2 ^ 64"
  shows "k < claim_name c (start + of_nat n)"
proof -
  obtain i where i: "i < n" "k = claim_name c (start + of_nat i)"
    using assms(2) by (auto simp: claim_names_def)
  then have "unat (start + of_nat i) < unat (start + of_nat n)"
    using assms(3) by (simp add: unat_add_less)
  with i(2) show ?thesis using claim_name_less [OF assms(1)] by (simp add: word_less_nat_alt)
qed

section \<open>Writing one file\<close>

lemma writeT_last:
  assumes "dirs \<noteq> []"
  shows "final_state (map (\<lambda>d. put d s) (tl dirs)) s = (if tl dirs = [] then s else put (last dirs) s)"
  using assms by (cases dirs) (auto simp: final_state_def last_map)

lemma write_new_json_first: "hd (fst (write_new_json h sch e name v d)) = d"
  by (simp add: write_new_json_def write_new_first split: option.split)

lemma write_new_json_fresh:
  assumes "snd (write_new_json h sch e name v d) = Inr u" "name \<noteq> pending_name e name"
  shows "map_of d name = None"
  using assms write_new_Inr [of h sch e name "JsonFile v" d]
  by (auto simp: write_new_json_def split: option.splits)

lemma spec_write_json:
  assumes name: "name \<noteq> pending_name e name"
    and kept: "\<And>s d. P s \<Longrightarrow> (wf_dir (get s) \<longrightarrow> wf_dir d) \<Longrightarrow>
      (\<forall>n. n \<noteq> pending_name e name \<longrightarrow> map_of d n = map_of (get s) n) \<Longrightarrow> I (put d s)"
    and new: "\<And>s d. P s \<Longrightarrow> (wf_dir (get s) \<longrightarrow> wf_dir d) \<Longrightarrow> map_of (get s) name = None \<Longrightarrow>
      map_of d name = Some (JsonFile v) \<Longrightarrow>
      (\<forall>n. n \<noteq> pending_name e name \<longrightarrow> n \<noteq> name \<longrightarrow> map_of d n = map_of (get s) n) \<Longrightarrow>
      I (put d s) \<and> Q () (put d s)"
  shows "spec I P (writeT get put (write_new_json h sch e name v)) Q"
proof (rule specI)
  fix s assume P: "P s"
  let ?w = "write_new_json h sch e name v (get s)"
  have states: "I (put d s) \<and> (map_of d name = Some (JsonFile v) \<and> map_of (get s) name = None \<longrightarrow> Q () (put d s))"
    if "d \<in> set (fst ?w)" for d
  proof (cases "map_of d name = Some (JsonFile v) \<and> map_of (get s) name = None")
    case True
    then show ?thesis
      using new [of s d] P write_new_json_states [OF that] write_new_json_wf [OF _ that] by blast
  next
    case False
    then show ?thesis
      using kept [of s d] P write_new_json_states [OF that] write_new_json_wf [OF _ that] name by metis
  qed
  have tl: "d \<in> set (fst ?w)" if "d \<in> set (tl (fst ?w))" for d
    using that by (cases "fst ?w") auto
  have result: "writeT get put (write_new_json h sch e name v) s =
      (map (\<lambda>d. put d s) (tl (fst ?w)), refused (snd ?w))"
    by (simp add: writeT_def split_beta)
  show "list_all I (fst (writeT get put (write_new_json h sch e name v) s))"
    using states tl by (auto simp: result list_all_iff)
  fix x assume "snd (writeT get put (write_new_json h sch e name v) s) = Inr x"
  then have ok: "snd ?w = Inr x" by (simp add: result)
  note written = write_new_json_Inr [OF ok name] and fresh = write_new_json_fresh [OF ok name]
  have "tl (fst ?w) \<noteq> []"
  proof
    assume "tl (fst ?w) = []"
    then have "last (fst ?w) = get s"
      using write_new_json_first [of h sch e name v "get s"] write_new_json_nonempty [of h sch e name v "get s"]
      by (cases "fst ?w") auto
    with written fresh show False by simp
  qed
  then have "final_state (fst (writeT get put (write_new_json h sch e name v) s)) s = put (last (fst ?w)) s"
    by (simp only: result fst_conv writeT_last [OF write_new_json_nonempty] if_False)
  with states [OF write_new_json_last] written fresh
  show "Q x (final_state (fst (writeT get put (write_new_json h sch e name v) s)) s)" by simp
qed

section \<open>The invariant of a sequence\<close>

text \<open>Keys whose claim ids, which are truncated digests, stay apart.\<close>

definition ids_apart :: "seq_call \<Rightarrow> string set \<Rightarrow> bool" where
  "ids_apart c keys \<longleftrightarrow>
     (\<forall>n i. \<forall>k \<in> keys. \<forall>k' \<in> keys. generated_claim_id (call_engine c) (call_host c) n k = Inr i \<longrightarrow>
        generated_claim_id (call_engine c) (call_host c) n k' = Inr i \<longrightarrow> k = k')"

definition claim_ids_of :: "seq_call \<Rightarrow> string set \<Rightarrow> string \<Rightarrow> json list \<Rightarrow> bool" where
  "claim_ids_of c keys n cs \<longleftrightarrow>
     (\<forall>x \<in> set cs. claim_key x \<in> keys \<and>
        generated_claim_id (call_engine c) (call_host c) n (claim_key x) = Inr (claim_ident x))"

definition seq_state ::
    "seq_call \<Rightarrow> string set \<Rightarrow> string \<Rightarrow> json \<Rightarrow> json list \<Rightarrow> seq_store \<Rightarrow> bool" where
  "seq_state c keys n m cs s \<longleftrightarrow>
     seq_rows c n s m cs \<and> claim_ids_of c keys n cs \<and>
     (ids_apart c keys \<longrightarrow>
        claim_chain (call_host c) (seq_config c) n m (manifest_start m) None [] [] cs)"

definition json_name :: "string \<Rightarrow> bool" where
  "json_name n \<longleftrightarrow> extension n = Some ''json''"

lemma pending_not_json: "k \<noteq> [] \<Longrightarrow> \<not> json_name (pending_name e k)"
  by (simp add: json_name_def extension_pending)

text \<open>The invariant depends on the manifest file and the files of claims alone.\<close>

lemma seq_state_frame:
  assumes "seq_state c keys n m cs s" "sq_files t = sq_files s" "wf_dir (claims_dir t)"
    and "\<And>k. json_name k \<Longrightarrow> map_of (claims_dir t) k = map_of (claims_dir s) k"
  shows "seq_state c keys n m cs t"
proof -
  have rows: "seq_rows c n s m cs" using assms(1) by (simp add: seq_state_def)
  have eq: "json_files (claims_dir t) = json_files (claims_dir s)"
    using rows assms(3,4) by (intro json_dir.listing_frame) (simp_all add: seq_rows_def json_name_def)
  have "map_of (claims_dir t) k = map_of (claims_dir s) k" if "k \<in> set (json_files (claims_dir s))" for k
    using that assms(4) by (simp add: json_files_def json_name_def)
  then have "map (map_of (claims_dir t)) (json_files (claims_dir s)) =
      map (map_of (claims_dir s)) (json_files (claims_dir s))" by simp
  with assms rows show ?thesis by (simp add: seq_state_def seq_rows_def eq)
qed

lemma seq_state_publish:
  assumes st: "seq_state c keys n m cs s" and good: "sequences_ok (call_engine c)"
    and "sq_files t = sq_files s" "wf_dir (claims_dir t)"
    and room: "unat (manifest_start m) + length cs < 2 ^ 64"
    and name: "k = claim_name c (manifest_start m + of_nat (length cs))"
    and new: "map_of (claims_dir t) k = Some (JsonFile x)"
    and frame: "\<And>l. json_name l \<Longrightarrow> l \<noteq> k \<Longrightarrow> map_of (claims_dir t) l = map_of (claims_dir s) l"
    and rows': "claim_rows (manifest_start m) (cs @ [x])" "claim_ids_of c keys n (cs @ [x])"
    and chain': "ids_apart c keys \<Longrightarrow>
      claim_chain (call_host c) (seq_config c) n m (manifest_start m) None [] [] (cs @ [x])"
  shows "seq_state c keys n m (cs @ [x]) t"
proof -
  have rows: "seq_rows c n s m cs" using st by (simp add: seq_state_def)
  let ?names = "claim_names c (manifest_start m) (length cs)"
  have files: "json_files (claims_dir s) = ?names" using rows by (simp add: seq_rows_def)
  have eq: "json_files (claims_dir t) = json_files (claims_dir s) @ [k]"
  proof (rule json_dir.listing_publish)
    show "wf_dir (claims_dir s)" using rows by (simp add: seq_rows_def)
    show "extension k = Some ''json''" using claim_name_json [OF good] by (simp add: name)
    show "l < k" if "l \<in> set (json_files (claims_dir s))" for l
      using claim_names_less [OF good _ room] that by (simp add: files name)
  qed (use assms in \<open>auto simp: json_name_def\<close>)
  have "map_of (claims_dir t) l = map_of (claims_dir s) l" if "l \<in> set ?names" for l
  proof -
    have "l \<in> set (json_files (claims_dir s))" using that files by simp
    then have "json_name l" by (simp add: json_files_def json_name_def)
    moreover have "l \<noteq> k" using claim_names_less [OF good that room] by (simp add: name)
    ultimately show ?thesis by (rule frame)
  qed
  then have "map (map_of (claims_dir t)) ?names = map (Some \<circ> JsonFile) cs"
    using rows by (simp add: seq_rows_def cong: map_cong)
  then have contents: "map (map_of (claims_dir t)) (?names @ [k]) = map (Some \<circ> JsonFile) (cs @ [x])"
    using new by simp
  have names: "claim_names c (manifest_start m) (length (cs @ [x])) = ?names @ [k]"
    by (simp add: claim_names_def name)
  have "map_of (sq_files t) ''sequence.json'' = Some (JsonFile m) \<and> verify_sequence_manifest c m n = Inr ()"
    using rows assms(3) by (simp add: seq_rows_def)
  then have "seq_rows c n t m (cs @ [x])"
    unfolding seq_rows_def names using assms(4) eq files contents rows'(1) by metis
  with rows' chain' show ?thesis by (simp add: seq_state_def)
qed

section \<open>A new claim\<close>

lemma chain_members:
  assumes "sequences_ok (call_engine c)"
  shows "claim_chain_field (seq_config c) \<notin> set claim_members"
    "claim_hash_field (seq_config c) \<notin> set claim_members"
    "claim_hash_field (seq_config c) \<noteq> claim_chain_field (seq_config c)"
  using assms by (auto simp: sequences_ok_def Let_def)

lemma new_claim_members:
  assumes "sequences_ok (call_engine c)"
  shows "\<not> obj_has (new_claim c n m v i p a b k r) (claim_hash_field (seq_config c))"
    "obj_get (new_claim c n m v i p a b k r) (claim_chain_field (seq_config c)) = Some (jopt_str p)"
    "obj_get (new_claim c n m v i p a b k r) ''schema'' = Some (JStr (claim_schema_id (seq_config c)))"
    "obj_get (new_claim c n m v i p a b k r) ''sequence_id'' = Some (jidx m ''sequence_id'')"
    "obj_get (new_claim c n m v i p a b k r) ''sequence_name'' = Some (JStr n)"
    "obj_get (new_claim c n m v i p a b k r) ''value'' = Some (ju64 v)"
    "obj_get (new_claim c n m v i p a b k r) ''claim_id'' = Some (JStr i)"
    "obj_get (new_claim c n m v i p a b k r) ''idempotency_key'' = Some (JStr k)"
    "obj_get (new_claim c n m v i p a b k r) ''request_digest'' = Some (JStr r)"
  using chain_members [OF assms]
  by (auto simp: new_claim_def obj_of_def claim_members_def obj_has_iff)

lemma as_u64_ju64 [simp]: "as_u64 (ju64 v) = Some v"
  by (simp add: ju64_def)

lemma as_str_jopt_str [simp]: "as_str (jopt_str p) = p"
  by (simp add: jopt_str_def split: option.split)

text \<open>The claim as it is written: its members and its place in the chain.\<close>

lemma written_claim:
  assumes good: "sequences_ok (call_engine c)"
    and manifest: "verify_sequence_manifest c m n = Inr ()"
    and dig: "digest_value (call_host c) sch (JObj (new_claim c n m v i p a b k r)) = Inr hash"
  defines "x \<equiv> JObj (obj_insert (claim_hash_field (seq_config c)) (JStr hash) (new_claim c n m v i p a b k r))"
  shows "Option.bind (jget x ''value'') as_u64 = Some v" "member_text x ''idempotency_key'' = Some k"
    "claim_key x = k" "claim_ident x = i"
    "i \<noteq> [] \<Longrightarrow> k \<noteq> [] \<Longrightarrow> k \<notin> set K \<Longrightarrow> i \<notin> set I \<Longrightarrow>
      claim_ok (call_host c) (seq_config c) n m v p K I x"
proof -
  let ?hf = "claim_hash_field (seq_config c)" and ?m = "new_claim c n m v i p a b k r"
  note mem = new_claim_members [OF good] and fields = chain_members [OF good]
  have hf: "l \<noteq> ?hf" if "l \<in> set claim_members" for l using fields(2) that by auto
  have get: "jget x l = obj_get ?m l" if "l \<in> set claim_members" for l
    using hf [OF that] by (simp add: x_def)
  show valu: "Option.bind (jget x ''value'') as_u64 = Some v"
    by (simp add: get claim_members_def mem)
  show key: "member_text x ''idempotency_key'' = Some k"
    by (simp add: member_text_def get claim_members_def mem)
  then show "claim_key x = k" by (simp add: claim_key_def)
  have ident: "member_text x ''claim_id'' = Some i"
    by (simp add: member_text_def get claim_members_def mem)
  then show "claim_ident x = i" by (simp add: claim_ident_def)
  have stored: "stored_hash ?hf x = Some hash" by (simp add: stored_hash_def x_def)
  have "unhash ?hf x = JObj ?m"
    using mem(1) by (simp add: x_def unhash_def obj_insert_new obj_remove_last)
  with dig have hash: "host_digest (call_host c) (unhash ?hf x) = stored_hash ?hf x"
    by (simp add: stored host_digest_Some [of _ _ _ sch])
  have "jget x (claim_chain_field (seq_config c)) = Some (jopt_str p)"
    using fields(3) mem(2) by (simp add: x_def)
  then have chain: "member_text x (claim_chain_field (seq_config c)) = p" by (simp add: member_text_def)
  obtain j where "Option.bind (jget m ''sequence_id'') as_str = Some j"
    using manifest by (auto simp: verify_sequence_manifest_def bindR_Inr_iff valid_manifest_def)
  then have "jget m ''sequence_id'' = Some (JStr j)"
    by (cases "jget m ''sequence_id''") (auto simp: as_str_def split: json.splits)
  then have seq: "same_member ''sequence_id'' x m"
    by (simp add: same_member_def get claim_members_def mem jidx_def jopt_def)
  have rest: "jget x ''schema'' = Some (JStr (claim_schema_id (seq_config c)))"
    "member_text x ''sequence_name'' = Some n" "member_text x ''request_digest'' = Some r"
    by (simp_all add: member_text_def get claim_members_def mem)
  assume "i \<noteq> []" "k \<noteq> []" "k \<notin> set K" "i \<notin> set I"
  with valu key ident chain seq rest hash stored
  show "claim_ok (call_host c) (seq_config c) n m v p K I x"
    by (simp add: claim_ok_def valid_claim_def filled_def)
qed

section \<open>The operations on one sequence\<close>

lemma spec_index:
  assumes "\<And>s d. P s \<Longrightarrow> P (s\<lparr>sq_index := d\<rparr>)" "\<And>s. P s \<Longrightarrow> I s"
  shows "spec I P (recover_sequence_idempotency_index c n k x) (\<lambda>_. P)"
proof -
  let ?n = "index_name (call_host c) k"
  have "extension ?n \<in> {None, Some ''json''}"
  proof (cases "sha256 (call_host c) k = []")
    case True
    then show ?thesis by (simp add: extension_def split_ext_def index_name_def)
  next
    case False
    then have "split_ext (sha256 (call_host c) k @ CHR ''.'' # ''json'') = Some (sha256 (call_host c) k, ''json'')"
      by (rule split_ext_dot) simp
    then show ?thesis by (simp add: extension_def index_name_def)
  qed
  moreover have "?n \<noteq> []" by (simp add: index_name_def)
  ultimately have name: "?n \<noteq> pending_name e ?n" for e
    using extension_pending [of ?n e] by force
  have "spec I P (index_file c k x) (\<lambda>_. P)"
    unfolding index_file_def by (rule spec_write_json [OF name]) (auto intro: assms)
  moreover have "spec I P (make_index c) (\<lambda>_. P)"
    unfolding make_index_def by (rule spec_pre [OF spec_step]) (auto intro: assms)
  ultimately show ?thesis
    unfolding recover_sequence_idempotency_index_def
    by (intro spec_bind [of I P "make_index c" "\<lambda>_. P"]) (auto simp: spec_def askT_def)
qed

lemma claims_dir_update [simp]:
  "claims_dir (s\<lparr>sq_index := d\<rparr>) = claims_dir s" "claims_dir (s\<lparr>sq_claims := Some e\<rparr>) = e"
  "claims_dir (s\<lparr>sq_files := e\<rparr>) = claims_dir s"
  by (simp_all add: claims_dir_def)

lemma seq_state_wf: "seq_state c keys n m cs s \<Longrightarrow> wf_dir (claims_dir s)"
  by (simp add: seq_state_def seq_rows_def)

lemma seq_state_index: "seq_state c keys n m cs s \<Longrightarrow> seq_state c keys n m cs (s\<lparr>sq_index := d\<rparr>)"
  by (frule seq_state_wf, erule seq_state_frame) simp_all

lemma find_key:
  assumes "claim_rows start cs"
  shows "find_sequence_claim_by_idempotency cs k = None \<longleftrightarrow> k \<notin> claim_key ` set cs"
    and "find_sequence_claim_by_idempotency cs k = Some x \<Longrightarrow> x \<in> set cs \<and> claim_key x = k"
proof -
  have key: "member_text x ''idempotency_key'' = Some k \<longleftrightarrow> claim_key x = k" if "x \<in> set cs" for x
    using assms that by (auto simp: claim_rows_def claim_key_def)
  then show "find_sequence_claim_by_idempotency cs k = None \<longleftrightarrow> k \<notin> claim_key ` set cs"
    by (auto simp: find_sequence_claim_by_idempotency_def find_None_iff)
  assume "find_sequence_claim_by_idempotency cs k = Some x"
  then show "x \<in> set cs \<and> claim_key x = k"
    using key by (auto simp: find_sequence_claim_by_idempotency_def find_Some_iff)
qed

text \<open>What a receipt says: the key and the number of a claim of the sequence.\<close>

definition receipt_number :: "json \<Rightarrow> u64 option" where
  "receipt_number r = Option.bind (jget r ''value'') as_u64"

definition receipt_of :: "string \<Rightarrow> json list \<Rightarrow> json \<Rightarrow> bool" where
  "receipt_of k cs r \<longleftrightarrow> (\<exists>x \<in> set cs. claim_key x = k \<and> receipt_number r = Some (claim_num x))"

lemma receipt_of_claim:
  assumes "Option.bind (jget x ''value'') as_u64 = Some v" "x \<in> set cs" "claim_key x = k"
  shows "receipt_of k cs (sequence_claim_receipt c x b)"
proof -
  have "receipt_number (sequence_claim_receipt c x b) = Some v"
    using assms(1) by (simp add: receipt_number_def sequence_claim_receipt_def Let_def as_u64_jidx)
  moreover have "claim_num x = v" using assms(1) by (simp add: claim_num_def)
  ultimately show ?thesis using assms(2,3) by (auto simp: receipt_of_def)
qed

lemma replay_claim_spec:
  assumes "claim_rows start cs" "x \<in> set cs" "claim_key x = k"
  shows "spec (seq_state c keys n m cs) (seq_state c keys n m cs) (replay_claim c n k r x)
    (\<lambda>r s. seq_state c keys n m cs s \<and> receipt_of k cs r)"
proof -
  obtain i where "i < length cs" "x = cs ! i" using assms(2) by (auto simp: in_set_conv_nth)
  then have "Option.bind (jget x ''value'') as_u64 = Some (start + of_nat i)"
    using assms(1) by (simp add: claim_rows_def del: bind_eq_Some_conv)
  from receipt_of_claim [OF this assms(2,3)] show ?thesis
    unfolding replay_claim_def
    by (intro spec_bind [where Q = "\<lambda>_. seq_state c keys n m cs"] spec_index seq_state_index)
      (auto simp: spec_def refuseT_if_def doneT_def)
qed

text \<open>The file of a new claim extends the list by that claim.\<close>

lemma claim_published:
  assumes good: "sequences_ok (call_engine c)" and st: "seq_state c keys n m cs s"
    and k: "k \<in> keys" "k \<noteq> []" "k \<notin> claim_key ` set cs"
    and v: "claim_value c n (manifest_start m) cs = Inr v"
    and i: "generated_claim_id (call_engine c) (call_host c) n k = Inr i"
    and dig: "digest_value (call_host c) sch (JObj (new_claim c n m v i (claim_previous c cs) a b k r)) = Inr hash"
    and x: "x = JObj (obj_insert (claim_hash_field (seq_config c)) (JStr hash)
      (new_claim c n m v i (claim_previous c cs) a b k r))"
    and t: "sq_files t = sq_files s" "wf_dir (claims_dir t)" "map_of (claims_dir t) (claim_name c v) = Some (JsonFile x)"
      "\<And>l. json_name l \<Longrightarrow> l \<noteq> claim_name c v \<Longrightarrow> map_of (claims_dir t) l = map_of (claims_dir s) l"
  shows "seq_state c keys n m (cs @ [x]) t" "receipt_of k (cs @ [x]) (sequence_claim_receipt c x False)"
proof -
  let ?start = "manifest_start m"
  have rows: "seq_rows c n s m cs" using st by (simp add: seq_state_def)
  then have manifest: "verify_sequence_manifest c m n = Inr ()" and cr: "claim_rows ?start cs"
    by (simp_all add: seq_rows_def)
  from claim_rows_next [OF cr v] have next_v: "v = ?start + of_nat (length cs)"
    and room: "unat ?start + length cs < 2 ^ 64" by blast+
  note written = written_claim [OF good manifest dig, folded x]
  have own: "claim_ids_of c keys n (cs @ [x])"
    using st k(1) i written(3,4) by (simp add: seq_state_def claim_ids_of_def)
  have "claim_rows ?start (cs @ [x])"
    using written(1,2) k(3) room by (intro claim_rows_snoc [OF cr]) (simp_all only: next_v)
  moreover have "claim_chain (call_host c) (seq_config c) n m ?start None [] [] (cs @ [x])"
    if apart: "ids_apart c keys"
  proof -
    have "i \<noteq> []" using i good
      by (auto simp: generated_claim_id_def derived_id_def bindR_Inr_iff sequences_ok_def Let_def)
    moreover have "i \<notin> claim_ident ` set cs"
    proof
      assume "i \<in> claim_ident ` set cs"
      then obtain y where y: "y \<in> set cs" "claim_ident y = i" by auto
      then have "generated_claim_id (call_engine c) (call_host c) n (claim_key y) = Inr i" "claim_key y \<in> keys"
        using st by (auto simp: seq_state_def claim_ids_of_def)
      with apart i k(1) have "claim_key y = k" unfolding ids_apart_def by blast
      with y(1) k(3) show False by auto
    qed
    moreover have "claim_previous c cs =
        (if cs = [] then None else stored_hash (claim_hash_field (seq_config c)) (last cs))"
      by (simp add: claim_previous_def as_str_jidx)
    moreover have "?start + of_nat (length cs) \<noteq> 0" if "cs \<noteq> []"
    proof -
      have "unat (?start + of_nat (length cs)) \<noteq> 0" using that unat_add_less [OF room] by simp
      then show ?thesis by (metis unat_0)
    qed
    ultimately show ?thesis
      using st apart written(5) k(2,3) by (simp add: claim_chain_snoc seq_state_def next_v)
  qed
  ultimately show "seq_state c keys n m (cs @ [x]) t"
    using t own by (intro seq_state_publish [OF st good _ _ room, of t "claim_name c v" x]) (simp_all add: next_v)
  show "receipt_of k (cs @ [x]) (sequence_claim_receipt c x False)"
    using written(1,3) by (intro receipt_of_claim) simp_all
qed

lemma spec_bind_try: "(\<And>x. r = Inr x \<Longrightarrow> spec I P (f x) Q) \<Longrightarrow> spec I P (bindT (tryT r) f) Q"
  by (cases r) (simp_all add: spec_def bindT_def tryT_def)

lemma claim_file_spec:
  assumes good: "sequences_ok (call_engine c)" and st: "seq_state c keys n m cs s"
    and k: "k \<in> keys" "k \<noteq> []" "k \<notin> claim_key ` set cs"
    and v: "claim_value c n (manifest_start m) cs = Inr v"
    and i: "generated_claim_id (call_engine c) (call_host c) n k = Inr i"
    and dig: "digest_value (call_host c) sch (JObj (new_claim c n m v i (claim_previous c cs) a b k r)) = Inr hash"
    and x: "x = JObj (obj_insert (claim_hash_field (seq_config c)) (JStr hash)
      (new_claim c n m v i (claim_previous c cs) a b k r))"
  shows "spec (\<lambda>s. \<exists>more. seq_state c keys n m (cs @ more) s) (\<lambda>t. t = s) (claim_file c v x)
    (\<lambda>_ t. seq_state c keys n m (cs @ [x]) t \<and> receipt_of k (cs @ [x]) (sequence_claim_receipt c x False))"
  unfolding claim_file_def
proof (rule spec_write_json)
  let ?name = "claim_name c v" and ?e = "claim_write c"
  note ext = claim_name_json [OF good, of v]
  show "?name \<noteq> pending_name ?e ?name"
    using ext extension_pending [of ?name ?e] by force
  have pending: "l \<noteq> pending_name ?e ?name" if "json_name l" for l
    using that pending_not_json [OF ext(2), of ?e] by auto
  fix t d assume t: "t = s" and wf: "wf_dir (claims_dir t) \<longrightarrow> wf_dir d"
  then have wf_d: "wf_dir d" using seq_state_wf [OF st] by simp
  {
    assume "\<forall>l. l \<noteq> pending_name ?e ?name \<longrightarrow> map_of d l = map_of (claims_dir t) l"
    then have "seq_state c keys n m cs (t\<lparr>sq_claims := Some d\<rparr>)"
      using st t wf_d pending by (intro seq_state_frame [OF st]) auto
    then show "\<exists>more. seq_state c keys n m (cs @ more) (t\<lparr>sq_claims := Some d\<rparr>)"
      by (intro exI [of _ "[]"]) simp
  next
    assume "map_of d ?name = Some (JsonFile x)"
      and "\<forall>l. l \<noteq> pending_name ?e ?name \<longrightarrow> l \<noteq> ?name \<longrightarrow> map_of d l = map_of (claims_dir t) l"
    then have "seq_state c keys n m (cs @ [x]) (t\<lparr>sq_claims := Some d\<rparr>)"
      "receipt_of k (cs @ [x]) (sequence_claim_receipt c x False)"
      using t wf_d pending
      by (intro claim_published [OF good st k v i dig x, of "t\<lparr>sq_claims := Some d\<rparr>"]; simp)+
    then show "(\<exists>more. seq_state c keys n m (cs @ more) (t\<lparr>sq_claims := Some d\<rparr>)) \<and>
        seq_state c keys n m (cs @ [x]) (t\<lparr>sq_claims := Some d\<rparr>) \<and>
        receipt_of k (cs @ [x]) (sequence_claim_receipt c x False)" by blast
  }
qed

lemma fresh_claim_spec:
  assumes good: "sequences_ok (call_engine c)" and k: "k \<in> keys" "k \<noteq> []" "k \<notin> claim_key ` set cs"
  shows "spec (\<lambda>s. \<exists>more. seq_state c keys n m (cs @ more) s) (seq_state c keys n m cs)
    (fresh_claim c n m a b k r cs) (\<lambda>r s. \<exists>more. seq_state c keys n m (cs @ more) s \<and> receipt_of k (cs @ more) r)"
    (is "spec ?I _ _ ?Q")
proof -
  have "spec ?I (\<lambda>t. t = s) (fresh_claim c n m a b k r cs) ?Q" if st: "seq_state c keys n m cs s" for s
  proof -
    have start: "start_of m = Inr (manifest_start m)"
      using st by (auto simp: seq_state_def seq_rows_def intro: manifest_start_of(1))
    have finish: "spec ?I (\<lambda>t. seq_state c keys n m (cs @ [x]) t \<and> receipt_of k (cs @ [x]) y)
        (bindT (recover_sequence_idempotency_index c n k x) (\<lambda>_. doneT y)) ?Q" for x y
      by (rule spec_bind [OF spec_index]) (auto simp: seq_state_index spec_def doneT_def)
    show ?thesis
      unfolding fresh_claim_def Let_def
      by (intro spec_bind_try spec_bind [OF claim_file_spec [OF good st k] finish])
        (simp_all add: start)
  qed
  then show ?thesis by (auto simp: spec_def)
qed

lemma claim_next_spec:
  assumes good: "sequences_ok (call_engine c)" and k: "k \<in> keys" "k \<noteq> []"
  shows "spec (\<lambda>s. \<exists>more. seq_state c keys n m (cs @ more) s) (seq_state c keys n m cs)
    (claim_next c n a b k r) (\<lambda>r s. \<exists>more. seq_state c keys n m (cs @ more) s \<and> receipt_of k (cs @ more) r)"
    (is "spec ?I _ _ ?Q")
proof -
  have "list_all ?I (fst (claim_next c n a b k r s)) \<and>
      (\<forall>x. snd (claim_next c n a b k r s) = Inr x \<longrightarrow> ?Q x (final_state (fst (claim_next c n a b k r s)) s))"
    if st: "seq_state c keys n m cs s" for s
  proof -
    have rows: "seq_rows c n s m cs" using st by (simp add: seq_state_def)
    then have cr: "claim_rows (manifest_start m) cs" by (simp add: seq_rows_def)
    consider e where "claim_next c n a b k r s = ([], Inl e)"
      | "claim_next c n a b k r s = fresh_claim c n m a b k r cs s" "k \<notin> claim_key ` set cs"
      | x where "claim_next c n a b k r s = replay_claim c n k r x s" "x \<in> set cs" "claim_key x = k"
    proof (cases "verified_sequence_claims c n m s")
      case (Inl e)
      with seq_rows_load [OF rows] that(1) show ?thesis by (simp add: claim_next_def bindT_def askT_def)
    next
      case (Inr cs')
      then have cs': "cs' = cs" using seq_rows_claims [OF rows] by simp
      show ?thesis
      proof (cases "find_sequence_claim_by_idempotency cs k")
        case None
        with Inr cs' seq_rows_load [OF rows] that(2) find_key(1) [OF cr] show ?thesis
          by (simp add: claim_next_def bindT_def askT_def split_beta)
      next
        case (Some x)
        with Inr cs' seq_rows_load [OF rows] that(3) find_key(2) [OF cr Some] show ?thesis
          by (simp add: claim_next_def bindT_def askT_def split_beta)
      qed
    qed
    then show ?thesis
    proof cases
      case 1
      then show ?thesis by simp
    next
      case 2
      with fresh_claim_spec [OF good k] st show ?thesis by (simp add: spec_def)
    next
      case 3
      with replay_claim_spec [OF cr 3(2,3), of c keys n m r] st show ?thesis
        by (auto simp: spec_def list_all_iff intro: exI [of _ "[]"])
    qed
  qed
  then show ?thesis by (simp add: spec_def)
qed

end
