(* ===== verification/Domain_Sequence_History.thy ===== *)
theory Domain_Sequence_History
  imports Domain_Sequence_Contract
begin

text \<open>
  Histories of the sequences of a site: creations and claims in any order, each of which may stop at any
  state it passes through, with the receipts that were returned.
\<close>

section \<open>Creation\<close>

definition store_ok :: "seq_call \<Rightarrow> string set \<Rightarrow> string \<Rightarrow> seq_store \<Rightarrow> bool" where
  "store_ok c keys hash s \<longleftrightarrow>
     unmade s \<or> (\<exists>n m cs. sha256 (call_host c) n = hash \<and> seq_state c keys n m cs s)"

definition keeps_claims :: "seq_call \<Rightarrow> string set \<Rightarrow> seq_store \<Rightarrow> seq_store \<Rightarrow> bool" where
  "keeps_claims c keys s t \<longleftrightarrow>
     (\<forall>n m cs. seq_state c keys n m cs s \<longrightarrow> (\<exists>more. seq_state c keys n m (cs @ more) t))"

lemma store_ok_empty: "store_ok c keys hash empty_sequence"
  by (simp add: store_ok_def unmade_def wf_dir_def)

lemma keeps_claims_refl: "keeps_claims c keys s s"
  by (auto simp: keeps_claims_def intro: exI [of _ "[]"])

lemma unmade_no_rows: "unmade s \<Longrightarrow> \<not> seq_state c keys n m cs s"
  by (simp add: unmade_def seq_state_def seq_rows_def)

lemma new_manifest_verifies:
  assumes good: "sequences_ok (call_engine c)"
    and i: "generated_sequence_id (call_engine c) (call_host c) n = Inr i"
    and start: "start_at_min (seq_config c) \<le> start"
    and dig: "digest_value (call_host c) (call_schema c) (JObj (new_manifest c n i a b start k)) = Inr hash"
  shows "verify_sequence_manifest c
    (JObj (obj_insert (manifest_hash_field (seq_config c)) (JStr hash) (new_manifest c n i a b start k))) n = Inr ()"
proof -
  let ?hf = "manifest_hash_field (seq_config c)" and ?m = "new_manifest c n i a b start k"
  have hf: "?hf \<notin> set manifest_members" using good by (simp add: sequences_ok_def Let_def)
  then have new: "\<not> obj_has ?m ?hf"
    by (simp add: obj_has_iff new_manifest_def manifest_members_def)
  have get: "obj_get (obj_insert ?hf (JStr hash) ?m) l = obj_get ?m l" if "l \<in> set manifest_members" for l
    using hf that by auto
  have "valid_manifest (seq_config c) n i (JObj (obj_insert ?hf (JStr hash) ?m))"
    using start by (simp add: valid_manifest_def get manifest_members_def del: obj_get_insert)
      (simp add: new_manifest_def ju64_def)
  moreover have "obj_remove ?hf (obj_insert ?hf (JStr hash) ?m) = ?m"
    using new by (simp add: obj_insert_new obj_remove_last)
  then have "recompute_hash (call_host c) (call_schema c) (JObj (obj_insert ?hf (JStr hash) ?m)) ?hf =
      Inr (Some \<lparr>stored = hash, computed = hash\<rparr>)"
    using dig by (simp add: recompute_hash_def)
  ultimately show ?thesis by (simp add: verify_sequence_manifest_def i)
qed

lemma manifest_file_spec:
  assumes "verify_sequence_manifest c m n = Inr ()"
  shows "spec (\<lambda>s. unmade s \<or> (\<exists>m. seq_state c keys n m [] s)) unmade (manifest_file c m)
    (\<lambda>_. seq_state c keys n m [])"
  unfolding manifest_file_def
proof (rule spec_write_json)
  have ext: "extension ''sequence.json'' = Some ''json''" by code_simp
  then show "''sequence.json'' \<noteq> pending_name (manifest_write c) ''sequence.json''"
    using extension_pending [of "''sequence.json''" "manifest_write c"] by force
  then show "unmade (s\<lparr>sq_files := d\<rparr>) \<or> (\<exists>m. seq_state c keys n m [] (s\<lparr>sq_files := d\<rparr>))"
    if "unmade s" "\<forall>l. l \<noteq> pending_name (manifest_write c) ''sequence.json'' \<longrightarrow> map_of d l = map_of (sq_files s) l"
    for s d using that by (simp add: unmade_def)
  show "(unmade (s\<lparr>sq_files := d\<rparr>) \<or> (\<exists>m. seq_state c keys n m [] (s\<lparr>sq_files := d\<rparr>))) \<and>
      seq_state c keys n m [] (s\<lparr>sq_files := d\<rparr>)"
    if "unmade s" "map_of d ''sequence.json'' = Some (JsonFile m)" for s d
  proof -
    have "seq_state c keys n m [] (s\<lparr>sq_files := d\<rparr>)"
      using that assms by (simp add: seq_state_def seq_rows_def unmade_def claim_names_def claim_ids_of_def)
    then show ?thesis by blast
  qed
qed

lemma spec_else: "(\<And>s. P s \<Longrightarrow> \<not> b s) \<Longrightarrow> spec I P g Q \<Longrightarrow> spec I P (\<lambda>s. if b s then f s else g s) Q"
  by (simp add: spec_def)

lemma create_sequence_spec:
  assumes good: "sequences_ok (call_engine c)" and start: "start_at_min (seq_config c) \<le> start"
  shows "spec (\<lambda>s. unmade s \<or> (\<exists>m. seq_state c keys n m [] s)) unmade (create_sequence c n a b start k) (\<lambda>_ _. True)"
    (is "spec ?I _ _ _")
proof -
  have claims: "spec ?I unmade (make_claims c) (\<lambda>_. unmade)"
    unfolding make_claims_def by (rule spec_pre [OF spec_step]) (auto simp: unmade_def claims_dir_def wf_dir_def)
  have index: "spec ?I unmade (make_index c) (\<lambda>_. unmade)"
    unfolding make_index_def by (rule spec_pre [OF spec_step]) (auto simp: unmade_def)
  have ask: "spec ?I (seq_state c keys n m []) (askT f) (\<lambda>_ _. True)" for m f
    by (simp add: spec_def askT_def)
  show ?thesis
    unfolding create_sequence_def [abs_def] Let_def
    by (intro spec_else spec_bind [OF claims] spec_bind [OF index] spec_bind_try
        spec_bind [OF manifest_file_spec [OF new_manifest_verifies [OF good _ start]] ask])
      (simp_all add: unmade_def)
qed

text \<open>A store keeps its invariant and its claims in every state of either operation.\<close>

lemma create_sequence_states:
  assumes good: "sequences_ok (call_engine c)" and start: "start_at_min (seq_config c) \<le> start"
    and ok: "store_ok c keys (sha256 (call_host c) n) s"
    and t: "t \<in> set (fst (create_sequence c n a b start k s))"
  shows "store_ok c keys (sha256 (call_host c) n) t \<and> keeps_claims c keys s t"
proof -
  have "map_of (sq_files s) ''sequence.json'' = None"
    using t by (auto simp: create_sequence_def askT_def split: if_splits)
  with ok have un: "unmade s" by (auto simp: store_ok_def seq_state_def seq_rows_def)
  with spec_states [OF create_sequence_spec [OF good start] un t] show ?thesis
    by (auto simp: store_ok_def keeps_claims_def unmade_no_rows)
qed

text \<open>Only the sequence that a store holds can be claimed from it.\<close>

lemma claim_next_name:
  assumes "seq_state c keys n m cs s" "n' \<noteq> n"
  shows "\<exists>e. claim_next c n' a b k r s = ([], Inl e)"
proof -
  have "\<not> load_sequence_manifest c n' s = Inr m'" for m'
  proof
    assume "load_sequence_manifest c n' s = Inr m'"
    then have "map_of (sq_files s) ''sequence.json'' = Some (JsonFile m')" "verify_sequence_manifest c m' n' = Inr ()"
      by (rule load_manifest_name)+
    with assms show False by (auto simp: seq_state_def seq_rows_def dest: verified_manifest_name)
  qed
  then obtain e where "load_sequence_manifest c n' s = Inl e" by (cases "load_sequence_manifest c n' s") auto
  then show ?thesis by (simp add: claim_next_def bindT_def askT_def)
qed

lemma claim_next_unmade:
  assumes "unmade s"
  shows "\<exists>e. claim_next c n a b k r s = ([], Inl e)"
  using assms by (simp add: claim_next_def bindT_def askT_def load_sequence_manifest_def unmade_def)

lemma claim_next_states:
  assumes good: "sequences_ok (call_engine c)" and k: "k \<in> keys" "k \<noteq> []"
    and ok: "store_ok c keys (sha256 (call_host c) n) s"
  shows "t \<in> set (fst (claim_next c n a b k r s)) \<Longrightarrow>
      store_ok c keys (sha256 (call_host c) n) t \<and> keeps_claims c keys s t"
    and "claim_next c n a b k r s = (states, Inr receipt) \<Longrightarrow>
      \<exists>m cs. seq_state c keys n m cs (final_state states s) \<and> receipt_of k cs receipt"
proof -
  have held: "\<exists>m cs. seq_state c keys n m cs s" if "\<nexists>e. claim_next c n a b k r s = ([], Inl e)"
    using that ok claim_next_unmade claim_next_name unfolding store_ok_def by metis
  show "store_ok c keys (sha256 (call_host c) n) t \<and> keeps_claims c keys s t"
    if t: "t \<in> set (fst (claim_next c n a b k r s))"
  proof -
    obtain m cs where st: "seq_state c keys n m cs s" using held t by fastforce
    from spec_states [OF claim_next_spec [OF good k] st t]
    obtain more where more: "seq_state c keys n m (cs @ more) t" by blast
    have "n' = n \<and> m' = m \<and> cs' = cs" if "seq_state c keys n' m' cs' s" for n' m' cs'
      using that st by (intro seq_rows_unique [of c n s m cs]) (simp_all add: seq_state_def)
    with more have "keeps_claims c keys s t" unfolding keeps_claims_def by blast
    with more show ?thesis by (auto simp: store_ok_def)
  qed
  show "\<exists>m cs. seq_state c keys n m cs (final_state states s) \<and> receipt_of k cs receipt"
    if r: "claim_next c n a b k r s = (states, Inr receipt)"
  proof -
    obtain m cs where st: "seq_state c keys n m cs s" using held r by fastforce
    from spec_result [OF claim_next_spec [OF good k] st r] show ?thesis by blast
  qed
qed

section \<open>The tools on the sequences of a site\<close>

lemma try_states: "t \<in> set (fst (bindT (tryT r) f s)) \<longleftrightarrow> (\<exists>x. r = Inr x \<and> t \<in> set (fst (f x s)))"
  by (cases r) (simp_all add: bindT_def tryT_def split_beta)

lemma try_result: "bindT (tryT r) f s = (ts, Inr y) \<longleftrightarrow> (\<exists>x. r = Inr x \<and> f x s = (ts, Inr y))"
  by (cases r) (simp_all add: bindT_def tryT_def split_beta prod_eq_iff)

lemma refuse_states: "t \<in> set (fst (bindT (refuseT_if b e) f s)) \<longleftrightarrow> \<not> b \<and> t \<in> set (fst (f () s))"
  by (simp add: bindT_def refuseT_if_def split_beta)

lemma lock_states:
  assumes "t \<in> set (fst (with_sequence_lock c n m d))"
  obtains s where "s \<in> set (fst (m (store_of d (sha256 (call_host c) n))))"
    "t = AList.update (sha256 (call_host c) n) s d"
  using assms that
  by (auto simp: with_sequence_lock_def locked_def on_sequence_def split_beta split: sum.splits)

lemma lock_result:
  assumes "with_sequence_lock c n m d = (ts, Inr y)"
  obtains states where "m (store_of d (sha256 (call_host c) n)) = (states, Inr y)"
    "ts = map (\<lambda>s. AList.update (sha256 (call_host c) n) s d) states"
  using assms that
  by (auto simp: with_sequence_lock_def locked_def on_sequence_def split_beta prod_eq_iff
      split: sum.splits option.splits)

lemma store_of_update: "store_of (AList.update k s d) h = (if h = k then s else store_of d h)"
  by (simp add: store_of_def update_conv)

lemma store_of_final:
  "store_of (final_state (map (\<lambda>s. AList.update k s d) states) d) h =
     (if h = k then final_state states (store_of d k) else store_of d h)"
  by (cases states rule: rev_cases) (simp_all add: store_of_update)

lemma sequence_create_states:
  assumes "t \<in> set (fst (sequence_create c args d))"
  obtains n a b start k s where "start_at_min (seq_config c) \<le> start"
    "s \<in> set (fst (create_sequence c n a b start k (store_of d (sha256 (call_host c) n))))"
    "t = AList.update (sha256 (call_host c) n) s d"
proof -
  from assms obtain n a b start k where "start_at_min (seq_config c) \<le> start"
    "t \<in> set (fst (with_sequence_lock c n (create_sequence c n a b start k) d))"
    unfolding sequence_create_def try_states refuse_states not_less by blast
  then show ?thesis by (elim lock_states) (rule that)
qed

lemma sequence_claim_states:
  assumes "t \<in> set (fst (sequence_claim_next c args d))"
  obtains n a b k r s where "required (call_schema c) args ''idempotency_key'' = Inr k"
    "s \<in> set (fst (claim_next c n a b k r (store_of d (sha256 (call_host c) n))))"
    "t = AList.update (sha256 (call_host c) n) s d"
  using assms unfolding sequence_claim_next_def try_states
  by (auto elim!: lock_states intro: that)

lemma sequence_claim_result:
  assumes "sequence_claim_next c args d = (ts, Inr y)"
  obtains n a b k r states where "required (call_schema c) args ''idempotency_key'' = Inr k"
    "validated_sequence_name (call_engine c) args = Inr n"
    "claim_next c n a b k r (store_of d (sha256 (call_host c) n)) = (states, Inr y)"
    "ts = map (\<lambda>s. AList.update (sha256 (call_host c) n) s d) states"
  using assms unfolding sequence_claim_next_def try_result
  by (auto elim!: lock_result intro: that)

lemma required_nonempty: "required sch args f = Inr k \<Longrightarrow> k \<noteq> []"
  by (auto simp: required_def ok_or_def trim_def split: option.splits if_splits)

section \<open>Histories\<close>

text \<open>Calls of one site share its engine and its host; what they meet in the file system may differ.\<close>

definition same_site :: "seq_call \<Rightarrow> seq_call \<Rightarrow> bool" where
  "same_site c c' \<longleftrightarrow> call_host c' = call_host c \<and> call_engine c' = call_engine c"

text \<open>A history over the idempotency keys \<open>keys\<close>, with the name, the key and the number of every claim that
  was answered. A call may be cut off at any state on its way.\<close>

inductive sequence_history ::
    "seq_call \<Rightarrow> string set \<Rightarrow> sequences \<Rightarrow> (string \<times> string \<times> u64) list \<Rightarrow> bool"
  for c :: seq_call and keys :: "string set" where
  no_calls: "sequence_history c keys [] []"
| creation: "sequence_history c keys d answers \<Longrightarrow> same_site c c' \<Longrightarrow>
    t \<in> set (fst (sequence_create c' args d)) \<Longrightarrow> sequence_history c keys t answers"
| cut_off: "sequence_history c keys d answers \<Longrightarrow> same_site c c' \<Longrightarrow>
    required (call_schema c') args ''idempotency_key'' = Inr k \<Longrightarrow> k \<in> keys \<Longrightarrow>
    t \<in> set (fst (sequence_claim_next c' args d)) \<Longrightarrow> sequence_history c keys t answers"
| claimed: "sequence_history c keys d answers \<Longrightarrow> same_site c c' \<Longrightarrow>
    required (call_schema c') args ''idempotency_key'' = Inr k \<Longrightarrow> k \<in> keys \<Longrightarrow>
    validated_sequence_name (call_engine c') args = Inr n \<Longrightarrow>
    sequence_claim_next c' args d = (ts, Inr r) \<Longrightarrow> receipt_number r = Some v \<Longrightarrow>
    sequence_history c keys (final_state ts d) ((n, k, v) # answers)"

lemma same_site_state:
  assumes "same_site c c'"
  shows "seq_state c' = seq_state c" "store_ok c' = store_ok c" "keeps_claims c' = keeps_claims c"
    "sequences_ok (call_engine c') = sequences_ok (call_engine c)" "call_host c' = call_host c"
proof -
  have eq: "call_host c' = call_host c" "call_engine c' = call_engine c"
    using assms by (simp_all add: same_site_def)
  then have "verify_sequence_manifest c' = verify_sequence_manifest c" "claim_names c' = claim_names c"
    "claim_ids_of c' = claim_ids_of c" "ids_apart c' = ids_apart c"
    by (simp_all add: fun_eq_iff verify_sequence_manifest_def claim_names_def claim_ids_of_def ids_apart_def
        cong: option.case_cong)
  with eq show state: "seq_state c' = seq_state c"
    by (simp add: fun_eq_iff seq_state_def seq_rows_def)
  with eq show "store_ok c' = store_ok c" "keeps_claims c' = keeps_claims c"
    by (simp_all add: fun_eq_iff store_ok_def keeps_claims_def)
  from eq show "sequences_ok (call_engine c') = sequences_ok (call_engine c)" "call_host c' = call_host c"
    by simp_all
qed

text \<open>Every store is in order, and every logged claim is a claim of its sequence.\<close>

definition logged :: "seq_call \<Rightarrow> string set \<Rightarrow> sequences \<Rightarrow> string \<times> string \<times> u64 \<Rightarrow> bool" where
  "logged c keys d = (\<lambda>(n, k, v). \<exists>m cs x. seq_state c keys n m cs (store_of d (sha256 (call_host c) n)) \<and>
     x \<in> set cs \<and> claim_key x = k \<and> claim_num x = v)"

lemma logged_kept:
  assumes "logged c keys d entry" "\<And>h. keeps_claims c keys (store_of d h) (store_of t h)"
  shows "logged c keys t entry"
  using assms unfolding logged_def keeps_claims_def by (cases entry) (auto, metis Un_iff set_append)

lemma history_invariant:
  assumes "sequence_history c keys d answers" "sequences_ok (call_engine c)"
  shows "(\<forall>h. store_ok c keys h (store_of d h)) \<and> (\<forall>entry \<in> set answers. logged c keys d entry)"
  using assms(1)
proof (induction rule: sequence_history.induct)
  case no_calls
  then show ?case by (simp add: store_of_def store_ok_empty)
next
  case (creation d answers c' t args)
  note site = same_site_state [OF creation.hyps(2)]
  from creation.hyps(3) obtain n a b start k s where start: "start_at_min (seq_config c') \<le> start"
    and s: "s \<in> set (fst (create_sequence c' n a b start k (store_of d (sha256 (call_host c') n))))"
    and t: "t = AList.update (sha256 (call_host c') n) s d"
    by (rule sequence_create_states)
  have "store_ok c keys (sha256 (call_host c) n) s \<and> keeps_claims c keys (store_of d (sha256 (call_host c) n)) s"
    using create_sequence_states [OF _ start _ s] creation.IH assms(2) by (simp add: site)
  then have "store_ok c keys h (store_of t h)" "keeps_claims c keys (store_of d h) (store_of t h)" for h
    using creation.IH by (simp_all add: t site store_of_update keeps_claims_refl)
  then show ?case using creation.IH logged_kept by blast
next
  case (cut_off d answers c' args k t)
  note site = same_site_state [OF cut_off.hyps(2)]
  from cut_off.hyps(5) obtain n a b r s
    where s: "s \<in> set (fst (claim_next c' n a b k r (store_of d (sha256 (call_host c') n))))"
    and t: "t = AList.update (sha256 (call_host c') n) s d"
    by (rule sequence_claim_states) (use cut_off.hyps(3) in auto)
  have "store_ok c keys (sha256 (call_host c) n) s \<and> keeps_claims c keys (store_of d (sha256 (call_host c) n)) s"
    using claim_next_states(1) [OF _ cut_off.hyps(4) required_nonempty [OF cut_off.hyps(3)] _ s]
      cut_off.IH assms(2) by (simp add: site)
  then have "store_ok c keys h (store_of t h)" "keeps_claims c keys (store_of d h) (store_of t h)" for h
    using cut_off.IH by (simp_all add: t site store_of_update keeps_claims_refl)
  then show ?case using cut_off.IH logged_kept by blast
next
  case (claimed d answers c' args k n ts r v)
  note site = same_site_state [OF claimed.hyps(2)]
  note key = claimed.hyps(4) required_nonempty [OF claimed.hyps(3)]
  from claimed.hyps(6) obtain a b q states
    where run: "claim_next c' n a b k q (store_of d (sha256 (call_host c') n)) = (states, Inr r)"
    and ts: "ts = map (\<lambda>s. AList.update (sha256 (call_host c') n) s d) states"
    by (rule sequence_claim_result) (use claimed.hyps(3,5) in auto)
  let ?h = "sha256 (call_host c) n" and ?t = "final_state ts d"
  have good: "sequences_ok (call_engine c')" "store_ok c' keys (sha256 (call_host c') n) (store_of d ?h)"
    using claimed.IH assms(2) by (simp_all add: site)
  have "s \<in> set (fst (claim_next c' n a b k q (store_of d ?h)))" if "s \<in> set states" for s
    using run that by (simp add: site)
  then have step: "store_ok c keys ?h s \<and> keeps_claims c keys (store_of d ?h) s"
    if "s = store_of d ?h \<or> s \<in> set states" for s
    using claim_next_states(1) [OF good(1) key good(2)] that claimed.IH keeps_claims_refl
    unfolding site by blast
  then have final: "store_ok c keys h (store_of ?t h)" "keeps_claims c keys (store_of d h) (store_of ?t h)" for h
    using claimed.IH final_state_in [of states "store_of d ?h"]
    by (simp_all add: ts site store_of_final keeps_claims_refl)
  have "\<exists>m cs. seq_state c' keys n m cs (final_state states (store_of d ?h)) \<and> receipt_of k cs r"
    using claim_next_states(2) [OF good(1) key good(2)] run by (simp add: site)
  then have "logged c keys ?t (n, k, v)"
    using claimed.hyps(7) by (auto simp: logged_def ts site store_of_final receipt_of_def)
  then show ?case using claimed.IH final logged_kept by auto
qed

end
