(* ===== verification/Domain_Contract.thy ===== *)
theory Domain_Contract
  imports Domain_Sequence_History "HOL-Library.Code_Target_Nat"
begin

text \<open>
  The contract of the sequences, with a site whose sequence is created and claimed from twice as the
  concrete input of the witnesses. Its descriptor is that of \<^verbatim>\<open>ledger-domain-epistemic/domain.json\<close> where the
  sequences read it, with shorter names.
\<close>

section \<open>Example values\<close>

definition demo_rule :: extension_rule where
  "demo_rule = \<lparr>must_contain = '':'', rule_pattern = '''', rule_examples = [], rule_refusal_code = ''r''\<rparr>"

definition demo_sequences :: sequences_feature where
  "demo_sequences =
     \<lparr>manifest_schema_id = ''m'', claim_schema_id = ''c'', claim_receipt_schema_id = ''r'', status_schema_id = ''t'',
      list_schema_id = ''l'', claims_schema_id = ''cs'', idempotency_schema_id = ''i'', sequence_step = 1,
      start_at_min = 1, claim_file_pattern = ''claims/claim-{value:020}.json'', manifest_hash_field = ''mh'',
      claim_hash_field = ''ch'', claim_chain_field = ''pc''\<rparr>"

definition demo_domain :: descriptor where
  "demo_domain =
     \<lparr>identity = \<lparr>tool_prefix = ''e'', schema_namespace = ''n'', error_schema_id = ''e''\<rparr>,
      storage = \<lparr>control_root_subdir = ''e'', runtime_subdir = ''r'', ledger_file_prefix = ''ev'',
        event_schema_id = ''ev'', event_hash_field = ''h'', ledger_subdir = ''l'',
        proposals_subdir = ''p'', sequences_subdir = ''s''\<rparr>,
      entity_config = \<lparr>core_kinds = [], conditional_fields = [], entity_extension = demo_rule\<rparr>,
      relation_config = \<lparr>core_relations = [], relation_extension = demo_rule\<rparr>,
      operation_config = \<lparr>operation_fields = [], evidence_entry = JNull, evidence_at_review = [],
        reference_bindings = []\<rparr>,
      ids = \<lparr>entity_recipe = \<lparr>entity_applies_to = ''ec'', entity_template = ''{'',
          digest_input_fields = []\<rparr>,
        relation_recipe = \<lparr>relation_applies_to = ''rc'', relation_template = ''{'',
          hash_input = ''''\<rparr>,
        local_refs = \<lparr>declare_field = ''lr'', duplicate_refusal_code = ''d'', reference_fields = [],
          unresolved_refusal_code = ''u''\<rparr>,
        identity_prefixes = [],
        proposal_key = \<lparr>key_template = ''{'', input_fields = []\<rparr>,
        admission_key = \<lparr>key_template = ''{'', input_fields = []\<rparr>,
        generated = \<lparr>proposal_id_template = ''{'', sequence_id_template = ''s{[..24]}'',
          claim_id_template = ''c{[..24]}''\<rparr>\<rparr>,
      projection_config = \<lparr>ddl = '''', fold_entries = []\<rparr>,
      queries = \<lparr>communication = \<lparr>canonical_kind = '''', legacy_read_aliases = [], contract_version = 1,
          canonicalization_operation = '''', legacy_write_refusal_code = '''', collision_refusal_code = '''',
          communication_fields = [], content_any_of = []\<rparr>,
        kind_aliases = [], named_queries = [], relation_inverses = []\<rparr>,
      caps = \<lparr>operations_per_proposal = \<lparr>bound_min = 1, bound_max = 200\<rparr>,
        proposal_read_limit = \<lparr>cap_max = 100, cap_default = 20\<rparr>,
        sequence_name_chars = \<lparr>bound_min = 1, bound_max = 120\<rparr>, authority_basis_bytes = 16384,
        resulting_operations = \<lparr>bound_min = 1, bound_max = 200\<rparr>, capture_sources_min = 1,
        capture_combined_max = 200\<rparr>,
      proposals_config = \<lparr>proposal_schema_id = '''', submission_receipt_schema_id = '''', review_schema_id = '''',
        admission_receipt_schema_id = '''', rejection_schema_id = '''', resubmission_schema_id = '''',
        source_capture_schema_id = '''', compound_schema_id = '''', read_schema_id = '''',
        admission_event_kind = ''a'', review_gate_preserved = True, certifies_truth = False,
        capture_requires_admission = True, missing_drop_refusal_code = ''n''\<rparr>,
      sequences_config = demo_sequences\<rparr>"

definition demo_engine :: engine where
  "demo_engine = \<lparr>domain = demo_domain, engine_tables = [], entity_table = ''es'',
     relation_table = ''rs'', records_table = ''r'', datoms_table = None, projection_meta_table = None\<rparr>"

definition demo_site_host :: host where
  "demo_site_host = demo_host\<lparr>sha256_bytes := (\<lambda>b. take 16 (rev b @ replicate 16 (CHR ''.'')))\<rparr>"

definition demo_seq :: seq_call where
  "demo_seq = \<lparr>call_host = demo_site_host, call_site = \<lparr>root_text = ''/s'', base_name = Some ''s''\<rparr>,
     call_engine = demo_engine, prepare_fault = None, call_lock = demo_lock (\<lambda>n. (Inr (), 0)),
     stamp = (\<lambda>_. ''t''), make_claims_fault = None, make_index_fault = None, read_claims_fault = None,
     read_sequences_fault = None, manifest_write = quiet_write, claim_write = quiet_write, index_write = quiet_write\<rparr>"

definition demo_args :: "string \<Rightarrow> jmap" where
  "demo_args k = [(''sequence_name'', JStr ''s''), (''actor'', JStr ''a''),
     (''authority_basis'', JObj [(''kind'', JStr ''k'')]), (''idempotency_key'', JStr k)]"

definition demo_hash :: string where
  "demo_hash = ''762e2e2e2e2e2e2e2e2e2e2e2e2e2e2e''"

definition demo_manifest :: json where
  "demo_manifest =
     JObj [(''schema'', JStr ''m''), (''sequence_id'', JStr ''s732e2e2e2e2e2e2e2e2e2e2e''),
       (''sequence_name'', JStr ''s''), (''start_at'', JNum (PosInt 1)), (''step'', JNum (PosInt 1)),
       (''created_by'', JStr ''a''),
       (''identity_state'', identity_state_for_event ''t'' ''a'' ''ledger.sequence_create''),
       (''authority_basis'', JObj [(''kind'', JStr ''k'')]), (''idempotency_key'', JStr ''c''),
       (''created_at'', JStr ''t''), (''mh'', JStr demo_hash)]"

definition demo_claimed :: "string \<Rightarrow> string \<Rightarrow> u64 \<Rightarrow> json \<Rightarrow> json" where
  "demo_claimed k i v previous =
     JObj [(''schema'', JStr ''c''), (''sequence_id'', JStr ''s732e2e2e2e2e2e2e2e2e2e2e''),
       (''sequence_name'', JStr ''s''), (''value'', JNum (PosInt v)), (''claim_id'', JStr i),
       (''pc'', previous), (''actor'', JStr ''a''),
       (''identity_state'', identity_state_for_event ''t'' ''a'' ''ledger.sequence_claim''),
       (''authority_basis'', JObj [(''kind'', JStr ''k'')]), (''idempotency_key'', JStr k),
       (''request_digest'', JStr demo_hash), (''claimed_at'', JStr ''t''), (''ch'', JStr demo_hash)]"

definition after_create :: sequences where
  "after_create = [(''732e2e2e2e2e2e2e2e2e2e2e2e2e2e2e'',
     \<lparr>sq_files = [(''sequence.json'', JsonFile demo_manifest)], sq_claims = Some [], sq_index = Some []\<rparr>)]"

definition demo_store :: seq_store where
  "demo_store = \<lparr>sq_files = [(''sequence.json'', JsonFile demo_manifest)],
     sq_claims = Some [(''claim-00000000000000000001.json'',
       JsonFile (demo_claimed ''k'' ''c6b00732e2e2e2e2e2e2e2e2e'' 1 JNull))],
     sq_index = Some [(''6b2e2e2e2e2e2e2e2e2e2e2e2e2e2e2e.json'',
       JsonFile (JObj [(''schema'', JStr ''i''), (''idempotency_key'', JStr ''k''),
         (''claim_id'', JStr ''c6b00732e2e2e2e2e2e2e2e2e''), (''value'', JNum (PosInt 1))]))]\<rparr>"

definition after_first :: sequences where
  "after_first = [(''732e2e2e2e2e2e2e2e2e2e2e2e2e2e2e'', demo_store)]"

definition numbers :: "sequences list \<times> (failure + json) \<Rightarrow> u64 option" where
  "numbers out = (case snd out of Inl _ \<Rightarrow> None | Inr r \<Rightarrow> receipt_number r)"

lemma demo_ok: "sequences_ok demo_engine"
  by code_simp

section \<open>The calls\<close>

text \<open>The creation and the first claim are evaluated as a whole, the second claim step by step.\<close>

lemma demo_creation:
  "(case sequence_create demo_seq (demo_args ''c'') [] of (states, _) \<Rightarrow>
      states \<noteq> [] \<and> final_state states [] = after_create)"
  by code_simp

lemma demo_first:
  "(case sequence_claim_next demo_seq (demo_args ''k'') after_create of (states, r) \<Rightarrow>
      final_state states after_create = after_first \<and> numbers (states, r) = Some 1)"
  by code_simp

abbreviation demo_basis :: json where
  "demo_basis \<equiv> JObj [(''kind'', JStr ''k'')]"

abbreviation demo_rows :: "json list" where
  "demo_rows \<equiv> [demo_claimed ''k'' ''c6b00732e2e2e2e2e2e2e2e2e'' 1 JNull]"

lemma demo_args_read:
  "prepare_site demo_seq = Inr ()"
  "validated_sequence_name (call_engine demo_seq) (demo_args ''m'') = Inr ''s''"
  "required (call_schema demo_seq) (demo_args ''m'') ''actor'' = Inr ''a''"
  "authority_basis_of demo_seq (demo_args ''m'') = Inr demo_basis"
  "required (call_schema demo_seq) (demo_args ''m'') ''idempotency_key'' = Inr ''m''"
  "request_digest_of demo_seq ''s'' ''a'' demo_basis = Inr demo_hash"
  "sha256 (call_host demo_seq) ''s'' = ''732e2e2e2e2e2e2e2e2e2e2e2e2e2e2e''"
  "acquire (call_schema demo_seq) ''sequence-732e2e2e2e2e2e2e2e2e2e2e2e2e2e2e'' (call_lock demo_seq) = Inr ()"
  "unlock_fault (call_lock demo_seq) = None"
  by code_simp+

lemma demo_state_read:
  "load_sequence_manifest demo_seq ''s'' demo_store = Inr demo_manifest"
  "verified_sequence_claims demo_seq ''s'' demo_manifest demo_store = Inr demo_rows"
  "find_sequence_claim_by_idempotency demo_rows ''m'' = None"
  "start_of demo_manifest = Inr 1"
  "claim_value demo_seq ''s'' 1 demo_rows = Inr 2"
  "generated_claim_id (call_engine demo_seq) (call_host demo_seq) ''s'' ''m'' = Inr ''c6d00732e2e2e2e2e2e2e2e2e''"
  "claim_previous demo_seq demo_rows = Some demo_hash"
  by code_simp+

lemma demo_digests: "digest_value (call_host demo_seq) sch v = Inr demo_hash"
proof -
  have "sha256 demo_site_host ''v'' = demo_hash" by code_simp
  then show ?thesis by (simp add: digest_value_def demo_seq_def demo_site_host_def demo_host_def)
qed

lemma bind_try: "bindT (tryT (Inr x)) f = f x"
  by (simp add: fun_eq_iff bindT_def tryT_def)

lemma bind_ask: "f s = Inr x \<Longrightarrow> bindT (askT f) g s = g x s"
  by (simp add: bindT_def askT_def)

lemma demo_second_claim:
  "(case claim_next demo_seq ''s'' ''a'' demo_basis ''m'' demo_hash demo_store of (_, r) \<Rightarrow>
     numbers ([], r) = Some 2)"
  unfolding claim_next_def
  by (subst bind_ask, rule demo_state_read, subst bind_ask, rule demo_state_read,
      unfold demo_state_read option.case fresh_claim_def bind_try demo_digests refused_simps Let_def,
      code_simp)

lemma demo_second: "numbers (sequence_claim_next demo_seq (demo_args ''m'') after_first) = Some 2"
proof -
  have "store_of after_first ''732e2e2e2e2e2e2e2e2e2e2e2e2e2e2e'' = demo_store"
    by (simp add: after_first_def store_of_def)
  with demo_second_claim show ?thesis
    unfolding sequence_claim_next_def demo_args_read refused_simps bind_try with_sequence_lock_def
    by (simp add: locked_def demo_args_read on_sequence_def split_beta numbers_def split: sum.splits)
qed

lemma demo_created: "after_create \<in> set (fst (sequence_create demo_seq (demo_args ''c'') []))"
  using demo_creation by (auto simp: final_state_def split: prod.splits if_splits) (metis last_in_set)

lemma demo_claim:
  assumes "sequence_history demo_seq keys d answers" "k \<in> keys"
    and "numbers (sequence_claim_next demo_seq (demo_args k) d) = Some v"
    and "required (call_schema demo_seq) (demo_args k) ''idempotency_key'' = Inr k"
  shows "sequence_history demo_seq keys (final_state (fst (sequence_claim_next demo_seq (demo_args k) d)) d)
    ((''s'', k, v) # answers)"
proof -
  obtain states r where r: "sequence_claim_next demo_seq (demo_args k) d = (states, Inr r)" "receipt_number r = Some v"
    using assms(3) by (cases "sequence_claim_next demo_seq (demo_args k) d") (auto simp: numbers_def split: sum.splits)
  have "validated_sequence_name (call_engine demo_seq) (demo_args []) = Inr ''s''" by code_simp
  then have "validated_sequence_name (call_engine demo_seq) (demo_args k) = Inr ''s''"
    by (simp add: validated_sequence_name_def required_def demo_args_def)
  from claimed [OF assms(1) _ assms(4,2) this r] r(1) show ?thesis by (simp add: same_site_def)
qed

lemma demo_history_first: "sequence_history demo_seq {''k'', ''m''} after_first [(''s'', ''k'', 1)]"
proof -
  have create: "sequence_history demo_seq {''k'', ''m''} after_create []"
    by (rule creation [OF no_calls _ demo_created]) (simp add: same_site_def)
  have k: "required (call_schema demo_seq) (demo_args ''k'') ''idempotency_key'' = Inr ''k''" by code_simp
  show ?thesis
    using demo_claim [OF create _ _ k, of 1] demo_first by (auto split: prod.splits)
qed

lemma demo_claims_history:
  "\<exists>d. sequence_history demo_seq {''k'', ''m''} d [(''s'', ''m'', 2), (''s'', ''k'', 1)]"
  using demo_claim [OF demo_history_first _ demo_second demo_args_read(5)] by blast

lemma demo_apart: "ids_apart demo_seq {''k'', ''m''}"
proof -
  have ids: "template_truncation ''c{[..24]}'' 24 = 24" by code_simp
  have "hex_byte (CHR ''k'') \<noteq> hex_byte (CHR ''m'')" by (simp add: hex_byte_inject)
  then show ?thesis
    unfolding ids_apart_def generated_claim_id_def derived_id_def
    by (auto simp: demo_seq_def demo_engine_def demo_domain_def ids sha256_def demo_site_host_def hex_byte_def
        bindR_Inr_iff)
qed

section \<open>The contract\<close>

text \<open>C20. However the creations and claims of a site were ordered, repeated or cut off, two answered claims
  of one sequence have the same number exactly if they have the same idempotency key.\<close>

theorem claimed_numbers_unique:
  assumes "sequence_history c keys d answers" "sequences_ok (call_engine c)"
    and "(n, k, v) \<in> set answers" "(n, k', v') \<in> set answers"
  shows "v = v' \<longleftrightarrow> k = k'"
proof -
  have "logged c keys d (n, k, v)" "logged c keys d (n, k', v')"
    using history_invariant [OF assms(1,2)] assms(3,4) by blast+
  then obtain m cs x m' cs' x' where rows: "seq_rows c n (store_of d (sha256 (call_host c) n)) m cs"
      "seq_rows c n (store_of d (sha256 (call_host c) n)) m' cs'"
    and x: "x \<in> set cs" "claim_key x = k" "claim_num x = v"
    and x': "x' \<in> set cs'" "claim_key x' = k'" "claim_num x' = v'"
    by (auto simp: logged_def seq_state_def)
  have "cs' = cs" using seq_rows_unique [OF rows] by simp
  moreover have "claim_rows (manifest_start m) cs" using rows(1) by (simp add: seq_rows_def)
  ultimately show ?thesis using claim_rows_same x x' by metis
qed

theorem claimed_numbers_unique_witness: "(2 :: u64) = 1 \<longleftrightarrow> ''m'' = ''k''"
proof -
  obtain d where d: "sequence_history demo_seq {''k'', ''m''} d [(''s'', ''m'', 2), (''s'', ''k'', 1)]"
    using demo_claims_history by blast
  have "sequences_ok (call_engine demo_seq)" using demo_ok by (simp add: demo_seq_def)
  then show ?thesis
    by (rule claimed_numbers_unique [OF d, where n = "''s''"]) simp_all
qed

text \<open>C21. While no two keys share a truncated claim id, the claims of a sequence always pass the verification,
  and their values are the numbers from the start on, in the order of the claims, without a gap, a repetition
  or a wrap-around.\<close>

theorem claims_contiguous:
  assumes "sequence_history c keys d answers" "sequences_ok (call_engine c)" "ids_apart c keys"
    and "load_sequence_manifest c n (store_of d (sha256 (call_host c) n)) = Inr m" "read_claims_fault c = None"
  shows "\<exists>cs. verified_sequence_claims c n m (store_of d (sha256 (call_host c) n)) = Inr cs \<and>
    map claim_num cs = map (\<lambda>i. manifest_start m + of_nat i) [0..<length cs] \<and>
    distinct (map claim_num cs) \<and> (cs = [] \<or> unat (manifest_start m) + length cs \<le> 2 ^ 64)"
proof -
  let ?s = "store_of d (sha256 (call_host c) n)"
  have held: "map_of (sq_files ?s) ''sequence.json'' = Some (JsonFile m)"
    and verified: "verify_sequence_manifest c m n = Inr ()"
    using load_manifest_name [OF assms(4)] by blast+
  have "store_ok c keys (sha256 (call_host c) n) ?s" using history_invariant [OF assms(1,2)] by blast
  with held obtain n' m' cs where st: "seq_state c keys n' m' cs ?s" by (auto simp: store_ok_def unmade_def)
  with held have "m' = m" by (simp add: seq_state_def seq_rows_def)
  with st have rows: "seq_rows c n' ?s m cs" and chain: "claim_chain (call_host c) (seq_config c) n' m
      (manifest_start m) None [] [] cs"
    using assms(3) by (simp_all add: seq_state_def)
  then have "n' = n" using verified by (auto simp: seq_rows_def dest: verified_manifest_name)
  with rows chain have "verified_sequence_claims c n m ?s = Inr cs" "claim_rows (manifest_start m) cs"
    using seq_rows_verifies [OF _ assms(5)] by (auto simp: seq_rows_def)
  with claim_rows_values claim_rows_distinct show ?thesis by (metis claim_rows_def)
qed

theorem claims_contiguous_witness:
  "\<exists>d cs. verified_sequence_claims demo_seq ''s'' demo_manifest (store_of d (sha256 (call_host demo_seq) ''s'')) = Inr cs \<and>
     map claim_num cs = [1]"
proof -
  let ?s = "store_of after_first (sha256 (call_host demo_seq) ''s'')"
  have "sequence_history demo_seq {''k'', ''m''} after_first [(''s'', ''k'', 1)]" by (rule demo_history_first)
  moreover have "sequences_ok (call_engine demo_seq)" "read_claims_fault demo_seq = None"
    using demo_ok by (simp_all add: demo_seq_def)
  moreover have s: "?s = demo_store" by (simp add: demo_args_read after_first_def store_of_def)
  ultimately obtain cs where "verified_sequence_claims demo_seq ''s'' demo_manifest ?s = Inr cs"
    "map claim_num cs = map (\<lambda>i. manifest_start demo_manifest + of_nat i) [0..<length cs]"
    using claims_contiguous [OF _ _ demo_apart, of after_first _ "''s''" demo_manifest] demo_state_read(1) by metis
  moreover have "manifest_start demo_manifest = 1" by code_simp
  moreover from calculation(1) have "length cs = 1" by (auto simp: s demo_state_read)
  ultimately show ?thesis by (intro exI [of _ after_first] exI [of _ cs]) simp
qed

end
