(* ===== verification/Spec2Isabelle.thy ===== *)
theory Spec2Isabelle
  imports Ledger_Contract Authority_Lock Projection Query_Execute Query_Budget Sched_Contract Sched_Admission Sched_Roundtrip Sop_Demo Sop_Run_Demo Domain_Contract
begin

text \<open>
  A verification library for the Rust core of narada mcp-surfaces.

  The repository is a family of MCP servers (\<^emph>\<open>surfaces\<close>) that keep their facts in files of a
  site. Four parts carry the logic that the surfaces rest on, and they are modelled here. Paths are
  under \<^verbatim>\<open>src/packages/shared\<close>.

  \<^bold>\<open>The event ledger\<close> (\<^verbatim>\<open>event-ledger-native/native/src\<close>). Facts are immutable event files, one per
  event, linked by a hash chain; databases are projections that can be thrown away.
  \<^item> \<open>Json\<close>, \<open>Refusals\<close>: \<^verbatim>\<open>serde_json::Value\<close> and the helpers of \<^verbatim>\<open>error.rs\<close>, \<^verbatim>\<open>digest.rs\<close>,
    \<^verbatim>\<open>args.rs\<close>.
  \<^item> \<open>Records\<close> (\<^verbatim>\<open>io.rs\<close>): \<open>write_new\<close>, listings and reads over one directory \<open>dir\<close>. A write returns
    every directory state it passes through, so that a crash is a prefix of that list.
  \<^item> \<open>Chain\<close> (\<^verbatim>\<open>chain.rs\<close>): \<open>verify_files\<close>, the recomputation of hashes, idempotency markers.
  \<^item> \<open>Ledger\<close>, \<open>Ledger_State\<close>, \<open>Ledger_History\<close>, \<open>Ledger_Contract\<close> (\<^verbatim>\<open>ledger.rs\<close>): \<open>append_event\<close>; the
    abstraction \<open>ledger_state\<close> of a directory to a list of events; histories of appends, refusals and
    crashes; and the promises: appends are atomic, only the current head can be extended, a reached
    ledger verifies, records never change, the head hash determines the ledger.
  \<^item> \<open>Authority_Lock\<close> (\<^verbatim>\<open>lock.rs\<close>): the polling loop, with fuel; \<open>lock_fuel\<close> is proved to be enough.
  \<^item> \<open>Projection\<close> (\<^verbatim>\<open>projection.rs\<close>): the rebuild replaces the old database or leaves it.
  \<^item> \<open>Query_Terms\<close>, \<open>Query_Parse\<close>, \<open>Query_Eval\<close>, \<open>Query_Reach\<close>, \<open>Query_Semantics\<close>, \<open>Query_Execute\<close>
    (\<^verbatim>\<open>query/parts/01.rs\<close> to \<^verbatim>\<open>06.rs\<close>): the query language, its limits, evaluator and pages, with a
    declarative semantics \<open>sat\<close> that the planner is proved to compute on data without arrays, objects and
    zero doubles.
  \<^item> \<open>Query_Budget\<close>: a reference evaluator that records the datoms it looks at and the edges it follows;
    the budgeted one succeeds exactly when the record fits the limits.

  \<^bold>\<open>The activation scheduler\<close> (\<^verbatim>\<open>mcp-surfaces-native/native/src/scheduler_activation/parts\<close>). Source
  events are admitted once and create activations for the bindings they match; consumers claim an
  activation under a lease with a fencing token, and admit a run or report a failure.
  \<^item> \<open>Sched_Values\<close>, \<open>Sched_Store\<close>: arguments, digests, the clock; the tables with their constraints.
  \<^item> \<open>Sched_Bindings\<close>, \<open>Sched_Events\<close>, \<open>Sched_Queue\<close>, \<open>Sched_Database\<close>: one definition per tool.
  \<^item> \<open>Sched_Invariant\<close>: the invariant \<open>wf_file\<close> of the tables and the order \<open>file_le\<close> that every tool
    moves them up; the file with its tools interprets the locale \<open>monotone_system\<close> of \<open>Prelude\<close>.
  \<^item> \<open>Sched_Demo\<close>, \<open>Sched_Contract\<close>, \<open>Sched_Admission\<close>, \<open>Sched_Roundtrip\<close>: a concrete history, and what
    the scheduler promises.

  \<^bold>\<open>Operating procedures\<close> (\<^verbatim>\<open>sop_engine/parts\<close> and \<^verbatim>\<open>sop_authority/parts\<close> of the same crate). A
  procedure is a list of steps that wait for one another; its definition is validated before it is
  stored, and its steps are started with values taken from the context of the run.
  \<^item> \<open>Sop_Values\<close>: references, mappings, conditions, instruction templates, canonical text.
  \<^item> \<open>Sop_Definition\<close>, \<open>Sop_Graph\<close>: the validation of steps, conditions, references and dependencies.
  \<^item> \<open>Sop_Acyclic\<close>, \<open>Sop_Contract\<close>, \<open>Sop_Conditions\<close>, \<open>Sop_References\<close>, \<open>Sop_Demo\<close>: the depth-first
    search decides acyclicity, an accepted procedure never blocks itself, its conditions cannot go
    wrong, and a step reads only what it depends on.

  A run is one execution of a procedure. It is a row with the states of its steps, and around it stand
  the rows of its actions and handoffs (work for others), the event of the outbox that announces its
  end, and the audit trail.
  \<^item> \<open>Sop_Tables\<close>, \<open>Sop_Effects\<close>: the schema with its keys, checks and references; a state monad over
    the tables and a count of draws (clock readings, uuids, faults); \<open>transactional\<close> (\<^verbatim>\<open>sop_authority\<close>
    parts 01, 06, 07, 12).
  \<^item> \<open>Sop_Runs\<close> (\<^verbatim>\<open>sop_engine\<close> parts 07, 08), \<open>Sop_Handoffs\<close> (parts 02, 09; authority 04, 05),
    \<open>Sop_Actions\<close> (10, 14), \<open>Sop_Outbox\<close> (15; authority 05, 06), \<open>Sop_Admission\<close> (05, 06): hydration with
    its integrity checks, and the writes of each table.
  \<^item> \<open>Sop_Reconcile\<close> (\<^verbatim>\<open>sop_engine\<close> parts 10 to 14): passes over the running and the pending steps,
    child runs, the settling of the run. The recursion into child runs and ancestors takes fuel; it
    stands for the depth of the call stack, and a stop at its end is the value \<open>Unfinished\<close>.
  \<^item> \<open>Sop_Run_Tools\<close>, \<open>Sop_Endings\<close> (parts 01 to 04), \<open>Sop_Authoring\<close> (authority 01, 02, 03, 07, 08,
    11): the tools on runs and on templates, and \<open>authority_call\<close>, the dispatch of all of them.
  \<^item> \<open>Sop_Steps\<close>, \<open>Sop_Passes\<close>, \<open>Sop_Waiting\<close>: the passes keep the shape of the steps, converge below the
    limit of the code, and leave a run that is over or waits: the last pass has found every running
    step with its handoff recorded, its action pending or its child run open.
  \<^item> \<open>Sop_Orders\<close>, \<open>Sop_History\<close>: every operation moves the tables up an order of the locales
    \<open>quiet_order\<close> and \<open>engine_order\<close>; interpreted, this gives that history is append-only, keys are
    unique, references exist and an occurrence is admitted once, over every sequence of calls
    (\<open>tool_calls\<close>).
  \<^item> \<open>Sop_Finality\<close>: ended runs stay ended, and events tell the truth. \<open>Sop_Run_Demo\<close>: a template, a run
    and its end, evaluated.

  \<^bold>\<open>Ledger domains\<close> (\<^verbatim>\<open>packages/ledger-domain-mcp/native/src\<close>). A descriptor turns the event ledger into
  a domain with its own vocabulary; beside the ledger a domain keeps sequences, named counters whose
  numbers are claimed one by one under idempotency keys.
  \<^item> \<open>Domain_Descriptor\<close> (\<^verbatim>\<open>descriptor/parts\<close>, \<^verbatim>\<open>engine/parts/01.rs\<close>, \<^verbatim>\<open>engine/impl_parts/01.rs\<close>, \<^verbatim>\<open>30.rs\<close>): the
    typed descriptor, the engine, the stores of a site.
  \<^item> \<open>Domain_Steps\<close>: operations that return every state they pass through, the authority lock around them,
    and contracts (\<open>spec\<close>) with one rule per combinator.
  \<^item> \<open>Domain_Sequences\<close> (\<^verbatim>\<open>impl_parts/05.rs\<close>, \<^verbatim>\<open>06.rs\<close>, \<^verbatim>\<open>29.rs\<close>, \<^verbatim>\<open>30.rs\<close>): creation, claims, status, listings, and
    the verification of manifests and claims.
  \<^item> \<open>Domain_Claims\<close>, \<open>Domain_Sequence_Contract\<close>, \<open>Domain_Sequence_History\<close>, \<open>Domain_Contract\<close>: the
    verification decides \<open>claim_chain\<close>; every operation keeps the rows of a sequence and extends them at the
    end; over every history with calls cut off anywhere, numbers and keys determine each other, and the
    claims verify without a gap.

  \<^bold>\<open>How code becomes HOL.\<close> A \<^verbatim>\<open>Result\<close> is a sum with the error on the left, bound by \<open>bindR\<close>; a
  Rust string is the list of its bytes; \<^verbatim>\<open>u64\<close> and \<^verbatim>\<open>i64\<close> are 64-bit words where wrap-around or
  overflow is observable (sequence numbers, JSON integers); \<^verbatim>\<open>usize\<close> counters are natural numbers
  that saturate where the code saturates. SQL tables are lists of rows in insertion order, and a
  transaction is a function from tables to a result and tables. Loops are structural recursions or
  functions with a termination measure (\<open>visit\<close>, \<open>ancestors\<close>, the search of \<open>apply_reachable\<close>).

  \<^bold>\<open>Parameters.\<close> Third-party code is an argument: \<open>host\<close> (\<^verbatim>\<open>serde_json\<close>'s printers, SHA-256),
  \<open>sched_host\<close> and \<open>time_lib\<close> (the crate \<^verbatim>\<open>time\<close>), \<open>sched_call\<close> (clock readings, the fresh uuid, the
  faults of SQL statements), \<open>sop_host\<close> (the JSON Schema validator, the visiting order of a
  \<^verbatim>\<open>HashSet\<close>), \<open>write_env\<close> and \<open>append_env\<close> (faults of the file system). What is assumed of them is
  always a named hypothesis: \<open>encoder_total\<close> (the encoder has no failing case on a value),
  injectivity of the digest where tamper evidence needs it, \<open>ordered_clock\<close> (the fixed-width text
  of instants sorts as the instants do), \<open>fair_order\<close> (every element is visited), \<open>sleeps\<close>
  (\<^verbatim>\<open>thread::sleep\<close> never wakes early), \<open>key_faithful\<close> (equal values print alike). One assumption is built
  into the state instead: a file holds a JSON value and not its text, so that \<^verbatim>\<open>serde_json\<close> is taken to
  read back what it printed (\<open>Records\<close> says for which values it does not).

  \<^bold>\<open>Not modelled\<close>: the other crates of the repository (file-system, loader, lifecycle, registrar,
  materializer, proxy and mail surfaces, whose logic is mostly input and output against processes
  and services), the proposals, queries and exports of the ledger domains, the TypeScript sources,
  the MCP transport, and the parts of the procedures that the manifest lists as not modelled.
\<close>

end
